(* ===== verification/Prelude.thy ===== *)
theory Prelude
  imports Complex_Main "HOL-Library.Word" "HOL-Library.Char_ord" "HOL-Library.List_Lexorder"
begin

text \<open>
  Shared vocabulary of the development.  It models the parts of the C++ standard library that
  the sources use: \<^verbatim>\<open>std::expected\<close> with early returns (a sum type, \<open>Inl\<close> the error),
  \<^verbatim>\<open>std::ranges::find\<close> followed by an update through the found pointer
  (\<open>modify_first\<close>), \<^verbatim>\<open>std::to_string\<close> on unsigned integers (\<open>decimal\<close>), and the byte value
  of a character.  It also holds the generic laws of event-sourced projections: replaying a
  history through a fallible step function.
\<close>

named_theorems result_simps \<open>success of a chain of early returns\<close>
named_theorems keyed_simps \<open>lists that are looked up and updated by key\<close>
named_theorems digit_simps \<open>decimal digit strings\<close>

type_synonym u64 = "64 word"
type_synonym u32 = "32 word"
type_synonym u16 = "16 word"
type_synonym u8 = "8 word"

abbreviation u64_max :: u64 where
  "u64_max \<equiv> - 1"

section \<open>Early returns: \<^verbatim>\<open>if (c) return std::unexpected(e);\<close>\<close>

definition fail_if :: "bool \<Rightarrow> 'e \<Rightarrow> 'e + 'a \<Rightarrow> 'e + 'a" where
  "fail_if c e k = (if c then Inl e else k)"

lemma fail_if_code [simp]:
  "fail_if True e k = Inl e"
  "fail_if False e k = k"
  by (simp_all add: fail_if_def)

lemma fail_if_Inr [simp, result_simps]: "fail_if c e k = Inr s \<longleftrightarrow> \<not> c \<and> k = Inr s"
  by (simp add: fail_if_def)

lemma fail_if_Inr' [simp]: "Inr s = fail_if c e k \<longleftrightarrow> \<not> c \<and> k = Inr s"
  by (auto simp: fail_if_def)

lemma fail_if_Inl: "fail_if c e k = Inl x \<longleftrightarrow> (c \<and> x = e) \<or> (\<not> c \<and> k = Inl x)"
  by (auto simp: fail_if_def)

lemma isl_fail_if [simp]: "isl (fail_if c e k) \<longleftrightarrow> c \<or> isl k"
  by (simp add: fail_if_def)

fun bind_result :: "'e + 'a \<Rightarrow> ('a \<Rightarrow> 'e + 'b) \<Rightarrow> 'e + 'b" where
  "bind_result (Inl e) f = Inl e"
| "bind_result (Inr x) f = f x"

lemma bind_result_Inr [simp, result_simps]:
  "bind_result r f = Inr s \<longleftrightarrow> (\<exists>x. r = Inr x \<and> f x = Inr s)"
  by (cases r) auto

lemma bind_result_Inl: "bind_result r f = Inl e \<longleftrightarrow> r = Inl e \<or> (\<exists>x. r = Inr x \<and> f x = Inl e)"
  by (cases r) auto

lemma bind_result_assoc: "bind_result (bind_result r f) g = bind_result r (\<lambda>x. bind_result (f x) g)"
  by (cases r) auto

lemma bind_result_return [simp]: "bind_result r Inr = r"
  by (cases r) auto

fun map_error :: "('e \<Rightarrow> 'f) \<Rightarrow> 'e + 'a \<Rightarrow> 'f + 'a" where
  "map_error g (Inl e) = Inl (g e)"
| "map_error g (Inr x) = Inr x"

lemma map_error_Inr [simp, result_simps]: "map_error g r = Inr s \<longleftrightarrow> r = Inr s"
  by (cases r) auto

text \<open>\<^verbatim>\<open>result.has_value()\<close>\<close>

abbreviation ok :: "'e + 'a \<Rightarrow> bool" where
  "ok r \<equiv> \<not> isl r"

lemma ok_iff: "ok r \<longleftrightarrow> (\<exists>s. r = Inr s)"
  by (cases r) auto

section \<open>Lists looked up and updated by key\<close>

text \<open>
  \<^verbatim>\<open>auto* r = find(k); ... r->field = v;\<close> updates the first element that satisfies the
  search predicate.
\<close>

fun modify_first :: "('a \<Rightarrow> bool) \<Rightarrow> ('a \<Rightarrow> 'a) \<Rightarrow> 'a list \<Rightarrow> 'a list" where
  "modify_first P f [] = []"
| "modify_first P f (x # xs) = (if P x then f x # xs else x # modify_first P f xs)"

lemma length_modify_first [simp]: "length (modify_first P f xs) = length xs"
  by (induction xs) auto

lemma map_modify_first [keyed_simps]:
  "(\<And>x. P x \<Longrightarrow> key (f x) = key x) \<Longrightarrow> map key (modify_first P f xs) = map key xs"
  by (induction xs) auto

lemma set_modify_first_subset: "set (modify_first P f xs) \<subseteq> set xs \<union> f ` {x \<in> set xs. P x}"
  by (induction xs) auto

lemma modify_first_none: "(\<forall>x \<in> set xs. \<not> P x) \<Longrightarrow> modify_first P f xs = xs"
  by (induction xs) auto

lemma find_Some_split:
  "find P xs = Some x \<longleftrightarrow> (\<exists>as bs. xs = as @ x # bs \<and> P x \<and> (\<forall>a \<in> set as. \<not> P a))"
proof
  show "find P xs = Some x \<Longrightarrow> \<exists>as bs. xs = as @ x # bs \<and> P x \<and> (\<forall>a \<in> set as. \<not> P a)"
  proof (induction xs)
    case (Cons y xs)
    show ?case
    proof (cases "P y")
      case True
      with Cons.prems show ?thesis by fastforce
    next
      case False
      with Cons obtain as bs where "xs = as @ x # bs" "P x" "\<forall>a \<in> set as. \<not> P a" by auto
      with False have "y # xs = (y # as) @ x # bs \<and> P x \<and> (\<forall>a \<in> set (y # as). \<not> P a)" by simp
      then show ?thesis by blast
    qed
  qed simp
next
  have "find P (as @ x # bs) = Some x" if "P x" "\<forall>a \<in> set as. \<not> P a" for as bs
    using that by (induction as) auto
  then show "\<exists>as bs. xs = as @ x # bs \<and> P x \<and> (\<forall>a \<in> set as. \<not> P a) \<Longrightarrow> find P xs = Some x"
    by auto
qed

lemma find_SomeD: "find P xs = Some x \<Longrightarrow> x \<in> set xs \<and> P x"
  by (auto simp: find_Some_split)

lemma find_None_iff_key: "find (\<lambda>x. key x = k) xs = None \<longleftrightarrow> k \<notin> key ` set xs"
  by (auto simp: find_None_iff)

lemma find_append:
  "find P (xs @ ys) = (case find P xs of None \<Rightarrow> find P ys | Some x \<Rightarrow> Some x)"
  by (induction xs) auto

lemma modify_first_split:
  assumes "find P xs = Some x"
  obtains as bs where "xs = as @ x # bs" and "\<forall>a \<in> set as. \<not> P a" and "P x"
    and "\<And>f. modify_first P f xs = as @ f x # bs"
proof -
  from assms obtain as bs where "xs = as @ x # bs" "P x" "\<forall>a \<in> set as. \<not> P a"
    by (auto simp: find_Some_split)
  moreover have "modify_first P f (as @ x # bs) = as @ f x # bs" for f
    using \<open>P x\<close> \<open>\<forall>a \<in> set as. \<not> P a\<close> by (induction as) auto
  ultimately show ?thesis using that by blast
qed

lemma find_distinct_key:
  "distinct (map key xs) \<Longrightarrow> x \<in> set xs \<Longrightarrow> find (\<lambda>y. key y = key x) xs = Some x"
  by (induction xs) auto

lemma find_modify_first_key:
  assumes "find (\<lambda>y. key y = k) xs = Some x" and "key (f x) = k"
  shows "find (\<lambda>y. key y = k) (modify_first (\<lambda>y. key y = k) f xs) = Some (f x)"
proof -
  from assms(1) obtain as bs where "xs = as @ x # bs" "\<forall>a \<in> set as. key a \<noteq> k"
    and "\<And>g. modify_first (\<lambda>y. key y = k) g xs = as @ g x # bs"
    by (rule modify_first_split) blast
  with assms(2) show ?thesis by (simp add: find_Some_split) blast
qed

lemma find_modify_first_other:
  assumes "k' \<noteq> k" and "\<And>x. key x = k \<Longrightarrow> key (f x) = k"
  shows "find (\<lambda>y. key y = k') (modify_first (\<lambda>y. key y = k) f xs) = find (\<lambda>y. key y = k') xs"
  using assms by (induction xs) auto

text \<open>A list that has only been appended to, and whose old elements have moved along \<open>R\<close>.\<close>

definition prefix_rel :: "('a \<Rightarrow> 'a \<Rightarrow> bool) \<Rightarrow> 'a list \<Rightarrow> 'a list \<Rightarrow> bool" where
  "prefix_rel R xs ys \<longleftrightarrow> length xs \<le> length ys \<and> (\<forall>i < length xs. R (xs ! i) (ys ! i))"

lemma prefix_rel_refl: "(\<And>x. R x x) \<Longrightarrow> prefix_rel R xs xs"
  by (simp add: prefix_rel_def)

lemma prefix_rel_trans:
  "(\<And>x y z. R x y \<Longrightarrow> R y z \<Longrightarrow> R x z) \<Longrightarrow> prefix_rel R xs ys \<Longrightarrow> prefix_rel R ys zs \<Longrightarrow> prefix_rel R xs zs"
  unfolding prefix_rel_def by (meson order.strict_trans2 order.trans)

lemma prefix_rel_append: "(\<And>x. R x x) \<Longrightarrow> prefix_rel R xs (xs @ ys)"
  by (simp add: prefix_rel_def nth_append)

lemma prefix_rel_snoc: "(\<And>x. R x x) \<Longrightarrow> R x y \<Longrightarrow> prefix_rel R (xs @ [x]) (xs @ [y])"
  by (auto simp: prefix_rel_def nth_append less_Suc_eq)

lemma prefix_rel_modify_first:
  "(\<And>x. R x x) \<Longrightarrow> (\<And>x. find P xs = Some x \<Longrightarrow> R x (f x)) \<Longrightarrow> prefix_rel R xs (modify_first P f xs)"
  by (induction xs) (auto simp: prefix_rel_def nth_Cons split: nat.split if_split_asm)

lemma sum_list_modify_first:
  fixes g :: "'a \<Rightarrow> 'b :: ab_group_add"
  assumes "find P xs = Some x"
  shows "sum_list (map g (modify_first P f xs)) = sum_list (map g xs) - g x + g (f x)"
proof -
  from assms obtain as bs where "xs = as @ x # bs" and "modify_first P f xs = as @ f x # bs"
    by (rule modify_first_split) blast
  then show ?thesis by simp
qed

section \<open>Decimal digit strings: \<^verbatim>\<open>std::to_string\<close> and reading digits back\<close>

definition byte :: "char \<Rightarrow> nat" where
  "byte c = of_char c"

definition ascii_digit :: "char \<Rightarrow> bool" where
  "ascii_digit c \<longleftrightarrow> byte CHR ''0'' \<le> byte c \<and> byte c \<le> byte CHR ''9''"

definition digit_of :: "char \<Rightarrow> nat" where
  "digit_of c = byte c - byte CHR ''0''"

definition digit_char :: "nat \<Rightarrow> char" where
  "digit_char d = char_of (byte CHR ''0'' + d)"

lemma byte_less_256: "byte c < 256"
  by (simp add: byte_def)

lemma byte_inject [simp]: "byte c = byte d \<longleftrightarrow> c = d"
  by (simp add: byte_def)

lemma ascii_digit_digit_char [simp, digit_simps]: "d < 10 \<Longrightarrow> ascii_digit (digit_char d)"
  by (simp add: ascii_digit_def digit_char_def byte_def of_char_of)

lemma digit_of_digit_char [simp, digit_simps]: "d < 10 \<Longrightarrow> digit_of (digit_char d) = d"
  by (simp add: digit_of_def digit_char_def byte_def of_char_of)

lemma digit_of_less: "ascii_digit c \<Longrightarrow> digit_of c < 10"
  by (auto simp: ascii_digit_def digit_of_def byte_def)

lemma digit_char_digit_of [simp, digit_simps]: "ascii_digit c \<Longrightarrow> digit_char (digit_of c) = c"
  by (simp add: ascii_digit_def digit_of_def digit_char_def byte_def char_of_eq_iff)

lemma digit_of_inject: "ascii_digit c \<Longrightarrow> ascii_digit d \<Longrightarrow> digit_of c = digit_of d \<longleftrightarrow> c = d"
  by (metis digit_char_digit_of)

lemma digit_of_zero [simp]: "digit_of CHR ''0'' = 0"
  by (simp add: digit_of_def)

lemma ascii_digit_zero [simp]: "ascii_digit CHR ''0''"
  by (simp add: ascii_digit_def byte_def)

lemma digit_of_eq_0: "ascii_digit c \<Longrightarrow> digit_of c = 0 \<longleftrightarrow> c = CHR ''0''"
  by (metis ascii_digit_zero digit_of_inject digit_of_zero)

lemma digit_char_0: "digit_char 0 = CHR ''0''"
  by (metis ascii_digit_zero digit_char_digit_of digit_of_zero)

text \<open>The order of digit characters is the order of their values.\<close>

lemma digit_less_iff:
  "ascii_digit c \<Longrightarrow> ascii_digit d \<Longrightarrow> c < d \<longleftrightarrow> digit_of c < digit_of d"
  by (auto simp: less_char_def ascii_digit_def digit_of_def byte_def)

fun decimal :: "nat \<Rightarrow> string" where
  "decimal n = (if n < 10 then [digit_char n] else decimal (n div 10) @ [digit_char (n mod 10)])"

declare decimal.simps [simp del]

definition digits_value :: "string \<Rightarrow> nat" where
  "digits_value ds = foldl (\<lambda>v c. v * 10 + digit_of c) 0 ds"

abbreviation all_digits :: "string \<Rightarrow> bool" where
  "all_digits ds \<equiv> list_all ascii_digit ds"

lemma digits_value_Nil [simp]: "digits_value [] = 0"
  by (simp add: digits_value_def)

lemma digits_value_snoc [simp]: "digits_value (ds @ [c]) = digits_value ds * 10 + digit_of c"
  by (simp add: digits_value_def)

lemma foldl_digits:
  "foldl (\<lambda>v c. v * 10 + digit_of c) v ds
    = v * 10 ^ length ds + foldl (\<lambda>v c. v * 10 + digit_of c) (0::nat) ds"
proof (induction ds rule: rev_induct)
  case (snoc c ds)
  then show ?case by (simp add: algebra_simps)
qed simp

lemma digits_value_append:
  "digits_value (xs @ ys) = digits_value xs * 10 ^ length ys + digits_value ys"
  unfolding digits_value_def foldl_append by (rule foldl_digits)

lemma digits_value_Cons:
  "digits_value (c # ds) = digit_of c * 10 ^ length ds + digits_value ds"
  using digits_value_append [of "[c]" ds] by (simp add: digits_value_def)

lemma digits_value_replicate_0 [simp]: "digits_value (replicate n CHR ''0'') = 0"
  by (induction n) (auto simp: digits_value_Cons)

lemma digits_value_less: "all_digits ds \<Longrightarrow> digits_value ds < 10 ^ length ds"
proof (induction ds rule: rev_induct)
  case (snoc c ds)
  then have "digits_value ds + 1 \<le> 10 ^ length ds" by (simp add: list_all_append)
  then have "(digits_value ds + 1) * 10 \<le> 10 ^ length ds * 10" by (rule mult_le_mono1)
  moreover have "digit_of c < 10" using snoc.prems by (simp add: digit_of_less)
  ultimately show ?case by simp
qed simp

lemma all_digits_decimal [simp, digit_simps]: "all_digits (decimal n)"
proof (induction n rule: decimal.induct)
  case (1 n)
  then show ?case by (subst decimal.simps) (simp add: list_all_append)
qed

lemma digits_value_decimal [simp, digit_simps]: "digits_value (decimal n) = n"
proof (induction n rule: decimal.induct)
  case (1 n)
  then show ?case by (subst decimal.simps) (auto simp: digits_value_def)
qed

lemma decimal_nonempty [simp]: "decimal n \<noteq> []"
  by (subst decimal.simps) simp

lemma length_decimal_pos [simp]: "0 < length (decimal n)"
  by simp

lemma hd_decimal_nonzero: "0 < n \<Longrightarrow> hd (decimal n) \<noteq> CHR ''0''"
proof (induction n rule: decimal.induct)
  case (1 n)
  show ?case
  proof (cases "n < 10")
    case True
    with 1 have "digit_of (digit_char n) \<noteq> 0" by simp
    then have "digit_char n \<noteq> CHR ''0''" by (metis digit_of_zero)
    with True show ?thesis by (subst decimal.simps) simp
  next
    case False
    with 1 have "hd (decimal (n div 10)) \<noteq> CHR ''0''" by simp
    with False show ?thesis by (subst decimal.simps) simp
  qed
qed

lemma length_decimal_le: "0 < k \<Longrightarrow> n < 10 ^ k \<Longrightarrow> length (decimal n) \<le> k"
proof (induction n arbitrary: k rule: decimal.induct)
  case (1 n)
  show ?case
  proof (cases "n < 10")
    case True
    with "1.prems" show ?thesis by (subst decimal.simps) simp
  next
    case False
    with "1.prems" have k: "1 < k" by (cases "k = 1") auto
    then have "10 ^ k = 10 ^ (k - 1) * (10::nat)" by (cases k) auto
    with "1.prems" have "n div 10 < 10 ^ (k - 1)" by (simp add: less_mult_imp_div_less)
    with "1.IH" False k have "length (decimal (n div 10)) \<le> k - 1" by simp
    with False k show ?thesis by (subst decimal.simps) simp
  qed
qed

text \<open>A digit string without a leading zero is the decimal form of its value.\<close>

lemma canonical_digits:
  "all_digits s \<Longrightarrow> s \<noteq> [] \<Longrightarrow> (1 < length s \<Longrightarrow> hd s \<noteq> CHR ''0'') \<Longrightarrow> s = decimal (digits_value s)"
proof (induction s rule: rev_induct)
  case (snoc c t)
  have c: "ascii_digit c" "digit_of c < 10" using snoc.prems by (auto simp: list_all_append digit_of_less)
  show ?case
  proof (cases "t = []")
    case True
    with c show ?thesis by (subst decimal.simps) (simp add: digits_value_def)
  next
    case False
    then have hd: "hd t \<noteq> CHR ''0''" "ascii_digit (hd t)" "all_digits t"
      using snoc.prems by (auto simp: list_all_append list_all_iff)
    then have "0 < digits_value t"
      using False by (cases t) (auto simp: digits_value_Cons simp flip: digit_of_eq_0)
    moreover have "t = decimal (digits_value t)" using snoc.IH hd False by simp
    ultimately show ?thesis using c by (subst decimal.simps) simp
  qed
qed simp

text \<open>Equal-length digit strings are ordered as the numbers they denote.\<close>

lemma digits_less_iff:
  "length xs = length ys \<Longrightarrow> all_digits xs \<Longrightarrow> all_digits ys
    \<Longrightarrow> xs < ys \<longleftrightarrow> digits_value xs < digits_value ys"
proof (induction xs ys rule: list_induct2)
  case (Cons x xs y ys)
  then have lt: "digits_value xs < 10 ^ length ys" "digits_value ys < 10 ^ length ys"
    and dig: "ascii_digit x" "ascii_digit y"
    using digits_value_less [of xs] digits_value_less [of ys] by auto
  consider "digit_of x < digit_of y" | "digit_of x = digit_of y" | "digit_of y < digit_of x"
    by (rule linorder_cases)
  then show ?case
  proof cases
    case 1
    then have "(digit_of x + 1) * 10 ^ length ys \<le> digit_of y * 10 ^ length ys"
      by (intro mult_le_mono1) simp
    with 1 lt dig Cons.hyps show ?thesis
      by (simp add: Cons_less_Cons digit_less_iff digits_value_Cons)
  next
    case 2
    then have "x = y" using dig by (simp add: digit_of_inject)
    with Cons show ?thesis by (simp add: Cons_less_Cons digits_value_Cons)
  next
    case 3
    then have "(digit_of y + 1) * 10 ^ length ys \<le> digit_of x * 10 ^ length ys"
      by (intro mult_le_mono1) simp
    moreover have "\<not> x < y" "x \<noteq> y" using 3 dig by (auto simp: digit_less_iff)
    ultimately show ?thesis using lt Cons.hyps by (simp add: Cons_less_Cons digits_value_Cons)
  qed
qed simp

lemma digits_eq_iff:
  "length xs = length ys \<Longrightarrow> all_digits xs \<Longrightarrow> all_digits ys
    \<Longrightarrow> xs = ys \<longleftrightarrow> digits_value xs = digits_value ys"
  by (metis digits_less_iff less_irrefl linorder_neq_iff)

section \<open>64-bit unsigned arithmetic\<close>

lemma unat_u64_max: "unat u64_max = 2 ^ 64 - 1"
  by (simp add: unsigned_minus_1_eq_mask mask_eq_exp_minus_1)

lemma unat_u64_less: "unat (c :: u64) < 2 ^ 64"
  using unsigned_less [of c] by simp

lemma unat_mult_no_overflow: "unat a * unat b < 2 ^ 64 \<Longrightarrow> unat (a * b :: u64) = unat a * unat b"
  by (simp add: unat_word_ariths)

lemma unat_add_no_overflow: "unat a + unat b < 2 ^ 64 \<Longrightarrow> unat (a + b :: u64) = unat a + unat b"
  by (simp add: unat_word_ariths)

lemma unat_u64_minus: "unat (u64_max - a :: u64) = 2 ^ 64 - 1 - unat a"
proof -
  have "a \<le> u64_max" by simp
  then have "unat (u64_max - a) = unat u64_max - unat a" by (simp add: word_le_nat_alt unat_sub_if')
  then show ?thesis by (simp only: unat_u64_max)
qed

text \<open>The overflow guards of the sources: \<^verbatim>\<open>amount > max - total\<close>.\<close>

lemma add_check_iff: "b > u64_max - a \<longleftrightarrow> 2 ^ 64 \<le> unat a + unat b" for a b :: u64
  using unat_u64_less [of a] unfolding word_less_nat_alt unat_u64_minus by linarith

lemma unat_mod_10: "unat (c mod 10 :: u64) = unat c mod 10"
  and unat_div_10: "unat (c div 10 :: u64) = unat c div 10"
  by (simp_all add: unat_mod unat_div)

lemma u64_mod_10_eq_0: "c mod 10 = (0 :: u64) \<longleftrightarrow> unat c mod 10 = 0"
  by (metis unat_mod_10 unat_0_iff)

end
