(* ===== verification/Text.thy ===== *)
theory Text
  imports Prelude
begin

text \<open>
  Bounded text and identifiers: \<^verbatim>\<open>include/aiforge/detail/utf8_text.hpp\<close> (the strict UTF-8
  decoder and the reviewed-text filter every durable text passes) and the identifier template of
  \<^verbatim>\<open>include/aiforge/domain/ids.hpp\<close>.  The decoder is shown to accept exactly the shortest
  encodings of Unicode scalar values.
\<close>

unbundle bit_operations_syntax

section \<open>The strict UTF-8 decoder\<close>

definition is_unsafe_text_control :: "nat \<Rightarrow> bool" where
  "is_unsafe_text_control codepoint \<longleftrightarrow>
     ((codepoint \<le> 0x1f \<and> codepoint \<noteq> 10 \<and> codepoint \<noteq> 13 \<and> codepoint \<noteq> 9) \<or>
      (codepoint \<ge> 0x7f \<and> codepoint \<le> 0x9f)) \<or>
     codepoint = 0x00ad \<or> (codepoint \<ge> 0x0600 \<and> codepoint \<le> 0x0605) \<or>
     codepoint = 0x061c \<or> codepoint = 0x06dd \<or> codepoint = 0x070f \<or>
     (codepoint \<ge> 0x0890 \<and> codepoint \<le> 0x0891) \<or>
     codepoint = 0x08e2 \<or> codepoint = 0x180e \<or>
     (codepoint \<ge> 0x200b \<and> codepoint \<le> 0x200f) \<or>
     (codepoint \<ge> 0x202a \<and> codepoint \<le> 0x202e) \<or>
     (codepoint \<ge> 0x2060 \<and> codepoint \<le> 0x2064) \<or>
     (codepoint \<ge> 0x2066 \<and> codepoint \<le> 0x206f) \<or>
     codepoint = 0xfeff \<or> (codepoint \<ge> 0xfff9 \<and> codepoint \<le> 0xfffb) \<or>
     codepoint = 0x110bd \<or> codepoint = 0x110cd \<or>
     (codepoint \<ge> 0x13430 \<and> codepoint \<le> 0x1343f) \<or>
     (codepoint \<ge> 0x1bca0 \<and> codepoint \<le> 0x1bca3) \<or>
     (codepoint \<ge> 0x1d173 \<and> codepoint \<le> 0x1d17a) \<or>
     codepoint = 0xe0001 \<or> (codepoint \<ge> 0xe0020 \<and> codepoint \<le> 0xe007f)"

record Utf8Codepoint =
  cp_value :: nat
  cp_bytes :: nat

text \<open>The lead byte: the payload bits it carries and the length of the sequence it opens.\<close>

definition utf8_lead :: "nat \<Rightarrow> Utf8Codepoint option" where
  "utf8_lead first =
     (if first \<ge> 0xc2 \<and> first \<le> 0xdf then Some \<lparr>cp_value = first AND 0x1f, cp_bytes = 2\<rparr>
      else if first \<ge> 0xe0 \<and> first \<le> 0xef then Some \<lparr>cp_value = first AND 0x0f, cp_bytes = 3\<rparr>
      else if first \<ge> 0xf0 \<and> first \<le> 0xf4 then Some \<lparr>cp_value = first AND 0x07, cp_bytes = 4\<rparr>
      else None)"

text \<open>The loop over the continuation bytes.\<close>

fun utf8_continue :: "nat \<Rightarrow> string \<Rightarrow> nat option" where
  "utf8_continue v [] = Some v"
| "utf8_continue v (c # cs) =
     (if byte c AND 0xc0 \<noteq> 0x80 then None
      else utf8_continue (push_bit 6 v OR (byte c AND 0x3f)) cs)"

definition decode_utf8_codepoint :: "string \<Rightarrow> nat \<Rightarrow> Utf8Codepoint option" where
  "decode_utf8_codepoint value index =
     (let first = byte (value ! index) in
      if first \<le> 0x7f then Some \<lparr>cp_value = first, cp_bytes = 1\<rparr>
      else case utf8_lead first of None \<Rightarrow> None
      | Some lead \<Rightarrow>
          if cp_bytes lead > length value - index then None
          else case utf8_continue (cp_value lead)
                      (take (cp_bytes lead - 1) (drop (index + 1) value)) of
            None \<Rightarrow> None
          | Some v \<Rightarrow>
              if (cp_bytes lead = 3 \<and> v < 0x800) \<or> (cp_bytes lead = 4 \<and> v < 0x10000) \<or>
                 (v \<ge> 0xd800 \<and> v \<le> 0xdfff) \<or> v > 0x10ffff
              then None else Some (lead\<lparr>cp_value := v\<rparr>))"

lemma decode_utf8_codepoint_bytes:
  "decode_utf8_codepoint value index = Some d \<Longrightarrow> 1 \<le> cp_bytes d \<and> cp_bytes d \<le> 4"
  by (auto simp: decode_utf8_codepoint_def utf8_lead_def Let_def
      split: if_splits option.splits)

function safe_utf8_from :: "string \<Rightarrow> nat \<Rightarrow> bool" where
  "safe_utf8_from value index =
     (if index < length value then
        (case decode_utf8_codepoint value index of None \<Rightarrow> False
         | Some decoded \<Rightarrow>
             if is_unsafe_text_control (cp_value decoded) then False
             else safe_utf8_from value (index + cp_bytes decoded))
      else True)"
  by pat_completeness auto
termination
  by (relation "measure (\<lambda>(value, index). length value - index)")
    (auto dest: decode_utf8_codepoint_bytes)

declare safe_utf8_from.simps [simp del]

definition is_safe_utf8_text :: "string \<Rightarrow> bool" where
  "is_safe_utf8_text value = (if value = [] then False else safe_utf8_from value 0)"

section \<open>The reference encoder\<close>

text \<open>The shortest UTF-8 encoding of a Unicode scalar value, as RFC 3629 defines it.\<close>

definition unicode_scalar :: "nat \<Rightarrow> bool" where
  "unicode_scalar cp \<longleftrightarrow> cp < 0xd800 \<or> (0xdfff < cp \<and> cp \<le> 0x10ffff)"

definition utf8_encode :: "nat \<Rightarrow> string" where
  "utf8_encode cp =
     (if cp < 0x80 then [char_of cp]
      else if cp < 0x800 then [char_of (0xc0 + cp div 64), char_of (0x80 + cp mod 64)]
      else if cp < 0x10000 then
        [char_of (0xe0 + cp div 4096), char_of (0x80 + cp div 64 mod 64),
         char_of (0x80 + cp mod 64)]
      else
        [char_of (0xf0 + cp div 262144), char_of (0x80 + cp div 4096 mod 64),
         char_of (0x80 + cp div 64 mod 64), char_of (0x80 + cp mod 64)])"

lemma byte_char_of: "n < 256 \<Longrightarrow> byte (char_of n) = n"
  by (simp add: byte_def of_char_of)

text \<open>Bit masks and shifts on byte values as arithmetic.\<close>

lemma and_low_masks:
  fixes n :: nat
  shows "n AND 0x1f = n mod 32" "n AND 0x0f = n mod 16" "n AND 0x07 = n mod 8"
    "n AND 0x3f = n mod 64"
  using take_bit_eq_mask [of 5 n] take_bit_eq_mask [of 4 n] take_bit_eq_mask [of 3 n]
    take_bit_eq_mask [of 6 n]
  by (simp_all add: take_bit_eq_mod mask_eq_exp_minus_1)

lemma shift_or:
  fixes v w :: nat
  assumes "w < 64"
  shows "push_bit 6 v OR w = v * 64 + w"
proof -
  have "push_bit 6 v + w = push_bit 6 v OR w"
  proof (rule disjunctive_add_eq_or)
    have "w = take_bit 6 w" using assms by (simp add: take_bit_eq_mod)
    then have "push_bit 6 v AND w = push_bit 6 v AND take_bit 6 w" by simp
    also have "\<dots> = 0"
      by (rule bit_eqI) (auto simp: bit_and_iff bit_push_bit_iff bit_take_bit_iff)
    finally show "push_bit 6 v AND w = 0" .
  qed
  then show ?thesis by (simp add: push_bit_eq_mult)
qed

lemma and_push_bit:
  fixes n k :: nat
  shows "n AND push_bit m k = push_bit m (drop_bit m n AND k)"
  by (rule bit_eqI) (auto simp: bit_and_iff bit_push_bit_iff bit_drop_bit_eq)

lemma continuation_byte:
  fixes n :: nat
  assumes "n < 256"
  shows "n AND 0xc0 = 0x80 \<longleftrightarrow> n div 64 = 2"
proof -
  have "n AND 0xc0 = push_bit 6 (drop_bit 6 n AND 3)"
    using and_push_bit [of n 6 3] by (simp add: push_bit_eq_mult)
  also have "drop_bit 6 n AND 3 = n div 64 mod 4"
    using take_bit_eq_mask [of 2 "drop_bit 6 n"]
    by (simp add: take_bit_eq_mod mask_eq_exp_minus_1 drop_bit_eq_div)
  finally show ?thesis using assms by (auto simp: push_bit_eq_mult)
qed

lemma utf8_continue_Cons:
  "utf8_continue v (c # cs) = Some w
    \<longleftrightarrow> byte c div 64 = 2 \<and> utf8_continue (v * 64 + byte c mod 64) cs = Some w"
  by (simp add: continuation_byte byte_less_256 and_low_masks shift_or)

lemma div_mod_digit:
  fixes b :: nat
  assumes "b < m"
  shows "(m * k + b) div m = k" "(m * k + b) mod m = b"
  using assms by simp_all

lemma utf8_continue_byte:
  assumes "b < 64"
  shows "utf8_continue v (char_of (0x80 + b) # cs) = utf8_continue (v * 64 + b) cs"
proof -
  have "(0x80 + b) div 64 = 2" "(0x80 + b) mod 64 = b"
    using div_mod_digit [OF assms, of 2] by simp_all
  with assms show ?thesis
    by (simp add: continuation_byte byte_char_of and_low_masks shift_or)
qed

declare utf8_continue.simps(2) [simp del]

lemma decode_utf8_drop:
  assumes "index < length value"
  shows "decode_utf8_codepoint value index = decode_utf8_codepoint (drop index value) 0"
proof -
  have "drop (index + 1) value = drop (0 + 1) (drop index value)" by simp
  moreover have "value ! index = drop index value ! 0" using assms by simp
  moreover have "length value - index = length (drop index value) - 0" by simp
  ultimately show ?thesis unfolding decode_utf8_codepoint_def by presburger
qed

section \<open>The decoder accepts exactly the encodings of scalar values\<close>

lemma char_of_byte [simp]: "char_of (byte c) = c"
  by (simp add: byte_def)

lemma decode_utf8_2:
  assumes "2 \<le> a" "a < 32" "b < 64"
  shows "decode_utf8_codepoint (char_of (0xc0 + a) # char_of (0x80 + b) # rest) 0
    = Some \<lparr>cp_value = a * 64 + b, cp_bytes = 2\<rparr>"
proof -
  have "byte (char_of (0xc0 + a)) = 0xc0 + a" using assms by (intro byte_char_of) simp
  moreover have "(0xc0 + a) AND 0x1f = a"
    unfolding and_low_masks using div_mod_digit(2) [OF assms(2), of 6] by simp
  ultimately show ?thesis
    using assms by (simp add: decode_utf8_codepoint_def utf8_lead_def utf8_continue_byte)
qed

lemma decode_utf8_3:
  assumes "a < 16" "b < 64" "c < 64" and "v = (a * 64 + b) * 64 + c"
    and "0x800 \<le> v" "unicode_scalar v"
  shows "decode_utf8_codepoint
      (char_of (0xe0 + a) # char_of (0x80 + b) # char_of (0x80 + c) # rest) 0
    = Some \<lparr>cp_value = v, cp_bytes = 3\<rparr>"
proof -
  have "byte (char_of (0xe0 + a)) = 0xe0 + a" using assms by (intro byte_char_of) simp
  moreover have "(0xe0 + a) AND 0x0f = a"
    unfolding and_low_masks using div_mod_digit(2) [OF assms(1), of 14] by simp
  ultimately show ?thesis
    using assms by (auto simp: decode_utf8_codepoint_def utf8_lead_def utf8_continue_byte
        unicode_scalar_def)
qed

lemma decode_utf8_4:
  assumes "a < 5" "b < 64" "c < 64" "d < 64" and "v = ((a * 64 + b) * 64 + c) * 64 + d"
    and "0x10000 \<le> v" "unicode_scalar v"
  shows "decode_utf8_codepoint
      (char_of (0xf0 + a) # char_of (0x80 + b) # char_of (0x80 + c) # char_of (0x80 + d) # rest) 0
    = Some \<lparr>cp_value = v, cp_bytes = 4\<rparr>"
proof -
  have "byte (char_of (0xf0 + a)) = 0xf0 + a" using assms by (intro byte_char_of) simp
  moreover have "(0xf0 + a) AND 0x07 = a"
    unfolding and_low_masks using div_mod_digit(2) [of a 8 30] assms(1) by simp
  ultimately show ?thesis
    using assms by (simp add: decode_utf8_codepoint_def utf8_lead_def utf8_continue_byte
        unicode_scalar_def)
qed

lemma base64_digits:
  fixes n :: nat
  shows "n = (n div 4096 * 64 + n div 64 mod 64) * 64 + n mod 64"
    and "n = ((n div 262144 * 64 + n div 4096 mod 64) * 64 + n div 64 mod 64) * 64 + n mod 64"
proof -
  have d: "n div 4096 = n div 64 div 64" "n div 262144 = n div 64 div 64 div 64"
    by (simp_all add: div_mult2_eq [symmetric])
  show "n = (n div 4096 * 64 + n div 64 mod 64) * 64 + n mod 64" by (simp add: d)
  show "n = ((n div 262144 * 64 + n div 4096 mod 64) * 64 + n div 64 mod 64) * 64 + n mod 64"
    by (simp add: d)
qed

lemma decode_utf8_complete:
  assumes "unicode_scalar cp"
  shows "decode_utf8_codepoint (utf8_encode cp @ rest) 0
    = Some \<lparr>cp_value = cp, cp_bytes = length (utf8_encode cp)\<rparr>"
proof -
  consider "cp < 0x80" | "0x80 \<le> cp" "cp < 0x800" | "0x800 \<le> cp" "cp < 0x10000"
    | "0x10000 \<le> cp" "cp \<le> 0x10ffff"
    using assms unfolding unicode_scalar_def by linarith
  then show ?thesis
  proof cases
    case 1
    then show ?thesis
      by (simp add: decode_utf8_codepoint_def utf8_encode_def byte_char_of)
  next
    case 2
    have enc: "utf8_encode cp = [char_of (0xc0 + cp div 64), char_of (0x80 + cp mod 64)]"
      using 2 by (simp add: utf8_encode_def)
    have "2 \<le> cp div 64" "cp div 64 < 32" "cp mod 64 < 64" using 2 by auto
    from decode_utf8_2 [OF this, of rest] show ?thesis unfolding enc by simp
  next
    case 3
    have enc: "utf8_encode cp = [char_of (0xe0 + cp div 4096), char_of (0x80 + cp div 64 mod 64),
        char_of (0x80 + cp mod 64)]"
      using 3 by (simp add: utf8_encode_def)
    have "cp div 4096 < 16" "cp div 64 mod 64 < 64" "cp mod 64 < 64" using 3 by auto
    from decode_utf8_3 [OF this base64_digits(1) 3(1) assms, of rest]
    show ?thesis unfolding enc by simp
  next
    case 4
    have enc: "utf8_encode cp = [char_of (0xf0 + cp div 262144),
        char_of (0x80 + cp div 4096 mod 64), char_of (0x80 + cp div 64 mod 64),
        char_of (0x80 + cp mod 64)]"
      using 4 by (simp add: utf8_encode_def)
    have "cp div 262144 < 5" "cp div 4096 mod 64 < 64" "cp div 64 mod 64 < 64" "cp mod 64 < 64"
      using 4 by auto
    from decode_utf8_4 [OF this base64_digits(2) 4(1) assms, of rest]
    show ?thesis unfolding enc by simp
  qed
qed

text \<open>Conversely, whatever the decoder returns is a scalar value and the bytes it consumed are
  its encoding.\<close>

lemma utf8_leadD:
  assumes "utf8_lead n = Some lead" "n < 256"
  shows "cp_bytes lead = 2 \<and> (\<exists>a. n = 0xc0 + a \<and> 2 \<le> a \<and> a < 32 \<and> cp_value lead = a) \<or>
    cp_bytes lead = 3 \<and> (\<exists>a. n = 0xe0 + a \<and> a < 16 \<and> cp_value lead = a) \<or>
    cp_bytes lead = 4 \<and> (\<exists>a. n = 0xf0 + a \<and> a < 5 \<and> cp_value lead = a)"
proof -
  consider "0xc2 \<le> n" "n \<le> 0xdf" | "0xe0 \<le> n" "n \<le> 0xef" | "0xf0 \<le> n" "n \<le> 0xf4"
    using assms by (auto simp: utf8_lead_def split: if_splits)
  then show ?thesis
  proof cases
    case 1
    then obtain a where "n = 32 * 6 + a" "2 \<le> a" "a < 32"
      using nat_le_iff_add [of 192 n] by auto
    with 1 assms show ?thesis
      by (auto simp: utf8_lead_def and_low_masks div_mod_digit [of a 32 6, simplified])
  next
    case 2
    then obtain a where "n = 16 * 14 + a" "a < 16"
      using nat_le_iff_add [of 224 n] by auto
    with 2 assms show ?thesis
      by (auto simp: utf8_lead_def and_low_masks div_mod_digit [of a 16 14, simplified])
  next
    case 3
    then obtain a where "n = 8 * 30 + a" "a < 5"
      using nat_le_iff_add [of 240 n] by auto
    with 3 assms show ?thesis
      by (auto simp: utf8_lead_def and_low_masks div_mod_digit [of a 8 30, simplified])
  qed
qed

lemma continuation_char:
  assumes "byte c div 64 = 2"
  obtains b where "b < 64" "c = char_of (0x80 + b)" "byte c mod 64 = b"
proof
  show "byte c mod 64 < 64" by simp
  have "byte c = 0x80 + byte c mod 64" using assms div_mult_mod_eq [of "byte c" 64] by simp
  then show "c = char_of (0x80 + byte c mod 64)" by (metis char_of_byte)
qed simp

lemma utf8_encode_2:
  "2 \<le> a \<Longrightarrow> a < 32 \<Longrightarrow> b < 64 \<Longrightarrow>
    utf8_encode (a * 64 + b) = [char_of (0xc0 + a), char_of (0x80 + b)]"
  by (simp add: utf8_encode_def)

lemma utf8_encode_3:
  assumes "b < 64" "c < 64" "0x800 \<le> (a * 64 + b) * 64 + c" "(a * 64 + b) * 64 + c < 0x10000"
  shows "utf8_encode ((a * 64 + b) * 64 + c)
    = [char_of (0xe0 + a), char_of (0x80 + b), char_of (0x80 + c)]"
proof -
  define v where "v = (a * 64 + b) * 64 + c"
  have "v div 64 = a * 64 + b" "v mod 64 = c"
    using div_mod_digit [of c 64 "a * 64 + b"] assms unfolding v_def by (simp_all add: mult.commute)
  moreover have "v div 4096 = v div 64 div 64" by (simp add: div_mult2_eq [symmetric])
  moreover have "(a * 64 + b) div 64 = a" "(a * 64 + b) mod 64 = b"
    using div_mod_digit [of b 64 a] assms by (simp_all add: mult.commute)
  ultimately show ?thesis using assms(3,4) unfolding v_def [symmetric]
    by (simp add: utf8_encode_def)
qed

lemma utf8_encode_4:
  assumes "b < 64" "c < 64" "d < 64" "0x10000 \<le> ((a * 64 + b) * 64 + c) * 64 + d"
  shows "utf8_encode (((a * 64 + b) * 64 + c) * 64 + d)
    = [char_of (0xf0 + a), char_of (0x80 + b), char_of (0x80 + c), char_of (0x80 + d)]"
proof -
  define v where "v = ((a * 64 + b) * 64 + c) * 64 + d"
  have "v div 64 = (a * 64 + b) * 64 + c" "v mod 64 = d"
    using div_mod_digit [of d 64 "(a * 64 + b) * 64 + c"] assms unfolding v_def
    by (simp_all add: mult.commute)
  moreover have "((a * 64 + b) * 64 + c) div 64 = a * 64 + b" "((a * 64 + b) * 64 + c) mod 64 = c"
    using div_mod_digit [of c 64 "a * 64 + b"] assms by (simp_all add: mult.commute)
  moreover have "(a * 64 + b) div 64 = a" "(a * 64 + b) mod 64 = b"
    using div_mod_digit [of b 64 a] assms by (simp_all add: mult.commute)
  moreover have "v div 4096 = v div 64 div 64" "v div 262144 = v div 64 div 64 div 64"
    by (simp_all add: div_mult2_eq [symmetric])
  ultimately show ?thesis using assms(4) unfolding v_def [symmetric]
    by (simp add: utf8_encode_def)
qed

lemma decode_utf8_sound:
  assumes "decode_utf8_codepoint (c # cs) 0 = Some d"
  shows "unicode_scalar (cp_value d) \<and> take (cp_bytes d) (c # cs) = utf8_encode (cp_value d)"
proof (cases "byte c \<le> 0x7f")
  case True
  then have "d = \<lparr>cp_value = byte c, cp_bytes = 1\<rparr>"
    using assms by (simp add: decode_utf8_codepoint_def)
  with True show ?thesis by (simp add: unicode_scalar_def utf8_encode_def)
next
  case False
  with assms obtain lead v where lead: "utf8_lead (byte c) = Some lead"
    and len: "cp_bytes lead - 1 \<le> length cs"
    and cont: "utf8_continue (cp_value lead) (take (cp_bytes lead - 1) cs) = Some v"
    and d: "d = lead\<lparr>cp_value := v\<rparr>"
    and bounds: "\<not> (cp_bytes lead = 3 \<and> v < 0x800)" "\<not> (cp_bytes lead = 4 \<and> v < 0x10000)"
      "\<not> (v \<ge> 0xd800 \<and> v \<le> 0xdfff)" "v \<le> 0x10ffff"
    by (auto simp: decode_utf8_codepoint_def Let_def split: option.splits if_splits)
  have scalar: "unicode_scalar v" using bounds by (auto simp: unicode_scalar_def)
  have "take (cp_bytes lead) (c # cs) = utf8_encode v"
    using utf8_leadD [OF lead byte_less_256]
  proof (elim disjE conjE exE)
    fix a assume n: "cp_bytes lead = 2" "byte c = 0xc0 + a" "2 \<le> a" "a < 32" "cp_value lead = a"
    with len obtain c1 rest where cs: "cs = c1 # rest" by (cases cs) auto
    with cont n have "byte c1 div 64 = 2" and v: "v = a * 64 + byte c1 mod 64"
      by (auto simp: utf8_continue_Cons)
    then obtain b where "b < 64" "c1 = char_of (0x80 + b)" "byte c1 mod 64 = b"
      by (elim continuation_char)
    with n cs v show ?thesis by (simp add: utf8_encode_2) (metis char_of_byte)
  next
    fix a assume n: "cp_bytes lead = 3" "byte c = 0xe0 + a" "a < 16" "cp_value lead = a"
    with len obtain c1 c2 rest where cs: "cs = c1 # c2 # rest"
      by (cases cs; cases "tl cs") auto
    with cont n have "byte c1 div 64 = 2" "byte c2 div 64 = 2"
      and v: "v = (a * 64 + byte c1 mod 64) * 64 + byte c2 mod 64"
      by (auto simp: utf8_continue_Cons numeral_2_eq_2)
    then obtain b1 b2 where "b1 < 64" "c1 = char_of (0x80 + b1)" "byte c1 mod 64 = b1"
      "b2 < 64" "c2 = char_of (0x80 + b2)" "byte c2 mod 64 = b2"
      by (elim continuation_char)
    with n cs v bounds show ?thesis
      using utf8_encode_3 [of b1 b2 a] char_of_byte [of c] by (simp add: numeral_3_eq_3)
  next
    fix a assume n: "cp_bytes lead = 4" "byte c = 0xf0 + a" "a < 5" "cp_value lead = a"
    with len obtain c1 c2 c3 rest where cs: "cs = c1 # c2 # c3 # rest"
      by (cases cs; cases "tl cs"; cases "tl (tl cs)") auto
    with cont n have "byte c1 div 64 = 2" "byte c2 div 64 = 2" "byte c3 div 64 = 2"
      and v: "v = ((a * 64 + byte c1 mod 64) * 64 + byte c2 mod 64) * 64 + byte c3 mod 64"
      by (auto simp: utf8_continue_Cons numeral_3_eq_3)
    then obtain b1 b2 b3 where "b1 < 64" "c1 = char_of (0x80 + b1)" "byte c1 mod 64 = b1"
      "b2 < 64" "c2 = char_of (0x80 + b2)" "byte c2 mod 64 = b2"
      "b3 < 64" "c3 = char_of (0x80 + b3)" "byte c3 mod 64 = b3"
      by (elim continuation_char)
    with n cs v bounds show ?thesis
      using utf8_encode_4 [of b1 b2 b3 a] char_of_byte [of c] by simp
  qed
  with d scalar show ?thesis by simp
qed

section \<open>Reviewed text\<close>

definition reviewed_codepoints :: "nat list \<Rightarrow> bool" where
  "reviewed_codepoints cps \<longleftrightarrow> (\<forall>cp \<in> set cps. unicode_scalar cp \<and> \<not> is_unsafe_text_control cp)"

lemma reviewed_codepoints_simps [simp]:
  "reviewed_codepoints []"
  "reviewed_codepoints (cp # cps)
    \<longleftrightarrow> unicode_scalar cp \<and> \<not> is_unsafe_text_control cp \<and> reviewed_codepoints cps"
  by (auto simp: reviewed_codepoints_def)

lemma utf8_encode_nonempty [simp]: "utf8_encode cp \<noteq> []"
  by (simp add: utf8_encode_def)

lemma safe_utf8_from_iff:
  "i \<le> length v \<Longrightarrow> safe_utf8_from v i
    \<longleftrightarrow> (\<exists>cps. reviewed_codepoints cps \<and> drop i v = concat (map utf8_encode cps))"
proof (induction v i rule: safe_utf8_from.induct)
  case (1 v i)
  show ?case
  proof (cases "i < length v")
    case False
    then have "safe_utf8_from v i" "drop i v = concat (map utf8_encode [])"
      by (simp_all add: safe_utf8_from.simps)
    then show ?thesis by (metis reviewed_codepoints_simps(1))
  next
    case True
    then obtain c cs where drop: "drop i v = c # cs" by (metis Cons_nth_drop_Suc)
    note dec = decode_utf8_drop [OF True, unfolded drop]
    show ?thesis
    proof
      assume "safe_utf8_from v i"
      then obtain d where d: "decode_utf8_codepoint v i = Some d"
        and safe: "\<not> is_unsafe_text_control (cp_value d)"
        and rest: "safe_utf8_from v (i + cp_bytes d)"
        using True by (subst (asm) safe_utf8_from.simps) (auto split: option.splits if_splits)
      from d dec have sound: "unicode_scalar (cp_value d)"
        "take (cp_bytes d) (drop i v) = utf8_encode (cp_value d)"
        using decode_utf8_sound [of c cs d] drop by auto
      have "i + cp_bytes d \<le> length v"
        using d True by (auto simp: decode_utf8_codepoint_def utf8_lead_def Let_def
            split: if_splits option.splits)
      then obtain cps where "reviewed_codepoints cps"
        "drop (i + cp_bytes d) v = concat (map utf8_encode cps)"
        using "1.IH" [OF True d safe] rest by blast
      with sound safe have "reviewed_codepoints (cp_value d # cps)"
        "drop i v = concat (map utf8_encode (cp_value d # cps))"
        by (auto, metis add.commute append_take_drop_id drop_drop)
      then show "\<exists>cps. reviewed_codepoints cps \<and> drop i v = concat (map utf8_encode cps)"
        by blast
    next
      assume "\<exists>cps. reviewed_codepoints cps \<and> drop i v = concat (map utf8_encode cps)"
      then obtain cp cps where cps: "reviewed_codepoints (cp # cps)"
        and eq: "drop i v = utf8_encode cp @ concat (map utf8_encode cps)"
        using drop by (metis (no_types) concat.simps list.distinct(1) list.exhaust list.simps(8,9))
      define d where "d = \<lparr>cp_value = cp, cp_bytes = length (utf8_encode cp)\<rparr>"
      have d: "decode_utf8_codepoint v i = Some d"
        using decode_utf8_complete [of cp "concat (map utf8_encode cps)"] cps dec eq drop d_def
        by simp
      have "drop (i + cp_bytes d) v = concat (map utf8_encode cps)"
        using eq drop_drop [of "cp_bytes d" i v] by (simp add: d_def add.commute)
      moreover have "i + cp_bytes d \<le> length v"
        using arg_cong [OF eq, of length] True by (simp add: d_def)
      ultimately have "safe_utf8_from v (i + cp_bytes d)"
        using "1.IH" [OF True d] cps d_def by auto
      with d True cps show "safe_utf8_from v i"
        by (subst safe_utf8_from.simps) (simp add: d_def)
    qed
  qed
qed

text \<open>
  C40: the reviewed-text filter \<open>is_safe_utf8_text\<close> accepts exactly the nonempty byte strings that
  are the concatenation of shortest UTF-8 encodings of Unicode scalar values none of which is an
  unsafe control or invisible format character; in particular no overlong form, no surrogate, no
  truncated sequence and no bidi override passes it.
\<close>

theorem is_safe_utf8_text_iff:
  "is_safe_utf8_text v \<longleftrightarrow>
    v \<noteq> [] \<and> (\<exists>cps. reviewed_codepoints cps \<and> v = concat (map utf8_encode cps))"
  using safe_utf8_from_iff [of 0 v] by (auto simp: is_safe_utf8_text_def)

text \<open>Printable ASCII passes the filter; concrete inputs of the development use it.\<close>

lemma is_safe_utf8_text_ascii:
  assumes "v \<noteq> []" and "list_all (\<lambda>c. 32 \<le> byte c \<and> byte c < 127) v"
  shows "is_safe_utf8_text v"
proof -
  have "reviewed_codepoints (map byte v)"
    using assms(2) by (auto simp: reviewed_codepoints_def list_all_iff unicode_scalar_def
        is_unsafe_text_control_def)
  moreover have "utf8_encode (byte c) = [c]" if "c \<in> set v" for c
    using assms(2) that by (auto simp: list_all_iff utf8_encode_def byte_def)
  then have "v = concat (map utf8_encode (map byte v))"
    by (induction v) auto
  ultimately show ?thesis
    using assms(1) safe_utf8_from_iff [of 0 v] by (auto simp: is_safe_utf8_text_def)
qed

section \<open>Searching\<close>

text \<open>\<^verbatim>\<open>std::string_view::find\<close>: the distance to the first occurrence.\<close>

fun text_find :: "string \<Rightarrow> string \<Rightarrow> nat option" where
  "text_find needle rest =
     (if take (length needle) rest = needle then Some 0
      else case rest of [] \<Rightarrow> None | _ # cs \<Rightarrow> map_option Suc (text_find needle cs))"

declare text_find.simps [simp del]

lemma text_findD:
  "text_find needle rest = Some i \<Longrightarrow>
    rest = take i rest @ needle @ drop (i + length needle) rest \<and> i + length needle \<le> length rest"
proof (induction rest arbitrary: i)
  case Nil
  then show ?case by (subst (asm) text_find.simps) (auto split: if_splits)
next
  case (Cons c cs)
  show ?case
  proof (cases "take (length needle) (c # cs) = needle")
    case True
    then have "i = 0" using Cons.prems by (simp add: text_find.simps)
    with True show ?thesis
      by simp (metis append_take_drop_id length_take min.cobounded1 length_Cons)
  next
    case False
    then obtain j where "text_find needle cs = Some j" "i = Suc j"
      using Cons.prems by (auto simp: text_find.simps)
    with Cons.IH [of j] show ?thesis by simp
  qed
qed

definition contains :: "string \<Rightarrow> string \<Rightarrow> bool" where
  "contains content needle \<longleftrightarrow> text_find needle content \<noteq> None"

section \<open>Identifiers\<close>

text \<open>\<^verbatim>\<open>template <typename Tag> class Id\<close>: the tag is a phantom parameter.\<close>

datatype 'tag Id = Id (id_value: string)

datatype IdError = IdError_empty | IdError_too_long | IdError_control_character

definition Id_max_size :: nat where
  "Id_max_size = 128"

definition Id_from :: "string \<Rightarrow> IdError + 'tag Id" where
  "Id_from v =
     fail_if (v = []) IdError_empty
    (fail_if (length v > Id_max_size) IdError_too_long
    (fail_if (list_ex (\<lambda>c. byte c < 0x20 \<or> byte c = 0x7f) v) IdError_control_character
    (Inr (Id v))))"

text \<open>\<^verbatim>\<open>operator<=>\<close> is defaulted: identifiers are ordered by their text.\<close>

instantiation Id :: (type) linorder
begin

definition less_eq_Id :: "'a Id \<Rightarrow> 'a Id \<Rightarrow> bool" where
  "less_eq_Id i j \<longleftrightarrow> id_value i \<le> id_value j"

definition less_Id :: "'a Id \<Rightarrow> 'a Id \<Rightarrow> bool" where
  "less_Id i j \<longleftrightarrow> id_value i < id_value j"

instance
  by standard (auto simp: less_eq_Id_def less_Id_def intro: Id.expand)

end

typedecl SessionIdTag
typedecl RunIdTag
typedecl EventIdTag
typedecl MessageIdTag
typedecl InferenceIdTag
typedecl InvocationIdTag
typedecl QuestionIdTag
typedecl ArtifactIdTag
typedecl ModelIdTag
typedecl SurfaceIdTag
typedecl WorkspaceIdTag
typedecl PersonaIdTag
typedecl PermissionProfileIdTag
typedecl RepositoryIdTag
typedecl EvidenceIdTag
typedecl ContextParcelIdTag
typedecl ReviewReceiptIdTag
typedecl MemoryProposalIdTag
typedecl MemoryRecordIdTag
typedecl ReviewRequirementIdTag
typedecl ReviewFindingIdTag
typedecl ReviewOverrideIdTag
typedecl VerificationEvidenceIdTag
typedecl PlanIdTag
typedecl PlanRevisionIdTag
typedecl PlanTaskIdTag
typedecl ProjectBacklogItemIdTag
typedecl OpsTargetIdTag
typedecl OpsOwnerIdTag
typedecl OpsRequestIdTag
typedecl OpsConfigurationRevisionTag
typedecl OpsResourceUidTag

type_synonym SessionId = "SessionIdTag Id"
type_synonym RunId = "RunIdTag Id"
type_synonym EventId = "EventIdTag Id"
type_synonym MessageId = "MessageIdTag Id"
type_synonym InferenceId = "InferenceIdTag Id"
type_synonym InvocationId = "InvocationIdTag Id"
type_synonym QuestionId = "QuestionIdTag Id"
type_synonym ArtifactId = "ArtifactIdTag Id"
type_synonym ModelId = "ModelIdTag Id"
type_synonym SurfaceId = "SurfaceIdTag Id"
type_synonym WorkspaceId = "WorkspaceIdTag Id"
type_synonym PersonaId = "PersonaIdTag Id"
type_synonym PermissionProfileId = "PermissionProfileIdTag Id"
type_synonym RepositoryId = "RepositoryIdTag Id"
type_synonym EvidenceId = "EvidenceIdTag Id"
type_synonym ContextParcelId = "ContextParcelIdTag Id"
type_synonym ReviewReceiptId = "ReviewReceiptIdTag Id"
type_synonym MemoryProposalId = "MemoryProposalIdTag Id"
type_synonym MemoryRecordId = "MemoryRecordIdTag Id"
type_synonym ReviewRequirementId = "ReviewRequirementIdTag Id"
type_synonym ReviewFindingId = "ReviewFindingIdTag Id"
type_synonym ReviewOverrideId = "ReviewOverrideIdTag Id"
type_synonym VerificationEvidenceId = "VerificationEvidenceIdTag Id"
type_synonym PlanId = "PlanIdTag Id"
type_synonym PlanRevisionId = "PlanRevisionIdTag Id"
type_synonym PlanTaskId = "PlanTaskIdTag Id"
type_synonym ProjectBacklogItemId = "ProjectBacklogItemIdTag Id"
type_synonym OpsTargetId = "OpsTargetIdTag Id"
type_synonym OpsOwnerId = "OpsOwnerIdTag Id"
type_synonym OpsRequestId = "OpsRequestIdTag Id"
type_synonym OpsConfigurationRevision = "OpsConfigurationRevisionTag Id"
type_synonym OpsResourceUid = "OpsResourceUidTag Id"

section \<open>Shared records\<close>

text \<open>\<^verbatim>\<open>struct ContentDigest\<close> (\<^verbatim>\<open>domain/digest.hpp\<close>).\<close>

record ContentDigest =
  dg_algorithm :: string
  dg_value :: string
  dg_byte_size :: u64

text \<open>\<^verbatim>\<open>EventTimestamp\<close>: milliseconds since the epoch, a signed count.\<close>

type_synonym EventTimestamp = int

end
