(* ===== verification/Money.thy ===== *)
theory Money
  imports Text "HOL-Library.Multiset"
begin

text \<open>
  Exact decimal money: \<^verbatim>\<open>src/lib/money.cpp\<close> and \<^verbatim>\<open>include/aiforge/domain/money.hpp\<close>.
  A \<^verbatim>\<open>DecimalAmount\<close> is a 64-bit coefficient and a decimal scale; the source works on decimal
  text and on checked 64-bit arithmetic.  The reference semantics is the rational number
  \<open>coefficient / 10 ^ scale\<close>.  The diagnostic text of an error is not modelled, its code is.
\<close>

section \<open>Data\<close>

datatype MoneyErrorCode =
    Money_invalid_amount
  | Money_amount_overflow
  | Money_negative_result
  | Money_invalid_unit
  | Money_duplicate_unit
  | Money_empty_cost
  | Money_too_many_units

record DecimalAmount =
  coefficient :: u64
  scale :: nat

datatype strong_ordering = ordering_less | ordering_equal | ordering_greater

record SessionSpendCeiling =
  ceiling_amount :: DecimalAmount

record MonetaryAmount =
  money_unit :: string
  money_amount :: DecimalAmount

record ReportedCost =
  cost_amounts :: "MonetaryAmount list"

definition kMaximumScale :: nat where
  "kMaximumScale = 18"

definition kMaximumSpendCeilingScale :: nat where
  "kMaximumSpendCeilingScale = 6"

definition kMaximumUnits :: nat where
  "kMaximumUnits = 16"

section \<open>Helpers of the anonymous namespace\<close>

definition checked_multiply :: "u64 \<Rightarrow> u64 \<Rightarrow> u64 option" where
  "checked_multiply v multiplier =
     (if v \<noteq> 0 \<and> multiplier > u64_max div v then None else Some (v * multiplier))"

primrec power_of_ten :: "nat \<Rightarrow> u64" where
  "power_of_ten 0 = 1"
| "power_of_ten (Suc n) = power_of_ten n * 10"

definition ascii_alpha :: "char \<Rightarrow> bool" where
  "ascii_alpha c \<longleftrightarrow>
     (byte CHR ''A'' \<le> byte c \<and> byte c \<le> byte CHR ''Z'') \<or>
     (byte CHR ''a'' \<le> byte c \<and> byte c \<le> byte CHR ''z'')"

definition valid_unit :: "string \<Rightarrow> bool" where
  "valid_unit unit =
     (if unit = [] \<or> length unit > 64 \<or> \<not> ascii_alpha (hd unit) then False
      else list_all (\<lambda>c. ascii_alpha c \<or> ascii_digit c \<or>
             c = CHR ''.'' \<or> c = CHR ''_'' \<or> c = CHR ''-'') (tl unit))"

definition aligned_digits :: "DecimalAmount \<Rightarrow> nat \<Rightarrow> string" where
  "aligned_digits amount sc =
     decimal (unat (coefficient amount)) @ replicate (sc - scale amount) CHR ''0''"

definition left_pad :: "string \<Rightarrow> nat \<Rightarrow> string" where
  "left_pad v n = (if length v < n then replicate (n - length v) CHR ''0'' @ v else v)"

text \<open>The character loop of \<open>plain_decimal\<close>: \<open>None\<close> is the early \<^verbatim>\<open>return false\<close>.\<close>

fun plain_decimal_scan :: "bool \<Rightarrow> bool \<Rightarrow> string \<Rightarrow> bool option" where
  "plain_decimal_scan saw_dot saw_digit [] = Some saw_digit"
| "plain_decimal_scan saw_dot saw_digit (c # cs) =
     (if ascii_digit c then plain_decimal_scan saw_dot True cs
      else if c = CHR ''.'' \<and> \<not> saw_dot then plain_decimal_scan True saw_digit cs
      else None)"

definition plain_decimal :: "string \<Rightarrow> bool" where
  "plain_decimal text =
     (if text = [] then False
      else case plain_decimal_scan False False text of
        None \<Rightarrow> False
      | Some saw_digit \<Rightarrow> saw_digit \<and> hd text \<noteq> CHR ''.'' \<and> last text \<noteq> CHR ''.'')"

section \<open>Reading an amount\<close>

text \<open>
  \<^verbatim>\<open>DecimalAmount::from\<close> scans left to right.  Each scanner returns what it read and the rest of
  the text.
\<close>

definition scan_fraction :: "string \<Rightarrow> MoneyErrorCode + string \<times> string" where
  "scan_fraction rest =
     (case rest of
        c # cs \<Rightarrow>
          if c = CHR ''.'' then
            fail_if (takeWhile ascii_digit cs = []) Money_invalid_amount
              (Inr (takeWhile ascii_digit cs, dropWhile ascii_digit cs))
          else Inr ([], rest)
      | [] \<Rightarrow> Inr ([], rest))"

fun scan_exponent_digits :: "int \<Rightarrow> string \<Rightarrow> MoneyErrorCode + int \<times> string" where
  "scan_exponent_digits e [] = Inr (e, [])"
| "scan_exponent_digits e (c # cs) =
     (if ascii_digit c then
        fail_if (e > 1000) Money_amount_overflow
          (scan_exponent_digits (e * 10 + int (digit_of c)) cs)
      else Inr (e, c # cs))"

definition scan_exponent :: "string \<Rightarrow> MoneyErrorCode + int \<times> string" where
  "scan_exponent rest =
     (if rest \<noteq> [] \<and> (hd rest = CHR ''e'' \<or> hd rest = CHR ''E'') then
        (let after_e = tl rest;
             signed = after_e \<noteq> [] \<and> (hd after_e = CHR ''+'' \<or> hd after_e = CHR ''-'');
             negative_exponent = signed \<and> hd after_e = CHR ''-'';
             start = (if signed then tl after_e else after_e)
         in bind_result (scan_exponent_digits 0 start) (\<lambda>(e, rest').
              fail_if (length rest' = length start) Money_invalid_amount
                (Inr (if negative_exponent then - e else e, rest'))))
      else Inr (0, rest))"

function strip_trailing_zeros :: "string \<Rightarrow> int \<Rightarrow> string \<times> int" where
  "strip_trailing_zeros digits sc =
     (if sc > 0 \<and> digits \<noteq> [] \<and> last digits = CHR ''0''
      then strip_trailing_zeros (butlast digits) (sc - 1)
      else (digits, sc))"
  by pat_completeness auto
termination
  by (relation "measure (\<lambda>(digits, sc). length digits)") auto

declare strip_trailing_zeros.simps [simp del]

fun read_coefficient :: "u64 \<Rightarrow> string \<Rightarrow> MoneyErrorCode + u64" where
  "read_coefficient c [] = Inr c"
| "read_coefficient c (ch # chs) =
     (let digit = of_nat (digit_of ch) in
      fail_if (c > (u64_max - digit) div 10) Money_amount_overflow
        (read_coefficient (c * 10 + digit) chs))"

text \<open>From the collected digits and their scale to a normalized amount.\<close>

definition finish_amount :: "string \<Rightarrow> int \<Rightarrow> MoneyErrorCode + DecimalAmount" where
  "finish_amount digits sc =
     fail_if (sc > int kMaximumScale) Money_amount_overflow
     (bind_result (read_coefficient 0 digits) (\<lambda>c.
      if sc < 0 then
        fail_if (nat (- sc) > kMaximumScale) Money_amount_overflow
          (case checked_multiply c (power_of_ten (nat (- sc))) of
             None \<Rightarrow> Inl Money_amount_overflow
           | Some c' \<Rightarrow> Inr \<lparr>coefficient = c', scale = 0\<rparr>)
      else Inr \<lparr>coefficient = c, scale = nat sc\<rparr>))"

definition normalize_digits :: "string \<Rightarrow> int \<Rightarrow> MoneyErrorCode + DecimalAmount" where
  "normalize_digits all_read sc0 =
     (let significant = dropWhile (\<lambda>c. c = CHR ''0'') all_read in
      if significant = [] then Inr \<lparr>coefficient = 0, scale = 0\<rparr>
      else let (digits, sc) = strip_trailing_zeros significant sc0 in finish_amount digits sc)"

definition DecimalAmount_from :: "string \<Rightarrow> MoneyErrorCode + DecimalAmount" where
  "DecimalAmount_from text =
     fail_if (text = []) Money_invalid_amount
    (fail_if (length text > 128) Money_amount_overflow
    (let whole = takeWhile ascii_digit text in
     bind_result (scan_fraction (dropWhile ascii_digit text)) (\<lambda>(fraction, rest).
     fail_if (whole = [] \<and> fraction = []) Money_invalid_amount
    (bind_result (scan_exponent rest) (\<lambda>(exponent, rest').
     fail_if (rest' \<noteq> []) Money_invalid_amount
    (normalize_digits (whole @ fraction) (int (length fraction) - exponent)))))))"

section \<open>Printing an amount\<close>

definition insert_point :: "string \<Rightarrow> nat \<Rightarrow> string" where
  "insert_point digits sc =
     take (length digits - sc) digits @ CHR ''.'' # drop (length digits - sc) digits"

definition DecimalAmount_to_string :: "DecimalAmount \<Rightarrow> string" where
  "DecimalAmount_to_string a =
     (let digits = decimal (unat (coefficient a)) in
      if scale a = 0 then digits
      else if length digits \<le> scale a
        then ''0.'' @ replicate (scale a - length digits) CHR ''0'' @ digits
      else insert_point digits (scale a))"

section \<open>Arithmetic\<close>

fun drop_fraction_zeros :: "u64 \<Rightarrow> nat \<Rightarrow> u64 \<times> nat" where
  "drop_fraction_zeros c 0 = (c, 0)"
| "drop_fraction_zeros c (Suc n) =
     (if c mod 10 = 0 then drop_fraction_zeros (c div 10) n else (c, Suc n))"

definition amount_add :: "DecimalAmount \<Rightarrow> DecimalAmount \<Rightarrow> MoneyErrorCode + DecimalAmount" where
  "amount_add left right =
     (let sc = max (scale left) (scale right) in
      case (checked_multiply (coefficient left) (power_of_ten (sc - scale left)),
            checked_multiply (coefficient right) (power_of_ten (sc - scale right))) of
        (Some l, Some r) \<Rightarrow>
          fail_if (r > u64_max - l) Money_amount_overflow
            (let (c, normalized_scale) = drop_fraction_zeros (l + r) sc
             in Inr \<lparr>coefficient = c, scale = normalized_scale\<rparr>)
      | _ \<Rightarrow> Inl Money_amount_overflow)"

definition amount_compare :: "DecimalAmount \<Rightarrow> DecimalAmount \<Rightarrow> strong_ordering" where
  "amount_compare left right =
     (let sc = max (scale left) (scale right);
          l = aligned_digits left sc;
          r = aligned_digits right sc;
          width = max (length l) (length r);
          left_digits = left_pad l width;
          right_digits = left_pad r width
      in if left_digits < right_digits then ordering_less
         else if left_digits > right_digits then ordering_greater
         else ordering_equal)"

text \<open>
  The borrow loop of \<open>subtract\<close> walks from the last digit to the first; the model takes the
  digits in that order.
\<close>

fun subtract_digits :: "int \<Rightarrow> string \<Rightarrow> string \<Rightarrow> string" where
  "subtract_digits borrow (l # ls) (r # rs) =
     (let digit = int (digit_of l) - borrow - int (digit_of r) in
      if digit < 0
      then digit_char (nat (digit + 10)) # subtract_digits 1 ls rs
      else digit_char (nat digit) # subtract_digits 0 ls rs)"
| "subtract_digits borrow _ _ = []"

definition place_point :: "string \<Rightarrow> nat \<Rightarrow> string" where
  "place_point digits sc =
     (if sc \<noteq> 0 then
        insert_point (if length digits \<le> sc
                      then replicate (sc - length digits + 1) CHR ''0'' @ digits else digits) sc
      else digits)"

definition amount_subtract :: "DecimalAmount \<Rightarrow> DecimalAmount \<Rightarrow> MoneyErrorCode + DecimalAmount" where
  "amount_subtract left right =
     fail_if (amount_compare left right = ordering_less) Money_negative_result
     (let sc = max (scale left) (scale right);
          l = aligned_digits left sc;
          r = aligned_digits right sc;
          width = max (length l) (length r);
          digits = rev (subtract_digits 0 (rev (left_pad l width)) (rev (left_pad r width)))
      in DecimalAmount_from (place_point digits sc))"

section \<open>Ceilings, monetary amounts and reported costs\<close>

definition SessionSpendCeiling_create :: "DecimalAmount \<Rightarrow> MoneyErrorCode + SessionSpendCeiling" where
  "SessionSpendCeiling_create amount =
     fail_if (coefficient amount = 0) Money_invalid_amount
    (fail_if (scale amount > kMaximumSpendCeilingScale) Money_invalid_amount
    (Inr \<lparr>ceiling_amount = amount\<rparr>))"

text \<open>\<open>dropWhile\<close> up to the first point gives the fraction together with the point.\<close>

definition SessionSpendCeiling_from :: "string \<Rightarrow> MoneyErrorCode + SessionSpendCeiling" where
  "SessionSpendCeiling_from text =
     (let from_point = dropWhile (\<lambda>c. c \<noteq> CHR ''.'') text in
      fail_if (\<not> plain_decimal text \<or>
               (from_point \<noteq> [] \<and> length from_point - 1 > kMaximumSpendCeilingScale))
        Money_invalid_amount
        (bind_result (DecimalAmount_from text) SessionSpendCeiling_create))"

definition MonetaryAmount_create :: "string \<Rightarrow> DecimalAmount \<Rightarrow> MoneyErrorCode + MonetaryAmount" where
  "MonetaryAmount_create unit amount =
     fail_if (\<not> valid_unit unit) Money_invalid_unit
       (Inr \<lparr>money_unit = unit, money_amount = amount\<rparr>)"

fun adjacent_duplicate :: "'a list \<Rightarrow> bool" where
  "adjacent_duplicate (x # y # zs) \<longleftrightarrow> x = y \<or> adjacent_duplicate (y # zs)"
| "adjacent_duplicate _ \<longleftrightarrow> False"

definition ReportedCost_create :: "MonetaryAmount list \<Rightarrow> MoneyErrorCode + ReportedCost" where
  "ReportedCost_create amounts =
     fail_if (amounts = []) Money_empty_cost
    (fail_if (length amounts > kMaximumUnits) Money_too_many_units
    (let sorted_amounts = sort_key money_unit amounts in
     fail_if (adjacent_duplicate (map money_unit sorted_amounts)) Money_duplicate_unit
       (Inr \<lparr>cost_amounts = sorted_amounts\<rparr>)))"

fun merge_amounts ::
  "MonetaryAmount list \<Rightarrow> MonetaryAmount list \<Rightarrow> MoneyErrorCode + MonetaryAmount list" where
  "merge_amounts [] [] = Inr []"
| "merge_amounts (l # ls) [] = bind_result (merge_amounts ls []) (\<lambda>ms. Inr (l # ms))"
| "merge_amounts [] (r # rs) = bind_result (merge_amounts [] rs) (\<lambda>ms. Inr (r # ms))"
| "merge_amounts (l # ls) (r # rs) =
     (if money_unit l < money_unit r
      then bind_result (merge_amounts ls (r # rs)) (\<lambda>ms. Inr (l # ms))
      else if money_unit r < money_unit l
      then bind_result (merge_amounts (l # ls) rs) (\<lambda>ms. Inr (r # ms))
      else bind_result (amount_add (money_amount l) (money_amount r)) (\<lambda>amount.
           bind_result (MonetaryAmount_create (money_unit l) amount) (\<lambda>combined.
           bind_result (merge_amounts ls rs) (\<lambda>ms. Inr (combined # ms)))))"

definition ReportedCost_add :: "ReportedCost \<Rightarrow> ReportedCost \<Rightarrow> MoneyErrorCode + ReportedCost" where
  "ReportedCost_add left right =
     bind_result (merge_amounts (cost_amounts left) (cost_amounts right)) ReportedCost_create"


section \<open>Reference semantics\<close>

definition amount_value :: "DecimalAmount \<Rightarrow> rat" where
  "amount_value a = of_nat (unat (coefficient a)) / 10 ^ scale a"

text \<open>The class invariant: at most 18 fractional digits, and the last of them is not zero.\<close>

definition amount_ok :: "DecimalAmount \<Rightarrow> bool" where
  "amount_ok a \<longleftrightarrow> scale a \<le> kMaximumScale \<and> (0 < scale a \<longrightarrow> unat (coefficient a) mod 10 \<noteq> 0)"

lemma checked_multiply_Some:
  "checked_multiply a b = Some c \<longleftrightarrow> unat a * unat b < 2 ^ 64 \<and> c = a * b"
proof (cases "a = 0")
  case False
  then have pos: "0 < unat a" by (simp add: unat_gt_0)
  have "b > u64_max div a \<longleftrightarrow> (2 ^ 64 - 1) div unat a < unat b"
    by (simp only: word_less_nat_alt unat_div unat_u64_max)
  also have "\<dots> \<longleftrightarrow> 2 ^ 64 - 1 < unat b * unat a"
    using pos by (rule div_less_iff_less_mult)
  finally show ?thesis using False
    by (auto simp: checked_multiply_def mult.commute [of "unat b"])
qed (auto simp: checked_multiply_def)

lemma unat_power_of_ten: "n \<le> 19 \<Longrightarrow> unat (power_of_ten n) = 10 ^ n"
proof (induction n)
  case (Suc n)
  then have "(10::nat) ^ n \<le> 10 ^ 18" by (intro power_increasing) auto
  with Suc show ?case by (simp add: unat_word_ariths)
qed simp

section \<open>Canonical representation\<close>

lemma normal_decimal_unique_le:
  fixes a b :: nat
  assumes "a * 10 ^ n = b * 10 ^ m" and "0 < n \<Longrightarrow> b mod 10 \<noteq> 0" and "m \<le> n"
  shows "a = b \<and> m = n"
proof -
  from \<open>m \<le> n\<close> have "(10::nat) ^ n = 10 ^ (n - m) * 10 ^ m"
    by (simp flip: power_add)
  with assms(1) have eq: "b = a * 10 ^ (n - m)" by simp
  have "m = n"
  proof (rule ccontr)
    assume "m \<noteq> n"
    with \<open>m \<le> n\<close> obtain k where "n - m = Suc k" by (cases "n - m") auto
    with eq have "b mod 10 = 0" by simp
    moreover have "0 < n" using \<open>m \<noteq> n\<close> \<open>m \<le> n\<close> by simp
    ultimately show False using assms(2) by simp
  qed
  with eq show ?thesis by simp
qed

lemma normal_decimal_unique:
  fixes a b :: nat
  assumes "a * 10 ^ n = b * 10 ^ m" and "0 < m \<Longrightarrow> a mod 10 \<noteq> 0" and "0 < n \<Longrightarrow> b mod 10 \<noteq> 0"
  shows "a = b \<and> m = n"
  using normal_decimal_unique_le [of a n b m] normal_decimal_unique_le [of b m a n] assms
  by (cases "m \<le> n") auto

lemma decimal_fraction_eq_iff:
  "of_nat a / 10 ^ m = (of_nat b / 10 ^ n :: rat) \<longleftrightarrow> a * 10 ^ n = b * 10 ^ m"
proof -
  have "of_nat a / 10 ^ m = (of_nat b / 10 ^ n :: rat)
      \<longleftrightarrow> (of_nat (a * 10 ^ n) :: rat) = of_nat (b * 10 ^ m)"
    by (simp add: divide_simps)
  then show ?thesis by (simp only: of_nat_eq_iff)
qed

lemma amount_eqI:
  assumes "amount_ok a" and "amount_ok b" and "amount_value a = amount_value b"
  shows "a = b"
proof -
  have "unat (coefficient a) * 10 ^ scale b = unat (coefficient b) * 10 ^ scale a"
    using assms(3) by (simp only: amount_value_def decimal_fraction_eq_iff)
  with assms(1,2) have "unat (coefficient a) = unat (coefficient b) \<and> scale a = scale b"
    by (intro normal_decimal_unique) (auto simp: amount_ok_def)
  then show ?thesis by (cases a, cases b) (simp add: word_unat_eq_iff)
qed

section \<open>Reading digits\<close>

lemma read_coefficient_guard:
  assumes "d < 10"
  shows "c > (u64_max - of_nat d) div 10 \<longleftrightarrow> 2 ^ 64 \<le> unat c * 10 + d"
proof -
  have d: "unat (of_nat d :: u64) = d" using assms by (simp add: unat_of_nat)
  have "c > (u64_max - of_nat d) div 10 \<longleftrightarrow> (2 ^ 64 - 1 - d) div 10 < unat c"
    by (simp only: word_less_nat_alt unat_div_10 unat_u64_minus d)
  also have "\<dots> \<longleftrightarrow> 2 ^ 64 - 1 - d < unat c * 10"
    by (rule div_less_iff_less_mult) simp
  also have "\<dots> \<longleftrightarrow> 2 ^ 64 \<le> unat c * 10 + d" using assms by auto
  finally show ?thesis .
qed

lemma read_coefficient_eq:
  "all_digits ds \<Longrightarrow> read_coefficient c ds =
     (if unat c * 10 ^ length ds + digits_value ds < 2 ^ 64
      then Inr (of_nat (unat c * 10 ^ length ds + digits_value ds)) else Inl Money_amount_overflow)"
proof (induction ds arbitrary: c)
  case (Cons ch ds)
  let ?d = "digit_of ch" and ?p = "10 ^ length ds :: nat"
  have d: "?d < 10" using Cons.prems by (simp add: digit_of_less)
  have total: "unat c * 10 ^ length (ch # ds) + digits_value (ch # ds)
      = (unat c * 10 + ?d) * ?p + digits_value ds"
    by (simp add: digits_value_Cons algebra_simps)
  show ?case
  proof (cases "2 ^ 64 \<le> unat c * 10 + ?d")
    case True
    then have "2 ^ 64 * 1 \<le> (unat c * 10 + ?d) * ?p" by (intro mult_le_mono) auto
    with True show ?thesis unfolding total
      by (simp add: read_coefficient_guard [OF d])
  next
    case False
    then have "unat (c * 10 + of_nat ?d) = unat c * 10 + ?d"
      using d by (simp add: unat_word_ariths unat_of_nat)
    with False Cons show ?thesis unfolding total
      by (simp add: read_coefficient_guard [OF d])
  qed
qed (use unat_u64_less in simp)

lemma digits_value_dropWhile_zero:
  "digits_value (dropWhile (\<lambda>c. c = CHR ''0'') ds) = digits_value ds"
  by (induction ds) (auto simp: digits_value_Cons)

lemma digits_value_pos: "all_digits ds \<Longrightarrow> ds \<noteq> [] \<Longrightarrow> hd ds \<noteq> CHR ''0'' \<Longrightarrow> 0 < digits_value ds"
  by (cases ds) (auto simp: digits_value_Cons simp flip: digit_of_eq_0)

lemma digits_value_mod_10: "ds \<noteq> [] \<Longrightarrow> all_digits ds \<Longrightarrow> digits_value ds mod 10 = digit_of (last ds)"
  by (cases ds rule: rev_cases) (auto simp: digit_of_less)

lemma strip_trailing_zeros_spec:
  assumes "strip_trailing_zeros ds sc = (ds', sc')"
  obtains k where "ds = ds' @ replicate k CHR ''0''" and "sc = sc' + int k"
    and "sc' \<le> 0 \<or> ds' = [] \<or> last ds' \<noteq> CHR ''0''" and "0 < k \<Longrightarrow> 0 \<le> sc'"
proof -
  have "\<exists>k. ds = ds' @ replicate k CHR ''0'' \<and> sc = sc' + int k
      \<and> (sc' \<le> 0 \<or> ds' = [] \<or> last ds' \<noteq> CHR ''0'') \<and> (0 < k \<longrightarrow> 0 \<le> sc')"
    using assms
  proof (induction ds sc rule: strip_trailing_zeros.induct)
    case (1 ds sc)
    show ?case
    proof (cases "sc > 0 \<and> ds \<noteq> [] \<and> last ds = CHR ''0''")
      case True
      with "1.prems" have "strip_trailing_zeros (butlast ds) (sc - 1) = (ds', sc')"
        by (subst (asm) strip_trailing_zeros.simps) simp
      from "1.IH" [OF True this] obtain k where k: "butlast ds = ds' @ replicate k CHR ''0''"
        "sc - 1 = sc' + int k" "sc' \<le> 0 \<or> ds' = [] \<or> last ds' \<noteq> CHR ''0''" "0 < k \<longrightarrow> 0 \<le> sc'"
        by blast
      have "ds = ds' @ replicate (Suc k) CHR ''0''"
        using True k(1) append_butlast_last_id [of ds] by (simp add: replicate_append_same)
      then show ?thesis using True k(2-4) by (intro exI [of _ "Suc k"]) auto
    next
      case False
      with "1.prems" have "ds' = ds" "sc' = sc"
        by (subst (asm) strip_trailing_zeros.simps, force)+
      with False show ?thesis by (intro exI [of _ 0]) auto
    qed
  qed
  then show ?thesis using that by blast
qed


lemma strip_trailing_zeros_value:
  assumes "strip_trailing_zeros ds sc = (ds', sc')" and "all_digits ds"
  shows "all_digits ds'"
    and "(of_nat (digits_value ds') :: rat) * 10 powi (- sc') = of_nat (digits_value ds) * 10 powi (- sc)"
    and "0 < sc' \<Longrightarrow> ds' \<noteq> [] \<Longrightarrow> digits_value ds' mod 10 \<noteq> 0"
    and "- 18 \<le> sc \<Longrightarrow> - 18 \<le> sc'"
proof -
  from assms(1) obtain k where k: "ds = ds' @ replicate k CHR ''0''" "sc = sc' + int k"
    "sc' \<le> 0 \<or> ds' = [] \<or> last ds' \<noteq> CHR ''0''" "0 < k \<Longrightarrow> 0 \<le> sc'"
    by (rule strip_trailing_zeros_spec) blast
  show dig: "all_digits ds'" using assms(2) k(1) by (simp add: list_all_append)
  have "(10::rat) powi (- sc') = 10 ^ k * 10 powi (- sc)"
    unfolding k(2) by (simp add: power_int_diff power_int_minus)
  moreover have "digits_value ds = digits_value ds' * 10 ^ k"
    unfolding k(1) digits_value_append by simp
  ultimately show "(of_nat (digits_value ds') :: rat) * 10 powi (- sc')
      = of_nat (digits_value ds) * 10 powi (- sc)"
    by simp
  show "digits_value ds' mod 10 \<noteq> 0" if "0 < sc'" "ds' \<noteq> []"
  proof -
    from that k(3) have "last ds' \<noteq> CHR ''0''" by simp
    moreover have "ascii_digit (last ds')" using dig that(2) by (simp add: list_all_iff)
    ultimately show ?thesis by (simp add: digits_value_mod_10 [OF that(2) dig] digit_of_eq_0)
  qed
  show "- 18 \<le> sc'" if "- 18 \<le> sc" using that k(2,4) by (cases "k = 0") auto
qed

lemma unat_coefficient_of_nat: "n < 2 ^ 64 \<Longrightarrow> unat (of_nat n :: u64) = n"
  by (simp add: unat_of_nat)

lemma checked_multiply_eq:
  "checked_multiply a b = (if unat a * unat b < 2 ^ 64 then Some (a * b) else None)"
  using checked_multiply_Some [of a b] by (metis not_Some_eq)

lemma checked_multiply_power:
  assumes "n \<le> 19" and "d < 2 ^ 64"
  shows "checked_multiply (of_nat d) (power_of_ten n)
    = (if d * 10 ^ n < 2 ^ 64 then Some (of_nat (d * 10 ^ n)) else None)"
proof -
  have p: "unat (power_of_ten n) = 10 ^ n" using assms(1) by (rule unat_power_of_ten)
  then have "power_of_ten n = of_nat (10 ^ n)"
    using unat_u64_less [of "power_of_ten n"]
    by (simp only: word_unat_eq_iff unat_coefficient_of_nat)
  then have "of_nat d * power_of_ten n = of_nat (d * 10 ^ n)" by simp
  then show ?thesis
    by (simp only: checked_multiply_eq p unat_coefficient_of_nat [OF assms(2)])
qed

text \<open>
  What the tail of \<open>from\<close> computes from stripped digits: either of the two amounts is the
  exact value, and a failure means that no canonical amount has that value.
\<close>

lemma finish_amount_spec:
  assumes "all_digits ds" and "sc > 0 \<Longrightarrow> digits_value ds mod 10 \<noteq> 0" and "0 < digits_value ds"
    and "- 18 \<le> sc"
  shows "finish_amount ds sc = Inr a
    \<longleftrightarrow> (if sc < 0 then digits_value ds * 10 ^ nat (- sc) < 2 ^ 64
              \<and> a = \<lparr>coefficient = of_nat (digits_value ds * 10 ^ nat (- sc)), scale = 0\<rparr>
         else sc \<le> 18 \<and> digits_value ds < 2 ^ 64
              \<and> a = \<lparr>coefficient = of_nat (digits_value ds), scale = nat sc\<rparr>)"
    (is "?L \<longleftrightarrow> ?R")
proof (cases "sc < 0")
  case True
  let ?v = "digits_value ds" and ?n = "nat (- sc)"
  have n: "?n \<le> 18" using assms(4) True by simp
  have "?v * 1 \<le> ?v * 10 ^ ?n" by (intro mult_le_mono) auto
  then have "?v < 2 ^ 64" if "?v * 10 ^ ?n < 2 ^ 64" using that by linarith
  moreover have "checked_multiply (of_nat ?v) (power_of_ten ?n)
      = (if ?v * 10 ^ ?n < 2 ^ 64 then Some (of_nat (?v * 10 ^ ?n)) else None)" if "?v < 2 ^ 64"
    using n that by (intro checked_multiply_power) auto
  ultimately show ?thesis using True n
    by (auto simp: finish_amount_def read_coefficient_eq [OF assms(1)] kMaximumScale_def)
next
  case False
  then show ?thesis
    by (auto simp: finish_amount_def read_coefficient_eq [OF assms(1)] kMaximumScale_def)
qed


lemma amount_value_simps:
  "n < 2 ^ 64 \<Longrightarrow> amount_value \<lparr>coefficient = of_nat n, scale = sc\<rparr> = of_nat n / 10 ^ sc"
  by (simp add: amount_value_def unat_coefficient_of_nat)

lemma amount_ok_simps:
  "n < 2 ^ 64 \<Longrightarrow> amount_ok \<lparr>coefficient = of_nat n, scale = sc\<rparr>
    \<longleftrightarrow> sc \<le> 18 \<and> (0 < sc \<longrightarrow> n mod 10 \<noteq> 0)"
  by (simp add: amount_ok_def unat_coefficient_of_nat kMaximumScale_def)

lemma amount_ok_obtain:
  assumes "amount_ok a"
  obtains n sc where "a = \<lparr>coefficient = of_nat n, scale = sc\<rparr>" and "n < 2 ^ 64" and "sc \<le> 18"
    and "0 < sc \<Longrightarrow> n mod 10 \<noteq> 0"
  using assms that [of "unat (coefficient a)" "scale a"] unat_u64_less [of "coefficient a"]
  by (auto simp: amount_ok_def kMaximumScale_def)

lemma amount_of_digits:
  assumes "0 < sc \<Longrightarrow> v mod 10 \<noteq> 0"
  shows "amount_ok a \<and> amount_value a = of_nat v * 10 powi (- sc)
    \<longleftrightarrow> (if sc < 0 then v * 10 ^ nat (- sc) < 2 ^ 64
              \<and> a = \<lparr>coefficient = of_nat (v * 10 ^ nat (- sc)), scale = 0\<rparr>
         else sc \<le> 18 \<and> v < 2 ^ 64 \<and> a = \<lparr>coefficient = of_nat v, scale = nat sc\<rparr>)"
    (is "_ \<longleftrightarrow> ?R")
proof
  define m where "m = (if sc < 0 then v * 10 ^ nat (- sc) else v)"
  define k where "k = nat sc"
  have mk: "of_nat v * 10 powi (- sc) = (of_nat m / 10 ^ k :: rat)"
    by (auto simp: m_def k_def power_int_def field_simps)
  have nz: "0 < k \<Longrightarrow> m mod 10 \<noteq> 0" using assms by (auto simp: m_def k_def)
  { assume A: "amount_ok a \<and> amount_value a = of_nat v * 10 powi (- sc)"
    then obtain n s where a: "a = \<lparr>coefficient = of_nat n, scale = s\<rparr>" "n < 2 ^ 64" "s \<le> 18"
      "0 < s \<Longrightarrow> n mod 10 \<noteq> 0" by (blast elim: amount_ok_obtain)
    with A have "n * 10 ^ k = m * 10 ^ s"
      by (simp only: amount_value_simps mk decimal_fraction_eq_iff)
    with a(4) nz have "n = m \<and> s = k" by (intro normal_decimal_unique) auto
    with a show ?R by (auto simp: m_def k_def split: if_splits) }
  { assume ?R
    then have "a = \<lparr>coefficient = of_nat m, scale = k\<rparr>" "m < 2 ^ 64" "k \<le> 18"
      by (auto simp: m_def k_def split: if_splits)
    then show "amount_ok a \<and> amount_value a = of_nat v * 10 powi (- sc)"
      using nz by (simp add: amount_value_simps amount_ok_simps mk) }
qed

lemma normalize_digits_iff:
  assumes "all_digits ds" and "- 18 \<le> sc"
  shows "normalize_digits ds sc = Inr a
    \<longleftrightarrow> amount_ok a \<and> amount_value a = of_nat (digits_value ds) * 10 powi (- sc)"
proof -
  define sig where "sig = dropWhile (\<lambda>c. c = CHR ''0'') ds"
  have dig: "all_digits sig" and val: "digits_value sig = digits_value ds"
    using assms(1) by (auto simp: sig_def list_all_iff digits_value_dropWhile_zero dest: set_dropWhileD)
  show ?thesis
  proof (cases "sig = []")
    case True
    then have "digits_value ds = 0" using val by simp
    moreover have "a = \<lparr>coefficient = 0, scale = 0\<rparr>" if "amount_ok a" "amount_value a = 0"
      using that by (intro amount_eqI) (auto simp: amount_ok_def amount_value_def)
    ultimately show ?thesis using True
      by (auto simp: normalize_digits_def sig_def [symmetric] amount_ok_def amount_value_def)
  next
    case False
    obtain ds' sc' where strip: "strip_trailing_zeros sig sc = (ds', sc')" by fastforce
    note sv = strip_trailing_zeros_value [OF strip dig]
    have "hd sig \<noteq> CHR ''0''" using False hd_dropWhile [of "\<lambda>c. c = CHR ''0''" ds] by (simp add: sig_def)
    then have "0 < digits_value sig" using False dig by (intro digits_value_pos)
    then have "of_nat (digits_value ds') * 10 powi (- sc') \<noteq> (0::rat)" using sv(2) by simp
    then have "digits_value ds' \<noteq> 0" by auto
    then have pos: "0 < digits_value ds'" and ne: "ds' \<noteq> []" by auto
    have "normalize_digits ds sc = finish_amount ds' sc'"
      using False strip by (simp add: normalize_digits_def sig_def [symmetric])
    moreover have "finish_amount ds' sc' = Inr a
        \<longleftrightarrow> amount_ok a \<and> amount_value a = of_nat (digits_value ds') * 10 powi (- sc')"
      by (rule trans [OF finish_amount_spec [OF sv(1) sv(3) [OF _ ne] pos sv(4) [OF assms(2)]]
            sym [OF amount_of_digits [OF sv(3) [OF _ ne]]]])
    ultimately show ?thesis by (simp only: sv(2) val)
  qed
qed

lemma finish_amount_too_large: "sc < - 18 \<Longrightarrow> finish_amount ds sc \<noteq> Inr a"
  by (auto simp: finish_amount_def kMaximumScale_def)

lemma normalize_digits_sound:
  assumes "all_digits ds" and "normalize_digits ds sc = Inr a"
  shows "amount_ok a \<and> amount_value a = of_nat (digits_value ds) * 10 powi (- sc)"
proof (cases "- 18 \<le> sc")
  case True
  with assms show ?thesis by (simp add: normalize_digits_iff)
next
  case False
  define sig where "sig = dropWhile (\<lambda>c. c = CHR ''0'') ds"
  from False have "strip_trailing_zeros sig sc = (sig, sc)"
    by (subst strip_trailing_zeros.simps) simp
  with assms(2) False have "sig = []" "a = \<lparr>coefficient = 0, scale = 0\<rparr>"
    by (auto simp: normalize_digits_def sig_def [symmetric] finish_amount_too_large split: if_splits)
  moreover have "digits_value ds = digits_value sig"
    by (simp only: sig_def digits_value_dropWhile_zero)
  ultimately show ?thesis by (simp add: amount_ok_def amount_value_def)
qed

section \<open>Reading and printing\<close>

lemma scan_exponent_digits_all:
  "scan_exponent_digits e cs = Inr (e', rest) \<Longrightarrow> 0 \<le> e \<Longrightarrow> 0 \<le> e'"
  by (induction e cs rule: scan_exponent_digits.induct) (auto split: if_splits)

lemma DecimalAmount_from_ok: "DecimalAmount_from t = Inr a \<Longrightarrow> amount_ok a"
proof -
  assume "DecimalAmount_from t = Inr a"
  then obtain fraction rest e where f: "scan_fraction (dropWhile ascii_digit t) = Inr (fraction, rest)"
    and n: "normalize_digits (takeWhile ascii_digit t @ fraction) (int (length fraction) - e) = Inr a"
    by (auto simp: DecimalAmount_from_def Let_def)
  have "all_digits (takeWhile ascii_digit t @ fraction)"
    using f by (auto simp: scan_fraction_def list_all_iff split: list.splits if_splits dest: set_takeWhileD)
  with n show ?thesis using normalize_digits_sound by blast
qed

text \<open>A plain decimal: the whole digits, and the point with the fraction if there is one.\<close>

definition plain_text :: "string \<Rightarrow> string \<Rightarrow> string" where
  "plain_text whole fraction = whole @ (if fraction = [] then [] else CHR ''.'' # fraction)"

lemma DecimalAmount_from_plain:
  assumes "all_digits w" and "all_digits f" and "w \<noteq> []" and "length (plain_text w f) \<le> 128"
  shows "DecimalAmount_from (plain_text w f) = normalize_digits (w @ f) (int (length f))"
proof (cases "f = []")
  case True
  then show ?thesis using assms
    by (simp add: DecimalAmount_from_def plain_text_def scan_fraction_def scan_exponent_def
        list_all_iff takeWhile_eq_all_conv [THEN iffD2] dropWhile_eq_Nil_conv [THEN iffD2])
next
  case False
  have nd: "\<not> ascii_digit CHR ''.''" by (simp add: ascii_digit_def byte_def)
  have "takeWhile ascii_digit (plain_text w f) = w" "dropWhile ascii_digit (plain_text w f) = CHR ''.'' # f"
    using assms nd False by (auto simp: plain_text_def list_all_iff)
  moreover have "scan_fraction (CHR ''.'' # f) = Inr (f, [])"
    using assms(2) False
    by (simp add: scan_fraction_def list_all_iff takeWhile_eq_all_conv [THEN iffD2])
  moreover have "plain_text w f \<noteq> []" using assms(3) by (simp add: plain_text_def)
  ultimately show ?thesis using assms False
    by (simp add: DecimalAmount_from_def scan_exponent_def Let_def)
qed

lemma DecimalAmount_from_plain_iff:
  assumes "all_digits w" and "all_digits f" and "w \<noteq> []" and "length (plain_text w f) \<le> 128"
  shows "DecimalAmount_from (plain_text w f) = Inr a
    \<longleftrightarrow> amount_ok a \<and> amount_value a = of_nat (digits_value (w @ f)) / 10 ^ length f"
proof -
  have "all_digits (w @ f)" using assms by (simp add: list_all_append)
  then show ?thesis
    by (simp only: DecimalAmount_from_plain [OF assms] normalize_digits_iff)
      (simp add: normalize_digits_iff power_int_minus divide_inverse)
qed

text \<open>The printed form is a plain decimal.\<close>

lemma length_decimal_u64: "length (decimal (unat (c :: u64))) \<le> 20"
proof (rule length_decimal_le)
  have "unat c < 2 ^ 64" by (rule unat_u64_less)
  also have "\<dots> < 10 ^ 20" by simp
  finally show "unat c < 10 ^ 20" .
qed simp

lemma to_string_plain:
  obtains w f where "DecimalAmount_to_string a = plain_text w f" and "all_digits w" and "all_digits f"
    and "w \<noteq> []" and "length f = scale a" and "digits_value (w @ f) = unat (coefficient a)"
    and "length w \<le> 20"
proof -
  define ds where "ds = decimal (unat (coefficient a))"
  have ds: "all_digits ds" "digits_value ds = unat (coefficient a)" "ds \<noteq> []" "length ds \<le> 20"
    by (simp_all add: ds_def length_decimal_u64)
  consider (whole) "scale a = 0" | (small) "scale a > 0" "length ds \<le> scale a"
    | (mixed) "scale a > 0" "length ds > scale a" by linarith
  then show ?thesis
  proof cases
    case whole
    with ds show ?thesis
      by (intro that [of ds "[]"]) (auto simp: DecimalAmount_to_string_def plain_text_def ds_def)
  next
    case small
    with ds show ?thesis
      by (intro that [of "''0''" "replicate (scale a - length ds) CHR ''0'' @ ds"])
        (auto simp: DecimalAmount_to_string_def plain_text_def ds_def Let_def list_all_append list_all_iff
          digits_value_Cons digits_value_append)
  next
    case mixed
    let ?n = "length ds - scale a"
    have "ds = take ?n ds @ drop ?n ds" by simp
    with ds(1) have "all_digits (take ?n ds)" "all_digits (drop ?n ds)"
      by (metis list_all_append)+
    with mixed ds show ?thesis
      by (intro that [of "take ?n ds" "drop ?n ds"])
        (auto simp: DecimalAmount_to_string_def plain_text_def insert_point_def ds_def Let_def)
  qed
qed

lemma DecimalAmount_from_to_string:
  assumes "amount_ok a"
  shows "DecimalAmount_from (DecimalAmount_to_string a) = Inr a"
proof -
  obtain w f where wf: "DecimalAmount_to_string a = plain_text w f" "all_digits w" "all_digits f"
    "w \<noteq> []" "length f = scale a" "digits_value (w @ f) = unat (coefficient a)" "length w \<le> 20"
    by (rule to_string_plain)
  have "length (plain_text w f) \<le> 128"
    using wf(5,7) assms by (simp add: plain_text_def amount_ok_def kMaximumScale_def)
  then show ?thesis
    using assms by (simp add: wf DecimalAmount_from_plain_iff amount_value_def)
qed

text \<open>
  Every canonical amount is read back unchanged from its printed form, and what is read is
  always canonical, so printing and reading are inverse on the amounts the program can hold.
\<close>

theorem DecimalAmount_round_trip:
  assumes "amount_ok a"
  shows "DecimalAmount_from (DecimalAmount_to_string a) = Inr a \<and>
    (DecimalAmount_from t = Inr b \<longrightarrow> amount_ok b \<and>
      DecimalAmount_from (DecimalAmount_to_string b) = Inr b)"
  using assms by (auto intro: DecimalAmount_from_to_string DecimalAmount_from_ok)

theorem DecimalAmount_round_trip_witness:
  "DecimalAmount_from (DecimalAmount_to_string \<lparr>coefficient = 105, scale = 2\<rparr>)
    = Inr \<lparr>coefficient = 105, scale = 2\<rparr>
   \<and> DecimalAmount_from ''2.50'' = Inr \<lparr>coefficient = 25, scale = 1\<rparr>
   \<and> DecimalAmount_from (DecimalAmount_to_string \<lparr>coefficient = 25, scale = 1\<rparr>)
    = Inr \<lparr>coefficient = 25, scale = 1\<rparr>"
proof -
  have "amount_ok \<lparr>coefficient = 105, scale = 2\<rparr>" by (simp add: amount_ok_def kMaximumScale_def)
  moreover have "DecimalAmount_from ''2.50'' = Inr \<lparr>coefficient = 25, scale = 1\<rparr>" by code_simp
  ultimately show ?thesis using DecimalAmount_round_trip by blast
qed

section \<open>Arithmetic is exact\<close>


lemma drop_fraction_zeros_spec:
  "drop_fraction_zeros c sc = (c', sc') \<Longrightarrow>
    unat c = unat c' * 10 ^ (sc - sc') \<and> sc' \<le> sc \<and> (0 < sc' \<longrightarrow> unat c' mod 10 \<noteq> 0)"
proof (induction c sc rule: drop_fraction_zeros.induct)
  case (2 c n)
  show ?case
  proof (cases "c mod 10 = 0")
    case True
    then have "unat c = unat (c div 10) * 10" unfolding u64_mod_10_eq_0 unat_div_10 by auto
    with 2 True show ?thesis by (auto simp: Suc_diff_le)
  next
    case False
    with 2 show ?thesis by (auto simp: u64_mod_10_eq_0)
  qed
qed simp

text \<open>The coefficient of an amount written with \<open>sc\<close> fractional digits.\<close>

definition aligned_coefficient :: "DecimalAmount \<Rightarrow> nat \<Rightarrow> nat" where
  "aligned_coefficient a sc = unat (coefficient a) * 10 ^ (sc - scale a)"

lemma amount_value_aligned:
  assumes "scale a \<le> sc"
  shows "amount_value a = of_nat (aligned_coefficient a sc) / 10 ^ sc"
proof -
  have "(10::rat) ^ sc = 10 ^ scale a * 10 ^ (sc - scale a)" using assms by (simp flip: power_add)
  then show ?thesis by (simp add: amount_value_def aligned_coefficient_def)
qed

lemma checked_multiply_aligned:
  assumes "sc \<le> 18"
  shows "checked_multiply (coefficient a) (power_of_ten (sc - scale a))
    = (if aligned_coefficient a sc < 2 ^ 64 then Some (of_nat (aligned_coefficient a sc)) else None)"
  using checked_multiply_power [of "sc - scale a" "unat (coefficient a)"] assms unat_u64_less
  by (simp add: aligned_coefficient_def)

lemma amount_add_spec:
  assumes "amount_ok l" and "amount_ok r" and sc: "sc = max (scale l) (scale r)"
    and LR: "LR = aligned_coefficient l sc + aligned_coefficient r sc"
  shows "case amount_add l r of
      Inr s \<Rightarrow> LR < 2 ^ 64 \<and> amount_ok s \<and> amount_value s = amount_value l + amount_value r
    | Inl e \<Rightarrow> 2 ^ 64 \<le> LR \<and> e = Money_amount_overflow"
proof (cases "LR < 2 ^ 64")
  case True
  let ?L = "aligned_coefficient l sc" and ?R = "aligned_coefficient r sc"
  have "sc \<le> 18" using assms by (simp add: amount_ok_def kMaximumScale_def)
  obtain c sc' where d: "drop_fraction_zeros (of_nat ?L + of_nat ?R) sc = (c, sc')" by fastforce
  have "unat (of_nat ?L + of_nat ?R :: u64) = LR"
    using True unfolding LR by (metis of_nat_add unat_coefficient_of_nat)
  with drop_fraction_zeros_spec [OF d]
  have u: "unat c * 10 ^ (sc - sc') = LR" "sc' \<le> sc" "0 < sc' \<Longrightarrow> unat c mod 10 \<noteq> 0" by auto
  let ?s = "\<lparr>coefficient = c, scale = sc'\<rparr>"
  have "amount_add l r = Inr ?s"
    using True \<open>sc \<le> 18\<close> d
    by (simp add: amount_add_def sc [symmetric] LR checked_multiply_aligned add_check_iff
        unat_coefficient_of_nat)
  moreover have "amount_value ?s = of_nat LR / 10 ^ sc"
    using u(2) by (subst amount_value_aligned [of _ sc]) (simp_all add: aligned_coefficient_def flip: u(1))
  moreover have "of_nat LR / 10 ^ sc = amount_value l + amount_value r"
    using amount_value_aligned [of l sc] amount_value_aligned [of r sc]
    by (simp add: sc LR add_divide_distrib)
  moreover have "amount_ok ?s" using u \<open>sc \<le> 18\<close> by (simp add: amount_ok_def kMaximumScale_def)
  ultimately show ?thesis using True by simp
next
  case False
  have "sc \<le> 18" using assms by (simp add: amount_ok_def kMaximumScale_def)
  with False show ?thesis
    by (auto simp: amount_add_def sc [symmetric] LR checked_multiply_aligned add_check_iff
        unat_coefficient_of_nat not_less)
qed

text \<open>
  The sum of two amounts is exact: addition succeeds exactly when the sum written at the
  larger of the two scales fits 64 bits, the result is canonical and denotes the sum of the
  rational values, and otherwise the error is the overflow code.
\<close>

theorem amount_add_exact:
  assumes "amount_ok l" and "amount_ok r"
  shows "case amount_add l r of
      Inr s \<Rightarrow> amount_ok s \<and> amount_value s = amount_value l + amount_value r
    | Inl e \<Rightarrow> e = Money_amount_overflow \<and>
        2 ^ 64 \<le> (amount_value l + amount_value r) * 10 ^ max (scale l) (scale r)"
proof -
  let ?sc = "max (scale l) (scale r)"
  define LR where "LR = aligned_coefficient l ?sc + aligned_coefficient r ?sc"
  have "(amount_value l + amount_value r) * 10 ^ ?sc = of_nat LR"
    using amount_value_aligned [of l ?sc] amount_value_aligned [of r ?sc]
    by (simp add: LR_def add_divide_distrib [symmetric])
  moreover have "(2 :: rat) ^ 64 = of_nat (2 ^ 64)" by simp
  ultimately have "2 ^ 64 \<le> (amount_value l + amount_value r) * 10 ^ ?sc \<longleftrightarrow> 2 ^ 64 \<le> LR"
    by (simp only: of_nat_le_iff)
  then show ?thesis
    using amount_add_spec [OF assms refl LR_def] by (auto split: sum.splits)
qed

theorem amount_add_exact_witness:
  "case amount_add \<lparr>coefficient = 25, scale = 2\<rparr> \<lparr>coefficient = 5, scale = 2\<rparr> of
      Inr s \<Rightarrow> amount_ok s \<and> amount_value s =
        amount_value \<lparr>coefficient = 25, scale = 2\<rparr> + amount_value \<lparr>coefficient = 5, scale = 2\<rparr>
    | Inl e \<Rightarrow> e = Money_amount_overflow \<and>
        2 ^ 64 \<le> (amount_value \<lparr>coefficient = 25, scale = 2\<rparr> + amount_value \<lparr>coefficient = 5, scale = 2\<rparr>)
          * 10 ^ max (scale \<lparr>coefficient = 25, scale = 2\<rparr>) (scale \<lparr>coefficient = 5, scale = 2\<rparr>)"
  by (rule amount_add_exact) (simp_all add: amount_ok_def kMaximumScale_def)

section \<open>Comparison\<close>

lemma all_digits_zeros: "all_digits (replicate n CHR ''0'')"
  by (simp add: list_all_iff)

lemma left_pad_props:
  "digits_value (left_pad ds n) = digits_value ds"
  "all_digits ds \<Longrightarrow> all_digits (left_pad ds n)"
  "length ds \<le> n \<Longrightarrow> length (left_pad ds n) = n"
  by (auto simp: left_pad_def digits_value_append list_all_append list_all_iff)

lemma aligned_digits_props:
  "digits_value (aligned_digits a sc) = aligned_coefficient a sc"
  "all_digits (aligned_digits a sc)"
  by (simp_all add: aligned_digits_def aligned_coefficient_def digits_value_append list_all_append
      all_digits_zeros)

text \<open>The operands of \<open>compare\<close> and \<open>subtract\<close>, padded to one width.\<close>

definition padded_digits :: "DecimalAmount \<Rightarrow> DecimalAmount \<Rightarrow> string \<times> string" where
  "padded_digits left right =
     (let sc = max (scale left) (scale right); l = aligned_digits left sc; r = aligned_digits right sc;
          width = max (length l) (length r)
      in (left_pad l width, left_pad r width))"

lemma padded_digits_props:
  assumes "padded_digits l r = (dl, dr)" and "sc = max (scale l) (scale r)"
  shows "length dl = length dr" and "all_digits dl" and "all_digits dr"
    and "digits_value dl = aligned_coefficient l sc" and "digits_value dr = aligned_coefficient r sc"
  using assms by (auto simp: padded_digits_def Let_def left_pad_props aligned_digits_props)

lemma aligned_less_iff:
  assumes "sc = max (scale l) (scale r)"
  shows "aligned_coefficient l sc < aligned_coefficient r sc \<longleftrightarrow> amount_value l < amount_value r"
proof -
  have "amount_value l < amount_value r \<longleftrightarrow>
      (of_nat (aligned_coefficient l sc) :: rat) < of_nat (aligned_coefficient r sc)"
    using amount_value_aligned [of l sc] amount_value_aligned [of r sc] assms
    by (simp add: divide_less_cancel)
  then show ?thesis by (simp only: of_nat_less_iff)
qed

lemma amount_compare_eq:
  "amount_compare l r =
    (if amount_value l < amount_value r then ordering_less
     else if amount_value r < amount_value l then ordering_greater else ordering_equal)"
proof -
  let ?sc = "max (scale l) (scale r)"
  obtain dl dr where d: "padded_digits l r = (dl, dr)" by fastforce
  note p = padded_digits_props [OF d refl]
  have "amount_compare l r = (if dl < dr then ordering_less else if dl > dr then ordering_greater
      else ordering_equal)"
    using d by (auto simp: amount_compare_def padded_digits_def Let_def)
  moreover have "dl < dr \<longleftrightarrow> amount_value l < amount_value r"
    using p aligned_less_iff [of ?sc l r] by (simp add: digits_less_iff)
  moreover have "dr < dl \<longleftrightarrow> amount_value r < amount_value l"
    using p aligned_less_iff [of ?sc r l] by (simp add: digits_less_iff max.commute)
  ultimately show ?thesis by simp
qed


text \<open>
  Comparing the padded digit strings character by character is comparing the rational values,
  and on canonical amounts the comparison says equal only for the same amount.
\<close>

theorem amount_compare_value:
  "(amount_compare l r =
    (if amount_value l < amount_value r then ordering_less
     else if amount_value r < amount_value l then ordering_greater else ordering_equal)) \<and>
   (amount_ok l \<and> amount_ok r \<longrightarrow> (amount_compare l r = ordering_equal \<longleftrightarrow> l = r))"
  using amount_eqI [of l r] by (auto simp: amount_compare_eq)

theorem amount_compare_value_witness:
  "amount_compare \<lparr>coefficient = 15, scale = 1\<rparr> \<lparr>coefficient = 2, scale = 0\<rparr> = ordering_less \<and>
   amount_compare \<lparr>coefficient = 15, scale = 1\<rparr> \<lparr>coefficient = 15, scale = 1\<rparr> = ordering_equal"
  using amount_compare_value [of "\<lparr>coefficient = 15, scale = 1\<rparr>" "\<lparr>coefficient = 2, scale = 0\<rparr>"]
    amount_compare_value [of "\<lparr>coefficient = 15, scale = 1\<rparr>" "\<lparr>coefficient = 15, scale = 1\<rparr>"]
  by (simp add: amount_value_def amount_ok_def kMaximumScale_def)

section \<open>Subtraction\<close>

lemma subtract_digits_value:
  assumes "length ls = length rs" and "all_digits ls" and "all_digits rs" and "b \<le> 1"
    and "digits_value (rev rs) + b \<le> digits_value (rev ls)"
  shows "length (subtract_digits (int b) ls rs) = length ls \<and>
    all_digits (subtract_digits (int b) ls rs) \<and>
    digits_value (rev (subtract_digits (int b) ls rs)) + digits_value (rev rs) + b = digits_value (rev ls)"
  using assms
proof (induction ls rs arbitrary: b rule: list_induct2)
  case (Cons l ls r rs)
  let ?l = "digit_of l" and ?r = "digit_of r" and ?L = "digits_value (rev ls)" and ?R = "digits_value (rev rs)"
  have dig: "?l < 10" "?r < 10" using Cons.prems by (auto simp: digit_of_less)
  have le: "?R * 10 + ?r + b \<le> ?L * 10 + ?l" using Cons.prems by simp
  show ?case
  proof (cases "?l < b + ?r")
    case True
    with le dig have "?R + 1 \<le> ?L" by linarith
    with Cons have IH: "length (subtract_digits 1 ls rs) = length ls"
      "all_digits (subtract_digits 1 ls rs)"
      "digits_value (rev (subtract_digits 1 ls rs)) + ?R + 1 = ?L"
      using Cons.IH [of 1] by auto
    have "nat (int ?l - int b - int ?r + 10) = ?l + 10 - b - ?r" "?l + 10 - b - ?r < 10"
      using True Cons.prems(3) dig by auto
    with True IH dig Cons.prems(3) show ?thesis by (simp add: Let_def)
  next
    case False
    with le dig have "?R + 0 \<le> ?L" by linarith
    with Cons have IH: "length (subtract_digits 0 ls rs) = length ls"
      "all_digits (subtract_digits 0 ls rs)"
      "digits_value (rev (subtract_digits 0 ls rs)) + ?R = ?L"
      using Cons.IH [of 0] by auto
    have "nat (int ?l - int b - int ?r) = ?l - b - ?r" "?l - b - ?r < 10"
      using False dig by auto
    with False IH dig show ?thesis by (simp add: Let_def)
  qed
qed simp

lemma place_point_plain:
  assumes "all_digits ds" and "ds \<noteq> []" and "length ds \<le> 40" and "sc \<le> 18"
  shows "DecimalAmount_from (place_point ds sc) = Inr a
   \<longleftrightarrow> amount_ok a \<and> amount_value a = of_nat (digits_value ds) / 10 ^ sc"
proof (cases "sc = 0")
  case True
  then show ?thesis
    using assms DecimalAmount_from_plain_iff [of ds "[]" a] by (simp add: place_point_def plain_text_def)
next
  case False
  define p where "p = (if length ds \<le> sc then replicate (sc - length ds + 1) CHR ''0'' @ ds else ds)"
  let ?w = "take (length p - sc) p" and ?f = "drop (length p - sc) p"
  have p: "all_digits p" "digits_value p = digits_value ds" "sc < length p" "length p \<le> 40"
    using assms by (auto simp: p_def list_all_append all_digits_zeros digits_value_append
        simp del: replicate.simps)
  have "all_digits ?w" "all_digits ?f" using p(1) by (metis append_take_drop_id list_all_append)+
  moreover have "?w \<noteq> []" "?f \<noteq> []" "length ?f = sc" using p(3) False by auto
  ultimately show ?thesis
    using p False DecimalAmount_from_plain_iff [of ?w ?f a]
    by (simp add: place_point_def insert_point_def plain_text_def p_def [symmetric])
qed

lemma padded_digits_length:
  assumes "padded_digits l r = (dl, dr)" and "amount_ok l" and "amount_ok r"
  shows "dl \<noteq> []" and "length dl \<le> 40"
proof -
  have b: "length (aligned_digits a sc) \<le> 38" "aligned_digits a sc \<noteq> []" if "sc \<le> 18" for a sc
    using length_decimal_u64 [of "coefficient a"] that by (auto simp: aligned_digits_def)
  define sc where "sc = max (scale l) (scale r)"
  define w where "w = max (length (aligned_digits l sc)) (length (aligned_digits r sc))"
  have "sc \<le> 18" using assms(2,3) by (simp add: sc_def amount_ok_def kMaximumScale_def)
  then have "0 < w" "w \<le> 38" using b [of sc l] b [of sc r] by (auto simp: w_def less_max_iff_disj)
  moreover have "length dl = w"
    using assms(1) by (auto simp: padded_digits_def Let_def left_pad_props w_def sc_def)
  ultimately show "dl \<noteq> []" and "length dl \<le> 40" by auto
qed

lemma amount_subtract_value:
  assumes "amount_ok l" and "amount_ok r" and "\<not> amount_value l < amount_value r"
  shows "amount_subtract l r = Inr d
    \<longleftrightarrow> amount_ok d \<and> amount_value d = amount_value l - amount_value r"
proof -
  let ?sc = "max (scale l) (scale r)"
  obtain dl dr where d: "padded_digits l r = (dl, dr)" by fastforce
  note p = padded_digits_props [OF d refl] and len = padded_digits_length [OF d assms(1,2)]
  define ds where "ds = rev (subtract_digits 0 (rev dl) (rev dr))"
  have le: "digits_value dr \<le> digits_value dl"
    using assms(3) aligned_less_iff [of ?sc l r] p by simp
  have ds: "all_digits ds" "length ds = length dl" "digits_value ds + digits_value dr = digits_value dl"
    using subtract_digits_value [of "rev dl" "rev dr" 0] p le by (auto simp: ds_def)
  have "amount_subtract l r = DecimalAmount_from (place_point ds ?sc)"
    using assms(3) d by (simp add: amount_subtract_def amount_compare_eq padded_digits_def Let_def ds_def)
  moreover have "DecimalAmount_from (place_point ds ?sc) = Inr d
      \<longleftrightarrow> amount_ok d \<and> amount_value d = of_nat (digits_value ds) / 10 ^ ?sc"
    using ds len assms(1,2) by (intro place_point_plain) (auto simp: amount_ok_def kMaximumScale_def)
  moreover have "(of_nat (digits_value ds) :: rat) = of_nat (digits_value dl) - of_nat (digits_value dr)"
    using ds(3) by (metis add_diff_cancel_right' of_nat_add)
  then have "of_nat (digits_value ds) / 10 ^ ?sc = amount_value l - amount_value r"
    using amount_value_aligned [of l ?sc] amount_value_aligned [of r ?sc] p
    by (simp add: diff_divide_distrib)
  ultimately show ?thesis by simp
qed

lemma DecimalAmount_from_not_negative: "DecimalAmount_from t \<noteq> Inl Money_negative_result"
proof -
  have [simp]: "read_coefficient c cs \<noteq> Inl Money_negative_result" for c cs
    by (induction c cs rule: read_coefficient.induct) (simp_all add: Let_def fail_if_Inl)
  have [simp]: "finish_amount ds sc \<noteq> Inl Money_negative_result" for ds sc
    by (auto simp: finish_amount_def fail_if_Inl bind_result_Inl split: if_splits option.splits)
  have [simp]: "normalize_digits ds sc \<noteq> Inl Money_negative_result" for ds sc
    by (simp add: normalize_digits_def Let_def split: prod.splits)
  have [simp]: "scan_exponent_digits e cs \<noteq> Inl Money_negative_result" for e cs
    by (induction e cs rule: scan_exponent_digits.induct) (simp_all add: fail_if_Inl)
  have [simp]: "scan_exponent cs \<noteq> Inl Money_negative_result" for cs
    by (auto simp: scan_exponent_def Let_def fail_if_Inl bind_result_Inl split: if_splits)
  have [simp]: "scan_fraction cs \<noteq> Inl Money_negative_result" for cs
    by (simp add: scan_fraction_def fail_if_Inl split: list.splits if_splits)
  show ?thesis
    by (auto simp: DecimalAmount_from_def Let_def fail_if_Inl bind_result_Inl)
qed

text \<open>
  C39: subtraction is exact: the digit-by-digit borrow loop gives the canonical amount of the
  difference whenever one exists, and a smaller left operand is refused as negative.
\<close>

theorem amount_subtract_exact:
  assumes "amount_ok l" and "amount_ok r"
  shows "(amount_subtract l r = Inl Money_negative_result \<longleftrightarrow> amount_value l < amount_value r) \<and>
    (amount_subtract l r = Inr d \<longleftrightarrow>
      amount_ok d \<and> amount_value d = amount_value l - amount_value r \<and> amount_value r \<le> amount_value l)"
proof (cases "amount_value l < amount_value r")
  case True
  then show ?thesis by (simp add: amount_subtract_def amount_compare_eq)
next
  case False
  then have "amount_subtract l r \<noteq> Inl Money_negative_result"
    using DecimalAmount_from_not_negative by (simp add: amount_subtract_def amount_compare_eq Let_def)
  with False show ?thesis using amount_subtract_value [OF assms False, of d] by auto
qed


theorem amount_subtract_exact_witness:
  "amount_subtract \<lparr>coefficient = 25, scale = 2\<rparr> \<lparr>coefficient = 5, scale = 2\<rparr>
    = Inr \<lparr>coefficient = 2, scale = 1\<rparr>"
  using amount_subtract_exact [of "\<lparr>coefficient = 25, scale = 2\<rparr>" "\<lparr>coefficient = 5, scale = 2\<rparr>"
      "\<lparr>coefficient = 2, scale = 1\<rparr>"]
  by (simp add: amount_ok_def amount_value_def kMaximumScale_def)

section \<open>Reported costs\<close>

text \<open>
  The class invariant of \<^verbatim>\<open>ReportedCost\<close>: at least one and at most sixteen amounts, in strictly
  increasing order of their units, each a canonical amount.
\<close>

definition cost_ok :: "ReportedCost \<Rightarrow> bool" where
  "cost_ok c \<longleftrightarrow> cost_amounts c \<noteq> [] \<and> length (cost_amounts c) \<le> kMaximumUnits \<and>
     sorted_wrt (<) (map money_unit (cost_amounts c)) \<and>
     list_all (\<lambda>m. amount_ok (money_amount m)) (cost_amounts c)"

definition amounts_in_unit :: "string \<Rightarrow> MonetaryAmount list \<Rightarrow> rat" where
  "amounts_in_unit u ms = (\<Sum>m \<leftarrow> ms. if money_unit m = u then amount_value (money_amount m) else 0)"

lemma amounts_in_unit_simps [simp]:
  "amounts_in_unit u [] = 0"
  "amounts_in_unit u (m # ms) =
    (if money_unit m = u then amount_value (money_amount m) else 0) + amounts_in_unit u ms"
  by (simp_all add: amounts_in_unit_def)

lemma amounts_in_unit_mset: "mset xs = mset ys \<Longrightarrow> amounts_in_unit u xs = amounts_in_unit u ys"
  by (simp add: amounts_in_unit_def flip: sum_mset_sum_list)

lemma adjacent_duplicate_sorted:
  "sorted xs \<Longrightarrow> \<not> adjacent_duplicate xs \<longleftrightarrow> sorted_wrt (<) xs" for xs :: "'a :: linorder list"
  by (induction xs rule: adjacent_duplicate.induct) (auto simp: order.strict_iff_order)

lemma ReportedCost_create_ok:
  assumes "ReportedCost_create ms = Inr c" and "list_all (\<lambda>m. amount_ok (money_amount m)) ms"
  shows "cost_ok c \<and> (\<forall>u. amounts_in_unit u (cost_amounts c) = amounts_in_unit u ms)"
proof -
  have c: "cost_amounts c = sort_key money_unit ms" "ms \<noteq> []" "length ms \<le> kMaximumUnits"
    "\<not> adjacent_duplicate (map money_unit (sort_key money_unit ms))"
    using assms(1) by (auto simp: ReportedCost_create_def Let_def)
  have "sorted (map money_unit (sort_key money_unit ms))" by simp
  then have "sorted_wrt (<) (map money_unit (sort_key money_unit ms))"
    using c(4) by (simp add: adjacent_duplicate_sorted)
  moreover have "sort_key money_unit ms \<noteq> []" using c(2) by (metis length_sort length_0_conv)
  ultimately have "cost_ok c" using c assms(2) by (simp add: cost_ok_def list_all_iff)
  moreover have "amounts_in_unit u (cost_amounts c) = amounts_in_unit u ms" for u
    unfolding c(1) by (rule amounts_in_unit_mset) simp
  ultimately show ?thesis by blast
qed

lemma merge_amounts_spec:
  "merge_amounts ls rs = Inr ms \<Longrightarrow> list_all (\<lambda>m. amount_ok (money_amount m)) ls
    \<Longrightarrow> list_all (\<lambda>m. amount_ok (money_amount m)) rs
    \<Longrightarrow> list_all (\<lambda>m. amount_ok (money_amount m)) ms
      \<and> amounts_in_unit u ms = amounts_in_unit u ls + amounts_in_unit u rs"
proof (induction ls rs arbitrary: ms rule: merge_amounts.induct)
  case (4 l ls r rs)
  consider (lt) "money_unit l < money_unit r" | (gt) "money_unit r < money_unit l"
    | (eq) "money_unit l = money_unit r" by fastforce
  then show ?case
  proof cases
    case lt
    with "4.prems"(1) obtain ms' where "merge_amounts ls (r # rs) = Inr ms'" "ms = l # ms'" by auto
    with "4.IH"(1) [OF lt, of ms'] "4.prems" show ?thesis by simp
  next
    case gt
    then have nlt: "\<not> money_unit l < money_unit r" by simp
    with gt "4.prems"(1) obtain ms' where "merge_amounts (l # ls) rs = Inr ms'" "ms = r # ms'" by auto
    with "4.IH"(2) [OF nlt gt, of ms'] "4.prems" show ?thesis by simp
  next
    case eq
    with "4.prems"(1) obtain a combined ms' where a: "amount_add (money_amount l) (money_amount r) = Inr a"
      "MonetaryAmount_create (money_unit l) a = Inr combined" "merge_amounts ls rs = Inr ms'"
      "ms = combined # ms'" by auto
    have "amount_ok a \<and> amount_value a = amount_value (money_amount l) + amount_value (money_amount r)"
      using amount_add_spec [OF _ _ refl refl, of "money_amount l" "money_amount r"] a(1) "4.prems" by simp
    moreover have "money_unit combined = money_unit l" "money_amount combined = a"
      using a(2) by (auto simp: MonetaryAmount_create_def)
    moreover have "list_all (\<lambda>m. amount_ok (money_amount m)) ms' \<and>
        amounts_in_unit u ms' = amounts_in_unit u ls + amounts_in_unit u rs"
      using "4.IH"(3) [of ms'] a(3) eq "4.prems" by simp
    ultimately show ?thesis using a(4) eq by (simp add: algebra_simps)
  qed
qed auto

lemma ReportedCost_add_spec:
  assumes "cost_ok l" and "cost_ok r" and "ReportedCost_add l r = Inr c"
  shows "cost_ok c \<and> (\<forall>u. amounts_in_unit u (cost_amounts c)
    = amounts_in_unit u (cost_amounts l) + amounts_in_unit u (cost_amounts r))"
proof -
  obtain ms where ms: "merge_amounts (cost_amounts l) (cost_amounts r) = Inr ms"
    "ReportedCost_create ms = Inr c" using assms(3) by (auto simp: ReportedCost_add_def)
  have "list_all (\<lambda>m. amount_ok (money_amount m)) ms \<and>
      amounts_in_unit u ms = amounts_in_unit u (cost_amounts l) + amounts_in_unit u (cost_amounts r)" for u
    using assms(1,2) by (intro merge_amounts_spec [OF ms(1)]) (auto simp: cost_ok_def)
  then show ?thesis using ReportedCost_create_ok [OF ms(2)] by metis
qed

text \<open>
  Adding two reported costs gives a well-formed cost in which the amount of every unit is the
  exact sum of the amounts the two costs carry in that unit; no unit is lost, merged with another
  or counted twice.
\<close>

theorem ReportedCost_add_exact:
  assumes "cost_ok l" and "cost_ok r" and "ReportedCost_add l r = Inr c"
  shows "cost_ok c \<and> (\<forall>u. amounts_in_unit u (cost_amounts c)
    = amounts_in_unit u (cost_amounts l) + amounts_in_unit u (cost_amounts r))"
  by (rule ReportedCost_add_spec [OF assms])

definition eur_cost :: ReportedCost where
  "eur_cost = \<lparr>cost_amounts = [\<lparr>money_unit = ''EUR'', money_amount = \<lparr>coefficient = 15, scale = 1\<rparr>\<rparr>]\<rparr>"

definition eur_usd_cost :: ReportedCost where
  "eur_usd_cost = \<lparr>cost_amounts =
     [\<lparr>money_unit = ''EUR'', money_amount = \<lparr>coefficient = 5, scale = 1\<rparr>\<rparr>,
      \<lparr>money_unit = ''USD'', money_amount = \<lparr>coefficient = 7, scale = 0\<rparr>\<rparr>]\<rparr>"

definition eur_usd_sum :: ReportedCost where
  "eur_usd_sum = \<lparr>cost_amounts =
     [\<lparr>money_unit = ''EUR'', money_amount = \<lparr>coefficient = 2, scale = 0\<rparr>\<rparr>,
      \<lparr>money_unit = ''USD'', money_amount = \<lparr>coefficient = 7, scale = 0\<rparr>\<rparr>]\<rparr>"

theorem ReportedCost_add_exact_witness:
  "ReportedCost_add eur_cost eur_usd_cost = Inr eur_usd_sum \<and>
   cost_ok eur_usd_sum \<and> (\<forall>u. amounts_in_unit u (cost_amounts eur_usd_sum)
    = amounts_in_unit u (cost_amounts eur_cost) + amounts_in_unit u (cost_amounts eur_usd_cost))"
proof -
  have "ReportedCost_add eur_cost eur_usd_cost = Inr eur_usd_sum" by code_simp
  moreover have "cost_ok eur_cost" "cost_ok eur_usd_cost" by code_simp+
  ultimately show ?thesis using ReportedCost_add_exact by blast
qed

lemma small_sums:
  "amount_add \<lparr>coefficient = 0, scale = 0\<rparr> \<lparr>coefficient = 3, scale = 0\<rparr> = Inr \<lparr>coefficient = 3, scale = 0\<rparr>"
  "amount_subtract \<lparr>coefficient = 9, scale = 0\<rparr> \<lparr>coefficient = 3, scale = 0\<rparr> = Inr \<lparr>coefficient = 6, scale = 0\<rparr>"
  "amount_subtract \<lparr>coefficient = 9, scale = 0\<rparr> \<lparr>coefficient = 0, scale = 0\<rparr> = Inr \<lparr>coefficient = 9, scale = 0\<rparr>"
  by code_simp+

text \<open>
  Observed while modelling: the shift guard compares the number of appended zeros with the
  maximum scale, so \<^verbatim>\<open>1e19\<close> is refused although the same number written out is accepted.
\<close>

lemma exponent_form_narrower:
  "DecimalAmount_from ''1e19'' = Inl Money_amount_overflow \<and>
   DecimalAmount_from ''10000000000000000000'' = Inr \<lparr>coefficient = 10000000000000000000, scale = 0\<rparr>"
  by (intro conjI) code_simp+

end
