(* ===== verification/Pricing.thy ===== *)
theory Pricing
  imports Money
begin

text \<open>
  Recorded price cards: \<^verbatim>\<open>src/lib/pricing.cpp\<close> and \<^verbatim>\<open>include/aiforge/domain/pricing.hpp\<close>.
  A rate card is stored with a digest of a canonical text made of length-prefixed fields; the
  text is modelled exactly, as is its 64-bit FNV-1a hash.
\<close>

unbundle bit_operations_syntax

section \<open>Data\<close>

record PriceRate =
  usd :: "DecimalAmount option"
  diem :: "DecimalAmount option"

record TextPriceTier =
  tier_input :: "PriceRate option"
  tier_output :: "PriceRate option"
  tier_cache_input :: "PriceRate option"
  tier_cache_write :: "PriceRate option"

record TextPricing =
  pricing_base :: TextPriceTier
  extended_threshold_tokens :: "u64 option"
  pricing_extended :: "TextPriceTier option"

datatype PricingCatalogOrigin = Origin_live | Origin_fresh_cache | Origin_stale_cache

datatype PricingRateBasis = per_million_tokens

record PricingObservation =
  po_model_id :: ModelId
  po_source_id :: string
  po_source_revision :: "string option"
  po_fetched_at :: int
  po_origin :: PricingCatalogOrigin
  po_basis :: PricingRateBasis
  po_pricing :: TextPricing
  po_rate_card_digest :: ContentDigest

datatype PricingErrorCode =
    Pricing_invalid_source
  | Pricing_invalid_pricing
  | Pricing_invalid_digest
  | Pricing_resource_exhausted

section \<open>Validation\<close>

definition kMaximumIdentityBytes :: nat where
  "kMaximumIdentityBytes = 256"

definition pricing_valid_identity :: "string \<Rightarrow> bool" where
  "pricing_valid_identity v =
     (if v = [] \<or> length v > kMaximumIdentityBytes then False
      else list_all (\<lambda>c. ascii_alpha c \<or> ascii_digit c \<or> c = CHR ''.'' \<or> c = CHR ''_'' \<or>
             c = CHR ''-'' \<or> c = CHR '':'' \<or> c = CHR ''+'') v)"

definition valid_rate :: "PriceRate option \<Rightarrow> bool" where
  "valid_rate rate = (case rate of None \<Rightarrow> True | Some r \<Rightarrow> usd r \<noteq> None \<or> diem r \<noteq> None)"

definition tier_has_rate :: "TextPriceTier \<Rightarrow> bool" where
  "tier_has_rate tier \<longleftrightarrow> tier_input tier \<noteq> None \<or> tier_output tier \<noteq> None \<or>
     tier_cache_input tier \<noteq> None \<or> tier_cache_write tier \<noteq> None"

definition valid_tier :: "TextPriceTier \<Rightarrow> bool" where
  "valid_tier tier \<longleftrightarrow> valid_rate (tier_input tier) \<and> valid_rate (tier_output tier) \<and>
     valid_rate (tier_cache_input tier) \<and> valid_rate (tier_cache_write tier)"

definition validate_pricing :: "TextPricing \<Rightarrow> PricingErrorCode + unit" where
  "validate_pricing p =
     fail_if (\<not> valid_tier (pricing_base p) \<or>
              (case pricing_extended p of None \<Rightarrow> False | Some t \<Rightarrow> \<not> valid_tier t) \<or>
              (pricing_extended p \<noteq> None) \<noteq> (extended_threshold_tokens p \<noteq> None) \<or>
              extended_threshold_tokens p = Some 0 \<or>
              (\<not> tier_has_rate (pricing_base p) \<and>
               (case pricing_extended p of None \<Rightarrow> True | Some t \<Rightarrow> \<not> tier_has_rate t)))
       Pricing_invalid_pricing (Inr ())"

section \<open>The canonical text and its digest\<close>

definition append_field :: "string \<Rightarrow> string" where
  "append_field v = decimal (length v) @ CHR '':'' # v"

definition append_amount :: "DecimalAmount option \<Rightarrow> string" where
  "append_amount v =
     (case v of None \<Rightarrow> append_field ''absent''
      | Some a \<Rightarrow> append_field ''present'' @ append_field (DecimalAmount_to_string a))"

definition append_rate :: "PriceRate option \<Rightarrow> string" where
  "append_rate v =
     (case v of None \<Rightarrow> append_field ''absent''
      | Some r \<Rightarrow> append_field ''present'' @ append_amount (usd r) @ append_amount (diem r))"

definition append_tier :: "TextPriceTier \<Rightarrow> string" where
  "append_tier tier =
     append_rate (tier_input tier) @ append_rate (tier_output tier) @
     append_rate (tier_cache_input tier) @ append_rate (tier_cache_write tier)"

definition append_threshold :: "u64 option \<Rightarrow> string" where
  "append_threshold v =
     (case v of None \<Rightarrow> append_field ''absent''
      | Some n \<Rightarrow> append_field ''present'' @ append_field (decimal (unat n)))"

definition append_extended :: "TextPriceTier option \<Rightarrow> string" where
  "append_extended v =
     (case v of None \<Rightarrow> append_field ''absent''
      | Some t \<Rightarrow> append_field ''present'' @ append_tier t)"

definition pricing_canonical :: "ModelId \<Rightarrow> TextPricing \<Rightarrow> string" where
  "pricing_canonical model_id p =
     append_field (id_value model_id) @ append_field ''per-million-tokens'' @
     append_tier (pricing_base p) @ append_threshold (extended_threshold_tokens p) @
     append_extended (pricing_extended p)"

fun fnv1a64 :: "u64 \<Rightarrow> string \<Rightarrow> u64" where
  "fnv1a64 hash [] = hash"
| "fnv1a64 hash (c # cs) = fnv1a64 ((hash XOR of_nat (byte c)) * 1099511628211) cs"

definition hex_char :: "nat \<Rightarrow> char" where
  "hex_char d = (if d < 10 then char_of (48 + d) else char_of (87 + d))"

text \<open>\<^verbatim>\<open>std::hex\<close> with fill \<^verbatim>\<open>0\<close> and width 16: sixteen nibbles, the highest first.\<close>

fun hex_digits :: "nat \<Rightarrow> nat \<Rightarrow> string" where
  "hex_digits 0 n = []"
| "hex_digits (Suc k) n = hex_digits k (n div 16) @ [hex_char (n mod 16)]"

definition pricing_digest :: "ModelId \<Rightarrow> TextPricing \<Rightarrow> ContentDigest" where
  "pricing_digest model_id p =
     (let canonical = pricing_canonical model_id p in
      \<lparr>dg_algorithm = ''fnv1a64'',
       dg_value = hex_digits 16 (unat (fnv1a64 14695981039346656037 canonical)),
       dg_byte_size = of_nat (length canonical)\<rparr>)"

section \<open>Operations\<close>

definition make_pricing_observation ::
  "ModelId \<Rightarrow> string \<Rightarrow> string option \<Rightarrow> int \<Rightarrow> PricingCatalogOrigin \<Rightarrow> TextPricing
    \<Rightarrow> PricingErrorCode + PricingObservation" where
  "make_pricing_observation model_id source_id source_revision fetched_at origin p =
     fail_if (\<not> pricing_valid_identity source_id \<or>
              (case source_revision of None \<Rightarrow> False | Some r \<Rightarrow> \<not> pricing_valid_identity r))
       Pricing_invalid_source
    (bind_result (validate_pricing p) (\<lambda>_.
     Inr \<lparr>po_model_id = model_id, po_source_id = source_id, po_source_revision = source_revision,
          po_fetched_at = fetched_at, po_origin = origin, po_basis = per_million_tokens,
          po_pricing = p, po_rate_card_digest = pricing_digest model_id p\<rparr>))"

definition validate_pricing_observation :: "PricingObservation \<Rightarrow> PricingErrorCode + unit" where
  "validate_pricing_observation ob =
     fail_if (\<not> pricing_valid_identity (po_source_id ob) \<or>
              (case po_source_revision ob of None \<Rightarrow> False | Some r \<Rightarrow> \<not> pricing_valid_identity r))
       Pricing_invalid_source
    (fail_if (po_basis ob \<noteq> per_million_tokens) Pricing_invalid_pricing
    (bind_result (validate_pricing (po_pricing ob)) (\<lambda>_.
     fail_if (po_rate_card_digest ob \<noteq> pricing_digest (po_model_id ob) (po_pricing ob))
       Pricing_invalid_digest (Inr ()))))"

text \<open>
  An observation validates exactly when it is one that \<open>make_pricing_observation\<close> produces
  from its own fields; what is made validates, and nothing else does.
\<close>

theorem validate_iff_made:
  "validate_pricing_observation ob = Inr () \<longleftrightarrow>
   make_pricing_observation (po_model_id ob) (po_source_id ob) (po_source_revision ob)
     (po_fetched_at ob) (po_origin ob) (po_pricing ob) = Inr ob"
proof -
  have "po_basis ob = per_million_tokens" by (cases "po_basis ob")
  then show ?thesis
    by (cases ob) (auto simp: validate_pricing_observation_def make_pricing_observation_def)
qed

section \<open>The canonical text is unambiguous\<close>

text \<open>
  A code is a prefix code when a coded value followed by anything can be split in only one way;
  such codes compose by concatenation.
\<close>

locale prefix_code =
  fixes valid :: "'a \<Rightarrow> bool" and enc :: "'a \<Rightarrow> string"
  assumes unique_split: "valid x \<Longrightarrow> valid y \<Longrightarrow> enc x @ r = enc y @ s \<Longrightarrow> x = y \<and> r = s"
begin

lemma enc_inject: "valid x \<Longrightarrow> valid y \<Longrightarrow> enc x = enc y \<Longrightarrow> x = y"
  using unique_split [of x y "[]" "[]"] by simp

end

lemma field_unique_split:
  assumes "append_field x @ r = append_field y @ s"
  shows "x = y \<and> r = s"
proof -
  have nd: "\<not> ascii_digit CHR '':''" by (simp add: ascii_digit_def byte_def)
  have pre: "takeWhile ascii_digit (append_field z @ t) = decimal (length z)" for z t
    using all_digits_decimal [of "length z"] nd by (simp add: append_field_def list_all_iff)
  have "decimal (length x) = decimal (length y)" using pre [of x r] pre [of y s] assms by simp
  then have "length x = length y" by (metis digits_value_decimal)
  with assms show ?thesis by (simp add: append_field_def)
qed

interpretation field_code: prefix_code "\<lambda>_. True" append_field
  by unfold_locales (rule field_unique_split)

lemma field_distinct [simp]:
  "append_field ''absent'' @ r \<noteq> append_field ''present'' @ s"
  "append_field ''present'' @ r \<noteq> append_field ''absent'' @ s"
  using field_unique_split [of "''absent''" r "''present''" s]
    field_unique_split [of "''present''" r "''absent''" s] by auto

lemma to_string_inject:
  "amount_ok a \<Longrightarrow> amount_ok b \<Longrightarrow> DecimalAmount_to_string a = DecimalAmount_to_string b \<Longrightarrow> a = b"
  by (metis DecimalAmount_from_to_string sum.inject(2))

definition option_ok :: "('a \<Rightarrow> bool) \<Rightarrow> 'a option \<Rightarrow> bool" where
  "option_ok P v = (case v of None \<Rightarrow> True | Some x \<Rightarrow> P x)"

lemma option_ok_simps [simp]: "option_ok P None" "option_ok P (Some x) = P x"
  by (simp_all add: option_ok_def)

interpretation amount_code: prefix_code "option_ok amount_ok" append_amount
proof
  fix x y r s
  assume "option_ok amount_ok x" "option_ok amount_ok y" "append_amount x @ r = append_amount y @ s"
  then show "x = y \<and> r = s"
    by (auto simp: append_amount_def split: option.splits
        dest!: field_unique_split intro: to_string_inject)
qed

definition rate_ok :: "PriceRate \<Rightarrow> bool" where
  "rate_ok r \<longleftrightarrow> option_ok amount_ok (usd r) \<and> option_ok amount_ok (diem r)"

interpretation rate_code: prefix_code "option_ok rate_ok" append_rate
proof
  fix x y r s
  assume A: "option_ok rate_ok x" "option_ok rate_ok y" "append_rate x @ r = append_rate y @ s"
  show "x = y \<and> r = s"
  proof (cases x)
    case None
    with A(3) show ?thesis by (auto simp: append_rate_def split: option.splits dest: field_unique_split)
  next
    case (Some p)
    with A(3) obtain q where y: "y = Some q" by (auto simp: append_rate_def split: option.splits)
    have ok: "option_ok amount_ok (usd p)" "option_ok amount_ok (usd q)"
      "option_ok amount_ok (diem p)" "option_ok amount_ok (diem q)"
      using A(1,2) Some y by (auto simp: rate_ok_def)
    from A(3) Some y have "append_amount (usd p) @ append_amount (diem p) @ r
        = append_amount (usd q) @ append_amount (diem q) @ s"
      by (auto simp: append_rate_def dest: field_unique_split)
    with ok show ?thesis using Some y
      by (auto dest!: amount_code.unique_split [rotated 2] intro: PriceRate.equality)
  qed
qed

definition tier_ok :: "TextPriceTier \<Rightarrow> bool" where
  "tier_ok t \<longleftrightarrow> option_ok rate_ok (tier_input t) \<and> option_ok rate_ok (tier_output t) \<and>
     option_ok rate_ok (tier_cache_input t) \<and> option_ok rate_ok (tier_cache_write t)"

interpretation tier_code: prefix_code tier_ok append_tier
proof
  fix x y r s
  assume "tier_ok x" "tier_ok y" "append_tier x @ r = append_tier y @ s"
  then show "x = y \<and> r = s"
    by (auto simp: append_tier_def tier_ok_def dest!: rate_code.unique_split [rotated 2]
        intro: TextPriceTier.equality)
qed

interpretation extended_code: prefix_code "option_ok tier_ok" append_extended
proof
  fix x y r s
  assume "option_ok tier_ok x" "option_ok tier_ok y" "append_extended x @ r = append_extended y @ s"
  then show "x = y \<and> r = s"
    by (auto simp: append_extended_def split: option.splits
        dest!: field_unique_split tier_code.unique_split [rotated 2])
qed

interpretation threshold_code: prefix_code "\<lambda>_. True" append_threshold
proof
  fix x y :: "u64 option" and r s
  assume "append_threshold x @ r = append_threshold y @ s"
  moreover have "decimal (unat m) = decimal (unat n) \<Longrightarrow> m = n" for m n :: u64
    by (metis digits_value_decimal word_unat_eq_iff)
  ultimately show "x = y \<and> r = s"
    by (auto simp: append_threshold_def split: option.splits dest!: field_unique_split)
qed

definition pricing_ok :: "TextPricing \<Rightarrow> bool" where
  "pricing_ok p \<longleftrightarrow> tier_ok (pricing_base p) \<and> option_ok tier_ok (pricing_extended p)"

text \<open>
  The text that is hashed determines the model and the whole rate card: no two different
  cards of canonical amounts share a canonical text, so a digest mismatch is always a change of
  model or card, and only a hash collision could hide one.
\<close>

theorem pricing_canonical_inject:
  assumes "pricing_ok p" and "pricing_ok q" and "pricing_canonical m p = pricing_canonical n q"
  shows "m = n \<and> p = q"
proof -
  from assms(3) have fields: "id_value m = id_value n"
    "append_tier (pricing_base p) @ append_threshold (extended_threshold_tokens p) @
       append_extended (pricing_extended p)
     = append_tier (pricing_base q) @ append_threshold (extended_threshold_tokens q) @
       append_extended (pricing_extended q)"
    by (auto simp: pricing_canonical_def dest!: field_unique_split)
  from fields(2) assms(1,2) have base: "pricing_base p = pricing_base q"
    and rest: "append_threshold (extended_threshold_tokens p) @ append_extended (pricing_extended p)
       = append_threshold (extended_threshold_tokens q) @ append_extended (pricing_extended q)"
    using tier_code.unique_split unfolding pricing_ok_def by blast+
  from rest have "extended_threshold_tokens p = extended_threshold_tokens q"
    "append_extended (pricing_extended p) = append_extended (pricing_extended q)"
    using threshold_code.unique_split by blast+
  moreover from this(2) assms(1,2) have "pricing_extended p = pricing_extended q"
    unfolding pricing_ok_def by (blast intro: extended_code.enc_inject)
  ultimately show ?thesis using fields(1) base
    by (cases m, cases n) (auto intro: TextPricing.equality)
qed

definition sample_pricing :: "u64 \<Rightarrow> TextPricing" where
  "sample_pricing rate =
     \<lparr>pricing_base = \<lparr>tier_input = Some \<lparr>usd = Some \<lparr>coefficient = rate, scale = 0\<rparr>, diem = None\<rparr>,
        tier_output = None, tier_cache_input = None, tier_cache_write = None\<rparr>,
      extended_threshold_tokens = None, pricing_extended = None\<rparr>"

theorem pricing_canonical_inject_witness:
  "pricing_canonical (Id ''m'') (sample_pricing 1) \<noteq> pricing_canonical (Id ''m'') (sample_pricing 2)"
  using pricing_canonical_inject [of "sample_pricing 1" "sample_pricing 2" "Id ''m''" "Id ''m''"]
  by (auto simp: pricing_ok_def tier_ok_def rate_ok_def sample_pricing_def amount_ok_def kMaximumScale_def)

end
