(* ===== verification/Persona.thy ===== *)
theory Persona
  imports Text Money
begin

text \<open>
  Persona references and selections: \<^verbatim>\<open>src/lib/persona.cpp\<close> and
  \<^verbatim>\<open>include/aiforge/domain/persona.hpp\<close>.
\<close>

record PersonaReference =
  persona_id :: PersonaId
  persona_name :: string
  source_location :: string
  content_digest :: ContentDigest

record PersonaDocument =
  pd_reference :: PersonaReference
  pd_text :: string

datatype PersonaSelectionSource =
    PersonaSource_command_line | PersonaSource_interactive | PersonaSource_resumed
  | PersonaSource_retained | PersonaSource_unknown

datatype PersonaSelectionAction =
  PersonaAction_selected | PersonaAction_disabled | PersonaAction_unknown

record PersonaSelection =
  ps_action :: PersonaSelectionAction
  ps_source :: PersonaSelectionSource
  ps_persona :: "PersonaReference option"
  ps_previous_persona :: "PersonaReference option"

datatype PersonaValidationErrorCode =
    Persona_invalid_identity | Persona_invalid_name | Persona_invalid_location
  | Persona_invalid_digest | Persona_invalid_selection | Persona_invalid_document

definition is_ascii_alnum :: "char \<Rightarrow> bool" where
  "is_ascii_alnum c \<longleftrightarrow> ascii_digit c \<or> ascii_alpha c"

definition name_char :: "char \<Rightarrow> bool" where
  "name_char c \<longleftrightarrow> is_ascii_alnum c \<or> c = CHR ''-'' \<or> c = CHR ''_''"

definition valid_name :: "string \<Rightarrow> bool" where
  "valid_name v =
     (if v = [] \<or> length v > 96 then False
      else if \<not> is_ascii_alnum (hd v) then False
      else list_all name_char (tl v))"

definition persona_valid_identity :: "string \<Rightarrow> bool" where
  "persona_valid_identity v =
     (if take 8 v \<noteq> ''persona:'' \<or> length v \<le> 8 \<or> length v > Id_max_size then False
      else list_all name_char (drop 8 v))"

definition validate_persona_reference :: "PersonaReference \<Rightarrow> PersonaValidationErrorCode + unit" where
  "validate_persona_reference r =
     fail_if (\<not> valid_name (persona_name r)) Persona_invalid_name
    (fail_if (\<not> persona_valid_identity (id_value (persona_id r))) Persona_invalid_identity
    (fail_if (source_location r \<noteq> ''personas/'' @ persona_name r @ ''.md'' \<and>
              source_location r \<noteq> ''personas/'' @ persona_name r @ ''.txt'') Persona_invalid_location
    (fail_if (dg_algorithm (content_digest r) \<noteq> ''sha256'' \<or> length (dg_value (content_digest r)) \<noteq> 64 \<or>
              dg_byte_size (content_digest r) = 0 \<or> dg_byte_size (content_digest r) > 1024 * 1024 \<or>
              \<not> list_all (\<lambda>c. ascii_digit c \<or> (byte CHR ''a'' \<le> byte c \<and> byte c \<le> byte CHR ''f''))
                  (dg_value (content_digest r))) Persona_invalid_digest
    (Inr ()))))"

definition validate_persona_selection :: "PersonaSelection \<Rightarrow> PersonaValidationErrorCode + unit" where
  "validate_persona_selection s =
     fail_if (ps_source s = PersonaSource_unknown \<or> ps_action s = PersonaAction_unknown \<or>
              (ps_action s = PersonaAction_selected) \<noteq> (ps_persona s \<noteq> None)) Persona_invalid_selection
    (bind_result (case ps_persona s of None \<Rightarrow> Inr () | Some r \<Rightarrow> validate_persona_reference r) (\<lambda>_.
     (case ps_previous_persona s of None \<Rightarrow> Inr () | Some r \<Rightarrow> validate_persona_reference r)))"

definition validate_persona_document :: "PersonaDocument \<Rightarrow> PersonaValidationErrorCode + unit" where
  "validate_persona_document d =
     bind_result (validate_persona_reference (pd_reference d)) (\<lambda>_.
     fail_if (dg_byte_size (content_digest (pd_reference d)) \<noteq> of_nat (length (pd_text d)) \<or>
              length (pd_text d) > 1024 * 1024 \<or> \<not> is_safe_utf8_text (pd_text d))
       Persona_invalid_document (Inr ()))"

text \<open>
  A validated reference points to a file directly below the persona directory: its location has
  one directory separator, the one of the prefix, and its name cannot be a dot file.
\<close>

lemma name_char_no_separator: "name_char c \<Longrightarrow> c \<noteq> CHR ''/'' \<and> c \<noteq> CHR ''.''"
  by (auto simp: name_char_def is_ascii_alnum_def ascii_digit_def ascii_alpha_def byte_def)

lemma valid_name_chars: "valid_name v \<Longrightarrow> \<forall>c \<in> set v. name_char c"
  by (cases v) (auto simp: valid_name_def list_all_iff name_char_def split: if_splits)

lemma validated_persona_location:
  assumes "validate_persona_reference r = Inr ()"
  shows "\<exists>file. source_location r = ''personas/'' @ file \<and> CHR ''/'' \<notin> set file \<and>
    hd file \<noteq> CHR ''.''"
proof -
  have name: "valid_name (persona_name r)"
    and loc: "source_location r = ''personas/'' @ persona_name r @ ''.md'' \<or>
              source_location r = ''personas/'' @ persona_name r @ ''.txt''"
    using assms by (auto simp: validate_persona_reference_def)
  have ne: "persona_name r \<noteq> []" using name by (auto simp: valid_name_def)
  have "CHR ''/'' \<notin> set (persona_name r)" "hd (persona_name r) \<noteq> CHR ''.''"
    using valid_name_chars [OF name] name_char_no_separator hd_in_set [OF ne] by blast+
  with loc ne show ?thesis by (auto simp: hd_append)
qed

end
