(* ===== verification/OpsTarget.thy ===== *)
theory OpsTarget
  imports Money
begin

text \<open>
  Observation targets and the authority to observe them: \<^verbatim>\<open>src/lib/ops_target.cpp\<close> and
  \<^verbatim>\<open>include/aiforge/domain/ops_target.hpp\<close>.  An authority is an immutable grant; every request
  is checked against it, field by field, before anything is collected.
\<close>

section \<open>Data\<close>

datatype OpsTargetKind = Kind_linux_local | Kind_kubernetes | Kind_ceph

datatype LinuxExecutionScope = Scope_host | Scope_container | Scope_unknown

record LinuxOpsIdentity =
  lin_scope :: LinuxExecutionScope
  boot_id :: string
  pid_namespace :: u64
  mount_namespace :: u64

record OpsHttpsEndpoint =
  ep_host :: string
  ep_port :: u16

record KubernetesOpsIdentity =
  context_name :: string
  kube_namespace_name :: string
  endpoint :: OpsHttpsEndpoint
  trust_identity :: string

record CephOpsIdentity =
  cluster_identity :: string

datatype OpsTargetIdentity =
    LinuxIdentity LinuxOpsIdentity
  | KubernetesIdentity KubernetesOpsIdentity
  | CephIdentity CephOpsIdentity

record OpsTargetBinding =
  target_id :: OpsTargetId
  configuration_revision :: OpsConfigurationRevision
  target_identity :: OpsTargetIdentity

record OpsTarget =
  ot_binding :: OpsTargetBinding
  display_name :: string

datatype OpsObservationOperation =
    linux_health | linux_services | linux_service_health | linux_service_logs
  | kubernetes_workloads | kubernetes_pod_health | kubernetes_events | kubernetes_pod_logs

record LinuxServiceIdentity =
  unit_name :: string
  service_invocation_id :: "OpsResourceUid option"

record KubernetesContainerIdentity =
  container_name :: string
  runtime_identity :: string

record KubernetesPodIdentity =
  pod_namespace_name :: string
  pod_name :: string
  pod_uid :: OpsResourceUid
  pod_container :: "KubernetesContainerIdentity option"

datatype OpsResourceIdentity =
    NoResource
  | LinuxService LinuxServiceIdentity
  | KubernetesPod KubernetesPodIdentity

record OpsObservationLimits =
  maximum_entries :: nat
  maximum_bytes :: u64
  timeout_ms :: int
  maximum_log_lines :: nat
  maximum_log_bytes :: u64
  maximum_log_age_s :: int

text \<open>The defaults of the struct are the hard bounds of the implementation.\<close>

definition hard_limits :: OpsObservationLimits where
  "hard_limits =
     \<lparr>maximum_entries = 256, maximum_bytes = 1024 * 1024, timeout_ms = 5000,
      maximum_log_lines = 200, maximum_log_bytes = 32 * 1024, maximum_log_age_s = 600\<rparr>"

record OpsLogPolicy =
  log_revision :: u64
  log_enabled :: bool
  permitted_sources :: "OpsResourceIdentity list"

record OpsObservationAuthoritySpec =
  spec_owner_id :: OpsOwnerId
  spec_session_id :: SessionId
  spec_target :: OpsTargetBinding
  spec_selection_generation :: u64
  spec_operations :: "OpsObservationOperation list"
  spec_logs :: OpsLogPolicy
  spec_limits :: OpsObservationLimits

record OpsObservationRequest =
  req_owner_id :: OpsOwnerId
  req_session_id :: SessionId
  req_request_id :: OpsRequestId
  req_target :: OpsTargetBinding
  req_selection_generation :: u64
  req_operation :: OpsObservationOperation
  req_resource :: OpsResourceIdentity
  req_log_policy_revision :: u64
  req_limits :: OpsObservationLimits

datatype OpsTargetErrorCode =
    Ops_invalid_target | Ops_invalid_authority | Ops_invalid_request | Ops_invalid_text
  | Ops_unavailable | Ops_foreign_owner | Ops_foreign_session | Ops_target_mismatch
  | Ops_stale_selection | Ops_stale_log_policy | Ops_operation_denied | Ops_logs_disabled
  | Ops_resource_mismatch | Ops_resource_exhausted | Ops_internal_failure

record OpsObservationAuthority =
  auth_specification :: OpsObservationAuthoritySpec

section \<open>Text shapes\<close>

definition ops_text :: "string \<Rightarrow> nat \<Rightarrow> bool" where
  "ops_text v maximum \<longleftrightarrow> v \<noteq> [] \<and> length v \<le> maximum \<and> is_safe_utf8_text v \<and>
     \<not> list_ex (\<lambda>c. byte c < 32 \<or> byte c = 127) v"

definition ops_identifier :: "'tag Id \<Rightarrow> bool" where
  "ops_identifier i \<longleftrightarrow> ops_text (id_value i) 128"

definition ops_sequence :: "u64 \<Rightarrow> bool" where
  "ops_sequence v \<longleftrightarrow> v \<noteq> 0 \<and> v \<le> 9223372036854775807"

definition lower_alnum :: "char \<Rightarrow> bool" where
  "lower_alnum c \<longleftrightarrow> (byte CHR ''a'' \<le> byte c \<and> byte c \<le> byte CHR ''z'') \<or> ascii_digit c"

definition lower_hex :: "char \<Rightarrow> bool" where
  "lower_hex c \<longleftrightarrow> ascii_digit c \<or> (byte CHR ''a'' \<le> byte c \<and> byte c \<le> byte CHR ''f'')"

definition label :: "string \<Rightarrow> nat \<Rightarrow> bool" where
  "label v maximum \<longleftrightarrow> v \<noteq> [] \<and> length v \<le> maximum \<and> lower_alnum (hd v) \<and> lower_alnum (last v) \<and>
     list_all (\<lambda>c. lower_alnum c \<or> c = CHR ''-'') v"

text \<open>
  The loops that cut a view at its first separator: \<open>upto\<close> is \<^verbatim>\<open>substr(0, find(sep))\<close> and
  \<open>after\<close> what remains after \<^verbatim>\<open>remove_prefix\<close>, if there was a separator.
\<close>

definition upto_sep :: "char \<Rightarrow> string \<Rightarrow> string" where
  "upto_sep sep v = takeWhile (\<lambda>c. c \<noteq> sep) v"

definition after_sep :: "char \<Rightarrow> string \<Rightarrow> string option" where
  "after_sep sep v = (case dropWhile (\<lambda>c. c \<noteq> sep) v of [] \<Rightarrow> None | _ # rest \<Rightarrow> Some rest)"

lemma after_sep_less [termination_simp]: "after_sep sep v = Some rest \<Longrightarrow> length rest < length v"
proof -
  assume "after_sep sep v = Some rest"
  then obtain c where "dropWhile (\<lambda>c. c \<noteq> sep) v = c # rest"
    by (auto simp: after_sep_def split: list.splits)
  then show ?thesis using length_dropWhile_le [of "\<lambda>c. c \<noteq> sep" v] by simp
qed

fun dns_labels :: "string \<Rightarrow> bool" where
  "dns_labels v =
     (if \<not> label (upto_sep CHR ''.'' v) 63 then False
      else case after_sep CHR ''.'' v of None \<Rightarrow> True | Some rest \<Rightarrow> dns_labels rest)"

declare dns_labels.simps [simp del]

definition dns :: "string \<Rightarrow> bool" where
  "dns v = (if v = [] \<or> length v > 253 then False else dns_labels v)"

fun ipv4_from :: "nat \<Rightarrow> string \<Rightarrow> bool" where
  "ipv4_from groups v =
     (let component = upto_sep CHR ''.'' v in
      if component = [] \<or> length component > 3 \<or> (length component > 1 \<and> hd component = CHR ''0'')
      then False
      else if \<not> all_digits component then False
      else if digits_value component > 255 \<or> groups + 1 > 4 then False
      else case after_sep CHR ''.'' v of
             None \<Rightarrow> groups + 1 = 4
           | Some rest \<Rightarrow> ipv4_from (groups + 1) rest)"

declare ipv4_from.simps [simp del]

definition ipv4 :: "string \<Rightarrow> bool" where
  "ipv4 v = ipv4_from 0 v"

fun ipv6_groups_from :: "nat \<Rightarrow> bool \<Rightarrow> string \<Rightarrow> nat option" where
  "ipv6_groups_from groups allow_ipv4 v =
     (let component = upto_sep CHR '':'' v in
      if CHR ''.'' \<in> set component then
        (if \<not> allow_ipv4 \<or> after_sep CHR '':'' v \<noteq> None \<or> \<not> ipv4 component then None
         else Some (groups + 2))
      else if component = [] \<or> length component > 4 \<or> \<not> list_all lower_hex component then None
      else if groups + 1 > 8 then None
      else case after_sep CHR '':'' v of
             None \<Rightarrow> Some (groups + 1)
           | Some rest \<Rightarrow> ipv6_groups_from (groups + 1) allow_ipv4 rest)"

declare ipv6_groups_from.simps [simp del]

definition ipv6_groups :: "string \<Rightarrow> bool \<Rightarrow> nat option" where
  "ipv6_groups v allow_ipv4 = (if v = [] then Some 0 else ipv6_groups_from 0 allow_ipv4 v)"

text \<open>\<^verbatim>\<open>value.find("::")\<close>: what precedes and what follows the first pair of colons.\<close>

fun split_compression :: "string \<Rightarrow> (string \<times> string) option" where
  "split_compression (c # d # rest) =
     (if c = CHR '':'' \<and> d = CHR '':'' then Some ([], rest)
      else map_option (\<lambda>(before, after). (c # before, after)) (split_compression (d # rest)))"
| "split_compression _ = None"

definition host :: "string \<Rightarrow> bool" where
  "host v =
     (if v = [] \<or> length v > 253 then False
      else if CHR '':'' \<notin> set v then
        (if list_all (\<lambda>c. ascii_digit c \<or> c = CHR ''.'') v then ipv4 v else dns v)
      else case split_compression v of
          None \<Rightarrow> ipv6_groups v True = Some 8
        | Some (before, after) \<Rightarrow>
            if split_compression after \<noteq> None then False
            else (case (ipv6_groups before False, ipv6_groups after True) of
                (Some b, Some a) \<Rightarrow> b + a < 8
              | _ \<Rightarrow> False))"

definition uuid :: "string \<Rightarrow> bool" where
  "uuid v \<longleftrightarrow> length v = 36 \<and>
     list_all (\<lambda>i. if i \<in> {8, 13, 18, 23} then v ! i = CHR ''-'' else lower_hex (v ! i)) [0..<length v]"

section \<open>Targets\<close>

definition linux_identity :: "LinuxOpsIdentity \<Rightarrow> bool" where
  "linux_identity v \<longleftrightarrow> uuid (boot_id v) \<and> pid_namespace v \<noteq> 0 \<and> mount_namespace v \<noteq> 0"

definition kubernetes_identity :: "KubernetesOpsIdentity \<Rightarrow> bool" where
  "kubernetes_identity v \<longleftrightarrow> ops_text (context_name v) 256 \<and> label (kube_namespace_name v) 63 \<and>
     host (ep_host (endpoint v)) \<and> ep_port (endpoint v) \<noteq> 0 \<and> ops_text (trust_identity v) 256"

definition ops_target :: "OpsTargetBinding \<Rightarrow> OpsTargetErrorCode + unit" where
  "ops_target v =
     fail_if (\<not> ops_identifier (target_id v) \<or> \<not> ops_identifier (configuration_revision v))
       Ops_invalid_target
     (case target_identity v of
        LinuxIdentity linux \<Rightarrow> if linux_identity linux then Inr () else Inl Ops_invalid_target
      | KubernetesIdentity kube \<Rightarrow> if kubernetes_identity kube then Inr () else Inl Ops_invalid_target
      | CephIdentity ceph \<Rightarrow>
          if ops_text (cluster_identity ceph) 128 then Inr () else Inl Ops_invalid_target)"

definition logs_operation :: "OpsObservationOperation \<Rightarrow> bool" where
  "logs_operation v \<longleftrightarrow> v = linux_service_logs \<or> v = kubernetes_pod_logs"

text \<open>\<^verbatim>\<open>operation <= OpsObservationOperation::linux_service_logs\<close> on the enumerators.\<close>

fun local_operation :: "OpsObservationOperation \<Rightarrow> bool" where
  "local_operation linux_health = True"
| "local_operation linux_services = True"
| "local_operation linux_service_health = True"
| "local_operation linux_service_logs = True"
| "local_operation _ = False"

definition matches_kind :: "OpsObservationOperation \<Rightarrow> OpsTargetKind \<Rightarrow> bool" where
  "matches_kind operation kind =
     (if kind = Kind_ceph then False
      else (kind = Kind_linux_local) = local_operation operation)"

definition service_name :: "string \<Rightarrow> bool" where
  "service_name v =
     (if length v \<le> 8 \<or> length v > 255 \<or> drop (length v - 8) v \<noteq> ''.service'' \<or> hd v = CHR ''-''
      then False
      else list_all (\<lambda>c. lower_alnum c \<or> (byte CHR ''A'' \<le> byte c \<and> byte c \<le> byte CHR ''Z'') \<or>
             c = CHR ''_'' \<or> c = CHR ''-'' \<or> c = CHR ''.'' \<or> c = CHR ''@'' \<or> c = CHR '':'') v)"

definition service_resource :: "LinuxServiceIdentity \<Rightarrow> bool \<Rightarrow> bool" where
  "service_resource v logs \<longleftrightarrow> service_name (unit_name v) \<and>
     (\<not> logs \<or> service_invocation_id v \<noteq> None) \<and>
     (case service_invocation_id v of None \<Rightarrow> True | Some i \<Rightarrow> ops_identifier i)"

definition pod_resource :: "KubernetesPodIdentity \<Rightarrow> KubernetesOpsIdentity \<Rightarrow> bool \<Rightarrow> bool" where
  "pod_resource v binding logs =
     (if pod_namespace_name v \<noteq> kube_namespace_name binding \<or> \<not> dns (pod_name v) \<or>
         \<not> ops_identifier (pod_uid v) then False
      else case pod_container v of
          None \<Rightarrow> \<not> logs
        | Some c \<Rightarrow> label (container_name c) 63 \<and> ops_text (runtime_identity c) 512)"

definition resource_matches :: "OpsResourceIdentity \<Rightarrow> OpsTargetBinding \<Rightarrow> bool \<Rightarrow> bool" where
  "resource_matches resource binding logs =
     (case target_identity binding of
        LinuxIdentity _ \<Rightarrow> (case resource of LinuxService v \<Rightarrow> service_resource v logs | _ \<Rightarrow> False)
      | KubernetesIdentity kube \<Rightarrow>
          (case resource of KubernetesPod v \<Rightarrow> pod_resource v kube logs | _ \<Rightarrow> False)
      | CephIdentity _ \<Rightarrow> False)"

definition operation_resource :: "OpsObservationRequest \<Rightarrow> bool" where
  "operation_resource request =
     (let empty = (req_resource request = NoResource) in
      case req_operation request of
        linux_health \<Rightarrow> empty
      | linux_services \<Rightarrow> empty
      | kubernetes_workloads \<Rightarrow> empty
      | kubernetes_events \<Rightarrow> empty \<or> resource_matches (req_resource request) (req_target request) False
      | operation \<Rightarrow> resource_matches (req_resource request) (req_target request)
                       (logs_operation operation))"

definition limits_within :: "OpsObservationLimits \<Rightarrow> OpsObservationLimits \<Rightarrow> bool" where
  "limits_within v bound \<longleftrightarrow>
     maximum_entries v \<noteq> 0 \<and> maximum_entries v \<le> maximum_entries bound \<and>
     maximum_bytes v \<noteq> 0 \<and> maximum_bytes v \<le> maximum_bytes bound \<and>
     timeout_ms v > 0 \<and> timeout_ms v \<le> timeout_ms bound \<and>
     maximum_log_lines v \<noteq> 0 \<and> maximum_log_lines v \<le> maximum_log_lines bound \<and>
     maximum_log_bytes v \<noteq> 0 \<and> maximum_log_bytes v \<le> maximum_log_bytes bound \<and>
     maximum_log_age_s v > 0 \<and> maximum_log_age_s v \<le> maximum_log_age_s bound"

section \<open>Authorities and requests\<close>

text \<open>
  The loops that compare an element with the ones before it: all elements pass the check and no
  element repeats an earlier one.
\<close>

fun distinct_and :: "('a \<Rightarrow> bool) \<Rightarrow> 'a list \<Rightarrow> 'a list \<Rightarrow> bool" where
  "distinct_and P earlier [] = True"
| "distinct_and P earlier (x # xs) =
     (if \<not> P x \<or> x \<in> set earlier then False else distinct_and P (earlier @ [x]) xs)"

definition log_policy :: "OpsObservationAuthoritySpec \<Rightarrow> OpsTargetErrorCode + unit" where
  "log_policy spec =
     (let logs = spec_logs spec in
      fail_if (\<not> ops_sequence (log_revision logs) \<or> length (permitted_sources logs) > 32 \<or>
               (log_enabled logs \<and> permitted_sources logs = [])) Ops_invalid_authority
     (fail_if (\<not> distinct_and (\<lambda>r. resource_matches r (spec_target spec) True) []
                 (permitted_sources logs)) Ops_invalid_authority
     (Inr ())))"

definition ops_target_kind :: "OpsTargetBinding \<Rightarrow> OpsTargetKind option" where
  "ops_target_kind binding =
     (case target_identity binding of
        LinuxIdentity _ \<Rightarrow> Some Kind_linux_local
      | KubernetesIdentity _ \<Rightarrow> Some Kind_kubernetes
      | CephIdentity _ \<Rightarrow> Some Kind_ceph)"

definition authority :: "OpsObservationAuthoritySpec \<Rightarrow> OpsTargetErrorCode + unit" where
  "authority spec =
     bind_result (ops_target (spec_target spec)) (\<lambda>_.
     case ops_target_kind (spec_target spec) of
       None \<Rightarrow> Inl Ops_unavailable
     | Some kind \<Rightarrow>
         fail_if (kind = Kind_ceph) Ops_unavailable
        (fail_if (\<not> ops_identifier (spec_owner_id spec) \<or> \<not> ops_identifier (spec_session_id spec) \<or>
                  \<not> ops_sequence (spec_selection_generation spec) \<or> spec_operations spec = [] \<or>
                  length (spec_operations spec) > 8) Ops_invalid_authority
        (fail_if (\<not> distinct_and (\<lambda>op. matches_kind op kind) [] (spec_operations spec))
           Ops_invalid_authority
        (fail_if (\<not> limits_within (spec_limits spec) hard_limits) Ops_resource_exhausted
        (log_policy spec)))))"

definition request_binding ::
  "OpsObservationAuthoritySpec \<Rightarrow> OpsObservationRequest \<Rightarrow> OpsTargetErrorCode + unit" where
  "request_binding spec request =
     fail_if (\<not> ops_identifier (req_owner_id request) \<or> \<not> ops_identifier (req_session_id request) \<or>
              \<not> ops_identifier (req_request_id request)) Ops_invalid_request
    (fail_if (req_owner_id request \<noteq> spec_owner_id spec) Ops_foreign_owner
    (fail_if (req_session_id request \<noteq> spec_session_id spec) Ops_foreign_session
    (bind_result (ops_target (req_target request)) (\<lambda>_.
     fail_if (req_target request \<noteq> spec_target spec) Ops_target_mismatch
    (fail_if (\<not> ops_sequence (req_selection_generation request) \<or>
              req_selection_generation request \<noteq> spec_selection_generation spec) Ops_stale_selection
    (fail_if (\<not> ops_sequence (req_log_policy_revision request) \<or>
              req_log_policy_revision request \<noteq> log_revision (spec_logs spec)) Ops_stale_log_policy
    (Inr ())))))))"

definition OpsObservationAuthority_create ::
  "OpsObservationAuthoritySpec \<Rightarrow> OpsTargetErrorCode + OpsObservationAuthority" where
  "OpsObservationAuthority_create spec =
     bind_result (authority spec) (\<lambda>_. Inr \<lparr>auth_specification = spec\<rparr>)"

definition OpsObservationAuthority_validate ::
  "OpsObservationAuthority \<Rightarrow> OpsObservationRequest \<Rightarrow> OpsTargetErrorCode + unit" where
  "OpsObservationAuthority_validate auth request =
     (let spec = auth_specification auth in
      bind_result (request_binding spec request) (\<lambda>_.
      fail_if (req_operation request \<notin> set (spec_operations spec)) Ops_operation_denied
     (fail_if (\<not> limits_within (req_limits request) (spec_limits spec)) Ops_resource_exhausted
     (fail_if (logs_operation (req_operation request) \<and> \<not> log_enabled (spec_logs spec)) Ops_logs_disabled
     (fail_if (\<not> operation_resource request) Ops_resource_mismatch
     (fail_if (logs_operation (req_operation request) \<and>
               req_resource request \<notin> set (permitted_sources (spec_logs spec))) Ops_operation_denied
     (Inr ())))))))"

definition validate_ops_target_binding :: "OpsTargetBinding \<Rightarrow> OpsTargetErrorCode + unit" where
  "validate_ops_target_binding v = ops_target v"

definition validate_kubernetes_ops_identity ::
  "KubernetesOpsIdentity \<Rightarrow> OpsTargetErrorCode + unit" where
  "validate_kubernetes_ops_identity v =
     (if kubernetes_identity v then Inr () else Inl Ops_invalid_target)"

definition validate_ops_target :: "OpsTarget \<Rightarrow> OpsTargetErrorCode + unit" where
  "validate_ops_target v =
     fail_if (\<not> ops_text (display_name v) 256) Ops_invalid_text (ops_target (ot_binding v))"

definition validate_ops_resource_identity ::
  "OpsTargetBinding \<Rightarrow> OpsResourceIdentity \<Rightarrow> bool \<Rightarrow> OpsTargetErrorCode + unit" where
  "validate_ops_resource_identity binding resource require_log_identity =
     bind_result (ops_target binding) (\<lambda>_.
     fail_if (\<not> resource_matches resource binding require_log_identity) Ops_resource_mismatch (Inr ()))"

definition validate_ops_observation_limits :: "OpsObservationLimits \<Rightarrow> OpsTargetErrorCode + unit" where
  "validate_ops_observation_limits limits =
     fail_if (\<not> limits_within limits hard_limits) Ops_resource_exhausted (Inr ())"

definition validate_recorded_ops_request :: "OpsObservationRequest \<Rightarrow> OpsTargetErrorCode + unit" where
  "validate_recorded_ops_request request =
     fail_if (\<not> ops_identifier (req_owner_id request) \<or> \<not> ops_identifier (req_session_id request) \<or>
              \<not> ops_identifier (req_request_id request) \<or>
              \<not> ops_sequence (req_selection_generation request) \<or>
              \<not> ops_sequence (req_log_policy_revision request)) Ops_invalid_request
    (bind_result (ops_target (req_target request)) (\<lambda>_.
     case ops_target_kind (req_target request) of
       None \<Rightarrow> Inl Ops_invalid_request
     | Some kind \<Rightarrow>
         fail_if (\<not> matches_kind (req_operation request) kind) Ops_invalid_request
        (fail_if (\<not> limits_within (req_limits request) hard_limits) Ops_resource_exhausted
        (fail_if (\<not> operation_resource request) Ops_resource_mismatch
        (Inr ())))))"

section \<open>Requests stay within their grant\<close>

lemma distinct_and_iff:
  "distinct_and P earlier xs \<longleftrightarrow> (\<forall>x \<in> set xs. P x) \<and> distinct xs \<and> set xs \<inter> set earlier = {}"
  by (induction xs arbitrary: earlier) auto

lemma limits_within_trans: "limits_within a b \<Longrightarrow> limits_within b c \<Longrightarrow> limits_within a c"
  by (auto simp: limits_within_def)

lemma authority_operations:
  assumes "authority spec = Inr ()" and "op \<in> set (spec_operations spec)"
  shows "\<exists>kind. ops_target_kind (spec_target spec) = Some kind \<and> matches_kind op kind"
  using assms by (auto simp: authority_def distinct_and_iff split: option.splits)

lemma authority_limits: "authority spec = Inr () \<Longrightarrow> limits_within (spec_limits spec) hard_limits"
  by (auto simp: authority_def split: option.splits)

lemma authority_sources:
  "authority spec = Inr () \<Longrightarrow> r \<in> set (permitted_sources (spec_logs spec))
    \<Longrightarrow> resource_matches r (spec_target spec) True"
  by (auto simp: authority_def log_policy_def Let_def distinct_and_iff split: option.splits)

text \<open>
  C6: a request that an authority accepts asks for nothing beyond the grant: it belongs to the
  owner, session, target and selection the grant names, its operation is one of those granted, its
  limits are below the grant's and hence below the hard limits, and a log operation reads a source
  that the enabled log consent lists by its exact identity.
\<close>

theorem authorised_request_within_grant:
  assumes "OpsObservationAuthority_create spec = Inr auth"
    and "OpsObservationAuthority_validate auth request = Inr ()"
  shows "req_owner_id request = spec_owner_id spec \<and> req_session_id request = spec_session_id spec \<and>
    req_target request = spec_target spec \<and>
    req_selection_generation request = spec_selection_generation spec \<and>
    req_operation request \<in> set (spec_operations spec) \<and>
    limits_within (req_limits request) (spec_limits spec) \<and>
    limits_within (req_limits request) hard_limits \<and>
    (logs_operation (req_operation request) \<longrightarrow>
      log_enabled (spec_logs spec) \<and> req_resource request \<in> set (permitted_sources (spec_logs spec)) \<and>
      resource_matches (req_resource request) (req_target request) True)"
proof -
  have auth: "authority spec = Inr ()" and spec: "auth_specification auth = spec"
    using assms(1) by (auto simp: OpsObservationAuthority_create_def)
  note v = assms(2) [unfolded OpsObservationAuthority_validate_def Let_def spec]
  have "limits_within (req_limits request) (spec_limits spec)" using v by simp
  then have "limits_within (req_limits request) hard_limits"
    using authority_limits [OF auth] by (rule limits_within_trans)
  moreover have "req_target request = spec_target spec" using v by (simp add: request_binding_def)
  ultimately show ?thesis using v authority_sources [OF auth] by (auto simp: request_binding_def)
qed

text \<open>
  Every request that some authority accepts can be recorded: the structural check on recorded
  requests accepts it, so an authorised observation can always be replayed.
\<close>

theorem authorised_request_recordable:
  assumes "OpsObservationAuthority_create spec = Inr auth"
    and "OpsObservationAuthority_validate auth request = Inr ()"
  shows "validate_recorded_ops_request request = Inr ()"
proof -
  have auth: "authority spec = Inr ()" and spec: "auth_specification auth = spec"
    using assms(1) by (auto simp: OpsObservationAuthority_create_def)
  note v = assms(2) [unfolded OpsObservationAuthority_validate_def Let_def spec]
  have target: "req_target request = spec_target spec" "ops_target (req_target request) = Inr ()"
    using v by (auto simp: request_binding_def)
  have "req_operation request \<in> set (spec_operations spec)" using v by simp
  then obtain kind where "ops_target_kind (spec_target spec) = Some kind"
    "matches_kind (req_operation request) kind" using authority_operations [OF auth] by blast
  moreover have "limits_within (req_limits request) hard_limits"
    using v authority_limits [OF auth] by (auto intro: limits_within_trans)
  moreover have "operation_resource request" using v by simp
  ultimately show ?thesis using v target
    by (auto simp: validate_recorded_ops_request_def request_binding_def)
qed

section \<open>Numeric addresses\<close>

lemma sep_split:
  shows "after_sep sep v = None \<Longrightarrow> v = upto_sep sep v"
    and "after_sep sep v = Some rest \<Longrightarrow> v = upto_sep sep v @ sep # rest"
proof -
  show "after_sep sep v = None \<Longrightarrow> v = upto_sep sep v"
    by (simp add: after_sep_def upto_sep_def takeWhile_eq_all_conv [THEN iffD2] split: list.splits)
  show "after_sep sep v = Some rest \<Longrightarrow> v = upto_sep sep v @ sep # rest"
  proof -
    assume "after_sep sep v = Some rest"
    then obtain c where d: "dropWhile (\<lambda>c. c \<noteq> sep) v = c # rest"
      by (auto simp: after_sep_def split: list.splits)
    then have "c = sep" using hd_dropWhile [of "\<lambda>c. c \<noteq> sep" v] by force
    with d show ?thesis
      using takeWhile_dropWhile_id [of "\<lambda>c. c \<noteq> sep" v] by (simp add: upto_sep_def)
  qed
qed

lemma sep_join:
  assumes "sep \<notin> set x"
  shows "upto_sep sep x = x" and "after_sep sep x = None"
    and "upto_sep sep (x @ sep # rest) = x" and "after_sep sep (x @ sep # rest) = Some rest"
proof -
  have "\<forall>c \<in> set x. c \<noteq> sep" using assms by auto
  then show "upto_sep sep x = x" and "after_sep sep x = None"
    and "upto_sep sep (x @ sep # rest) = x" and "after_sep sep (x @ sep # rest) = Some rest"
    by (simp_all add: upto_sep_def after_sep_def takeWhile_eq_all_conv [THEN iffD2]
        dropWhile_eq_Nil_conv [THEN iffD2])
qed

lemma dot_notin_decimal: "CHR ''.'' \<notin> set (decimal n)"
  using all_digits_decimal [of n] by (auto simp: list_all_iff ascii_digit_def byte_def)

fun dotted :: "nat list \<Rightarrow> string" where
  "dotted [] = []"
| "dotted [n] = decimal n"
| "dotted (n # m # ns) = decimal n @ CHR ''.'' # dotted (m # ns)"

definition octet :: "string \<Rightarrow> bool" where
  "octet s \<longleftrightarrow> \<not> (s = [] \<or> length s > 3 \<or> (length s > 1 \<and> hd s = CHR ''0'')) \<and> all_digits s \<and>
     digits_value s \<le> 255"

lemma octet_decimal: "octet (decimal n) \<longleftrightarrow> n \<le> 255"
proof
  assume n: "n \<le> 255"
  then have "length (decimal n) \<le> 3" by (intro length_decimal_le) auto
  moreover have "hd (decimal n) \<noteq> CHR ''0''" if "1 < length (decimal n)"
    using that hd_decimal_nonzero [of n] by (cases "n = 0") (auto simp: decimal.simps)
  ultimately show "octet (decimal n)" using n by (auto simp: octet_def)
qed (simp add: octet_def)

lemma octet_canonical: "octet s \<Longrightarrow> s = decimal (digits_value s)"
  by (rule canonical_digits) (auto simp: octet_def)

lemma ipv4_from_unfold:
  "ipv4_from k v \<longleftrightarrow> octet (upto_sep CHR ''.'' v) \<and> k < 4 \<and>
    (case after_sep CHR ''.'' v of None \<Rightarrow> k = 3 | Some rest \<Rightarrow> ipv4_from (k + 1) rest)"
  by (subst ipv4_from.simps) (auto simp: octet_def Let_def split: option.splits)

lemma ipv4_from_sound:
  "ipv4_from k v \<Longrightarrow> \<exists>ns. length ns = 4 - k \<and> (\<forall>n \<in> set ns. n \<le> 255) \<and> v = dotted ns"
proof (induction k v rule: ipv4_from.induct)
  case (1 k v)
  let ?n = "digits_value (upto_sep CHR ''.'' v)"
  from "1.prems" have oct: "octet (upto_sep CHR ''.'' v)" and k: "k < 4"
    by (auto simp: ipv4_from_unfold [of k v])
  note up = octet_canonical [OF oct]
  show ?case
  proof (cases "after_sep CHR ''.'' v")
    case None
    then have "k = 3" "v = dotted [?n]"
      using "1.prems" sep_split(1) [of "CHR ''.''" v] up by (auto simp: ipv4_from_unfold [of k v])
    moreover have "?n \<le> 255" using oct by (simp add: octet_def)
    ultimately show ?thesis by (intro exI [of _ "[?n]"]) simp
  next
    case (Some rest)
    with "1.prems" have rest: "ipv4_from (k + 1) rest" by (simp add: ipv4_from_unfold [of k v])
    then have "k + 1 < 4" by (simp only: ipv4_from_unfold [of "k + 1"])
    have "\<exists>ns. length ns = 4 - (k + 1) \<and> (\<forall>n \<in> set ns. n \<le> 255) \<and> rest = dotted ns"
      using oct k Some rest by (intro "1.IH" [OF refl]) (auto simp: octet_def)
    then obtain ns where ns: "length ns = 4 - (k + 1)" "\<forall>n \<in> set ns. n \<le> 255" "rest = dotted ns"
      by blast
    with \<open>k + 1 < 4\<close> obtain m ms where "ns = m # ms" by (cases ns) auto
    moreover have "?n \<le> 255" using oct by (simp add: octet_def)
    ultimately show ?thesis
      using ns k up sep_split(2) [OF Some] by (intro exI [of _ "?n # ns"]) auto
  qed
qed

lemma ipv4_from_complete:
  "length ns + k = 4 \<Longrightarrow> ns \<noteq> [] \<Longrightarrow> \<forall>n \<in> set ns. n \<le> 255 \<Longrightarrow> ipv4_from k (dotted ns)"
proof (induction ns arbitrary: k rule: dotted.induct)
  case (2 n)
  then have "k = 3" "n \<le> 255" by auto
  then show ?case
    by (simp add: ipv4_from_unfold [of 3] sep_join [OF dot_notin_decimal] octet_decimal)
next
  case (3 n m ns)
  then show ?case
    by (simp add: ipv4_from_unfold [of k] sep_join [OF dot_notin_decimal] octet_decimal)
qed simp

text \<open>
  The address check accepts exactly the canonical dotted quads, four decimal numbers of at
  most 255 without leading zeros; no other spelling of an address passes it.
\<close>

theorem ipv4_iff:
  "ipv4 v \<longleftrightarrow> (\<exists>a b c d. a \<le> 255 \<and> b \<le> 255 \<and> c \<le> 255 \<and> d \<le> 255 \<and>
    v = decimal a @ ''.'' @ decimal b @ ''.'' @ decimal c @ ''.'' @ decimal d)"
proof
  assume "ipv4 v"
  then obtain ns where ns: "length ns = 4" "\<forall>n \<in> set ns. n \<le> 255" "v = dotted ns"
    using ipv4_from_sound [of 0 v] by (auto simp: ipv4_def)
  then obtain a b c d where "ns = [a, b, c, d]"
    by (auto simp: numeral_eq_Suc length_Suc_conv)
  with ns show "\<exists>a b c d. a \<le> 255 \<and> b \<le> 255 \<and> c \<le> 255 \<and> d \<le> 255 \<and>
      v = decimal a @ ''.'' @ decimal b @ ''.'' @ decimal c @ ''.'' @ decimal d"
    by (intro exI [of _ a] exI [of _ b] exI [of _ c] exI [of _ d]) simp
next
  assume "\<exists>a b c d. a \<le> 255 \<and> b \<le> 255 \<and> c \<le> 255 \<and> d \<le> 255 \<and>
      v = decimal a @ ''.'' @ decimal b @ ''.'' @ decimal c @ ''.'' @ decimal d"
  then obtain a b c d where "a \<le> 255" "b \<le> 255" "c \<le> 255" "d \<le> 255" "v = dotted [a, b, c, d]"
    by auto
  then show "ipv4 v" using ipv4_from_complete [of "[a, b, c, d]" 0] by (simp add: ipv4_def)
qed

section \<open>A concrete grant\<close>

definition sample_binding :: OpsTargetBinding where
  "sample_binding =
     \<lparr>target_id = Id ''t'', configuration_revision = Id ''r'',
      target_identity = LinuxIdentity \<lparr>lin_scope = Scope_host,
        boot_id = ''00000000-0000-0000-0000-000000000000'', pid_namespace = 1, mount_namespace = 1\<rparr>\<rparr>"

definition sample_source :: OpsResourceIdentity where
  "sample_source = LinuxService \<lparr>unit_name = ''a.service'', service_invocation_id = Some (Id ''i'')\<rparr>"

definition sample_spec :: OpsObservationAuthoritySpec where
  "sample_spec =
     \<lparr>spec_owner_id = Id ''o'', spec_session_id = Id ''s'', spec_target = sample_binding,
      spec_selection_generation = 1, spec_operations = [linux_service_logs],
      spec_logs = \<lparr>log_revision = 1, log_enabled = True, permitted_sources = [sample_source]\<rparr>,
      spec_limits = hard_limits\<rparr>"

definition sample_request :: OpsObservationRequest where
  "sample_request =
     \<lparr>req_owner_id = Id ''o'', req_session_id = Id ''s'', req_request_id = Id ''q'',
      req_target = sample_binding, req_selection_generation = 1, req_operation = linux_service_logs,
      req_resource = sample_source, req_log_policy_revision = 1, req_limits = hard_limits\<rparr>"

lemma ops_identifier_ascii:
  "v \<noteq> [] \<Longrightarrow> length v \<le> 128 \<Longrightarrow> list_all (\<lambda>c. 32 \<le> byte c \<and> byte c < 127) v \<Longrightarrow> ops_identifier (Id v)"
  by (auto simp: ops_identifier_def ops_text_def list_all_iff list_ex_iff
      intro: is_safe_utf8_text_ascii)

lemma sample_identifiers [simp]:
  "ops_identifier (Id ''t'')" "ops_identifier (Id ''r'')" "ops_identifier (Id ''i'')"
  "ops_identifier (Id ''o'')" "ops_identifier (Id ''s'')" "ops_identifier (Id ''q'')"
  by (rule ops_identifier_ascii; simp add: byte_def)+

lemma sample_uuid: "uuid ''00000000-0000-0000-0000-000000000000''"
  by code_simp

lemma sample_service_name: "service_name ''a.service''"
  by code_simp

lemma sample_target: "ops_target sample_binding = Inr ()"
  by (simp add: ops_target_def sample_binding_def linux_identity_def sample_uuid)

lemma sample_matches: "resource_matches sample_source sample_binding True"
  by (simp add: resource_matches_def sample_source_def sample_binding_def service_resource_def
      sample_service_name)

lemma sample_limits: "limits_within hard_limits hard_limits"
  by (simp add: limits_within_def hard_limits_def)

lemma sample_created: "OpsObservationAuthority_create sample_spec = Inr \<lparr>auth_specification = sample_spec\<rparr>"
proof -
  have "ops_target_kind sample_binding = Some Kind_linux_local"
    by (simp add: ops_target_kind_def sample_binding_def)
  then have "authority sample_spec = Inr ()"
    by (simp add: authority_def sample_spec_def log_policy_def sample_target sample_matches
        sample_limits matches_kind_def ops_sequence_def)
  then show ?thesis by (simp add: OpsObservationAuthority_create_def)
qed

lemma sample_validated:
  "OpsObservationAuthority_validate \<lparr>auth_specification = sample_spec\<rparr> sample_request = Inr ()"
  by (simp add: OpsObservationAuthority_validate_def request_binding_def sample_spec_def
      sample_request_def sample_target sample_limits sample_matches operation_resource_def
      logs_operation_def ops_sequence_def)

theorem authorised_request_within_grant_witness:
  "req_operation sample_request \<in> set (spec_operations sample_spec) \<and>
   req_resource sample_request \<in> set (permitted_sources (spec_logs sample_spec))"
  using authorised_request_within_grant [OF sample_created sample_validated]
  by (simp add: logs_operation_def sample_request_def)

theorem authorised_request_recordable_witness: "validate_recorded_ops_request sample_request = Inr ()"
  by (rule authorised_request_recordable [OF sample_created sample_validated])

end
