(* ===== verification/Content.thy ===== *)
theory Content
  imports Money
begin

text \<open>
  The content vocabulary of the event stream: \<^verbatim>\<open>include/aiforge/domain/content.hpp\<close>.  Data only;
  the datatypes carry the constructors of the source's variants and enumerations.
\<close>

record TextBlock =
  tb_text :: string

record StructuredDataBlock =
  media_type :: string
  sd_data :: string

record CitationBlock =
  uri :: string
  citation_title :: "string option"

record ArtifactReferenceBlock =
  arb_artifact_id :: ArtifactId
  arb_label :: "string option"

record UnknownContentBlock =
  ucb_type_name :: string

datatype ContentBlock =
    CB_text TextBlock
  | CB_structured StructuredDataBlock
  | CB_citation CitationBlock
  | CB_artifact ArtifactReferenceBlock
  | CB_unknown UnknownContentBlock

record ToolCall =
  call_invocation_id :: InvocationId
  call_tool_name :: string
  call_arguments :: StructuredDataBlock

datatype Role = Role_system | Role_user | Role_assistant | Role_tool | Role_evidence

record Message =
  message_id :: MessageId
  message_role :: Role
  message_content :: "ContentBlock list"
  message_invocation_id :: "InvocationId option"
  tool_calls :: "ToolCall list"

record Usage =
  input_tokens :: u64
  output_tokens :: u64
  cached_input_tokens :: u64
  reasoning_tokens :: u64

datatype FinishReason =
  Finish_stop | Finish_length | Finish_tool_call | Finish_content_filter | Finish_other

datatype ErrorCode =
  Err_invalid_event | Err_invalid_state | Err_backend | Err_policy | Err_cancelled | Err_unavailable

record DomainError =
  err_code :: ErrorCode
  err_message :: string
  err_retryable :: bool

datatype Effect =
    Effect_read | Effect_write | Effect_remove | Effect_execute | Effect_network
  | Effect_communicate | Effect_spend | Effect_change_infrastructure | Effect_change_privileges

record CapabilityScope =
  scope_effect :: Effect
  scope_kind :: string
  scope_value :: string

datatype QuestionSelection = Select_one | Select_many

record QuestionOption =
  option_id :: string
  option_label :: string
  option_description :: "string option"
  option_recommended :: bool

record QuestionOtherInput =
  other_label :: string
  other_placeholder :: "string option"
  other_maximum_bytes :: nat

record QuestionDefinition =
  question_id :: QuestionId
  question_prompt :: string
  question_selection :: QuestionSelection
  question_options :: "QuestionOption list"
  question_required :: bool
  minimum_selections :: nat
  maximum_selections :: "nat option"
  question_other :: "QuestionOtherInput option"

record QuestionAnswer =
  answer_question_id :: QuestionId
  selected_option_ids :: "string list"
  free_form :: "string option"

end
