(* ===== verification/Plan.thy ===== *)
theory Plan
  imports Content
begin

text \<open>
  Plan revisions and their validation: \<^verbatim>\<open>include/aiforge/domain/plan.hpp\<close> and the validators of
  \<^verbatim>\<open>src/lib/plan.cpp\<close>.  The depth-first search for cycles is modelled with its visit marks; its
  recursion is bounded by fuel, and the fuel it is given is proved to be enough.
\<close>

unbundle bit_operations_syntax

section \<open>Data\<close>

record RepositorySnapshotIdentity =
  rsi_repository_id :: RepositoryId
  rsi_fingerprint :: ContentDigest

record SourceByteRange =
  range_begin :: u64
  range_end :: u64

record RepositorySourceIdentity =
  rso_snapshot :: RepositorySnapshotIdentity
  rso_relative_path :: string
  rso_content_digest :: ContentDigest
  rso_range :: "SourceByteRange option"

definition same_source_state :: "RepositorySnapshotIdentity \<Rightarrow> RepositorySnapshotIdentity \<Rightarrow> bool" where
  "same_source_state left right \<longleftrightarrow>
     rsi_repository_id left = rsi_repository_id right \<and> rsi_fingerprint left = rsi_fingerprint right"

record PlanResourceIntent =
  intent_effect :: Effect
  intent_kind :: string
  intent_value :: string

record PlanEvidenceBinding =
  binding_evidence_id :: EvidenceId
  binding_digest :: ContentDigest

record PlanTask =
  task_id :: PlanTaskId
  parent_task_id :: "PlanTaskId option"
  dependency_task_ids :: "PlanTaskId list"
  task_title :: string
  acceptance_criteria :: "string list"
  intended_effects :: "Effect list"
  resource_intents :: "PlanResourceIntent list"

record PlanRevision =
  pr_plan_id :: PlanId
  pr_revision_id :: PlanRevisionId
  supersedes_revision_id :: "PlanRevisionId option"
  pr_goal :: string
  source_snapshot :: "RepositorySnapshotIdentity option"
  pr_tasks :: "PlanTask list"
  pr_evidence :: "PlanEvidenceBinding list"

datatype PlanDecision = Plan_approved | Plan_revision_requested | Plan_rejected

datatype PlanDecisionSource = PlanSource_user | PlanSource_policy

record PlanRevisionDecision =
  prd_plan_id :: PlanId
  prd_revision_id :: PlanRevisionId
  prd_decision :: PlanDecision
  prd_source :: PlanDecisionSource
  prd_reason :: "string option"

datatype PlanInvalidationTrigger = source_snapshot_changed | evidence_changed

record PlanRevisionInvalidation =
  pri_plan_id :: PlanId
  pri_revision_id :: PlanRevisionId
  pri_triggers :: "PlanInvalidationTrigger list"

record PlanGraphLimits =
  maximum_tasks :: nat
  maximum_evidence_bindings :: nat
  maximum_dependencies_per_task :: nat
  maximum_acceptance_criteria_per_task :: nat
  maximum_resource_intents_per_task :: nat
  maximum_text_bytes :: nat
  maximum_metadata_bytes :: nat
  maximum_total_text_bytes :: nat

definition default_plan_limits :: PlanGraphLimits where
  "default_plan_limits =
     \<lparr>maximum_tasks = 256, maximum_evidence_bindings = 256, maximum_dependencies_per_task = 64,
      maximum_acceptance_criteria_per_task = 32, maximum_resource_intents_per_task = 32,
      maximum_text_bytes = 16 * 1024, maximum_metadata_bytes = 4096,
      maximum_total_text_bytes = 1024 * 1024\<rparr>"

datatype PlanGraphErrorCode =
    Plan_invalid_limits | Plan_invalid_plan | Plan_invalid_task | Plan_duplicate_identity
  | Plan_unknown_reference | Plan_cyclic_graph | Plan_resource_exhausted | Plan_invalid_decision
  | Plan_wrong_plan | Plan_wrong_revision | Plan_invalid_transition | Plan_invalid_envelope
  | Plan_non_monotonic_sequence | Plan_duplicate_event | Plan_internal_failure

section \<open>Text\<close>

text \<open>The lead byte: length of the sequence and the bits it contributes.\<close>

definition plan_lead :: "nat \<Rightarrow> (nat \<times> nat) option" where
  "plan_lead first =
     (if first = 0 \<or> first = 0x7f \<or> (first < 0x20 \<and> first \<noteq> 9 \<and> first \<noteq> 10 \<and> first \<noteq> 13) then None
      else if first \<le> 0x7f then Some (1, first)
      else if first AND 0xe0 = 0xc0 then
        (if first AND 0x1f < 2 then None else Some (2, first AND 0x1f))
      else if first AND 0xf0 = 0xe0 then Some (3, first AND 0x0f)
      else if first AND 0xf8 = 0xf0 then Some (4, first AND 0x07)
      else None)"

definition plan_codepoint_ok :: "nat \<Rightarrow> nat \<Rightarrow> bool" where
  "plan_codepoint_ok n codepoint \<longleftrightarrow>
     \<not> ((n = 3 \<and> codepoint < 0x800) \<or> (n = 4 \<and> codepoint < 0x10000) \<or>
        (codepoint \<ge> 0xd800 \<and> codepoint \<le> 0xdfff) \<or> codepoint > 0x10ffff)"

function valid_utf8_from :: "string \<Rightarrow> nat \<Rightarrow> bool" where
  "valid_utf8_from v index =
     (if index < length v then
        (case plan_lead (byte (v ! index)) of None \<Rightarrow> False
         | Some (n, start) \<Rightarrow>
             if n > length v - index then False
             else (case utf8_continue start (take (n - 1) (drop (index + 1) v)) of
                 None \<Rightarrow> False
               | Some codepoint \<Rightarrow>
                   if \<not> plan_codepoint_ok n codepoint then False else valid_utf8_from v (index + n)))
      else True)"
  by pat_completeness auto
termination
  by (relation "measure (\<lambda>(v, index). length v - index)")
    (auto simp: plan_lead_def split: if_splits)

declare valid_utf8_from.simps [simp del]

definition valid_utf8_text :: "string \<Rightarrow> bool" where
  "valid_utf8_text v = (if v = [] then False else valid_utf8_from v 0)"

definition bounded_text :: "string \<Rightarrow> nat \<Rightarrow> bool" where
  "bounded_text v maximum \<longleftrightarrow> length v \<le> maximum \<and> valid_utf8_text v"

definition bounded_identity :: "string \<Rightarrow> nat \<Rightarrow> bool" where
  "bounded_identity v maximum \<longleftrightarrow>
     bounded_text v maximum \<and> \<not> list_ex (\<lambda>c. byte c < 0x20 \<or> byte c = 0x7f) v"

definition is_xdigit :: "char \<Rightarrow> bool" where
  "is_xdigit c \<longleftrightarrow> ascii_digit c \<or> (byte CHR ''a'' \<le> byte c \<and> byte c \<le> byte CHR ''f'') \<or>
     (byte CHR ''A'' \<le> byte c \<and> byte c \<le> byte CHR ''F'')"

definition plan_valid_digest :: "ContentDigest \<Rightarrow> bool" where
  "plan_valid_digest digest \<longleftrightarrow>
     bounded_identity (dg_algorithm digest) 128 \<and> bounded_identity (dg_value digest) 512 \<and>
     list_all (\<lambda>c. ascii_alpha c \<or> ascii_digit c \<or> c = CHR ''-'' \<or> c = CHR ''_'' \<or> c = CHR ''.'')
       (dg_algorithm digest) \<and>
     list_all is_xdigit (dg_value digest)"

definition plan_valid_limits :: "PlanGraphLimits \<Rightarrow> bool" where
  "plan_valid_limits l \<longleftrightarrow>
     maximum_tasks l > 0 \<and> maximum_tasks l \<le> maximum_tasks default_plan_limits \<and>
     maximum_evidence_bindings l > 0 \<and>
     maximum_evidence_bindings l \<le> maximum_evidence_bindings default_plan_limits \<and>
     maximum_dependencies_per_task l > 0 \<and>
     maximum_dependencies_per_task l \<le> maximum_dependencies_per_task default_plan_limits \<and>
     maximum_acceptance_criteria_per_task l > 0 \<and>
     maximum_acceptance_criteria_per_task l \<le> maximum_acceptance_criteria_per_task default_plan_limits \<and>
     maximum_resource_intents_per_task l > 0 \<and>
     maximum_resource_intents_per_task l \<le> maximum_resource_intents_per_task default_plan_limits \<and>
     maximum_text_bytes l > 0 \<and> maximum_text_bytes l \<le> maximum_text_bytes default_plan_limits \<and>
     maximum_metadata_bytes l > 0 \<and>
     maximum_metadata_bytes l \<le> maximum_metadata_bytes default_plan_limits \<and>
     maximum_total_text_bytes l > 0 \<and>
     maximum_total_text_bytes l \<le> maximum_total_text_bytes default_plan_limits \<and>
     maximum_text_bytes l \<le> maximum_total_text_bytes l"

text \<open>The running total of text bytes; \<open>None\<close> is the \<^verbatim>\<open>false\<close> of the source.\<close>

definition add_text_bytes :: "nat \<Rightarrow> string \<Rightarrow> nat \<Rightarrow> nat option" where
  "add_text_bytes used v maximum =
     (if length v > 2 ^ 64 - 1 - used then None
      else if used + length v \<le> maximum then Some (used + length v) else None)"

section \<open>The search for cycles\<close>

datatype Visit = Visit_unseen | Visit_active | Visit_complete

type_synonym edges = "nat \<Rightarrow> nat list"

text \<open>
  \<open>visit\<close> is the recursive closure of the source and \<open>visit_targets\<close> its loop over the edges; both
  return whether a cycle was met together with the marks.
\<close>

fun visit :: "nat \<Rightarrow> edges \<Rightarrow> nat \<Rightarrow> Visit list \<Rightarrow> (bool \<times> Visit list) option"
  and visit_targets :: "nat \<Rightarrow> edges \<Rightarrow> nat list \<Rightarrow> Visit list \<Rightarrow> (bool \<times> Visit list) option" where
  "visit 0 E index visits = None"
| "visit (Suc fuel) E index visits =
     (case visits ! index of
        Visit_active \<Rightarrow> Some (True, visits)
      | Visit_complete \<Rightarrow> Some (False, visits)
      | Visit_unseen \<Rightarrow>
          (case visit_targets fuel E (E index) (visits[index := Visit_active]) of
             None \<Rightarrow> None
           | Some (True, visits') \<Rightarrow> Some (True, visits')
           | Some (False, visits') \<Rightarrow> Some (False, visits'[index := Visit_complete])))"
| "visit_targets fuel E [] visits = Some (False, visits)"
| "visit_targets fuel E (t # ts) visits =
     (case visit fuel E t visits of
        None \<Rightarrow> None
      | Some (True, visits') \<Rightarrow> Some (True, visits')
      | Some (False, visits') \<Rightarrow> visit_targets fuel E ts visits')"

definition task_index :: "PlanTask list \<Rightarrow> PlanTaskId \<Rightarrow> nat option" where
  "task_index tasks = map_of (zip (map task_id tasks) [0..<length tasks])"

text \<open>The indices that the edges of a task lead to; unknown targets are skipped.\<close>

definition edge_indices :: "(PlanTask \<Rightarrow> PlanTaskId list) \<Rightarrow> PlanTask list \<Rightarrow> edges" where
  "edge_indices f tasks index = List.map_filter (task_index tasks) (f (tasks ! index))"

definition has_cycle :: "PlanTask list \<Rightarrow> (PlanTask \<Rightarrow> PlanTaskId list) \<Rightarrow> bool option" where
  "has_cycle tasks f =
     map_option fst (visit_targets (length tasks + 1) (edge_indices f tasks) [0..<length tasks]
       (replicate (length tasks) Visit_unseen))"

definition parent_edges :: "PlanTask \<Rightarrow> PlanTaskId list" where
  "parent_edges task = (case parent_task_id task of None \<Rightarrow> [] | Some p \<Rightarrow> [p])"

section \<open>Validation of a revision\<close>

fun validate_evidence ::
  "PlanGraphLimits \<Rightarrow> EvidenceId set \<Rightarrow> nat \<Rightarrow> PlanEvidenceBinding list \<Rightarrow> PlanGraphErrorCode + nat" where
  "validate_evidence l seen used [] = Inr used"
| "validate_evidence l seen used (b # bs) =
     (if \<not> plan_valid_digest (binding_digest b) \<or> binding_evidence_id b \<in> seen then Inl Plan_invalid_plan
      else case add_text_bytes used (dg_algorithm (binding_digest b)) (maximum_total_text_bytes l) of
          None \<Rightarrow> Inl Plan_invalid_plan
        | Some used1 \<Rightarrow>
            (case add_text_bytes used1 (dg_value (binding_digest b)) (maximum_total_text_bytes l) of
               None \<Rightarrow> Inl Plan_invalid_plan
             | Some used2 \<Rightarrow> validate_evidence l (insert (binding_evidence_id b) seen) used2 bs))"

fun validate_dependencies ::
  "PlanTask list \<Rightarrow> PlanTaskId \<Rightarrow> PlanTaskId set \<Rightarrow> PlanTaskId list \<Rightarrow> PlanGraphErrorCode + unit" where
  "validate_dependencies tasks self seen [] = Inr ()"
| "validate_dependencies tasks self seen (d # ds) =
     fail_if (d = self \<or> task_index tasks d = None) Plan_unknown_reference
    (fail_if (d \<in> seen) Plan_duplicate_identity
    (validate_dependencies tasks self (insert d seen) ds))"

fun validate_intents ::
  "PlanGraphLimits \<Rightarrow> Effect list \<Rightarrow> PlanResourceIntent set \<Rightarrow> nat \<Rightarrow> PlanResourceIntent list
    \<Rightarrow> PlanGraphErrorCode + nat" where
  "validate_intents l effects seen used [] = Inr used"
| "validate_intents l effects seen used (i # rest) =
     fail_if (intent_effect i \<notin> set effects \<or>
              \<not> bounded_identity (intent_kind i) (maximum_metadata_bytes l) \<or>
              \<not> bounded_identity (intent_value i) (maximum_text_bytes l) \<or> i \<in> seen) Plan_invalid_task
     (case add_text_bytes used (intent_kind i) (maximum_total_text_bytes l) of
        None \<Rightarrow> Inl Plan_resource_exhausted
      | Some used1 \<Rightarrow>
          (case add_text_bytes used1 (intent_value i) (maximum_total_text_bytes l) of
             None \<Rightarrow> Inl Plan_resource_exhausted
           | Some used2 \<Rightarrow> validate_intents l effects (insert i seen) used2 rest))"

fun validate_criteria ::
  "PlanGraphLimits \<Rightarrow> nat \<Rightarrow> string list \<Rightarrow> PlanGraphErrorCode + nat" where
  "validate_criteria l used [] = Inr used"
| "validate_criteria l used (c # cs) =
     fail_if (\<not> bounded_text c (maximum_text_bytes l)) Plan_invalid_task
     (case add_text_bytes used c (maximum_total_text_bytes l) of
        None \<Rightarrow> Inl Plan_resource_exhausted
      | Some used1 \<Rightarrow> validate_criteria l used1 cs)"

definition validate_task ::
  "PlanGraphLimits \<Rightarrow> PlanTask list \<Rightarrow> nat \<Rightarrow> PlanTask \<Rightarrow> PlanGraphErrorCode + nat" where
  "validate_task l tasks used task =
     fail_if (\<not> bounded_text (task_title task) (maximum_text_bytes l) \<or> acceptance_criteria task = [] \<or>
              length (acceptance_criteria task) > maximum_acceptance_criteria_per_task l \<or>
              length (dependency_task_ids task) > maximum_dependencies_per_task l \<or>
              length (resource_intents task) > maximum_resource_intents_per_task l) Plan_invalid_task
     (case add_text_bytes used (task_title task) (maximum_total_text_bytes l) of
        None \<Rightarrow> Inl Plan_resource_exhausted
      | Some used1 \<Rightarrow>
          bind_result (validate_dependencies tasks (task_id task) {} (dependency_task_ids task)) (\<lambda>_.
          fail_if (case parent_task_id task of None \<Rightarrow> False
                   | Some p \<Rightarrow> p = task_id task \<or> task_index tasks p = None) Plan_unknown_reference
         (fail_if (\<not> distinct (intended_effects task)) Plan_invalid_task
         (bind_result (validate_intents l (intended_effects task) {} used1 (resource_intents task)) (\<lambda>used2.
          validate_criteria l used2 (acceptance_criteria task))))))"

fun validate_tasks ::
  "PlanGraphLimits \<Rightarrow> PlanTask list \<Rightarrow> nat \<Rightarrow> PlanTask list \<Rightarrow> PlanGraphErrorCode + nat" where
  "validate_tasks l tasks used [] = Inr used"
| "validate_tasks l tasks used (t # ts) =
     bind_result (validate_task l tasks used t) (\<lambda>used1. validate_tasks l tasks used1 ts)"

text \<open>
  The search always returns, so the \<open>None\<close> branches are unreachable; they take the error of the
  source's catch-all.
\<close>

definition validate_plan_revision :: "PlanRevision \<Rightarrow> PlanGraphLimits \<Rightarrow> PlanGraphErrorCode + unit" where
  "validate_plan_revision r l =
     fail_if (\<not> plan_valid_limits l) Plan_invalid_limits
    (fail_if (\<not> bounded_text (pr_goal r) (maximum_text_bytes l) \<or>
              supersedes_revision_id r = Some (pr_revision_id r) \<or>
              (case source_snapshot r of None \<Rightarrow> False
               | Some s \<Rightarrow> \<not> plan_valid_digest (rsi_fingerprint s))) Plan_invalid_plan
    (fail_if (length (pr_evidence r) > maximum_evidence_bindings l) Plan_resource_exhausted
    (fail_if (pr_tasks r = [] \<or> length (pr_tasks r) > maximum_tasks l) Plan_resource_exhausted
    (case add_text_bytes 0 (pr_goal r) (maximum_total_text_bytes l) of
       None \<Rightarrow> Inl Plan_resource_exhausted
     | Some used \<Rightarrow>
         bind_result (validate_evidence l {} used (pr_evidence r)) (\<lambda>used1.
         fail_if (\<not> distinct (map task_id (pr_tasks r))) Plan_duplicate_identity
        (bind_result (validate_tasks l (pr_tasks r) used1 (pr_tasks r)) (\<lambda>_.
         case has_cycle (pr_tasks r) parent_edges of
           None \<Rightarrow> Inl Plan_internal_failure
         | Some True \<Rightarrow> Inl Plan_cyclic_graph
         | Some False \<Rightarrow>
             (case has_cycle (pr_tasks r) dependency_task_ids of
                None \<Rightarrow> Inl Plan_internal_failure
              | Some True \<Rightarrow> Inl Plan_cyclic_graph
              | Some False \<Rightarrow> Inr ()))))))))"

definition validate_plan_decision ::
  "PlanRevisionDecision \<Rightarrow> PlanGraphLimits \<Rightarrow> PlanGraphErrorCode + unit" where
  "validate_plan_decision d l =
     fail_if (\<not> plan_valid_limits l) Plan_invalid_limits
    (fail_if (case prd_reason d of None \<Rightarrow> False | Some r \<Rightarrow> \<not> bounded_text r (maximum_text_bytes l))
       Plan_invalid_decision (Inr ()))"

definition validate_plan_invalidation :: "PlanRevisionInvalidation \<Rightarrow> PlanGraphErrorCode + unit" where
  "validate_plan_invalidation i =
     fail_if (pri_triggers i = [] \<or> \<not> distinct (pri_triggers i)) Plan_invalid_transition (Inr ())"

section \<open>The search is total and exact\<close>

definition marked :: "Visit \<Rightarrow> Visit list \<Rightarrow> nat set" where
  "marked m visits = {i. i < length visits \<and> visits ! i = m}"

definition edge_rel :: "edges \<Rightarrow> nat \<Rightarrow> (nat \<times> nat) set" where
  "edge_rel E n = {(i, j). i < n \<and> j \<in> set (E i)}"

definition edges_below :: "edges \<Rightarrow> nat \<Rightarrow> bool" where
  "edges_below E n \<longleftrightarrow> (\<forall>i < n. \<forall>j \<in> set (E i). j < n)"

lemma finite_marked [simp]: "finite (marked m visits)"
  by (simp add: marked_def)

lemma marked_less: "i \<in> marked m visits \<Longrightarrow> i < length visits"
  by (simp add: marked_def)

lemma marked_update:
  "i < length visits \<Longrightarrow> marked m (visits[i := m']) =
    (if m = m' then insert i (marked m visits) else marked m visits - {i})"
  by (auto simp: marked_def nth_list_update)

lemma visit_SucE:
  assumes "visit (Suc k) E i vs = Some (b, vs')"
  obtains (active) "vs ! i = Visit_active" "b" "vs' = vs"
    | (complete) "vs ! i = Visit_complete" "\<not> b" "vs' = vs"
    | (cycle) "vs ! i = Visit_unseen" "b" "visit_targets k E (E i) (vs[i := Visit_active]) = Some (True, vs')"
    | (clear) w where "vs ! i = Visit_unseen" "\<not> b"
        "visit_targets k E (E i) (vs[i := Visit_active]) = Some (False, w)" "vs' = w[i := Visit_complete]"
  using assms by (auto split: Visit.splits option.splits bool.splits)

lemma visit_targets_ConsE:
  assumes "visit_targets k E (t # ts) vs = Some (b, vs')"
  obtains (cycle) "visit k E t vs = Some (True, vs')" "b"
    | (clear) w where "visit k E t vs = Some (False, w)" "visit_targets k E ts w = Some (b, vs')"
  using assms by (auto split: option.splits bool.splits)

text \<open>
  One induction over the search carries everything: \<open>unseen\<close> nodes only get fewer, and a search
  that finds no cycle restores the active marks, completes its targets and keeps the completed
  nodes closed under edges.
\<close>

definition search_inv :: "edges \<Rightarrow> Visit list \<Rightarrow> bool" where
  "search_inv E vs \<longleftrightarrow> (\<forall>c \<in> marked Visit_complete vs.
     set (E c) \<subseteq> marked Visit_complete vs \<and> (c, c) \<notin> (edge_rel E (length vs))\<^sup>+)"

definition search_post :: "edges \<Rightarrow> nat set \<Rightarrow> Visit list \<Rightarrow> bool \<Rightarrow> Visit list \<Rightarrow> bool" where
  "search_post E targets vs b vs' \<longleftrightarrow>
     length vs' = length vs \<and> marked Visit_unseen vs' \<subseteq> marked Visit_unseen vs \<and>
     (\<not> b \<longrightarrow> marked Visit_active vs' = marked Visit_active vs \<and>
        marked Visit_complete vs \<subseteq> marked Visit_complete vs' \<and>
        targets \<subseteq> marked Visit_complete vs' \<and> search_inv E vs')"

lemma complete_closed:
  assumes "search_inv E vs" and "(c, d) \<in> (edge_rel E (length vs))\<^sup>*" and "c \<in> marked Visit_complete vs"
  shows "d \<in> marked Visit_complete vs"
  using assms(2,3)
  by (induction rule: rtrancl_induct) (use assms(1) in \<open>auto simp: search_inv_def edge_rel_def\<close>)

lemma search_inv_complete:
  assumes inv: "search_inv E vs" and i: "i < length vs" "i \<notin> marked Visit_complete vs"
    and targets: "set (E i) \<subseteq> marked Visit_complete vs"
  shows "search_inv E (vs[i := Visit_complete])"
proof -
  have "(i, i) \<notin> (edge_rel E (length vs))\<^sup>+"
  proof
    assume "(i, i) \<in> (edge_rel E (length vs))\<^sup>+"
    then obtain t where "(i, t) \<in> edge_rel E (length vs)" "(t, i) \<in> (edge_rel E (length vs))\<^sup>*"
      by (blast dest: tranclD)
    then have "i \<in> marked Visit_complete vs"
      using complete_closed [OF inv, of t i] targets by (auto simp: edge_rel_def)
    with i show False by simp
  qed
  with assms show ?thesis by (auto simp: search_inv_def marked_update)
qed

lemma visit_post:
  "i < length vs \<Longrightarrow> edges_below E (length vs) \<Longrightarrow> search_inv E vs
    \<Longrightarrow> visit k E i vs = Some (b, vs') \<Longrightarrow> search_post E {i} vs b vs'"
  "set ts \<subseteq> {..<length vs} \<Longrightarrow> edges_below E (length vs) \<Longrightarrow> search_inv E vs
    \<Longrightarrow> visit_targets k E ts vs = Some (b, vs') \<Longrightarrow> search_post E (set ts) vs b vs'"
proof (induction k E i vs and k E ts vs arbitrary: b vs' and b vs' rule: visit_visit_targets.induct)
  case (2 k E i vs)
  let ?vs = "vs[i := Visit_active]"
  have ts: "set (E i) \<subseteq> {..<length ?vs}" using 2 by (auto simp: edges_below_def)
  have inv: "search_inv E ?vs" if "vs ! i = Visit_unseen"
  proof -
    have "marked Visit_complete ?vs = marked Visit_complete vs"
      using that \<open>i < length vs\<close> by (auto simp: marked_def nth_list_update)
    with 2(4) show ?thesis by (simp add: search_inv_def)
  qed
  from \<open>visit (Suc k) E i vs = Some (b, vs')\<close> show ?case
  proof (cases rule: visit_SucE)
    case active
    then show ?thesis by (simp add: search_post_def)
  next
    case complete
    with 2 show ?thesis by (simp add: search_post_def marked_def)
  next
    case cycle
    with 2(1) [OF _ ts] inv 2(3) have "search_post E (set (E i)) ?vs True vs'" by simp
    with cycle 2(2) show ?thesis by (auto simp: search_post_def marked_update)
  next
    case (clear w)
    with 2(1) [OF _ ts] inv 2(3) have w: "search_post E (set (E i)) ?vs False w" by simp
    then have act: "i \<in> marked Visit_active w" "length w = length vs"
      using 2(2) by (auto simp: search_post_def marked_update)
    then have "i \<notin> marked Visit_complete w" by (simp add: marked_def)
    then have "search_inv E (w[i := Visit_complete])"
      using w act 2(2) by (intro search_inv_complete) (auto simp: search_post_def)
    with w act clear 2(2) show ?thesis
      by (auto simp: search_post_def marked_update) (auto simp: marked_def)
  qed
next
  case (4 k E t ts vs)
  have t: "t < length vs" using 4(3) by simp
  from \<open>visit_targets k E (t # ts) vs = Some (b, vs')\<close> show ?case
  proof (cases rule: visit_targets_ConsE)
    case cycle
    with 4(1) [OF t] 4 show ?thesis by (auto simp: search_post_def)
  next
    case (clear w)
    have w: "search_post E {t} vs False w" using 4(1) [OF t 4(4,5) clear(1)] .
    then have "search_post E (set ts) w b vs'"
      using 4(2) [OF clear(1) refl refl _ _ _ clear(2)] 4(3,4) by (auto simp: search_post_def)
    with w show ?thesis by (auto simp: search_post_def)
  qed
qed (auto simp: search_post_def)


lemma visit_total:
  "i < length vs \<Longrightarrow> edges_below E (length vs) \<Longrightarrow> search_inv E vs
    \<Longrightarrow> card (marked Visit_unseen vs) < k \<Longrightarrow> visit k E i vs \<noteq> None"
  "set ts \<subseteq> {..<length vs} \<Longrightarrow> edges_below E (length vs) \<Longrightarrow> search_inv E vs
    \<Longrightarrow> card (marked Visit_unseen vs) < k \<Longrightarrow> visit_targets k E ts vs \<noteq> None"
proof (induction k E i vs and k E ts vs rule: visit_visit_targets.induct)
  case (2 k E i vs)
  show ?case
  proof (cases "vs ! i")
    case Visit_unseen
    let ?vs = "vs[i := Visit_active]"
    have i: "i \<in> marked Visit_unseen vs" using Visit_unseen 2 by (simp add: marked_def)
    then have "0 < card (marked Visit_unseen vs)" by (auto simp: card_gt_0_iff)
    moreover have "marked Visit_unseen ?vs = marked Visit_unseen vs - {i}"
      using 2(2) by (simp add: marked_update)
    ultimately have "card (marked Visit_unseen ?vs) < k" using 2(5) i by simp
    moreover have "marked Visit_complete ?vs = marked Visit_complete vs"
      using Visit_unseen 2(2) by (auto simp: marked_def nth_list_update)
    then have "search_inv E ?vs" using 2(4) by (simp add: search_inv_def)
    moreover have "set (E i) \<subseteq> {..<length ?vs}" using 2 by (auto simp: edges_below_def)
    ultimately have "visit_targets k E (E i) ?vs \<noteq> None" using 2 Visit_unseen by simp
    with Visit_unseen show ?thesis by (auto split: option.splits bool.splits)
  qed auto
next
  case (4 k E t ts vs)
  then have t: "t < length vs" "visit k E t vs \<noteq> None" by auto
  then obtain b vs' where v: "visit k E t vs = Some (b, vs')" by auto
  note post = visit_post(1) [OF t(1) 4(4,5) v]
  show ?case
  proof (cases b)
    case False
    then have "length vs' = length vs" "search_inv E vs'"
      "card (marked Visit_unseen vs') \<le> card (marked Visit_unseen vs)"
      using post by (auto simp: search_post_def intro: card_mono)
    with 4 v False show ?thesis by simp
  qed (use v in simp)
qed auto

lemma visit_cycle:
  "i < length vs \<Longrightarrow> edges_below E (length vs) \<Longrightarrow> search_inv E vs
    \<Longrightarrow> (\<And>a. a \<in> marked Visit_active vs \<Longrightarrow> (a, i) \<in> (edge_rel E (length vs))\<^sup>+)
    \<Longrightarrow> visit k E i vs = Some (True, vs') \<Longrightarrow> \<not> acyclic (edge_rel E (length vs))"
  "set ts \<subseteq> {..<length vs} \<Longrightarrow> edges_below E (length vs) \<Longrightarrow> search_inv E vs
    \<Longrightarrow> (\<And>a t. a \<in> marked Visit_active vs \<Longrightarrow> t \<in> set ts \<Longrightarrow> (a, t) \<in> (edge_rel E (length vs))\<^sup>+)
    \<Longrightarrow> visit_targets k E ts vs = Some (True, vs') \<Longrightarrow> \<not> acyclic (edge_rel E (length vs))"
proof (induction k E i vs and k E ts vs arbitrary: vs' and vs' rule: visit_visit_targets.induct)
  case (2 k E i vs)
  let ?vs = "vs[i := Visit_active]"
  from \<open>visit (Suc k) E i vs = Some (True, vs')\<close> show ?case
  proof (cases rule: visit_SucE)
    case active
    with 2(2,5) have "(i, i) \<in> (edge_rel E (length vs))\<^sup>+" by (simp add: marked_def)
    then show ?thesis by (auto simp: acyclic_def)
  next
    case cycle
    have "marked Visit_complete ?vs = marked Visit_complete vs"
      using cycle 2(2) by (auto simp: marked_def nth_list_update)
    then have inv: "search_inv E ?vs" using 2(4) by (simp add: search_inv_def)
    have ts: "set (E i) \<subseteq> {..<length ?vs}" using 2 by (auto simp: edges_below_def)
    have "(a, t) \<in> (edge_rel E (length ?vs))\<^sup>+"
      if "a \<in> marked Visit_active ?vs" "t \<in> set (E i)" for a t
    proof -
      have "(i, t) \<in> edge_rel E (length vs)" using that 2(2) by (simp add: edge_rel_def)
      then show ?thesis using that 2(2) 2(5) [of a]
        by (auto simp: marked_update intro: trancl_into_trancl)
    qed
    with 2(1) [OF cycle(1) ts _ inv _ cycle(3)] 2(3) show ?thesis by simp
  qed auto
next
  case (4 k E t ts vs)
  have t: "t < length vs" using 4(3) by simp
  from \<open>visit_targets k E (t # ts) vs = Some (True, vs')\<close> show ?case
  proof (cases rule: visit_targets_ConsE)
    case cycle
    with 4(1) [OF t 4(4,5)] 4(6) show ?thesis by simp
  next
    case (clear w)
    note w = visit_post(1) [OF t 4(4,5) clear(1), unfolded search_post_def]
    have "\<not> acyclic (edge_rel E (length w))"
      using 4(2) [OF clear(1) refl refl _ _ _ _ clear(2)] w 4(3,4,6) by auto
    with w show ?thesis by simp
  qed
qed auto

text \<open>The fuel is one more than the number of tasks, which is enough, and the answer is exact.\<close>

lemma search_exact:
  assumes "edges_below E n"
  shows "map_option fst (visit_targets (n + 1) E [0..<n] (replicate n Visit_unseen))
    = Some (\<not> acyclic (edge_rel E n))"
proof -
  let ?vs = "replicate n Visit_unseen"
  have init: "search_inv E ?vs" "marked Visit_active ?vs = {}" "card (marked Visit_unseen ?vs) \<le> n"
    using card_mono [of "{..<n}" "marked Visit_unseen ?vs"]
    by (auto simp: search_inv_def marked_def)
  have ts: "set [0..<n] \<subseteq> {..<length ?vs}" by auto
  have "visit_targets (n + 1) E [0..<n] ?vs \<noteq> None"
    using visit_total(2) [OF ts] assms init by simp
  then obtain b vs' where v: "visit_targets (n + 1) E [0..<n] ?vs = Some (b, vs')" by auto
  have "\<not> acyclic (edge_rel E n)" if b
    using visit_cycle(2) [OF ts, of E] assms init v that by simp
  moreover have "acyclic (edge_rel E n)" if "\<not> b"
  proof -
    have "search_post E (set [0..<n]) ?vs b vs'" using visit_post(2) [OF ts _ init(1) v] assms by simp
    with that have "search_inv E vs'" "{0..<n} \<subseteq> marked Visit_complete vs'" "length vs' = n"
      by (auto simp: search_post_def)
    then have "(c, c) \<notin> (edge_rel E n)\<^sup>+" if "c < n" for c using that by (auto simp: search_inv_def)
    moreover have "c < n" if "(c, c) \<in> (edge_rel E n)\<^sup>+" for c
      using that by (auto dest!: tranclD simp: edge_rel_def)
    ultimately show ?thesis by (auto simp: acyclic_def)
  qed
  ultimately show ?thesis using v by auto
qed


section \<open>Cycles among tasks\<close>

definition task_rel :: "(PlanTask \<Rightarrow> PlanTaskId list) \<Rightarrow> PlanTask list \<Rightarrow> (PlanTaskId \<times> PlanTaskId) set" where
  "task_rel f tasks = {(task_id t, d) | t d. t \<in> set tasks \<and> d \<in> set (f t)}"

lemma task_index_Some:
  assumes "distinct (map task_id tasks)"
  shows "task_index tasks d = Some j \<longleftrightarrow> j < length tasks \<and> task_id (tasks ! j) = d"
proof -
  have "distinct (map fst (zip (map task_id tasks) [0..<length tasks]))" using assms by simp
  then have "task_index tasks d = Some j \<longleftrightarrow> (d, j) \<in> set (zip (map task_id tasks) [0..<length tasks])"
    unfolding task_index_def by (rule map_of_eq_Some_iff)
  also have "\<dots> \<longleftrightarrow> j < length tasks \<and> task_id (tasks ! j) = d"
    by (auto simp: set_zip intro!: exI [of _ j])
  finally show ?thesis .
qed

lemma task_index_None: "task_index tasks d = None \<longleftrightarrow> d \<notin> task_id ` set tasks"
proof -
  have "fst ` set (zip (map task_id tasks) [0..<length tasks]) = set (map task_id tasks)"
    by (metis length_map length_upt list.set_map map_fst_zip minus_nat.diff_0)
  then show ?thesis by (simp add: task_index_def map_of_eq_None_iff)
qed

lemma edge_indices_iff:
  assumes "distinct (map task_id tasks)" and "i < length tasks"
  shows "j \<in> set (edge_indices f tasks i) \<longleftrightarrow> j < length tasks \<and> task_id (tasks ! j) \<in> set (f (tasks ! i))"
proof -
  have "j \<in> set (edge_indices f tasks i) \<longleftrightarrow> (\<exists>d \<in> set (f (tasks ! i)). task_index tasks d = Some j)"
    by (force simp: edge_indices_def map_filter_def image_iff)
  then show ?thesis by (auto simp: task_index_Some [OF assms(1)])
qed

lemma task_id_nth_inject:
  assumes "distinct (map task_id tasks)" and "i < length tasks" and "j < length tasks"
    and "task_id (tasks ! i) = task_id (tasks ! j)"
  shows "i = j"
proof -
  have "map task_id tasks ! i = map task_id tasks ! j" using assms by simp
  then show ?thesis using assms by (simp only: nth_eq_iff_index_eq length_map)
qed

lemma edge_rel_iff:
  assumes "distinct (map task_id tasks)"
  shows "(i, j) \<in> edge_rel (edge_indices f tasks) (length tasks) \<longleftrightarrow>
    i < length tasks \<and> j < length tasks \<and> (task_id (tasks ! i), task_id (tasks ! j)) \<in> task_rel f tasks"
proof (cases "i < length tasks")
  case True
  have "(task_id (tasks ! i), d) \<in> task_rel f tasks \<longleftrightarrow> d \<in> set (f (tasks ! i))" for d
  proof
    assume "(task_id (tasks ! i), d) \<in> task_rel f tasks"
    then obtain i' where "i' < length tasks" "task_id (tasks ! i) = task_id (tasks ! i')"
      "d \<in> set (f (tasks ! i'))" by (auto simp: task_rel_def in_set_conv_nth)
    then show "d \<in> set (f (tasks ! i))" using task_id_nth_inject [OF assms True] by auto
  next
    assume "d \<in> set (f (tasks ! i))"
    with True show "(task_id (tasks ! i), d) \<in> task_rel f tasks"
      unfolding task_rel_def using nth_mem [OF True] by blast
  qed
  with True show ?thesis by (simp add: edge_rel_def edge_indices_iff [OF assms])
qed (simp add: edge_rel_def)

lemma edge_rel_trancl:
  assumes "distinct (map task_id tasks)" and "(i, j) \<in> (edge_rel (edge_indices f tasks) (length tasks))\<^sup>+"
  shows "(task_id (tasks ! i), task_id (tasks ! j)) \<in> (task_rel f tasks)\<^sup>+"
  using assms(2)
  by (induction rule: trancl_induct) (auto simp: edge_rel_iff [OF assms(1)] intro: trancl_into_trancl)

lemma task_rel_trancl:
  assumes dist: "distinct (map task_id tasks)" and "(x, y) \<in> (task_rel f tasks)\<^sup>+" and "y \<in> task_id ` set tasks"
  shows "\<exists>i j. i < length tasks \<and> j < length tasks \<and> x = task_id (tasks ! i) \<and> y = task_id (tasks ! j) \<and>
    (i, j) \<in> (edge_rel (edge_indices f tasks) (length tasks))\<^sup>+"
  using assms(2,3)
proof (induction rule: trancl_induct)
  case (base y)
  then have "x \<in> task_id ` set tasks" by (auto simp: task_rel_def)
  then obtain i where i: "i < length tasks" "x = task_id (tasks ! i)" by (auto simp: in_set_conv_nth)
  from base.prems obtain j where j: "j < length tasks" "y = task_id (tasks ! j)"
    by (auto simp: in_set_conv_nth)
  have "(i, j) \<in> edge_rel (edge_indices f tasks) (length tasks)"
    using edge_rel_iff [OF dist, of i j f] base.hyps i j by simp
  with i j show ?case by blast
next
  case (step y z)
  then have "y \<in> task_id ` set tasks" by (auto simp: task_rel_def)
  with step obtain i j where ij: "i < length tasks" "j < length tasks" "x = task_id (tasks ! i)"
    "y = task_id (tasks ! j)" "(i, j) \<in> (edge_rel (edge_indices f tasks) (length tasks))\<^sup>+" by blast
  from step.prems obtain k where "k < length tasks" "z = task_id (tasks ! k)" by (auto simp: in_set_conv_nth)
  with step.hyps ij have "(j, k) \<in> edge_rel (edge_indices f tasks) (length tasks)"
    using edge_rel_iff [OF dist, of j k f] by blast
  with ij show ?case using \<open>k < length tasks\<close> \<open>z = task_id (tasks ! k)\<close>
    by (blast intro: trancl_into_trancl)
qed

lemma acyclic_task_rel:
  assumes "distinct (map task_id tasks)"
  shows "acyclic (edge_rel (edge_indices f tasks) (length tasks)) \<longleftrightarrow> acyclic (task_rel f tasks)"
proof
  assume "acyclic (task_rel f tasks)"
  then show "acyclic (edge_rel (edge_indices f tasks) (length tasks))"
    using edge_rel_trancl [OF assms] by (fastforce simp: acyclic_def)
next
  assume ac: "acyclic (edge_rel (edge_indices f tasks) (length tasks))"
  show "acyclic (task_rel f tasks)"
  proof (rule acyclicI, intro allI notI)
    fix x assume x: "(x, x) \<in> (task_rel f tasks)\<^sup>+"
    then have "x \<in> task_id ` set tasks" by (auto dest!: tranclD simp: task_rel_def)
    from task_rel_trancl [OF assms x this] obtain i j where "i < length tasks" "j < length tasks"
      "task_id (tasks ! i) = task_id (tasks ! j)" "(i, j) \<in> (edge_rel (edge_indices f tasks) (length tasks))\<^sup>+"
      by auto
    moreover from this have "i = j" using task_id_nth_inject [OF assms] by blast
    ultimately show False using ac by (auto simp: acyclic_def)
  qed
qed

lemma has_cycle_eq:
  assumes "distinct (map task_id tasks)"
  shows "has_cycle tasks f = Some (\<not> acyclic (task_rel f tasks))"
proof -
  have "edges_below (edge_indices f tasks) (length tasks)"
    using assms by (auto simp: edges_below_def edge_indices_iff)
  from search_exact [OF this] show ?thesis
    by (simp add: has_cycle_def acyclic_task_rel [OF assms])
qed

text \<open>
  C4: the depth-first search terminates on every task list with distinct identities, whatever the
  edges, and answers whether the edges contain a cycle; edges to unknown tasks do not matter.
\<close>

theorem has_cycle_exact:
  assumes "distinct (map task_id tasks)"
  shows "\<exists>answer. has_cycle tasks f = Some answer \<and> (answer \<longleftrightarrow> (\<exists>x. (x, x) \<in> (task_rel f tasks)\<^sup>+))"
  using has_cycle_eq [OF assms] by (auto simp: acyclic_def)

definition sample_task :: "string \<Rightarrow> string list \<Rightarrow> PlanTask" where
  "sample_task name deps =
     \<lparr>task_id = Id name, parent_task_id = None, dependency_task_ids = map Id deps, task_title = ''t'',
      acceptance_criteria = [''c''], intended_effects = [], resource_intents = []\<rparr>"

theorem has_cycle_exact_witness:
  "has_cycle [sample_task ''a'' [''b''], sample_task ''b'' [''a'']] dependency_task_ids = Some True \<and>
   has_cycle [sample_task ''a'' [''b''], sample_task ''b'' []] dependency_task_ids = Some False \<and>
   (\<exists>x. (x, x) \<in> (task_rel dependency_task_ids [sample_task ''a'' [''b''], sample_task ''b'' [''a'']])\<^sup>+)"
proof -
  have "has_cycle [sample_task ''a'' [''b''], sample_task ''b'' [''a'']] dependency_task_ids = Some True"
    "has_cycle [sample_task ''a'' [''b''], sample_task ''b'' []] dependency_task_ids = Some False"
    by code_simp+
  moreover have "distinct (map task_id [sample_task ''a'' [''b''], sample_task ''b'' [''a'']])"
    by (simp add: sample_task_def)
  ultimately show ?thesis using has_cycle_exact by force
qed

section \<open>What validation guarantees\<close>

lemma validate_dependencies_ok:
  "validate_dependencies tasks self seen ds = Inr () \<Longrightarrow>
    (\<forall>d \<in> set ds. d \<noteq> self \<and> d \<in> task_id ` set tasks) \<and> distinct ds \<and> set ds \<inter> seen = {}"
  by (induction tasks self seen ds rule: validate_dependencies.induct) (auto simp: task_index_None)

definition task_refs_ok :: "PlanTask list \<Rightarrow> PlanTask \<Rightarrow> bool" where
  "task_refs_ok tasks t \<longleftrightarrow>
     (\<forall>d \<in> set (dependency_task_ids t). d \<noteq> task_id t \<and> d \<in> task_id ` set tasks) \<and>
     distinct (dependency_task_ids t) \<and>
     (\<forall>p. parent_task_id t = Some p \<longrightarrow> p \<noteq> task_id t \<and> p \<in> task_id ` set tasks) \<and>
     (\<forall>i \<in> set (resource_intents t). intent_effect i \<in> set (intended_effects t))"

lemma validate_intents_ok:
  "validate_intents l effects seen used ints = Inr used' \<Longrightarrow>
    \<forall>i \<in> set ints. intent_effect i \<in> set effects"
  by (induction l effects seen used ints rule: validate_intents.induct) (auto split: option.splits)

lemma validate_task_ok: "validate_task l tasks used t = Inr used' \<Longrightarrow> task_refs_ok tasks t"
  by (auto simp: validate_task_def task_refs_ok_def task_index_None
      dest!: validate_dependencies_ok validate_intents_ok split: option.splits)

lemma validate_tasks_ok:
  "validate_tasks l tasks used ts = Inr used' \<Longrightarrow> \<forall>t \<in> set ts. task_refs_ok tasks t"
  by (induction l tasks used ts arbitrary: used' rule: validate_tasks.induct)
    (auto dest: validate_task_ok)

lemma finite_task_rel: "finite (task_rel f tasks)"
proof -
  have "task_rel f tasks = (\<Union>t \<in> set tasks. (\<lambda>d. (task_id t, d)) ` set (f t))"
    by (auto simp: task_rel_def)
  then show ?thesis by simp
qed

lemma validate_plan_revision_ok:
  assumes "validate_plan_revision r l = Inr ()"
  shows "distinct (map task_id (pr_tasks r))" and "\<forall>t \<in> set (pr_tasks r). task_refs_ok (pr_tasks r) t"
    and "acyclic (task_rel parent_edges (pr_tasks r))"
    and "acyclic (task_rel dependency_task_ids (pr_tasks r))"
    and "pr_tasks r \<noteq> []" and "length (pr_tasks r) \<le> 256"
proof -
  obtain used used1 where v: "validate_tasks l (pr_tasks r) used (pr_tasks r) = Inr used1"
    and d: "distinct (map task_id (pr_tasks r))"
    and c: "has_cycle (pr_tasks r) parent_edges = Some False"
      "has_cycle (pr_tasks r) dependency_task_ids = Some False"
    and b: "pr_tasks r \<noteq> []" "length (pr_tasks r) \<le> maximum_tasks l" "plan_valid_limits l"
    using assms
    by (auto simp: validate_plan_revision_def split: option.split_asm bool.split_asm)
  show "distinct (map task_id (pr_tasks r))" by (rule d)
  show "\<forall>t \<in> set (pr_tasks r). task_refs_ok (pr_tasks r) t" using validate_tasks_ok [OF v] .
  show "acyclic (task_rel parent_edges (pr_tasks r))"
    "acyclic (task_rel dependency_task_ids (pr_tasks r))" using c has_cycle_eq [OF d] by auto
  show "pr_tasks r \<noteq> []" "length (pr_tasks r) \<le> 256"
    using b by (auto simp: plan_valid_limits_def default_plan_limits_def)
qed


lemma valid_utf8_from_ascii:
  "\<forall>c \<in> set v. 32 \<le> byte c \<and> byte c < 127 \<Longrightarrow> valid_utf8_from v i"
proof (induction v i rule: valid_utf8_from.induct)
  case (1 v i)
  show ?case
  proof (cases "i < length v")
    case True
    then have b: "32 \<le> byte (v ! i)" "byte (v ! i) < 127" using "1.prems" by auto
    then have lead: "plan_lead (byte (v ! i)) = Some (1, byte (v ! i))" by (simp add: plan_lead_def)
    have ok: "plan_codepoint_ok 1 (byte (v ! i))" using b by (simp add: plan_codepoint_ok_def)
    have "valid_utf8_from v (i + 1)"
      using "1.IH" [OF True lead refl] True "1.prems" ok by simp
    with True lead ok show ?thesis by (subst valid_utf8_from.simps) simp
  qed (simp add: valid_utf8_from.simps)
qed

lemma valid_utf8_text_ascii:
  "v \<noteq> [] \<Longrightarrow> list_all (\<lambda>c. 32 \<le> byte c \<and> byte c < 127) v \<Longrightarrow> valid_utf8_text v"
  by (simp add: valid_utf8_text_def valid_utf8_from_ascii list_all_iff)

text \<open>
  C5: an accepted plan revision has between one and 256 tasks with distinct identities; every
  dependency and parent names another task of the revision, every resource intent uses a declared
  effect, and neither the parent links nor the dependencies contain a cycle, so both can be
  followed to an end from every task.
\<close>

theorem validated_plan_well_founded:
  assumes "validate_plan_revision r l = Inr ()"
  shows "pr_tasks r \<noteq> [] \<and> length (pr_tasks r) \<le> 256 \<and> distinct (map task_id (pr_tasks r)) \<and>
    (\<forall>t \<in> set (pr_tasks r). task_refs_ok (pr_tasks r) t) \<and>
    wf ((task_rel parent_edges (pr_tasks r))\<inverse>) \<and> wf ((task_rel dependency_task_ids (pr_tasks r))\<inverse>)"
  using validate_plan_revision_ok [OF assms]
  by (auto intro!: finite_acyclic_wf_converse finite_task_rel)

definition sample_revision :: PlanRevision where
  "sample_revision =
     \<lparr>pr_plan_id = Id ''p'', pr_revision_id = Id ''r'', supersedes_revision_id = None, pr_goal = ''g'',
      source_snapshot = None, pr_tasks = [sample_task ''a'' [''b''], sample_task ''b'' []], pr_evidence = []\<rparr>"

lemma sample_text: "valid_utf8_text ''g''" "valid_utf8_text ''t''" "valid_utf8_text ''c''"
  by (rule valid_utf8_text_ascii; simp add: byte_def)+

lemma sample_revision_valid: "validate_plan_revision sample_revision default_plan_limits = Inr ()"
proof -
  have c: "has_cycle [sample_task ''a'' [''b''], sample_task ''b'' []] parent_edges = Some False"
    "has_cycle [sample_task ''a'' [''b''], sample_task ''b'' []] dependency_task_ids = Some False"
    by code_simp+
  have "plan_valid_limits default_plan_limits"
    by (simp add: plan_valid_limits_def default_plan_limits_def)
  with c show ?thesis
    by (simp add: validate_plan_revision_def sample_revision_def)
      (simp add: sample_task_def validate_task_def default_plan_limits_def bounded_text_def sample_text
        add_text_bytes_def task_index_def)
qed

theorem validated_plan_well_founded_witness:
  "wf ((task_rel dependency_task_ids (pr_tasks sample_revision))\<inverse>)"
  using validated_plan_well_founded [OF sample_revision_valid] by blast

end
