(* ===== verification/ToolPolicy.thy ===== *)
theory ToolPolicy
  imports Content
begin

text \<open>
  The capability policy of tools: \<^verbatim>\<open>src/lib/tool_policy.cpp\<close>,
  \<^verbatim>\<open>include/aiforge/runtime/tool_policy.hpp\<close> and the grant store interface
  \<^verbatim>\<open>include/aiforge/storage/policy_grant_store.hpp\<close>.  The store is an abstract class; a call on it
  is an argument of the model.  Character classes are those of the C locale, and
  \<^verbatim>\<open>std::filesystem::path::lexically_normal\<close> is written out for absolute POSIX paths, the only ones
  that reach it.
\<close>

section \<open>Data\<close>

datatype ToolPolicyErrorCode =
    Policy_invalid_profile | Policy_invalid_request | Policy_scope_widening
  | Policy_persistence_failure | Policy_internal_failure

record ToolPolicyError =
  tpe_code :: ToolPolicyErrorCode
  tpe_retryable :: bool

datatype PolicyDecision = Decision_allow | Decision_deny | Decision_require_approval

datatype PolicyDecisionSource =
    Source_fallback | Source_permission_profile | Source_automatic_matcher
  | Source_session_grant | Source_saved_grant | Source_user_approval

datatype ApprovalGrantLifetime = Lifetime_invocation | Lifetime_session | Lifetime_saved

record PermissionProfile =
  profile_id :: PermissionProfileId
  automatic_effects :: "Effect list"
  automatic_scopes :: "CapabilityScope list"
  approvable_effects :: "Effect list"
  approval_ceiling :: "CapabilityScope list"

text \<open>
  \<^verbatim>\<open>canonical_arguments\<close> and \<^verbatim>\<open>selected_restriction\<close> of the request are read by the automatic
  approval matcher only, not by the policies modelled here.
\<close>

record ToolPolicyRequest =
  tpr_session_id :: SessionId
  tpr_run_id :: RunId
  tpr_invocation_id :: InvocationId
  tpr_permission_profile_id :: PermissionProfileId
  tpr_tool_name :: string
  tpr_effects :: "Effect list"
  tpr_scopes :: "CapabilityScope list"

record ToolPolicyResolution =
  res_decision :: PolicyDecision
  res_scopes :: "CapabilityScope list"
  res_source :: PolicyDecisionSource

record ToolPolicyApproval =
  granted_scopes :: "CapabilityScope list"
  grant_lifetime :: ApprovalGrantLifetime

record SavedPolicyGrant =
  spg_permission_profile_id :: PermissionProfileId
  spg_tool_name :: string
  spg_effects :: "Effect list"
  spg_scopes :: "CapabilityScope list"

record SessionGrant =
  sg_session_id :: SessionId
  sg_grant :: SavedPolicyGrant

text \<open>What the two virtual calls of the grant store return; the error carries whether to retry.\<close>

record PolicyGrantStore =
  load_grants :: "PermissionProfileId \<Rightarrow> bool + SavedPolicyGrant list"
  save_grant :: "SavedPolicyGrant \<Rightarrow> bool + unit"

record CapabilityPolicy =
  cp_profile :: PermissionProfile
  cp_session_grants :: "SessionGrant list"

definition policy_error :: "ToolPolicyErrorCode \<Rightarrow> ToolPolicyError" where
  "policy_error c = \<lparr>tpe_code = c, tpe_retryable = False\<rparr>"

section \<open>Normalization of one scope\<close>

definition contains_control :: "string \<Rightarrow> bool" where
  "contains_control v \<longleftrightarrow> list_ex (\<lambda>c. byte c < 0x20 \<or> byte c = 0x7f) v"

definition effect_allowed_for_kind :: "Effect \<Rightarrow> string \<Rightarrow> bool" where
  "effect_allowed_for_kind effect kind =
     (if kind = ''filesystem.root'' then effect \<in> {Effect_read, Effect_write, Effect_remove}
      else if kind = ''network.host'' then effect \<in> {Effect_network, Effect_communicate}
      else if kind = ''network.unrestricted'' then effect = Effect_network
      else if kind = ''process.command'' then effect = Effect_execute
      else if kind = ''ops.target'' then effect \<in> {Effect_read, Effect_execute, Effect_network}
      else if kind = ''cluster.resource'' then
        effect \<in> {Effect_read, Effect_write, Effect_remove, Effect_change_infrastructure,
                  Effect_change_privileges}
      else if kind = ''artifact.id'' then effect \<in> {Effect_read, Effect_write, Effect_remove}
      else if kind = ''spend.microunits'' then effect = Effect_spend
      else False)"

text \<open>Filenames between the slashes of a path text; runs of slashes separate once.\<close>

fun path_names :: "string \<Rightarrow> string \<Rightarrow> string list" where
  "path_names current [] = (if current = [] then [] else [current])"
| "path_names current (c # cs) =
     (if c = CHR ''/'' then (if current = [] then path_names [] cs else current # path_names [] cs)
      else path_names (current @ [c]) cs)"

text \<open>
  Removing dots and dot-dots below a root directory; \<open>kept\<close> holds the names kept so far, the last first.
\<close>

fun drop_dots :: "string list \<Rightarrow> string list \<Rightarrow> string list" where
  "drop_dots kept [] = rev kept"
| "drop_dots kept (n # ns) =
     (if n = ''.'' then drop_dots kept ns
      else if n = ''..'' then drop_dots (tl kept) ns
      else drop_dots (n # kept) ns)"

definition trailing_slash :: "string \<Rightarrow> bool" where
  "trailing_slash v \<longleftrightarrow> v \<noteq> [] \<and> last v = CHR ''/''"

definition names_text :: "string list \<Rightarrow> bool \<Rightarrow> string" where
  "names_text ns slash =
     (if ns = [] then ''/''
      else concat (map (\<lambda>n. CHR ''/'' # n) ns) @ (if slash then ''/'' else []))"

definition lexically_normal :: "string \<Rightarrow> string" where
  "lexically_normal v =
     (let ns = path_names [] v in
      names_text (drop_dots [] ns)
        (trailing_slash v \<or> (ns \<noteq> [] \<and> (last ns = ''.'' \<or> last ns = ''..''))))"

definition contains_text :: "string \<Rightarrow> string \<Rightarrow> bool" where
  "contains_text needle v \<longleftrightarrow> list_ex (\<lambda>i. take (length needle) (drop i v) = needle) [0..<length v]"

definition ends_with :: "string \<Rightarrow> string \<Rightarrow> bool" where
  "ends_with suffix v \<longleftrightarrow> length suffix \<le> length v \<and> drop (length v - length suffix) v = suffix"

definition normalize_path :: "string \<Rightarrow> ToolPolicyError + string" where
  "normalize_path v =
     fail_if (v = [] \<or> length v > 4096 \<or> contains_control v) (policy_error Policy_invalid_request)
    (fail_if (hd v \<noteq> CHR ''/'') (policy_error Policy_invalid_request)
    (let normalized = lexically_normal v in
     fail_if (normalized = [] \<or> normalized \<noteq> v \<or> contains_text ''/../'' normalized \<or>
              ends_with ''/..'' normalized) (policy_error Policy_invalid_request)
       (Inr normalized)))"

definition tolower :: "char \<Rightarrow> char" where
  "tolower c = (if byte CHR ''A'' \<le> byte c \<and> byte c \<le> byte CHR ''Z''
                then char_of (byte c + 32) else c)"

definition normalize_host :: "string \<Rightarrow> ToolPolicyError + string" where
  "normalize_host v =
     fail_if (v = [] \<or> length v > 253 \<or> contains_control v \<or> CHR ''/'' \<in> set v \<or> CHR ''@'' \<in> set v \<or>
              CHR ''*'' \<in> set v \<or> hd v = CHR ''.'' \<or> last v = CHR ''.'')
       (policy_error Policy_invalid_request)
     (let lower = map tolower v in
      fail_if (list_ex (\<lambda>c. \<not> (ascii_alpha c \<or> ascii_digit c \<or> c = CHR ''.'' \<or> c = CHR ''-'' \<or>
                 c = CHR '':'' \<or> c = CHR ''['' \<or> c = CHR '']'')) lower)
        (policy_error Policy_invalid_request) (Inr lower))"

definition normalize_exact :: "string \<Rightarrow> ToolPolicyError + string" where
  "normalize_exact v =
     fail_if (v = [] \<or> length v > 4096 \<or> contains_control v) (policy_error Policy_invalid_request) (Inr v)"

text \<open>\<^verbatim>\<open>std::from_chars\<close> into a 64-bit unsigned integer that has to consume the whole text.\<close>

definition parse_microunits :: "string \<Rightarrow> u64 option" where
  "parse_microunits v =
     (if v = [] \<or> hd v = CHR ''+'' \<or> hd v = CHR ''-'' then None
      else if all_digits v \<and> digits_value v < 2 ^ 64 then Some (of_nat (digits_value v))
      else None)"

text \<open>The branches of the normalization on the kind of the scope.\<close>

definition normalize_scope_value :: "string \<Rightarrow> string \<Rightarrow> ToolPolicyError + string" where
  "normalize_scope_value kind v =
     (if kind = ''filesystem.root'' \<or> kind = ''process.command'' then normalize_path v
      else if kind = ''network.host'' then normalize_host v
      else if kind = ''network.unrestricted'' then
        fail_if (v \<noteq> ''new-sockets'') (policy_error Policy_invalid_request) (Inr v)
      else if kind = ''spend.microunits'' then
        fail_if (parse_microunits v = None) (policy_error Policy_invalid_request) (Inr v)
      else if kind = ''artifact.id'' then
        fail_if (isl (Id_from v :: IdError + ArtifactId)) (policy_error Policy_invalid_request) (Inr v)
      else normalize_exact v)"

definition normalize_capability_scope :: "CapabilityScope \<Rightarrow> ToolPolicyError + CapabilityScope" where
  "normalize_capability_scope scope0 =
     (let kind = (if scope_kind scope0 = ''root'' then ''filesystem.root'' else scope_kind scope0) in
      fail_if (\<not> effect_allowed_for_kind (scope_effect scope0) kind)
        (policy_error Policy_invalid_request)
     (bind_result (normalize_scope_value kind (scope_value scope0)) (\<lambda>normalized.
        Inr (scope0\<lparr>scope_kind := kind, scope_value := normalized\<rparr>))))"

section \<open>Coverage\<close>

text \<open>The elements that iterating over an absolute path yields.\<close>

definition path_elements :: "string \<Rightarrow> string list" where
  "path_elements v =
     (let ns = path_names [] v in
      ''/'' # ns @ (if ns \<noteq> [] \<and> trailing_slash v then [[]] else []))"

fun path_prefix :: "string list \<Rightarrow> string list \<Rightarrow> bool" where
  "path_prefix (p # ps) (c # cs) = (if p \<noteq> c then False else path_prefix ps cs)"
| "path_prefix ps cs = (ps = [])"

definition capability_scope_covers :: "CapabilityScope \<Rightarrow> CapabilityScope \<Rightarrow> bool" where
  "capability_scope_covers grant requested =
     (case (normalize_capability_scope grant, normalize_capability_scope requested) of
        (Inr g, Inr r) \<Rightarrow>
          if scope_effect g \<noteq> scope_effect r \<or> scope_kind g \<noteq> scope_kind r then False
          else if scope_kind g = ''filesystem.root'' then
            path_prefix (path_elements (scope_value g)) (path_elements (scope_value r))
          else if scope_kind g = ''spend.microunits'' then
            the (parse_microunits (scope_value g)) \<ge> the (parse_microunits (scope_value r))
          else scope_value g = scope_value r
      | _ \<Rightarrow> False)"

fun normalize_each :: "CapabilityScope list \<Rightarrow> ToolPolicyError + CapabilityScope list" where
  "normalize_each [] = Inr []"
| "normalize_each (s # ss) =
     bind_result (normalize_capability_scope s) (\<lambda>n.
     bind_result (normalize_each ss) (\<lambda>ns. Inr (n # ns)))"

definition normalize_scopes :: "CapabilityScope list \<Rightarrow> ToolPolicyError + CapabilityScope list" where
  "normalize_scopes scopes =
     bind_result (normalize_each scopes) (\<lambda>result.
     fail_if (\<not> distinct result) (policy_error Policy_invalid_request) (Inr result))"

definition effects_cover :: "Effect list \<Rightarrow> Effect list \<Rightarrow> bool" where
  "effects_cover grants requested \<longleftrightarrow> list_all (\<lambda>e. e \<in> set grants) requested"

definition scopes_cover :: "CapabilityScope list \<Rightarrow> CapabilityScope list \<Rightarrow> bool" where
  "scopes_cover grants requested \<longleftrightarrow>
     list_all (\<lambda>s. list_ex (\<lambda>g. capability_scope_covers g s) grants) requested"

definition intersect_capability_scopes ::
  "CapabilityScope list \<Rightarrow> CapabilityScope list \<Rightarrow> ToolPolicyError + CapabilityScope list" where
  "intersect_capability_scopes parent requested =
     bind_result (normalize_scopes parent) (\<lambda>normalized_parent.
     bind_result (normalize_scopes requested) (\<lambda>normalized_requested.
     fail_if (\<not> scopes_cover normalized_parent normalized_requested)
       (policy_error Policy_scope_widening) (Inr normalized_requested)))"

section \<open>Requests, grants and the two policies\<close>

definition valid_request :: "ToolPolicyRequest \<Rightarrow> ToolPolicyError + ToolPolicyRequest" where
  "valid_request request =
     fail_if (tpr_tool_name request = [] \<or> length (tpr_tool_name request) > 128 \<or>
              contains_control (tpr_tool_name request) \<or> \<not> distinct (tpr_effects request))
       (policy_error Policy_invalid_request)
    (bind_result (normalize_scopes (tpr_scopes request)) (\<lambda>scopes.
     fail_if (list_ex (\<lambda>s. scope_effect s \<notin> set (tpr_effects request)) scopes)
       (policy_error Policy_invalid_request)
       (Inr (request\<lparr>tpr_scopes := scopes\<rparr>))))"

definition grant_covers :: "SavedPolicyGrant \<Rightarrow> ToolPolicyRequest \<Rightarrow> bool" where
  "grant_covers grant request \<longleftrightarrow>
     spg_permission_profile_id grant = tpr_permission_profile_id request \<and>
     spg_tool_name grant = tpr_tool_name request \<and>
     effects_cover (spg_effects grant) (tpr_effects request) \<and>
     scopes_cover (spg_scopes grant) (tpr_scopes request)"

definition valid_saved_grant :: "SavedPolicyGrant \<Rightarrow> PermissionProfileId \<Rightarrow> bool" where
  "valid_saved_grant grant pid =
     (if spg_permission_profile_id grant \<noteq> pid \<or> spg_tool_name grant = [] \<or>
         length (spg_tool_name grant) > 128 \<or> contains_control (spg_tool_name grant) \<or>
         \<not> distinct (spg_effects grant) then False
      else case normalize_scopes (spg_scopes grant) of
          Inl _ \<Rightarrow> False
        | Inr scopes \<Rightarrow> list_all (\<lambda>s. scope_effect s \<in> set (spg_effects grant)) scopes)"

definition DefaultPolicy_evaluate :: "ToolPolicyRequest \<Rightarrow> ToolPolicyError + ToolPolicyResolution" where
  "DefaultPolicy_evaluate request =
     bind_result (valid_request request) (\<lambda>validated.
     if tpr_effects validated = [] \<and> tpr_scopes validated = []
     then Inr \<lparr>res_decision = Decision_allow, res_scopes = [], res_source = Source_fallback\<rparr>
     else Inr \<lparr>res_decision = Decision_deny, res_scopes = [], res_source = Source_fallback\<rparr>)"

definition DefaultPolicy_approve ::
  "ToolPolicyRequest \<Rightarrow> ToolPolicyApproval \<Rightarrow> ToolPolicyError + ToolPolicyResolution" where
  "DefaultPolicy_approve request approval = Inl (policy_error Policy_scope_widening)"

definition allow_from :: "ToolPolicyRequest \<Rightarrow> PolicyDecisionSource \<Rightarrow> ToolPolicyResolution" where
  "allow_from validated source =
     \<lparr>res_decision = Decision_allow, res_scopes = tpr_scopes validated, res_source = source\<rparr>"

text \<open>The last two returns of \<open>evaluate\<close>, once no grant applies.\<close>

definition decide_without_grant ::
  "PermissionProfile \<Rightarrow> CapabilityScope list \<Rightarrow> ToolPolicyRequest \<Rightarrow> ToolPolicyResolution" where
  "decide_without_grant p bound validated =
     (if effects_cover (approvable_effects p) (tpr_effects validated) \<and>
         scopes_cover bound (tpr_scopes validated)
      then \<lparr>res_decision = Decision_require_approval, res_scopes = tpr_scopes validated,
            res_source = Source_permission_profile\<rparr>
      else \<lparr>res_decision = Decision_deny, res_scopes = [], res_source = Source_permission_profile\<rparr>)"

text \<open>The body of \<open>evaluate\<close> once the request and the profile are valid.\<close>

definition decide_with_grants ::
  "CapabilityPolicy \<Rightarrow> PolicyGrantStore option \<Rightarrow> CapabilityScope list \<Rightarrow> CapabilityScope list
    \<Rightarrow> ToolPolicyRequest \<Rightarrow> ToolPolicyError + ToolPolicyResolution" where
  "decide_with_grants pol store automatic bound validated =
     (let p = cp_profile pol in
      if effects_cover (automatic_effects p) (tpr_effects validated) \<and>
         scopes_cover automatic (tpr_scopes validated)
      then Inr (allow_from validated Source_permission_profile)
      else if list_ex (\<lambda>g. grant_covers g validated)
                (map sg_grant (filter (\<lambda>g. sg_session_id g = tpr_session_id validated)
                   (cp_session_grants pol)))
      then Inr (allow_from validated Source_session_grant)
      else case store of
          None \<Rightarrow> Inr (decide_without_grant p bound validated)
        | Some st \<Rightarrow>
            (case load_grants st (profile_id p) of
               Inl retry \<Rightarrow> Inl \<lparr>tpe_code = Policy_persistence_failure, tpe_retryable = retry\<rparr>
             | Inr saved \<Rightarrow>
                 fail_if (list_ex (\<lambda>g. \<not> valid_saved_grant g (profile_id p)) saved)
                   (policy_error Policy_persistence_failure)
                (if list_ex (\<lambda>g. grant_covers g validated \<and>
                      effects_cover (approvable_effects p) (spg_effects g) \<and>
                      scopes_cover bound (spg_scopes g)) saved
                 then Inr (allow_from validated Source_saved_grant)
                 else Inr (decide_without_grant p bound validated))))"

definition CapabilityPolicy_evaluate ::
  "CapabilityPolicy \<Rightarrow> PolicyGrantStore option \<Rightarrow> ToolPolicyRequest
    \<Rightarrow> ToolPolicyError + ToolPolicyResolution" where
  "CapabilityPolicy_evaluate pol store request =
     (let p = cp_profile pol in
      bind_result (valid_request request) (\<lambda>validated.
      fail_if (tpr_permission_profile_id validated \<noteq> profile_id p \<or>
               \<not> distinct (automatic_effects p) \<or> \<not> distinct (approvable_effects p))
        (policy_error Policy_invalid_profile)
     (case (normalize_scopes (automatic_scopes p), normalize_scopes (approval_ceiling p)) of
        (Inr automatic, Inr bound) \<Rightarrow>
          fail_if (list_ex (\<lambda>s. scope_effect s \<notin> set (automatic_effects p)) automatic \<or>
                   list_ex (\<lambda>s. scope_effect s \<notin> set (approvable_effects p)) bound)
            (policy_error Policy_invalid_profile)
            (decide_with_grants pol store automatic bound validated)
      | _ \<Rightarrow> Inl (policy_error Policy_invalid_profile))))"

text \<open>Where an approval is kept: nowhere, in the policy object, or in the store.\<close>

definition record_grant ::
  "CapabilityPolicy \<Rightarrow> PolicyGrantStore option \<Rightarrow> SessionId \<Rightarrow> SavedPolicyGrant
    \<Rightarrow> ApprovalGrantLifetime \<Rightarrow> ToolPolicyError + CapabilityPolicy" where
  "record_grant pol store session grant lifetime =
     (case lifetime of
        Lifetime_session \<Rightarrow>
          Inr (pol\<lparr>cp_session_grants := cp_session_grants pol @
                 [\<lparr>sg_session_id = session, sg_grant = grant\<rparr>]\<rparr>)
      | Lifetime_saved \<Rightarrow>
          (case store of
             None \<Rightarrow> Inl (policy_error Policy_persistence_failure)
           | Some st \<Rightarrow>
               (case save_grant st grant of
                  Inl retry \<Rightarrow> Inl \<lparr>tpe_code = Policy_persistence_failure, tpe_retryable = retry\<rparr>
                | Inr _ \<Rightarrow> Inr pol))
      | Lifetime_invocation \<Rightarrow> Inr pol)"

definition CapabilityPolicy_approve ::
  "CapabilityPolicy \<Rightarrow> PolicyGrantStore option \<Rightarrow> ToolPolicyRequest \<Rightarrow> ToolPolicyApproval
    \<Rightarrow> ToolPolicyError + ToolPolicyResolution \<times> CapabilityPolicy" where
  "CapabilityPolicy_approve pol store request approval =
     (let p = cp_profile pol in
      bind_result (valid_request request) (\<lambda>validated.
      fail_if (tpr_permission_profile_id validated \<noteq> profile_id p) (policy_error Policy_invalid_profile)
     (case (normalize_scopes (granted_scopes approval), normalize_scopes (approval_ceiling p)) of
        (Inr granted, Inr bound) \<Rightarrow>
          fail_if (\<not> effects_cover (approvable_effects p) (tpr_effects validated) \<or>
                   \<not> scopes_cover bound granted \<or>
                   \<not> scopes_cover granted (tpr_scopes validated) \<or>
                   \<not> scopes_cover (tpr_scopes validated) granted) (policy_error Policy_scope_widening)
         (let grant = \<lparr>spg_permission_profile_id = tpr_permission_profile_id validated,
                       spg_tool_name = tpr_tool_name validated,
                       spg_effects = tpr_effects validated, spg_scopes = granted\<rparr>
          in bind_result (record_grant pol store (tpr_session_id validated) grant (grant_lifetime approval))
            (\<lambda>pol'. Inr (\<lparr>res_decision = Decision_allow, res_scopes = granted,
                          res_source = Source_user_approval\<rparr>, pol')))
      | _ \<Rightarrow> Inl (policy_error Policy_invalid_request))))"

section \<open>Coverage is a preorder\<close>

text \<open>
  What the policy relies on: a grant that covers a grant that covers a request covers the request.
  The lists of scopes inherit the law.
\<close>

locale cover_order =
  fixes valid :: "'s \<Rightarrow> bool" and covers :: "'s \<Rightarrow> 's \<Rightarrow> bool"
  assumes covers_refl: "valid s \<Longrightarrow> covers s s"
    and covers_trans: "covers a b \<Longrightarrow> covers b c \<Longrightarrow> covers a c"
begin

definition all_covered :: "'s list \<Rightarrow> 's list \<Rightarrow> bool" where
  "all_covered grants requested \<longleftrightarrow> list_all (\<lambda>s. list_ex (\<lambda>g. covers g s) grants) requested"

lemma all_covered_refl: "list_all valid ss \<Longrightarrow> all_covered ss ss"
  by (auto simp: all_covered_def list_all_iff list_ex_iff intro: covers_refl)

lemma all_covered_trans: "all_covered as bs \<Longrightarrow> all_covered bs cs \<Longrightarrow> all_covered as cs"
  unfolding all_covered_def list_all_iff list_ex_iff by (meson covers_trans)

end

lemma path_prefix_refl: "path_prefix xs xs"
  by (induction xs) auto

lemma path_prefix_iff: "path_prefix ps cs \<longleftrightarrow> (\<exists>rest. cs = ps @ rest)"
  by (induction ps cs rule: path_prefix.induct) auto

lemma path_prefix_trans: "path_prefix as bs \<Longrightarrow> path_prefix bs cs \<Longrightarrow> path_prefix as cs"
  by (auto simp: path_prefix_iff)

interpretation scope_cover: cover_order
  "\<lambda>s. ok (normalize_capability_scope s)" capability_scope_covers
proof
  show "capability_scope_covers s s" if "ok (normalize_capability_scope s)" for s
    using that by (cases "normalize_capability_scope s")
      (auto simp: capability_scope_covers_def path_prefix_refl)
  show "capability_scope_covers a c" if "capability_scope_covers a b" "capability_scope_covers b c" for a b c
    using that by (auto simp: capability_scope_covers_def split: sum.splits if_splits
        intro: path_prefix_trans order.trans)
qed

lemma scopes_cover_eq: "scopes_cover = scope_cover.all_covered"
  by (intro ext) (simp add: scopes_cover_def scope_cover.all_covered_def)

lemma scopes_cover_trans: "scopes_cover as bs \<Longrightarrow> scopes_cover bs cs \<Longrightarrow> scopes_cover as cs"
  unfolding scopes_cover_eq by (rule scope_cover.all_covered_trans)

lemma effects_cover_trans: "effects_cover as bs \<Longrightarrow> effects_cover bs cs \<Longrightarrow> effects_cover as cs"
  by (auto simp: effects_cover_def list_all_iff)

text \<open>Normalization is idempotent, so a normalized scope is its own normal form.\<close>

lemma normalize_path_idem: "normalize_path v = Inr w \<Longrightarrow> w = v"
  by (auto simp: normalize_path_def Let_def)

lemma tolower_alpha:
  "byte (tolower c) = (if 65 \<le> byte c \<and> byte c \<le> 90 then byte c + 32 else byte c)"
  by (simp add: tolower_def byte_def of_char_of)

lemma tolower_idem: "tolower (tolower c) = tolower c"
proof -
  have "\<not> (65 \<le> byte (tolower c) \<and> byte (tolower c) \<le> 90)" by (simp add: tolower_alpha)
  then show ?thesis by (subst tolower_def) (auto simp: byte_def)
qed

lemma normalize_host_idem:
  assumes "normalize_host v = Inr w"
  shows "normalize_host w = Inr w"
proof -
  from assms have w: "w = map tolower v" and v: "v \<noteq> []" "length v \<le> 253"
    and chars: "\<forall>c \<in> set w. ascii_alpha c \<or> ascii_digit c \<or> c = CHR ''.'' \<or> c = CHR ''-'' \<or>
                 c = CHR '':'' \<or> c = CHR ''['' \<or> c = CHR '']''"
    and edge: "hd v \<noteq> CHR ''.''" "last v \<noteq> CHR ''.''"
    by (auto simp: normalize_host_def Let_def list_ex_iff)
  have low: "tolower c = CHR ''.'' \<longleftrightarrow> c = CHR ''.''" for c
  proof -
    have "byte (tolower c) = 46 \<longleftrightarrow> byte c = 46" by (auto simp: tolower_alpha)
    moreover have "byte CHR ''.'' = 46" by (simp add: byte_def)
    ultimately show ?thesis by (metis byte_inject)
  qed
  have "w \<noteq> []" "length w \<le> 253" using w v by auto
  moreover have "hd w \<noteq> CHR ''.''" "last w \<noteq> CHR ''.''"
    using w v edge low by (auto simp: hd_map last_map)
  moreover have "\<not> contains_control w" "CHR ''/'' \<notin> set w" "CHR ''@'' \<notin> set w" "CHR ''*'' \<notin> set w"
    using chars by (auto simp: contains_control_def list_ex_iff ascii_alpha_def ascii_digit_def byte_def)
  moreover have "map tolower w = w" unfolding w by (simp add: tolower_idem)
  ultimately show ?thesis using chars by (auto simp: normalize_host_def Let_def list_ex_iff)
qed

lemma normalize_scope_value_idem:
  assumes "normalize_scope_value kind v = Inr w"
  shows "normalize_scope_value kind w = Inr w"
proof (cases "kind = ''network.host''")
  case True
  with assms show ?thesis by (simp add: normalize_scope_value_def normalize_host_idem)
next
  case False
  with assms have "w = v"
    by (auto simp: normalize_scope_value_def normalize_exact_def dest: normalize_path_idem split: if_splits)
  with assms show ?thesis by simp
qed

lemma normalize_capability_scope_idem:
  assumes "normalize_capability_scope s = Inr n"
  shows "normalize_capability_scope n = Inr n"
proof -
  define kind where "kind = (if scope_kind s = ''root'' then ''filesystem.root'' else scope_kind s)"
  obtain w where w: "normalize_scope_value kind (scope_value s) = Inr w"
    and n: "n = s\<lparr>scope_kind := kind, scope_value := w\<rparr>" and eff: "effect_allowed_for_kind (scope_effect s) kind"
    using assms by (auto simp: normalize_capability_scope_def Let_def kind_def)
  have "kind \<noteq> ''root''" by (simp add: kind_def)
  with normalize_scope_value_idem [OF w] eff show ?thesis
    by (simp add: normalize_capability_scope_def n)
qed

section \<open>Allowed requests stay within the profile\<close>

text \<open>The authority a profile can ever give: its automatic part, or what a user may approve.\<close>

definition within_profile :: "PermissionProfile \<Rightarrow> ToolPolicyRequest \<Rightarrow> bool" where
  "within_profile p validated =
     (case (normalize_scopes (automatic_scopes p), normalize_scopes (approval_ceiling p)) of
        (Inr automatic, Inr bound) \<Rightarrow>
          effects_cover (automatic_effects p) (tpr_effects validated) \<and>
            scopes_cover automatic (tpr_scopes validated) \<or>
          effects_cover (approvable_effects p) (tpr_effects validated) \<and>
            scopes_cover bound (tpr_scopes validated)
      | _ \<Rightarrow> False)"

text \<open>The invariant of a policy: its session grants lie below the approval ceiling.\<close>

definition policy_ok :: "CapabilityPolicy \<Rightarrow> bool" where
  "policy_ok pol \<longleftrightarrow>
     (\<forall>g \<in> set (cp_session_grants pol).
        effects_cover (approvable_effects (cp_profile pol)) (spg_effects (sg_grant g)) \<and>
        (\<exists>bound. normalize_scopes (approval_ceiling (cp_profile pol)) = Inr bound \<and>
           scopes_cover bound (spg_scopes (sg_grant g))))"

text \<open>The states a policy object goes through: construction, then successful approvals.\<close>

inductive policy_reachable :: "PermissionProfile \<Rightarrow> CapabilityPolicy \<Rightarrow> bool" for p where
  policy_constructed: "policy_reachable p \<lparr>cp_profile = p, cp_session_grants = []\<rparr>"
| policy_approved: "policy_reachable p pol \<Longrightarrow>
    CapabilityPolicy_approve pol store request approval = Inr (resolution, pol') \<Longrightarrow>
    policy_reachable p pol'"

lemma record_grant_grants:
  assumes "record_grant pol store session grant lifetime = Inr pol'"
  shows "cp_profile pol' = cp_profile pol \<and>
    set (cp_session_grants pol') \<subseteq> set (cp_session_grants pol) \<union> {\<lparr>sg_session_id = session, sg_grant = grant\<rparr>}"
  using assms by (cases lifetime) (auto simp: record_grant_def split: option.splits sum.splits)

lemma approve_session_grants:
  assumes "CapabilityPolicy_approve pol store request approval = Inr (resolution, pol')"
  obtains validated granted bound where
    "valid_request request = Inr validated"
    "normalize_scopes (granted_scopes approval) = Inr granted"
    "normalize_scopes (approval_ceiling (cp_profile pol)) = Inr bound"
    "effects_cover (approvable_effects (cp_profile pol)) (tpr_effects validated)"
    "scopes_cover bound granted" "scopes_cover granted (tpr_scopes validated)"
    "scopes_cover (tpr_scopes validated) granted"
    "res_decision resolution = Decision_allow" "res_scopes resolution = granted"
    "cp_profile pol' = cp_profile pol"
    "set (cp_session_grants pol') \<subseteq> set (cp_session_grants pol) \<union>
      {\<lparr>sg_session_id = tpr_session_id validated,
        sg_grant = \<lparr>spg_permission_profile_id = tpr_permission_profile_id validated,
                    spg_tool_name = tpr_tool_name validated,
                    spg_effects = tpr_effects validated, spg_scopes = granted\<rparr>\<rparr>}"
  using assms
  by (cases "normalize_scopes (granted_scopes approval)";
      cases "normalize_scopes (approval_ceiling (cp_profile pol))")
    (auto simp: CapabilityPolicy_approve_def Let_def dest!: record_grant_grants)

lemma policy_reachable_ok: "policy_reachable p pol \<Longrightarrow> cp_profile pol = p \<and> policy_ok pol"
proof (induction rule: policy_reachable.induct)
  case policy_constructed
  then show ?case by (simp add: policy_ok_def)
next
  case (policy_approved pol store request approval resolution pol')
  from policy_approved.hyps(2) show ?case
    by (rule approve_session_grants) (use policy_approved.IH in \<open>auto simp: policy_ok_def\<close>)
qed

lemma session_grant_within_ceiling:
  assumes "policy_ok pol" and "g \<in> set (cp_session_grants pol)" and "grant_covers (sg_grant g) validated"
    and "normalize_scopes (approval_ceiling (cp_profile pol)) = Inr bound"
  shows "effects_cover (approvable_effects (cp_profile pol)) (tpr_effects validated) \<and>
    scopes_cover bound (tpr_scopes validated)"
  using assms unfolding policy_ok_def grant_covers_def
  by (metis effects_cover_trans scopes_cover_trans sum.inject(2))

lemma decide_with_grants_within:
  assumes "policy_ok pol" and "normalize_scopes (approval_ceiling (cp_profile pol)) = Inr bound"
    and "decide_with_grants pol store automatic bound validated = Inr resolution"
    and "res_decision resolution \<noteq> Decision_deny"
  shows "res_scopes resolution = tpr_scopes validated \<and>
    (effects_cover (automatic_effects (cp_profile pol)) (tpr_effects validated) \<and>
       scopes_cover automatic (tpr_scopes validated) \<or>
     effects_cover (approvable_effects (cp_profile pol)) (tpr_effects validated) \<and>
       scopes_cover bound (tpr_scopes validated))"
proof -
  note session = session_grant_within_ceiling [OF assms(1) _ _ assms(2)]
  have saved: "effects_cover (approvable_effects (cp_profile pol)) (tpr_effects validated) \<and>
      scopes_cover bound (tpr_scopes validated)"
    if "grant_covers g validated" "effects_cover (approvable_effects (cp_profile pol)) (spg_effects g)"
      "scopes_cover bound (spg_scopes g)" for g
    using that unfolding grant_covers_def by (blast intro: effects_cover_trans scopes_cover_trans)
  show ?thesis
    using assms(3,4) session saved
    by (auto simp: decide_with_grants_def Let_def allow_from_def decide_without_grant_def
        list_ex_iff split: if_splits option.splits sum.splits)
qed

lemma evaluate_allow_within:
  assumes "policy_ok pol" and "CapabilityPolicy_evaluate pol store request = Inr resolution"
    and "res_decision resolution \<noteq> Decision_deny"
  shows "\<exists>validated. valid_request request = Inr validated \<and>
    res_scopes resolution = tpr_scopes validated \<and> within_profile (cp_profile pol) validated"
proof -
  obtain validated automatic bound where "valid_request request = Inr validated"
    and n: "normalize_scopes (automatic_scopes (cp_profile pol)) = Inr automatic"
      "normalize_scopes (approval_ceiling (cp_profile pol)) = Inr bound"
      "decide_with_grants pol store automatic bound validated = Inr resolution"
    using assms(2)
    by (cases "normalize_scopes (automatic_scopes (cp_profile pol))";
        cases "normalize_scopes (approval_ceiling (cp_profile pol))")
      (auto simp: CapabilityPolicy_evaluate_def Let_def)
  then show ?thesis
    using decide_with_grants_within [OF assms(1) n(2,3) assms(3)] by (auto simp: within_profile_def)
qed

text \<open>
  C2: in every state a capability policy can reach through approvals, a request it allows or
  offers for approval is covered either by the automatic authority of the profile or by its
  approval ceiling, whatever grants were approved or saved before; the resolution returns exactly
  the normalized scopes of the request.
\<close>

theorem policy_never_exceeds_profile:
  assumes "policy_reachable p pol" and "CapabilityPolicy_evaluate pol store request = Inr resolution"
    and "res_decision resolution \<noteq> Decision_deny"
  shows "\<exists>validated. valid_request request = Inr validated \<and>
    res_scopes resolution = tpr_scopes validated \<and> within_profile p validated"
proof -
  have "cp_profile pol = p" "policy_ok pol" using policy_reachable_ok [OF assms(1)] by auto
  then show ?thesis using evaluate_allow_within [OF _ assms(2,3)] by blast
qed

text \<open>
  An approval never widens authority: the scopes it returns are the normalized granted ones,
  each covered by a scope the request asked for and by the approval ceiling, and none of the
  request's scopes is dropped.
\<close>

theorem approval_never_widens:
  assumes "CapabilityPolicy_approve pol store request approval = Inr (resolution, pol')"
  shows "\<exists>validated bound. valid_request request = Inr validated \<and>
    normalize_scopes (approval_ceiling (cp_profile pol)) = Inr bound \<and>
    scopes_cover bound (res_scopes resolution) \<and>
    scopes_cover (tpr_scopes validated) (res_scopes resolution) \<and>
    scopes_cover (res_scopes resolution) (tpr_scopes validated) \<and>
    effects_cover (approvable_effects (cp_profile pol)) (tpr_effects validated)"
  using assms by (rule approve_session_grants) blast

section \<open>A concrete policy\<close>

definition sample_profile :: PermissionProfile where
  "sample_profile =
     \<lparr>profile_id = Id ''p'', automatic_effects = [], automatic_scopes = [],
      approvable_effects = [Effect_read],
      approval_ceiling = [\<lparr>scope_effect = Effect_read, scope_kind = ''root'', scope_value = ''/w''\<rparr>]\<rparr>"

definition sample_tool_request :: ToolPolicyRequest where
  "sample_tool_request =
     \<lparr>tpr_session_id = Id ''s'', tpr_run_id = Id ''r'', tpr_invocation_id = Id ''i'',
      tpr_permission_profile_id = Id ''p'', tpr_tool_name = ''read'', tpr_effects = [Effect_read],
      tpr_scopes = [\<lparr>scope_effect = Effect_read, scope_kind = ''root'', scope_value = ''/w/a''\<rparr>]\<rparr>"

definition sample_approval :: ToolPolicyApproval where
  "sample_approval =
     \<lparr>granted_scopes = [\<lparr>scope_effect = Effect_read, scope_kind = ''filesystem.root'', scope_value = ''/w/a''\<rparr>],
      grant_lifetime = Lifetime_session\<rparr>"

definition sample_granted_policy :: CapabilityPolicy where
  "sample_granted_policy =
     \<lparr>cp_profile = sample_profile, cp_session_grants =
       [\<lparr>sg_session_id = Id ''s'', sg_grant = \<lparr>spg_permission_profile_id = Id ''p'', spg_tool_name = ''read'',
           spg_effects = [Effect_read], spg_scopes = granted_scopes sample_approval\<rparr>\<rparr>]\<rparr>"

lemma sample_approve:
  "CapabilityPolicy_approve \<lparr>cp_profile = sample_profile, cp_session_grants = []\<rparr> None
     sample_tool_request sample_approval
   = Inr (\<lparr>res_decision = Decision_allow, res_scopes = granted_scopes sample_approval,
          res_source = Source_user_approval\<rparr>, sample_granted_policy)"
  by code_simp

lemma sample_evaluate:
  "CapabilityPolicy_evaluate sample_granted_policy None sample_tool_request
   = Inr \<lparr>res_decision = Decision_allow, res_scopes = granted_scopes sample_approval,
          res_source = Source_session_grant\<rparr>"
  by code_simp

theorem policy_never_exceeds_profile_witness:
  "\<exists>validated. valid_request sample_tool_request = Inr validated \<and>
     granted_scopes sample_approval = tpr_scopes validated \<and> within_profile sample_profile validated"
  using policy_never_exceeds_profile
    [OF policy_approved [OF policy_constructed sample_approve] sample_evaluate] by simp

theorem approval_never_widens_witness:
  "\<exists>validated bound. valid_request sample_tool_request = Inr validated \<and>
    normalize_scopes (approval_ceiling sample_profile) = Inr bound \<and>
    scopes_cover bound (granted_scopes sample_approval) \<and>
    scopes_cover (tpr_scopes validated) (granted_scopes sample_approval) \<and>
    scopes_cover (granted_scopes sample_approval) (tpr_scopes validated) \<and>
    effects_cover (approvable_effects sample_profile) (tpr_effects validated)"
  using approval_never_widens [OF sample_approve] by simp

end
