(* ===== verification/ChildRun.thy ===== *)
theory ChildRun
  imports Plan ToolPolicy
begin

text \<open>
  Contracts between a plan and the child runs that execute its tasks:
  \<^verbatim>\<open>src/lib/child_run.cpp\<close> and \<^verbatim>\<open>include/aiforge/domain/child_run.hpp\<close>.
\<close>

record ChildRunBudget =
  maximum_inferences :: u32
  maximum_tool_invocations :: u32
  maximum_input_tokens :: u64
  maximum_output_tokens :: u64
  budget_timeout :: int

record ChildRunContextBinding =
  crc_parcel_id :: ContextParcelId
  crc_target_snapshot :: RepositorySnapshotIdentity
  crc_evidence_ids :: "EvidenceId list"
  crc_represented_bytes :: u64
  crc_estimated_tokens :: u64

record ChildRunDescriptor =
  crd_parent_run_id :: RunId
  crd_plan_id :: PlanId
  crd_revision_id :: PlanRevisionId
  crd_task_id :: PlanTaskId
  crd_context :: ChildRunContextBinding
  crd_budget :: ChildRunBudget
  crd_effects :: "Effect list"
  crd_capability_scopes :: "CapabilityScope list"
  crd_attempt :: u32
  crd_review_receipt_id :: "ReviewReceiptId option"

datatype SessionTaskOutcome =
    Outcome_completed | Outcome_failed | Outcome_cancelled | Outcome_timed_out
  | Outcome_budget_exhausted | Outcome_unavailable

record ChildRunConsumption =
  inference_count :: u32
  tool_invocation_count :: u32
  consumed_usage :: Usage

record SessionTaskResult =
  str_plan_id :: PlanId
  str_revision_id :: PlanRevisionId
  str_task_id :: PlanTaskId
  str_child_run_id :: RunId
  str_outcome :: SessionTaskOutcome
  str_consumption :: ChildRunConsumption
  str_evidence_ids :: "EvidenceId list"
  str_artifact_ids :: "ArtifactId list"
  str_error :: "DomainError option"

datatype ChildRunContractErrorCode =
    Child_invalid_descriptor | Child_invalid_context | Child_invalid_budget
  | Child_invalid_capabilities | Child_invalid_result | Child_resource_exhausted

definition child_valid_digest :: "ContentDigest \<Rightarrow> bool" where
  "child_valid_digest d \<longleftrightarrow>
     dg_algorithm d \<noteq> [] \<and> length (dg_algorithm d) \<le> 128 \<and>
     dg_value d \<noteq> [] \<and> length (dg_value d) \<le> 512 \<and>
     list_all (\<lambda>c. ascii_alpha c \<or> ascii_digit c \<or> c = CHR ''-'' \<or> c = CHR ''_'' \<or> c = CHR ''.'')
       (dg_algorithm d) \<and>
     list_all is_xdigit (dg_value d)"

definition valid_error :: "DomainError \<Rightarrow> bool" where
  "valid_error e \<longleftrightarrow> err_message e \<noteq> [] \<and> length (err_message e) \<le> 16 * 1024 \<and>
     \<not> list_ex (\<lambda>c. byte c = 0 \<or> byte c = 0x7f) (err_message e)"

definition valid_budget :: "ChildRunDescriptor \<Rightarrow> bool" where
  "valid_budget d \<longleftrightarrow>
     (let budget = crd_budget d in
      \<not> (crd_attempt d = 0 \<or> crd_attempt d > 8 \<or>
         maximum_inferences budget = 0 \<or> maximum_inferences budget > 256 \<or>
         maximum_tool_invocations budget > 4096 \<or>
         maximum_input_tokens budget = 0 \<or> maximum_input_tokens budget > 16 * 1024 * 1024 \<or>
         maximum_output_tokens budget = 0 \<or> maximum_output_tokens budget > 16 * 1024 * 1024 \<or>
         budget_timeout budget \<le> 0 \<or> budget_timeout budget > 24 * 60 * 60 * 1000))"

definition valid_context :: "ChildRunDescriptor \<Rightarrow> bool" where
  "valid_context d \<longleftrightarrow>
     (let context = crd_context d in
      \<not> (\<not> child_valid_digest (rsi_fingerprint (crc_target_snapshot context)) \<or>
         crc_evidence_ids context = [] \<or> length (crc_evidence_ids context) > 1024 \<or>
         \<not> distinct (crc_evidence_ids context) \<or> crc_represented_bytes context = 0 \<or>
         crc_represented_bytes context > 256 * 1024 * 1024 \<or>
         crc_estimated_tokens context = 0 \<or>
         crc_estimated_tokens context > maximum_input_tokens (crd_budget d)))"

definition validate_child_run_descriptor ::
  "ChildRunDescriptor \<Rightarrow> ChildRunContractErrorCode + unit" where
  "validate_child_run_descriptor d =
     fail_if (\<not> valid_budget d) Child_invalid_budget
    (fail_if (\<not> valid_context d) Child_invalid_context
    (fail_if (length (crd_effects d) > 16 \<or> length (crd_capability_scopes d) > 256 \<or>
              \<not> distinct (crd_effects d) \<or> \<not> distinct (crd_capability_scopes d))
       Child_invalid_capabilities
    (fail_if (list_ex (\<lambda>s. scope_effect s \<notin> set (crd_effects d) \<or> isl (normalize_capability_scope s))
                (crd_capability_scopes d)) Child_invalid_capabilities
    (Inr ()))))"

definition validate_session_task_result ::
  "SessionTaskResult \<Rightarrow> ChildRunBudget \<Rightarrow> ChildRunContractErrorCode + unit" where
  "validate_session_task_result r budget =
     fail_if (length (str_evidence_ids r) > 256 \<or> length (str_artifact_ids r) > 256 \<or>
              \<not> distinct (str_evidence_ids r) \<or> \<not> distinct (str_artifact_ids r) \<or>
              inference_count (str_consumption r) > maximum_inferences budget \<or>
              tool_invocation_count (str_consumption r) > maximum_tool_invocations budget \<or>
              input_tokens (consumed_usage (str_consumption r)) > maximum_input_tokens budget \<or>
              output_tokens (consumed_usage (str_consumption r)) > maximum_output_tokens budget)
       Child_invalid_result
    (fail_if ((str_outcome r = Outcome_completed) \<noteq> (str_error r = None) \<or>
              (case str_error r of None \<Rightarrow> False | Some e \<Rightarrow> \<not> valid_error e)) Child_invalid_result
    (Inr ()))"

end
