(* ===== verification/Memory.thy ===== *)
theory Memory
  imports ToolPolicy
begin

text \<open>
  Saved memories and their validation: \<^verbatim>\<open>include/aiforge/domain/memory.hpp\<close> and the validators of
  \<^verbatim>\<open>src/lib/memory.cpp\<close>.  A model proposes a memory, a policy or the user decides, and what is accepted
  becomes a record that later runs may see.  Text that looks like a credential is refused at the door.
\<close>

section \<open>Data\<close>

datatype MemoryOwnerKind = Owner_global | Owner_repository | Owner_persona | Owner_unknown

record MemoryOwner =
  mo_kind :: MemoryOwnerKind
  mo_repository_id :: "RepositoryId option"
  mo_persona_id :: "PersonaId option"

datatype MemoryKind =
  Memory_user_preference | Memory_project_convention | Memory_workflow | Memory_reusable_fact | Memory_unknown

datatype MemoryDecisionSource = MemorySource_user | MemorySource_policy

datatype MemoryPolicyAction = Action_stage | Action_accept | Action_reject

record MemoryProducer =
  mpd_model_id :: ModelId
  mpd_runtime_name :: string
  mpd_runtime_version :: string

record MemorySource =
  ms_session_id :: SessionId
  ms_run_id :: RunId
  ms_invocation_id :: InvocationId
  ms_event_ids :: "EventId list"

record MemoryProposal =
  mp_proposal_id :: MemoryProposalId
  mp_record_id :: MemoryRecordId
  mp_owner :: MemoryOwner
  mp_kind :: MemoryKind
  mp_content :: string
  mp_rationale :: string
  mp_evidence_excerpt :: string
  mp_source :: MemorySource
  mp_producer :: MemoryProducer
  mp_replacement_record_id :: "MemoryRecordId option"
  mp_overlap_record_ids :: "MemoryRecordId list"

record MemoryPolicyEvaluation =
  mpe_proposal_id :: MemoryProposalId
  mpe_action :: MemoryPolicyAction
  mpe_source :: MemoryDecisionSource
  mpe_reason :: string
  mpe_expected_proposal_event_id :: EventId

record MemoryRecord =
  mr_record_id :: MemoryRecordId
  mr_proposal_id :: MemoryProposalId
  mr_owner :: MemoryOwner
  mr_kind :: MemoryKind
  mr_content :: string
  mr_rationale :: string
  mr_source :: MemorySource
  mr_producer :: MemoryProducer

record MemorySelectionEntry =
  mse_journal_session_id :: SessionId
  mse_record_id :: MemoryRecordId
  mse_record_event_id :: EventId
  mse_owner :: MemoryOwner
  mse_source :: MemorySource
  mse_record_digest :: ContentDigest
  mse_evidence_digest :: ContentDigest
  mse_order :: u64
  mse_estimated_tokens :: u64

record MemorySelection =
  msl_version :: u32
  msl_repository_id :: "RepositoryId option"
  msl_persona_id :: "PersonaId option"
  msl_maximum_tokens :: u64
  msl_available_tokens :: u64
  msl_entries :: "MemorySelectionEntry list"
  msl_admission_digest :: "ContentDigest option"

record MemoryAcceptance =
  ma_record :: MemoryRecord
  ma_source :: MemoryDecisionSource
  ma_expected_proposal_event_id :: EventId

record MemoryEditedAcceptance =
  mea_acceptance :: MemoryAcceptance
  mea_replaced_record_id :: MemoryRecordId
  mea_expected_record_event_id :: EventId

record MemoryRejection =
  mrj_proposal_id :: MemoryProposalId
  mrj_source :: MemoryDecisionSource
  mrj_reason :: string
  mrj_expected_proposal_event_id :: EventId

record MemorySupersession =
  msp_record_id :: MemoryRecordId
  msp_replacement_record_id :: MemoryRecordId
  msp_source :: MemoryDecisionSource
  msp_expected_record_event_id :: EventId

record MemoryExpiry =
  mex_record_id :: MemoryRecordId
  mex_source :: MemoryDecisionSource
  mex_reason :: string
  mex_expected_record_event_id :: EventId

text \<open>The alternatives of the event variant that concern memories.\<close>

datatype MemoryEventPayload =
    MemoryProposed MemoryProposal
  | MemoryPolicyDecided MemoryPolicyEvaluation
  | MemoryAccepted MemoryAcceptance
  | MemoryEditedAndAccepted MemoryEditedAcceptance
  | MemoryRejected MemoryRejection
  | MemorySuperseded MemorySupersession
  | MemoryExpired MemoryExpiry

record MemoryLimits =
  ml_maximum_content_bytes :: nat
  ml_maximum_rationale_bytes :: nat
  ml_maximum_excerpt_bytes :: nat
  ml_maximum_source_events :: nat
  ml_maximum_relationships :: nat
  ml_maximum_records :: nat

definition default_memory_limits :: MemoryLimits where
  "default_memory_limits =
     \<lparr>ml_maximum_content_bytes = 16 * 1024, ml_maximum_rationale_bytes = 4 * 1024,
      ml_maximum_excerpt_bytes = 4 * 1024, ml_maximum_source_events = 256, ml_maximum_relationships = 64,
      ml_maximum_records = 4096\<rparr>"

datatype MemoryErrorCode =
    Memory_invalid_limits | Memory_invalid_record | Memory_secret_rejected | Memory_wrong_scope
  | Memory_duplicate_identity | Memory_duplicate_origin | Memory_invalid_transition | Memory_stale_state
  | Memory_non_monotonic_sequence | Memory_duplicate_event | Memory_resource_exhausted
  | Memory_internal_failure

section \<open>Validation\<close>

definition memory_valid_limits :: "MemoryLimits \<Rightarrow> bool" where
  "memory_valid_limits l \<longleftrightarrow>
     ml_maximum_content_bytes l \<noteq> 0 \<and> ml_maximum_rationale_bytes l \<noteq> 0 \<and> ml_maximum_excerpt_bytes l \<noteq> 0 \<and>
     ml_maximum_source_events l \<noteq> 0 \<and> ml_maximum_relationships l \<noteq> 0 \<and> ml_maximum_records l \<noteq> 0"

definition lower_ascii :: "string \<Rightarrow> string" where
  "lower_ascii v = map tolower v"

definition shaped_like_secret :: "string \<Rightarrow> bool" where
  "shaped_like_secret v =
     (let lower = lower_ascii v in
      if contains lower ''authorization:'' \<or> contains lower ''api_key='' \<or> contains lower ''api-key='' \<or>
         contains lower ''access_token='' \<or> contains lower ''private key-----'' then True
      else if (case text_find ''sk-'' lower of None \<Rightarrow> False | Some sk \<Rightarrow> length lower - sk \<ge> 12) then True
      else (case text_find ''bearer '' lower of None \<Rightarrow> False | Some bearer \<Rightarrow> length lower - bearer \<ge> 16))"

definition memory_text_is_safe :: "string \<Rightarrow> bool" where
  "memory_text_is_safe v =
     (if v = [] then False
      else \<not> list_ex (\<lambda>c. byte c = 0 \<or> byte c = 0x1b \<or> byte c = 0x7f \<or>
                 (byte c < 0x20 \<and> byte c \<noteq> 10 \<and> byte c \<noteq> 9)) v)"

definition memory_text_looks_secret :: "string \<Rightarrow> bool" where
  "memory_text_looks_secret v = shaped_like_secret v"

definition valid_producer :: "MemoryProducer \<Rightarrow> bool" where
  "valid_producer p \<longleftrightarrow>
     mpd_runtime_name p \<noteq> [] \<and> length (mpd_runtime_name p) \<le> 128 \<and>
     mpd_runtime_version p \<noteq> [] \<and> length (mpd_runtime_version p) \<le> 128 \<and>
     memory_text_is_safe (mpd_runtime_name p) \<and> memory_text_is_safe (mpd_runtime_version p)"

definition memory_valid_source :: "MemorySource \<Rightarrow> MemoryLimits \<Rightarrow> bool" where
  "memory_valid_source source l =
     (if ms_event_ids source = [] \<or> length (ms_event_ids source) > ml_maximum_source_events l then False
      else distinct (ms_event_ids source))"

definition MemoryOwner_global :: MemoryOwner where
  "MemoryOwner_global = \<lparr>mo_kind = Owner_global, mo_repository_id = None, mo_persona_id = None\<rparr>"

definition MemoryOwner_repository :: "RepositoryId \<Rightarrow> MemoryOwner" where
  "MemoryOwner_repository i = \<lparr>mo_kind = Owner_repository, mo_repository_id = Some i, mo_persona_id = None\<rparr>"

definition MemoryOwner_persona :: "PersonaId \<Rightarrow> MemoryOwner" where
  "MemoryOwner_persona i = \<lparr>mo_kind = Owner_persona, mo_repository_id = None, mo_persona_id = Some i\<rparr>"

definition validate_memory_owner :: "MemoryOwner \<Rightarrow> bool" where
  "validate_memory_owner owner \<longleftrightarrow>
     (mo_kind owner = Owner_global \<and> mo_repository_id owner = None \<and> mo_persona_id owner = None) \<or>
     (mo_kind owner = Owner_repository \<and> mo_repository_id owner \<noteq> None \<and> mo_persona_id owner = None) \<or>
     (mo_kind owner = Owner_persona \<and> mo_repository_id owner = None \<and> mo_persona_id owner \<noteq> None)"

definition validate_memory_proposal :: "MemoryProposal \<Rightarrow> MemoryLimits \<Rightarrow> MemoryErrorCode + unit" where
  "validate_memory_proposal p l =
     fail_if (\<not> memory_valid_limits l) Memory_invalid_limits
     (fail_if (\<not> validate_memory_owner (mp_owner p)) Memory_wrong_scope
     (fail_if (length (mp_content p) > ml_maximum_content_bytes l \<or>
               length (mp_rationale p) > ml_maximum_rationale_bytes l \<or>
               length (mp_evidence_excerpt p) > ml_maximum_excerpt_bytes l \<or>
               \<not> memory_text_is_safe (mp_content p) \<or> \<not> memory_text_is_safe (mp_rationale p) \<or>
               \<not> memory_text_is_safe (mp_evidence_excerpt p) \<or>
               \<not> memory_valid_source (mp_source p) l \<or> \<not> valid_producer (mp_producer p) \<or>
               length (mp_overlap_record_ids p) > ml_maximum_relationships l) Memory_invalid_record
     (fail_if (shaped_like_secret (mp_content p) \<or> shaped_like_secret (mp_rationale p) \<or>
               shaped_like_secret (mp_evidence_excerpt p)) Memory_secret_rejected
     (fail_if (\<not> distinct (mp_overlap_record_ids p) \<or> mp_record_id p \<in> set (mp_overlap_record_ids p) \<or>
               (case mp_replacement_record_id p of None \<Rightarrow> False
                | Some r \<Rightarrow> r = mp_record_id p \<or> r \<notin> set (mp_overlap_record_ids p))) Memory_invalid_record
     (Inr ())))))"

definition proposal_of_record :: "MemoryRecord \<Rightarrow> MemoryProposal" where
  "proposal_of_record r =
     \<lparr>mp_proposal_id = mr_proposal_id r, mp_record_id = mr_record_id r, mp_owner = mr_owner r, mp_kind = mr_kind r,
      mp_content = mr_content r, mp_rationale = mr_rationale r, mp_evidence_excerpt = ''accepted-memory-source'',
      mp_source = mr_source r, mp_producer = mr_producer r, mp_replacement_record_id = None,
      mp_overlap_record_ids = []\<rparr>"

definition validate_memory_record :: "MemoryRecord \<Rightarrow> MemoryLimits \<Rightarrow> MemoryErrorCode + unit" where
  "validate_memory_record r l = validate_memory_proposal (proposal_of_record r) l"

text \<open>The excerpt that stands for the source of an accepted record passes the filter for credentials.\<close>

lemma source_tag_not_secret: "\<not> shaped_like_secret ''accepted-memory-source''"
  by code_simp

end
