(* ===== verification/Review.thy ===== *)
theory Review
  imports Plan ToolPolicy
begin

text \<open>
  Review receipts and their validation: \<^verbatim>\<open>include/aiforge/domain/review_receipt.hpp\<close> and the
  validators of \<^verbatim>\<open>src/lib/review_receipt.cpp\<close> with its header.  A receipt binds a candidate revision to
  the evidence produced for it; reviewers open findings against it and give verdicts.
\<close>

section \<open>Data\<close>

datatype ReviewEvidenceKind = Review_verification | Review_scenario

record ReviewActor =
  ra_actor_id :: string
  ra_display_name :: string

record ReviewParticipantProvenance =
  rpp_actor :: ReviewActor
  rpp_run_id :: "RunId option"
  rpp_backend_id :: "string option"
  rpp_backend_version :: "string option"
  rpp_model_id :: "ModelId option"
  rpp_model_version :: "string option"

record ReviewCandidate =
  rc_snapshot :: RepositorySnapshotIdentity
  rc_revision :: string

record ReviewArtifactDigest =
  rad_artifact_id :: ArtifactId
  rad_digest :: ContentDigest

record ReviewEvidenceBinding =
  reb_requirement_id :: ReviewRequirementId
  reb_kind :: ReviewEvidenceKind
  reb_producer_name :: string
  reb_producer_version :: string
  reb_verification_evidence_id :: "VerificationEvidenceId option"
  reb_scenario_id :: "string option"
  reb_scenario_corpus_version :: "string option"
  reb_scenario_application_revision :: "string option"
  reb_scenario_fake_script_digest :: "ContentDigest option"
  reb_scenario_terminal_capabilities_digest :: "ContentDigest option"
  reb_result_digest :: ContentDigest
  reb_artifacts :: "ReviewArtifactDigest list"

record ReviewReceiptDraft =
  rd_receipt_id :: ReviewReceiptId
  rd_candidate :: ReviewCandidate
  rd_evidence :: "ReviewEvidenceBinding list"
  rd_author :: "ReviewParticipantProvenance option"

datatype ReviewFindingSeverity = Severity_low | Severity_medium | Severity_high | Severity_critical

record ReviewFinding =
  rf_finding_id :: ReviewFindingId
  rf_summary :: string
  rf_verification_evidence_id :: "VerificationEvidenceId option"
  rf_artifacts :: "ArtifactId list"
  rf_severity :: ReviewFindingSeverity
  rf_source :: "RepositorySourceIdentity option"
  rf_reproduction_evidence_ids :: "VerificationEvidenceId list"

datatype ReviewVerdict = Verdict_approved | Verdict_changes_requested | Verdict_rejected

record ReviewChildResult =
  rcr_receipt_id :: ReviewReceiptId
  rcr_candidate :: ReviewCandidate
  rcr_reviewer :: ReviewParticipantProvenance
  rcr_findings :: "ReviewFinding list"
  rcr_verdict :: ReviewVerdict

record ReviewOverride =
  ro_override_id :: ReviewOverrideId
  ro_receipt_id :: ReviewReceiptId
  ro_candidate :: ReviewCandidate
  ro_actor :: ReviewActor
  ro_reason :: string

text \<open>The alternatives of the event variant that concern reviews.\<close>

datatype ReviewEventPayload =
    ReviewReceiptDrafted ReviewReceiptDraft
  | ReviewRequested ReviewReceiptId ReviewActor
  | ReviewFindingOpened ReviewReceiptId ReviewFinding
  | ReviewFindingResolved ReviewReceiptId ReviewFindingId ReviewActor "string option"
  | ReviewVerdictRecorded ReviewReceiptId ReviewVerdict ReviewActor "ReviewParticipantProvenance option"
  | ReviewVerdictRevoked ReviewReceiptId EventId ReviewActor string
  | ReviewOverrideRecorded ReviewOverride
  | ReviewOverrideRevoked ReviewReceiptId ReviewOverrideId ReviewActor string

record ReviewReceiptLimits =
  rl_maximum_evidence :: nat
  rl_maximum_artifacts_per_evidence :: nat
  rl_maximum_findings :: nat
  rl_maximum_finding_artifacts :: nat
  rl_maximum_text_bytes :: nat
  rl_maximum_metadata_bytes :: nat

definition default_review_limits :: ReviewReceiptLimits where
  "default_review_limits =
     \<lparr>rl_maximum_evidence = 128, rl_maximum_artifacts_per_evidence = 128, rl_maximum_findings = 4096,
      rl_maximum_finding_artifacts = 64, rl_maximum_text_bytes = 16 * 1024, rl_maximum_metadata_bytes = 4096\<rparr>"

datatype ReviewReceiptErrorCode =
    Review_invalid_limits | Review_invalid_receipt | Review_invalid_candidate | Review_invalid_evidence
  | Review_invalid_actor | Review_invalid_finding | Review_duplicate_identity | Review_wrong_receipt
  | Review_invalid_transition | Review_unknown_finding | Review_unknown_verdict | Review_unknown_override
  | Review_invalid_envelope | Review_non_monotonic_sequence | Review_duplicate_event
  | Review_resource_exhausted | Review_internal_failure

section \<open>Text and digests\<close>

text \<open>\<^verbatim>\<open>valid_utf8_text\<close> is the scanner that validates plans, with an empty text allowed on request.\<close>

definition review_valid_utf8_text :: "string \<Rightarrow> bool \<Rightarrow> bool" where
  "review_valid_utf8_text v allow_empty = (if \<not> allow_empty \<and> v = [] then False else valid_utf8_from v 0)"

definition review_bounded_text :: "string \<Rightarrow> nat \<Rightarrow> bool" where
  "review_bounded_text v maximum \<longleftrightarrow> length v \<le> maximum \<and> review_valid_utf8_text v False"

definition review_bounded_identity :: "string \<Rightarrow> nat \<Rightarrow> bool" where
  "review_bounded_identity v maximum \<longleftrightarrow>
     review_bounded_text v maximum \<and> \<not> list_ex (\<lambda>c. byte c < 0x20 \<or> byte c = 0x7f) v"

definition review_valid_digest :: "ContentDigest \<Rightarrow> bool" where
  "review_valid_digest d \<longleftrightarrow>
     review_bounded_text (dg_algorithm d) 128 \<and> review_bounded_text (dg_value d) 512 \<and>
     list_all (\<lambda>c. ascii_alpha c \<or> ascii_digit c \<or> c = CHR ''-'' \<or> c = CHR ''_'' \<or> c = CHR ''.'') (dg_algorithm d) \<and>
     list_all is_xdigit (dg_value d)"

definition optional :: "('a \<Rightarrow> bool) \<Rightarrow> 'a option \<Rightarrow> bool" where
  "optional P v = (case v of None \<Rightarrow> True | Some x \<Rightarrow> P x)"

section \<open>Validation\<close>

definition valid_candidate :: "ReviewCandidate \<Rightarrow> ReviewReceiptLimits \<Rightarrow> bool" where
  "valid_candidate c l \<longleftrightarrow> review_valid_digest (rsi_fingerprint (rc_snapshot c)) \<and>
     review_bounded_identity (rc_revision c) (rl_maximum_metadata_bytes l)"

definition valid_actor :: "ReviewActor \<Rightarrow> ReviewReceiptLimits \<Rightarrow> bool" where
  "valid_actor a l \<longleftrightarrow> review_bounded_identity (ra_actor_id a) (rl_maximum_metadata_bytes l) \<and>
     review_bounded_identity (ra_display_name a) (rl_maximum_metadata_bytes l)"

definition review_valid_limits :: "ReviewReceiptLimits \<Rightarrow> bool" where
  "review_valid_limits l \<longleftrightarrow>
     (let maximums = default_review_limits in
      rl_maximum_evidence l > 0 \<and> rl_maximum_evidence l \<le> rl_maximum_evidence maximums \<and>
      rl_maximum_artifacts_per_evidence l > 0 \<and>
      rl_maximum_artifacts_per_evidence l \<le> rl_maximum_artifacts_per_evidence maximums \<and>
      rl_maximum_findings l > 0 \<and> rl_maximum_findings l \<le> rl_maximum_findings maximums \<and>
      rl_maximum_finding_artifacts l > 0 \<and>
      rl_maximum_finding_artifacts l \<le> rl_maximum_finding_artifacts maximums \<and>
      rl_maximum_text_bytes l > 0 \<and> rl_maximum_text_bytes l \<le> rl_maximum_text_bytes maximums \<and>
      rl_maximum_metadata_bytes l > 0 \<and> rl_maximum_metadata_bytes l \<le> rl_maximum_metadata_bytes maximums)"

definition valid_participant :: "ReviewParticipantProvenance \<Rightarrow> ReviewReceiptLimits \<Rightarrow> bool" where
  "valid_participant p l =
     (if \<not> valid_actor (rpp_actor p) l then False
      else let model_authored = rpp_model_id p \<noteq> None in
        if model_authored \<noteq> (rpp_run_id p \<noteq> None) \<or> model_authored \<noteq> (rpp_backend_id p \<noteq> None) \<or>
           model_authored \<noteq> (rpp_model_version p \<noteq> None) then False
        else optional (\<lambda>v. review_bounded_identity v (rl_maximum_metadata_bytes l)) (rpp_backend_id p) \<and>
          optional (\<lambda>v. review_bounded_identity v (rl_maximum_metadata_bytes l)) (rpp_backend_version p) \<and>
          optional (\<lambda>v. review_bounded_identity v (rl_maximum_metadata_bytes l)) (rpp_model_version p))"

text \<open>The parts of a relative path up to the last separator and what follows it, if anything does.\<close>

fun source_path_parts :: "string \<Rightarrow> bool" where
  "source_path_parts v =
     (if v = [] then True
      else case text_find ''/'' v of
        None \<Rightarrow> v \<noteq> ''.'' \<and> v \<noteq> ''..''
      | Some stop \<Rightarrow>
          (let part = take stop v in
           if part = [] \<or> part = ''.'' \<or> part = ''..'' then False
           else source_path_parts (drop (stop + 1) v)))"

declare source_path_parts.simps [simp del]

definition review_valid_source :: "RepositorySourceIdentity \<Rightarrow> ReviewReceiptLimits \<Rightarrow> bool" where
  "review_valid_source s l =
     (if \<not> review_valid_digest (rsi_fingerprint (rso_snapshot s)) \<or> \<not> review_valid_digest (rso_content_digest s) \<or>
         \<not> review_bounded_identity (rso_relative_path s) (rl_maximum_metadata_bytes l) \<or>
         hd (rso_relative_path s) = CHR ''/'' \<or> CHR 0x5C \<in> set (rso_relative_path s) then False
      else if \<not> source_path_parts (rso_relative_path s) then False
      else optional (\<lambda>r. range_begin r < range_end r) (rso_range s))"

definition identity_matches_kind :: "ReviewEvidenceBinding \<Rightarrow> ReviewReceiptLimits \<Rightarrow> bool" where
  "identity_matches_kind b l \<longleftrightarrow>
     (let verification = reb_kind b = Review_verification;
          identity = (\<lambda>v. review_bounded_identity v (rl_maximum_metadata_bytes l)) in
      verification = (reb_verification_evidence_id b \<noteq> None) \<and> verification \<noteq> (reb_scenario_id b \<noteq> None) \<and>
      verification \<noteq> (reb_scenario_corpus_version b \<noteq> None) \<and>
      verification \<noteq> (reb_scenario_application_revision b \<noteq> None) \<and>
      verification \<noteq> (reb_scenario_fake_script_digest b \<noteq> None) \<and>
      verification \<noteq> (reb_scenario_terminal_capabilities_digest b \<noteq> None) \<and>
      optional identity (reb_scenario_id b) \<and> optional identity (reb_scenario_corpus_version b) \<and>
      optional identity (reb_scenario_application_revision b) \<and>
      optional review_valid_digest (reb_scenario_fake_script_digest b) \<and>
      optional review_valid_digest (reb_scenario_terminal_capabilities_digest b))"

definition validate_review_evidence_binding ::
  "ReviewEvidenceBinding \<Rightarrow> ReviewReceiptLimits \<Rightarrow> ReviewReceiptErrorCode + unit" where
  "validate_review_evidence_binding b l =
     fail_if (\<not> review_valid_limits l) Review_invalid_limits
     (fail_if (\<not> review_bounded_identity (reb_producer_name b) (rl_maximum_metadata_bytes l) \<or>
               \<not> review_bounded_identity (reb_producer_version b) (rl_maximum_metadata_bytes l) \<or>
               \<not> review_valid_digest (reb_result_digest b) \<or>
               length (reb_artifacts b) > rl_maximum_artifacts_per_evidence l) Review_invalid_evidence
     (fail_if (\<not> identity_matches_kind b l) Review_invalid_evidence
     (fail_if (list_ex (\<lambda>a. \<not> review_valid_digest (rad_digest a)) (reb_artifacts b)) Review_invalid_evidence
     (fail_if (\<not> distinct (map rad_artifact_id (reb_artifacts b))) Review_duplicate_identity
     (Inr ())))))"

definition validate_review_candidate ::
  "ReviewCandidate \<Rightarrow> ReviewReceiptLimits \<Rightarrow> ReviewReceiptErrorCode + unit" where
  "validate_review_candidate c l =
     fail_if (\<not> review_valid_limits l) Review_invalid_limits
     (fail_if (\<not> valid_candidate c l) Review_invalid_candidate (Inr ()))"

definition validate_review_actor :: "ReviewActor \<Rightarrow> ReviewReceiptLimits \<Rightarrow> ReviewReceiptErrorCode + unit" where
  "validate_review_actor a l =
     fail_if (\<not> review_valid_limits l) Review_invalid_limits
     (fail_if (\<not> valid_actor a l) Review_invalid_actor (Inr ()))"

definition validate_review_participant_provenance ::
  "ReviewParticipantProvenance \<Rightarrow> ReviewReceiptLimits \<Rightarrow> ReviewReceiptErrorCode + unit" where
  "validate_review_participant_provenance p l =
     fail_if (\<not> review_valid_limits l) Review_invalid_limits
     (fail_if (\<not> valid_participant p l) Review_invalid_actor (Inr ()))"

definition validate_review_finding :: "ReviewFinding \<Rightarrow> ReviewReceiptLimits \<Rightarrow> ReviewReceiptErrorCode + unit" where
  "validate_review_finding f l =
     fail_if (\<not> review_valid_limits l) Review_invalid_limits
     (fail_if (\<not> review_bounded_text (rf_summary f) (rl_maximum_text_bytes l) \<or>
               length (rf_artifacts f) > rl_maximum_finding_artifacts l \<or> \<not> distinct (rf_artifacts f) \<or>
               \<not> optional (\<lambda>s. review_valid_source s l) (rf_source f) \<or>
               length (rf_reproduction_evidence_ids f) > rl_maximum_evidence l \<or>
               \<not> distinct (rf_reproduction_evidence_ids f)) Review_invalid_finding
     (Inr ()))"

definition known_verification :: "ReviewReceiptDraft \<Rightarrow> VerificationEvidenceId \<Rightarrow> bool" where
  "known_verification draft i \<longleftrightarrow> list_ex (\<lambda>e. reb_verification_evidence_id e = Some i) (rd_evidence draft)"

fun check_child_findings ::
  "ReviewChildResult \<Rightarrow> ReviewReceiptDraft \<Rightarrow> ArtifactId list \<Rightarrow> ReviewReceiptLimits \<Rightarrow> ReviewFinding list \<Rightarrow>
   ReviewReceiptErrorCode + unit" where
  "check_child_findings result draft returned_artifacts l [] = Inr ()"
| "check_child_findings result draft returned_artifacts l (f # fs) =
     bind_result (validate_review_finding f l) (\<lambda>_.
     fail_if ((rf_source f = None \<and> rf_verification_evidence_id f = None \<and>
               rf_reproduction_evidence_ids f = [] \<and> rf_artifacts f = []) \<or>
              \<not> optional (\<lambda>s. same_source_state (rso_snapshot s) (rc_snapshot (rcr_candidate result))) (rf_source f) \<or>
              list_ex (\<lambda>a. a \<notin> set returned_artifacts) (rf_artifacts f)) Review_invalid_finding
     (fail_if (\<not> optional (known_verification draft) (rf_verification_evidence_id f) \<or>
               list_ex (\<lambda>i. \<not> known_verification draft i) (rf_reproduction_evidence_ids f)) Review_invalid_finding
     (check_child_findings result draft returned_artifacts l fs)))"

definition validate_review_child_result ::
  "ReviewChildResult \<Rightarrow> ReviewReceiptDraft \<Rightarrow> EvidenceId list \<Rightarrow> ArtifactId list \<Rightarrow> ReviewReceiptLimits \<Rightarrow>
   ReviewReceiptErrorCode + unit" where
  "validate_review_child_result result draft returned_evidence returned_artifacts l =
     fail_if (\<not> review_valid_limits l \<or> rcr_receipt_id result \<noteq> rd_receipt_id draft \<or>
              rcr_candidate result \<noteq> rd_candidate draft \<or>
              length (rcr_findings result) > rl_maximum_findings l \<or>
              (rcr_verdict result = Verdict_approved) \<noteq> (rcr_findings result = [])) Review_invalid_receipt
     (bind_result (validate_review_participant_provenance (rcr_reviewer result) l) (\<lambda>_.
      bind_result (check_child_findings result draft returned_artifacts l (rcr_findings result)) (\<lambda>_.
      fail_if (\<not> distinct (map rf_finding_id (rcr_findings result))) Review_duplicate_identity (Inr ()))))"

definition validate_review_override :: "ReviewOverride \<Rightarrow> ReviewReceiptLimits \<Rightarrow> ReviewReceiptErrorCode + unit" where
  "validate_review_override v l =
     bind_result (validate_review_candidate (ro_candidate v) l) (\<lambda>_.
     bind_result (validate_review_actor (ro_actor v) l) (\<lambda>_.
     fail_if (\<not> review_bounded_text (ro_reason v) (rl_maximum_text_bytes l)) Review_invalid_receipt (Inr ())))"

fun check_draft_evidence ::
  "ReviewReceiptDraft \<Rightarrow> ReviewReceiptLimits \<Rightarrow> ReviewEvidenceBinding list \<Rightarrow> ReviewReceiptErrorCode + unit" where
  "check_draft_evidence draft l [] = Inr ()"
| "check_draft_evidence draft l (b # bs) =
     bind_result (validate_review_evidence_binding b l) (\<lambda>_.
     fail_if (reb_kind b = Review_scenario \<and>
              reb_scenario_application_revision b \<noteq> Some (rc_revision (rd_candidate draft))) Review_invalid_evidence
     (check_draft_evidence draft l bs))"

definition validate_review_receipt_draft ::
  "ReviewReceiptDraft \<Rightarrow> ReviewReceiptLimits \<Rightarrow> ReviewReceiptErrorCode + unit" where
  "validate_review_receipt_draft draft l =
     fail_if (\<not> review_valid_limits l) Review_invalid_limits
     (bind_result (validate_review_candidate (rd_candidate draft) l) (\<lambda>_.
      bind_result (case rd_author draft of None \<Rightarrow> Inr ()
                   | Some a \<Rightarrow> validate_review_participant_provenance a l) (\<lambda>_.
      fail_if (rd_evidence draft = [] \<or> length (rd_evidence draft) > rl_maximum_evidence l) Review_resource_exhausted
      (bind_result (check_draft_evidence draft l (rd_evidence draft)) (\<lambda>_.
       fail_if (\<not> distinct (map reb_requirement_id (rd_evidence draft))) Review_duplicate_identity (Inr ()))))))"

end
