(* ===== verification/Events.thy ===== *)
theory Events
  imports Pricing Persona OpsTarget ChildRun Memory Review
begin

text \<open>
  The event vocabulary: \<^verbatim>\<open>include/aiforge/domain/events.hpp\<close>, with the structs of
  \<^verbatim>\<open>tool_spend.hpp\<close> and \<^verbatim>\<open>project_backlog.hpp\<close> that events carry.  A payload constructor has the
  name of the source's struct and its fields in the source's order; the alternatives for memories and
  for reviews are grouped in two constructors.  The alternatives whose content
  no modelled projection inspects share the constructor \<open>OtherPayload\<close>, which carries the index of
  the alternative in the source's variant.
\<close>

section \<open>Tool spend records\<close>

datatype ToolSpendEstimateBasis = Estimate_catalog_estimate | Estimate_policy_upper_bound

datatype ToolSpendFinalizationBasis =
  Final_provider_reported | Final_catalog_estimate | Final_policy_upper_bound

datatype ToolSpendReconciliationReason =
    transport_outcome_unknown | provider_cost_unavailable | provider_cost_mismatch
  | finalization_persistence_unknown

record ToolSpendQuote =
  quote_maximum :: MonetaryAmount
  quote_basis :: ToolSpendEstimateBasis
  quote_evidence_digest :: ContentDigest
  quote_valid_until :: EventTimestamp

record ToolSpendReservation =
  rsv_invocation_id :: InvocationId
  rsv_maximum :: MonetaryAmount
  rsv_basis :: ToolSpendEstimateBasis
  rsv_evidence_digest :: ContentDigest
  rsv_valid_until :: EventTimestamp

record ToolSpendFinalization =
  fin_invocation_id :: InvocationId
  fin_amount :: MonetaryAmount
  fin_basis :: ToolSpendFinalizationBasis
  fin_provider_evidence_digest :: "ContentDigest option"

section \<open>Backlog records\<close>

datatype ProjectBacklogDecisionSource = BacklogSource_user | BacklogSource_policy

record ProjectBacklogOrigin =
  pbo_session_id :: SessionId
  pbo_plan_id :: PlanId
  pbo_revision_id :: PlanRevisionId
  pbo_task_id :: PlanTaskId

record ProjectBacklogItem =
  pbi_item_id :: ProjectBacklogItemId
  pbi_repository_id :: RepositoryId
  pbi_origin :: ProjectBacklogOrigin
  pbi_task :: PlanTask
  pbi_source :: ProjectBacklogDecisionSource

datatype ProjectBacklogItemStatus = Backlog_open | Backlog_resolved

record ProjectBacklogStatusChange =
  psc_item_id :: ProjectBacklogItemId
  psc_repository_id :: RepositoryId
  psc_status :: ProjectBacklogItemStatus
  psc_source :: ProjectBacklogDecisionSource
  psc_reason :: "string option"
  psc_expected_status_event_id :: "EventId option"

section \<open>Events\<close>

datatype RunPurpose = Purpose_conversation | Purpose_control | Purpose_summary

datatype SessionSpendCeilingSource = CeilingSource_command_line

datatype ApprovalDecision = Approval_approved | Approval_denied | Approval_cancelled

text \<open>
  The provenance record of a run is stored and compared, never inspected, by what is modelled.
\<close>

typedecl RunProvenance

record ToolProposed =
  tp_invocation_id :: InvocationId
  tp_tool_name :: string
  tp_arguments :: StructuredDataBlock
  tp_declared_effects :: "Effect list"
  tp_parent_invocation_id :: "InvocationId option"
  tp_arguments_replayable :: bool
  tp_validated_required_scopes :: "CapabilityScope list"
  tp_requested_scopes :: "CapabilityScope list"
  tp_result_message_id :: "MessageId option"
  tp_spend_quote :: "ToolSpendQuote option"
  tp_validated_arguments :: "StructuredDataBlock option"
  tp_observation_request :: "OpsObservationRequest option"

text \<open>
  \<^verbatim>\<open>RunStarted\<close> is modelled without its memory selection and conversation admission, whose
  validation belongs to parts outside this development.
\<close>

record RunStartedData =
  surface_id :: SurfaceId
  workspace_id :: WorkspaceId
  permission_profile_id :: PermissionProfileId
  started_persona_id :: "PersonaId option"
  run_purpose :: RunPurpose
  local_context_admission_required :: bool
  manual_observation_required :: bool

datatype (plugins only: code size) RunEventPayload =
    RunStarted RunStartedData
  | RunProvenanceRecorded RunProvenance
  | PersonaSelectionRecorded PersonaSelection
  | SessionSpendCeilingSet SessionSpendCeiling SessionSpendCeilingSource
  | RunAwaitingInput QuestionId
  | RunResumed "QuestionId option"
  | RunCompletionRequested
  | RunCompleted
  | RunFailed DomainError
  | RunCancelRequested "string option"
  | RunCancelled "string option"
  | UserContentAdded Message
  | AssistantContentStarted MessageId InferenceId
  | AssistantContentDeltaAdded MessageId InferenceId ContentBlock
  | AssistantContentFinished MessageId InferenceId
  | InferenceStarted InferenceId ModelId
  | InferencePricingObserved InferenceId PricingObservation
  | ReasoningMetadataAdded InferenceId "string option" "(string \<times> string) list"
  | UsageRecorded InferenceId Usage
  | InferenceCostRecorded InferenceId ReportedCost
  | InferenceFinished InferenceId FinishReason
  | InferenceFailed InferenceId DomainError
  | InferenceCancelled InferenceId "string option"
  | ToolProposedEvent ToolProposed
  | ToolApprovalRequested InvocationId "CapabilityScope list" "string option"
  | ToolApprovalDecided InvocationId ApprovalDecision "CapabilityScope list" ApprovalGrantLifetime
  | ToolSpendReserved ToolSpendReservation
  | ToolStarted InvocationId
  | ToolSpendReleased InvocationId
  | ToolSpendFinalized ToolSpendFinalization
  | ToolSpendReconciliationRequired InvocationId ToolSpendReconciliationReason
  | ToolResultRecorded InvocationId "ContentBlock list" "MessageId option"
  | ToolErrored InvocationId DomainError "MessageId option"
  | PlanRevisionProposed PlanRevision
  | PlanRevisionDecisionRecorded PlanRevisionDecision
  | PlanRevisionInvalidated PlanRevisionInvalidation
  | SessionTasksMaterialized PlanId PlanRevisionId
  | ChildRunCreated RunId "ChildRunDescriptor option"
  | SessionTaskResultRecorded SessionTaskResult
  | ProjectBacklogItemPromoted ProjectBacklogItem
  | ProjectBacklogItemStatusChanged ProjectBacklogStatusChange
  | MemoryEvent MemoryEventPayload
  | ReviewEvent ReviewEventPayload
  | UnknownEvent string StructuredDataBlock
  | OtherPayload nat

record EventMetadata =
  event_id :: EventId
  em_run_id :: RunId
  em_sequence :: u64
  schema_version :: u32
  em_timestamp :: EventTimestamp
  caused_by_event_id :: "EventId option"
  parent_run_id :: "RunId option"
  em_invocation_id :: "InvocationId option"

record RunEvent =
  metadata :: EventMetadata
  payload :: RunEventPayload

abbreviation event_sequence :: "RunEvent \<Rightarrow> u64" where
  "event_sequence e \<equiv> em_sequence (metadata e)"

abbreviation event_ident :: "RunEvent \<Rightarrow> EventId" where
  "event_ident e \<equiv> event_id (metadata e)"

end
