(* ===== verification/Projection.thy ===== *)
theory Projection
  imports Events
begin

text \<open>
  What every event-sourced component shares.  A component consumes a history one event at a time
  with a step that can refuse an event; a refused event leaves the component as it was and the
  callers stop at the first refusal.  The locales state what a component promises about its step,
  and what follows for a whole history is proved once.
\<close>

fun replay :: "('s \<Rightarrow> 'e \<Rightarrow> 'x + 's) \<Rightarrow> 's \<Rightarrow> 'e list \<Rightarrow> 'x + 's" where
  "replay step s [] = Inr s"
| "replay step s (e # es) = bind_result (step s e) (\<lambda>s'. replay step s' es)"

lemma replay_append:
  "replay step s (es @ fs) = bind_result (replay step s es) (\<lambda>s'. replay step s' fs)"
  by (induction es arbitrary: s) (simp_all add: bind_result_assoc)

lemma replay_snoc: "replay step s (es @ [e]) = bind_result (replay step s es) (\<lambda>s'. step s' e)"
  by (simp add: replay_append)

section \<open>Sequenced components\<close>

text \<open>The step accepts an event only when its sequence number exceeds the last one, and records it.\<close>

locale sequenced =
  fixes step :: "'s \<Rightarrow> 'e \<Rightarrow> 'x + 's" and seq :: "'e \<Rightarrow> 'n :: linorder" and last_seq :: "'s \<Rightarrow> 'n"
  assumes step_increases: "step s e = Inr s' \<Longrightarrow> last_seq s < seq e \<and> last_seq s' = seq e"
begin

lemma replay_increasing:
  "replay step s es = Inr s' \<Longrightarrow>
    sorted_wrt (<) (map seq es) \<and> (\<forall>e \<in> set es. last_seq s < seq e) \<and>
    last_seq s' = (if es = [] then last_seq s else seq (last es))"
proof (induction es arbitrary: s)
  case (Cons e es)
  then obtain t where t: "step s e = Inr t" "replay step t es = Inr s'" by auto
  note st = step_increases [OF t(1)] and IH = Cons.IH [OF t(2)]
  with IH show ?case by (auto dest: order.strict_trans)
qed simp

lemma replay_bounded: "replay step s es = Inr s' \<Longrightarrow> e \<in> set es \<Longrightarrow> seq e \<le> last_seq s'"
proof (induction es arbitrary: s rule: list.induct)
  case (Cons e' es)
  then obtain t where t: "step s e' = Inr t" "replay step t es = Inr s'" by auto
  show ?case
  proof (cases "e = e'")
    case True
    have "last_seq t \<le> last_seq s'"
      using replay_increasing [OF t(2)] by (cases "es = []") (auto intro: order.strict_implies_order)
    with step_increases [OF t(1)] True show ?thesis by simp
  next
    case False
    with Cons t show ?thesis by simp
  qed
qed simp

end

section \<open>Components that remember identities\<close>

locale identified = sequenced +
  fixes ident :: "'b \<Rightarrow> 'i" and seen :: "'a \<Rightarrow> 'i set"
  assumes step_fresh: "step s e = Inr s' \<Longrightarrow> ident e \<notin> seen s \<and> seen s' = insert (ident e) (seen s)"
begin

lemma replay_distinct:
  "replay step s es = Inr s' \<Longrightarrow>
    distinct (map ident es) \<and> set (map ident es) \<inter> seen s = {} \<and>
    seen s' = seen s \<union> ident ` set es"
proof (induction es arbitrary: s)
  case (Cons e es)
  then obtain t where t: "step s e = Inr t" "replay step t es = Inr s'" by auto
  with step_fresh [OF t(1)] Cons.IH [OF t(2)] show ?case by auto
qed simp

end

text \<open>
  Some errors only report a bad envelope: a zero number, a known identity or a number that does not
  increase.  A history with good envelopes never meets them.
\<close>

locale enveloped = identified step seq last_seq ident seen
  for step :: "'s \<Rightarrow> 'e \<Rightarrow> 'x + 's" and seq :: "'e \<Rightarrow> 'n :: linorder" and last_seq :: "'s \<Rightarrow> 'n"
    and ident :: "'e \<Rightarrow> 'i" and seen :: "'s \<Rightarrow> 'i set" +
  fixes positive :: "'e \<Rightarrow> bool" and envelope_error :: "'x \<Rightarrow> bool"
  assumes step_envelope: "step s e = Inl x \<Longrightarrow> envelope_error x \<Longrightarrow>
    \<not> positive e \<or> ident e \<in> seen s \<or> \<not> last_seq s < seq e"
begin

lemma replay_envelope:
  "replay step s es = Inl x \<Longrightarrow> list_all positive es \<Longrightarrow> distinct (map ident es) \<Longrightarrow>
    ident ` set es \<inter> seen s = {} \<Longrightarrow> sorted_wrt (<) (map seq es) \<Longrightarrow> \<forall>e \<in> set es. last_seq s < seq e \<Longrightarrow>
    \<not> envelope_error x"
proof (induction es arbitrary: s)
  case (Cons e es)
  show ?case
  proof (cases "step s e")
    case (Inl y)
    with Cons.prems step_envelope [OF Inl] show ?thesis by auto
  next
    case (Inr t)
    with step_fresh [OF Inr] step_increases [OF Inr] Cons show ?thesis by auto
  qed
qed simp

end

section \<open>Components with an invariant\<close>

text \<open>Some invariants hold only of histories whose events are good.\<close>

locale guarded_invariant =
  fixes step :: "'s \<Rightarrow> 'e \<Rightarrow> 'x + 's" and good :: "'e \<Rightarrow> bool" and keeps :: "'s \<Rightarrow> bool"
  assumes step_keeps: "keeps s \<Longrightarrow> good e \<Longrightarrow> step s e = Inr s' \<Longrightarrow> keeps s'"
begin

lemma replay_keeps: "keeps s \<Longrightarrow> list_all good es \<Longrightarrow> replay step s es = Inr s' \<Longrightarrow> keeps s'"
  by (induction es arbitrary: s) (auto intro: step_keeps)

end

locale invariant =
  fixes step :: "'s \<Rightarrow> 'e \<Rightarrow> 'x + 's" and inv :: "'s \<Rightarrow> bool"
  assumes step_inv: "inv s \<Longrightarrow> step s e = Inr s' \<Longrightarrow> inv s'"

sublocale invariant \<subseteq> guarded_invariant step "\<lambda>_. True" inv
  by unfold_locales (rule step_inv)

context invariant begin

lemma replay_inv: "inv s \<Longrightarrow> replay step s es = Inr s' \<Longrightarrow> inv s'"
  by (rule replay_keeps) (simp_all add: list_all_iff)

end

section \<open>Components that only grow\<close>

text \<open>What a step may do to the state is a preorder, so it bounds what a history may do.\<close>

locale evolving =
  fixes step :: "'s \<Rightarrow> 'e \<Rightarrow> 'x + 's" and evolves :: "'s \<Rightarrow> 's \<Rightarrow> bool"
  assumes evolves_refl: "evolves s s"
    and evolves_trans: "evolves s t \<Longrightarrow> evolves t u \<Longrightarrow> evolves s u"
    and step_evolves: "step s e = Inr s' \<Longrightarrow> evolves s s'"
begin

lemma replay_evolves: "replay step s es = Inr s' \<Longrightarrow> evolves s s'"
  by (induction es arbitrary: s) (auto intro: evolves_refl evolves_trans step_evolves)

end

section \<open>Sample events\<close>

definition sample_event :: "nat \<Rightarrow> RunEventPayload \<Rightarrow> RunEvent" where
  "sample_event n p =
     \<lparr>metadata =
        \<lparr>event_id = Id (replicate n CHR ''e''), em_run_id = Id ''run'', em_sequence = of_nat n,
         schema_version = 1, em_timestamp = int n, caused_by_event_id = None, parent_run_id = None,
         em_invocation_id = None\<rparr>,
      payload = p\<rparr>"

lemma replicate_numeral_Cons: "replicate (numeral k) x = x # replicate (pred_numeral k) x"
  by (simp add: numeral_eq_Suc)

definition sample_usage :: "u64 \<Rightarrow> u64 \<Rightarrow> Usage" where
  "sample_usage i out =
     \<lparr>input_tokens = i, output_tokens = out, cached_input_tokens = 0, reasoning_tokens = 0\<rparr>"

definition sample_start :: RunEventPayload where
  "sample_start =
     RunStarted \<lparr>surface_id = Id ''tui'', workspace_id = Id ''ws'', permission_profile_id = Id ''p'',
       started_persona_id = None, run_purpose = Purpose_conversation,
       local_context_admission_required = False, manual_observation_required = False\<rparr>"

text \<open>A run with one user message and one answered inference that used \<open>10 + 5\<close> input tokens.\<close>

definition sample_run :: "RunEvent list" where
  "sample_run =
     [sample_event 1 sample_start,
      sample_event 2 (UserContentAdded \<lparr>message_id = Id ''m1'', message_role = Role_user, message_content = [],
        message_invocation_id = None, tool_calls = []\<rparr>),
      sample_event 3 (InferenceStarted (Id ''i1'') (Id ''model'')),
      sample_event 4 (AssistantContentStarted (Id ''m2'') (Id ''i1'')),
      sample_event 5 (UsageRecorded (Id ''i1'') (sample_usage 10 4)),
      sample_event 6 (UsageRecorded (Id ''i1'') (sample_usage 5 1)),
      sample_event 7 (AssistantContentFinished (Id ''m2'') (Id ''i1'')),
      sample_event 8 (InferenceFinished (Id ''i1'') Finish_stop),
      sample_event 9 RunCompleted]"

end
