(* ===== verification/RunProjection.thy ===== *)
theory RunProjection
  imports Projection
begin

text \<open>
  The projection of one run: \<^verbatim>\<open>src/lib/run_projection.cpp\<close> and
  \<^verbatim>\<open>include/aiforge/domain/run_projection.hpp\<close>.  The visitor of the source is \<open>run_visit\<close>, with one
  handler per alternative in the source's order; a refused event leaves the projection unchanged.
\<close>

section \<open>State\<close>

datatype RunStatus =
    Run_not_started | Run_running | Run_awaiting_input | Run_awaiting_approval
  | Run_awaiting_plan_decision | Run_awaiting_plan_revision
  | Run_completed | Run_failed | Run_cancelled

record ProjectedMessage =
  pm_message_id :: MessageId
  pm_role :: Role
  pm_content :: "ContentBlock list"
  pm_complete :: bool
  pm_inference_id :: "InferenceId option"

datatype ProjectionErrorCode =
    Projection_invalid_envelope | Projection_wrong_run | Projection_non_monotonic_sequence
  | Projection_invalid_transition | Projection_unknown_message | Projection_wrong_inference
  | Projection_usage_overflow | Projection_cost_overflow | Projection_invalid_pricing

record RunProjection =
  rp_run_id :: "RunId option"
  rp_status :: RunStatus
  rp_messages :: "ProjectedMessage list"
  rp_usage :: Usage
  rp_reported_cost :: "ReportedCost option"
  rp_active_inference_id :: "InferenceId option"
  rp_active_model_id :: "ModelId option"
  rp_cost_recorded :: bool
  rp_pricing_recorded :: bool
  rp_pricing_observations :: "PricingObservation list"
  rp_provenance :: "RunProvenance option"
  rp_persona_id :: "PersonaId option"
  rp_persona_selection :: "PersonaSelection option"
  rp_pending_approval_ids :: "InvocationId set"
  rp_last_sequence :: u64

definition empty_usage :: Usage where
  "empty_usage = \<lparr>input_tokens = 0, output_tokens = 0, cached_input_tokens = 0, reasoning_tokens = 0\<rparr>"

definition RunProjection_initial :: RunProjection where
  "RunProjection_initial =
     \<lparr>rp_run_id = None, rp_status = Run_not_started, rp_messages = [], rp_usage = empty_usage,
      rp_reported_cost = None, rp_active_inference_id = None, rp_active_model_id = None,
      rp_cost_recorded = False, rp_pricing_recorded = False, rp_pricing_observations = [],
      rp_provenance = None, rp_persona_id = None, rp_persona_selection = None,
      rp_pending_approval_ids = {}, rp_last_sequence = 0\<rparr>"

section \<open>Helpers\<close>

definition add_checked :: "u64 \<Rightarrow> u64 \<Rightarrow> u64 option" where
  "add_checked already amount = (if amount > u64_max - already then None else Some (already + amount))"

text \<open>Field by field, in the order of the source; the first overflow stops.\<close>

definition add_usage :: "Usage \<Rightarrow> Usage \<Rightarrow> Usage option" where
  "add_usage already addition =
     Option.bind (add_checked (input_tokens already) (input_tokens addition)) (\<lambda>i.
     Option.bind (add_checked (output_tokens already) (output_tokens addition)) (\<lambda>out.
     Option.bind (add_checked (cached_input_tokens already) (cached_input_tokens addition)) (\<lambda>c.
     Option.bind (add_checked (reasoning_tokens already) (reasoning_tokens addition)) (\<lambda>r.
     Some \<lparr>input_tokens = i, output_tokens = out, cached_input_tokens = c, reasoning_tokens = r\<rparr>))))"

definition find_message :: "MessageId \<Rightarrow> RunProjection \<Rightarrow> ProjectedMessage option" where
  "find_message mid s = find (\<lambda>m. pm_message_id m = mid) (rp_messages s)"

definition live_run :: "RunProjection \<Rightarrow> bool" where
  "live_run s \<longleftrightarrow> rp_status s = Run_running \<or> rp_status s = Run_awaiting_input \<or>
     rp_status s = Run_awaiting_approval"

definition require_running ::
  "RunProjection \<Rightarrow> ProjectionErrorCode + RunProjection \<Rightarrow> ProjectionErrorCode + RunProjection" where
  "require_running s k = fail_if (\<not> live_run s) Projection_invalid_transition k"

definition require_inference ::
  "RunProjection \<Rightarrow> InferenceId \<Rightarrow> ProjectionErrorCode + RunProjection
    \<Rightarrow> ProjectionErrorCode + RunProjection" where
  "require_inference s i k =
     fail_if (rp_active_inference_id s \<noteq> Some i) Projection_wrong_inference k"

definition reset_inference :: "RunProjection \<Rightarrow> RunProjection" where
  "reset_inference s =
     s\<lparr>rp_active_inference_id := None, rp_active_model_id := None,
       rp_cost_recorded := False, rp_pricing_recorded := False\<rparr>"

definition complete_messages_of :: "InferenceId option \<Rightarrow> RunProjection \<Rightarrow> RunProjection" where
  "complete_messages_of i s =
     s\<lparr>rp_messages := map (\<lambda>m. if pm_inference_id m = i then m\<lparr>pm_complete := True\<rparr> else m)
         (rp_messages s)\<rparr>"

definition terminal_run :: "RunProjection \<Rightarrow> bool" where
  "terminal_run s \<longleftrightarrow> rp_status s = Run_completed \<or> rp_status s = Run_failed \<or> rp_status s = Run_cancelled"

section \<open>The visitor\<close>

definition on_run_started ::
  "RunProjection \<Rightarrow> RunEvent \<Rightarrow> RunStartedData \<Rightarrow> ProjectionErrorCode + RunProjection" where
  "on_run_started s event started =
      fail_if (rp_status s \<noteq> Run_not_started \<or> rp_run_id s \<noteq> None) Projection_invalid_transition
        (Inr (s\<lparr>rp_run_id := Some (em_run_id (metadata event)), rp_status := Run_running,
                rp_persona_id := started_persona_id started\<rparr>))"

definition on_run_provenance_recorded ::
  "RunProjection \<Rightarrow> RunProvenance \<Rightarrow> ProjectionErrorCode + RunProjection" where
  "on_run_provenance_recorded s provenance =
      require_running s
     (fail_if (rp_provenance s \<noteq> None) Projection_invalid_transition
     (Inr (s\<lparr>rp_provenance := Some provenance\<rparr>)))"

definition on_persona_selection_recorded ::
  "RunProjection \<Rightarrow> PersonaSelection \<Rightarrow> ProjectionErrorCode + RunProjection" where
  "on_persona_selection_recorded s selection =
      require_running s
     (fail_if (rp_persona_selection s \<noteq> None \<or> rp_messages s \<noteq> [] \<or>
               isl (validate_persona_selection selection)) Projection_invalid_transition
     (fail_if (map_option persona_id (ps_persona selection) \<noteq> rp_persona_id s)
        Projection_invalid_transition
     (Inr (s\<lparr>rp_persona_selection := Some selection\<rparr>))))"

definition on_run_awaiting_input ::
  "RunProjection \<Rightarrow> ProjectionErrorCode + RunProjection" where
  "on_run_awaiting_input s =
      fail_if ((rp_status s \<noteq> Run_running \<and> rp_status s \<noteq> Run_awaiting_approval) \<or>
               rp_active_inference_id s \<noteq> None) Projection_invalid_transition
        (Inr (s\<lparr>rp_status := Run_awaiting_input\<rparr>))"

definition on_run_resumed :: "RunProjection \<Rightarrow> ProjectionErrorCode + RunProjection" where
  "on_run_resumed s =
      fail_if (rp_status s \<noteq> Run_awaiting_input) Projection_invalid_transition
        (Inr (s\<lparr>rp_status := (if rp_pending_approval_ids s = {} then Run_running
                             else Run_awaiting_approval)\<rparr>))"

definition on_tool_approval_requested ::
  "RunProjection \<Rightarrow> InvocationId \<Rightarrow> ProjectionErrorCode + RunProjection" where
  "on_tool_approval_requested s iid =
      fail_if ((rp_status s \<noteq> Run_running \<and> rp_status s \<noteq> Run_awaiting_approval \<and>
                rp_status s \<noteq> Run_awaiting_input) \<or> rp_active_inference_id s \<noteq> None \<or>
               iid \<in> rp_pending_approval_ids s) Projection_invalid_transition
        (Inr (s\<lparr>rp_pending_approval_ids := insert iid (rp_pending_approval_ids s),
                rp_status := (if rp_status s = Run_running then Run_awaiting_approval
                              else rp_status s)\<rparr>))"

definition on_tool_approval_decided ::
  "RunProjection \<Rightarrow> InvocationId \<Rightarrow> ProjectionErrorCode + RunProjection" where
  "on_tool_approval_decided s iid =
      fail_if ((rp_status s \<noteq> Run_awaiting_approval \<and> rp_status s \<noteq> Run_awaiting_input) \<or>
               iid \<notin> rp_pending_approval_ids s) Projection_invalid_transition
        (let pending = rp_pending_approval_ids s - {iid} in
         Inr (s\<lparr>rp_pending_approval_ids := pending,
                rp_status := (if rp_status s = Run_awaiting_approval \<and> pending = {}
                              then Run_running else rp_status s)\<rparr>))"

definition on_plan_revision_proposed ::
  "RunProjection \<Rightarrow> ProjectionErrorCode + RunProjection" where
  "on_plan_revision_proposed s =
      fail_if ((rp_status s \<noteq> Run_running \<and> rp_status s \<noteq> Run_awaiting_plan_revision) \<or>
               rp_active_inference_id s \<noteq> None) Projection_invalid_transition
        (Inr (s\<lparr>rp_status := Run_awaiting_plan_decision\<rparr>))"

definition on_plan_revision_decision_recorded ::
  "RunProjection \<Rightarrow> PlanRevisionDecision \<Rightarrow> ProjectionErrorCode + RunProjection" where
  "on_plan_revision_decision_recorded s decision =
      fail_if (rp_status s \<noteq> Run_awaiting_plan_decision) Projection_invalid_transition
        (Inr (s\<lparr>rp_status := (if prd_decision decision = Plan_revision_requested
                             then Run_awaiting_plan_revision else Run_running)\<rparr>))"

definition on_plan_revision_invalidated ::
  "RunProjection \<Rightarrow> ProjectionErrorCode + RunProjection" where
  "on_plan_revision_invalidated s =
      fail_if (rp_status s \<noteq> Run_running \<and> rp_status s \<noteq> Run_awaiting_plan_decision)
        Projection_invalid_transition
        (Inr (if rp_status s = Run_awaiting_plan_decision
              then s\<lparr>rp_status := Run_awaiting_plan_revision\<rparr> else s))"

definition on_run_completed ::
  "RunProjection \<Rightarrow> ProjectionErrorCode + RunProjection" where
  "on_run_completed s =
      require_running s
     (fail_if (rp_active_inference_id s \<noteq> None \<or> rp_pending_approval_ids s \<noteq> {})
        Projection_invalid_transition
     (Inr (s\<lparr>rp_status := Run_completed\<rparr>)))"

definition on_run_failed :: "RunProjection \<Rightarrow> ProjectionErrorCode + RunProjection" where
  "on_run_failed s =
      require_running s
     (Inr ((reset_inference s)\<lparr>rp_pending_approval_ids := {}, rp_status := Run_failed\<rparr>))"

definition on_run_cancelled ::
  "RunProjection \<Rightarrow> ProjectionErrorCode + RunProjection" where
  "on_run_cancelled s =
      require_running s
     (Inr ((reset_inference (complete_messages_of (rp_active_inference_id s) s))
             \<lparr>rp_pending_approval_ids := {}, rp_status := Run_cancelled\<rparr>))"

definition on_user_content_added ::
  "RunProjection \<Rightarrow> Message \<Rightarrow> ProjectionErrorCode + RunProjection" where
  "on_user_content_added s message =
      require_running s
     (fail_if (rp_persona_id s \<noteq> None \<and> rp_persona_selection s = None) Projection_invalid_transition
     (fail_if (message_role message \<noteq> Role_user) Projection_invalid_transition
     (fail_if (find_message (message_id message) s \<noteq> None) Projection_invalid_transition
     (Inr (s\<lparr>rp_messages := rp_messages s @
        [\<lparr>pm_message_id = message_id message, pm_role = Role_user,
          pm_content = message_content message, pm_complete = True, pm_inference_id = None\<rparr>]\<rparr>)))))"

definition on_inference_started ::
  "RunProjection \<Rightarrow> InferenceId \<Rightarrow> ModelId \<Rightarrow> ProjectionErrorCode + RunProjection" where
  "on_inference_started s iid model =
      fail_if (rp_status s \<noteq> Run_running) Projection_invalid_transition
     (fail_if (rp_active_inference_id s \<noteq> None) Projection_invalid_transition
     (Inr (s\<lparr>rp_active_inference_id := Some iid, rp_active_model_id := Some model,
             rp_cost_recorded := False, rp_pricing_recorded := False\<rparr>)))"

definition on_inference_pricing_observed ::
  "RunProjection \<Rightarrow> InferenceId \<Rightarrow> PricingObservation \<Rightarrow> ProjectionErrorCode + RunProjection" where
  "on_inference_pricing_observed s iid observation =
      fail_if (rp_active_inference_id s \<noteq> Some iid \<or>
               rp_active_model_id s \<noteq> Some (po_model_id observation)) Projection_wrong_inference
     (fail_if (rp_pricing_recorded s) Projection_invalid_transition
     (fail_if (isl (validate_pricing_observation observation)) Projection_invalid_pricing
     (Inr (s\<lparr>rp_pricing_observations := rp_pricing_observations s @ [observation],
             rp_pricing_recorded := True\<rparr>))))"

definition on_assistant_content_started ::
  "RunProjection \<Rightarrow> MessageId \<Rightarrow> InferenceId \<Rightarrow> ProjectionErrorCode + RunProjection" where
  "on_assistant_content_started s mid iid =
      require_inference s iid
     (fail_if (find_message mid s \<noteq> None) Projection_invalid_transition
     (Inr (s\<lparr>rp_messages := rp_messages s @
        [\<lparr>pm_message_id = mid, pm_role = Role_assistant, pm_content = [], pm_complete = False,
          pm_inference_id = Some iid\<rparr>]\<rparr>)))"

definition on_assistant_content_delta_added ::
  "RunProjection \<Rightarrow> MessageId \<Rightarrow> InferenceId \<Rightarrow> ContentBlock \<Rightarrow> ProjectionErrorCode + RunProjection" where
  "on_assistant_content_delta_added s mid iid delta =
      require_inference s iid
     (case find_message mid s of
        None \<Rightarrow> Inl Projection_unknown_message
      | Some m \<Rightarrow>
          fail_if (pm_complete m \<or> pm_inference_id m \<noteq> Some iid) Projection_invalid_transition
            (Inr (s\<lparr>rp_messages := modify_first (\<lambda>m. pm_message_id m = mid)
               (\<lambda>m. m\<lparr>pm_content := pm_content m @ [delta]\<rparr>) (rp_messages s)\<rparr>)))"

definition on_assistant_content_finished ::
  "RunProjection \<Rightarrow> MessageId \<Rightarrow> InferenceId \<Rightarrow> ProjectionErrorCode + RunProjection" where
  "on_assistant_content_finished s mid iid =
      require_inference s iid
     (case find_message mid s of
        None \<Rightarrow> Inl Projection_unknown_message
      | Some m \<Rightarrow>
          fail_if (pm_complete m \<or> pm_inference_id m \<noteq> Some iid) Projection_invalid_transition
            (Inr (s\<lparr>rp_messages := modify_first (\<lambda>m. pm_message_id m = mid)
               (\<lambda>m. m\<lparr>pm_complete := True\<rparr>) (rp_messages s)\<rparr>)))"

definition on_reasoning_metadata_added ::
  "RunProjection \<Rightarrow> InferenceId \<Rightarrow> ProjectionErrorCode + RunProjection" where
  "on_reasoning_metadata_added s iid =
     require_inference s iid (Inr s)"

definition on_usage_recorded ::
  "RunProjection \<Rightarrow> InferenceId \<Rightarrow> Usage \<Rightarrow> ProjectionErrorCode + RunProjection" where
  "on_usage_recorded s iid usage =
      require_inference s iid
     (case add_usage (rp_usage s) usage of
        None \<Rightarrow> Inl Projection_usage_overflow
      | Some next \<Rightarrow> Inr (s\<lparr>rp_usage := next\<rparr>))"

definition on_inference_cost_recorded ::
  "RunProjection \<Rightarrow> InferenceId \<Rightarrow> ReportedCost \<Rightarrow> ProjectionErrorCode + RunProjection" where
  "on_inference_cost_recorded s iid cost =
      require_inference s iid
     (fail_if (rp_cost_recorded s) Projection_invalid_transition
     (case (case rp_reported_cost s of None \<Rightarrow> Inr cost | Some previous \<Rightarrow> ReportedCost_add previous cost) of
        Inl _ \<Rightarrow> Inl Projection_cost_overflow
      | Inr combined \<Rightarrow> Inr (s\<lparr>rp_reported_cost := Some combined, rp_cost_recorded := True\<rparr>)))"

definition on_inference_finished ::
  "RunProjection \<Rightarrow> InferenceId \<Rightarrow> ProjectionErrorCode + RunProjection" where
  "on_inference_finished s iid =
      require_inference s iid
     (fail_if (list_ex (\<lambda>m. pm_inference_id m = Some iid \<and> \<not> pm_complete m) (rp_messages s))
        Projection_invalid_transition
     (Inr (reset_inference s)))"

definition on_inference_failed ::
  "RunProjection \<Rightarrow> InferenceId \<Rightarrow> ProjectionErrorCode + RunProjection" where
  "on_inference_failed s iid =
      require_inference s iid (Inr (reset_inference (complete_messages_of (Some iid) s)))"

definition on_inference_cancelled ::
  "RunProjection \<Rightarrow> InferenceId \<Rightarrow> ProjectionErrorCode + RunProjection" where
  "on_inference_cancelled s iid =
      require_inference s iid (Inr (reset_inference (complete_messages_of (Some iid) s)))"

text \<open>The dispatch; everything not named requires a live run and changes nothing.\<close>

definition run_visit :: "RunProjection \<Rightarrow> RunEvent \<Rightarrow> ProjectionErrorCode + RunProjection" where
  "run_visit s event =
     (case payload event of
        RunStarted started \<Rightarrow> on_run_started s event started
      | RunProvenanceRecorded provenance \<Rightarrow> on_run_provenance_recorded s provenance
      | PersonaSelectionRecorded selection \<Rightarrow> on_persona_selection_recorded s selection
      | RunAwaitingInput _ \<Rightarrow> on_run_awaiting_input s
      | RunResumed _ \<Rightarrow> on_run_resumed s
      | ToolApprovalRequested iid _ _ \<Rightarrow> on_tool_approval_requested s iid
      | ToolApprovalDecided iid _ _ _ \<Rightarrow> on_tool_approval_decided s iid
      | PlanRevisionProposed _ \<Rightarrow> on_plan_revision_proposed s
      | PlanRevisionDecisionRecorded decision \<Rightarrow> on_plan_revision_decision_recorded s decision
      | PlanRevisionInvalidated _ \<Rightarrow> on_plan_revision_invalidated s
      | SessionTasksMaterialized _ _ \<Rightarrow> require_running s (Inr s)
      | RunCompletionRequested \<Rightarrow> require_running s (Inr s)
      | RunCompleted \<Rightarrow> on_run_completed s
      | RunFailed _ \<Rightarrow> on_run_failed s
      | RunCancelRequested _ \<Rightarrow> require_running s (Inr s)
      | RunCancelled _ \<Rightarrow> on_run_cancelled s
      | UserContentAdded message \<Rightarrow> on_user_content_added s message
      | InferenceStarted iid model \<Rightarrow> on_inference_started s iid model
      | InferencePricingObserved iid observation \<Rightarrow> on_inference_pricing_observed s iid observation
      | AssistantContentStarted mid iid \<Rightarrow> on_assistant_content_started s mid iid
      | AssistantContentDeltaAdded mid iid delta \<Rightarrow> on_assistant_content_delta_added s mid iid delta
      | AssistantContentFinished mid iid \<Rightarrow> on_assistant_content_finished s mid iid
      | ReasoningMetadataAdded iid _ _ \<Rightarrow> on_reasoning_metadata_added s iid
      | UsageRecorded iid usage \<Rightarrow> on_usage_recorded s iid usage
      | InferenceCostRecorded iid cost \<Rightarrow> on_inference_cost_recorded s iid cost
      | InferenceFinished iid _ \<Rightarrow> on_inference_finished s iid
      | InferenceFailed iid _ \<Rightarrow> on_inference_failed s iid
      | InferenceCancelled iid _ \<Rightarrow> on_inference_cancelled s iid
      | UnknownEvent _ _ \<Rightarrow> Inr s
      | _ \<Rightarrow> require_running s (Inr s))"

lemmas run_visit_defs = run_visit_def on_run_started_def on_run_provenance_recorded_def on_persona_selection_recorded_def on_run_awaiting_input_def on_run_resumed_def on_tool_approval_requested_def on_tool_approval_decided_def on_plan_revision_proposed_def on_plan_revision_decision_recorded_def on_plan_revision_invalidated_def on_run_completed_def on_run_failed_def on_run_cancelled_def on_user_content_added_def on_inference_started_def on_inference_pricing_observed_def on_assistant_content_started_def on_assistant_content_delta_added_def on_assistant_content_finished_def on_reasoning_metadata_added_def on_usage_recorded_def on_inference_cost_recorded_def on_inference_finished_def on_inference_failed_def on_inference_cancelled_def

fun starts_run :: "RunEventPayload \<Rightarrow> bool" where
  "starts_run (RunStarted _) = True"
| "starts_run _ = False"

fun unknown_payload :: "RunEventPayload \<Rightarrow> bool" where
  "unknown_payload (UnknownEvent _ _) = True"
| "unknown_payload _ = False"

definition RunProjection_apply :: "RunProjection \<Rightarrow> RunEvent \<Rightarrow> ProjectionErrorCode + RunProjection" where
  "RunProjection_apply s event =
     fail_if (event_sequence event = 0 \<or> schema_version (metadata event) = 0) Projection_invalid_envelope
    (fail_if (event_sequence event \<le> rp_last_sequence s) Projection_non_monotonic_sequence
    (fail_if (rp_run_id s \<noteq> None \<and> rp_run_id s \<noteq> Some (em_run_id (metadata event))) Projection_wrong_run
    (fail_if (rp_run_id s = None \<and> \<not> starts_run (payload event) \<and> \<not> unknown_payload (payload event))
       Projection_invalid_transition
    (fail_if (terminal_run s \<and> \<not> unknown_payload (payload event)) Projection_invalid_transition
    (bind_result (run_visit s event) (\<lambda>s'.
     Inr (s'\<lparr>rp_last_sequence := event_sequence event\<rparr>)))))))"

section \<open>The invariant of a run\<close>

definition messages_ok :: "InferenceId option \<Rightarrow> bool \<Rightarrow> ProjectedMessage list \<Rightarrow> bool" where
  "messages_ok active run_failed ms \<longleftrightarrow> distinct (map pm_message_id ms) \<and>
     (\<forall>m \<in> set ms. \<not> pm_complete m \<longrightarrow> pm_inference_id m \<noteq> None \<and> (pm_inference_id m = active \<or> run_failed))"

definition run_ok :: "RunProjection \<Rightarrow> bool" where
  "run_ok s \<longleftrightarrow>
     (rp_run_id s = None \<longleftrightarrow> rp_status s = Run_not_started) \<and>
     (rp_active_inference_id s \<noteq> None \<longrightarrow> rp_status s = Run_running) \<and>
     (rp_active_inference_id s = None \<longleftrightarrow> rp_active_model_id s = None) \<and>
     (rp_active_inference_id s = None \<longrightarrow> \<not> rp_cost_recorded s \<and> \<not> rp_pricing_recorded s) \<and>
     (rp_status s = Run_awaiting_approval \<longrightarrow> rp_pending_approval_ids s \<noteq> {}) \<and>
     (rp_status s \<noteq> Run_awaiting_approval \<and> rp_status s \<noteq> Run_awaiting_input \<longrightarrow>
        rp_pending_approval_ids s = {}) \<and>
     messages_ok (rp_active_inference_id s) (rp_status s = Run_failed) (rp_messages s)"

lemmas run_guards = require_running_def require_inference_def live_run_def reset_inference_def
  complete_messages_of_def find_message_def

lemma messages_ok_snoc:
  "find (\<lambda>m. pm_message_id m = pm_message_id x) ms = None \<Longrightarrow> messages_ok a f ms \<Longrightarrow>
    (\<not> pm_complete x \<Longrightarrow> pm_inference_id x \<noteq> None \<and> pm_inference_id x = a) \<Longrightarrow> messages_ok a f (ms @ [x])"
  by (auto simp: messages_ok_def find_None_iff)

lemma messages_ok_modify:
  assumes "messages_ok a f ms"
    and "\<And>m. pm_message_id (g m) = pm_message_id m \<and> pm_inference_id (g m) = pm_inference_id m \<and>
      (pm_complete m \<longrightarrow> pm_complete (g m))"
  shows "messages_ok a f (modify_first P g ms)"
proof -
  have "map pm_message_id (modify_first P g ms) = map pm_message_id ms"
    using assms(2) by (intro map_modify_first) auto
  moreover have "\<forall>m \<in> set (modify_first P g ms). \<not> pm_complete m \<longrightarrow>
      pm_inference_id m \<noteq> None \<and> (pm_inference_id m = a \<or> f)"
  proof (intro ballI impI)
    fix m assume m: "m \<in> set (modify_first P g ms)" "\<not> pm_complete m"
    with set_modify_first_subset [of P g ms] obtain m' where "m' \<in> set ms" "m = m' \<or> m = g m'" by blast
    with m(2) assms show "pm_inference_id m \<noteq> None \<and> (pm_inference_id m = a \<or> f)"
      by (auto simp: messages_ok_def)
  qed
  ultimately show ?thesis using assms(1) by (simp add: messages_ok_def)
qed

lemma messages_ok_complete:
  assumes "messages_ok a f ms" and "\<not> f"
  shows "messages_ok None f' (map (\<lambda>m. if pm_inference_id m = a then m\<lparr>pm_complete := True\<rparr> else m) ms)"
proof -
  let ?g = "\<lambda>m. if pm_inference_id m = a then m\<lparr>pm_complete := True\<rparr> else m"
  have "map pm_message_id (map ?g ms) = map pm_message_id ms" by (induction ms) auto
  then have "distinct (map pm_message_id (map ?g ms))" using assms(1) by (simp only: messages_ok_def)
  moreover have "\<forall>m \<in> set (map ?g ms). pm_complete m" using assms by (auto simp: messages_ok_def)
  ultimately show ?thesis unfolding messages_ok_def by blast
qed

lemma messages_ok_finished:
  "messages_ok (Some i) f ms \<Longrightarrow> \<not> f \<Longrightarrow> \<not> list_ex (\<lambda>m. pm_inference_id m = Some i \<and> \<not> pm_complete m) ms
    \<Longrightarrow> messages_ok None f' ms"
  by (auto simp: messages_ok_def list_ex_iff)

lemma messages_ok_weaken:
  "messages_ok a False ms \<Longrightarrow> messages_ok b True ms" "messages_ok None f ms \<Longrightarrow> messages_ok a f ms"
  by (auto simp: messages_ok_def)

lemma run_ok_messages:
  "run_ok s \<Longrightarrow> messages_ok (rp_active_inference_id s) (rp_status s = Run_failed) ms
    \<Longrightarrow> run_ok (s\<lparr>rp_messages := ms\<rparr>)"
  by (auto simp: run_ok_def)

lemma run_ok_update [simp]:
  "run_ok (s\<lparr>rp_provenance := p\<rparr>) = run_ok s"
  "run_ok (s\<lparr>rp_persona_selection := ps\<rparr>) = run_ok s"
  "run_ok (s\<lparr>rp_usage := u\<rparr>) = run_ok s"
  "run_ok (s\<lparr>rp_last_sequence := n\<rparr>) = run_ok s"
  by (simp_all add: run_ok_def)

lemma run_ok_messagesD:
  "run_ok s \<Longrightarrow> messages_ok (rp_active_inference_id s) (rp_status s = Run_failed) (rp_messages s)"
  by (simp add: run_ok_def)

lemma run_ok_not_failed: "run_ok s \<Longrightarrow> rp_active_inference_id s = Some i \<Longrightarrow> rp_status s = Run_running"
  by (simp add: run_ok_def)

lemma run_ok_reset:
  "run_ok s \<Longrightarrow> messages_ok None (rp_status s = Run_failed) (rp_messages s) \<Longrightarrow> run_ok (reset_inference s)"
  by (auto simp: run_ok_def reset_inference_def)

lemma run_ok_ended:
  assumes "run_ok s" and "live_run s" and "st = Run_failed \<or> st = Run_cancelled"
    and "messages_ok None (st = Run_failed) (rp_messages s)"
  shows "run_ok ((reset_inference s)\<lparr>rp_pending_approval_ids := {}, rp_status := st\<rparr>)"
  using assms by (auto simp: run_ok_def reset_inference_def live_run_def)

lemma run_ok_complete:
  assumes "run_ok s" and "rp_active_inference_id s = a" and "rp_status s \<noteq> Run_failed"
  shows "run_ok (complete_messages_of a s)"
    and "messages_ok None f (rp_messages (complete_messages_of a s))"
proof -
  have m: "messages_ok None f' (rp_messages (complete_messages_of a s))" for f'
    using run_ok_messagesD [OF assms(1)] assms(2,3)
    by (simp add: complete_messages_of_def messages_ok_complete)
  then show "messages_ok None f (rp_messages (complete_messages_of a s))" .
  show "run_ok (complete_messages_of a s)"
    using m [of "rp_status s = Run_failed"] assms(1) unfolding complete_messages_of_def
    by (intro run_ok_messages) (auto intro: messages_ok_weaken(2))
qed

lemma run_ok_status:
  assumes "run_ok s" and "rp_active_inference_id s = None" and "rp_status s \<noteq> Run_not_started"
    and "rp_status s \<noteq> Run_failed" and "st \<noteq> Run_not_started" and "st \<noteq> Run_failed"
    and "st = Run_awaiting_approval \<Longrightarrow> p \<noteq> {}"
    and "st \<noteq> Run_awaiting_approval \<Longrightarrow> st \<noteq> Run_awaiting_input \<Longrightarrow> p = {}"
  shows "run_ok (s\<lparr>rp_pending_approval_ids := p, rp_status := st\<rparr>)"
  using assms by (simp add: run_ok_def)

lemma run_ok_pending:
  "run_ok s \<Longrightarrow> rp_status s \<noteq> Run_awaiting_approval \<Longrightarrow> rp_status s \<noteq> Run_awaiting_input \<Longrightarrow>
    rp_pending_approval_ids s = {}"
  "run_ok s \<Longrightarrow> rp_status s = Run_awaiting_approval \<Longrightarrow> rp_pending_approval_ids s \<noteq> {}"
  by (simp_all add: run_ok_def)

lemma run_ok_inactive:
  "run_ok s \<Longrightarrow> rp_status s \<noteq> Run_running \<Longrightarrow> rp_active_inference_id s = None"
  by (auto simp: run_ok_def)

lemma run_ok_status_only:
  assumes "run_ok s" and "rp_active_inference_id s = None" and "rp_status s \<noteq> Run_not_started"
    and "rp_status s \<noteq> Run_failed" and "st \<noteq> Run_not_started" and "st \<noteq> Run_failed"
    and "st = Run_awaiting_approval \<Longrightarrow> rp_pending_approval_ids s \<noteq> {}"
    and "st \<noteq> Run_awaiting_approval \<Longrightarrow> st \<noteq> Run_awaiting_input \<Longrightarrow> rp_pending_approval_ids s = {}"
  shows "run_ok (s\<lparr>rp_status := st\<rparr>)"
  using assms by (simp add: run_ok_def)

lemma run_ok_pending_only:
  assumes "run_ok s" and "rp_status s = Run_awaiting_approval \<or> rp_status s = Run_awaiting_input"
    and "rp_status s = Run_awaiting_approval \<Longrightarrow> p \<noteq> {}"
  shows "run_ok (s\<lparr>rp_pending_approval_ids := p\<rparr>)"
  using assms by (auto simp: run_ok_def)

lemma run_visit_ok:
  assumes ok: "run_ok s" and visit: "run_visit s e = Inr s'"
  shows "run_ok s'"
proof (cases "payload e")
  case (UserContentAdded m)
  with visit ok show ?thesis
    by (auto simp: run_visit_defs run_guards
        intro!: run_ok_messages messages_ok_snoc run_ok_messagesD)
next
  case (AssistantContentStarted m i)
  with visit ok show ?thesis
    by (auto simp: run_visit_defs run_guards
        intro!: run_ok_messages messages_ok_snoc run_ok_messagesD)
next
  case (AssistantContentDeltaAdded m i d)
  with visit ok show ?thesis
    by (auto simp: run_visit_defs run_guards split: option.splits
        intro!: run_ok_messages messages_ok_modify run_ok_messagesD)
next
  case (AssistantContentFinished m i)
  with visit ok show ?thesis
    by (auto simp: run_visit_defs run_guards split: option.splits
        intro!: run_ok_messages messages_ok_modify run_ok_messagesD)
next
  case (InferenceFinished i r)
  with visit have "rp_active_inference_id s = Some i" "s' = reset_inference s"
    "\<not> list_ex (\<lambda>m. pm_inference_id m = Some i \<and> \<not> pm_complete m) (rp_messages s)"
    by (auto simp: run_visit_defs require_inference_def)
  with ok run_ok_messagesD [OF ok] run_ok_not_failed [OF ok] show ?thesis
    by (auto intro!: run_ok_reset intro: messages_ok_finished)
next
  case (InferenceFailed i r)
  with visit have "rp_active_inference_id s = Some i" "s' = reset_inference (complete_messages_of (Some i) s)"
    by (auto simp: run_visit_defs require_inference_def)
  with ok run_ok_not_failed [OF ok] run_ok_complete [OF ok] show ?thesis by (auto intro!: run_ok_reset)
next
  case (InferenceCancelled i r)
  with visit have "rp_active_inference_id s = Some i" "s' = reset_inference (complete_messages_of (Some i) s)"
    by (auto simp: run_visit_defs require_inference_def)
  with ok run_ok_not_failed [OF ok] run_ok_complete [OF ok] show ?thesis by (auto intro!: run_ok_reset)
next
  case (RunCancelled r)
  let ?c = "complete_messages_of (rp_active_inference_id s) s"
  from RunCancelled visit have live: "live_run s"
    and s': "s' = (reset_inference ?c)\<lparr>rp_pending_approval_ids := {}, rp_status := Run_cancelled\<rparr>"
    by (auto simp: run_visit_defs require_running_def)
  then have "rp_status s \<noteq> Run_failed" "live_run ?c" by (auto simp: live_run_def complete_messages_of_def)
  with run_ok_complete [OF ok refl] show ?thesis unfolding s' by (auto intro!: run_ok_ended)
next
  case (RunFailed r)
  from RunFailed visit have live: "live_run s"
    and s': "s' = (reset_inference s)\<lparr>rp_pending_approval_ids := {}, rp_status := Run_failed\<rparr>"
    by (auto simp: run_visit_defs require_running_def)
  have "messages_ok None True (rp_messages s)"
    using run_ok_messagesD [OF ok] live by (auto simp: live_run_def intro: messages_ok_weaken(1))
  with ok live show ?thesis unfolding s' by (auto intro!: run_ok_ended)
next
  case (InferenceCostRecorded i c)
  with visit ok show ?thesis
    by (auto simp: run_visit_defs require_inference_def run_ok_def split: sum.split_asm option.split_asm)
next
  case (UsageRecorded i u)
  with visit ok show ?thesis
    by (auto simp: run_visit_defs require_inference_def split: option.split_asm)
next
  case (InferenceStarted i m)
  with visit ok show ?thesis
    by (auto simp: run_visit_defs run_ok_def intro: messages_ok_weaken(2))
next
  case (RunStarted x)
  with visit ok show ?thesis
    by (auto simp: run_visit_defs run_ok_def require_running_def live_run_def Let_def split: if_split_asm)
next
  case (RunProvenanceRecorded x)
  with visit ok show ?thesis by (auto simp: run_visit_defs require_running_def)
next
  case (PersonaSelectionRecorded x)
  with visit ok show ?thesis by (auto simp: run_visit_defs require_running_def)
next
  case (RunAwaitingInput x)
  with visit ok run_ok_pending [OF ok] run_ok_inactive [OF ok] show ?thesis
    by (auto simp: run_visit_defs intro!: run_ok_status_only split: if_split_asm)
next
  case (RunResumed x)
  with visit ok run_ok_pending [OF ok] run_ok_inactive [OF ok] show ?thesis
    by (auto simp: run_visit_defs intro!: run_ok_status_only split: if_split_asm)
next
  case (ToolApprovalRequested x y z)
  with visit ok run_ok_pending [OF ok] run_ok_inactive [OF ok] show ?thesis
    by (auto simp: run_visit_defs intro!: run_ok_status run_ok_pending_only split: if_split_asm)
next
  case (ToolApprovalDecided x y z w)
  with visit ok run_ok_pending [OF ok] run_ok_inactive [OF ok] show ?thesis
    by (auto simp: run_visit_defs Let_def intro!: run_ok_status run_ok_pending_only split: if_split_asm)
next
  case (PlanRevisionProposed x)
  with visit ok run_ok_pending [OF ok] run_ok_inactive [OF ok] show ?thesis
    by (auto simp: run_visit_defs intro!: run_ok_status_only split: if_split_asm)
next
  case (PlanRevisionDecisionRecorded x)
  with visit ok run_ok_pending [OF ok] run_ok_inactive [OF ok] show ?thesis
    by (auto simp: run_visit_defs intro!: run_ok_status_only split: if_split_asm)
next
  case (PlanRevisionInvalidated x)
  with visit ok run_ok_pending [OF ok] run_ok_inactive [OF ok] show ?thesis
    by (auto simp: run_visit_defs intro!: run_ok_status_only split: if_split_asm)
next
  case RunCompleted
  with visit have "live_run s" "rp_active_inference_id s = None" "rp_pending_approval_ids s = {}"
    "s' = s\<lparr>rp_status := Run_completed\<rparr>" by (auto simp: run_visit_defs require_running_def)
  with ok show ?thesis by (auto simp: run_ok_def live_run_def)
next
  case (InferencePricingObserved x y)
  then have "s' = s\<lparr>rp_pricing_observations := rp_pricing_observations s @ [y], rp_pricing_recorded := True\<rparr>"
    "rp_active_inference_id s = Some x" using visit by (auto simp: run_visit_defs)
  with ok show ?thesis by (auto simp: run_ok_def)
qed (use assms in \<open>auto simp: run_visit_defs require_running_def require_inference_def\<close>)


lemma RunProjection_apply_Inr:
  "RunProjection_apply s e = Inr s' \<longleftrightarrow>
    event_sequence e \<noteq> 0 \<and> schema_version (metadata e) \<noteq> 0 \<and> rp_last_sequence s < event_sequence e \<and>
    (rp_run_id s \<noteq> None \<longrightarrow> rp_run_id s = Some (em_run_id (metadata e))) \<and>
    (rp_run_id s = None \<longrightarrow> starts_run (payload e) \<or> unknown_payload (payload e)) \<and>
    (terminal_run s \<longrightarrow> unknown_payload (payload e)) \<and>
    (\<exists>t. run_visit s e = Inr t \<and> s' = t\<lparr>rp_last_sequence := event_sequence e\<rparr>)"
  by (auto simp: RunProjection_apply_def)

lemma run_ok_initial: "run_ok RunProjection_initial"
  by (simp add: run_ok_def RunProjection_initial_def messages_ok_def)

interpretation run_invariant: invariant RunProjection_apply run_ok
  by unfold_locales (auto simp: RunProjection_apply_Inr intro: run_visit_ok)

interpretation run_sequence: sequenced RunProjection_apply event_sequence rp_last_sequence
  by unfold_locales (auto simp: RunProjection_apply_Inr)


lemmas sample_run_simps = sample_run_def sample_event_def sample_usage_def sample_start_def

lemmas run_simps = RunProjection_apply_def run_visit_defs RunProjection_initial_def run_guards
  terminal_run_def empty_usage_def add_usage_def add_checked_def

lemma sample_run_accepted:
  "\<exists>s. replay RunProjection_apply RunProjection_initial sample_run = Inr s \<and> rp_status s = Run_completed"
  by (simp add: sample_run_simps run_simps word_le_nat_alt)

text \<open>
  C1: whatever history a run projection accepted, the messages carry distinct identities, an
  inference is active only while the run is running, a run waits for approval only while an approval
  is outstanding, an approval is outstanding only in a run that waits for one or for input, and a
  completed or cancelled run has no active inference, no outstanding approval and only complete
  messages.
\<close>

theorem run_history_consistent:
  assumes "replay RunProjection_apply RunProjection_initial es = Inr s"
  shows "distinct (map pm_message_id (rp_messages s)) \<and>
    (rp_active_inference_id s \<noteq> None \<longrightarrow> rp_status s = Run_running) \<and>
    (rp_status s = Run_awaiting_approval \<longrightarrow> rp_pending_approval_ids s \<noteq> {}) \<and>
    (rp_pending_approval_ids s \<noteq> {} \<longrightarrow>
       rp_status s = Run_awaiting_approval \<or> rp_status s = Run_awaiting_input) \<and>
    (rp_status s = Run_completed \<or> rp_status s = Run_cancelled \<longrightarrow>
       rp_active_inference_id s = None \<and> rp_pending_approval_ids s = {} \<and>
       list_all pm_complete (rp_messages s))"
proof -
  have "run_ok s" by (rule run_invariant.replay_inv [OF run_ok_initial assms])
  then show ?thesis by (auto simp: run_ok_def messages_ok_def list_all_iff)
qed

theorem run_history_consistent_witness:
  "\<exists>s. replay RunProjection_apply RunProjection_initial sample_run = Inr s \<and>
    rp_status s = Run_completed \<and> list_all pm_complete (rp_messages s)"
  using sample_run_accepted run_history_consistent by blast

section \<open>Usage totals\<close>

lemma add_checked_iff: "add_checked a b = Some c \<longleftrightarrow> unat c = unat a + unat b"
  using unat_u64_less [of c]
  by (auto simp: add_checked_def add_check_iff not_le word_unat_eq_iff unat_add_no_overflow)

definition usage_fields :: "(Usage \<Rightarrow> u64) list" where
  "usage_fields = [input_tokens, output_tokens, cached_input_tokens, reasoning_tokens]"

lemma add_usage_iff:
  "add_usage a b = Some c \<longleftrightarrow> (\<forall>f \<in> set usage_fields. unat (f c) = unat (f a) + unat (f b))"
  by (cases c) (auto simp: add_usage_def usage_fields_def add_checked_iff bind_eq_Some_conv)

definition recorded_usage :: "(Usage \<Rightarrow> u64) \<Rightarrow> RunEvent \<Rightarrow> nat" where
  "recorded_usage f event = (case payload event of UsageRecorded _ u \<Rightarrow> unat (f u) | _ \<Rightarrow> 0)"

lemma run_visit_usage:
  assumes "run_visit s e = Inr s'" and "f \<in> set usage_fields"
  shows "unat (f (rp_usage s')) = unat (f (rp_usage s)) + recorded_usage f e"
proof (cases "payload e")
  case (UsageRecorded i u)
  with assms show ?thesis
    by (auto simp: run_visit_defs require_inference_def recorded_usage_def add_usage_iff split: option.split_asm)
qed (use assms(1) in \<open>clarsimp simp: run_visit_defs run_guards recorded_usage_def Let_def
    split: option.split_asm sum.split_asm if_split_asm\<close>)+

lemma run_total_usage:
  assumes "replay RunProjection_apply RunProjection_initial es = Inr s" and "f \<in> set usage_fields"
  shows "unat (f (rp_usage s)) = sum_list (map (recorded_usage f) es)"
proof -
  have "replay RunProjection_apply t es = Inr s \<Longrightarrow>
      unat (f (rp_usage s)) = unat (f (rp_usage t)) + sum_list (map (recorded_usage f) es)" for t
    by (induction es arbitrary: t) (auto simp: RunProjection_apply_Inr run_visit_usage [OF _ assms(2)])
  from this [OF assms(1)] assms(2) show ?thesis
    by (auto simp: RunProjection_initial_def empty_usage_def usage_fields_def)
qed

text \<open>
  The usage a run reports is, in each of its four counters, the exact sum of the usage recorded
  by the events of its history: no addition wraps.
\<close>

theorem run_usage_exact:
  assumes "replay RunProjection_apply RunProjection_initial es = Inr s" and "f \<in> set usage_fields"
  shows "unat (f (rp_usage s)) = sum_list (map (recorded_usage f) es)"
  using assms by (rule run_total_usage)

theorem run_usage_exact_witness:
  "\<exists>s. replay RunProjection_apply RunProjection_initial sample_run = Inr s \<and>
    unat (input_tokens (rp_usage s)) = 15"
proof -
  obtain s where s: "replay RunProjection_apply RunProjection_initial sample_run = Inr s"
    using sample_run_accepted by blast
  have "sum_list (map (recorded_usage input_tokens) sample_run) = 15"
    by (simp add: sample_run_simps recorded_usage_def)
  with run_usage_exact [OF s, of input_tokens] have "unat (input_tokens (rp_usage s)) = 15"
    by (simp add: usage_fields_def)
  with s show ?thesis by blast
qed

text \<open>
  A run that has ended never changes again: once a history ends in a completed, failed or
  cancelled run, the only events a projection still accepts are of unknown type, and they leave
  everything but the last sequence number as it was.
\<close>

theorem ended_run_is_final:
  assumes "replay RunProjection_apply s es = Inr s'" and "terminal_run s"
  shows "list_all (\<lambda>e. unknown_payload (payload e)) es \<and>
    (\<exists>n. s' = s\<lparr>rp_last_sequence := n\<rparr>)"
  using assms
proof (induction es arbitrary: s)
  case Nil
  have "\<exists>n. s = s\<lparr>rp_last_sequence := n\<rparr>" by (rule exI [of _ "rp_last_sequence s"]) simp
  with Nil show ?case by simp
next
  case (Cons e es)
  then obtain t where t: "RunProjection_apply s e = Inr t" "replay RunProjection_apply t es = Inr s'" by auto
  with Cons.prems(2) have u: "unknown_payload (payload e)" "t = s\<lparr>rp_last_sequence := event_sequence e\<rparr>"
    by (auto simp: RunProjection_apply_Inr run_visit_defs elim!: unknown_payload.elims)
  with Cons.prems(2) have "terminal_run t" by (simp add: terminal_run_def)
  from Cons.IH [OF t(2) this] u show ?case by auto
qed

theorem ended_run_is_final_witness:
  "let s = RunProjection_initial\<lparr>rp_run_id := Some (Id ''run''), rp_status := Run_failed\<rparr>;
       e = sample_event 7 (UnknownEvent ''later'' \<lparr>media_type = [], sd_data = []\<rparr>)
   in list_all (\<lambda>e. unknown_payload (payload e)) [e] \<and>
      replay RunProjection_apply s [e] = Inr (s\<lparr>rp_last_sequence := 7\<rparr>)"
proof -
  let ?s = "RunProjection_initial\<lparr>rp_run_id := Some (Id ''run''), rp_status := Run_failed\<rparr>"
  let ?e = "sample_event 7 (UnknownEvent ''later'' \<lparr>media_type = [], sd_data = []\<rparr>)"
  have r: "replay RunProjection_apply ?s [?e] = Inr (?s\<lparr>rp_last_sequence := 7\<rparr>)"
    by (simp add: sample_event_def run_simps)
  moreover have "terminal_run ?s" by (simp add: terminal_run_def)
  ultimately show ?thesis using ended_run_is_final [OF r] by (simp only: Let_def)
qed

end
