(* ===== verification/CostEstimate.thy ===== *)
theory CostEstimate
  imports Content Pricing
begin

text \<open>
  The cost of one inference and of a session: the arithmetic half of
  \<^verbatim>\<open>src/lib/usage_ledger.cpp\<close> with the data of \<^verbatim>\<open>include/aiforge/domain/usage_ledger.hpp\<close>.
  A rate is a decimal amount per million tokens; rate and token count are multiplied in three limbs
  of nine decimal digits, on 64-bit words as the source has them.
\<close>

section \<open>The 128-bit product\<close>

definition limb_base :: u64 where
  "limb_base = 1000000000"

primrec split_limbs :: "nat \<Rightarrow> u64 \<Rightarrow> u64 list" where
  "split_limbs 0 v = []"
| "split_limbs (Suc n) v = v mod limb_base # split_limbs n (v div limb_base)"

text \<open>The two nested loops over the limbs; \<open>result\<close> is the array they add into.\<close>

definition accumulate_limbs :: "u64 list \<Rightarrow> u64 list \<Rightarrow> u64 list" where
  "accumulate_limbs left_parts right_parts =
     foldl (\<lambda>result (i, j). result[i + j := result ! (i + j) + left_parts ! i * right_parts ! j])
       (replicate 7 0)
       (List.product [0..<3] [0..<3])"

fun carry_limbs :: "u64 list \<Rightarrow> u64 list" where
  "carry_limbs (p # q # ps) = p mod limb_base # carry_limbs ((q + p div limb_base) # ps)"
| "carry_limbs ps = ps"

text \<open>The limbs from the highest; the scan for the first one to print stops at the lowest.\<close>

fun drop_high_limbs :: "u64 list \<Rightarrow> u64 list" where
  "drop_high_limbs (p # q # ps) = (if p = 0 then drop_high_limbs (q # ps) else p # q # ps)"
| "drop_high_limbs ps = ps"

definition padded_limb :: "u64 \<Rightarrow> string" where
  "padded_limb p = (let part = decimal (unat p) in replicate (9 - length part) CHR ''0'' @ part)"

definition multiplied_text :: "u64 \<Rightarrow> u64 \<Rightarrow> string" where
  "multiplied_text left right =
     (let parts = carry_limbs (accumulate_limbs (split_limbs 3 left) (split_limbs 3 right));
          high = drop_high_limbs (rev parts)
      in decimal (unat (hd high)) @ concat (map padded_limb (tl high)))"

section \<open>Data\<close>

datatype InferenceUsageStatus = Usage_active | Usage_completed | Usage_failed | Usage_cancelled

record InferenceUsageRecord =
  iur_run_id :: RunId
  iur_inference_id :: InferenceId
  iur_model_id :: ModelId
  iur_started_at :: EventTimestamp
  iur_ended_at :: "EventTimestamp option"
  iur_status :: InferenceUsageStatus
  iur_usage :: Usage
  iur_usage_observed :: bool
  iur_reported_cost :: "ReportedCost option"
  iur_pricing_observation :: "PricingObservation option"

datatype CostEstimateUnit = Unit_usd | Unit_venice_diem

datatype PricingTierSelection = Tier_base | Tier_extended

datatype CostEstimateUnavailableReason =
    usage_unobserved | pricing_unobserved | invalid_pricing | inconsistent_usage
  | ambiguous_extended_tier | cache_write_usage_unavailable | missing_rate | arithmetic_overflow

record InferenceCostEstimate =
  ice_amount :: MonetaryAmount
  ice_tier :: PricingTierSelection
  ice_rate_card_digest :: ContentDigest

record CostEstimateFailureCount =
  failure_reason :: CostEstimateUnavailableReason
  failure_count :: nat

record SessionCostEstimate =
  sce_unit :: CostEstimateUnit
  sce_subtotal :: "MonetaryAmount option"
  sce_estimated_inferences :: nat
  sce_total_inferences :: nat
  sce_unavailable :: "CostEstimateFailureCount list"
  sce_aggregation_failure :: "CostEstimateUnavailableReason option"

record SessionSpendSummary =
  sss_ceiling :: SessionSpendCeiling
  sss_accounted :: "MonetaryAmount option"
  sss_remaining :: "MonetaryAmount option"
  sss_reported_inferences :: nat
  sss_estimated_inferences :: nat
  sss_total_inferences :: nat
  sss_unavailable :: "CostEstimateFailureCount list"
  sss_aggregation_failure :: "CostEstimateUnavailableReason option"
  sss_reached :: bool
  sss_inference_accounted :: "MonetaryAmount option"
  sss_tool_accounted :: "MonetaryAmount option"
  sss_tool_reserved_maximum :: "MonetaryAmount option"
  sss_tool_reconciliation_maximum :: "MonetaryAmount option"
  sss_tool_provider_reported_amount :: "MonetaryAmount option"
  sss_tool_catalog_estimate_amount :: "MonetaryAmount option"
  sss_tool_policy_upper_bound_amount :: "MonetaryAmount option"
  sss_tool_reservations :: nat
  sss_tool_reserved :: nat
  sss_tool_released :: nat
  sss_tool_reconciliation_required :: nat
  sss_tool_provider_reported :: nat
  sss_tool_catalog_estimate :: nat
  sss_tool_policy_upper_bound :: nat

section \<open>The cost of one inference\<close>

function strip_product_zeros :: "string \<Rightarrow> nat \<Rightarrow> string \<times> nat" where
  "strip_product_zeros text sc =
     (if sc > 0 \<and> length text > 1 \<and> last text = CHR ''0''
      then strip_product_zeros (butlast text) (sc - 1) else (text, sc))"
  by pat_completeness auto
termination
  by (relation "measure snd") auto

declare strip_product_zeros.simps [simp del]

definition scaled_text :: "string \<Rightarrow> nat \<Rightarrow> string" where
  "scaled_text text sc =
     (if sc \<noteq> 0 then
        (if length text \<le> sc then ''0.'' @ replicate (sc - length text) CHR ''0'' @ text
         else insert_point text sc)
      else text)"

definition scaled_amount ::
  "DecimalAmount \<Rightarrow> u64 \<Rightarrow> CostEstimateUnavailableReason + DecimalAmount" where
  "scaled_amount rate tokens =
     (let (text, sc) = strip_product_zeros (multiplied_text (coefficient rate) tokens) (scale rate + 6)
      in map_error (\<lambda>_. arithmetic_overflow) (DecimalAmount_from (scaled_text text sc)))"

definition price_for_unit :: "PriceRate \<Rightarrow> CostEstimateUnit \<Rightarrow> DecimalAmount option" where
  "price_for_unit price unit = (if unit = Unit_usd then usd price else diem price)"

definition unit_present :: "TextPriceTier \<Rightarrow> CostEstimateUnit \<Rightarrow> bool" where
  "unit_present tier unit =
     (let present = (\<lambda>price. case price of None \<Rightarrow> False | Some p \<Rightarrow> price_for_unit p unit \<noteq> None)
      in present (tier_input tier) \<or> present (tier_output tier) \<or> present (tier_cache_input tier) \<or>
         present (tier_cache_write tier))"

definition select_tier ::
  "Usage \<Rightarrow> TextPricing \<Rightarrow> CostEstimateUnavailableReason + TextPriceTier \<times> PricingTierSelection" where
  "select_tier usage pricing =
     (case (pricing_extended pricing, extended_threshold_tokens pricing) of
        (Some extended, Some threshold) \<Rightarrow>
          fail_if (output_tokens usage > u64_max - input_tokens usage) arithmetic_overflow
          (if input_tokens usage + output_tokens usage \<le> threshold
           then Inr (pricing_base pricing, Tier_base)
           else if input_tokens usage > threshold then Inr (extended, Tier_extended)
           else Inl ambiguous_extended_tier)
      | _ \<Rightarrow> Inr (pricing_base pricing, Tier_base))"

definition zero_amount :: DecimalAmount where
  "zero_amount = \<lparr>coefficient = 0, scale = 0\<rparr>"

definition bucket_amount ::
  "PriceRate option \<Rightarrow> CostEstimateUnit \<Rightarrow> u64 \<Rightarrow> CostEstimateUnavailableReason + DecimalAmount" where
  "bucket_amount price unit tokens =
     (if tokens = 0 then Inr zero_amount
      else case Option.bind price (\<lambda>p. price_for_unit p unit) of
          None \<Rightarrow> Inl missing_rate
        | Some rate \<Rightarrow> scaled_amount rate tokens)"

definition cost_estimate_unit_name :: "CostEstimateUnit \<Rightarrow> string" where
  "cost_estimate_unit_name unit = (case unit of Unit_usd \<Rightarrow> ''USD'' | Unit_venice_diem \<Rightarrow> ''venice.diem'')"

definition cost_estimate_reason_name :: "CostEstimateUnavailableReason \<Rightarrow> string" where
  "cost_estimate_reason_name reason =
     (case reason of
        usage_unobserved \<Rightarrow> ''usage unavailable''
      | pricing_unobserved \<Rightarrow> ''pricing unavailable''
      | invalid_pricing \<Rightarrow> ''pricing invalid''
      | inconsistent_usage \<Rightarrow> ''usage inconsistent''
      | ambiguous_extended_tier \<Rightarrow> ''pricing tier ambiguous''
      | cache_write_usage_unavailable \<Rightarrow> ''cache-write usage unavailable''
      | missing_rate \<Rightarrow> ''rate unavailable''
      | arithmetic_overflow \<Rightarrow> ''arithmetic unavailable'')"

definition estimate_inference_cost ::
  "InferenceUsageRecord \<Rightarrow> CostEstimateUnit \<Rightarrow> CostEstimateUnavailableReason + InferenceCostEstimate" where
  "estimate_inference_cost r unit =
     fail_if (\<not> iur_usage_observed r) usage_unobserved
     (case iur_pricing_observation r of
        None \<Rightarrow> Inl pricing_unobserved
      | Some observation \<Rightarrow>
         (let usage = iur_usage r;
              overflow = (\<lambda>_ :: MoneyErrorCode. arithmetic_overflow)
          in
          fail_if (isl (validate_pricing_observation observation)) invalid_pricing
         (fail_if (cached_input_tokens usage > input_tokens usage \<or>
                   reasoning_tokens usage > output_tokens usage) inconsistent_usage
         (bind_result (select_tier usage (po_pricing observation)) (\<lambda>(tier, selection).
          fail_if (tier_cache_write tier \<noteq> None) cache_write_usage_unavailable
         (fail_if (\<not> unit_present tier unit) missing_rate
         (bind_result (bucket_amount (tier_input tier) unit
                         (input_tokens usage - cached_input_tokens usage)) (\<lambda>input.
          bind_result (bucket_amount (tier_cache_input tier) unit (cached_input_tokens usage)) (\<lambda>cached.
          bind_result (bucket_amount (tier_output tier) unit (output_tokens usage)) (\<lambda>output.
          bind_result (map_error overflow (amount_add input cached)) (\<lambda>input_and_cache.
          bind_result (map_error overflow (amount_add input_and_cache output)) (\<lambda>all_tokens.
          bind_result (map_error overflow
              (MonetaryAmount_create (cost_estimate_unit_name unit) all_tokens)) (\<lambda>amount.
          Inr \<lparr>ice_amount = amount, ice_tier = selection,
               ice_rate_card_digest = po_rate_card_digest observation\<rparr>)))))))))))))"

section \<open>The cost of a session\<close>

definition add_failure ::
  "CostEstimateUnavailableReason \<Rightarrow> CostEstimateFailureCount list \<Rightarrow> CostEstimateFailureCount list" where
  "add_failure reason fs =
     (case find (\<lambda>f. failure_reason f = reason) fs of
        None \<Rightarrow> fs @ [\<lparr>failure_reason = reason, failure_count = 1\<rparr>]
      | Some _ \<Rightarrow> modify_first (\<lambda>f. failure_reason f = reason)
                     (\<lambda>f. f\<lparr>failure_count := failure_count f + 1\<rparr>) fs)"

definition reported_usd :: "ReportedCost \<Rightarrow> MonetaryAmount option" where
  "reported_usd cost = find (\<lambda>m. money_unit m = ''USD'') (cost_amounts cost)"

fun estimate_loop ::
  "CostEstimateUnit \<Rightarrow> InferenceUsageRecord list \<Rightarrow> DecimalAmount option \<Rightarrow> SessionCostEstimate
    \<Rightarrow> DecimalAmount option \<times> SessionCostEstimate" where
  "estimate_loop unit [] running result = (running, result)"
| "estimate_loop unit (r # rs) running result =
     (case estimate_inference_cost r unit of
        Inl reason \<Rightarrow>
          estimate_loop unit rs running
            (result\<lparr>sce_unavailable := add_failure reason (sce_unavailable result)\<rparr>)
      | Inr estimate \<Rightarrow>
          (let result1 = result\<lparr>sce_estimated_inferences := sce_estimated_inferences result + 1\<rparr>;
               amount = money_amount (ice_amount estimate)
           in case running of
                None \<Rightarrow> estimate_loop unit rs (Some amount) result1
              | Some t \<Rightarrow>
                  (case amount_add t amount of
                     Inl _ \<Rightarrow> estimate_loop unit rs None
                       (result1\<lparr>sce_aggregation_failure := Some arithmetic_overflow\<rparr>)
                   | Inr combined \<Rightarrow>
                       estimate_loop unit rs
                         (if sce_aggregation_failure result1 = None then Some combined else Some t)
                         result1)))"

definition summarize_cost_estimates ::
  "InferenceUsageRecord list \<Rightarrow> CostEstimateUnit \<Rightarrow> SessionCostEstimate" where
  "summarize_cost_estimates records unit =
     (let (running, result) = estimate_loop unit records None
            \<lparr>sce_unit = unit, sce_subtotal = None, sce_estimated_inferences = 0,
             sce_total_inferences = length records, sce_unavailable = [],
             sce_aggregation_failure = None\<rparr>
      in case running of
           None \<Rightarrow> result
         | Some t \<Rightarrow>
             (if sce_aggregation_failure result \<noteq> None then result
              else case MonetaryAmount_create (cost_estimate_unit_name unit) t of
                  Inl _ \<Rightarrow> result\<lparr>sce_aggregation_failure := Some arithmetic_overflow\<rparr>
                | Inr subtotal \<Rightarrow> result\<lparr>sce_subtotal := Some subtotal\<rparr>))"

text \<open>What one record adds to a session, and whether the provider reported it.\<close>

definition record_amount ::
  "InferenceUsageRecord \<Rightarrow> CostEstimateUnavailableReason + bool \<times> DecimalAmount" where
  "record_amount r =
     (case Option.bind (iur_reported_cost r) reported_usd of
        Some reported \<Rightarrow> Inr (True, money_amount reported)
      | None \<Rightarrow> bind_result (estimate_inference_cost r Unit_usd) (\<lambda>estimate.
          Inr (False, money_amount (ice_amount estimate))))"

text \<open>The loop stops at the first sum that overflows; \<open>None\<close> is the total that was reset.\<close>

fun spend_loop ::
  "InferenceUsageRecord list \<Rightarrow> DecimalAmount \<Rightarrow> SessionSpendSummary
    \<Rightarrow> DecimalAmount option \<times> SessionSpendSummary" where
  "spend_loop [] running result = (Some running, result)"
| "spend_loop (r # rs) running result =
     (case record_amount r of
        Inl reason \<Rightarrow>
          spend_loop rs running (result\<lparr>sss_unavailable := add_failure reason (sss_unavailable result)\<rparr>)
      | Inr (reported, amount) \<Rightarrow>
          (let result1 =
             (if reported then result\<lparr>sss_reported_inferences := sss_reported_inferences result + 1\<rparr>
              else result\<lparr>sss_estimated_inferences := sss_estimated_inferences result + 1\<rparr>)
           in case amount_add running amount of
                Inl _ \<Rightarrow> (None, result1\<lparr>sss_aggregation_failure := Some arithmetic_overflow\<rparr>)
              | Inr combined \<Rightarrow> spend_loop rs combined result1))"

definition empty_summary :: "SessionSpendCeiling \<Rightarrow> nat \<Rightarrow> SessionSpendSummary" where
  "empty_summary bound n =
     \<lparr>sss_ceiling = bound, sss_accounted = None, sss_remaining = None, sss_reported_inferences = 0,
      sss_estimated_inferences = 0, sss_total_inferences = n, sss_unavailable = [],
      sss_aggregation_failure = None, sss_reached = False, sss_inference_accounted = None,
      sss_tool_accounted = None, sss_tool_reserved_maximum = None,
      sss_tool_reconciliation_maximum = None, sss_tool_provider_reported_amount = None,
      sss_tool_catalog_estimate_amount = None, sss_tool_policy_upper_bound_amount = None,
      sss_tool_reservations = 0, sss_tool_reserved = 0, sss_tool_released = 0,
      sss_tool_reconciliation_required = 0, sss_tool_provider_reported = 0,
      sss_tool_catalog_estimate = 0, sss_tool_policy_upper_bound = 0\<rparr>"

text \<open>
  From the total to the summary: what is accounted, whether the ceiling is reached and what remains.
  A remaining amount that cannot be formed takes the accounted one back.
\<close>

definition finish_spend :: "DecimalAmount \<Rightarrow> SessionSpendSummary \<Rightarrow> SessionSpendSummary" where
  "finish_spend t result =
     (case MonetaryAmount_create ''USD'' t of
        Inl _ \<Rightarrow> result\<lparr>sss_aggregation_failure := Some arithmetic_overflow\<rparr>
      | Inr accounted \<Rightarrow>
          (let bound = ceiling_amount (sss_ceiling result);
               is_reached = amount_compare t bound \<noteq> ordering_less;
               result1 = result\<lparr>sss_accounted := Some accounted, sss_reached := is_reached\<rparr>;
               failed = result1\<lparr>sss_accounted := None, sss_aggregation_failure := Some arithmetic_overflow\<rparr>
           in case (if is_reached then Inr zero_amount else amount_subtract bound t) of
                Inl _ \<Rightarrow> failed
              | Inr rest \<Rightarrow>
                  (case MonetaryAmount_create ''USD'' rest of
                     Inl _ \<Rightarrow> failed
                   | Inr remaining \<Rightarrow> result1\<lparr>sss_remaining := Some remaining\<rparr>)))"

definition summarize_session_spend ::
  "InferenceUsageRecord list \<Rightarrow> SessionSpendCeiling \<Rightarrow> SessionSpendSummary" where
  "summarize_session_spend records bound =
     (let (running, result) = spend_loop records zero_amount (empty_summary bound (length records))
      in case running of
           None \<Rightarrow> result
         | Some t \<Rightarrow>
             (if sss_aggregation_failure result \<noteq> None \<or>
                 sss_reported_inferences result + sss_estimated_inferences result \<noteq> sss_total_inferences result
              then result else finish_spend t result))"

section \<open>The product is exact\<close>

fun limbs_value :: "u64 list \<Rightarrow> nat" where
  "limbs_value [] = 0"
| "limbs_value (p # ps) = unat p + 10 ^ 9 * limbs_value ps"

lemma unat_limb_base: "unat limb_base = 10 ^ 9"
  by (simp add: limb_base_def)

lemma unat_limb: "unat (p mod limb_base) = unat p mod 10 ^ 9" "unat (p div limb_base) = unat p div 10 ^ 9"
  by (simp_all only: unat_mod unat_div unat_limb_base)

lemma limbs_value_split:
  "limbs_value (split_limbs n v) = unat v mod (10 ^ 9) ^ n"
proof (induction n arbitrary: v)
  case (Suc n)
  have "unat v mod (10 ^ 9) ^ Suc n = 10 ^ 9 * (unat v div 10 ^ 9 mod (10 ^ 9) ^ n) + unat v mod 10 ^ 9"
    by (simp only: power_Suc mod_mult2_eq)
  then show ?case by (simp only: split_limbs.simps limbs_value.simps Suc unat_limb add.commute)
qed simp

lemma split_limbs_three:
  obtains a b c where "split_limbs 3 v = [a, b, c]"
    and "unat a < 10 ^ 9" and "unat b < 10 ^ 9" and "unat c < 10 ^ 9"
    and "unat a + 10 ^ 9 * (unat b + 10 ^ 9 * unat c) = unat v"
proof -
  let ?a = "v mod limb_base" and ?b = "v div limb_base mod limb_base"
  let ?c = "v div limb_base div limb_base mod limb_base"
  have s: "split_limbs 3 v = [?a, ?b, ?c]" by (simp add: numeral_3_eq_3)
  have "unat v < (10 ^ 9) ^ 3" using unat_u64_less [of v] by simp
  then have "limbs_value (split_limbs 3 v) = unat v" by (simp only: limbs_value_split mod_less)
  then have "unat ?a + 10 ^ 9 * (unat ?b + 10 ^ 9 * unat ?c) = unat v"
    unfolding s by (simp only: limbs_value.simps mult_0_right add_0_right)
  with s show ?thesis by (intro that [of ?a ?b ?c]) (simp_all only: unat_limb, simp_all)
qed

lemma carry_limbs_spec:
  assumes "list_all (\<lambda>p. unat p \<le> 4 * 10 ^ 18) (tl ps)"
  shows "limbs_value (carry_limbs ps) = limbs_value ps \<and> length (carry_limbs ps) = length ps \<and>
    list_all (\<lambda>p. unat p < 10 ^ 9) (butlast (carry_limbs ps))"
  using assms
proof (induction ps rule: carry_limbs.induct)
  case (1 p q ps)
  have "unat p div 10 ^ 9 < 2 * 10 ^ 10" using unat_u64_less [of p] by simp
  with "1.prems" have "unat q + unat (p div limb_base) < 2 ^ 64" by (simp only: unat_limb) simp
  then have q: "unat (q + p div limb_base) = unat q + unat p div 10 ^ 9"
    by (simp add: unat_add_no_overflow unat_limb)
  have "carry_limbs (x # xs) \<noteq> []" for x xs by (cases xs) auto
  moreover have "unat p mod 10 ^ 9 + 10 ^ 9 * (unat p div 10 ^ 9) = unat p" by simp
  ultimately show ?case using "1.IH" "1.prems"
    by (simp add: unat_limb q algebra_simps)
qed auto


lemma accumulate_limbs_eq:
  "accumulate_limbs [a0, a1, a2] [b0, b1, b2] =
    [a0 * b0, a0 * b1 + a1 * b0, a0 * b2 + a1 * b1 + a2 * b0, a1 * b2 + a2 * b1, a2 * b2, 0, 0]"
  by (simp add: accumulate_limbs_def upt_rec numeral_eq_Suc)

lemma accumulate_limbs_value:
  assumes "unat a0 < 10 ^ 9" "unat a1 < 10 ^ 9" "unat a2 < 10 ^ 9"
    and "unat b0 < 10 ^ 9" "unat b1 < 10 ^ 9" "unat b2 < 10 ^ 9"
    and A: "A = unat a0 + 10 ^ 9 * (unat a1 + 10 ^ 9 * unat a2)"
    and B: "B = unat b0 + 10 ^ 9 * (unat b1 + 10 ^ 9 * unat b2)"
  shows "limbs_value (accumulate_limbs [a0, a1, a2] [b0, b1, b2]) = A * B"
    and "list_all (\<lambda>p. unat p \<le> 4 * 10 ^ 18) (accumulate_limbs [a0, a1, a2] [b0, b1, b2])"
proof -
  have prod: "unat (x * y) = unat x * unat y" "unat x * unat y \<le> 10 ^ 18"
    if "unat x < 10 ^ 9" "unat y < 10 ^ 9" for x y :: u64
  proof -
    have "unat x * unat y \<le> 10 ^ 9 * 10 ^ 9" using that by (intro mult_le_mono) simp_all
    then show "unat x * unat y \<le> 10 ^ 18" by simp
    then show "unat (x * y) = unat x * unat y" by (intro unat_mult_no_overflow) simp
  qed
  have add: "unat (x + y) = unat x + unat y" if "unat x \<le> 2 * 10 ^ 18" "unat y \<le> 10 ^ 18" for x y :: u64
    using that by (intro unat_add_no_overflow) simp
  note exact = prod(1) [OF assms(1,4)] prod(1) [OF assms(1,5)] prod(1) [OF assms(1,6)] prod(1) [OF assms(2,4)]
    prod(1) [OF assms(2,5)] prod(1) [OF assms(2,6)] prod(1) [OF assms(3,4)] prod(1) [OF assms(3,5)]
    prod(1) [OF assms(3,6)]
  note bounds = prod(2) [OF assms(1,4)] prod(2) [OF assms(1,5)] prod(2) [OF assms(1,6)] prod(2) [OF assms(2,4)]
    prod(2) [OF assms(2,5)] prod(2) [OF assms(2,6)] prod(2) [OF assms(3,4)] prod(2) [OF assms(3,5)]
    prod(2) [OF assms(3,6)]
  have u: "map unat (accumulate_limbs [a0, a1, a2] [b0, b1, b2]) =
      [unat a0 * unat b0, unat a0 * unat b1 + unat a1 * unat b0,
       unat a0 * unat b2 + unat a1 * unat b1 + unat a2 * unat b0,
       unat a1 * unat b2 + unat a2 * unat b1, unat a2 * unat b2, 0, 0]"
    using bounds by (simp add: accumulate_limbs_eq add exact)
  have v: "limbs_value ps = foldr (\<lambda>n acc. n + 10 ^ 9 * acc) (map unat ps) 0" for ps
    by (induction ps) simp_all
  show "limbs_value (accumulate_limbs [a0, a1, a2] [b0, b1, b2]) = A * B"
    unfolding v u A B by (simp add: algebra_simps)
  have l: "list_all (\<lambda>p. unat p \<le> n) ps \<longleftrightarrow> list_all (\<lambda>x. x \<le> n) (map unat ps)" for ps :: "u64 list" and n
    by (simp add: list_all_iff)
  show "list_all (\<lambda>p. unat p \<le> 4 * 10 ^ 18) (accumulate_limbs [a0, a1, a2] [b0, b1, b2])"
    unfolding l u using bounds by simp
qed

text \<open>Printing limbs, the highest first.\<close>

lemma padded_limb_props:
  "all_digits (padded_limb p)" "digits_value (padded_limb p) = unat p"
  "unat p < 10 ^ 9 \<Longrightarrow> length (padded_limb p) = 9"
proof -
  have "length (decimal (unat p)) \<le> 9" if "unat p < 10 ^ 9" using that by (intro length_decimal_le) simp_all
  then show "unat p < 10 ^ 9 \<Longrightarrow> length (padded_limb p) = 9" by (simp add: padded_limb_def Let_def)
qed (simp_all add: padded_limb_def Let_def all_digits_zeros digits_value_append list_all_append)

lemma padded_limbs_value:
  "list_all (\<lambda>p. unat p < 10 ^ 9) ps \<Longrightarrow>
    all_digits (concat (map padded_limb ps)) \<and> length (concat (map padded_limb ps)) = 9 * length ps \<and>
    digits_value (concat (map padded_limb ps)) = limbs_value (rev ps)"
proof (induction ps)
  case (Cons p ps)
  have snoc: "limbs_value (qs @ [p]) = limbs_value qs + unat p * (10 ^ 9) ^ length qs" for qs
    by (induction qs) (simp_all add: algebra_simps)
  have "(10 :: nat) ^ (9 * length ps) = (10 ^ 9) ^ length ps" by (rule power_mult)
  with Cons snoc [of "rev ps"] padded_limb_props [of p] show ?case
    by (simp add: digits_value_append list_all_append)
qed simp

lemma drop_high_limbs_props:
  assumes "ps \<noteq> []"
  shows "drop_high_limbs ps \<noteq> [] \<and> limbs_value (rev (drop_high_limbs ps)) = limbs_value (rev ps) \<and>
    set (drop_high_limbs ps) \<subseteq> set ps \<and> set (tl (drop_high_limbs ps)) \<subseteq> set (tl ps) \<and>
    (tl (drop_high_limbs ps) \<noteq> [] \<longrightarrow> hd (drop_high_limbs ps) \<noteq> 0)"
  using assms
proof (induction ps rule: drop_high_limbs.induct)
  case (1 p q ps)
  have "limbs_value (qs @ [0]) = limbs_value qs" for qs by (induction qs) simp_all
  from this [of "rev ps @ [q]"] 1 show ?case by (auto dest: list.set_sel(2) [rotated])
qed auto

lemma multiplied_text_eq: "multiplied_text left right = decimal (unat left * unat right)"
proof -
  obtain a0 a1 a2 where a: "split_limbs 3 left = [a0, a1, a2]"
    "unat a0 < 10 ^ 9" "unat a1 < 10 ^ 9" "unat a2 < 10 ^ 9"
    "unat a0 + 10 ^ 9 * (unat a1 + 10 ^ 9 * unat a2) = unat left" by (rule split_limbs_three)
  obtain b0 b1 b2 where b: "split_limbs 3 right = [b0, b1, b2]"
    "unat b0 < 10 ^ 9" "unat b1 < 10 ^ 9" "unat b2 < 10 ^ 9"
    "unat b0 + 10 ^ 9 * (unat b1 + 10 ^ 9 * unat b2) = unat right" by (rule split_limbs_three)
  define acc where "acc = accumulate_limbs [a0, a1, a2] [b0, b1, b2]"
  have acc: "limbs_value acc = unat left * unat right" "list_all (\<lambda>p. unat p \<le> 4 * 10 ^ 18) (tl acc)"
    "acc \<noteq> []"
    using accumulate_limbs_value [OF a(2-4) b(2-4) a(5) [symmetric] b(5) [symmetric]]
    unfolding acc_def accumulate_limbs_eq by (simp_all del: limbs_value.simps)
  define parts where "parts = carry_limbs acc"
  note carry = carry_limbs_spec [OF acc(2), folded parts_def]
  then have ne: "rev parts \<noteq> []" using acc(3) by auto
  define high where "high = drop_high_limbs (rev parts)"
  note dh = drop_high_limbs_props [OF ne, folded high_def]
  obtain h t where ht: "high = h # t" using dh by (cases high) auto
  have "tl (rev parts) = rev (butlast parts)" by (metis butlast_rev rev_rev_ident)
  then have "set t \<subseteq> set (butlast parts)" using dh ht by auto
  then have t: "list_all (\<lambda>p. unat p < 10 ^ 9) t" using carry by (auto simp: list_all_iff)
  let ?s = "decimal (unat h) @ concat (map padded_limb t)"
  note tv = padded_limbs_value [OF t]
  have "limbs_value (rev t @ [h]) = unat left * unat right"
    using dh ht carry acc(1) by simp
  moreover have "limbs_value (qs @ [h]) = limbs_value qs + unat h * (10 ^ 9) ^ length qs" for qs
    by (induction qs) (simp_all add: algebra_simps)
  ultimately have "digits_value ?s = unat left * unat right"
    using tv by (simp add: digits_value_append power_mult)
  moreover have "?s = decimal (digits_value ?s)"
  proof (rule canonical_digits)
    show "hd ?s \<noteq> CHR ''0''" if "1 < length ?s"
    proof (cases "unat h = 0")
      case True
      then have "t = []" using dh ht by (auto simp: unat_eq_0)
      moreover have "length (decimal 0) = 1" by (subst decimal.simps) simp
      ultimately show ?thesis using True that by simp
    qed (simp add: hd_append hd_decimal_nonzero)
  qed (use tv in \<open>simp_all add: list_all_append\<close>)
  ultimately show ?thesis
    using a(1) b(1) ht by (simp add: multiplied_text_def Let_def acc_def [symmetric]
        parts_def [symmetric] high_def [symmetric])
qed

lemma zero_amount_from: "DecimalAmount_from ''0'' = Inr zero_amount"
  by (simp add: DecimalAmount_from_def scan_fraction_def scan_exponent_def normalize_digits_def zero_amount_def)

text \<open>
  C26: multiplying two 64-bit numbers limb by limb gives the decimal digits of their exact product,
  up to 39 digits, without leading zeros; no addition of limbs wraps.
\<close>

theorem multiplied_text_exact: "multiplied_text left right = decimal (unat left * unat right)"
  by (rule multiplied_text_eq)

section \<open>Scaling a rate is exact\<close>

lemma strip_product_zeros_spec:
  assumes "strip_product_zeros t sc = (t', sc')" and "all_digits t" and "t \<noteq> []"
  shows "all_digits t' \<and> t' \<noteq> [] \<and> length t' \<le> length t \<and> sc' \<le> sc \<and>
    digits_value t = digits_value t' * 10 ^ (sc - sc')"
  using assms
proof (induction t sc rule: strip_product_zeros.induct)
  case (1 t sc)
  show ?case
  proof (cases "sc > 0 \<and> length t > 1 \<and> last t = CHR ''0''")
    case True
    then have "strip_product_zeros (butlast t) (sc - 1) = (t', sc')"
      using "1.prems"(1) by (simp add: strip_product_zeros.simps [of t])
    moreover have "all_digits (butlast t)" "butlast t \<noteq> []"
      using True "1.prems"(2) by (auto simp: list_all_iff dest: in_set_butlastD) (cases t; simp)+
    moreover have "digits_value t = digits_value (butlast t) * 10"
    proof -
      have "t = butlast t @ [CHR ''0'']" using True "1.prems"(3) append_butlast_last_id [of t] by simp
      then have "digits_value t = digits_value (butlast t @ [CHR ''0''])" by (rule arg_cong)
      then show ?thesis by simp
    qed
    moreover have "sc - sc' = Suc (sc - 1 - sc')" if "sc' \<le> sc - 1" using that True by auto
    ultimately show ?thesis using "1.IH" [OF True] True by auto
  qed (use "1.prems" in \<open>auto simp: strip_product_zeros.simps [of t]\<close>)
qed

lemma scaled_text_from:
  assumes "all_digits t" and "t \<noteq> []" and "length t \<le> 40" and "sc \<le> 24"
  shows "DecimalAmount_from (scaled_text t sc) = Inr a
    \<longleftrightarrow> amount_ok a \<and> amount_value a = of_nat (digits_value t) / 10 ^ sc"
proof -
  consider (whole) "sc = 0" | (small) "sc > 0" "length t \<le> sc" | (mixed) "sc > 0" "length t > sc" by linarith
  then show ?thesis
  proof cases
    case whole
    then show ?thesis
      using assms DecimalAmount_from_plain_iff [of t "[]" a] by (simp add: scaled_text_def plain_text_def)
  next
    case small
    let ?f = "replicate (sc - length t) CHR ''0'' @ t"
    have "scaled_text t sc = plain_text ''0'' ?f" using small assms(2) by (simp add: scaled_text_def plain_text_def)
    moreover have "digits_value (''0'' @ ?f) = digits_value t"
      by (simp add: digits_value_Cons digits_value_append)
    ultimately show ?thesis
      using small assms DecimalAmount_from_plain_iff [of "''0''" ?f a]
      by (simp add: list_all_append all_digits_zeros plain_text_def)
  next
    case mixed
    let ?w = "take (length t - sc) t" and ?f = "drop (length t - sc) t"
    have "all_digits ?w" "all_digits ?f" using assms(1) by (metis append_take_drop_id list_all_append)+
    moreover have "?w \<noteq> []" "?f \<noteq> []" "length ?f = sc" using mixed by auto
    ultimately show ?thesis
      using mixed assms DecimalAmount_from_plain_iff [of ?w ?f a]
      by (simp add: scaled_text_def insert_point_def plain_text_def)
  qed
qed

lemma scaled_amount_iff:
  assumes "amount_ok rate"
  shows "scaled_amount rate tokens = Inr a \<longleftrightarrow>
    amount_ok a \<and> amount_value a = amount_value rate * of_nat (unat tokens) / 10 ^ 6"
proof -
  let ?n = "unat (coefficient rate) * unat tokens" and ?sc = "scale rate + 6"
  obtain t sc where t: "strip_product_zeros (multiplied_text (coefficient rate) tokens) ?sc = (t, sc)"
    by fastforce
  have "?n \<le> 2 ^ 64 * 2 ^ 64" by (intro mult_le_mono less_imp_le unat_u64_less)
  then have "length (decimal ?n) \<le> 40" by (intro length_decimal_le) simp_all
  moreover have "all_digits t \<and> t \<noteq> [] \<and> length t \<le> length (decimal ?n) \<and> sc \<le> ?sc \<and>
      ?n = digits_value t * 10 ^ (?sc - sc)"
    using strip_product_zeros_spec [OF t [unfolded multiplied_text_eq] all_digits_decimal decimal_nonempty]
    unfolding digits_value_decimal .
  ultimately have st: "all_digits t" "t \<noteq> []" "length t \<le> 40" "sc \<le> ?sc"
    "?n = digits_value t * 10 ^ (?sc - sc)" by auto
  have "?sc \<le> 24" using assms by (simp add: amount_ok_def kMaximumScale_def)
  then have "scaled_amount rate tokens = Inr a \<longleftrightarrow>
      amount_ok a \<and> amount_value a = of_nat (digits_value t) / 10 ^ sc"
    using st t scaled_text_from [of t sc a] by (simp add: scaled_amount_def)
  moreover have "(of_nat (digits_value t) :: rat) / 10 ^ sc = of_nat ?n / 10 ^ ?sc"
  proof -
    have "(10 :: rat) ^ ?sc = 10 ^ (?sc - sc) * 10 ^ sc" using st(4) by (simp flip: power_add)
    then show ?thesis by (simp add: st(5))
  qed
  ultimately show ?thesis by (simp add: amount_value_def power_add)
qed

lemma scaled_amount_error: "scaled_amount rate tokens = Inl e \<Longrightarrow> e = arithmetic_overflow"
  by (auto simp: scaled_amount_def split: prod.splits) (metis map_error.simps(1) map_error.simps(2) obj_sumE sum.inject(1) sum.distinct(1))


text \<open>
  The cost of a number of tokens at a rate per million is exact: scaling succeeds exactly when
  the rational product divided by a million is representable as an amount, and then returns it;
  otherwise the error is the overflow reason.
\<close>

theorem scaled_amount_exact:
  assumes "amount_ok rate"
  shows "(scaled_amount rate tokens = Inr a \<longleftrightarrow>
      amount_ok a \<and> amount_value a = amount_value rate * of_nat (unat tokens) / 10 ^ 6) \<and>
    (scaled_amount rate tokens = Inl e \<longrightarrow> e = arithmetic_overflow)"
  using scaled_amount_iff [OF assms] scaled_amount_error by blast

theorem scaled_amount_exact_witness:
  "scaled_amount \<lparr>coefficient = 3, scale = 0\<rparr> 500000 = Inr \<lparr>coefficient = 15, scale = 1\<rparr>"
  using scaled_amount_exact [of "\<lparr>coefficient = 3, scale = 0\<rparr>" 500000 "\<lparr>coefficient = 15, scale = 1\<rparr>" missing_rate]
  by (simp add: amount_ok_def amount_value_def kMaximumScale_def)

section \<open>The estimate of one inference\<close>

lemma create_unit:
  "MonetaryAmount_create (cost_estimate_unit_name unit) x =
    Inr \<lparr>money_unit = cost_estimate_unit_name unit, money_amount = x\<rparr>"
  by (cases unit) (simp_all add: MonetaryAmount_create_def valid_unit_def ascii_alpha_def byte_def
      cost_estimate_unit_name_def)

text \<open>The rational cost of a bucket: its rate per million times its tokens; no tokens cost nothing.\<close>

definition bucket_value :: "PriceRate option \<Rightarrow> CostEstimateUnit \<Rightarrow> nat \<Rightarrow> rat" where
  "bucket_value price unit tokens =
     (case Option.bind price (\<lambda>p. price_for_unit p unit) of
        None \<Rightarrow> 0
      | Some rate \<Rightarrow> amount_value rate * of_nat tokens / 10 ^ 6)"

lemma zero_amount_props [simp]: "amount_ok zero_amount" "amount_value zero_amount = 0"
  by (simp_all add: zero_amount_def amount_ok_def amount_value_def)

lemma bucket_amount_value:
  assumes "option_ok rate_ok price" and "bucket_amount price unit tokens = Inr a"
  shows "amount_ok a \<and> amount_value a = bucket_value price unit (unat tokens)"
proof (cases "tokens = 0")
  case True
  with assms(2) show ?thesis
    by (auto simp: bucket_amount_def bucket_value_def split: option.splits)
next
  case False
  with assms(2) obtain rate where r: "Option.bind price (\<lambda>p. price_for_unit p unit) = Some rate"
    "scaled_amount rate tokens = Inr a" by (auto simp: bucket_amount_def split: option.splits)
  then have "amount_ok rate"
    using assms(1) by (auto simp: bind_eq_Some_conv rate_ok_def price_for_unit_def option_ok_def split: if_splits option.splits)
  with r show ?thesis by (simp add: scaled_amount_iff bucket_value_def)
qed

lemma amount_add_Inr:
  "amount_ok l \<Longrightarrow> amount_ok r \<Longrightarrow> amount_add l r = Inr s \<Longrightarrow>
    amount_ok s \<and> amount_value s = amount_value l + amount_value r"
  using amount_add_spec [of l r _ _, OF _ _ refl refl] by fastforce

lemma select_tier_ok:
  "pricing_ok p \<Longrightarrow> select_tier u p = Inr (tier, sel) \<Longrightarrow> tier_ok tier"
  by (auto simp: select_tier_def pricing_ok_def option_ok_def split: option.splits if_splits)

lemma estimate_value:
  assumes e: "estimate_inference_cost r unit = Inr est" and ob: "iur_pricing_observation r = Some ob"
    and ok: "pricing_ok (po_pricing ob)"
  shows "\<exists>tier. select_tier (iur_usage r) (po_pricing ob) = Inr (tier, ice_tier est) \<and>
    money_unit (ice_amount est) = cost_estimate_unit_name unit \<and> amount_ok (money_amount (ice_amount est)) \<and>
    amount_value (money_amount (ice_amount est)) =
      bucket_value (tier_input tier) unit
        (unat (input_tokens (iur_usage r)) - unat (cached_input_tokens (iur_usage r))) +
      bucket_value (tier_cache_input tier) unit (unat (cached_input_tokens (iur_usage r))) +
      bucket_value (tier_output tier) unit (unat (output_tokens (iur_usage r)))"
proof -
  let ?u = "iur_usage r"
  obtain tier sel i c o1 ic t m where
    cached: "cached_input_tokens ?u \<le> input_tokens ?u" and
    sel: "select_tier ?u (po_pricing ob) = Inr (tier, sel)" and
    i: "bucket_amount (tier_input tier) unit (input_tokens ?u - cached_input_tokens ?u) = Inr i" and
    c: "bucket_amount (tier_cache_input tier) unit (cached_input_tokens ?u) = Inr c" and
    out: "bucket_amount (tier_output tier) unit (output_tokens ?u) = Inr o1" and
    sums: "amount_add i c = Inr ic" "amount_add ic o1 = Inr t" and
    m: "MonetaryAmount_create (cost_estimate_unit_name unit) t = Inr m" and
    est: "est = \<lparr>ice_amount = m, ice_tier = sel, ice_rate_card_digest = po_rate_card_digest ob\<rparr>"
    using e by (auto simp: estimate_inference_cost_def ob Let_def not_less)
  have "tier_ok tier" using select_tier_ok [OF ok sel] .
  then have b: "amount_ok i" "amount_ok c" "amount_ok o1"
    "amount_value i = bucket_value (tier_input tier) unit (unat (input_tokens ?u - cached_input_tokens ?u))"
    "amount_value c = bucket_value (tier_cache_input tier) unit (unat (cached_input_tokens ?u))"
    "amount_value o1 = bucket_value (tier_output tier) unit (unat (output_tokens ?u))"
    using bucket_amount_value [OF _ i] bucket_amount_value [OF _ c] bucket_amount_value [OF _ out]
    by (simp_all add: tier_ok_def)
  moreover note amount_add_Inr [OF b(1,2) sums(1)]
  moreover from this have "amount_ok t \<and> amount_value t = amount_value ic + amount_value o1"
    using amount_add_Inr [OF _ b(3) sums(2)] by blast
  moreover have "unat (input_tokens ?u - cached_input_tokens ?u)
      = unat (input_tokens ?u) - unat (cached_input_tokens ?u)"
    using cached by (rule unat_sub)
  ultimately show ?thesis
    using sel m est by (auto simp: MonetaryAmount_create_def)
qed

text \<open>
  An estimate is exact: uncached input, cached input and output tokens are each priced at the
  rate of the selected tier, in the unit asked for, and the estimate is their rational sum.
\<close>

theorem estimate_inference_cost_exact:
  assumes "estimate_inference_cost r unit = Inr est" and "iur_pricing_observation r = Some ob"
    and "pricing_ok (po_pricing ob)"
  shows "\<exists>tier. select_tier (iur_usage r) (po_pricing ob) = Inr (tier, ice_tier est) \<and>
    money_unit (ice_amount est) = cost_estimate_unit_name unit \<and>
    amount_value (money_amount (ice_amount est)) =
      bucket_value (tier_input tier) unit
        (unat (input_tokens (iur_usage r)) - unat (cached_input_tokens (iur_usage r))) +
      bucket_value (tier_cache_input tier) unit (unat (cached_input_tokens (iur_usage r))) +
      bucket_value (tier_output tier) unit (unat (output_tokens (iur_usage r)))"
  using estimate_value [OF assms] by blast

definition sample_rate_card :: TextPricing where
  "sample_rate_card =
     \<lparr>pricing_base =
        \<lparr>tier_input = Some \<lparr>usd = Some \<lparr>coefficient = 3, scale = 0\<rparr>, diem = None\<rparr>,
         tier_output = Some \<lparr>usd = Some \<lparr>coefficient = 15, scale = 0\<rparr>, diem = None\<rparr>,
         tier_cache_input = None, tier_cache_write = None\<rparr>,
      extended_threshold_tokens = None, pricing_extended = None\<rparr>"

definition sample_observation :: PricingObservation where
  "sample_observation =
     \<lparr>po_model_id = Id ''model'', po_source_id = ''catalog'', po_source_revision = None, po_fetched_at = 1,
      po_origin = Origin_live, po_basis = per_million_tokens, po_pricing = sample_rate_card,
      po_rate_card_digest = pricing_digest (Id ''model'') sample_rate_card\<rparr>"

definition sample_priced_record :: InferenceUsageRecord where
  "sample_priced_record =
     \<lparr>iur_run_id = Id ''run'', iur_inference_id = Id ''i1'', iur_model_id = Id ''model'', iur_started_at = 1,
      iur_ended_at = None, iur_status = Usage_active,
      iur_usage = \<lparr>input_tokens = 1000, output_tokens = 200, cached_input_tokens = 0, reasoning_tokens = 0\<rparr>,
      iur_usage_observed = True, iur_reported_cost = None,
      iur_pricing_observation = Some sample_observation\<rparr>"

theorem estimate_inference_cost_exact_witness:
  "\<exists>est. estimate_inference_cost sample_priced_record Unit_usd = Inr est \<and>
    amount_value (money_amount (ice_amount est)) = 6 / 1000"
proof -
  have valid: "validate_pricing_observation sample_observation = Inr ()"
    by (simp add: validate_pricing_observation_def sample_observation_def sample_rate_card_def validate_pricing_def
        pricing_valid_identity_def kMaximumIdentityBytes_def ascii_alpha_def byte_def valid_tier_def valid_rate_def
        tier_has_rate_def)
  have parts: "bucket_amount (Some \<lparr>usd = Some \<lparr>coefficient = 3, scale = 0\<rparr>, diem = None\<rparr>) Unit_usd 1000
      = Inr \<lparr>coefficient = 3, scale = 3\<rparr>"
    "bucket_amount (Some \<lparr>usd = Some \<lparr>coefficient = 15, scale = 0\<rparr>, diem = None\<rparr>) Unit_usd 200
      = Inr \<lparr>coefficient = 3, scale = 3\<rparr>"
    "bucket_amount None Unit_usd 0 = Inr \<lparr>coefficient = 0, scale = 0\<rparr>"
    by (simp_all add: bucket_amount_def price_for_unit_def scaled_amount_iff amount_ok_def amount_value_def
        kMaximumScale_def zero_amount_def)
  have sums: "amount_add \<lparr>coefficient = 3, scale = 3\<rparr> \<lparr>coefficient = 0, scale = 0\<rparr> = Inr \<lparr>coefficient = 3, scale = 3\<rparr>"
    "amount_add \<lparr>coefficient = 3, scale = 3\<rparr> \<lparr>coefficient = 3, scale = 3\<rparr> = Inr \<lparr>coefficient = 6, scale = 3\<rparr>"
    by code_simp+
  have "ok (estimate_inference_cost sample_priced_record Unit_usd)"
    using valid parts sums by (simp add: estimate_inference_cost_def create_unit sample_priced_record_def sample_observation_def
        sample_rate_card_def select_tier_def unit_present_def price_for_unit_def)
  then obtain est where est: "estimate_inference_cost sample_priced_record Unit_usd = Inr est"
    by (auto simp: ok_iff)
  have ob: "iur_pricing_observation sample_priced_record = Some sample_observation"
    by (simp add: sample_priced_record_def)
  have "pricing_ok (po_pricing sample_observation)"
    by (simp add: sample_observation_def sample_rate_card_def pricing_ok_def tier_ok_def rate_ok_def amount_ok_def)
  from estimate_inference_cost_exact [OF est ob this] est show ?thesis
    by (auto simp: sample_observation_def sample_rate_card_def select_tier_def bucket_value_def
        price_for_unit_def amount_value_def sample_priced_record_def)
qed

section \<open>The session totals are exact\<close>

definition usage_record_ok :: "InferenceUsageRecord \<Rightarrow> bool" where
  "usage_record_ok r \<longleftrightarrow> option_ok cost_ok (iur_reported_cost r) \<and>
     option_ok (\<lambda>ob. pricing_ok (po_pricing ob)) (iur_pricing_observation r)"

definition record_value :: "InferenceUsageRecord \<Rightarrow> rat" where
  "record_value r = (case record_amount r of Inl _ \<Rightarrow> 0 | Inr (_, a) \<Rightarrow> amount_value a)"

lemma estimate_ok:
  "usage_record_ok r \<Longrightarrow> estimate_inference_cost r unit = Inr est \<Longrightarrow> amount_ok (money_amount (ice_amount est))"
proof -
  assume r: "usage_record_ok r" "estimate_inference_cost r unit = Inr est"
  then obtain ob where "iur_pricing_observation r = Some ob"
    by (auto simp: estimate_inference_cost_def split: option.split_asm)
  with r estimate_value [OF r(2)] show ?thesis by (auto simp: usage_record_ok_def)
qed

lemma record_amount_ok:
  assumes "usage_record_ok r" and "record_amount r = Inr (b, a)"
  shows "amount_ok a"
proof (cases "Option.bind (iur_reported_cost r) reported_usd")
  case None
  with assms show ?thesis by (auto simp: record_amount_def dest: estimate_ok)
next
  case (Some m)
  then obtain c where "iur_reported_cost r = Some c" "m \<in> set (cost_amounts c)"
    by (auto simp: bind_eq_Some_conv reported_usd_def dest: find_SomeD)
  with Some assms show ?thesis by (auto simp: record_amount_def usage_record_ok_def cost_ok_def list_all_iff)
qed

definition failures :: "CostEstimateFailureCount list \<Rightarrow> nat" where
  "failures fs = sum_list (map failure_count fs)"

lemma failures_add: "failures (add_failure reason fs) = failures fs + 1"
proof (cases "find (\<lambda>f. failure_reason f = reason) fs")
  case (Some f)
  then have "failures (modify_first (\<lambda>f. failure_reason f = reason)
      (\<lambda>f. f\<lparr>failure_count := failure_count f + 1\<rparr>) fs) = failures fs + 1"
    unfolding failures_def by (induction fs) (auto split: if_splits)
  with Some show ?thesis by (simp add: add_failure_def)
qed (simp add: add_failure_def failures_def)

lemma spend_loop_total:
  assumes "spend_loop rs t res = (Some t', res')" and "list_all usage_record_ok rs" and "amount_ok t"
  shows "amount_ok t' \<and> amount_value t' = amount_value t + sum_list (map record_value rs)"
  using assms
proof (induction rs t res rule: spend_loop.induct)
  case (2 r rs t res)
  show ?case
  proof (cases "record_amount r")
    case (Inl reason)
    with 2 show ?thesis by (simp add: record_value_def)
  next
    case (Inr p)
    obtain b a where p: "p = (b, a)" by fastforce
    with Inr "2.prems"(2) have a: "amount_ok a" by (auto intro: record_amount_ok)
    from Inr p "2.prems"(1) obtain s where s: "amount_add t a = Inr s"
      by (auto simp: Let_def split: sum.split_asm)
    with Inr p "2.IH"(2) [OF Inr p [symmetric] refl s] "2.prems" amount_add_Inr [OF "2.prems"(3) a s]
    show ?thesis by (simp add: record_value_def Let_def)
  qed
qed simp

lemma spend_loop_counts:
  "spend_loop rs t res = (Some t', res') \<Longrightarrow>
    sss_ceiling res' = sss_ceiling res \<and> sss_total_inferences res' = sss_total_inferences res \<and>
    sss_aggregation_failure res' = sss_aggregation_failure res \<and>
    sss_reported_inferences res' + sss_estimated_inferences res' + failures (sss_unavailable res') =
      sss_reported_inferences res + sss_estimated_inferences res + failures (sss_unavailable res) + length rs \<and>
    sss_reported_inferences res' + sss_estimated_inferences res' =
      sss_reported_inferences res + sss_estimated_inferences res +
      length (filter (\<lambda>r. \<not> isl (record_amount r)) rs)"
proof (induction rs t res rule: spend_loop.induct)
  case (2 r rs t res)
  show ?case
  proof (cases "record_amount r")
    case (Inl reason)
    with 2 show ?thesis by (simp add: failures_add)
  next
    case (Inr p)
    obtain b a where p: "p = (b, a)" by fastforce
    from Inr p "2.prems"(1) obtain s where s: "amount_add t a = Inr s"
      by (auto simp: Let_def split: sum.split_asm)
    with Inr p "2.IH"(2) [OF Inr p [symmetric] refl s] "2.prems" show ?thesis by (cases b) (simp_all add: Let_def)
  qed
qed simp

lemma finish_spend_spec:
  assumes "finish_spend t res = res'" and "sss_accounted res' = Some m" and "sss_accounted res = None"
    and "amount_ok t" and "amount_ok (ceiling_amount (sss_ceiling res))"
  shows "m = \<lparr>money_unit = ''USD'', money_amount = t\<rparr> \<and>
    (sss_reached res' \<longleftrightarrow> amount_value (ceiling_amount (sss_ceiling res)) \<le> amount_value t) \<and>
    (\<exists>rest. sss_remaining res' = Some \<lparr>money_unit = ''USD'', money_amount = rest\<rparr> \<and> amount_ok rest \<and>
      amount_value rest = max 0 (amount_value (ceiling_amount (sss_ceiling res)) - amount_value t))"
proof -
  let ?c = "ceiling_amount (sss_ceiling res)"
  have create: "MonetaryAmount_create ''USD'' x = Inr \<lparr>money_unit = ''USD'', money_amount = x\<rparr>" for x
    using create_unit [of Unit_usd x] by (simp add: cost_estimate_unit_name_def)
  show ?thesis
  proof (cases "amount_value t < amount_value ?c")
    case True
    then have cmp: "amount_compare t ?c = ordering_less" by (simp add: amount_compare_eq)
    from assms(1,2) cmp obtain rest where rest: "amount_subtract ?c t = Inr rest"
      by (auto simp: finish_spend_def create Let_def split: sum.split_asm)
    have "amount_value rest = amount_value ?c - amount_value t \<and> amount_ok rest"
      using rest True assms(4,5) by (simp add: amount_subtract_value)
    with assms(1,2) cmp rest True show ?thesis
      by (auto simp: finish_spend_def create Let_def)
  next
    case False
    then have "amount_compare t ?c \<noteq> ordering_less" by (simp add: amount_compare_eq)
    with assms(1,2) False show ?thesis by (auto simp: finish_spend_def create Let_def)
  qed
qed

lemma session_spend_total:
  assumes "list_all usage_record_ok records" and "amount_ok (ceiling_amount bound)"
    and "summary = summarize_session_spend records bound" and "sss_accounted summary = Some m"
  shows "list_all (\<lambda>r. \<not> isl (record_amount r)) records \<and> money_unit m = ''USD'' \<and> amount_ok (money_amount m) \<and>
    amount_value (money_amount m) = sum_list (map record_value records) \<and>
    (sss_reached summary \<longleftrightarrow> amount_value (ceiling_amount bound) \<le> sum_list (map record_value records)) \<and>
    (\<exists>rest. sss_remaining summary = Some rest \<and>
      amount_value (money_amount rest) =
        max 0 (amount_value (ceiling_amount bound) - sum_list (map record_value records)))"
proof -
  let ?e = "empty_summary bound (length records)"
  obtain rt res where loop: "spend_loop records zero_amount ?e = (rt, res)" by fastforce
  have acc: "spend_loop rs t r0 = (x, r1) \<Longrightarrow> sss_accounted r1 = sss_accounted r0" for rs t r0 x r1
    by (induction rs t r0 rule: spend_loop.induct) (auto simp: Let_def split: sum.split_asm if_split_asm)
  then have none: "sss_accounted res = None" using loop by (simp add: empty_summary_def)
  with assms(3,4) loop obtain t where t: "rt = Some t" "summary = finish_spend t res"
    "sss_reported_inferences res + sss_estimated_inferences res = sss_total_inferences res"
    by (auto simp: summarize_session_spend_def split: option.split_asm if_split_asm)
  note counts = spend_loop_counts [OF loop [unfolded t(1)]]
  have "amount_ok t \<and> amount_value t = sum_list (map record_value records)"
    using spend_loop_total [OF loop [unfolded t(1)] assms(1)] by simp
  moreover have "sss_ceiling res = bound" using counts by (simp add: empty_summary_def)
  moreover have "length (filter (\<lambda>r. \<not> isl (record_amount r)) records) = length records"
    using counts t(3) by (simp add: empty_summary_def)
  then have "list_all (\<lambda>r. \<not> isl (record_amount r)) records"
    unfolding list_all_iff by (metis length_filter_less less_irrefl)
  ultimately show ?thesis
    using finish_spend_spec [OF t(2) [symmetric] assms(4) none] assms(2) by auto
qed

text \<open>
  What a session summary accounts for is exact: it is given only when every inference has a
  reported or estimated cost, and is then the rational sum of those costs; the ceiling counts as
  reached exactly when the sum is not below it, and what remains is the difference, or zero.
\<close>

theorem session_spend_exact:
  assumes "list_all usage_record_ok records" and "amount_ok (ceiling_amount bound)"
    and "summary = summarize_session_spend records bound" and "sss_accounted summary = Some m"
  shows "list_all (\<lambda>r. \<not> isl (record_amount r)) records \<and> money_unit m = ''USD'' \<and>
    amount_value (money_amount m) = sum_list (map record_value records) \<and>
    (sss_reached summary \<longleftrightarrow> amount_value (ceiling_amount bound) \<le> sum_list (map record_value records)) \<and>
    (\<exists>rest. sss_remaining summary = Some rest \<and>
      amount_value (money_amount rest) =
        max 0 (amount_value (ceiling_amount bound) - sum_list (map record_value records)))"
  using session_spend_total [OF assms] by blast

definition sample_record :: "DecimalAmount \<Rightarrow> InferenceUsageRecord" where
  "sample_record a =
     \<lparr>iur_run_id = Id ''run'', iur_inference_id = Id ''i1'', iur_model_id = Id ''model'', iur_started_at = 1,
      iur_ended_at = None, iur_status = Usage_active,
      iur_usage = \<lparr>input_tokens = 0, output_tokens = 0, cached_input_tokens = 0, reasoning_tokens = 0\<rparr>,
      iur_usage_observed = False,
      iur_reported_cost = Some \<lparr>cost_amounts = [\<lparr>money_unit = ''USD'', money_amount = a\<rparr>]\<rparr>,
      iur_pricing_observation = None\<rparr>"

theorem session_spend_exact_witness:
  "let records = [sample_record \<lparr>coefficient = 15, scale = 1\<rparr>, sample_record \<lparr>coefficient = 1, scale = 0\<rparr>];
       summary = summarize_session_spend records \<lparr>ceiling_amount = \<lparr>coefficient = 4, scale = 0\<rparr>\<rparr>
   in \<exists>m. sss_accounted summary = Some m \<and> amount_value (money_amount m) = 5 / 2"
proof -
  let ?records = "[sample_record \<lparr>coefficient = 15, scale = 1\<rparr>, sample_record \<lparr>coefficient = 1, scale = 0\<rparr>]"
  let ?bound = "\<lparr>ceiling_amount = \<lparr>coefficient = 4, scale = 0\<rparr>\<rparr>"
  have "sss_accounted (summarize_session_spend ?records ?bound) =
      Some \<lparr>money_unit = ''USD'', money_amount = \<lparr>coefficient = 25, scale = 1\<rparr>\<rparr>" by code_simp
  moreover have "list_all usage_record_ok ?records"
    by (simp add: usage_record_ok_def sample_record_def cost_ok_def kMaximumUnits_def amount_ok_def kMaximumScale_def)
  moreover have "amount_ok (ceiling_amount ?bound)" by (simp add: amount_ok_def)
  moreover have "sum_list (map record_value ?records) = 5 / 2"
    by (simp add: record_value_def record_amount_def sample_record_def reported_usd_def amount_value_def)
  ultimately show ?thesis using session_spend_exact [of ?records ?bound] by (auto simp only: Let_def)
qed

lemma estimate_loop_spec:
  assumes "estimate_loop unit rs rt res = (rt', res')" and "list_all usage_record_ok rs"
    and "option_ok amount_ok rt"
  shows "sce_estimated_inferences res' + failures (sce_unavailable res') =
      sce_estimated_inferences res + failures (sce_unavailable res) + length rs \<and>
    sce_total_inferences res' = sce_total_inferences res \<and> sce_subtotal res' = sce_subtotal res \<and>
    (sce_aggregation_failure res \<noteq> None \<longrightarrow> sce_aggregation_failure res' \<noteq> None) \<and>
    (sce_aggregation_failure res' = None \<longrightarrow> option_ok amount_ok rt' \<and>
      (case rt' of None \<Rightarrow> 0 | Some t \<Rightarrow> amount_value t) =
      (case rt of None \<Rightarrow> 0 | Some t \<Rightarrow> amount_value t) +
      sum_list (map (\<lambda>r. case estimate_inference_cost r unit of Inl _ \<Rightarrow> 0
        | Inr e \<Rightarrow> amount_value (money_amount (ice_amount e))) rs))"
  using assms
proof (induction unit rs rt res rule: estimate_loop.induct)
  case (2 unit r rs rt res)
  show ?case
  proof (cases "estimate_inference_cost r unit")
    case (Inl reason)
    with 2 show ?thesis by (simp add: failures_add)
  next
    case (Inr est)
    let ?res = "res\<lparr>sce_estimated_inferences := sce_estimated_inferences res + 1\<rparr>"
    let ?a = "money_amount (ice_amount est)"
    have a: "amount_ok ?a" using Inr "2.prems"(2) by (auto intro: estimate_ok)
    show ?thesis
    proof (cases rt)
      case None
      with Inr "2.prems" "2.IH"(2) [OF Inr refl refl None] a show ?thesis by (simp add: Let_def)
    next
      case (Some t)
      show ?thesis
      proof (cases "amount_add t ?a")
        case (Inl x)
        with Inr Some "2.prems" "2.IH"(3) [OF Inr refl refl Some Inl] show ?thesis
          by (auto simp: Let_def)
      next
        case s: (Inr s)
        have "amount_ok s \<and> amount_value s = amount_value t + amount_value ?a"
          using amount_add_Inr [OF _ a s] Some "2.prems"(3) by simp
        with Inr Some s "2.prems" "2.IH"(4) [OF Inr refl refl Some s] show ?thesis
          by (cases "sce_aggregation_failure res") (auto simp: Let_def)
      qed
    qed
  qed
qed simp

text \<open>
  A cost summary counts every inference exactly once, as estimated or under the reason it could
  not be, and a subtotal is the exact sum of the estimates.
\<close>

theorem cost_summary_exact:
  assumes "list_all usage_record_ok records" and "summary = summarize_cost_estimates records unit"
  shows "sce_total_inferences summary = length records \<and>
    sce_estimated_inferences summary + failures (sce_unavailable summary) = length records \<and>
    (\<forall>m. sce_subtotal summary = Some m \<longrightarrow> money_unit m = cost_estimate_unit_name unit \<and>
      amount_value (money_amount m) =
      sum_list (map (\<lambda>r. case estimate_inference_cost r unit of Inl _ \<Rightarrow> 0
        | Inr e \<Rightarrow> amount_value (money_amount (ice_amount e))) records))"
proof -
  let ?e = "\<lparr>sce_unit = unit, sce_subtotal = None, sce_estimated_inferences = 0,
      sce_total_inferences = length records, sce_unavailable = [], sce_aggregation_failure = None\<rparr>"
  obtain rt res where loop: "estimate_loop unit records None ?e = (rt, res)" by fastforce
  note spec = estimate_loop_spec [OF loop assms(1), simplified]
  show ?thesis
    using spec unfolding assms(2) summarize_cost_estimates_def loop
    by (auto simp: failures_def create_unit split: option.splits)
qed

theorem cost_summary_exact_witness:
  "let records = [sample_record \<lparr>coefficient = 15, scale = 1\<rparr>]
   in failures (sce_unavailable (summarize_cost_estimates records Unit_usd)) = 1"
proof -
  let ?records = "[sample_record \<lparr>coefficient = 15, scale = 1\<rparr>]"
  have "list_all usage_record_ok ?records"
    by (simp add: usage_record_ok_def sample_record_def cost_ok_def kMaximumUnits_def amount_ok_def kMaximumScale_def)
  moreover have "sce_estimated_inferences (summarize_cost_estimates ?records Unit_usd) = 0" by code_simp
  ultimately show ?thesis using cost_summary_exact [of ?records _ Unit_usd] by (simp add: Let_def)
qed

end
