(* ===== verification/UsageLedger.thy ===== *)
theory UsageLedger
  imports RunProjection CostEstimate
begin

text \<open>
  The usage ledger of a session and its spend ceiling: the two projections of
  \<^verbatim>\<open>src/lib/usage_ledger.cpp\<close>.  The helpers \<^verbatim>\<open>add_checked\<close> and \<^verbatim>\<open>add_usage\<close> of that
  file are the ones of \<open>RunProjection\<close>.
\<close>

section \<open>The ledger\<close>

datatype UsageLedgerErrorCode =
    Ledger_invalid_envelope | Ledger_duplicate_event_id | Ledger_non_monotonic_sequence
  | Ledger_duplicate_inference | Ledger_unknown_inference | Ledger_wrong_run
  | Ledger_invalid_transition | Ledger_usage_overflow | Ledger_cost_overflow
  | Ledger_invalid_pricing | Ledger_invalid_ceiling | Ledger_ceiling_widening

record UsageLedgerProjection =
  ul_records :: "InferenceUsageRecord list"
  ul_total_usage :: Usage
  ul_total_reported_cost :: "ReportedCost option"
  ul_event_ids :: "EventId set"
  ul_last_sequence :: u64

definition UsageLedger_initial :: UsageLedgerProjection where
  "UsageLedger_initial =
     \<lparr>ul_records = [], ul_total_usage = empty_usage, ul_total_reported_cost = None,
      ul_event_ids = {}, ul_last_sequence = 0\<rparr>"

definition find_record :: "InferenceId \<Rightarrow> UsageLedgerProjection \<Rightarrow> InferenceUsageRecord option" where
  "find_record iid s = find (\<lambda>r. iur_inference_id r = iid) (ul_records s)"

definition modify_record ::
  "InferenceId \<Rightarrow> (InferenceUsageRecord \<Rightarrow> InferenceUsageRecord) \<Rightarrow> UsageLedgerProjection
    \<Rightarrow> UsageLedgerProjection" where
  "modify_record iid f s = s\<lparr>ul_records := modify_first (\<lambda>r. iur_inference_id r = iid) f (ul_records s)\<rparr>"

text \<open>
  What the handlers of an inference share: the record exists and belongs to the run of the event.
\<close>

definition with_record ::
  "UsageLedgerProjection \<Rightarrow> RunEvent \<Rightarrow> InferenceId
    \<Rightarrow> (InferenceUsageRecord \<Rightarrow> UsageLedgerErrorCode + UsageLedgerProjection)
    \<Rightarrow> UsageLedgerErrorCode + UsageLedgerProjection" where
  "with_record s event iid k =
     (case find_record iid s of
        None \<Rightarrow> Inl Ledger_unknown_inference
      | Some r \<Rightarrow> fail_if (iur_run_id r \<noteq> em_run_id (metadata event)) Ledger_wrong_run (k r))"

definition finish_record ::
  "UsageLedgerProjection \<Rightarrow> RunEvent \<Rightarrow> InferenceId \<Rightarrow> InferenceUsageStatus
    \<Rightarrow> UsageLedgerErrorCode + UsageLedgerProjection" where
  "finish_record s event iid status =
     with_record s event iid (\<lambda>r.
       fail_if (iur_status r \<noteq> Usage_active) Ledger_invalid_transition
         (Inr (modify_record iid
            (\<lambda>r. r\<lparr>iur_status := status, iur_ended_at := Some (em_timestamp (metadata event))\<rparr>) s)))"

definition ledger_inference_started ::
  "UsageLedgerProjection \<Rightarrow> RunEvent \<Rightarrow> InferenceId \<Rightarrow> ModelId
    \<Rightarrow> UsageLedgerErrorCode + UsageLedgerProjection" where
  "ledger_inference_started s event iid model =
     fail_if (find_record iid s \<noteq> None) Ledger_duplicate_inference
       (Inr (s\<lparr>ul_records := ul_records s @
          [\<lparr>iur_run_id = em_run_id (metadata event), iur_inference_id = iid, iur_model_id = model,
            iur_started_at = em_timestamp (metadata event), iur_ended_at = None,
            iur_status = Usage_active, iur_usage = empty_usage, iur_usage_observed = False,
            iur_reported_cost = None, iur_pricing_observation = None\<rparr>]\<rparr>))"

definition ledger_pricing_observed ::
  "UsageLedgerProjection \<Rightarrow> RunEvent \<Rightarrow> InferenceId \<Rightarrow> PricingObservation
    \<Rightarrow> UsageLedgerErrorCode + UsageLedgerProjection" where
  "ledger_pricing_observed s event iid observation =
     with_record s event iid (\<lambda>r.
       fail_if (iur_status r \<noteq> Usage_active \<or> iur_pricing_observation r \<noteq> None \<or>
                iur_model_id r \<noteq> po_model_id observation) Ledger_invalid_transition
      (fail_if (isl (validate_pricing_observation observation)) Ledger_invalid_pricing
      (Inr (modify_record iid (\<lambda>r. r\<lparr>iur_pricing_observation := Some observation\<rparr>) s))))"

definition ledger_usage_recorded ::
  "UsageLedgerProjection \<Rightarrow> RunEvent \<Rightarrow> InferenceId \<Rightarrow> Usage
    \<Rightarrow> UsageLedgerErrorCode + UsageLedgerProjection" where
  "ledger_usage_recorded s event iid usage =
     with_record s event iid (\<lambda>r.
       fail_if (iur_status r \<noteq> Usage_active) Ledger_invalid_transition
       (case (add_usage (iur_usage r) usage, add_usage (ul_total_usage s) usage) of
          (Some next_record, Some next_total) \<Rightarrow>
            Inr ((modify_record iid (\<lambda>r. r\<lparr>iur_usage := next_record, iur_usage_observed := True\<rparr>) s)
                   \<lparr>ul_total_usage := next_total\<rparr>)
        | _ \<Rightarrow> Inl Ledger_usage_overflow))"

definition ledger_cost_recorded ::
  "UsageLedgerProjection \<Rightarrow> RunEvent \<Rightarrow> InferenceId \<Rightarrow> ReportedCost
    \<Rightarrow> UsageLedgerErrorCode + UsageLedgerProjection" where
  "ledger_cost_recorded s event iid cost =
     with_record s event iid (\<lambda>r.
       fail_if (iur_status r \<noteq> Usage_active \<or> iur_reported_cost r \<noteq> None) Ledger_invalid_transition
       (case (case ul_total_reported_cost s of None \<Rightarrow> Inr cost | Some t \<Rightarrow> ReportedCost_add t cost) of
          Inl _ \<Rightarrow> Inl Ledger_cost_overflow
        | Inr next_total \<Rightarrow>
            Inr ((modify_record iid (\<lambda>r. r\<lparr>iur_reported_cost := Some cost\<rparr>) s)
                   \<lparr>ul_total_reported_cost := Some next_total\<rparr>)))"

definition ledger_visit ::
  "UsageLedgerProjection \<Rightarrow> RunEvent \<Rightarrow> UsageLedgerErrorCode + UsageLedgerProjection" where
  "ledger_visit s event =
     (case payload event of
        InferenceStarted iid model \<Rightarrow> ledger_inference_started s event iid model
      | InferencePricingObserved iid observation \<Rightarrow> ledger_pricing_observed s event iid observation
      | UsageRecorded iid usage \<Rightarrow> ledger_usage_recorded s event iid usage
      | InferenceCostRecorded iid cost \<Rightarrow> ledger_cost_recorded s event iid cost
      | InferenceFinished iid _ \<Rightarrow> finish_record s event iid Usage_completed
      | InferenceFailed iid _ \<Rightarrow> finish_record s event iid Usage_failed
      | InferenceCancelled iid _ \<Rightarrow> finish_record s event iid Usage_cancelled
      | _ \<Rightarrow> Inr s)"

definition UsageLedger_apply ::
  "UsageLedgerProjection \<Rightarrow> RunEvent \<Rightarrow> UsageLedgerErrorCode + UsageLedgerProjection" where
  "UsageLedger_apply s event =
     fail_if (event_sequence event = 0 \<or> schema_version (metadata event) = 0) Ledger_invalid_envelope
    (fail_if (event_ident event \<in> ul_event_ids s) Ledger_duplicate_event_id
    (fail_if (event_sequence event \<le> ul_last_sequence s) Ledger_non_monotonic_sequence
    (bind_result (ledger_visit s event) (\<lambda>s'.
     Inr (s'\<lparr>ul_event_ids := insert (event_ident event) (ul_event_ids s'),
             ul_last_sequence := event_sequence event\<rparr>)))))"

section \<open>The spend ceiling\<close>

record SessionSpendCeilingProjection =
  cl_ceiling :: "SessionSpendCeiling option"
  cl_event_ids :: "EventId set"
  cl_last_sequence :: u64

definition SpendCeiling_initial :: SessionSpendCeilingProjection where
  "SpendCeiling_initial = \<lparr>cl_ceiling = None, cl_event_ids = {}, cl_last_sequence = 0\<rparr>"

definition ceiling_visit ::
  "SessionSpendCeilingProjection \<Rightarrow> RunEvent \<Rightarrow> UsageLedgerErrorCode + SessionSpendCeilingProjection" where
  "ceiling_visit s event =
     (case payload event of
        SessionSpendCeilingSet bound source \<Rightarrow>
          fail_if (source \<noteq> CeilingSource_command_line \<or>
                   isl (SessionSpendCeiling_create (ceiling_amount bound))) Ledger_invalid_ceiling
         (fail_if (case cl_ceiling s of None \<Rightarrow> False
                   | Some c \<Rightarrow> amount_compare (ceiling_amount bound) (ceiling_amount c) = ordering_greater)
            Ledger_ceiling_widening
         (Inr (s\<lparr>cl_ceiling := Some bound\<rparr>)))
      | _ \<Rightarrow> Inr s)"

definition SpendCeiling_apply ::
  "SessionSpendCeilingProjection \<Rightarrow> RunEvent \<Rightarrow> UsageLedgerErrorCode + SessionSpendCeilingProjection" where
  "SpendCeiling_apply s event =
     fail_if (event_sequence event = 0 \<or> schema_version (metadata event) = 0) Ledger_invalid_envelope
    (fail_if (event_ident event \<in> cl_event_ids s) Ledger_duplicate_event_id
    (fail_if (event_sequence event \<le> cl_last_sequence s) Ledger_non_monotonic_sequence
    (bind_result (ceiling_visit s event) (\<lambda>s'.
     Inr (s'\<lparr>cl_event_ids := insert (event_ident event) (cl_event_ids s'),
             cl_last_sequence := event_sequence event\<rparr>)))))"

section \<open>The ledger is consistent\<close>

definition cost_in_unit :: "string \<Rightarrow> ReportedCost option \<Rightarrow> rat" where
  "cost_in_unit u c = (case c of None \<Rightarrow> 0 | Some cost \<Rightarrow> amounts_in_unit u (cost_amounts cost))"

definition usage_entry_ok :: "InferenceUsageRecord \<Rightarrow> bool" where
  "usage_entry_ok r \<longleftrightarrow> (iur_status r = Usage_active \<longleftrightarrow> iur_ended_at r = None) \<and>
     (\<not> iur_usage_observed r \<longrightarrow> iur_usage r = empty_usage) \<and>
     (\<forall>ob. iur_pricing_observation r = Some ob \<longrightarrow>
        po_model_id ob = iur_model_id r \<and> validate_pricing_observation ob = Inr ())"

definition ledger_ok :: "UsageLedgerProjection \<Rightarrow> bool" where
  "ledger_ok s \<longleftrightarrow> distinct (map iur_inference_id (ul_records s)) \<and>
     (\<forall>f \<in> set usage_fields. unat (f (ul_total_usage s)) =
        sum_list (map (\<lambda>r. unat (f (iur_usage r))) (ul_records s))) \<and>
     list_all usage_entry_ok (ul_records s)"

lemmas ledger_defs = ledger_visit_def ledger_inference_started_def ledger_pricing_observed_def
  ledger_usage_recorded_def ledger_cost_recorded_def finish_record_def with_record_def
  modify_record_def find_record_def

lemma ledger_visit_envelope:
  "ledger_visit s e = Inr s' \<Longrightarrow> ul_event_ids s' = ul_event_ids s \<and> ul_last_sequence s' = ul_last_sequence s"
  by (cases "payload e") (auto simp: ledger_defs split: option.split_asm sum.split_asm)

interpretation usage_ledger: identified UsageLedger_apply event_sequence ul_last_sequence event_ident ul_event_ids
  by unfold_locales (auto simp: UsageLedger_apply_def dest: ledger_visit_envelope)

lemma ceiling_visit_envelope:
  "ceiling_visit s e = Inr s' \<Longrightarrow> cl_event_ids s' = cl_event_ids s \<and> cl_last_sequence s' = cl_last_sequence s"
  by (cases "payload e") (auto simp: ceiling_visit_def)

interpretation spend_ceiling: identified SpendCeiling_apply event_sequence cl_last_sequence event_ident cl_event_ids
  by unfold_locales (auto simp: SpendCeiling_apply_def dest: ceiling_visit_envelope)

lemma with_record_Inr:
  "with_record s e iid k = Inr s' \<longleftrightarrow>
    (\<exists>r. find_record iid s = Some r \<and> iur_run_id r = em_run_id (metadata e) \<and> k r = Inr s')"
  by (auto simp: with_record_def split: option.split)

lemma ledger_usage_recordedE:
  assumes "ledger_usage_recorded s e iid u = Inr s'"
  obtains r n t where "find_record iid s = Some r"
    and "add_usage (iur_usage r) u = Some n" and "add_usage (ul_total_usage s) u = Some t"
    and "s' = (modify_record iid (\<lambda>r. r\<lparr>iur_usage := n, iur_usage_observed := True\<rparr>) s)\<lparr>ul_total_usage := t\<rparr>"
  using assms by (auto simp: ledger_usage_recorded_def with_record_Inr split: option.split_asm)

lemma modify_record_split:
  assumes "find_record iid s = Some r"
  obtains as bs where "ul_records s = as @ r # bs" and "iur_inference_id r = iid"
    and "\<And>g. modify_record iid g s = s\<lparr>ul_records := as @ g r # bs\<rparr>"
  using assms unfolding find_record_def modify_record_def by (elim modify_first_split) auto

lemma ledger_ok_record:
  assumes ok: "ledger_ok s" and r: "find_record iid s = Some r"
    and g: "iur_inference_id (g r) = iur_inference_id r" "usage_entry_ok r \<Longrightarrow> usage_entry_ok (g r)"
    and tot: "\<forall>f \<in> set usage_fields. unat (f u) + unat (f (iur_usage r)) =
      unat (f (ul_total_usage s)) + unat (f (iur_usage (g r)))"
  shows "ledger_ok ((modify_record iid g s)\<lparr>ul_total_usage := u\<rparr>)"
proof -
  from r obtain as bs where split: "ul_records s = as @ r # bs"
    and mod: "modify_record iid g s = s\<lparr>ul_records := as @ g r # bs\<rparr>"
    by (rule modify_record_split) blast
  have "unat (f u) = sum_list (map (\<lambda>r. unat (f (iur_usage r))) (as @ g r # bs))"
    if "f \<in> set usage_fields" for f
    using ok tot that unfolding ledger_ok_def split by fastforce
  with ok g show ?thesis unfolding ledger_ok_def split by (simp add: mod)
qed

lemma ledger_ok_record_same:
  assumes "ledger_ok s" and "find_record iid s = Some r"
    and "iur_inference_id (g r) = iur_inference_id r" "usage_entry_ok r \<Longrightarrow> usage_entry_ok (g r)"
    and "iur_usage (g r) = iur_usage r"
  shows "ledger_ok (modify_record iid g s)"
proof -
  have "(modify_record iid g s)\<lparr>ul_total_usage := ul_total_usage s\<rparr> = modify_record iid g s"
    by (simp add: modify_record_def)
  with ledger_ok_record [where g = g and u = "ul_total_usage s", OF assms(1-4)] assms(5) show ?thesis by simp
qed

lemma ledger_ok_update [simp]:
  "ledger_ok (s\<lparr>ul_event_ids := i, ul_last_sequence := n\<rparr>) = ledger_ok s"
  "ledger_ok (s\<lparr>ul_total_reported_cost := c\<rparr>) = ledger_ok s"
  by (simp_all add: ledger_ok_def)

lemma finish_record_ok:
  assumes "ledger_ok s" and "status \<noteq> Usage_active" and "finish_record s e iid status = Inr s'"
  shows "ledger_ok s'"
proof -
  from assms(3) obtain r where r: "find_record iid s = Some r"
    and s': "s' = modify_record iid
      (\<lambda>r. r\<lparr>iur_status := status, iur_ended_at := Some (em_timestamp (metadata e))\<rparr>) s"
    by (auto simp: finish_record_def with_record_Inr)
  show ?thesis unfolding s'
    using assms(2) by (intro ledger_ok_record_same [OF assms(1) r]) (auto simp: usage_entry_ok_def)
qed

lemma ledger_visit_ok:
  assumes ok: "ledger_ok s" and visit: "ledger_visit s e = Inr s'"
  shows "ledger_ok s'"
proof (cases "payload e")
  case (InferenceStarted iid m)
  with visit have "iid \<notin> iur_inference_id ` set (ul_records s)"
    by (auto simp: ledger_visit_def ledger_inference_started_def find_record_def find_None_iff_key)
  with InferenceStarted visit ok show ?thesis
    by (auto simp: ledger_visit_def ledger_inference_started_def ledger_ok_def usage_entry_ok_def
        empty_usage_def usage_fields_def)
next
  case (InferencePricingObserved iid ob)
  with visit obtain r where r: "find_record iid s = Some r" "iur_model_id r = po_model_id ob"
    and v: "\<not> isl (validate_pricing_observation ob)"
    and s': "s' = modify_record iid (\<lambda>r. r\<lparr>iur_pricing_observation := Some ob\<rparr>) s"
    by (auto simp: ledger_visit_def ledger_pricing_observed_def with_record_Inr)
  from v have "validate_pricing_observation ob = Inr ()" by (auto simp: ok_iff)
  with r show ?thesis unfolding s'
    by (intro ledger_ok_record_same [OF ok r(1)]) (auto simp: usage_entry_ok_def)
next
  case (UsageRecorded iid u)
  with visit obtain r n t where r: "find_record iid s = Some r"
    and n: "add_usage (iur_usage r) u = Some n" "add_usage (ul_total_usage s) u = Some t"
    and s': "s' = (modify_record iid (\<lambda>r. r\<lparr>iur_usage := n, iur_usage_observed := True\<rparr>) s)\<lparr>ul_total_usage := t\<rparr>"
    by (auto simp: ledger_visit_def elim: ledger_usage_recordedE)
  show ?thesis unfolding s'
    using n by (intro ledger_ok_record [OF ok r]) (auto simp: add_usage_iff usage_entry_ok_def)
next
  case (InferenceCostRecorded iid c)
  with visit obtain r t where r: "find_record iid s = Some r"
    and s': "s' = (modify_record iid (\<lambda>r. r\<lparr>iur_reported_cost := Some c\<rparr>) s)\<lparr>ul_total_reported_cost := Some t\<rparr>"
    by (auto simp: ledger_visit_def ledger_cost_recorded_def with_record_Inr split: sum.split_asm)
  have "ledger_ok (modify_record iid (\<lambda>r. r\<lparr>iur_reported_cost := Some c\<rparr>) s)"
    by (intro ledger_ok_record_same [OF ok r]) (auto simp: usage_entry_ok_def)
  then show ?thesis unfolding s' by simp
qed (use assms in \<open>auto simp: ledger_visit_def intro: finish_record_ok\<close>)

interpretation ledger_invariant: invariant UsageLedger_apply ledger_ok
  by unfold_locales (auto simp: UsageLedger_apply_def intro: ledger_visit_ok)

lemma ledger_ok_initial: "ledger_ok UsageLedger_initial"
  by (auto simp: ledger_ok_def UsageLedger_initial_def empty_usage_def usage_fields_def)

lemma ledger_visit_usage:
  assumes "ledger_visit s e = Inr s'" and "f \<in> set usage_fields"
  shows "unat (f (ul_total_usage s')) = unat (f (ul_total_usage s)) + recorded_usage f e"
proof (cases "payload e")
  case (UsageRecorded iid u)
  with assms show ?thesis
    by (auto simp: ledger_visit_def recorded_usage_def add_usage_iff elim!: ledger_usage_recordedE)
qed (use assms(1) in \<open>clarsimp simp: ledger_visit_def ledger_inference_started_def ledger_pricing_observed_def
    ledger_cost_recorded_def finish_record_def with_record_Inr modify_record_def recorded_usage_def
    split: sum.split_asm\<close>)+

lemma ledger_total_usage:
  assumes "replay UsageLedger_apply UsageLedger_initial es = Inr s" and "f \<in> set usage_fields"
  shows "unat (f (ul_total_usage s)) = sum_list (map (recorded_usage f) es)"
proof -
  have "replay UsageLedger_apply t es = Inr s \<Longrightarrow>
      unat (f (ul_total_usage s)) = unat (f (ul_total_usage t)) + sum_list (map (recorded_usage f) es)" for t
    by (induction es arbitrary: t) (auto simp: UsageLedger_apply_def ledger_visit_usage [OF _ assms(2)])
  from this [OF assms(1)] assms(2) show ?thesis
    by (auto simp: UsageLedger_initial_def empty_usage_def usage_fields_def)
qed

text \<open>
  C25: after any accepted history the ledger holds one record per inference, and its total is in
  every counter the exact sum of the usage events and of the records: nothing is lost, counted twice
  or wrapped.
\<close>

theorem ledger_usage_exact:
  assumes "replay UsageLedger_apply UsageLedger_initial es = Inr s" and "f \<in> set usage_fields"
  shows "distinct (map iur_inference_id (ul_records s)) \<and>
    unat (f (ul_total_usage s)) = sum_list (map (recorded_usage f) es) \<and>
    unat (f (ul_total_usage s)) = sum_list (map (\<lambda>r. unat (f (iur_usage r))) (ul_records s))"
proof -
  have "ledger_ok s" by (rule ledger_invariant.replay_inv [OF ledger_ok_initial assms(1)])
  with ledger_total_usage [OF assms] assms(2) show ?thesis by (simp add: ledger_ok_def)
qed

lemma sample_ledger_accepted: "\<exists>s. replay UsageLedger_apply UsageLedger_initial sample_run = Inr s"
  by (simp add: sample_run_simps UsageLedger_initial_def UsageLedger_apply_def ledger_defs empty_usage_def
      add_usage_def add_checked_def word_le_nat_alt replicate_numeral_Cons)

theorem ledger_usage_exact_witness:
  "\<exists>s. replay UsageLedger_apply UsageLedger_initial sample_run = Inr s \<and>
    unat (input_tokens (ul_total_usage s)) = 15"
proof -
  obtain s where s: "replay UsageLedger_apply UsageLedger_initial sample_run = Inr s"
    using sample_ledger_accepted by blast
  have "sum_list (map (recorded_usage input_tokens) sample_run) = 15"
    by (simp add: sample_run_simps recorded_usage_def)
  with ledger_usage_exact [OF s, of input_tokens] have "unat (input_tokens (ul_total_usage s)) = 15"
    by (simp add: usage_fields_def)
  with s show ?thesis by blast
qed

section \<open>Reported costs add up\<close>

definition event_costs_ok :: "RunEvent \<Rightarrow> bool" where
  "event_costs_ok event = (case payload event of InferenceCostRecorded _ c \<Rightarrow> cost_ok c | _ \<Rightarrow> True)"

definition ledger_costs_ok :: "UsageLedgerProjection \<Rightarrow> bool" where
  "ledger_costs_ok s \<longleftrightarrow> option_ok cost_ok (ul_total_reported_cost s) \<and>
     (\<forall>u. cost_in_unit u (ul_total_reported_cost s) =
        sum_list (map (\<lambda>r. cost_in_unit u (iur_reported_cost r)) (ul_records s)))"

lemma ledger_costs_record:
  assumes "ledger_costs_ok s" and "find_record iid s = Some r" and "iur_reported_cost (g r) = iur_reported_cost r"
  shows "ledger_costs_ok (modify_record iid g s)"
proof -
  from assms(2) obtain as bs where "ul_records s = as @ r # bs"
    "modify_record iid g s = s\<lparr>ul_records := as @ g r # bs\<rparr>" by (rule modify_record_split) blast
  with assms(1,3) show ?thesis by (simp add: ledger_costs_ok_def)
qed

lemma ledger_costs_update [simp]:
  "ledger_costs_ok (s\<lparr>ul_event_ids := i, ul_last_sequence := n\<rparr>) = ledger_costs_ok s"
  "ledger_costs_ok (s\<lparr>ul_total_usage := t\<rparr>) = ledger_costs_ok s"
  by (simp_all add: ledger_costs_ok_def)

lemma ledger_visit_costs:
  assumes ok: "ledger_costs_ok s" and visit: "ledger_visit s e = Inr s'" and e: "event_costs_ok e"
  shows "ledger_costs_ok s'"
proof (cases "payload e")
  case (InferenceCostRecorded iid c)
  with e have c: "cost_ok c" by (simp add: event_costs_ok_def)
  from InferenceCostRecorded visit obtain r t where r: "find_record iid s = Some r" "iur_reported_cost r = None"
    and t: "(case ul_total_reported_cost s of None \<Rightarrow> Inr c | Some t \<Rightarrow> ReportedCost_add t c) = Inr t"
    and s': "s' = (modify_record iid (\<lambda>r. r\<lparr>iur_reported_cost := Some c\<rparr>) s)\<lparr>ul_total_reported_cost := Some t\<rparr>"
    by (auto simp: ledger_visit_def ledger_cost_recorded_def with_record_Inr split: sum.split_asm)
  have "cost_ok t \<and> (\<forall>u. cost_in_unit u (Some t) = cost_in_unit u (ul_total_reported_cost s) + cost_in_unit u (Some c))"
  proof (cases "ul_total_reported_cost s")
    case (Some t0)
    then have "cost_ok t0" using ok by (simp add: ledger_costs_ok_def)
    with Some t ReportedCost_add_spec [OF _ c, of t0 t] show ?thesis by (simp add: cost_in_unit_def)
  qed (use t c in \<open>simp add: cost_in_unit_def\<close>)
  moreover from r(1) obtain as bs where "ul_records s = as @ r # bs"
    "modify_record iid (\<lambda>r. r\<lparr>iur_reported_cost := Some c\<rparr>) s =
      s\<lparr>ul_records := as @ r\<lparr>iur_reported_cost := Some c\<rparr> # bs\<rparr>" by (rule modify_record_split) blast
  ultimately show ?thesis
    using ok r(2) unfolding s' by (simp add: ledger_costs_ok_def cost_in_unit_def)
next
  case (InferenceStarted iid m)
  with visit ok show ?thesis
    by (auto simp: ledger_visit_def ledger_inference_started_def ledger_costs_ok_def cost_in_unit_def)
next
  case (UsageRecorded iid u)
  with visit ok show ?thesis
    by (auto simp: ledger_visit_def elim!: ledger_usage_recordedE intro!: ledger_costs_record)
qed (use visit ok in \<open>auto simp: ledger_visit_def ledger_pricing_observed_def finish_record_def with_record_Inr
    intro!: ledger_costs_record\<close>)

lemma ledger_apply_costs:
  "ledger_costs_ok s \<Longrightarrow> event_costs_ok e \<Longrightarrow> UsageLedger_apply s e = Inr s' \<Longrightarrow> ledger_costs_ok s'"
  using ledger_visit_costs [of s e] by (auto simp: UsageLedger_apply_def)

interpretation ledger_costs: guarded_invariant UsageLedger_apply event_costs_ok ledger_costs_ok
  by unfold_locales (rule ledger_apply_costs)

text \<open>
  In every unit the reported total of the ledger is the exact sum of what the records of the
  inferences report.
\<close>

theorem ledger_cost_exact:
  assumes "replay UsageLedger_apply UsageLedger_initial es = Inr s" and "list_all event_costs_ok es"
  shows "cost_in_unit u (ul_total_reported_cost s) =
    sum_list (map (\<lambda>r. cost_in_unit u (iur_reported_cost r)) (ul_records s))"
proof -
  have "ledger_costs_ok UsageLedger_initial"
    by (simp add: ledger_costs_ok_def UsageLedger_initial_def cost_in_unit_def)
  from ledger_costs.replay_keeps [OF this assms(2,1)] show ?thesis by (simp add: ledger_costs_ok_def)
qed

theorem ledger_cost_exact_witness:
  "let es = [sample_event 1 (InferenceStarted (Id ''i1'') (Id ''model'')),
             sample_event 2 (InferenceCostRecorded (Id ''i1'') eur_cost)]
   in \<exists>s. replay UsageLedger_apply UsageLedger_initial es = Inr s \<and>
        cost_in_unit ''EUR'' (ul_total_reported_cost s) =
          sum_list (map (\<lambda>r. cost_in_unit ''EUR'' (iur_reported_cost r)) (ul_records s))"
proof -
  let ?es = "[sample_event 1 (InferenceStarted (Id ''i1'') (Id ''model'')),
      sample_event 2 (InferenceCostRecorded (Id ''i1'') eur_cost)]"
  have "\<exists>s. replay UsageLedger_apply UsageLedger_initial ?es = Inr s"
    by (simp add: sample_event_def UsageLedger_initial_def UsageLedger_apply_def ledger_defs
        word_le_nat_alt replicate_numeral_Cons)
  moreover have "list_all event_costs_ok ?es"
    by (simp add: event_costs_ok_def sample_event_def eur_cost_def cost_ok_def kMaximumUnits_def amount_ok_def
        kMaximumScale_def)
  ultimately show ?thesis using ledger_cost_exact [of ?es] by (simp only: Let_def) blast
qed

section \<open>The ceiling never widens\<close>

lemma ceiling_step:
  assumes "SpendCeiling_apply s e = Inr s'" and "cl_ceiling s = Some c"
  shows "\<exists>c'. cl_ceiling s' = Some c' \<and> amount_value (ceiling_amount c') \<le> amount_value (ceiling_amount c)"
  using assms
  by (cases "payload e")
    (auto simp: SpendCeiling_apply_def ceiling_visit_def amount_compare_eq not_less split: if_split_asm)

text \<open>
  Once a session has a spend ceiling it keeps one, and no later event raises it.
\<close>

theorem ceiling_never_widens:
  assumes "replay SpendCeiling_apply s es = Inr s'" and "cl_ceiling s = Some c"
  shows "\<exists>c'. cl_ceiling s' = Some c' \<and> amount_value (ceiling_amount c') \<le> amount_value (ceiling_amount c)"
  using assms
proof (induction es arbitrary: s c)
  case (Cons e es)
  then obtain t where t: "SpendCeiling_apply s e = Inr t" "replay SpendCeiling_apply t es = Inr s'" by auto
  obtain c1 where "cl_ceiling t = Some c1" "amount_value (ceiling_amount c1) \<le> amount_value (ceiling_amount c)"
    using ceiling_step [OF t(1) Cons.prems(2)] by blast
  with Cons.IH [OF t(2)] show ?case by (meson order_trans)
qed simp

theorem ceiling_never_widens_witness:
  "let s = SpendCeiling_initial\<lparr>cl_ceiling := Some \<lparr>ceiling_amount = \<lparr>coefficient = 5, scale = 0\<rparr>\<rparr>\<rparr>;
       e = sample_event 1 (SessionSpendCeilingSet \<lparr>ceiling_amount = \<lparr>coefficient = 45, scale = 1\<rparr>\<rparr>
             CeilingSource_command_line)
   in \<exists>s' c'. replay SpendCeiling_apply s [e] = Inr s' \<and> cl_ceiling s' = Some c' \<and>
        amount_value (ceiling_amount c') \<le> 5"
proof -
  let ?s = "SpendCeiling_initial\<lparr>cl_ceiling := Some \<lparr>ceiling_amount = \<lparr>coefficient = 5, scale = 0\<rparr>\<rparr>\<rparr>"
  let ?e = "sample_event 1 (SessionSpendCeilingSet \<lparr>ceiling_amount = \<lparr>coefficient = 45, scale = 1\<rparr>\<rparr>
      CeilingSource_command_line)"
  obtain s' where s': "replay SpendCeiling_apply ?s [?e] = Inr s'"
    by (simp add: SpendCeiling_apply_def ceiling_visit_def SpendCeiling_initial_def sample_event_def
        SessionSpendCeiling_create_def kMaximumSpendCeilingScale_def amount_compare_eq amount_value_def)
  have "cl_ceiling ?s = Some \<lparr>ceiling_amount = \<lparr>coefficient = 5, scale = 0\<rparr>\<rparr>" by simp
  from ceiling_never_widens [OF s' this] s' show ?thesis by (auto simp only: Let_def) (auto simp: amount_value_def)
qed

end
