(* ===== verification/ToolSpend.thy ===== *)
theory ToolSpend
  imports UsageLedger
begin

text \<open>
  Paid tools: \<^verbatim>\<open>src/lib/tool_spend.cpp\<close> and \<^verbatim>\<open>include/aiforge/domain/tool_spend.hpp\<close>.  A paid
  tool is proposed with a quote, reserves its maximum before it starts and is released, finalized or
  left for reconciliation; the summary of a session charges every reservation that is not released.
  The validity checks on enumerations hold of every value of a datatype and are left out.
\<close>

section \<open>Data\<close>

datatype ToolSpendStatus = Spend_reserved | Spend_released | Spend_finalized | Spend_reconciliation_required

record ToolSpendRecord =
  tsr_run_id :: RunId
  tsr_reservation :: ToolSpendReservation
  tsr_status :: ToolSpendStatus
  tsr_finalization :: "ToolSpendFinalization option"
  tsr_reconciliation_reason :: "ToolSpendReconciliationReason option"
  tsr_tool_started :: bool

datatype ToolSpendLedgerErrorCode =
    Spend_invalid_envelope | Spend_duplicate_event_id | Spend_non_monotonic_sequence
  | Spend_invalid_reservation | Spend_duplicate_reservation | Spend_unknown_reservation
  | Spend_wrong_run | Spend_invalid_transition | Spend_invalid_finalization | Spend_amount_overflow

record ToolSpendSummary =
  tss_ceiling :: SessionSpendCeiling
  tss_accounted :: MonetaryAmount
  tss_remaining :: MonetaryAmount
  tss_reserved_maximum :: MonetaryAmount
  tss_reconciliation_maximum :: MonetaryAmount
  tss_provider_reported_amount :: MonetaryAmount
  tss_catalog_estimate_amount :: MonetaryAmount
  tss_policy_upper_bound_amount :: MonetaryAmount
  tss_reservations :: nat
  tss_finalized :: nat
  tss_released :: nat
  tss_reconciliation_required :: nat
  tss_reserved :: nat
  tss_provider_reported :: nat
  tss_catalog_estimate :: nat
  tss_policy_upper_bound :: nat
  tss_reached :: bool

record ProposalRecord =
  prop_run_id :: RunId
  prop_quote :: "ToolSpendQuote option"

record ToolSpendLedgerProjection =
  tl_records :: "ToolSpendRecord list"
  tl_proposals :: "InvocationId \<rightharpoonup> ProposalRecord"
  tl_event_ids :: "EventId set"
  tl_started_invocations :: "InvocationId set"
  tl_terminal_invocations :: "InvocationId set"
  tl_last_sequence :: u64

definition ToolSpendLedger_initial :: ToolSpendLedgerProjection where
  "ToolSpendLedger_initial =
     \<lparr>tl_records = [], tl_proposals = Map.empty, tl_event_ids = {}, tl_started_invocations = {},
      tl_terminal_invocations = {}, tl_last_sequence = 0\<rparr>"

section \<open>Validity\<close>

definition spend_valid_digest :: "ContentDigest \<Rightarrow> bool" where
  "spend_valid_digest digest \<longleftrightarrow> dg_algorithm digest = ''sha256'' \<and> length (dg_value digest) = 64 \<and>
     dg_byte_size digest \<noteq> 0 \<and>
     list_all (\<lambda>c. ascii_digit c \<or> (byte CHR ''a'' \<le> byte c \<and> byte c \<le> byte CHR ''f'')) (dg_value digest)"

definition valid_usd :: "MonetaryAmount \<Rightarrow> bool \<Rightarrow> bool" where
  "valid_usd amount positive \<longleftrightarrow> money_unit amount = ''USD'' \<and> scale (money_amount amount) \<le> 6 \<and>
     (\<not> positive \<or> coefficient (money_amount amount) \<noteq> 0)"

definition event_invocation_matches :: "RunEvent \<Rightarrow> InvocationId \<Rightarrow> bool" where
  "event_invocation_matches event iid \<longleftrightarrow> em_invocation_id (metadata event) = Some iid"

definition proposal_schema :: "ToolProposed \<Rightarrow> bool \<Rightarrow> u32" where
  "proposal_schema proposal paid =
     (if tp_observation_request proposal \<noteq> None then 3
      else if paid \<or> tp_validated_arguments proposal \<noteq> None then 2 else 1)"

definition valid_observation_spend_proposal :: "ToolProposed \<Rightarrow> bool \<Rightarrow> bool" where
  "valid_observation_spend_proposal proposal paid =
     (case tp_observation_request proposal of
        None \<Rightarrow> True
      | Some request \<Rightarrow>
          \<not> paid \<and> tp_spend_quote proposal = None \<and>
          (case tp_validated_arguments proposal of
             None \<Rightarrow> False
           | Some arguments \<Rightarrow>
               media_type arguments = ''application/json'' \<and> sd_data arguments \<noteq> [] \<and>
               length (sd_data arguments) \<le> 16384 \<and> is_safe_utf8_text (sd_data arguments)) \<and>
          \<not> isl (validate_recorded_ops_request request))"

definition valid_tool_spend_quote :: "ToolSpendQuote \<Rightarrow> bool" where
  "valid_tool_spend_quote quote \<longleftrightarrow> valid_usd (quote_maximum quote) True \<and>
     spend_valid_digest (quote_evidence_digest quote) \<and> quote_valid_until quote > 0"

definition reservation_quote :: "ToolSpendReservation \<Rightarrow> ToolSpendQuote" where
  "reservation_quote r =
     \<lparr>quote_maximum = rsv_maximum r, quote_basis = rsv_basis r,
      quote_evidence_digest = rsv_evidence_digest r, quote_valid_until = rsv_valid_until r\<rparr>"

definition valid_tool_spend_reservation :: "ToolSpendReservation \<Rightarrow> bool" where
  "valid_tool_spend_reservation r \<longleftrightarrow> valid_tool_spend_quote (reservation_quote r)"

definition valid_tool_spend_finalization_shape :: "ToolSpendFinalization \<Rightarrow> bool" where
  "valid_tool_spend_finalization_shape f =
     (if \<not> valid_usd (fin_amount f) False then False
      else if fin_basis f = Final_provider_reported then
        (case fin_provider_evidence_digest f of None \<Rightarrow> False | Some d \<Rightarrow> spend_valid_digest d)
      else fin_provider_evidence_digest f = None)"

definition valid_tool_spend_finalization :: "ToolSpendFinalization \<Rightarrow> ToolSpendReservation \<Rightarrow> bool" where
  "valid_tool_spend_finalization f r =
     (if fin_invocation_id f \<noteq> rsv_invocation_id r \<or> \<not> valid_tool_spend_finalization_shape f \<or>
         amount_compare (money_amount (fin_amount f)) (money_amount (rsv_maximum r)) = ordering_greater
      then False
      else if fin_basis f = Final_catalog_estimate \<and> rsv_basis r \<noteq> Estimate_catalog_estimate then False
      else if fin_basis f = Final_policy_upper_bound \<and> rsv_basis r \<noteq> Estimate_policy_upper_bound then False
      else True)"

section \<open>The ledger\<close>

definition find_spend :: "InvocationId \<Rightarrow> ToolSpendLedgerProjection \<Rightarrow> ToolSpendRecord option" where
  "find_spend iid s = find (\<lambda>r. rsv_invocation_id (tsr_reservation r) = iid) (tl_records s)"

definition modify_spend ::
  "InvocationId \<Rightarrow> (ToolSpendRecord \<Rightarrow> ToolSpendRecord) \<Rightarrow> ToolSpendLedgerProjection
    \<Rightarrow> ToolSpendLedgerProjection" where
  "modify_spend iid g s =
     s\<lparr>tl_records := modify_first (\<lambda>r. rsv_invocation_id (tsr_reservation r) = iid) g (tl_records s)\<rparr>"

definition spend_tool_proposed ::
  "ToolSpendLedgerProjection \<Rightarrow> RunEvent \<Rightarrow> ToolProposed
    \<Rightarrow> ToolSpendLedgerErrorCode + ToolSpendLedgerProjection" where
  "spend_tool_proposed s event proposed =
     (let paid = Effect_spend \<in> set (tp_declared_effects proposed);
          iid = tp_invocation_id proposed
      in fail_if
           (\<not> event_invocation_matches event iid \<or>
            schema_version (metadata event) \<noteq> proposal_schema proposed paid \<or>
            \<not> valid_observation_spend_proposal proposed paid \<or>
            paid \<noteq> (tp_spend_quote proposed \<noteq> None) \<or>
            (paid \<and> tp_validated_arguments proposed = None) \<or>
            (case tp_spend_quote proposed of None \<Rightarrow> False
             | Some quote \<Rightarrow> \<not> valid_tool_spend_quote quote \<or>
                 em_timestamp (metadata event) \<ge> quote_valid_until quote) \<or>
            tl_proposals s iid \<noteq> None) Spend_invalid_transition
         (Inr (s\<lparr>tl_proposals := (tl_proposals s)(iid \<mapsto>
            \<lparr>prop_run_id = em_run_id (metadata event), prop_quote = tp_spend_quote proposed\<rparr>)\<rparr>)))"

definition spend_reserved ::
  "ToolSpendLedgerProjection \<Rightarrow> RunEvent \<Rightarrow> ToolSpendReservation
    \<Rightarrow> ToolSpendLedgerErrorCode + ToolSpendLedgerProjection" where
  "spend_reserved s event reservation =
     (let iid = rsv_invocation_id reservation in
      fail_if (\<not> event_invocation_matches event iid \<or> \<not> valid_tool_spend_reservation reservation \<or>
               em_timestamp (metadata event) \<ge> rsv_valid_until reservation) Spend_invalid_reservation
      (case tl_proposals s iid of
         None \<Rightarrow> Inl Spend_invalid_reservation
       | Some proposed \<Rightarrow>
           fail_if (prop_quote proposed \<noteq> Some (reservation_quote reservation)) Spend_invalid_reservation
          (fail_if (prop_run_id proposed \<noteq> em_run_id (metadata event)) Spend_wrong_run
          (fail_if (find_spend iid s \<noteq> None) Spend_duplicate_reservation
          (fail_if (iid \<in> tl_started_invocations s) Spend_invalid_transition
          (Inr (s\<lparr>tl_records := tl_records s @
             [\<lparr>tsr_run_id = em_run_id (metadata event), tsr_reservation = reservation,
               tsr_status = Spend_reserved, tsr_finalization = None,
               tsr_reconciliation_reason = None, tsr_tool_started = False\<rparr>]\<rparr>)))))))"

definition spend_tool_started ::
  "ToolSpendLedgerProjection \<Rightarrow> RunEvent \<Rightarrow> InvocationId
    \<Rightarrow> ToolSpendLedgerErrorCode + ToolSpendLedgerProjection" where
  "spend_tool_started s event iid =
     (case tl_proposals s iid of
        None \<Rightarrow> Inl Spend_invalid_transition
      | Some proposed \<Rightarrow>
          fail_if (\<not> event_invocation_matches event iid \<or> iid \<in> tl_started_invocations s)
            Spend_invalid_transition
         (fail_if (prop_run_id proposed \<noteq> em_run_id (metadata event)) Spend_wrong_run
         (bind_result
            (case find_spend iid s of
               Some r \<Rightarrow>
                 fail_if (tsr_run_id r \<noteq> em_run_id (metadata event) \<or> tsr_tool_started r \<or>
                          tsr_status r \<noteq> Spend_reserved) Spend_invalid_transition
                   (Inr (modify_spend iid (\<lambda>r. r\<lparr>tsr_tool_started := True\<rparr>) s))
             | None \<Rightarrow> fail_if (prop_quote proposed \<noteq> None) Spend_invalid_transition (Inr s))
            (\<lambda>s'. Inr (s'\<lparr>tl_started_invocations := insert iid (tl_started_invocations s')\<rparr>)))))"

definition with_spend ::
  "ToolSpendLedgerProjection \<Rightarrow> RunEvent \<Rightarrow> InvocationId
    \<Rightarrow> (ToolSpendRecord \<Rightarrow> ToolSpendLedgerErrorCode + ToolSpendLedgerProjection)
    \<Rightarrow> ToolSpendLedgerErrorCode + ToolSpendLedgerProjection" where
  "with_spend s event iid k =
     (case find_spend iid s of
        None \<Rightarrow> Inl Spend_unknown_reservation
      | Some r \<Rightarrow>
          fail_if (\<not> event_invocation_matches event iid \<or> tsr_run_id r \<noteq> em_run_id (metadata event))
            Spend_wrong_run (k r))"

definition spend_released ::
  "ToolSpendLedgerProjection \<Rightarrow> RunEvent \<Rightarrow> InvocationId
    \<Rightarrow> ToolSpendLedgerErrorCode + ToolSpendLedgerProjection" where
  "spend_released s event iid =
     with_spend s event iid (\<lambda>r.
       fail_if (tsr_status r \<noteq> Spend_reserved) Spend_invalid_transition
      (fail_if (iid \<in> tl_terminal_invocations s) Spend_invalid_transition
      (Inr (modify_spend iid (\<lambda>r. r\<lparr>tsr_status := Spend_released\<rparr>) s))))"

definition spend_finalized ::
  "ToolSpendLedgerProjection \<Rightarrow> RunEvent \<Rightarrow> ToolSpendFinalization
    \<Rightarrow> ToolSpendLedgerErrorCode + ToolSpendLedgerProjection" where
  "spend_finalized s event finalization =
     (let iid = fin_invocation_id finalization in
      with_spend s event iid (\<lambda>r.
        fail_if (tsr_status r \<noteq> Spend_reserved \<or> \<not> tsr_tool_started r \<or>
                 iid \<in> tl_terminal_invocations s) Spend_invalid_transition
       (fail_if (\<not> valid_tool_spend_finalization finalization (tsr_reservation r)) Spend_invalid_finalization
       (Inr (modify_spend iid
          (\<lambda>r. r\<lparr>tsr_status := Spend_finalized, tsr_finalization := Some finalization\<rparr>) s)))))"

definition spend_reconciliation_required ::
  "ToolSpendLedgerProjection \<Rightarrow> RunEvent \<Rightarrow> InvocationId \<Rightarrow> ToolSpendReconciliationReason
    \<Rightarrow> ToolSpendLedgerErrorCode + ToolSpendLedgerProjection" where
  "spend_reconciliation_required s event iid reason =
     with_spend s event iid (\<lambda>r.
       fail_if (tsr_status r \<noteq> Spend_reserved \<or> \<not> tsr_tool_started r \<or>
                iid \<in> tl_terminal_invocations s) Spend_invalid_transition
      (Inr (modify_spend iid
         (\<lambda>r. r\<lparr>tsr_status := Spend_reconciliation_required,
               tsr_reconciliation_reason := Some reason\<rparr>) s)))"

definition spend_tool_result ::
  "ToolSpendLedgerProjection \<Rightarrow> RunEvent \<Rightarrow> InvocationId
    \<Rightarrow> ToolSpendLedgerErrorCode + ToolSpendLedgerProjection" where
  "spend_tool_result s event iid =
     (case tl_proposals s iid of
        None \<Rightarrow> Inl Spend_invalid_transition
      | Some proposed \<Rightarrow>
          fail_if (\<not> event_invocation_matches event iid \<or> iid \<in> tl_terminal_invocations s \<or>
                   (prop_quote proposed \<noteq> None \<and>
                    (case find_spend iid s of None \<Rightarrow> True | Some r \<Rightarrow> tsr_status r = Spend_reserved)))
            Spend_invalid_transition
         (fail_if (prop_run_id proposed \<noteq> em_run_id (metadata event)) Spend_wrong_run
         (Inr (s\<lparr>tl_terminal_invocations := insert iid (tl_terminal_invocations s)\<rparr>))))"

definition spend_tool_errored ::
  "ToolSpendLedgerProjection \<Rightarrow> RunEvent \<Rightarrow> InvocationId
    \<Rightarrow> ToolSpendLedgerErrorCode + ToolSpendLedgerProjection" where
  "spend_tool_errored s event iid =
     (case tl_proposals s iid of
        None \<Rightarrow> Inl Spend_invalid_transition
      | Some proposed \<Rightarrow>
          fail_if (\<not> event_invocation_matches event iid \<or> iid \<in> tl_terminal_invocations s \<or>
                   (prop_quote proposed \<noteq> None \<and>
                    (case find_spend iid s of None \<Rightarrow> False | Some r \<Rightarrow> tsr_status r = Spend_reserved)))
            Spend_invalid_transition
         (fail_if (prop_run_id proposed \<noteq> em_run_id (metadata event)) Spend_wrong_run
         (Inr (s\<lparr>tl_terminal_invocations := insert iid (tl_terminal_invocations s)\<rparr>))))"

definition spend_visit ::
  "ToolSpendLedgerProjection \<Rightarrow> RunEvent \<Rightarrow> ToolSpendLedgerErrorCode + ToolSpendLedgerProjection" where
  "spend_visit s event =
     (case payload event of
        ToolProposedEvent proposed \<Rightarrow> spend_tool_proposed s event proposed
      | ToolSpendReserved reservation \<Rightarrow> spend_reserved s event reservation
      | ToolStarted iid \<Rightarrow> spend_tool_started s event iid
      | ToolSpendReleased iid \<Rightarrow> spend_released s event iid
      | ToolSpendFinalized finalization \<Rightarrow> spend_finalized s event finalization
      | ToolSpendReconciliationRequired iid reason \<Rightarrow> spend_reconciliation_required s event iid reason
      | ToolResultRecorded iid _ _ \<Rightarrow> spend_tool_result s event iid
      | ToolErrored iid _ _ \<Rightarrow> spend_tool_errored s event iid
      | _ \<Rightarrow> Inr s)"

definition ToolSpendLedger_apply ::
  "ToolSpendLedgerProjection \<Rightarrow> RunEvent \<Rightarrow> ToolSpendLedgerErrorCode + ToolSpendLedgerProjection" where
  "ToolSpendLedger_apply s event =
     fail_if (event_sequence event = 0 \<or> schema_version (metadata event) = 0) Spend_invalid_envelope
    (fail_if (event_ident event \<in> tl_event_ids s) Spend_duplicate_event_id
    (fail_if (event_sequence event \<le> tl_last_sequence s) Spend_non_monotonic_sequence
    (bind_result (spend_visit s event) (\<lambda>s'.
     Inr (s'\<lparr>tl_event_ids := insert (event_ident event) (tl_event_ids s'),
             tl_last_sequence := event_sequence event\<rparr>)))))"

section \<open>Summaries\<close>

text \<open>The running amounts and counters of the summary loop.\<close>

record SpendTotals =
  st_total :: DecimalAmount
  st_reserved_maximum :: DecimalAmount
  st_reconciliation_maximum :: DecimalAmount
  st_provider_reported_amount :: DecimalAmount
  st_catalog_estimate_amount :: DecimalAmount
  st_policy_upper_bound_amount :: DecimalAmount
  st_reservations :: nat
  st_finalized :: nat
  st_released :: nat
  st_reconciliation_required :: nat
  st_reserved :: nat
  st_provider_reported :: nat
  st_catalog_estimate :: nat
  st_policy_upper_bound :: nat

definition empty_totals :: SpendTotals where
  "empty_totals =
     \<lparr>st_total = zero_amount, st_reserved_maximum = zero_amount, st_reconciliation_maximum = zero_amount,
      st_provider_reported_amount = zero_amount, st_catalog_estimate_amount = zero_amount,
      st_policy_upper_bound_amount = zero_amount, st_reservations = 0, st_finalized = 0, st_released = 0,
      st_reconciliation_required = 0, st_reserved = 0, st_provider_reported = 0,
      st_catalog_estimate = 0, st_policy_upper_bound = 0\<rparr>"

definition accumulate :: "DecimalAmount \<Rightarrow> DecimalAmount \<Rightarrow> ToolSpendLedgerErrorCode + DecimalAmount" where
  "accumulate subtotal v = map_error (\<lambda>_. Spend_amount_overflow) (amount_add subtotal v)"

definition charge :: "DecimalAmount \<Rightarrow> SpendTotals \<Rightarrow> ToolSpendLedgerErrorCode + SpendTotals" where
  "charge amount t = bind_result (accumulate (st_total t) amount) (\<lambda>a. Inr (t\<lparr>st_total := a\<rparr>))"

definition add_finalized ::
  "ToolSpendFinalization \<Rightarrow> SpendTotals \<Rightarrow> ToolSpendLedgerErrorCode + SpendTotals" where
  "add_finalized f t =
     (let v = money_amount (fin_amount f) in
      case fin_basis f of
        Final_provider_reported \<Rightarrow>
          bind_result (accumulate (st_provider_reported_amount t) v) (\<lambda>a.
            Inr (t\<lparr>st_provider_reported_amount := a, st_provider_reported := st_provider_reported t + 1\<rparr>))
      | Final_catalog_estimate \<Rightarrow>
          bind_result (accumulate (st_catalog_estimate_amount t) v) (\<lambda>a.
            Inr (t\<lparr>st_catalog_estimate_amount := a, st_catalog_estimate := st_catalog_estimate t + 1\<rparr>))
      | Final_policy_upper_bound \<Rightarrow>
          bind_result (accumulate (st_policy_upper_bound_amount t) v) (\<lambda>a.
            Inr (t\<lparr>st_policy_upper_bound_amount := a, st_policy_upper_bound := st_policy_upper_bound t + 1\<rparr>)))"

definition add_spend_record ::
  "ToolSpendRecord \<Rightarrow> SpendTotals \<Rightarrow> ToolSpendLedgerErrorCode + SpendTotals" where
  "add_spend_record r t0 =
     (let t = t0\<lparr>st_reservations := st_reservations t0 + 1\<rparr>;
          limit = money_amount (rsv_maximum (tsr_reservation r))
      in case tsr_status r of
           Spend_reserved \<Rightarrow>
             bind_result (accumulate (st_reserved_maximum t) limit) (\<lambda>a.
               charge limit (t\<lparr>st_reserved_maximum := a, st_reserved := st_reserved t + 1\<rparr>))
         | Spend_released \<Rightarrow> Inr (t\<lparr>st_released := st_released t + 1\<rparr>)
         | Spend_finalized \<Rightarrow>
             (case tsr_finalization r of
                None \<Rightarrow> Inl Spend_invalid_transition
              | Some f \<Rightarrow>
                  bind_result (add_finalized f (t\<lparr>st_finalized := st_finalized t + 1\<rparr>))
                    (charge (money_amount (fin_amount f))))
         | Spend_reconciliation_required \<Rightarrow>
             bind_result (accumulate (st_reconciliation_maximum t) limit) (\<lambda>a.
               charge limit (t\<lparr>st_reconciliation_maximum := a,
                 st_reconciliation_required := st_reconciliation_required t + 1\<rparr>)))"

fun spend_totals :: "ToolSpendRecord list \<Rightarrow> SpendTotals \<Rightarrow> ToolSpendLedgerErrorCode + SpendTotals" where
  "spend_totals [] t = Inr t"
| "spend_totals (r # rs) t = bind_result (add_spend_record r t) (spend_totals rs)"

text \<open>What remains of a ceiling, and whether it is reached.\<close>

definition remaining_of :: "DecimalAmount \<Rightarrow> SessionSpendCeiling \<Rightarrow> ToolSpendLedgerErrorCode + bool \<times> DecimalAmount" where
  "remaining_of t bound =
     (let is_reached = amount_compare t (ceiling_amount bound) \<noteq> ordering_less
      in bind_result
           (map_error (\<lambda>_. Spend_amount_overflow)
              (if is_reached then Inr zero_amount else amount_subtract (ceiling_amount bound) t))
           (\<lambda>rest. Inr (is_reached, rest)))"

definition in_usd :: "DecimalAmount \<Rightarrow> MonetaryAmount" where
  "in_usd a = \<lparr>money_unit = ''USD'', money_amount = a\<rparr>"

definition summarize_tool_spend ::
  "ToolSpendLedgerProjection \<Rightarrow> SessionSpendCeiling \<Rightarrow> ToolSpendLedgerErrorCode + ToolSpendSummary" where
  "summarize_tool_spend ledger bound =
     bind_result (spend_totals (tl_records ledger) empty_totals) (\<lambda>t.
     bind_result (remaining_of (st_total t) bound) (\<lambda>(is_reached, rest).
     Inr \<lparr>tss_ceiling = bound, tss_accounted = in_usd (st_total t), tss_remaining = in_usd rest,
          tss_reserved_maximum = in_usd (st_reserved_maximum t),
          tss_reconciliation_maximum = in_usd (st_reconciliation_maximum t),
          tss_provider_reported_amount = in_usd (st_provider_reported_amount t),
          tss_catalog_estimate_amount = in_usd (st_catalog_estimate_amount t),
          tss_policy_upper_bound_amount = in_usd (st_policy_upper_bound_amount t),
          tss_reservations = st_reservations t, tss_finalized = st_finalized t,
          tss_released = st_released t, tss_reconciliation_required = st_reconciliation_required t,
          tss_reserved = st_reserved t, tss_provider_reported = st_provider_reported t,
          tss_catalog_estimate = st_catalog_estimate t, tss_policy_upper_bound = st_policy_upper_bound t,
          tss_reached = is_reached\<rparr>))"

definition with_tools :: "ToolSpendSummary \<Rightarrow> SessionSpendSummary \<Rightarrow> SessionSpendSummary" where
  "with_tools tools combined =
     combined\<lparr>sss_inference_accounted := sss_accounted combined,
       sss_tool_accounted := Some (tss_accounted tools),
       sss_tool_reserved_maximum := Some (tss_reserved_maximum tools),
       sss_tool_reconciliation_maximum := Some (tss_reconciliation_maximum tools),
       sss_tool_provider_reported_amount := Some (tss_provider_reported_amount tools),
       sss_tool_catalog_estimate_amount := Some (tss_catalog_estimate_amount tools),
       sss_tool_policy_upper_bound_amount := Some (tss_policy_upper_bound_amount tools),
       sss_tool_reservations := tss_reservations tools, sss_tool_reserved := tss_reserved tools,
       sss_tool_released := tss_released tools,
       sss_tool_reconciliation_required := tss_reconciliation_required tools,
       sss_tool_provider_reported := tss_provider_reported tools,
       sss_tool_catalog_estimate := tss_catalog_estimate tools,
       sss_tool_policy_upper_bound := tss_policy_upper_bound tools\<rparr>"

definition summarize_combined_session_spend ::
  "InferenceUsageRecord list \<Rightarrow> ToolSpendLedgerProjection \<Rightarrow> SessionSpendCeiling
    \<Rightarrow> ToolSpendLedgerErrorCode + SessionSpendSummary" where
  "summarize_combined_session_spend inference_records tool_ledger bound =
     bind_result (summarize_tool_spend tool_ledger bound) (\<lambda>tools.
     let combined = with_tools tools (summarize_session_spend inference_records bound)
     in case sss_accounted combined of
          None \<Rightarrow> Inr combined
        | Some inferences \<Rightarrow>
            bind_result (accumulate (money_amount inferences) (money_amount (tss_accounted tools))) (\<lambda>t.
            bind_result (remaining_of t bound) (\<lambda>(is_reached, rest).
            Inr (combined\<lparr>sss_accounted := Some (in_usd t), sss_reached := is_reached,
                          sss_remaining := Some (in_usd rest)\<rparr>))))"

lemma in_usd_create: "MonetaryAmount_create ''USD'' a = Inr (in_usd a)"
  using create_unit [of Unit_usd a] by (simp add: cost_estimate_unit_name_def in_usd_def)

section \<open>The ledger is consistent\<close>

abbreviation spend_id :: "ToolSpendRecord \<Rightarrow> InvocationId" where
  "spend_id r \<equiv> rsv_invocation_id (tsr_reservation r)"

definition spend_entry_ok :: "ToolSpendLedgerProjection \<Rightarrow> ToolSpendRecord \<Rightarrow> bool" where
  "spend_entry_ok s r \<longleftrightarrow>
     tl_proposals s (spend_id r) =
       Some \<lparr>prop_run_id = tsr_run_id r, prop_quote = Some (reservation_quote (tsr_reservation r))\<rparr> \<and>
     (tsr_tool_started r \<longleftrightarrow> spend_id r \<in> tl_started_invocations s) \<and>
     (tsr_status r = Spend_finalized \<or> tsr_status r = Spend_reconciliation_required \<longrightarrow> tsr_tool_started r) \<and>
     (tsr_status r = Spend_finalized \<longleftrightarrow> tsr_finalization r \<noteq> None) \<and>
     (\<forall>f. tsr_finalization r = Some f \<longrightarrow> fin_invocation_id f = spend_id r \<and>
        amount_value (money_amount (fin_amount f)) \<le> amount_value (money_amount (rsv_maximum (tsr_reservation r))))"

definition tool_ledger_ok :: "ToolSpendLedgerProjection \<Rightarrow> bool" where
  "tool_ledger_ok s \<longleftrightarrow> distinct (map spend_id (tl_records s)) \<and>
     list_all (spend_entry_ok s) (tl_records s) \<and>
     (\<forall>iid \<in> tl_started_invocations s. \<exists>p. tl_proposals s iid = Some p \<and>
        (prop_quote p \<noteq> None \<longrightarrow> iid \<in> spend_id ` set (tl_records s))) \<and>
     (\<forall>iid \<in> tl_terminal_invocations s. tl_proposals s iid \<noteq> None)"

lemma with_spend_Inr:
  "with_spend s e iid k = Inr s' \<longleftrightarrow>
    (\<exists>r. find_spend iid s = Some r \<and> event_invocation_matches e iid \<and>
      tsr_run_id r = em_run_id (metadata e) \<and> k r = Inr s')"
  by (auto simp: with_spend_def split: option.split)

lemma modify_spend_split:
  assumes "find_spend iid s = Some r"
  obtains as bs where "tl_records s = as @ r # bs" and "spend_id r = iid"
    and "\<And>g. modify_spend iid g s = s\<lparr>tl_records := as @ g r # bs\<rparr>"
  using assms unfolding find_spend_def modify_spend_def by (elim modify_first_split) auto

lemma find_spendD: "find_spend iid s = Some r \<Longrightarrow> r \<in> set (tl_records s) \<and> spend_id r = iid"
  unfolding find_spend_def by (drule find_SomeD) simp

lemma tool_ledger_ok_modify:
  assumes ok: "tool_ledger_ok s" and r: "find_spend iid s = Some r"
    and g: "tsr_reservation (g r) = tsr_reservation r" "spend_entry_ok s r \<Longrightarrow> spend_entry_ok s (g r)"
  shows "tool_ledger_ok (modify_spend iid g s)"
proof -
  from r obtain as bs where split: "tl_records s = as @ r # bs"
    and mod: "modify_spend iid g s = s\<lparr>tl_records := as @ g r # bs\<rparr>"
    by (rule modify_spend_split) blast
  have "spend_entry_ok (s\<lparr>tl_records := x\<rparr>) = spend_entry_ok s" for x
    by (simp add: spend_entry_ok_def fun_eq_iff)
  with ok g show ?thesis unfolding tool_ledger_ok_def split by (simp add: mod)
qed

lemma spend_entry_ok_frame:
  assumes "spend_entry_ok s r" and "tl_proposals t (spend_id r) = tl_proposals s (spend_id r)"
    and "spend_id r \<in> tl_started_invocations t \<longleftrightarrow> spend_id r \<in> tl_started_invocations s"
  shows "spend_entry_ok t r"
  using assms unfolding spend_entry_ok_def by auto

lemma spend_tool_proposed_ok:
  assumes ok: "tool_ledger_ok s" and "spend_tool_proposed s e p = Inr s'"
  shows "tool_ledger_ok s'"
proof -
  let ?i = "tp_invocation_id p"
  from assms(2) obtain q where fresh: "tl_proposals s ?i = None"
    and s': "s' = s\<lparr>tl_proposals := (tl_proposals s)(?i \<mapsto> q)\<rparr>"
    by (auto simp: spend_tool_proposed_def Let_def)
  have "spend_entry_ok s' r" if "spend_entry_ok s r" for r
    using that fresh by (intro spend_entry_ok_frame [OF that]) (auto simp: s' spend_entry_ok_def)
  with ok fresh show ?thesis
    unfolding tool_ledger_ok_def s' by (auto simp: list_all_iff)
qed

lemma spend_reserved_ok:
  assumes ok: "tool_ledger_ok s" and "spend_reserved s e rsv = Inr s'"
  shows "tool_ledger_ok s'"
proof -
  let ?i = "rsv_invocation_id rsv"
  from assms(2) obtain p where p: "tl_proposals s ?i = Some p" "prop_quote p = Some (reservation_quote rsv)"
    "prop_run_id p = em_run_id (metadata e)" and fresh: "find_spend ?i s = None" "?i \<notin> tl_started_invocations s"
    and s': "s' = s\<lparr>tl_records := tl_records s @
      [\<lparr>tsr_run_id = em_run_id (metadata e), tsr_reservation = rsv, tsr_status = Spend_reserved,
        tsr_finalization = None, tsr_reconciliation_reason = None, tsr_tool_started = False\<rparr>]\<rparr>"
    by (auto simp: spend_reserved_def Let_def split: option.split_asm)
  have "spend_entry_ok s' r" if "spend_entry_ok s r" for r
    using that by (intro spend_entry_ok_frame [OF that]) (auto simp: s')
  moreover have "?i \<notin> spend_id ` set (tl_records s)"
    using fresh(1) by (simp add: find_spend_def find_None_iff_key)
  ultimately show ?thesis
    using ok p fresh(2) unfolding tool_ledger_ok_def s' by (auto simp: list_all_iff spend_entry_ok_def)
qed

lemma tool_ledger_entry: "tool_ledger_ok s \<Longrightarrow> r \<in> set (tl_records s) \<Longrightarrow> spend_entry_ok s r"
  by (simp add: tool_ledger_ok_def list_all_iff)

lemma spend_tool_started_ok:
  assumes ok: "tool_ledger_ok s" and "spend_tool_started s e iid = Inr s'"
  shows "tool_ledger_ok s'"
proof -
  from assms(2) obtain p where p: "tl_proposals s iid = Some p" and new: "iid \<notin> tl_started_invocations s"
    by (auto simp: spend_tool_started_def split: option.split_asm)
  show ?thesis
  proof (cases "find_spend iid s")
    case None
    with assms(2) p have s': "prop_quote p = None"
      "s' = s\<lparr>tl_started_invocations := insert iid (tl_started_invocations s)\<rparr>"
      by (auto simp: spend_tool_started_def)
    have "iid \<notin> spend_id ` set (tl_records s)"
      using None by (simp add: find_spend_def find_None_iff_key)
    then have "spend_entry_ok s' r" if "r \<in> set (tl_records s)" for r
      using that by (intro spend_entry_ok_frame [OF tool_ledger_entry [OF ok that]]) (auto simp: s'(2))
    with ok p s'(1) show ?thesis unfolding tool_ledger_ok_def s'(2) by (auto simp: list_all_iff)
  next
    case (Some r)
    then obtain as bs where split: "tl_records s = as @ r # bs" "spend_id r = iid"
      and mod: "modify_spend iid (\<lambda>r. r\<lparr>tsr_tool_started := True\<rparr>) s =
        s\<lparr>tl_records := as @ r\<lparr>tsr_tool_started := True\<rparr> # bs\<rparr>" by (rule modify_spend_split) blast
    from assms(2) p Some have s': "s' = s\<lparr>tl_records := as @ r\<lparr>tsr_tool_started := True\<rparr> # bs,
        tl_started_invocations := insert iid (tl_started_invocations s)\<rparr>"
      by (auto simp: spend_tool_started_def mod)
    have dist: "iid \<notin> spend_id ` (set as \<union> set bs)" using ok split by (auto simp: tool_ledger_ok_def)
    have "spend_entry_ok s' x" if x: "x \<in> set as \<union> set bs" for x
    proof (rule spend_entry_ok_frame)
      show "spend_entry_ok s x" using x split(1) by (intro tool_ledger_entry [OF ok]) auto
    qed (use x dist in \<open>auto simp: s'\<close>)
    moreover have "spend_entry_ok s r" using split(1) by (intro tool_ledger_entry [OF ok]) simp
    then have "spend_entry_ok s' (r\<lparr>tsr_tool_started := True\<rparr>)"
      using split(2) by (auto simp: s' spend_entry_ok_def)
    ultimately show ?thesis
      using ok p split unfolding tool_ledger_ok_def s' by (auto simp: list_all_iff)
  qed
qed

lemma spend_settle_ok:
  assumes ok: "tool_ledger_ok s" and r: "find_spend iid s = Some r"
    and g: "tsr_reservation (g r) = tsr_reservation r" "tsr_run_id (g r) = tsr_run_id r"
      "tsr_tool_started (g r) = tsr_tool_started r"
    and st: "tsr_status (g r) = Spend_released \<and> tsr_finalization (g r) = tsr_finalization r \<or>
      tsr_tool_started r \<and> tsr_status (g r) = Spend_reconciliation_required \<and> tsr_finalization (g r) = tsr_finalization r \<or>
      tsr_tool_started r \<and> tsr_status (g r) = Spend_finalized \<and>
      (\<exists>f. tsr_finalization (g r) = Some f \<and> valid_tool_spend_finalization f (tsr_reservation r))"
    and res: "tsr_status r = Spend_reserved"
  shows "tool_ledger_ok (modify_spend iid g s)"
proof (rule tool_ledger_ok_modify [where g = g, OF ok r g(1)])
  assume "spend_entry_ok s r"
  then show "spend_entry_ok s (g r)"
    using g st res
    by (auto simp: spend_entry_ok_def valid_tool_spend_finalization_def amount_compare_eq split: if_split_asm)
qed

lemma tool_ledger_ok_terminal:
  "tool_ledger_ok s \<Longrightarrow> tl_proposals s iid \<noteq> None \<Longrightarrow>
    tool_ledger_ok (s\<lparr>tl_terminal_invocations := insert iid (tl_terminal_invocations s)\<rparr>)"
proof -
  have "spend_entry_ok (s\<lparr>tl_terminal_invocations := x\<rparr>) = spend_entry_ok s" for x
    by (simp add: spend_entry_ok_def fun_eq_iff)
  then show "tool_ledger_ok s \<Longrightarrow> tl_proposals s iid \<noteq> None \<Longrightarrow>
      tool_ledger_ok (s\<lparr>tl_terminal_invocations := insert iid (tl_terminal_invocations s)\<rparr>)"
    by (auto simp: tool_ledger_ok_def)
qed

lemma spend_visit_ok:
  assumes ok: "tool_ledger_ok s" and visit: "spend_visit s e = Inr s'"
  shows "tool_ledger_ok s'"
proof (cases "payload e")
  case (ToolSpendReleased iid)
  with visit obtain r where "find_spend iid s = Some r" "tsr_status r = Spend_reserved"
    "s' = modify_spend iid (\<lambda>r. r\<lparr>tsr_status := Spend_released\<rparr>) s"
    by (auto simp: spend_visit_def spend_released_def with_spend_Inr)
  then show ?thesis by (auto intro!: spend_settle_ok [OF ok])
next
  case (ToolSpendFinalized f)
  with visit obtain r where "find_spend (fin_invocation_id f) s = Some r" "tsr_status r = Spend_reserved"
    "tsr_tool_started r" "valid_tool_spend_finalization f (tsr_reservation r)"
    "s' = modify_spend (fin_invocation_id f) (\<lambda>r. r\<lparr>tsr_status := Spend_finalized, tsr_finalization := Some f\<rparr>) s"
    by (auto simp: spend_visit_def spend_finalized_def with_spend_Inr Let_def)
  then show ?thesis by (auto intro!: spend_settle_ok [OF ok])
next
  case (ToolSpendReconciliationRequired iid reason)
  with visit obtain r where "find_spend iid s = Some r" "tsr_status r = Spend_reserved" "tsr_tool_started r"
    "s' = modify_spend iid (\<lambda>r. r\<lparr>tsr_status := Spend_reconciliation_required,
        tsr_reconciliation_reason := Some reason\<rparr>) s"
    by (auto simp: spend_visit_def spend_reconciliation_required_def with_spend_Inr)
  then show ?thesis by (auto intro!: spend_settle_ok [OF ok])
qed (use assms in \<open>auto simp: spend_visit_def spend_tool_result_def spend_tool_errored_def
    intro: spend_tool_proposed_ok spend_reserved_ok spend_tool_started_ok intro!: tool_ledger_ok_terminal
    split: option.split_asm\<close>)

lemma spend_visit_envelope:
  "spend_visit s e = Inr s' \<Longrightarrow> tl_event_ids s' = tl_event_ids s \<and> tl_last_sequence s' = tl_last_sequence s"
  by (cases "payload e")
    (auto simp: spend_visit_def spend_tool_proposed_def spend_reserved_def spend_tool_started_def
      spend_released_def spend_finalized_def spend_reconciliation_required_def spend_tool_result_def
      spend_tool_errored_def with_spend_Inr modify_spend_def Let_def split: option.split_asm)

lemma tool_ledger_ok_update [simp]:
  "tool_ledger_ok (s\<lparr>tl_event_ids := i, tl_last_sequence := n\<rparr>) = tool_ledger_ok s"
proof -
  have "spend_entry_ok (s\<lparr>tl_event_ids := i, tl_last_sequence := n\<rparr>) = spend_entry_ok s"
    by (simp add: spend_entry_ok_def fun_eq_iff)
  then show ?thesis by (simp add: tool_ledger_ok_def)
qed

interpretation tool_ledger: identified ToolSpendLedger_apply event_sequence tl_last_sequence event_ident tl_event_ids
  by unfold_locales (auto simp: ToolSpendLedger_apply_def dest: spend_visit_envelope)

interpretation tool_ledger_invariant: invariant ToolSpendLedger_apply tool_ledger_ok
  by unfold_locales (auto simp: ToolSpendLedger_apply_def intro: spend_visit_ok)

lemma tool_ledger_ok_initial: "tool_ledger_ok ToolSpendLedger_initial"
  by (simp add: tool_ledger_ok_def ToolSpendLedger_initial_def)

section \<open>The tool summary is exact\<close>

definition spend_amounts_ok :: "ToolSpendRecord \<Rightarrow> bool" where
  "spend_amounts_ok r \<longleftrightarrow> amount_ok (money_amount (rsv_maximum (tsr_reservation r))) \<and>
     option_ok (\<lambda>f. amount_ok (money_amount (fin_amount f))) (tsr_finalization r)"

text \<open>What a record costs: its maximum while the outcome is open, the final amount, or nothing.\<close>

definition charged_value :: "ToolSpendRecord \<Rightarrow> rat" where
  "charged_value r =
     (case tsr_status r of
        Spend_released \<Rightarrow> 0
      | Spend_finalized \<Rightarrow> (case tsr_finalization r of None \<Rightarrow> 0 | Some f \<Rightarrow> amount_value (money_amount (fin_amount f)))
      | _ \<Rightarrow> amount_value (money_amount (rsv_maximum (tsr_reservation r))))"

definition totals_ok :: "SpendTotals \<Rightarrow> bool" where
  "totals_ok t \<longleftrightarrow>
     amount_ok (st_total t) \<and> amount_ok (st_reserved_maximum t) \<and> amount_ok (st_reconciliation_maximum t) \<and>
     amount_ok (st_provider_reported_amount t) \<and> amount_ok (st_catalog_estimate_amount t) \<and>
     amount_ok (st_policy_upper_bound_amount t) \<and>
     amount_value (st_total t) =
       amount_value (st_reserved_maximum t) + amount_value (st_reconciliation_maximum t) +
       amount_value (st_provider_reported_amount t) + amount_value (st_catalog_estimate_amount t) +
       amount_value (st_policy_upper_bound_amount t) \<and>
     st_reservations t = st_reserved t + st_released t + st_finalized t + st_reconciliation_required t \<and>
     st_finalized t = st_provider_reported t + st_catalog_estimate t + st_policy_upper_bound t"

lemma accumulate_Inr:
  "accumulate a b = Inr c \<Longrightarrow> amount_ok a \<Longrightarrow> amount_ok b \<Longrightarrow>
    amount_ok c \<and> amount_value c = amount_value a + amount_value b"
  unfolding accumulate_def by (auto dest: amount_add_Inr)

lemma add_spend_record_spec:
  assumes "add_spend_record r t = Inr t'" and "totals_ok t" and "spend_amounts_ok r"
  shows "totals_ok t' \<and> amount_value (st_total t') = amount_value (st_total t) + charged_value r \<and>
    st_reservations t' = st_reservations t + 1"
proof (cases "tsr_status r")
  case Spend_reserved
  with assms show ?thesis
    by (auto simp: add_spend_record_def charge_def totals_ok_def charged_value_def spend_amounts_ok_def Let_def
        dest!: accumulate_Inr)
next
  case Spend_released
  with assms show ?thesis by (auto simp: add_spend_record_def totals_ok_def charged_value_def Let_def)
next
  case Spend_reconciliation_required
  with assms show ?thesis
    by (auto simp: add_spend_record_def charge_def totals_ok_def charged_value_def spend_amounts_ok_def Let_def
        dest!: accumulate_Inr)
next
  case Spend_finalized
  with assms(1) obtain f where f: "tsr_finalization r = Some f"
    by (auto simp: add_spend_record_def Let_def split: option.split_asm)
  with assms Spend_finalized show ?thesis
    by (cases "fin_basis f")
      (auto simp: add_spend_record_def add_finalized_def charge_def totals_ok_def charged_value_def
        spend_amounts_ok_def Let_def dest!: accumulate_Inr)
qed

lemma spend_totals_spec:
  "spend_totals rs t = Inr t' \<Longrightarrow> totals_ok t \<Longrightarrow> list_all spend_amounts_ok rs \<Longrightarrow>
    totals_ok t' \<and> amount_value (st_total t') = amount_value (st_total t) + sum_list (map charged_value rs) \<and>
    st_reservations t' = st_reservations t + length rs"
proof (induction rs arbitrary: t)
  case (Cons r rs)
  then obtain u where u: "add_spend_record r t = Inr u" "spend_totals rs u = Inr t'" by auto
  with add_spend_record_spec [OF u(1)] Cons show ?case by fastforce
qed simp

lemma remaining_of_spec:
  assumes "remaining_of t bound = Inr (b, rest)" and "amount_ok t" and "amount_ok (ceiling_amount bound)"
  shows "(b \<longleftrightarrow> amount_value (ceiling_amount bound) \<le> amount_value t) \<and> amount_ok rest \<and>
    amount_value rest = max 0 (amount_value (ceiling_amount bound) - amount_value t)"
proof (cases "amount_value t < amount_value (ceiling_amount bound)")
  case True
  with assms show ?thesis by (auto simp: remaining_of_def Let_def amount_compare_eq amount_subtract_value)
qed (use assms in \<open>auto simp: remaining_of_def Let_def amount_compare_eq split: if_split_asm\<close>)

lemma tool_summary_spec:
  assumes "summarize_tool_spend ledger bound = Inr summary" and "list_all spend_amounts_ok (tl_records ledger)"
    and "amount_ok (ceiling_amount bound)"
  shows "\<exists>t. totals_ok t \<and> tss_accounted summary = in_usd (st_total t) \<and>
    amount_value (st_total t) = sum_list (map charged_value (tl_records ledger)) \<and>
    amount_value (st_total t) =
      amount_value (money_amount (tss_reserved_maximum summary)) +
      amount_value (money_amount (tss_reconciliation_maximum summary)) +
      amount_value (money_amount (tss_provider_reported_amount summary)) +
      amount_value (money_amount (tss_catalog_estimate_amount summary)) +
      amount_value (money_amount (tss_policy_upper_bound_amount summary)) \<and>
    tss_reservations summary = length (tl_records ledger) \<and>
    tss_reservations summary = tss_reserved summary + tss_released summary + tss_finalized summary +
      tss_reconciliation_required summary \<and>
    (tss_reached summary \<longleftrightarrow> amount_value (ceiling_amount bound) \<le> amount_value (st_total t)) \<and>
    amount_value (money_amount (tss_remaining summary)) =
      max 0 (amount_value (ceiling_amount bound) - amount_value (st_total t))"
proof -
  from assms(1) obtain t b rest where t: "spend_totals (tl_records ledger) empty_totals = Inr t"
    "remaining_of (st_total t) bound = Inr (b, rest)" by (auto simp: summarize_tool_spend_def)
  have "totals_ok empty_totals" by (simp add: totals_ok_def empty_totals_def)
  from spend_totals_spec [OF t(1) this assms(2)]
  have s: "totals_ok t" "amount_value (st_total t) = sum_list (map charged_value (tl_records ledger))"
    "st_reservations t = length (tl_records ledger)" by (auto simp: empty_totals_def)
  moreover have "amount_ok (st_total t)" using s(1) by (simp add: totals_ok_def)
  note remaining_of_spec [OF t(2) this assms(3)]
  ultimately show ?thesis
    using assms(1) t by (intro exI [of _ t]) (auto simp: summarize_tool_spend_def in_usd_def totals_ok_def)
qed

text \<open>
  The tool summary is exact: what it accounts for is the rational sum of the maxima of open and
  unreconciled reservations and of the final amounts of settled ones, split without remainder over
  the five subtotals; every reservation is counted under exactly one status, and the ceiling counts
  as reached exactly when the sum is not below it.
\<close>

theorem tool_spend_summary_exact:
  assumes "summarize_tool_spend ledger bound = Inr summary" and "list_all spend_amounts_ok (tl_records ledger)"
    and "amount_ok (ceiling_amount bound)"
  shows "money_unit (tss_accounted summary) = ''USD'' \<and>
    amount_value (money_amount (tss_accounted summary)) = sum_list (map charged_value (tl_records ledger)) \<and>
    amount_value (money_amount (tss_accounted summary)) =
      amount_value (money_amount (tss_reserved_maximum summary)) +
      amount_value (money_amount (tss_reconciliation_maximum summary)) +
      amount_value (money_amount (tss_provider_reported_amount summary)) +
      amount_value (money_amount (tss_catalog_estimate_amount summary)) +
      amount_value (money_amount (tss_policy_upper_bound_amount summary)) \<and>
    tss_reserved summary + tss_released summary + tss_finalized summary + tss_reconciliation_required summary
      = length (tl_records ledger) \<and>
    (tss_reached summary \<longleftrightarrow>
      amount_value (ceiling_amount bound) \<le> sum_list (map charged_value (tl_records ledger)))"
  using tool_summary_spec [OF assms] by (auto simp: in_usd_def)

section \<open>Settled reservations\<close>

lemma find_spend_modify:
  assumes "find_spend iid s = Some r" and "spend_id (g r) = spend_id r"
  shows "find_spend i (modify_spend iid g s) = (if i = iid then Some (g r) else find_spend i s)"
proof (cases "i = iid")
  case True
  with assms show ?thesis
    unfolding find_spend_def modify_spend_def
    by (auto intro!: find_modify_first_key dest: find_SomeD)
next
  case False
  from assms(1) obtain as bs where "tl_records s = as @ r # bs" "spend_id r = iid"
    "modify_spend iid g s = s\<lparr>tl_records := as @ g r # bs\<rparr>" by (rule modify_spend_split) blast
  with False assms(2) show ?thesis by (simp add: find_spend_def find_append split: option.split)
qed

text \<open>A step leaves a record alone unless it settles or starts an open one.\<close>

lemma spend_visit_record:
  assumes visit: "spend_visit s e = Inr s'" and r: "find_spend iid s = Some r"
  shows "\<exists>r'. find_spend iid s' = Some r' \<and> tsr_reservation r' = tsr_reservation r \<and>
    (tsr_status r \<noteq> Spend_reserved \<longrightarrow> r' = r) \<and>
    (tsr_status r' \<noteq> tsr_status r \<longrightarrow> iid \<notin> tl_terminal_invocations s)"
proof (cases "payload e")
  case (ToolSpendReserved rsv)
  with visit r show ?thesis
    by (auto simp: spend_visit_def spend_reserved_def Let_def find_spend_def find_append split: option.split_asm)
next
  case (ToolStarted i)
  have "find_spend j (t\<lparr>tl_started_invocations := x\<rparr>) = find_spend j t" for j t x by (simp add: find_spend_def)
  with ToolStarted visit r show ?thesis
    by (auto simp: spend_visit_def spend_tool_started_def find_spend_modify split: option.split_asm)
next
  case (ToolSpendReleased i)
  with visit r show ?thesis
    by (auto simp: spend_visit_def spend_released_def with_spend_Inr find_spend_modify)
next
  case (ToolSpendFinalized f)
  with visit r show ?thesis
    by (auto simp: spend_visit_def spend_finalized_def with_spend_Inr find_spend_modify Let_def)
next
  case (ToolSpendReconciliationRequired i x)
  with visit r show ?thesis
    by (auto simp: spend_visit_def spend_reconciliation_required_def with_spend_Inr find_spend_modify)
qed (use assms in \<open>auto simp: spend_visit_def spend_tool_proposed_def spend_tool_result_def spend_tool_errored_def
    find_spend_def Let_def split: option.split_asm\<close>)

lemma spend_apply_record:
  assumes "ToolSpendLedger_apply s e = Inr s'" and "find_spend iid s = Some r"
  shows "\<exists>r'. find_spend iid s' = Some r' \<and> tsr_reservation r' = tsr_reservation r \<and>
    (tsr_status r \<noteq> Spend_reserved \<longrightarrow> r' = r) \<and>
    (tsr_status r' \<noteq> tsr_status r \<longrightarrow> iid \<notin> tl_terminal_invocations s)"
proof -
  from assms(1) obtain t where "spend_visit s e = Inr t"
    "s' = t\<lparr>tl_event_ids := insert (event_ident e) (tl_event_ids t), tl_last_sequence := event_sequence e\<rparr>"
    by (auto simp: ToolSpendLedger_apply_def)
  with spend_visit_record [OF _ assms(2)] show ?thesis by (simp add: find_spend_def)
qed

text \<open>
  A settled reservation is final: once it is released, finalized or left for reconciliation, no
  later event changes anything of its record.
\<close>

theorem settled_spend_is_final:
  assumes "replay ToolSpendLedger_apply s es = Inr s'" and "find_spend iid s = Some r"
    and "tsr_status r \<noteq> Spend_reserved"
  shows "find_spend iid s' = Some r"
  using assms
proof (induction es arbitrary: s)
  case (Cons e es)
  then obtain t where t: "ToolSpendLedger_apply s e = Inr t" "replay ToolSpendLedger_apply t es = Inr s'" by auto
  with spend_apply_record [OF t(1) Cons.prems(2)] Cons.prems(3) have "find_spend iid t = Some r" by auto
  from Cons.IH [OF t(2) this Cons.prems(3)] show ?case .
qed simp

lemma spend_terminal_mono:
  assumes "ToolSpendLedger_apply s e = Inr s'"
  shows "tl_terminal_invocations s \<subseteq> tl_terminal_invocations s'"
  using assms
  by (cases "payload e")
    (auto simp: ToolSpendLedger_apply_def spend_visit_def spend_tool_proposed_def spend_reserved_def
      spend_tool_started_def spend_released_def spend_finalized_def spend_reconciliation_required_def
      spend_tool_result_def spend_tool_errored_def with_spend_Inr modify_spend_def Let_def split: option.split_asm)

text \<open>
  C38: a reservation that is open when its tool has terminated stays open for ever and keeps charging
  its maximum to the session: neither release, finalization nor reconciliation is accepted any more.
\<close>

theorem terminated_reservation_is_stuck:
  assumes "replay ToolSpendLedger_apply s es = Inr s'" and "find_spend iid s = Some r"
    and "tsr_status r = Spend_reserved" and "iid \<in> tl_terminal_invocations s"
  shows "\<exists>r'. find_spend iid s' = Some r' \<and> tsr_status r' = Spend_reserved \<and>
    charged_value r' = amount_value (money_amount (rsv_maximum (tsr_reservation r)))"
  using assms
proof (induction es arbitrary: s r)
  case (Cons e es)
  then obtain t where t: "ToolSpendLedger_apply s e = Inr t" "replay ToolSpendLedger_apply t es = Inr s'" by auto
  from spend_apply_record [OF t(1) Cons.prems(2)] Cons.prems(3,4)
  obtain r' where "find_spend iid t = Some r'" "tsr_status r' = Spend_reserved" "tsr_reservation r' = tsr_reservation r"
    by auto
  with Cons.IH [OF t(2)] spend_terminal_mono [OF t(1)] Cons.prems(4) show ?case by (metis subsetD)
qed (simp add: charged_value_def)

section \<open>A sample session with a paid tool\<close>

definition sample_digest :: ContentDigest where
  "sample_digest = \<lparr>dg_algorithm = ''sha256'', dg_value = replicate 64 CHR ''a'', dg_byte_size = 1\<rparr>"

definition sample_usd :: "u64 \<Rightarrow> MonetaryAmount" where
  "sample_usd n = \<lparr>money_unit = ''USD'', money_amount = \<lparr>coefficient = n, scale = 0\<rparr>\<rparr>"

definition sample_reservation :: ToolSpendReservation where
  "sample_reservation =
     \<lparr>rsv_invocation_id = Id ''t1'', rsv_maximum = sample_usd 5, rsv_basis = Estimate_catalog_estimate,
      rsv_evidence_digest = sample_digest, rsv_valid_until = 100\<rparr>"

definition sample_proposed :: ToolProposed where
  "sample_proposed =
     \<lparr>tp_invocation_id = Id ''t1'', tp_tool_name = ''tool'', tp_arguments = \<lparr>media_type = [], sd_data = []\<rparr>,
      tp_declared_effects = [Effect_spend], tp_parent_invocation_id = None, tp_arguments_replayable = True,
      tp_validated_required_scopes = [], tp_requested_scopes = [], tp_result_message_id = None,
      tp_spend_quote = Some (reservation_quote sample_reservation),
      tp_validated_arguments = Some \<lparr>media_type = [], sd_data = []\<rparr>, tp_observation_request = None\<rparr>"

definition tool_event :: "nat \<Rightarrow> u32 \<Rightarrow> RunEventPayload \<Rightarrow> RunEvent" where
  "tool_event n version p =
     (let e = sample_event n p in
      e\<lparr>metadata := (metadata e)\<lparr>schema_version := version, em_invocation_id := Some (Id ''t1'')\<rparr>\<rparr>)"

text \<open>The tool reserves five, starts, costs three and reports its result.\<close>

definition sample_paid_run :: "RunEvent list" where
  "sample_paid_run =
     [tool_event 1 2 (ToolProposedEvent sample_proposed), tool_event 2 1 (ToolSpendReserved sample_reservation),
      tool_event 3 1 (ToolStarted (Id ''t1'')),
      tool_event 4 1 (ToolSpendFinalized \<lparr>fin_invocation_id = Id ''t1'', fin_amount = sample_usd 3,
        fin_basis = Final_catalog_estimate, fin_provider_evidence_digest = None\<rparr>),
      tool_event 5 1 (ToolResultRecorded (Id ''t1'') [] None)]"

text \<open>The tool fails before it reserves anything, and the reservation comes late.\<close>

definition sample_late_reservation :: "RunEvent list" where
  "sample_late_reservation =
     [tool_event 1 2 (ToolProposedEvent sample_proposed),
      tool_event 2 1 (ToolErrored (Id ''t1'')
        \<lparr>err_code = Err_backend, err_message = [], err_retryable = False\<rparr> None),
      tool_event 3 1 (ToolSpendReserved sample_reservation)]"

lemmas tool_sample_simps = sample_digest_def sample_usd_def sample_reservation_def sample_proposed_def
  tool_event_def sample_event_def reservation_quote_def

lemmas tool_ledger_simps = ToolSpendLedger_initial_def ToolSpendLedger_apply_def spend_visit_def
  spend_tool_proposed_def spend_reserved_def spend_tool_started_def spend_released_def spend_finalized_def
  spend_tool_result_def spend_tool_errored_def with_spend_def find_spend_def modify_spend_def
  event_invocation_matches_def proposal_schema_def valid_observation_spend_proposal_def
  valid_tool_spend_quote_def valid_tool_spend_reservation_def valid_tool_spend_finalization_def
  valid_tool_spend_finalization_shape_def valid_usd_def spend_valid_digest_def Let_def

lemma sample_paid_run_accepted:
  "\<exists>s r f. replay ToolSpendLedger_apply ToolSpendLedger_initial sample_paid_run = Inr s \<and>
    find_spend (Id ''t1'') s = Some r \<and> tsr_status r = Spend_finalized \<and> tsr_finalization r = Some f \<and>
    tl_records s = [r] \<and> fin_amount f = sample_usd 3 \<and> rsv_maximum (tsr_reservation r) = sample_usd 5"
  by (simp add: sample_paid_run_def tool_sample_simps tool_ledger_simps replicate_numeral_Cons ascii_digit_def
      byte_def word_le_nat_alt amount_compare_eq amount_value_def)

lemma sample_late_accepted:
  "\<exists>s r. replay ToolSpendLedger_apply ToolSpendLedger_initial sample_late_reservation = Inr s \<and>
    find_spend (Id ''t1'') s = Some r \<and> tsr_status r = Spend_reserved \<and> Id ''t1'' \<in> tl_terminal_invocations s"
  by (simp add: sample_late_reservation_def tool_sample_simps tool_ledger_simps replicate_numeral_Cons
      ascii_digit_def byte_def word_le_nat_alt amount_compare_eq amount_value_def)

lemma sample_finalized:
  "\<exists>s r. replay ToolSpendLedger_apply ToolSpendLedger_initial (take 4 sample_paid_run) = Inr s \<and>
    find_spend (Id ''t1'') s = Some r \<and> tsr_status r = Spend_finalized"
  by (simp add: sample_paid_run_def tool_sample_simps tool_ledger_simps replicate_numeral_Cons ascii_digit_def
      byte_def word_le_nat_alt amount_compare_eq amount_value_def)

theorem settled_spend_is_final_witness:
  "\<exists>s0 s r. replay ToolSpendLedger_apply s0 (drop 4 sample_paid_run) = Inr s \<and>
    find_spend (Id ''t1'') s0 = Some r \<and> find_spend (Id ''t1'') s = Some r"
proof -
  obtain s0 r where s0: "replay ToolSpendLedger_apply ToolSpendLedger_initial (take 4 sample_paid_run) = Inr s0"
    "find_spend (Id ''t1'') s0 = Some r" "tsr_status r = Spend_finalized"
    using sample_finalized by blast
  obtain s where "replay ToolSpendLedger_apply ToolSpendLedger_initial sample_paid_run = Inr s"
    using sample_paid_run_accepted by blast
  then have s: "replay ToolSpendLedger_apply s0 (drop 4 sample_paid_run) = Inr s"
    using replay_append [of ToolSpendLedger_apply _ "take 4 sample_paid_run" "drop 4 sample_paid_run"] s0(1)
    by simp
  have "tsr_status r \<noteq> Spend_reserved" using s0(3) by simp
  from settled_spend_is_final [OF s s0(2) this] s s0(2) show ?thesis by blast
qed

lemma sample_late_started:
  "ok (replay ToolSpendLedger_apply ToolSpendLedger_initial
    (sample_late_reservation @ [tool_event 4 1 (ToolStarted (Id ''t1''))]))"
  by (simp add: sample_late_reservation_def tool_sample_simps tool_ledger_simps replicate_numeral_Cons
      ascii_digit_def byte_def word_le_nat_alt amount_compare_eq amount_value_def)

theorem terminated_reservation_is_stuck_witness:
  "\<exists>s r. replay ToolSpendLedger_apply ToolSpendLedger_initial
      (sample_late_reservation @ [tool_event 4 1 (ToolStarted (Id ''t1''))]) = Inr s \<and>
    find_spend (Id ''t1'') s = Some r \<and> tsr_status r = Spend_reserved"
proof -
  obtain s0 r where s0: "replay ToolSpendLedger_apply ToolSpendLedger_initial sample_late_reservation = Inr s0"
    "find_spend (Id ''t1'') s0 = Some r" "tsr_status r = Spend_reserved" "Id ''t1'' \<in> tl_terminal_invocations s0"
    using sample_late_accepted by blast
  obtain s where s: "replay ToolSpendLedger_apply ToolSpendLedger_initial
      (sample_late_reservation @ [tool_event 4 1 (ToolStarted (Id ''t1''))]) = Inr s"
    using sample_late_started by (auto simp: ok_iff)
  with s0(1) have "replay ToolSpendLedger_apply s0 [tool_event 4 1 (ToolStarted (Id ''t1''))] = Inr s"
    by (simp only: replay_append bind_result.simps)
  from terminated_reservation_is_stuck [OF this s0(2-4)] s show ?thesis by blast
qed

lemma sample_paid_amounts:
  assumes "tl_records s = [r]" "tsr_finalization r = Some f" "fin_amount f = sample_usd 3"
    "rsv_maximum (tsr_reservation r) = sample_usd 5"
  shows "list_all spend_amounts_ok (tl_records s)"
  using assms by (simp add: spend_amounts_ok_def sample_usd_def amount_ok_def)

theorem tool_spend_summary_exact_witness:
  "\<exists>s summary. replay ToolSpendLedger_apply ToolSpendLedger_initial sample_paid_run = Inr s \<and>
    summarize_tool_spend s \<lparr>ceiling_amount = \<lparr>coefficient = 9, scale = 0\<rparr>\<rparr> = Inr summary \<and>
    amount_value (money_amount (tss_accounted summary)) = 3 \<and> \<not> tss_reached summary"
proof -
  let ?bound = "\<lparr>ceiling_amount = \<lparr>coefficient = 9, scale = 0\<rparr>\<rparr>"
  obtain s r f where s: "replay ToolSpendLedger_apply ToolSpendLedger_initial sample_paid_run = Inr s"
    and r: "tl_records s = [r]" "tsr_finalization r = Some f" "fin_amount f = sample_usd 3"
    "rsv_maximum (tsr_reservation r) = sample_usd 5" "tsr_status r = Spend_finalized"
    and "find_spend (Id ''t1'') s = Some r"
    using sample_paid_run_accepted by blast
  note ok = sample_paid_amounts [OF r(1-4)]
  have sums: "amount_add zero_amount \<lparr>coefficient = 3, scale = 0\<rparr> = Inr \<lparr>coefficient = 3, scale = 0\<rparr>"
    "amount_subtract \<lparr>coefficient = 9, scale = 0\<rparr> \<lparr>coefficient = 3, scale = 0\<rparr> = Inr \<lparr>coefficient = 6, scale = 0\<rparr>"
    using small_sums by (simp_all add: zero_amount_def)
  then obtain summary where summary: "summarize_tool_spend s ?bound = Inr summary"
    using r by (cases "fin_basis f")
      (auto simp: summarize_tool_spend_def add_spend_record_def add_finalized_def accumulate_def charge_def
        empty_totals_def remaining_of_def amount_compare_eq amount_value_def sample_usd_def)
  have "sum_list (map charged_value (tl_records s)) = 3"
    using r by (simp add: charged_value_def sample_usd_def amount_value_def)
  with tool_spend_summary_exact [OF summary ok] s summary show ?thesis
    by (auto simp: amount_ok_def amount_value_def)
qed

text \<open>
  C24: after any accepted history the spend ledger is consistent: one reservation per invocation,
  each for the quote its proposal recorded; a paid tool that started has its reservation; and a
  session is never charged more for a record than the maximum that was reserved.
\<close>

theorem tool_spend_within_reservation:
  assumes "replay ToolSpendLedger_apply ToolSpendLedger_initial es = Inr s"
  shows "distinct (map spend_id (tl_records s)) \<and>
    list_all (\<lambda>r. (\<exists>p. tl_proposals s (spend_id r) = Some p \<and> prop_run_id p = tsr_run_id r \<and>
        prop_quote p = Some (reservation_quote (tsr_reservation r))) \<and>
      charged_value r \<le> amount_value (money_amount (rsv_maximum (tsr_reservation r)))) (tl_records s) \<and>
    (\<forall>iid p. iid \<in> tl_started_invocations s \<and> tl_proposals s iid = Some p \<and> prop_quote p \<noteq> None \<longrightarrow>
      iid \<in> spend_id ` set (tl_records s))"
proof -
  have ok: "tool_ledger_ok s" by (rule tool_ledger_invariant.replay_inv [OF tool_ledger_ok_initial assms])
  have "0 \<le> amount_value a" for a
    unfolding amount_value_def by (rule divide_nonneg_nonneg) (rule of_nat_0_le_iff, simp)
  then have "charged_value r \<le> amount_value (money_amount (rsv_maximum (tsr_reservation r)))"
    if "spend_entry_ok s r" for r
    using that by (auto simp: charged_value_def spend_entry_ok_def split: ToolSpendStatus.split option.split)
  with ok show ?thesis by (auto simp: tool_ledger_ok_def list_all_iff spend_entry_ok_def)
qed

theorem tool_spend_within_reservation_witness:
  "\<exists>s. replay ToolSpendLedger_apply ToolSpendLedger_initial sample_paid_run = Inr s \<and>
    list_all (\<lambda>r. charged_value r \<le> amount_value (money_amount (rsv_maximum (tsr_reservation r)))) (tl_records s)"
proof -
  obtain s where s: "replay ToolSpendLedger_apply ToolSpendLedger_initial sample_paid_run = Inr s"
    using sample_paid_run_accepted by blast
  from tool_spend_within_reservation [OF s] s show ?thesis by (auto simp: list_all_iff)
qed

end
