(* ===== verification/EventLog.thy ===== *)
theory EventLog
  imports Projection
begin

text \<open>
  The append-only log of a session: \<^verbatim>\<open>src/lib/event_log.cpp\<close> and
  \<^verbatim>\<open>include/aiforge/domain/event_log.hpp\<close>.
\<close>

datatype EventLogErrorCode =
  Log_zero_sequence | Log_zero_schema_version | Log_duplicate_event_id | Log_non_monotonic_sequence

record SessionEventLog =
  log_session_id :: SessionId
  log_events :: "RunEvent list"
  log_event_ids :: "EventId set"
  log_last_sequence :: u64

definition SessionEventLog_empty :: "SessionId \<Rightarrow> SessionEventLog" where
  "SessionEventLog_empty sid =
     \<lparr>log_session_id = sid, log_events = [], log_event_ids = {}, log_last_sequence = 0\<rparr>"

definition SessionEventLog_append ::
  "SessionEventLog \<Rightarrow> RunEvent \<Rightarrow> EventLogErrorCode + SessionEventLog" where
  "SessionEventLog_append elog event =
     fail_if (event_sequence event = 0) Log_zero_sequence
    (fail_if (schema_version (metadata event) = 0) Log_zero_schema_version
    (fail_if (event_ident event \<in> log_event_ids elog) Log_duplicate_event_id
    (fail_if (event_sequence event \<le> log_last_sequence elog) Log_non_monotonic_sequence
    (Inr (elog\<lparr>log_last_sequence := event_sequence event,
              log_event_ids := insert (event_ident event) (log_event_ids elog),
              log_events := log_events elog @ [event]\<rparr>)))))"

interpretation event_log: identified SessionEventLog_append event_sequence log_last_sequence event_ident log_event_ids
  by unfold_locales (auto simp: SessionEventLog_append_def)

text \<open>The histories a log can hold.\<close>

definition history_ok :: "RunEvent list \<Rightarrow> bool" where
  "history_ok es \<longleftrightarrow> sorted_wrt (<) (map event_sequence es) \<and> distinct (map event_ident es) \<and>
     (\<forall>e \<in> set es. event_sequence e \<noteq> 0 \<and> schema_version (metadata e) \<noteq> 0)"

lemma history_ok_snoc:
  "history_ok (es @ [e]) \<longleftrightarrow> history_ok es \<and> event_ident e \<notin> event_ident ` set es \<and>
    (\<forall>e' \<in> set es. event_sequence e' < event_sequence e) \<and>
    event_sequence e \<noteq> 0 \<and> schema_version (metadata e) \<noteq> 0"
  by (auto simp: history_ok_def sorted_wrt_append)

lemma append_Inr:
  "SessionEventLog_append l e = Inr l' \<longleftrightarrow>
    event_sequence e \<noteq> 0 \<and> schema_version (metadata e) \<noteq> 0 \<and> event_ident e \<notin> log_event_ids l \<and>
    log_last_sequence l < event_sequence e \<and>
    l' = l\<lparr>log_last_sequence := event_sequence e,
           log_event_ids := insert (event_ident e) (log_event_ids l),
           log_events := log_events l @ [e]\<rparr>"
  by (auto simp: SessionEventLog_append_def)

lemma append_events:
  "replay SessionEventLog_append (SessionEventLog_empty sid) es = Inr l \<longleftrightarrow>
    history_ok es \<and>
    l = \<lparr>log_session_id = sid, log_events = es, log_event_ids = event_ident ` set es,
         log_last_sequence = (if es = [] then 0 else event_sequence (last es))\<rparr>"
proof (induction es arbitrary: l rule: rev_induct)
  case Nil
  then show ?case by (auto simp: SessionEventLog_empty_def history_ok_def)
next
  case (snoc e es)
  let ?l = "\<lparr>log_session_id = sid, log_events = es, log_event_ids = event_ident ` set es,
      log_last_sequence = (if es = [] then 0 else event_sequence (last es))\<rparr>"
  have "(es = [] \<longrightarrow> 0 < event_sequence e) \<and> (es \<noteq> [] \<longrightarrow> event_sequence (last es) < event_sequence e)
      \<longleftrightarrow> (\<forall>e' \<in> set es. event_sequence e' < event_sequence e)" if "history_ok es" "event_sequence e \<noteq> 0"
  proof (cases es rule: rev_cases)
    case (snoc es' e')
    with that(1) show ?thesis by (auto simp: history_ok_snoc dest: order.strict_trans)
  qed (use that in \<open>simp add: word_neq_0_conv\<close>)
  then show ?case
    by (auto simp: replay_snoc snoc.IH history_ok_snoc append_Inr)
qed

text \<open>
  A session log accepts exactly the histories whose sequence numbers are positive and strictly
  increase, whose schema versions are positive and whose event identities are distinct; what it
  then holds is the history itself, in order.
\<close>

theorem log_accepts_iff:
  "(\<exists>l. replay SessionEventLog_append (SessionEventLog_empty sid) es = Inr l \<and> log_events l = es) \<longleftrightarrow>
    sorted_wrt (<) (map event_sequence es) \<and> distinct (map event_ident es) \<and>
    list_all (\<lambda>e. event_sequence e \<noteq> 0 \<and> schema_version (metadata e) \<noteq> 0) es"
  by (auto simp: append_events history_ok_def list_all_iff)

end
