(* ===== verification/InferenceSpend.thy ===== *)
theory InferenceSpend
  imports ToolSpend EventLog
begin

text \<open>
  The check before another inference is paid for: \<^verbatim>\<open>src/lib/inference_spend.cpp\<close> and
  \<^verbatim>\<open>include/aiforge/runtime/inference_spend.hpp\<close>.  It replays a session log into the spend
  ceiling, the usage ledger and the tool ledger and refuses when the ceiling is reached.
\<close>

section \<open>The check\<close>

datatype InferenceSpendErrorCode =
  Inference_invalid_history | Inference_accounting_unavailable | Inference_ceiling_reached
| Inference_internal_failure





section \<open>What the amounts of a history promise\<close>








section \<open>The check keeps a session below its ceiling\<close>







end
