(* ===== verification/PlanProjection.thy ===== *)
theory PlanProjection
  imports Projection
begin

text \<open>
  The plan of a session: the projection of \<^verbatim>\<open>src/lib/plan.cpp\<close> with the state of
  \<^verbatim>\<open>include/aiforge/domain/plan_projection.hpp\<close>.  A plan is a chain of revisions; only the last
  one can be decided, invalidated, materialized into session tasks and executed by child runs.
\<close>

section \<open>State\<close>

record Attempt =
  att_child_run_id :: RunId
  att_dispatch :: ChildRunDescriptor
  att_result :: "SessionTaskResult option"

record TaskExecution =
  te_task_id :: PlanTaskId
  te_attempts :: "Attempt list"

record ProjectedPlanRevision =
  ppr_revision :: PlanRevision
  ppr_proposal_event_id :: "EventId option"
  ppr_decision_event_id :: "EventId option"
  ppr_decision :: "PlanRevisionDecision option"
  ppr_invalidation_event_id :: "EventId option"
  ppr_invalidation_triggers :: "PlanInvalidationTrigger list"
  ppr_materialization_event_id :: "EventId option"
  ppr_task_executions :: "TaskExecution list"

record PlanGraphProjection =
  pg_plan_id :: "PlanId option"
  pg_revisions :: "ProjectedPlanRevision list"
  pg_event_ids :: "EventId set"
  pg_last_sequence :: u64

datatype PlanGraphState =
    Graph_not_started | Graph_proposed | Graph_revision_requested | Graph_approved | Graph_rejected
  | Graph_invalidated

definition PlanGraph_initial :: PlanGraphProjection where
  "PlanGraph_initial = \<lparr>pg_plan_id = None, pg_revisions = [], pg_event_ids = {}, pg_last_sequence = 0\<rparr>"

section \<open>Queries\<close>

definition current_revision :: "PlanGraphProjection \<Rightarrow> ProjectedPlanRevision option" where
  "current_revision s = (if pg_revisions s = [] then None else Some (last (pg_revisions s)))"

definition revision_state :: "ProjectedPlanRevision \<Rightarrow> PlanGraphState" where
  "revision_state current =
     (if ppr_invalidation_event_id current \<noteq> None then Graph_invalidated
      else case ppr_decision current of
          None \<Rightarrow> Graph_proposed
        | Some d \<Rightarrow> (case prd_decision d of
              Plan_approved \<Rightarrow> Graph_approved
            | Plan_revision_requested \<Rightarrow> Graph_revision_requested
            | Plan_rejected \<Rightarrow> Graph_rejected))"

definition graph_state :: "PlanGraphProjection \<Rightarrow> PlanGraphState" where
  "graph_state s =
     (case current_revision s of None \<Rightarrow> Graph_not_started | Some current \<Rightarrow> revision_state current)"

definition active_tasks :: "PlanGraphProjection \<Rightarrow> PlanTask list" where
  "active_tasks s =
     (case current_revision s of
        None \<Rightarrow> []
      | Some current \<Rightarrow>
          if graph_state s \<noteq> Graph_approved \<or> ppr_materialization_event_id current = None then []
          else pr_tasks (ppr_revision current))"

definition task_executions :: "PlanGraphProjection \<Rightarrow> TaskExecution list" where
  "task_executions s =
     (case current_revision s of
        None \<Rightarrow> []
      | Some current \<Rightarrow>
          if graph_state s \<noteq> Graph_approved \<or> ppr_materialization_event_id current = None then []
          else ppr_task_executions current)"

definition find_execution :: "PlanTaskId \<Rightarrow> TaskExecution list \<Rightarrow> TaskExecution option" where
  "find_execution tid executions = find (\<lambda>x. te_task_id x = tid) executions"

definition task_execution :: "PlanTaskId \<Rightarrow> PlanGraphProjection \<Rightarrow> TaskExecution option" where
  "task_execution tid s = find_execution tid (task_executions s)"

section \<open>Steps\<close>

definition plan_id_from :: "RunEventPayload \<Rightarrow> PlanId option" where
  "plan_id_from p =
     (case p of
        PlanRevisionProposed revision \<Rightarrow> Some (pr_plan_id revision)
      | PlanRevisionDecisionRecorded decision \<Rightarrow> Some (prd_plan_id decision)
      | PlanRevisionInvalidated invalidation \<Rightarrow> Some (pri_plan_id invalidation)
      | SessionTasksMaterialized plan _ \<Rightarrow> Some plan
      | ChildRunCreated _ (Some descriptor) \<Rightarrow> Some (crd_plan_id descriptor)
      | SessionTaskResultRecorded result \<Rightarrow> Some (str_plan_id result)
      | _ \<Rightarrow> None)"

text \<open>An assignment through the pointer to the last revision.\<close>

definition set_current ::
  "(ProjectedPlanRevision \<Rightarrow> ProjectedPlanRevision) \<Rightarrow> PlanGraphProjection \<Rightarrow> PlanGraphProjection" where
  "set_current f s = s\<lparr>pg_revisions := butlast (pg_revisions s) @ [f (last (pg_revisions s))]\<rparr>"

definition on_revision_proposed ::
  "PlanGraphProjection \<Rightarrow> PlanGraphLimits \<Rightarrow> RunEvent \<Rightarrow> PlanRevision \<Rightarrow> PlanGraphErrorCode + PlanGraphProjection" where
  "on_revision_proposed s l event revision =
     bind_result (validate_plan_revision revision l) (\<lambda>_.
     fail_if (supersedes_revision_id revision \<noteq>
        map_option (\<lambda>c. pr_revision_id (ppr_revision c)) (current_revision s)) Plan_invalid_transition
    (fail_if (list_ex (\<lambda>r. pr_revision_id (ppr_revision r) = pr_revision_id revision) (pg_revisions s))
        Plan_duplicate_identity
    (Inr (s\<lparr>pg_plan_id := (case pg_plan_id s of None \<Rightarrow> Some (pr_plan_id revision) | Some p \<Rightarrow> Some p),
            pg_revisions := pg_revisions s @
              [\<lparr>ppr_revision = revision, ppr_proposal_event_id = Some (event_ident event),
                ppr_decision_event_id = None, ppr_decision = None, ppr_invalidation_event_id = None,
                ppr_invalidation_triggers = [], ppr_materialization_event_id = None,
                ppr_task_executions = []\<rparr>]\<rparr>))))"

definition on_revision_decided ::
  "PlanGraphProjection \<Rightarrow> PlanGraphLimits \<Rightarrow> RunEvent \<Rightarrow> PlanRevisionDecision
    \<Rightarrow> PlanGraphErrorCode + PlanGraphProjection" where
  "on_revision_decided s l event decision =
     bind_result (validate_plan_decision decision l) (\<lambda>_.
     case current_revision s of
       None \<Rightarrow> Inl Plan_invalid_transition
     | Some current \<Rightarrow>
         fail_if (prd_revision_id decision \<noteq> pr_revision_id (ppr_revision current)) Plan_wrong_revision
        (fail_if (ppr_decision current \<noteq> None \<or> ppr_invalidation_event_id current \<noteq> None)
            Plan_invalid_transition
        (Inr (set_current (\<lambda>c. c\<lparr>ppr_decision_event_id := Some (event_ident event),
                                   ppr_decision := Some decision\<rparr>) s))))"

definition on_revision_invalidated ::
  "PlanGraphProjection \<Rightarrow> RunEvent \<Rightarrow> PlanRevisionInvalidation \<Rightarrow> PlanGraphErrorCode + PlanGraphProjection" where
  "on_revision_invalidated s event invalidation =
     bind_result (validate_plan_invalidation invalidation) (\<lambda>_.
     case current_revision s of
       None \<Rightarrow> Inl Plan_wrong_revision
     | Some current \<Rightarrow>
         fail_if (pri_revision_id invalidation \<noteq> pr_revision_id (ppr_revision current)) Plan_wrong_revision
        (fail_if (ppr_invalidation_event_id current \<noteq> None \<or>
                  (case ppr_decision current of None \<Rightarrow> False
                   | Some d \<Rightarrow> prd_decision d \<noteq> Plan_approved)) Plan_invalid_transition
        (Inr (set_current (\<lambda>c. c\<lparr>ppr_invalidation_event_id := Some (event_ident event),
                                   ppr_invalidation_triggers := pri_triggers invalidation\<rparr>) s))))"

definition on_tasks_materialized ::
  "PlanGraphProjection \<Rightarrow> RunEvent \<Rightarrow> PlanRevisionId \<Rightarrow> PlanGraphErrorCode + PlanGraphProjection" where
  "on_tasks_materialized s event revision =
     (case current_revision s of
        None \<Rightarrow> Inl Plan_wrong_revision
      | Some current \<Rightarrow>
          fail_if (revision \<noteq> pr_revision_id (ppr_revision current)) Plan_wrong_revision
         (fail_if (ppr_invalidation_event_id current \<noteq> None \<or>
                   map_option prd_decision (ppr_decision current) \<noteq> Some Plan_approved \<or>
                   ppr_materialization_event_id current \<noteq> None) Plan_invalid_transition
         (Inr (set_current (\<lambda>c. c\<lparr>ppr_materialization_event_id := Some (event_ident event),
             ppr_task_executions := ppr_task_executions c @
               map (\<lambda>t. \<lparr>te_task_id = task_id t, te_attempts = []\<rparr>) (pr_tasks (ppr_revision c))\<rparr>) s))))"

text \<open>An attempt that ended so that the task may be dispatched again.\<close>

definition attempt_retryable :: "Attempt \<Rightarrow> bool" where
  "attempt_retryable a =
     (case att_result a of
        None \<Rightarrow> False
      | Some r \<Rightarrow> str_outcome r = Outcome_unavailable \<and>
          (case str_error r of None \<Rightarrow> False | Some e \<Rightarrow> err_retryable e))"

definition set_execution ::
  "PlanTaskId \<Rightarrow> (TaskExecution \<Rightarrow> TaskExecution) \<Rightarrow> PlanGraphProjection \<Rightarrow> PlanGraphProjection" where
  "set_execution tid f =
     set_current (\<lambda>c. c\<lparr>ppr_task_executions :=
       modify_first (\<lambda>x. te_task_id x = tid) f (ppr_task_executions c)\<rparr>)"

definition on_child_run_created ::
  "PlanGraphProjection \<Rightarrow> RunEvent \<Rightarrow> RunId \<Rightarrow> ChildRunDescriptor \<Rightarrow> PlanGraphErrorCode + PlanGraphProjection" where
  "on_child_run_created s event child descriptor =
     (case current_revision s of
        None \<Rightarrow> Inl Plan_wrong_revision
      | Some current \<Rightarrow>
          fail_if (crd_revision_id descriptor \<noteq> pr_revision_id (ppr_revision current)) Plan_wrong_revision
         (fail_if (graph_state s \<noteq> Graph_approved \<or> ppr_materialization_event_id current = None \<or>
                   child \<noteq> em_run_id (metadata event) \<or>
                   parent_run_id (metadata event) \<noteq> Some (crd_parent_run_id descriptor) \<or>
                   isl (validate_child_run_descriptor descriptor)) Plan_invalid_transition
         (case find_execution (crd_task_id descriptor) (ppr_task_executions current) of
            None \<Rightarrow> Inl Plan_unknown_reference
          | Some execution \<Rightarrow>
              fail_if ((te_attempts execution \<noteq> [] \<and> \<not> attempt_retryable (last (te_attempts execution))) \<or>
                       unat (crd_attempt descriptor) \<noteq> length (te_attempts execution) + 1)
                Plan_invalid_transition
             (Inr (set_execution (crd_task_id descriptor)
                (\<lambda>x. x\<lparr>te_attempts := te_attempts x @
                  [\<lparr>att_child_run_id = child, att_dispatch = descriptor, att_result = None\<rparr>]\<rparr>) s)))))"

definition on_task_result ::
  "PlanGraphProjection \<Rightarrow> RunEvent \<Rightarrow> SessionTaskResult \<Rightarrow> PlanGraphErrorCode + PlanGraphProjection" where
  "on_task_result s event result =
     (case current_revision s of
        None \<Rightarrow> Inl Plan_wrong_revision
      | Some current \<Rightarrow>
          fail_if (str_revision_id result \<noteq> pr_revision_id (ppr_revision current)) Plan_wrong_revision
         (case find_execution (str_task_id result) (ppr_task_executions current) of
            None \<Rightarrow> Inl Plan_invalid_transition
          | Some execution \<Rightarrow>
              fail_if (te_attempts execution = []) Plan_invalid_transition
             (let attempt = last (te_attempts execution); dispatch = att_dispatch attempt in
              fail_if (att_child_run_id attempt \<noteq> str_child_run_id result \<or>
                       crd_plan_id dispatch \<noteq> str_plan_id result \<or>
                       crd_revision_id dispatch \<noteq> str_revision_id result \<or>
                       crd_task_id dispatch \<noteq> str_task_id result \<or> att_result attempt \<noteq> None)
                Plan_invalid_transition
             (fail_if (isl (validate_session_task_result result (crd_budget dispatch)) \<or>
                       str_child_run_id result \<noteq> em_run_id (metadata event) \<or>
                       parent_run_id (metadata event) \<noteq> Some (crd_parent_run_id dispatch))
                Plan_invalid_transition
             (Inr (set_execution (str_task_id result)
                (\<lambda>x. x\<lparr>te_attempts := butlast (te_attempts x) @
                  [(last (te_attempts x))\<lparr>att_result := Some result\<rparr>]\<rparr>) s))))))"

definition plan_visit ::
  "PlanGraphProjection \<Rightarrow> PlanGraphLimits \<Rightarrow> RunEvent \<Rightarrow> PlanGraphErrorCode + PlanGraphProjection" where
  "plan_visit s l event =
     (case payload event of
        PlanRevisionProposed revision \<Rightarrow> on_revision_proposed s l event revision
      | PlanRevisionDecisionRecorded decision \<Rightarrow> on_revision_decided s l event decision
      | PlanRevisionInvalidated invalidation \<Rightarrow> on_revision_invalidated s event invalidation
      | SessionTasksMaterialized _ revision \<Rightarrow> on_tasks_materialized s event revision
      | ChildRunCreated child (Some descriptor) \<Rightarrow> on_child_run_created s event child descriptor
      | SessionTaskResultRecorded result \<Rightarrow> on_task_result s event result
      | _ \<Rightarrow> Inr s)"

definition PlanGraph_apply ::
  "PlanGraphLimits \<Rightarrow> PlanGraphProjection \<Rightarrow> RunEvent \<Rightarrow> PlanGraphErrorCode + PlanGraphProjection" where
  "PlanGraph_apply l s event =
     fail_if (\<not> plan_valid_limits l) Plan_invalid_limits
    (fail_if (event_sequence event = 0 \<or> schema_version (metadata event) = 0) Plan_invalid_envelope
    (fail_if (event_sequence event \<le> pg_last_sequence s) Plan_non_monotonic_sequence
    (fail_if (event_ident event \<in> pg_event_ids s) Plan_duplicate_event
    (fail_if (case (plan_id_from (payload event), pg_plan_id s) of
                (Some p, Some q) \<Rightarrow> p \<noteq> q | _ \<Rightarrow> False) Plan_wrong_plan
    (bind_result (plan_visit s l event) (\<lambda>s'.
     Inr (s'\<lparr>pg_event_ids := insert (event_ident event) (pg_event_ids s'),
             pg_last_sequence := event_sequence event\<rparr>)))))))"

definition PlanGraph_rebuild ::
  "PlanGraphLimits \<Rightarrow> RunEvent list \<Rightarrow> PlanGraphErrorCode + PlanGraphProjection" where
  "PlanGraph_rebuild l events = replay (PlanGraph_apply l) PlanGraph_initial events"

section \<open>Consistency\<close>

definition attempt_ok :: "PlanRevision \<Rightarrow> PlanTaskId \<Rightarrow> Attempt \<Rightarrow> bool" where
  "attempt_ok pr tid a \<longleftrightarrow>
     crd_plan_id (att_dispatch a) = pr_plan_id pr \<and> crd_revision_id (att_dispatch a) = pr_revision_id pr \<and>
     crd_task_id (att_dispatch a) = tid \<and> validate_child_run_descriptor (att_dispatch a) = Inr () \<and>
     (\<forall>r. att_result a = Some r \<longrightarrow>
        str_plan_id r = pr_plan_id pr \<and> str_revision_id r = pr_revision_id pr \<and> str_task_id r = tid \<and>
        str_child_run_id r = att_child_run_id a \<and>
        validate_session_task_result r (crd_budget (att_dispatch a)) = Inr ())"

text \<open>The attempts of a task are numbered from one, and each but the last ended retryably.\<close>

definition execution_ok :: "PlanRevision \<Rightarrow> TaskExecution \<Rightarrow> bool" where
  "execution_ok pr x \<longleftrightarrow>
     list_all (attempt_ok pr (te_task_id x)) (te_attempts x) \<and>
     map (\<lambda>a. unat (crd_attempt (att_dispatch a))) (te_attempts x) = [1..<length (te_attempts x) + 1] \<and>
     list_all attempt_retryable (butlast (te_attempts x))"

definition revision_ok :: "PlanGraphLimits \<Rightarrow> ProjectedPlanRevision \<Rightarrow> bool" where
  "revision_ok l p \<longleftrightarrow>
     validate_plan_revision (ppr_revision p) l = Inr () \<and>
     (ppr_decision p = None \<longleftrightarrow> ppr_decision_event_id p = None) \<and>
     (\<forall>d. ppr_decision p = Some d \<longrightarrow>
        prd_plan_id d = pr_plan_id (ppr_revision p) \<and> prd_revision_id d = pr_revision_id (ppr_revision p)) \<and>
     (ppr_materialization_event_id p \<noteq> None \<longrightarrow> map_option prd_decision (ppr_decision p) = Some Plan_approved) \<and>
     map te_task_id (ppr_task_executions p) =
       (if ppr_materialization_event_id p = None then [] else map task_id (pr_tasks (ppr_revision p))) \<and>
     list_all (execution_ok (ppr_revision p)) (ppr_task_executions p)"

text \<open>The revisions belong to one plan, have distinct identities, and each supersedes the one before.\<close>

definition chain_ok :: "PlanId option \<Rightarrow> PlanRevision list \<Rightarrow> bool" where
  "chain_ok plan revs \<longleftrightarrow>
     distinct (map pr_revision_id revs) \<and> (\<forall>r \<in> set revs. plan = Some (pr_plan_id r)) \<and>
     (\<forall>i < length revs. supersedes_revision_id (revs ! i) =
        (if i = 0 then None else Some (pr_revision_id (revs ! (i - 1)))))"

definition plan_ok :: "PlanGraphLimits \<Rightarrow> PlanGraphProjection \<Rightarrow> bool" where
  "plan_ok l s \<longleftrightarrow> list_all (revision_ok l) (pg_revisions s) \<and>
     chain_ok (pg_plan_id s) (map ppr_revision (pg_revisions s))"

lemma neq_Nil_rev_conv: "xs \<noteq> [] \<longleftrightarrow> (\<exists>ys y. xs = ys @ [y])"
  by (cases xs rule: rev_cases) auto

lemma current_revision_Some:
  "current_revision s = Some c \<longleftrightarrow> (\<exists>rs. pg_revisions s = rs @ [c])"
  by (cases "pg_revisions s" rule: rev_cases) (auto simp: current_revision_def)

lemma current_revisionE:
  assumes "current_revision s = Some c"
  obtains rs where "pg_revisions s = rs @ [c]" and "\<And>f. set_current f s = s\<lparr>pg_revisions := rs @ [f c]\<rparr>"
  using assms by (auto simp: current_revision_Some set_current_def)

lemma plan_ok_update [simp]:
  "plan_ok l (s\<lparr>pg_event_ids := i, pg_last_sequence := n\<rparr>) = plan_ok l s"
  by (simp add: plan_ok_def)

lemma plan_ok_set_current:
  assumes ok: "plan_ok l s" and c: "current_revision s = Some c"
    and f: "ppr_revision (f c) = ppr_revision c" "revision_ok l c \<Longrightarrow> revision_ok l (f c)"
  shows "plan_ok l (set_current f s)"
proof -
  from c obtain rs where "pg_revisions s = rs @ [c]" "set_current f s = s\<lparr>pg_revisions := rs @ [f c]\<rparr>"
    by (rule current_revisionE) blast
  with ok f show ?thesis by (simp add: plan_ok_def)
qed

lemma revision_ok_current:
  "plan_ok l s \<Longrightarrow> current_revision s = Some c \<Longrightarrow>
    revision_ok l c \<and> pg_plan_id s = Some (pr_plan_id (ppr_revision c))"
  by (auto simp: plan_ok_def chain_ok_def current_revision_Some)

lemma plan_ok_set_execution:
  assumes ok: "plan_ok l s" and c: "current_revision s = Some c"
    and x: "find_execution tid (ppr_task_executions c) = Some x"
    and f: "te_task_id (f x) = tid" "execution_ok (ppr_revision c) x \<Longrightarrow> execution_ok (ppr_revision c) (f x)"
  shows "plan_ok l (set_execution tid f s)"
proof -
  from x obtain as bs where split: "ppr_task_executions c = as @ x # bs" "te_task_id x = tid"
    and "\<And>g. modify_first (\<lambda>y. te_task_id y = tid) g (ppr_task_executions c) = as @ g x # bs"
    unfolding find_execution_def by (rule modify_first_split) blast
  with f show ?thesis unfolding set_execution_def
    by (intro plan_ok_set_current [OF ok c]) (auto simp: revision_ok_def)
qed

lemma chain_ok_snoc:
  assumes "chain_ok plan revs" and "pr_revision_id r \<notin> pr_revision_id ` set revs"
    and "plan = None \<or> plan = Some (pr_plan_id r)" and "revs \<noteq> [] \<longrightarrow> plan \<noteq> None"
    and "supersedes_revision_id r = (if revs = [] then None else Some (pr_revision_id (last revs)))"
  shows "chain_ok (Some (pr_plan_id r)) (revs @ [r])"
  using assms unfolding chain_ok_def
  by (auto simp: nth_append last_conv_nth less_Suc_eq)

definition plan_event_ok :: "PlanGraphProjection \<Rightarrow> RunEvent \<Rightarrow> bool" where
  "plan_event_ok s e \<longleftrightarrow>
     (case (plan_id_from (payload e), pg_plan_id s) of (Some p, Some q) \<Rightarrow> p = q | _ \<Rightarrow> True)"

lemma revision_proposed_ok:
  assumes ok: "plan_ok l s" and e: "plan_event_ok s e" "payload e = PlanRevisionProposed r"
    and step: "on_revision_proposed s l e r = Inr s'"
  shows "plan_ok l s'"
proof -
  let ?revs = "map ppr_revision (pg_revisions s)"
  from step have v: "validate_plan_revision r l = Inr ()"
    and sup: "supersedes_revision_id r = (if ?revs = [] then None else Some (pr_revision_id (last ?revs)))"
    and fresh: "pr_revision_id r \<notin> pr_revision_id ` set ?revs"
    by (auto simp: on_revision_proposed_def current_revision_def last_map list_ex_iff split: if_split_asm)
  have plan: "pg_plan_id s = None \<or> pg_plan_id s = Some (pr_plan_id r)"
    using e by (auto simp: plan_event_ok_def plan_id_from_def split: option.split_asm)
  have "?revs \<noteq> [] \<longrightarrow> pg_plan_id s \<noteq> None"
    using ok by (cases "pg_revisions s") (auto simp: plan_ok_def chain_ok_def)
  then have "chain_ok (Some (pr_plan_id r)) (?revs @ [r])"
    using ok by (intro chain_ok_snoc [OF _ fresh plan _ sup]) (simp_all add: plan_ok_def)
  then show ?thesis
    using step plan v ok by (auto simp: on_revision_proposed_def plan_ok_def revision_ok_def)
qed

lemma revision_decided_ok:
  assumes ok: "plan_ok l s" and e: "plan_event_ok s e" "payload e = PlanRevisionDecisionRecorded d"
    and step: "on_revision_decided s l e d = Inr s'"
  shows "plan_ok l s'"
proof -
  from step obtain c where c: "current_revision s = Some c" "ppr_decision c = None"
      "prd_revision_id d = pr_revision_id (ppr_revision c)"
    and s': "s' = set_current (\<lambda>c. c\<lparr>ppr_decision_event_id := Some (event_ident e), ppr_decision := Some d\<rparr>) s"
    by (auto simp: on_revision_decided_def split: option.split_asm)
  have "prd_plan_id d = pr_plan_id (ppr_revision c)"
    using e revision_ok_current [OF ok c(1)] by (simp add: plan_event_ok_def plan_id_from_def)
  with c show ?thesis unfolding s'
    by (intro plan_ok_set_current [OF ok c(1)]) (auto simp: revision_ok_def)
qed

lemma child_run_created_ok:
  assumes ok: "plan_ok l s" and e: "plan_event_ok s e" "payload e = ChildRunCreated child (Some d)"
    and step: "on_child_run_created s e child d = Inr s'"
  shows "plan_ok l s'"
proof -
  from step obtain c x where c: "current_revision s = Some c" "crd_revision_id d = pr_revision_id (ppr_revision c)"
    and d: "\<not> isl (validate_child_run_descriptor d)"
    and x: "find_execution (crd_task_id d) (ppr_task_executions c) = Some x"
      "te_attempts x = [] \<or> attempt_retryable (last (te_attempts x))"
      "unat (crd_attempt d) = length (te_attempts x) + 1"
    and s': "s' = set_execution (crd_task_id d) (\<lambda>x. x\<lparr>te_attempts := te_attempts x @
        [\<lparr>att_child_run_id = child, att_dispatch = d, att_result = None\<rparr>]\<rparr>) s"
    by (auto simp: on_child_run_created_def split: option.split_asm)
  from d have v: "validate_child_run_descriptor d = Inr ()" by (auto simp: ok_iff)
  have p: "crd_plan_id d = pr_plan_id (ppr_revision c)"
    using e revision_ok_current [OF ok c(1)] by (simp add: plan_event_ok_def plan_id_from_def)
  have id: "te_task_id x = crd_task_id d" using x(1) by (auto simp: find_execution_def dest: find_SomeD)
  have "list_all attempt_retryable (te_attempts x)" if "list_all attempt_retryable (butlast (te_attempts x))"
    using that x(2) by (cases "te_attempts x" rule: rev_cases) auto
  then show ?thesis unfolding s'
    using v p c id x(3) by (intro plan_ok_set_execution [OF ok c(1) x(1)])
      (auto simp: execution_ok_def attempt_ok_def)
qed

lemma task_result_ok:
  assumes ok: "plan_ok l s" and step: "on_task_result s e r = Inr s'"
  shows "plan_ok l s'"
proof -
  from step obtain c x as a where c: "current_revision s = Some c"
    and x: "find_execution (str_task_id r) (ppr_task_executions c) = Some x" "te_attempts x = as @ [a]"
    and a: "att_child_run_id a = str_child_run_id r" "crd_plan_id (att_dispatch a) = str_plan_id r"
      "crd_revision_id (att_dispatch a) = str_revision_id r" "crd_task_id (att_dispatch a) = str_task_id r"
    and v: "\<not> isl (validate_session_task_result r (crd_budget (att_dispatch a)))"
    and s': "s' = set_execution (str_task_id r) (\<lambda>x. x\<lparr>te_attempts := butlast (te_attempts x) @
        [(last (te_attempts x))\<lparr>att_result := Some r\<rparr>]\<rparr>) s"
    by (auto simp: on_task_result_def Let_def neq_Nil_rev_conv split: option.split_asm)
  from v have v: "validate_session_task_result r (crd_budget (att_dispatch a)) = Inr ()" by (auto simp: ok_iff)
  have id: "te_task_id x = str_task_id r" using x(1) by (auto simp: find_execution_def dest: find_SomeD)
  show ?thesis unfolding s'
    using v a id x(2) by (intro plan_ok_set_execution [OF ok c x(1)]) (auto simp: execution_ok_def attempt_ok_def)
qed

lemma plan_visit_ok:
  assumes ok: "plan_ok l s" and e: "plan_event_ok s e" and visit: "plan_visit s l e = Inr s'"
  shows "plan_ok l s'"
proof (cases "payload e")
  case (PlanRevisionInvalidated i)
  with visit obtain c where c: "current_revision s = Some c"
    and s': "s' = set_current (\<lambda>c. c\<lparr>ppr_invalidation_event_id := Some (event_ident e),
        ppr_invalidation_triggers := pri_triggers i\<rparr>) s"
    by (auto simp: plan_visit_def on_revision_invalidated_def split: option.split_asm)
  show ?thesis unfolding s' by (rule plan_ok_set_current [OF ok c]) (auto simp: revision_ok_def)
next
  case (SessionTasksMaterialized p r)
  with visit obtain c where c: "current_revision s = Some c" "ppr_materialization_event_id c = None"
      "map_option prd_decision (ppr_decision c) = Some Plan_approved"
    and s': "s' = set_current (\<lambda>c. c\<lparr>ppr_materialization_event_id := Some (event_ident e),
        ppr_task_executions := ppr_task_executions c @
          map (\<lambda>t. \<lparr>te_task_id = task_id t, te_attempts = []\<rparr>) (pr_tasks (ppr_revision c))\<rparr>) s"
    by (auto simp: plan_visit_def on_tasks_materialized_def split: option.split_asm)
  show ?thesis unfolding s'
    using c by (intro plan_ok_set_current [OF ok c(1)])
      (auto simp: revision_ok_def execution_ok_def list_all_iff)
next
  case (ChildRunCreated child d)
  with visit ok e show ?thesis
    by (cases d) (auto simp: plan_visit_def intro: child_run_created_ok)
qed (use assms in \<open>auto simp: plan_visit_def intro: revision_proposed_ok revision_decided_ok task_result_ok\<close>)

lemma PlanGraph_apply_Inr:
  "PlanGraph_apply l s e = Inr s' \<Longrightarrow>
    (\<exists>t. plan_visit s l e = Inr t \<and> plan_event_ok s e \<and>
      s' = t\<lparr>pg_event_ids := insert (event_ident e) (pg_event_ids t), pg_last_sequence := event_sequence e\<rparr>)"
  by (auto simp: PlanGraph_apply_def plan_event_ok_def split: option.split_asm)

interpretation plan_invariant: invariant "PlanGraph_apply l" "plan_ok l" for l
  by unfold_locales (auto dest!: PlanGraph_apply_Inr intro: plan_visit_ok)

lemmas plan_defs = plan_visit_def on_revision_proposed_def on_revision_decided_def
  on_revision_invalidated_def on_tasks_materialized_def on_child_run_created_def on_task_result_def
  set_execution_def set_current_def Let_def

lemma plan_visit_envelope:
  "plan_visit s l e = Inr s' \<Longrightarrow> pg_event_ids s' = pg_event_ids s \<and> pg_last_sequence s' = pg_last_sequence s"
  by (cases "payload e") (auto simp: plan_defs split: option.split_asm)

interpretation plan_identified: identified "PlanGraph_apply l" event_sequence pg_last_sequence event_ident pg_event_ids
  for l
  by unfold_locales (auto simp: PlanGraph_apply_def dest: plan_visit_envelope)

lemma plan_ok_initial: "plan_ok l PlanGraph_initial"
  by (simp add: plan_ok_def PlanGraph_initial_def chain_ok_def)

section \<open>What a history may do to a plan\<close>

definition attempt_evolves :: "Attempt \<Rightarrow> Attempt \<Rightarrow> bool" where
  "attempt_evolves a b \<longleftrightarrow> att_child_run_id b = att_child_run_id a \<and> att_dispatch b = att_dispatch a \<and>
     (att_result a \<noteq> None \<longrightarrow> att_result b = att_result a)"

definition execution_evolves :: "TaskExecution \<Rightarrow> TaskExecution \<Rightarrow> bool" where
  "execution_evolves x y \<longleftrightarrow> te_task_id y = te_task_id x \<and>
     prefix_rel attempt_evolves (te_attempts x) (te_attempts y)"

definition revision_evolves :: "ProjectedPlanRevision \<Rightarrow> ProjectedPlanRevision \<Rightarrow> bool" where
  "revision_evolves p q \<longleftrightarrow>
     ppr_revision q = ppr_revision p \<and> ppr_proposal_event_id q = ppr_proposal_event_id p \<and>
     (ppr_decision p \<noteq> None \<longrightarrow>
        ppr_decision q = ppr_decision p \<and> ppr_decision_event_id q = ppr_decision_event_id p) \<and>
     (ppr_invalidation_event_id p \<noteq> None \<longrightarrow>
        ppr_invalidation_event_id q = ppr_invalidation_event_id p \<and>
        ppr_invalidation_triggers q = ppr_invalidation_triggers p) \<and>
     (ppr_materialization_event_id p \<noteq> None \<longrightarrow>
        ppr_materialization_event_id q = ppr_materialization_event_id p) \<and>
     prefix_rel execution_evolves (ppr_task_executions p) (ppr_task_executions q)"

definition plan_evolves :: "PlanGraphProjection \<Rightarrow> PlanGraphProjection \<Rightarrow> bool" where
  "plan_evolves s t \<longleftrightarrow> prefix_rel revision_evolves (pg_revisions s) (pg_revisions t) \<and>
     take (length (pg_revisions s) - 1) (pg_revisions t) = butlast (pg_revisions s)"

lemma attempt_evolves_refl: "attempt_evolves a a"
  by (simp add: attempt_evolves_def)

lemma attempt_evolves_trans: "attempt_evolves a b \<Longrightarrow> attempt_evolves b c \<Longrightarrow> attempt_evolves a c"
  by (auto simp: attempt_evolves_def)

lemma execution_evolves_refl: "execution_evolves x x"
  by (simp add: execution_evolves_def prefix_rel_refl attempt_evolves_refl)

lemma execution_evolves_trans: "execution_evolves x y \<Longrightarrow> execution_evolves y z \<Longrightarrow> execution_evolves x z"
  by (auto simp: execution_evolves_def intro: prefix_rel_trans [where R = attempt_evolves] attempt_evolves_trans)

lemma revision_evolves_refl: "revision_evolves p p"
  by (simp add: revision_evolves_def prefix_rel_refl execution_evolves_refl)

lemma revision_evolves_trans: "revision_evolves p q \<Longrightarrow> revision_evolves q r \<Longrightarrow> revision_evolves p r"
  by (auto simp: revision_evolves_def intro: prefix_rel_trans [where R = execution_evolves] execution_evolves_trans)

lemma plan_evolves_refl: "plan_evolves s s"
  by (simp add: plan_evolves_def prefix_rel_refl revision_evolves_refl butlast_conv_take)

lemma plan_evolves_set_current:
  "current_revision s = Some c \<Longrightarrow> revision_evolves c (f c) \<Longrightarrow> plan_evolves s (set_current f s)"
  by (erule current_revisionE) (simp add: plan_evolves_def prefix_rel_snoc revision_evolves_refl)

lemma plan_evolves_set_execution:
  assumes "current_revision s = Some c" and "find_execution tid (ppr_task_executions c) = Some x"
    and "execution_evolves x (f x)"
  shows "plan_evolves s (set_execution tid f s)"
  using assms unfolding set_execution_def find_execution_def
  by (intro plan_evolves_set_current)
    (auto simp: revision_evolves_def execution_evolves_refl intro!: prefix_rel_modify_first)

lemma plan_visit_evolves:
  assumes "plan_visit s l e = Inr s'" shows "plan_evolves s s'"
proof (cases "payload e")
  case (PlanRevisionProposed r)
  with assms show ?thesis
    by (auto simp: plan_visit_def on_revision_proposed_def plan_evolves_def butlast_conv_take
        prefix_rel_append [where R = revision_evolves] revision_evolves_refl)
next
  case (ChildRunCreated child d)
  with assms show ?thesis
    by (cases d)
      (auto simp: plan_visit_def on_child_run_created_def plan_evolves_refl execution_evolves_def
        prefix_rel_append [where R = attempt_evolves] attempt_evolves_refl
        prefix_rel_append [where R = attempt_evolves and xs = "[]", simplified]
        intro!: plan_evolves_set_execution split: option.split_asm)
next
  case (SessionTaskResultRecorded r)
  with assms obtain c x where c: "current_revision s = Some c"
      "find_execution (str_task_id r) (ppr_task_executions c) = Some x"
    and x: "te_attempts x \<noteq> []" "att_result (last (te_attempts x)) = None"
    and s': "s' = set_execution (str_task_id r) (\<lambda>x. x\<lparr>te_attempts := butlast (te_attempts x) @
        [(last (te_attempts x))\<lparr>att_result := Some r\<rparr>]\<rparr>) s"
    by (auto simp: plan_visit_def on_task_result_def Let_def split: option.split_asm)
  from x obtain as a where "te_attempts x = as @ [a]" "att_result a = None"
    by (cases "te_attempts x" rule: rev_cases) auto
  then show ?thesis unfolding s'
    by (intro plan_evolves_set_execution [OF c])
      (auto simp: execution_evolves_def attempt_evolves_def intro!: prefix_rel_snoc)
qed (use assms in \<open>auto simp: plan_visit_def on_revision_decided_def on_revision_invalidated_def
    on_tasks_materialized_def plan_evolves_refl revision_evolves_def prefix_rel_refl
    prefix_rel_append [where R = execution_evolves] execution_evolves_refl
    intro!: plan_evolves_set_current split: option.split_asm\<close>)

interpretation plan_evolving: evolving "PlanGraph_apply l" plan_evolves for l
proof
  show "plan_evolves s s" for s by (rule plan_evolves_refl)
  show "plan_evolves s u" if "plan_evolves s t" "plan_evolves t u" for s t u
  proof -
    have "prefix_rel revision_evolves (pg_revisions s) (pg_revisions u)"
      using that by (auto simp: plan_evolves_def intro: prefix_rel_trans [where R = revision_evolves] revision_evolves_trans)
    moreover have "take (length (pg_revisions s) - 1) (pg_revisions u) = butlast (pg_revisions s)"
    proof -
      let ?n = "length (pg_revisions s) - 1" and ?m = "length (pg_revisions t) - 1"
      have "?n \<le> ?m" using that(1) by (auto simp: plan_evolves_def prefix_rel_def)
      then have "take ?n (pg_revisions u) = take ?n (take ?m (pg_revisions u))" by (simp add: min_absorb1)
      also have "\<dots> = take ?n (butlast (pg_revisions t))" using that(2) by (simp add: plan_evolves_def)
      also have "\<dots> = take ?n (pg_revisions t)" using \<open>?n \<le> ?m\<close> by (simp add: butlast_conv_take min_absorb1)
      finally show ?thesis using that(1) by (simp add: plan_evolves_def)
    qed
    ultimately show ?thesis by (simp add: plan_evolves_def)
  qed
  show "plan_evolves s s'" if "PlanGraph_apply l s e = Inr s'" for s e s'
    using PlanGraph_apply_Inr [OF that] plan_visit_evolves by (auto simp: plan_evolves_def)
qed

section \<open>Properties\<close>

lemma rebuild_ok: "PlanGraph_rebuild l es = Inr s \<Longrightarrow> plan_ok l s"
  unfolding PlanGraph_rebuild_def by (rule plan_invariant.replay_inv [OF plan_ok_initial])

text \<open>
  C21: a plan rebuilt from an accepted history is consistent.  Its revisions belong to one plan, have
  distinct identities and each supersedes the one before; every revision passes validation; only an
  approved revision has materialized tasks, one execution per task in the order of the revision; the
  attempts of a task are numbered from one, every attempt but the last ended retryably, and each
  attempt and its result agree with the plan, the revision, the task and the budget.
\<close>

theorem plan_history_consistent:
  assumes "PlanGraph_rebuild l es = Inr s"
  shows "list_all (revision_ok l) (pg_revisions s) \<and>
    chain_ok (pg_plan_id s) (map ppr_revision (pg_revisions s))"
  using rebuild_ok [OF assms] by (simp add: plan_ok_def)

text \<open>
  C28: the past of a plan is final.  An accepted history only appends revisions, leaves every
  superseded revision untouched, and of the current one keeps the proposal, a recorded decision,
  invalidation and materialization, every attempt with its dispatch, and every recorded result.
\<close>

theorem plan_past_is_final:
  assumes "replay (PlanGraph_apply l) s es = Inr s'"
  shows "prefix_rel revision_evolves (pg_revisions s) (pg_revisions s') \<and>
    take (length (pg_revisions s) - 1) (pg_revisions s') = butlast (pg_revisions s)"
  using plan_evolving.replay_evolves [OF assms] by (simp add: plan_evolves_def)

definition sample_descriptor :: "string \<Rightarrow> u32 \<Rightarrow> ChildRunDescriptor" where
  "sample_descriptor task attempt =
     \<lparr>crd_parent_run_id = Id ''run'', crd_plan_id = Id ''p'', crd_revision_id = Id ''r'', crd_task_id = Id task,
      crd_context =
        \<lparr>crc_parcel_id = Id ''c'',
         crc_target_snapshot = \<lparr>rsi_repository_id = Id ''repo'', rsi_fingerprint =
           \<lparr>dg_algorithm = ''sha256'', dg_value = ''ab'', dg_byte_size = 1\<rparr>\<rparr>,
         crc_evidence_ids = [Id ''e''], crc_represented_bytes = 1, crc_estimated_tokens = 1\<rparr>,
      crd_budget =
        \<lparr>maximum_inferences = 4, maximum_tool_invocations = 4, maximum_input_tokens = 100,
         maximum_output_tokens = 100, budget_timeout = 1000\<rparr>,
      crd_effects = [], crd_capability_scopes = [], crd_attempt = attempt, crd_review_receipt_id = None\<rparr>"

definition sample_result :: "string \<Rightarrow> RunId \<Rightarrow> SessionTaskOutcome \<Rightarrow> DomainError option \<Rightarrow> SessionTaskResult" where
  "sample_result task child outcome err =
     \<lparr>str_plan_id = Id ''p'', str_revision_id = Id ''r'', str_task_id = Id task, str_child_run_id = child,
      str_outcome = outcome,
      str_consumption = \<lparr>inference_count = 1, tool_invocation_count = 2, consumed_usage = sample_usage 10 4\<rparr>,
      str_evidence_ids = [], str_artifact_ids = [], str_error = err\<rparr>"

definition child_event :: "nat \<Rightarrow> string \<Rightarrow> RunEventPayload \<Rightarrow> RunEvent" where
  "child_event n child p =
     (let e = sample_event n p in
      e\<lparr>metadata := (metadata e)\<lparr>em_run_id := Id child, parent_run_id := Some (Id ''run'')\<rparr>\<rparr>)"

text \<open>A plan of two tasks: \<open>a\<close> depends on \<open>b\<close>, which has run.\<close>

definition sample_plan_start :: "RunEvent list" where
  "sample_plan_start =
     [sample_event 1 (PlanRevisionProposed sample_revision),
      sample_event 2 (PlanRevisionDecisionRecorded
        \<lparr>prd_plan_id = Id ''p'', prd_revision_id = Id ''r'', prd_decision = Plan_approved,
         prd_source = PlanSource_user, prd_reason = None\<rparr>),
      sample_event 3 (SessionTasksMaterialized (Id ''p'') (Id ''r''))]"

definition sample_plan_work :: "RunEvent list" where
  "sample_plan_work =
     [child_event 4 ''k1'' (ChildRunCreated (Id ''k1'') (Some (sample_descriptor ''b'' 1))),
      child_event 5 ''k1'' (SessionTaskResultRecorded
        (sample_result ''b'' (Id ''k1'') Outcome_completed None))]"

definition sample_plan_revision :: "TaskExecution list \<Rightarrow> ProjectedPlanRevision" where
  "sample_plan_revision executions =
     \<lparr>ppr_revision = sample_revision, ppr_proposal_event_id = Some (Id ''e''),
      ppr_decision_event_id = Some (Id ''ee''),
      ppr_decision = Some \<lparr>prd_plan_id = Id ''p'', prd_revision_id = Id ''r'', prd_decision = Plan_approved,
         prd_source = PlanSource_user, prd_reason = None\<rparr>,
      ppr_invalidation_event_id = None, ppr_invalidation_triggers = [],
      ppr_materialization_event_id = Some (Id ''eee''), ppr_task_executions = executions\<rparr>"

definition sample_plan :: PlanGraphProjection where
  "sample_plan =
     \<lparr>pg_plan_id = Some (Id ''p''),
      pg_revisions = [sample_plan_revision
        [\<lparr>te_task_id = Id ''a'', te_attempts = []\<rparr>, \<lparr>te_task_id = Id ''b'', te_attempts = []\<rparr>]],
      pg_event_ids = {Id ''e'', Id ''ee'', Id ''eee''}, pg_last_sequence = 3\<rparr>"

lemma sample_plan_limits: "plan_valid_limits default_plan_limits"
  by (simp add: plan_valid_limits_def default_plan_limits_def)

lemma sample_plan_start_replay: "PlanGraph_rebuild default_plan_limits sample_plan_start = Inr sample_plan"
proof -
  have ids: "pr_plan_id sample_revision = Id ''p''" "pr_revision_id sample_revision = Id ''r''"
    "supersedes_revision_id sample_revision = None"
    "map task_id (pr_tasks sample_revision) = [Id ''a'', Id ''b'']"
    by (simp_all add: sample_revision_def sample_task_def)
  then have "map (\<lambda>t. \<lparr>te_task_id = task_id t, te_attempts = []\<rparr>) (pr_tasks sample_revision) =
      [\<lparr>te_task_id = Id ''a'', te_attempts = []\<rparr>, \<lparr>te_task_id = Id ''b'', te_attempts = []\<rparr>]"
    by (simp add: sample_revision_def sample_task_def)
  with ids show ?thesis
    by (simp add: PlanGraph_rebuild_def sample_plan_start_def PlanGraph_apply_def sample_plan_limits
        sample_event_def plan_id_from_def PlanGraph_initial_def plan_defs sample_revision_valid
        current_revision_def validate_plan_decision_def replicate_numeral_Cons word_le_nat_alt
        sample_plan_def sample_plan_revision_def insert_commute)
qed

theorem plan_history_consistent_witness:
  "chain_ok (Some (Id ''p'')) (map ppr_revision (pg_revisions sample_plan))"
  using plan_history_consistent [OF sample_plan_start_replay] by (simp add: sample_plan_def)

lemma sample_descriptor_ok:
  "validate_child_run_descriptor (sample_descriptor task 1) = Inr ()"
  by (simp add: validate_child_run_descriptor_def sample_descriptor_def valid_budget_def valid_context_def
      child_valid_digest_def Let_def ascii_alpha_def ascii_digit_def is_xdigit_def byte_def)

lemma sample_result_ok:
  "validate_session_task_result (sample_result task child Outcome_completed None)
     (crd_budget (sample_descriptor task' n)) = Inr ()"
  by (simp add: validate_session_task_result_def sample_result_def sample_descriptor_def sample_usage_def)

definition sample_attempt :: "string \<Rightarrow> RunId \<Rightarrow> SessionTaskResult option \<Rightarrow> Attempt" where
  "sample_attempt task child result =
     \<lparr>att_child_run_id = child, att_dispatch = sample_descriptor task 1, att_result = result\<rparr>"

lemma sample_plan_work_replay:
  "\<exists>s. replay (PlanGraph_apply default_plan_limits) sample_plan sample_plan_work = Inr s \<and>
    pg_revisions s = [sample_plan_revision
      [\<lparr>te_task_id = Id ''a'', te_attempts = []\<rparr>,
       \<lparr>te_task_id = Id ''b'', te_attempts = [sample_attempt ''b'' (Id ''k1'')
         (Some (sample_result ''b'' (Id ''k1'') Outcome_completed None))]\<rparr>]]"
proof -
  have ids: "pr_plan_id sample_revision = Id ''p''" "pr_revision_id sample_revision = Id ''r''"
    by (simp_all add: sample_revision_def)
  have d: "crd_plan_id (sample_descriptor task n) = Id ''p''" "crd_revision_id (sample_descriptor task n) = Id ''r''"
    "crd_task_id (sample_descriptor task n) = Id task" "crd_attempt (sample_descriptor task n) = n"
    "crd_parent_run_id (sample_descriptor task n) = Id ''run''" for task n
    by (simp_all add: sample_descriptor_def)
  have r: "str_plan_id (sample_result task c out err) = Id ''p''"
    "str_revision_id (sample_result task c out err) = Id ''r''"
    "str_task_id (sample_result task c out err) = Id task"
    "str_child_run_id (sample_result task c out err) = c" for task c out err
    by (simp_all add: sample_result_def)
  show ?thesis
    by (simp add: sample_plan_work_def PlanGraph_apply_def sample_plan_limits child_event_def sample_event_def
        plan_id_from_def plan_defs current_revision_def graph_state_def revision_state_def find_execution_def
        sample_plan_def sample_plan_revision_def sample_attempt_def sample_descriptor_ok sample_result_ok
        replicate_numeral_Cons word_le_nat_alt ids d r)
qed

theorem plan_past_is_final_witness:
  "\<exists>s. replay (PlanGraph_apply default_plan_limits) sample_plan sample_plan_work = Inr s \<and>
    prefix_rel revision_evolves (pg_revisions sample_plan) (pg_revisions s) \<and> pg_revisions s \<noteq> pg_revisions sample_plan"
proof -
  from sample_plan_work_replay obtain s where
    "replay (PlanGraph_apply default_plan_limits) sample_plan sample_plan_work = Inr s"
    "pg_revisions s \<noteq> pg_revisions sample_plan"
    by (auto simp: sample_plan_def sample_plan_revision_def)
  with plan_past_is_final [OF this(1)] show ?thesis by blast
qed

end
