(* ===== verification/MemoryProjection.thy ===== *)
theory MemoryProjection
  imports Projection
begin

text \<open>
  The memories of a session: \<^verbatim>\<open>src/lib/memory_projection.cpp\<close> and
  \<^verbatim>\<open>include/aiforge/domain/memory_projection.hpp\<close>.  A proposal waits for a decision of the policy or of
  the user; an accepted one becomes a record, which may be superseded or expire.  Every decision names
  the event that set the state it replaces.
\<close>

section \<open>State\<close>

datatype ProjectedMemoryProposalState = Proposal_pending | Proposal_accepted | Proposal_rejected

datatype ProjectedMemoryRecordState = Record_current | Record_superseded | Record_expired

record ProjectedMemoryProposal =
  pmp_proposal :: MemoryProposal
  pmp_proposal_event_id :: EventId
  pmp_proposed_at :: EventTimestamp
  pmp_state :: ProjectedMemoryProposalState
  pmp_state_changed_at :: "EventTimestamp option"
  pmp_policy :: "MemoryPolicyEvaluation option"
  pmp_decision_event_id :: "EventId option"

record ProjectedMemoryRecord =
  pmr_record :: MemoryRecord
  pmr_record_event_id :: EventId
  pmr_accepted_at :: EventTimestamp
  pmr_state :: ProjectedMemoryRecordState
  pmr_state_changed_at :: "EventTimestamp option"
  pmr_replacement_record_id :: "MemoryRecordId option"
  pmr_expiry_reason :: "string option"

record MemoryProjection =
  mj_proposals :: "ProjectedMemoryProposal list"
  mj_records :: "ProjectedMemoryRecord list"
  mj_event_ids :: "EventId set"
  mj_last_sequence :: u64

definition MemoryProjection_initial :: MemoryProjection where
  "MemoryProjection_initial = \<lparr>mj_proposals = [], mj_records = [], mj_event_ids = {}, mj_last_sequence = 0\<rparr>"

abbreviation proposal_key :: "ProjectedMemoryProposal \<Rightarrow> MemoryProposalId" where
  "proposal_key p \<equiv> mp_proposal_id (pmp_proposal p)"

abbreviation record_key :: "ProjectedMemoryRecord \<Rightarrow> MemoryRecordId" where
  "record_key r \<equiv> mr_record_id (pmr_record r)"

definition record_matches_proposal :: "MemoryRecord \<Rightarrow> MemoryProposal \<Rightarrow> bool \<Rightarrow> bool" where
  "record_matches_proposal r p allow_edited_content \<longleftrightarrow>
     mr_record_id r = mp_record_id p \<and> mr_proposal_id r = mp_proposal_id p \<and> mr_owner r = mp_owner p \<and>
     mr_kind r = mp_kind p \<and> (allow_edited_content \<or> mr_content r = mp_content p) \<and>
     mr_rationale r = mp_rationale p \<and> mr_source r = mp_source p \<and> mr_producer r = mp_producer p"

definition find_proposal :: "MemoryProposalId \<Rightarrow> MemoryProjection \<Rightarrow> ProjectedMemoryProposal option" where
  "find_proposal i s = find (\<lambda>p. proposal_key p = i) (mj_proposals s)"

definition find_memory_record :: "MemoryRecordId \<Rightarrow> MemoryProjection \<Rightarrow> ProjectedMemoryRecord option" where
  "find_memory_record i s = find (\<lambda>r. record_key r = i) (mj_records s)"

definition set_proposal ::
  "MemoryProposalId \<Rightarrow> (ProjectedMemoryProposal \<Rightarrow> ProjectedMemoryProposal) \<Rightarrow> MemoryProjection \<Rightarrow> MemoryProjection" where
  "set_proposal i f s = s\<lparr>mj_proposals := modify_first (\<lambda>p. proposal_key p = i) f (mj_proposals s)\<rparr>"

definition set_record ::
  "MemoryRecordId \<Rightarrow> (ProjectedMemoryRecord \<Rightarrow> ProjectedMemoryRecord) \<Rightarrow> MemoryProjection \<Rightarrow> MemoryProjection" where
  "set_record i f s = s\<lparr>mj_records := modify_first (\<lambda>r. record_key r = i) f (mj_records s)\<rparr>"

section \<open>Steps\<close>

definition on_memory_proposed ::
  "MemoryLimits \<Rightarrow> MemoryProjection \<Rightarrow> EventMetadata \<Rightarrow> MemoryProposal \<Rightarrow> MemoryErrorCode + MemoryProjection" where
  "on_memory_proposed l s m p =
     bind_result (validate_memory_proposal p l) (\<lambda>_.
     fail_if (length (mj_proposals s) \<ge> ml_maximum_records l) Memory_resource_exhausted
     (fail_if (find_proposal (mp_proposal_id p) s \<noteq> None) Memory_duplicate_identity
     (fail_if (list_ex (\<lambda>v. ms_session_id (mp_source (pmp_proposal v)) = ms_session_id (mp_source p) \<and>
                   ms_invocation_id (mp_source (pmp_proposal v)) = ms_invocation_id (mp_source p)) (mj_proposals s))
        Memory_duplicate_origin
     (Inr (s\<lparr>mj_proposals := mj_proposals s @
        [\<lparr>pmp_proposal = p, pmp_proposal_event_id = event_id m, pmp_proposed_at = em_timestamp m,
          pmp_state = Proposal_pending, pmp_state_changed_at = None, pmp_policy = None,
          pmp_decision_event_id = None\<rparr>]\<rparr>)))))"

definition on_policy_decided ::
  "MemoryProjection \<Rightarrow> EventMetadata \<Rightarrow> MemoryPolicyEvaluation \<Rightarrow> MemoryErrorCode + MemoryProjection" where
  "on_policy_decided s m v =
     (case find_proposal (mpe_proposal_id v) s of
        None \<Rightarrow> Inl Memory_stale_state
      | Some found \<Rightarrow>
          fail_if (pmp_proposal_event_id found \<noteq> mpe_expected_proposal_event_id v \<or> pmp_policy found \<noteq> None \<or>
                   mpe_source v \<noteq> MemorySource_policy \<or> \<not> memory_text_is_safe (mpe_reason v)) Memory_stale_state
          (Inr (set_proposal (mpe_proposal_id v)
             (\<lambda>p. p\<lparr>pmp_policy := Some v, pmp_decision_event_id := Some (event_id m)\<rparr>) s)))"

text \<open>What the policy allows its own decision, and what it leaves to the user.\<close>

definition policy_mismatch :: "MemoryDecisionSource \<Rightarrow> MemoryPolicyAction \<Rightarrow> ProjectedMemoryProposal \<Rightarrow> bool" where
  "policy_mismatch source action found \<longleftrightarrow>
     (source = MemorySource_policy \<and>
        (case pmp_policy found of None \<Rightarrow> True | Some v \<Rightarrow> mpe_action v \<noteq> action)) \<or>
     (source = MemorySource_user \<and>
        (case pmp_policy found of None \<Rightarrow> False | Some v \<Rightarrow> mpe_action v \<noteq> Action_stage))"

definition new_record :: "EventMetadata \<Rightarrow> MemoryRecord \<Rightarrow> ProjectedMemoryRecord" where
  "new_record m r =
     \<lparr>pmr_record = r, pmr_record_event_id = event_id m, pmr_accepted_at = em_timestamp m,
      pmr_state = Record_current, pmr_state_changed_at = None, pmr_replacement_record_id = None,
      pmr_expiry_reason = None\<rparr>"

definition decide_proposal ::
  "EventMetadata \<Rightarrow> ProjectedMemoryProposalState \<Rightarrow> ProjectedMemoryProposal \<Rightarrow> ProjectedMemoryProposal" where
  "decide_proposal m st p =
     p\<lparr>pmp_state := st, pmp_state_changed_at := Some (em_timestamp m), pmp_decision_event_id := Some (event_id m)\<rparr>"

definition on_memory_accepted ::
  "MemoryLimits \<Rightarrow> MemoryProjection \<Rightarrow> EventMetadata \<Rightarrow> MemoryAcceptance \<Rightarrow> MemoryErrorCode + MemoryProjection" where
  "on_memory_accepted l s m a =
     bind_result (validate_memory_record (ma_record a) l) (\<lambda>_.
     case find_proposal (mr_proposal_id (ma_record a)) s of
       None \<Rightarrow> Inl Memory_stale_state
     | Some found \<Rightarrow>
         fail_if (pmp_state found \<noteq> Proposal_pending \<or>
                  pmp_proposal_event_id found \<noteq> ma_expected_proposal_event_id a \<or>
                  mp_record_id (pmp_proposal found) \<noteq> mr_record_id (ma_record a) \<or>
                  \<not> record_matches_proposal (ma_record a) (pmp_proposal found) False \<or>
                  policy_mismatch (ma_source a) Action_accept found \<or>
                  find_memory_record (mr_record_id (ma_record a)) s \<noteq> None) Memory_stale_state
         (fail_if (mp_overlap_record_ids (pmp_proposal found) \<noteq> [] \<or>
                   mp_replacement_record_id (pmp_proposal found) \<noteq> None) Memory_invalid_transition
         (let s = set_proposal (mr_proposal_id (ma_record a)) (decide_proposal m Proposal_accepted) s in
          Inr (s\<lparr>mj_records := mj_records s @ [new_record m (ma_record a)]\<rparr>))))"

definition on_memory_edited ::
  "MemoryLimits \<Rightarrow> MemoryProjection \<Rightarrow> EventMetadata \<Rightarrow> MemoryEditedAcceptance \<Rightarrow> MemoryErrorCode + MemoryProjection" where
  "on_memory_edited l s m edited =
     (let a = mea_acceptance edited; r = ma_record a in
      bind_result (validate_memory_record r l) (\<lambda>_.
      case (find_proposal (mr_proposal_id r) s, find_memory_record (mea_replaced_record_id edited) s) of
        (Some proposal, Some replaced) \<Rightarrow>
          fail_if (pmp_state proposal \<noteq> Proposal_pending \<or>
                   pmp_proposal_event_id proposal \<noteq> ma_expected_proposal_event_id a \<or>
                   pmr_state replaced \<noteq> Record_current \<or>
                   pmr_record_event_id replaced \<noteq> mea_expected_record_event_id edited \<or>
                   ma_source a \<noteq> MemorySource_user \<or>
                   (case pmp_policy proposal of None \<Rightarrow> False | Some v \<Rightarrow> mpe_action v \<noteq> Action_stage) \<or>
                   mp_replacement_record_id (pmp_proposal proposal) \<noteq> Some (mea_replaced_record_id edited) \<or>
                   mea_replaced_record_id edited \<notin> set (mp_overlap_record_ids (pmp_proposal proposal)) \<or>
                   \<not> record_matches_proposal r (pmp_proposal proposal) True \<or>
                   find_memory_record (mr_record_id r) s \<noteq> None) Memory_stale_state
          (let s = set_proposal (mr_proposal_id r) (decide_proposal m Proposal_accepted) s;
               s = set_record (mea_replaced_record_id edited)
                     (\<lambda>x. x\<lparr>pmr_state := Record_superseded, pmr_state_changed_at := Some (em_timestamp m),
                            pmr_replacement_record_id := Some (mr_record_id r), pmr_record_event_id := event_id m\<rparr>) s in
           Inr (s\<lparr>mj_records := mj_records s @ [new_record m r]\<rparr>))
      | _ \<Rightarrow> Inl Memory_stale_state))"

definition on_memory_rejected ::
  "MemoryProjection \<Rightarrow> EventMetadata \<Rightarrow> MemoryRejection \<Rightarrow> MemoryErrorCode + MemoryProjection" where
  "on_memory_rejected s m v =
     (case find_proposal (mrj_proposal_id v) s of
        None \<Rightarrow> Inl Memory_stale_state
      | Some found \<Rightarrow>
          fail_if (pmp_state found \<noteq> Proposal_pending \<or>
                   pmp_proposal_event_id found \<noteq> mrj_expected_proposal_event_id v \<or>
                   policy_mismatch (mrj_source v) Action_reject found \<or>
                   \<not> memory_text_is_safe (mrj_reason v)) Memory_stale_state
          (Inr (set_proposal (mrj_proposal_id v) (decide_proposal m Proposal_rejected) s)))"

definition on_memory_superseded ::
  "MemoryProjection \<Rightarrow> EventMetadata \<Rightarrow> MemorySupersession \<Rightarrow> MemoryErrorCode + MemoryProjection" where
  "on_memory_superseded s m v =
     (case find_memory_record (msp_record_id v) s of
        None \<Rightarrow> Inl Memory_stale_state
      | Some found \<Rightarrow>
          fail_if (pmr_state found \<noteq> Record_current \<or>
                   pmr_record_event_id found \<noteq> msp_expected_record_event_id v \<or>
                   find_memory_record (msp_replacement_record_id v) s = None) Memory_stale_state
          (Inr (set_record (msp_record_id v)
             (\<lambda>x. x\<lparr>pmr_state := Record_superseded, pmr_state_changed_at := Some (em_timestamp m),
                    pmr_replacement_record_id := Some (msp_replacement_record_id v),
                    pmr_record_event_id := event_id m\<rparr>) s)))"

definition on_memory_expired ::
  "MemoryProjection \<Rightarrow> EventMetadata \<Rightarrow> MemoryExpiry \<Rightarrow> MemoryErrorCode + MemoryProjection" where
  "on_memory_expired s m v =
     (case find_memory_record (mex_record_id v) s of
        None \<Rightarrow> Inl Memory_stale_state
      | Some found \<Rightarrow>
          fail_if (pmr_state found \<noteq> Record_current \<or>
                   pmr_record_event_id found \<noteq> mex_expected_record_event_id v \<or>
                   \<not> memory_text_is_safe (mex_reason v)) Memory_stale_state
          (Inr (set_record (mex_record_id v)
             (\<lambda>x. x\<lparr>pmr_state := Record_expired, pmr_state_changed_at := Some (em_timestamp m),
                    pmr_expiry_reason := Some (mex_reason v), pmr_record_event_id := event_id m\<rparr>) s)))"

fun memory_visit ::
  "MemoryLimits \<Rightarrow> MemoryProjection \<Rightarrow> EventMetadata \<Rightarrow> MemoryEventPayload \<Rightarrow> MemoryErrorCode + MemoryProjection" where
  "memory_visit l s m (MemoryProposed p) = on_memory_proposed l s m p"
| "memory_visit l s m (MemoryPolicyDecided v) = on_policy_decided s m v"
| "memory_visit l s m (MemoryAccepted a) = on_memory_accepted l s m a"
| "memory_visit l s m (MemoryEditedAndAccepted a) = on_memory_edited l s m a"
| "memory_visit l s m (MemoryRejected v) = on_memory_rejected s m v"
| "memory_visit l s m (MemorySuperseded v) = on_memory_superseded s m v"
| "memory_visit l s m (MemoryExpired v) = on_memory_expired s m v"

definition MemoryProjection_apply ::
  "MemoryLimits \<Rightarrow> MemoryProjection \<Rightarrow> RunEvent \<Rightarrow> MemoryErrorCode + MemoryProjection" where
  "MemoryProjection_apply l s event =
     fail_if (event_sequence event = 0 \<or> event_sequence event \<le> mj_last_sequence s) Memory_non_monotonic_sequence
     (fail_if (event_ident event \<in> mj_event_ids s) Memory_duplicate_event
     (bind_result (case payload event of MemoryEvent p \<Rightarrow> memory_visit l s (metadata event) p | _ \<Rightarrow> Inr s) (\<lambda>s.
      Inr (s\<lparr>mj_event_ids := insert (event_ident event) (mj_event_ids s),
             mj_last_sequence := event_sequence event\<rparr>))))"

definition MemoryProjection_rebuild :: "RunEvent list \<Rightarrow> MemoryLimits \<Rightarrow> MemoryErrorCode + MemoryProjection" where
  "MemoryProjection_rebuild events l = replay (MemoryProjection_apply l) MemoryProjection_initial events"

section \<open>What a step may do\<close>

definition proposal_evolves :: "ProjectedMemoryProposal \<Rightarrow> ProjectedMemoryProposal \<Rightarrow> bool" where
  "proposal_evolves p q \<longleftrightarrow> pmp_proposal q = pmp_proposal p \<and>
     pmp_proposal_event_id q = pmp_proposal_event_id p \<and> pmp_proposed_at q = pmp_proposed_at p \<and>
     (pmp_state p \<noteq> Proposal_pending \<longrightarrow> pmp_state q = pmp_state p \<and> pmp_state_changed_at q = pmp_state_changed_at p) \<and>
     (pmp_policy p \<noteq> None \<longrightarrow> pmp_policy q = pmp_policy p)"

definition record_evolves :: "ProjectedMemoryRecord \<Rightarrow> ProjectedMemoryRecord \<Rightarrow> bool" where
  "record_evolves r q \<longleftrightarrow> pmr_record q = pmr_record r \<and> pmr_accepted_at q = pmr_accepted_at r \<and>
     (pmr_state r \<noteq> Record_current \<longrightarrow> q = r)"

definition memory_evolves :: "MemoryProjection \<Rightarrow> MemoryProjection \<Rightarrow> bool" where
  "memory_evolves s t \<longleftrightarrow> prefix_rel proposal_evolves (mj_proposals s) (mj_proposals t) \<and>
     prefix_rel record_evolves (mj_records s) (mj_records t)"

lemma proposal_evolves_refl [simp]: "proposal_evolves p p"
  by (simp add: proposal_evolves_def)

lemma record_evolves_refl [simp]: "record_evolves r r"
  by (simp add: record_evolves_def)

lemma proposal_evolves_trans: "proposal_evolves p q \<Longrightarrow> proposal_evolves q r \<Longrightarrow> proposal_evolves p r"
  by (auto simp: proposal_evolves_def)

lemma record_evolves_trans: "record_evolves p q \<Longrightarrow> record_evolves q r \<Longrightarrow> record_evolves p r"
  by (auto simp: record_evolves_def)

lemma memory_evolves_refl [simp]: "memory_evolves s s"
  by (simp add: memory_evolves_def prefix_rel_refl)

lemma memory_evolves_trans: "memory_evolves s t \<Longrightarrow> memory_evolves t u \<Longrightarrow> memory_evolves s u"
  unfolding memory_evolves_def
  using prefix_rel_trans [of proposal_evolves] prefix_rel_trans [of record_evolves]
    proposal_evolves_trans record_evolves_trans by blast

lemma evolves_set_proposal:
  assumes "\<And>p. find_proposal i s = Some p \<Longrightarrow> proposal_evolves p (f p)"
  shows "memory_evolves s (set_proposal i f s)"
  using assms by (auto simp: memory_evolves_def set_proposal_def find_proposal_def prefix_rel_refl
      intro: prefix_rel_modify_first)

lemma evolves_set_record:
  assumes "\<And>r. find_memory_record i s = Some r \<Longrightarrow> record_evolves r (f r)"
  shows "memory_evolves s (set_record i f s)"
  using assms by (auto simp: memory_evolves_def set_record_def find_memory_record_def prefix_rel_refl
      intro: prefix_rel_modify_first)

lemma evolves_append:
  "memory_evolves s (s\<lparr>mj_proposals := mj_proposals s @ ps\<rparr>)" "memory_evolves s (s\<lparr>mj_records := mj_records s @ rs\<rparr>)"
  by (simp_all add: memory_evolves_def prefix_rel_refl prefix_rel_append)

lemma decide_evolves: "pmp_state p = Proposal_pending \<Longrightarrow> proposal_evolves p (decide_proposal m st p)"
  by (simp add: proposal_evolves_def decide_proposal_def)


lemma find_memory_record_set_proposal [simp]: "find_memory_record i (set_proposal j f s) = find_memory_record i s"
  by (simp add: find_memory_record_def set_proposal_def)

lemma proposal_of_find: "find_proposal i s = Some p \<Longrightarrow> p \<in> set (mj_proposals s) \<and> proposal_key p = i"
  unfolding find_proposal_def by (rule find_SomeD)

lemma record_of_find: "find_memory_record i s = Some r \<Longrightarrow> r \<in> set (mj_records s) \<and> record_key r = i"
  unfolding find_memory_record_def by (rule find_SomeD)

lemma memory_acceptedE:
  assumes "on_memory_accepted l s m a = Inr t"
  obtains p where "find_proposal (mr_proposal_id (ma_record a)) s = Some p" "pmp_state p = Proposal_pending"
    "record_matches_proposal (ma_record a) (pmp_proposal p) False" "mp_replacement_record_id (pmp_proposal p) = None"
    "find_memory_record (mr_record_id (ma_record a)) s = None" "validate_memory_record (ma_record a) l = Inr ()"
    "t = (set_proposal (mr_proposal_id (ma_record a)) (decide_proposal m Proposal_accepted) s)
       \<lparr>mj_records := mj_records s @ [new_record m (ma_record a)]\<rparr>"
  using assms by (auto simp: on_memory_accepted_def Let_def set_proposal_def split: option.split_asm)

definition superseding :: "EventMetadata \<Rightarrow> MemoryRecordId \<Rightarrow> ProjectedMemoryRecord \<Rightarrow> ProjectedMemoryRecord" where
  "superseding m i x = x\<lparr>pmr_state := Record_superseded, pmr_state_changed_at := Some (em_timestamp m),
     pmr_replacement_record_id := Some i, pmr_record_event_id := event_id m\<rparr>"

lemma superseding_eq: "superseding m i =
  (\<lambda>x. x\<lparr>pmr_state := Record_superseded, pmr_state_changed_at := Some (em_timestamp m),
     pmr_replacement_record_id := Some i, pmr_record_event_id := event_id m\<rparr>)"
  by (simp add: fun_eq_iff superseding_def)

lemma memory_editedE:
  assumes "on_memory_edited l s m v = Inr t"
  obtains p x r where "r = ma_record (mea_acceptance v)" "find_proposal (mr_proposal_id r) s = Some p"
    "pmp_state p = Proposal_pending" "record_matches_proposal r (pmp_proposal p) True"
    "mp_replacement_record_id (pmp_proposal p) = Some (mea_replaced_record_id v)"
    "find_memory_record (mea_replaced_record_id v) s = Some x" "pmr_state x = Record_current"
    "find_memory_record (mr_record_id r) s = None" "validate_memory_record r l = Inr ()"
    "t = (set_proposal (mr_proposal_id r) (decide_proposal m Proposal_accepted)
           (set_record (mea_replaced_record_id v) (superseding m (mr_record_id r)) s))
       \<lparr>mj_records := mj_records (set_record (mea_replaced_record_id v) (superseding m (mr_record_id r)) s) @ [new_record m r]\<rparr>"
  using assms
  by (auto simp: on_memory_edited_def Let_def set_proposal_def set_record_def superseding_eq
      split: option.split_asm)

lemma memory_visit_evolves:
  assumes "memory_visit l s m p = Inr t"
  shows "memory_evolves s t"
proof (cases p)
  case (MemoryProposed v)
  with assms show ?thesis by (auto simp: on_memory_proposed_def evolves_append)
next
  case (MemoryPolicyDecided v)
  with assms show ?thesis
    by (auto simp: on_policy_decided_def proposal_evolves_def split: option.split_asm intro!: evolves_set_proposal)
next
  case (MemoryAccepted v)
  with assms have "on_memory_accepted l s m v = Inr t" by simp
  then obtain q where q: "find_proposal (mr_proposal_id (ma_record v)) s = Some q" "pmp_state q = Proposal_pending"
    "t = (set_proposal (mr_proposal_id (ma_record v)) (decide_proposal m Proposal_accepted) s)
       \<lparr>mj_records := mj_records s @ [new_record m (ma_record v)]\<rparr>" by (rule memory_acceptedE)
  have "memory_evolves s (set_proposal (mr_proposal_id (ma_record v)) (decide_proposal m Proposal_accepted) s)"
    using q(1,2) by (intro evolves_set_proposal) (simp add: decide_evolves)
  then show ?thesis
    using evolves_append(2) [of "set_proposal (mr_proposal_id (ma_record v)) (decide_proposal m Proposal_accepted) s"]
    unfolding q(3) by (simp add: set_proposal_def) (rule memory_evolves_trans)
next
  case (MemoryEditedAndAccepted v)
  with assms have "on_memory_edited l s m v = Inr t" by simp
  then obtain q x r where q: "find_proposal (mr_proposal_id r) s = Some q" "pmp_state q = Proposal_pending"
    "find_memory_record (mea_replaced_record_id v) s = Some x" "pmr_state x = Record_current"
    "t = (set_proposal (mr_proposal_id r) (decide_proposal m Proposal_accepted)
           (set_record (mea_replaced_record_id v) (superseding m (mr_record_id r)) s))
       \<lparr>mj_records := mj_records (set_record (mea_replaced_record_id v) (superseding m (mr_record_id r)) s) @ [new_record m r]\<rparr>"
    by (rule memory_editedE)
  let ?s1 = "set_record (mea_replaced_record_id v) (superseding m (mr_record_id r)) s"
  let ?s2 = "set_proposal (mr_proposal_id r) (decide_proposal m Proposal_accepted) ?s1"
  have "memory_evolves s ?s1"
    using q(3,4) by (intro evolves_set_record) (simp add: record_evolves_def superseding_def)
  moreover have "find_proposal i ?s1 = find_proposal i s" for i by (simp add: find_proposal_def set_record_def)
  then have "memory_evolves ?s1 ?s2" using q(1,2) by (intro evolves_set_proposal) (simp add: decide_evolves)
  moreover have "memory_evolves ?s2 t"
    using evolves_append(2) [of ?s2] unfolding q(5) by (simp add: set_proposal_def)
  ultimately show ?thesis by (blast intro: memory_evolves_trans)
next
  case (MemoryRejected v)
  with assms show ?thesis
    by (auto simp: on_memory_rejected_def decide_evolves split: option.split_asm intro!: evolves_set_proposal)
next
  case (MemorySuperseded v)
  with assms show ?thesis
    by (auto simp: on_memory_superseded_def record_evolves_def split: option.split_asm intro!: evolves_set_record)
next
  case (MemoryExpired v)
  with assms show ?thesis
    by (auto simp: on_memory_expired_def record_evolves_def split: option.split_asm intro!: evolves_set_record)
qed

lemma MemoryProjection_apply_Inr:
  "MemoryProjection_apply l s e = Inr s' \<longleftrightarrow>
    event_sequence e \<noteq> 0 \<and> mj_last_sequence s < event_sequence e \<and> event_ident e \<notin> mj_event_ids s \<and>
    (\<exists>t. (case payload e of MemoryEvent p \<Rightarrow> memory_visit l s (metadata e) p | _ \<Rightarrow> Inr s) = Inr t \<and>
      s' = t\<lparr>mj_event_ids := insert (event_ident e) (mj_event_ids t), mj_last_sequence := event_sequence e\<rparr>)"
  by (auto simp: MemoryProjection_apply_def not_le)

lemma memory_apply_cases:
  assumes "MemoryProjection_apply l s e = Inr s'"
  obtains t where "t = s \<or> (\<exists>p. payload e = MemoryEvent p \<and> memory_visit l s (metadata e) p = Inr t)"
    "s' = t\<lparr>mj_event_ids := insert (event_ident e) (mj_event_ids t), mj_last_sequence := event_sequence e\<rparr>"
  using assms by (cases "payload e") (auto simp: MemoryProjection_apply_Inr)

interpretation memory: evolving "MemoryProjection_apply l" memory_evolves for l
proof unfold_locales
  fix s e s' assume "MemoryProjection_apply l s e = Inr s'"
  then show "memory_evolves s s'"
    by (rule memory_apply_cases) (auto simp: memory_evolves_def prefix_rel_refl dest!: memory_visit_evolves)
qed (simp_all add: memory_evolves_trans)

section \<open>Consistency\<close>

abbreviation proposal_origin :: "ProjectedMemoryProposal \<Rightarrow> SessionId \<times> InvocationId" where
  "proposal_origin p \<equiv> (ms_session_id (mp_source (pmp_proposal p)), ms_invocation_id (mp_source (pmp_proposal p)))"

definition record_state_ok :: "MemoryRecordId set \<Rightarrow> ProjectedMemoryRecord \<Rightarrow> bool" where
  "record_state_ok known r =
     (case pmr_state r of
        Record_current \<Rightarrow> pmr_replacement_record_id r = None \<and> pmr_expiry_reason r = None
      | Record_superseded \<Rightarrow> pmr_replacement_record_id r \<in> Some ` known \<and> pmr_expiry_reason r = None
      | Record_expired \<Rightarrow> pmr_replacement_record_id r = None \<and>
          (\<exists>reason. pmr_expiry_reason r = Some reason \<and> memory_text_is_safe reason))"

text \<open>
  A record stems from an accepted proposal.  Only the user's edit may have changed its text, and then
  the record it replaces is superseded by it.
\<close>

definition record_origin_ok :: "MemoryProjection \<Rightarrow> MemoryRecord \<Rightarrow> bool" where
  "record_origin_ok s r \<longleftrightarrow>
     (\<exists>p \<in> set (mj_proposals s). pmp_state p = Proposal_accepted \<and>
        record_matches_proposal r (pmp_proposal p) (mp_replacement_record_id (pmp_proposal p) \<noteq> None) \<and>
        (\<forall>i. mp_replacement_record_id (pmp_proposal p) = Some i \<longrightarrow>
           (\<exists>x \<in> set (mj_records s). record_key x = i \<and> pmr_state x = Record_superseded \<and>
              pmr_replacement_record_id x = Some (mr_record_id r))))"

definition memory_core :: "MemoryLimits \<Rightarrow> MemoryRecordId set \<Rightarrow> MemoryProjection \<Rightarrow> bool" where
  "memory_core l known s \<longleftrightarrow>
     distinct (map proposal_key (mj_proposals s)) \<and> distinct (map proposal_origin (mj_proposals s)) \<and>
     length (mj_proposals s) \<le> ml_maximum_records l \<and>
     distinct (map record_key (mj_records s)) \<and>
     distinct (map (\<lambda>r. mr_proposal_id (pmr_record r)) (mj_records s)) \<and>
     (\<forall>p \<in> set (mj_proposals s). validate_memory_proposal (pmp_proposal p) l = Inr () \<and>
        (pmp_state p \<noteq> Proposal_accepted \<longrightarrow> proposal_key p \<notin> (\<lambda>r. mr_proposal_id (pmr_record r)) ` set (mj_records s))) \<and>
     (\<forall>r \<in> set (mj_records s). validate_memory_record (pmr_record r) l = Inr () \<and> record_state_ok known r \<and>
        record_origin_ok s (pmr_record r))"

definition memory_ok :: "MemoryLimits \<Rightarrow> MemoryProjection \<Rightarrow> bool" where
  "memory_ok l s \<longleftrightarrow> memory_core l (record_key ` set (mj_records s)) s"

lemma record_state_mono: "record_state_ok known r \<Longrightarrow> known \<subseteq> known' \<Longrightarrow> record_state_ok known' r"
  by (auto simp: record_state_ok_def split: ProjectedMemoryRecordState.splits)

lemma memory_core_mono: "memory_core l known s \<Longrightarrow> known \<subseteq> known' \<Longrightarrow> memory_core l known' s"
  by (auto simp: memory_core_def intro: record_state_mono)

lemma prefix_rel_member:
  assumes "prefix_rel R xs ys" "x \<in> set xs"
  shows "\<exists>y \<in> set ys. R x y"
proof -
  obtain i where "i < length xs" "xs ! i = x" using assms(2) by (auto simp: in_set_conv_nth)
  with assms(1) have "i < length ys" "R x (ys ! i)" by (auto simp: prefix_rel_def)
  then show ?thesis by (meson nth_mem)
qed

lemma evolves_member:
  assumes "memory_evolves s t"
  shows "p \<in> set (mj_proposals s) \<Longrightarrow> \<exists>q \<in> set (mj_proposals t). proposal_evolves p q"
    and "r \<in> set (mj_records s) \<Longrightarrow> \<exists>q \<in> set (mj_records t). record_evolves r q"
  using assms prefix_rel_member [of proposal_evolves "mj_proposals s" "mj_proposals t" p]
    prefix_rel_member [of record_evolves "mj_records s" "mj_records t" r]
  by (simp_all add: memory_evolves_def)

text \<open>What a record needs of the rest of the state survives every step.\<close>

lemma record_origin_evolves:
  assumes "record_origin_ok s r" "memory_evolves s t"
  shows "record_origin_ok t r"
proof -
  obtain p where p: "p \<in> set (mj_proposals s)" and p': "pmp_state p = Proposal_accepted \<and>
      record_matches_proposal r (pmp_proposal p) (mp_replacement_record_id (pmp_proposal p) \<noteq> None) \<and>
      (\<forall>i. mp_replacement_record_id (pmp_proposal p) = Some i \<longrightarrow>
        (\<exists>x \<in> set (mj_records s). record_key x = i \<and> pmr_state x = Record_superseded \<and>
          pmr_replacement_record_id x = Some (mr_record_id r)))"
    using assms(1) unfolding record_origin_ok_def by (rule bexE)
  obtain q where q: "q \<in> set (mj_proposals t)" "proposal_evolves p q"
    using evolves_member(1) [OF assms(2) p] by blast
  have "\<exists>x \<in> set (mj_records t). record_key x = i \<and> pmr_state x = Record_superseded \<and>
      pmr_replacement_record_id x = Some (mr_record_id r)"
    if "mp_replacement_record_id (pmp_proposal p) = Some i" for i
    using p' that evolves_member(2) [OF assms(2)] by (fastforce simp: record_evolves_def)
  moreover have "pmp_proposal q = pmp_proposal p" "pmp_state q = Proposal_accepted"
    using q(2) p' by (simp_all add: proposal_evolves_def)
  ultimately show ?thesis unfolding record_origin_ok_def using q(1) p' by (intro bexI [of _ q]) simp_all
qed


lemma ok_set_proposal:
  assumes core: "memory_core l known s" and p: "find_proposal i s = Some p"
    and f: "pmp_proposal (f p) = pmp_proposal p" "pmp_state (f p) = Proposal_accepted \<longleftrightarrow> pmp_state p = Proposal_accepted"
    and evolves: "proposal_evolves p (f p)"
  shows "memory_core l known (set_proposal i f s)"
proof -
  have "memory_evolves s (set_proposal i f s)" using p evolves by (intro evolves_set_proposal) simp
  then have origin: "record_origin_ok (set_proposal i f s) r" if "record_origin_ok s r" for r
    using record_origin_evolves that by blast
  obtain as bs where split: "mj_proposals s = as @ p # bs"
    and mod: "modify_first (\<lambda>p. proposal_key p = i) f (mj_proposals s) = as @ f p # bs"
    using p unfolding find_proposal_def by (metis modify_first_split)
  have props: "mj_proposals (set_proposal i f s) = as @ f p # bs" "mj_records (set_proposal i f s) = mj_records s"
    by (simp_all add: set_proposal_def mod)
  show ?thesis using core f origin unfolding memory_core_def props split by simp
qed

lemma ok_set_record:
  assumes core: "memory_core l known s" and r: "find_memory_record i s = Some r" "pmr_state r = Record_current"
    and f: "pmr_record (f r) = pmr_record r" "pmr_accepted_at (f r) = pmr_accepted_at r" "record_state_ok known (f r)"
  shows "memory_core l known (set_record i f s)"
proof -
  have "memory_evolves s (set_record i f s)"
    using r f by (intro evolves_set_record) (simp add: record_evolves_def)
  then have origin: "record_origin_ok (set_record i f s) r" if "record_origin_ok s r" for r
    using record_origin_evolves that by blast
  obtain as bs where split: "mj_records s = as @ r # bs"
    and mod: "modify_first (\<lambda>r. record_key r = i) f (mj_records s) = as @ f r # bs"
    using r(1) unfolding find_memory_record_def by (metis modify_first_split)
  have recs: "mj_records (set_record i f s) = as @ f r # bs" "mj_proposals (set_record i f s) = mj_proposals s"
    by (simp_all add: set_record_def mod)
  show ?thesis using core f origin unfolding memory_core_def recs split by simp
qed

lemma ok_accept:
  assumes core: "memory_core l known s" and p: "find_proposal (mr_proposal_id r) s = Some p"
    and pending: "pmp_state p = Proposal_pending" and fresh: "find_memory_record (mr_record_id r) s = None"
    and valid: "validate_memory_record r l = Inr ()"
    and matches: "record_matches_proposal r (pmp_proposal p) (mp_replacement_record_id (pmp_proposal p) \<noteq> None)"
    and replaced: "\<forall>i. mp_replacement_record_id (pmp_proposal p) = Some i \<longrightarrow>
        (\<exists>x \<in> set (mj_records s). record_key x = i \<and> pmr_state x = Record_superseded \<and>
          pmr_replacement_record_id x = Some (mr_record_id r))"
    and t: "t = (set_proposal (mr_proposal_id r) (decide_proposal m Proposal_accepted) s)
       \<lparr>mj_records := mj_records s @ [new_record m r]\<rparr>"
  shows "memory_core l known t"
proof -
  let ?p = "decide_proposal m Proposal_accepted p"
  have key: "proposal_key p = mr_proposal_id r" using proposal_of_find [OF p] by simp
  obtain as bs where split: "mj_proposals s = as @ p # bs"
    and mod: "modify_first (\<lambda>p. proposal_key p = mr_proposal_id r) (decide_proposal m Proposal_accepted) (mj_proposals s)
      = as @ ?p # bs"
    using p unfolding find_proposal_def by (metis modify_first_split)
  have props: "mj_proposals t = as @ ?p # bs" "mj_records t = mj_records s @ [new_record m r]"
    by (simp_all add: t set_proposal_def mod)
  have same: "pmp_proposal ?p = pmp_proposal p" "pmp_state ?p = Proposal_accepted"
    by (simp_all add: decide_proposal_def)
  have "memory_evolves s (set_proposal (mr_proposal_id r) (decide_proposal m Proposal_accepted) s)"
    using p pending by (intro evolves_set_proposal) (simp add: decide_evolves)
  moreover have "memory_evolves (set_proposal (mr_proposal_id r) (decide_proposal m Proposal_accepted) s) t"
    using evolves_append(2) [of "set_proposal (mr_proposal_id r) (decide_proposal m Proposal_accepted) s"]
    unfolding t by (simp add: set_proposal_def)
  ultimately have ev: "memory_evolves s t" by (rule memory_evolves_trans)
  have origin: "record_origin_ok t q" if "record_origin_ok s q" for q
    using that ev by (rule record_origin_evolves)
  have new: "record_origin_ok t r"
    unfolding record_origin_ok_def props
    using matches replaced same by (intro bexI [of _ ?p]) auto
  have notin: "mr_record_id r \<notin> record_key ` set (mj_records s)"
    using fresh by (simp add: find_memory_record_def find_None_iff_key)
  have unused: "mr_proposal_id r \<notin> (\<lambda>r. mr_proposal_id (pmr_record r)) ` set (mj_records s)"
    using core split pending key by (auto simp: memory_core_def)
  have keys: "proposal_key q \<noteq> mr_proposal_id r" if "q \<in> set as \<union> set bs" for q
  proof -
    have "distinct (map proposal_key (as @ p # bs))" using core unfolding memory_core_def split by (rule conjunct1)
    with that key show ?thesis by (force simp: image_iff)
  qed
  have "record_state_ok known (new_record m r)" by (simp add: record_state_ok_def new_record_def)
  moreover have "pmr_record (new_record m r) = r" by (simp add: new_record_def)
  moreover have "\<forall>q \<in> set (mj_proposals t). validate_memory_proposal (pmp_proposal q) l = Inr () \<and>
      (pmp_state q \<noteq> Proposal_accepted \<longrightarrow> proposal_key q \<notin> (\<lambda>r. mr_proposal_id (pmr_record r)) ` set (mj_records t))"
    using core keys same unfolding memory_core_def props split by (auto simp: new_record_def)
  moreover have "distinct (map proposal_key (mj_proposals t))" "distinct (map proposal_origin (mj_proposals t))"
    "length (mj_proposals t) \<le> ml_maximum_records l"
    using core same unfolding memory_core_def props split by simp_all
  ultimately show ?thesis
    using core origin new notin unused valid unfolding memory_core_def props(2) by auto
qed


lemma set_proposal_record: "set_proposal i f (set_record j g s) = set_record j g (set_proposal i f s)"
  by (simp add: set_proposal_def set_record_def)

lemma record_keys_set: "record_key ` set (mj_records (set_record i f s)) = record_key ` set (mj_records s)"
  if "\<And>x. record_key (f x) = record_key x"
proof -
  have "map record_key (mj_records (set_record i f s)) = map record_key (mj_records s)"
    using that by (simp add: set_record_def map_modify_first)
  then show ?thesis by (metis set_map)
qed

lemma memory_proposed_ok:
  assumes ok: "memory_ok l s" and step: "on_memory_proposed l s m p = Inr t"
  shows "memory_ok l t"
proof -
  let ?p = "\<lparr>pmp_proposal = p, pmp_proposal_event_id = event_id m, pmp_proposed_at = em_timestamp m,
          pmp_state = Proposal_pending, pmp_state_changed_at = None, pmp_policy = None, pmp_decision_event_id = None\<rparr>"
  have t: "t = s\<lparr>mj_proposals := mj_proposals s @ [?p]\<rparr>" and valid: "validate_memory_proposal p l = Inr ()"
    and len: "length (mj_proposals s) < ml_maximum_records l" and key: "mp_proposal_id p \<notin> proposal_key ` set (mj_proposals s)"
    and orig: "proposal_origin ?p \<notin> proposal_origin ` set (mj_proposals s)"
    using step by (auto simp: on_memory_proposed_def find_proposal_def find_None_iff_key list_ex_iff)
  have origin: "record_origin_ok t r" if "record_origin_ok s r" for r
    using record_origin_evolves [OF that] evolves_append(1) t by blast
  have "mp_proposal_id p \<notin> (\<lambda>r. mr_proposal_id (pmr_record r)) ` set (mj_records s)"
  proof
    assume "mp_proposal_id p \<in> (\<lambda>r. mr_proposal_id (pmr_record r)) ` set (mj_records s)"
    then obtain r where r: "r \<in> set (mj_records s)" "mr_proposal_id (pmr_record r) = mp_proposal_id p" by auto
    then have "record_origin_ok s (pmr_record r)" using ok by (simp add: memory_ok_def memory_core_def)
    then show False using key r(2) by (auto simp: record_origin_ok_def record_matches_proposal_def)
  qed
  then show ?thesis
    using ok origin valid len key orig unfolding memory_ok_def memory_core_def t by auto
qed

lemma memory_visit_ok:
  assumes ok: "memory_ok l s" and visit: "memory_visit l s m p = Inr t"
  shows "memory_ok l t"
proof (cases p)
  case (MemoryProposed v)
  with assms show ?thesis by (simp add: memory_proposed_ok)
next
  case (MemoryPolicyDecided v)
  with visit obtain q where "find_proposal (mpe_proposal_id v) s = Some q" "pmp_policy q = None"
    "t = set_proposal (mpe_proposal_id v) (\<lambda>p. p\<lparr>pmp_policy := Some v, pmp_decision_event_id := Some (event_id m)\<rparr>) s"
    by (auto simp: on_policy_decided_def split: option.split_asm)
  then show ?thesis
    using ok unfolding memory_ok_def by (auto simp: proposal_evolves_def set_proposal_def [of _ _ s]
        intro!: ok_set_proposal [unfolded set_proposal_def])
next
  case (MemoryAccepted v)
  with visit have "on_memory_accepted l s m v = Inr t" by simp
  then obtain q where q: "find_proposal (mr_proposal_id (ma_record v)) s = Some q" "pmp_state q = Proposal_pending"
    "record_matches_proposal (ma_record v) (pmp_proposal q) False" "mp_replacement_record_id (pmp_proposal q) = None"
    "find_memory_record (mr_record_id (ma_record v)) s = None" "validate_memory_record (ma_record v) l = Inr ()"
    "t = (set_proposal (mr_proposal_id (ma_record v)) (decide_proposal m Proposal_accepted) s)
       \<lparr>mj_records := mj_records s @ [new_record m (ma_record v)]\<rparr>" by (rule memory_acceptedE)
  have "memory_core l (record_key ` set (mj_records s)) t"
    using ok q by (intro ok_accept [OF _ q(1,2,5,6) _ _ q(7)]) (simp_all add: memory_ok_def)
  then show ?thesis unfolding memory_ok_def by (rule memory_core_mono) (auto simp: q(7))
next
  case (MemoryEditedAndAccepted v)
  with visit have "on_memory_edited l s m v = Inr t" by simp
  then obtain q x r where q: "find_proposal (mr_proposal_id r) s = Some q"
    "pmp_state q = Proposal_pending" "record_matches_proposal r (pmp_proposal q) True"
    "mp_replacement_record_id (pmp_proposal q) = Some (mea_replaced_record_id v)"
    "find_memory_record (mea_replaced_record_id v) s = Some x" "pmr_state x = Record_current"
    "find_memory_record (mr_record_id r) s = None" "validate_memory_record r l = Inr ()"
    "t = (set_proposal (mr_proposal_id r) (decide_proposal m Proposal_accepted)
           (set_record (mea_replaced_record_id v) (superseding m (mr_record_id r)) s))
       \<lparr>mj_records := mj_records (set_record (mea_replaced_record_id v) (superseding m (mr_record_id r)) s) @ [new_record m r]\<rparr>"
    by (rule memory_editedE)
  let ?s = "set_record (mea_replaced_record_id v) (superseding m (mr_record_id r)) s"
  let ?known = "insert (mr_record_id r) (record_key ` set (mj_records s))"
  have x: "pmr_replacement_record_id x = None \<and> pmr_expiry_reason x = None"
    using ok record_of_find [OF q(5)] q(6) by (auto simp: memory_ok_def memory_core_def record_state_ok_def)
  have "memory_core l ?known s" using ok unfolding memory_ok_def by (rule memory_core_mono) auto
  then have core: "memory_core l ?known ?s"
    using q(5,6) by (rule ok_set_record) (simp_all add: superseding_def record_state_ok_def x)
  have keys: "record_key ` set (mj_records ?s) = record_key ` set (mj_records s)"
    by (rule record_keys_set) (simp add: superseding_def)
  have find: "find_proposal (mr_proposal_id r) ?s = Some q" "find_memory_record (mr_record_id r) ?s = None"
    using q(1,7) keys by (simp_all add: find_proposal_def find_memory_record_def set_record_def find_None_iff_key)
  have key: "record_key x = mea_replaced_record_id v" using record_of_find [OF q(5)] by simp
  have "find_memory_record (mea_replaced_record_id v) ?s = Some (superseding m (mr_record_id r) x)"
    unfolding find_memory_record_def set_record_def
    using find_modify_first_key [of record_key "mea_replaced_record_id v" "mj_records s" x "superseding m (mr_record_id r)"]
      q(5) key by (simp add: find_memory_record_def superseding_def)
  then have "superseding m (mr_record_id r) x \<in> set (mj_records ?s)" using record_of_find by blast
  then have "\<exists>y \<in> set (mj_records ?s). record_key y = mea_replaced_record_id v \<and> pmr_state y = Record_superseded \<and>
      pmr_replacement_record_id y = Some (mr_record_id r)"
    using key by (intro bexI) (auto simp: superseding_def)
  then have "memory_core l ?known t"
    using q by (intro ok_accept [OF core find(1) q(2) find(2) q(8) _ _ q(9)]) simp_all
  then show ?thesis unfolding memory_ok_def
    by (rule memory_core_mono) (use keys in \<open>auto simp: q(9) new_record_def\<close>)
next
  case (MemoryRejected v)
  with visit obtain q where q: "find_proposal (mrj_proposal_id v) s = Some q" "pmp_state q = Proposal_pending"
    "t = set_proposal (mrj_proposal_id v) (decide_proposal m Proposal_rejected) s"
    by (auto simp: on_memory_rejected_def split: option.split_asm)
  have "memory_core l (record_key ` set (mj_records s)) t"
    unfolding q(3) using ok q(1) unfolding memory_ok_def
    by (rule ok_set_proposal) (simp_all add: decide_proposal_def q(2) proposal_evolves_def)
  then show ?thesis by (simp add: memory_ok_def q(3) set_proposal_def)
next
  case (MemorySuperseded v)
  with visit obtain x where x: "find_memory_record (msp_record_id v) s = Some x" "pmr_state x = Record_current"
    "find_memory_record (msp_replacement_record_id v) s \<noteq> None"
    "t = set_record (msp_record_id v) (superseding m (msp_replacement_record_id v)) s"
    by (auto simp: on_memory_superseded_def superseding_eq split: option.split_asm)
  have old: "pmr_expiry_reason x = None"
    using ok record_of_find [OF x(1)] x(2) by (auto simp: memory_ok_def memory_core_def record_state_ok_def)
  have "msp_replacement_record_id v \<in> record_key ` set (mj_records s)"
    using x(3) find_None_iff_key [of record_key] by (auto simp: find_memory_record_def)
  then have "memory_core l (record_key ` set (mj_records s)) t"
    unfolding x(4) using ok x(1,2) old unfolding memory_ok_def
    by (intro ok_set_record) (simp_all add: superseding_def record_state_ok_def)
  moreover have "record_key ` set (mj_records t) = record_key ` set (mj_records s)"
    unfolding x(4) by (rule record_keys_set) (simp add: superseding_def)
  ultimately show ?thesis by (simp add: memory_ok_def)
next
  case (MemoryExpired v)
  let ?f = "\<lambda>x. x\<lparr>pmr_state := Record_expired, pmr_state_changed_at := Some (em_timestamp m),
                    pmr_expiry_reason := Some (mex_reason v), pmr_record_event_id := event_id m\<rparr>"
  from MemoryExpired visit obtain x where x: "find_memory_record (mex_record_id v) s = Some x" "pmr_state x = Record_current"
    "memory_text_is_safe (mex_reason v)" "t = set_record (mex_record_id v) ?f s"
    by (auto simp: on_memory_expired_def split: option.split_asm)
  have old: "pmr_replacement_record_id x = None"
    using ok record_of_find [OF x(1)] x(2) by (auto simp: memory_ok_def memory_core_def record_state_ok_def)
  have "memory_core l (record_key ` set (mj_records s)) t"
    unfolding x(4) using ok x(1,2) unfolding memory_ok_def
    by (rule ok_set_record) (simp_all add: record_state_ok_def old x(3))
  moreover have "record_key ` set (mj_records t) = record_key ` set (mj_records s)"
    unfolding x(4) by (rule record_keys_set) simp
  ultimately show ?thesis by (simp add: memory_ok_def)
qed


lemma memory_ok_recorded:
  "memory_ok l s \<Longrightarrow> memory_ok l (s\<lparr>mj_event_ids := ids, mj_last_sequence := n\<rparr>)"
  by (simp add: memory_ok_def memory_core_def record_origin_ok_def)

interpretation memory_invariant: invariant "MemoryProjection_apply l" "memory_ok l" for l
proof unfold_locales
  fix s e s' assume "memory_ok l s" "MemoryProjection_apply l s e = Inr s'"
  then show "memory_ok l s'"
    by (elim memory_apply_cases) (auto intro!: memory_ok_recorded intro: memory_visit_ok)
qed

lemma memory_ok_initial: "memory_ok l MemoryProjection_initial"
  by (simp add: memory_ok_def memory_core_def MemoryProjection_initial_def)

lemma memory_rebuild_ok: "MemoryProjection_rebuild events l = Inr s \<Longrightarrow> memory_ok l s"
  unfolding MemoryProjection_rebuild_def by (rule memory_invariant.replay_inv [OF memory_ok_initial])

section \<open>A sample history\<close>

definition sample_memory_source :: MemorySource where
  "sample_memory_source = \<lparr>ms_session_id = Id ''s'', ms_run_id = Id ''r'', ms_invocation_id = Id ''i'', ms_event_ids = [Id ''e'']\<rparr>"

definition sample_producer :: MemoryProducer where
  "sample_producer = \<lparr>mpd_model_id = Id ''m'', mpd_runtime_name = ''n'', mpd_runtime_version = ''v''\<rparr>"

definition sample_proposal :: MemoryProposal where
  "sample_proposal =
     \<lparr>mp_proposal_id = Id ''p'', mp_record_id = Id ''k'', mp_owner = MemoryOwner_global, mp_kind = Memory_workflow,
      mp_content = ''c'', mp_rationale = ''w'', mp_evidence_excerpt = ''x'', mp_source = sample_memory_source,
      mp_producer = sample_producer, mp_replacement_record_id = None, mp_overlap_record_ids = []\<rparr>"

definition sample_memory_record :: MemoryRecord where
  "sample_memory_record =
     \<lparr>mr_record_id = Id ''k'', mr_proposal_id = Id ''p'', mr_owner = MemoryOwner_global, mr_kind = Memory_workflow,
      mr_content = ''c'', mr_rationale = ''w'', mr_source = sample_memory_source, mr_producer = sample_producer\<rparr>"

lemma sample_memory_text:
  "memory_text_is_safe [c]" "\<not> shaped_like_secret [c]" if "c \<in> set ''cwxnv''"
  using that by (auto simp: memory_text_is_safe_def shaped_like_secret_def contains_def lower_ascii_def text_find.simps
      tolower_def byte_def Let_def)

lemma sample_proposal_valid: "validate_memory_proposal sample_proposal default_memory_limits = Inr ()"
  by (simp add: validate_memory_proposal_def sample_proposal_def sample_memory_text memory_valid_limits_def
      default_memory_limits_def validate_memory_owner_def MemoryOwner_global_def memory_valid_source_def
      sample_memory_source_def valid_producer_def sample_producer_def)


lemma sample_record_edited:
  assumes "c \<in> set ''cwxnv''"
  shows "validate_memory_record (sample_memory_record\<lparr>mr_content := [c]\<rparr>) default_memory_limits = Inr ()"
proof -
  have "memory_text_is_safe ''accepted-memory-source''" by (simp add: memory_text_is_safe_def byte_def)
  moreover note source_tag_not_secret sample_memory_text [OF assms]
  ultimately show ?thesis
    by (simp add: validate_memory_record_def proposal_of_record_def validate_memory_proposal_def sample_memory_record_def
        sample_memory_text memory_valid_limits_def default_memory_limits_def validate_memory_owner_def
        MemoryOwner_global_def memory_valid_source_def sample_memory_source_def valid_producer_def sample_producer_def)
qed

lemma sample_record_valid: "validate_memory_record sample_memory_record default_memory_limits = Inr ()"
proof -
  have "sample_memory_record\<lparr>mr_content := ''c''\<rparr> = sample_memory_record" by (simp add: sample_memory_record_def)
  with sample_record_edited [of "CHR ''c''"] show ?thesis by simp
qed

definition sample_memory_events :: "RunEvent list" where
  "sample_memory_events =
     [sample_event 1 (MemoryEvent (MemoryProposed sample_proposal)),
      sample_event 2 (MemoryEvent (MemoryAccepted
        \<lparr>ma_record = sample_memory_record, ma_source = MemorySource_user, ma_expected_proposal_event_id = Id ''e''\<rparr>))]"

definition sample_expiry :: RunEvent where
  "sample_expiry = sample_event 3 (MemoryEvent (MemoryExpired
     \<lparr>mex_record_id = Id ''k'', mex_source = MemorySource_user, mex_reason = ''x'',
      mex_expected_record_event_id = Id ''ee''\<rparr>))"

lemmas sample_memory_simps =
  sample_memory_events_def sample_expiry_def sample_event_def MemoryProjection_rebuild_def MemoryProjection_apply_def
  MemoryProjection_initial_def on_memory_proposed_def on_memory_accepted_def on_memory_expired_def
  sample_proposal_valid sample_record_valid find_proposal_def find_memory_record_def set_proposal_def set_record_def
  record_matches_proposal_def policy_mismatch_def decide_proposal_def new_record_def sample_memory_text
  replicate_numeral_Cons

lemma sample_memory_rebuilt:
  "\<exists>s. MemoryProjection_rebuild sample_memory_events default_memory_limits = Inr s \<and>
     map pmr_record (mj_records s) = [sample_memory_record] \<and>
     (\<exists>t. MemoryProjection_rebuild (sample_memory_events @ [sample_expiry]) default_memory_limits = Inr t)"
  by (simp add: sample_memory_simps) (simp add: sample_proposal_def sample_memory_record_def default_memory_limits_def
      sample_memory_simps word_le_nat_alt)

section \<open>What holds of every history\<close>

text \<open>
  C14: memories are consistent.  In the projection of any accepted history there are at most as many
  records as proposals and no more proposals than the limit; every record is named once, stems from an
  accepted proposal of its own whose text it has, unless the user edited it, and then the record it
  replaces is superseded by it; its text is safe and not shaped like a credential; superseded records
  name a record that exists, and expired ones a reason.
\<close>

theorem memory_history_consistent:
  assumes "MemoryProjection_rebuild events l = Inr s"
  shows "length (mj_records s) \<le> length (mj_proposals s) \<and> length (mj_proposals s) \<le> ml_maximum_records l \<and>
    distinct (map record_key (mj_records s)) \<and> distinct (map proposal_origin (mj_proposals s)) \<and>
    (\<forall>r \<in> set (mj_records s). record_origin_ok s (pmr_record r) \<and>
       record_state_ok (record_key ` set (mj_records s)) r \<and>
       memory_text_is_safe (mr_content (pmr_record r)) \<and> \<not> memory_text_looks_secret (mr_content (pmr_record r)))"
proof -
  have ok: "memory_core l (record_key ` set (mj_records s)) s"
    using memory_rebuild_ok [OF assms] by (simp add: memory_ok_def)
  let ?pid = "\<lambda>r. mr_proposal_id (pmr_record r)"
  have rec: "validate_memory_record (pmr_record r) l = Inr () \<and> record_state_ok (record_key ` set (mj_records s)) r \<and>
      record_origin_ok s (pmr_record r)" if "r \<in> set (mj_records s)" for r
    using ok that by (simp add: memory_core_def)
  have "mr_proposal_id r \<in> proposal_key ` set (mj_proposals s)" if "record_origin_ok s r" for r
    using that by (auto simp: record_origin_ok_def record_matches_proposal_def)
  with rec have "?pid ` set (mj_records s) \<subseteq> proposal_key ` set (mj_proposals s)" by blast
  then have "card (?pid ` set (mj_records s)) \<le> card (proposal_key ` set (mj_proposals s))"
    by (intro card_mono) auto
  moreover have "card (?pid ` set (mj_records s)) = length (mj_records s)"
    "card (proposal_key ` set (mj_proposals s)) = length (mj_proposals s)"
    using ok distinct_card [of "map ?pid (mj_records s)"] distinct_card [of "map proposal_key (mj_proposals s)"]
    by (simp_all add: memory_core_def)
  moreover have "memory_text_is_safe (mr_content r) \<and> \<not> shaped_like_secret (mr_content r)"
    if "validate_memory_record r l = Inr ()" for r
    using that by (simp add: validate_memory_record_def validate_memory_proposal_def proposal_of_record_def)
  moreover have "length (mj_proposals s) \<le> ml_maximum_records l" "distinct (map record_key (mj_records s))"
    "distinct (map proposal_origin (mj_proposals s))" using ok by (simp_all add: memory_core_def)
  ultimately show ?thesis using rec by (simp add: memory_text_looks_secret_def)
qed

theorem memory_history_consistent_witness:
  "\<exists>s. MemoryProjection_rebuild sample_memory_events default_memory_limits = Inr s \<and>
    mj_records s \<noteq> [] \<and> (\<forall>r \<in> set (mj_records s). record_origin_ok s (pmr_record r))"
proof -
  obtain s where s: "MemoryProjection_rebuild sample_memory_events default_memory_limits = Inr s"
    "map pmr_record (mj_records s) = [sample_memory_record]"
    using sample_memory_rebuilt by (elim exE conjE) (rule that)
  from s(2) have "mj_records s \<noteq> []" by auto
  with memory_history_consistent [OF s(1)] s(1) show ?thesis by (intro exI [of _ s]) simp
qed

text \<open>
  What is decided stays decided: whatever is added to a history, proposals and records keep their
  identity and text, a decided proposal keeps its state, and a record that was superseded or has
  expired does not change any more.
\<close>

theorem memory_decisions_are_final:
  assumes "MemoryProjection_rebuild es l = Inr s" "MemoryProjection_rebuild (es @ fs) l = Inr t"
  shows "prefix_rel proposal_evolves (mj_proposals s) (mj_proposals t) \<and>
    prefix_rel record_evolves (mj_records s) (mj_records t)"
proof -
  have "replay (MemoryProjection_apply l) s fs = Inr t"
    using assms by (simp add: MemoryProjection_rebuild_def replay_append)
  from memory.replay_evolves [OF this] show ?thesis by (simp add: memory_evolves_def)
qed

text \<open>
  C33: a memory can be superseded by itself.  The step that supersedes a record only looks whether a
  record with the identity of the replacement exists, and the record itself has it: such an event is
  accepted whenever the record is current, and retires the memory in favour of itself.
\<close>

theorem memory_superseded_by_itself:
  assumes "find_memory_record i s = Some r" "pmr_state r = Record_current"
  shows "\<exists>t. memory_visit l s m (MemorySuperseded
      \<lparr>msp_record_id = i, msp_replacement_record_id = i, msp_source = source,
       msp_expected_record_event_id = pmr_record_event_id r\<rparr>) = Inr t \<and>
    map_option (\<lambda>x. (pmr_state x, pmr_replacement_record_id x)) (find_memory_record i t) = Some (Record_superseded, Some i)"
proof -
  let ?f = "superseding m i"
  have "find_memory_record i (set_record i ?f s) = Some (?f r)"
    unfolding find_memory_record_def set_record_def
    using find_modify_first_key [of record_key i "mj_records s" r ?f] assms(1) record_of_find [OF assms(1)]
    by (simp add: find_memory_record_def superseding_def)
  then show ?thesis using assms by (simp add: on_memory_superseded_def superseding_eq)
qed

theorem memory_superseded_by_itself_witness:
  "\<exists>s t. map_option pmr_state (find_memory_record (Id ''k'') s) = Some Record_current \<and>
    memory_visit default_memory_limits s (metadata sample_expiry) (MemorySuperseded
      \<lparr>msp_record_id = Id ''k'', msp_replacement_record_id = Id ''k'', msp_source = MemorySource_user,
       msp_expected_record_event_id = Id ''ee''\<rparr>) = Inr t"
proof -
  let ?s = "MemoryProjection_initial\<lparr>mj_records := [new_record (metadata (sample_event 2 sample_start)) sample_memory_record]\<rparr>"
  have found: "find_memory_record (Id ''k'') ?s = Some (new_record (metadata (sample_event 2 sample_start)) sample_memory_record)"
    by (simp add: find_memory_record_def new_record_def sample_memory_record_def)
  have st: "pmr_state (new_record (metadata (sample_event 2 sample_start)) sample_memory_record) = Record_current"
    "pmr_record_event_id (new_record (metadata (sample_event 2 sample_start)) sample_memory_record) = Id ''ee''"
    by (simp_all add: new_record_def sample_event_def numeral_2_eq_2)
  obtain t where "memory_visit default_memory_limits ?s (metadata sample_expiry) (MemorySuperseded
      \<lparr>msp_record_id = Id ''k'', msp_replacement_record_id = Id ''k'', msp_source = MemorySource_user,
       msp_expected_record_event_id = Id ''ee''\<rparr>) = Inr t"
    using memory_superseded_by_itself [OF found st(1), of default_memory_limits "metadata sample_expiry" MemorySource_user]
    unfolding st(2) by blast
  with found st(1) show ?thesis by (intro exI [of _ ?s] exI [of _ t]) simp
qed

end
