(* ===== verification/ReviewProjection.thy ===== *)
theory ReviewProjection
  imports Projection
begin

text \<open>
  The state of a review receipt: class \<^verbatim>\<open>ReviewReceiptProjection\<close> of
  \<^verbatim>\<open>include/aiforge/repository/review_receipt.hpp\<close> and \<^verbatim>\<open>src/lib/review_receipt.cpp\<close>.  The state is
  built event by event; the theorems relate it to the whole history, read without any order of steps:
  a finding is open when nothing in the history resolves it, a verdict or an override is in force when
  nothing revokes it.
\<close>

section \<open>State\<close>

datatype ReviewReceiptState =
    Receipt_not_started | Receipt_draft | Receipt_review_requested | Receipt_findings_open | Receipt_approved
  | Receipt_changes_requested | Receipt_rejected | Receipt_revoked | Receipt_conflicted

record ProjectedReviewFinding =
  prf_finding :: ReviewFinding
  prf_open :: bool

record ProjectedReviewVerdict =
  prv_event_id :: EventId
  prv_verdict :: ReviewVerdict
  prv_reviewer :: ReviewActor
  prv_reviewer_provenance :: "ReviewParticipantProvenance option"
  prv_active :: bool

record ProjectedReviewOverride =
  pro_value :: ReviewOverride
  pro_active :: bool

record ReviewReceiptProjection =
  rj_receipt_id :: "ReviewReceiptId option"
  rj_draft :: "ReviewReceiptDraft option"
  rj_review_requested :: bool
  rj_approval_revoked :: bool
  rj_findings :: "ProjectedReviewFinding list"
  rj_verdicts :: "ProjectedReviewVerdict list"
  rj_overrides :: "ProjectedReviewOverride list"
  rj_event_ids :: "EventId set"
  rj_last_sequence :: u64

definition ReviewReceiptProjection_initial :: ReviewReceiptProjection where
  "ReviewReceiptProjection_initial =
     \<lparr>rj_receipt_id = None, rj_draft = None, rj_review_requested = False, rj_approval_revoked = False,
      rj_findings = [], rj_verdicts = [], rj_overrides = [], rj_event_ids = {}, rj_last_sequence = 0\<rparr>"

definition ReviewReceiptProjection_state :: "ReviewReceiptProjection \<Rightarrow> ReviewReceiptState" where
  "ReviewReceiptProjection_state s =
     (if rj_draft s = None then Receipt_not_started
      else if length (filter prv_active (rj_verdicts s)) > 1 then Receipt_conflicted
      else if list_ex prf_open (rj_findings s) then Receipt_findings_open
      else case find prv_active (rj_verdicts s) of
        Some v \<Rightarrow> (case prv_verdict v of
            Verdict_approved \<Rightarrow> Receipt_approved
          | Verdict_changes_requested \<Rightarrow> Receipt_changes_requested
          | Verdict_rejected \<Rightarrow> Receipt_rejected)
      | None \<Rightarrow>
          if rj_approval_revoked s then Receipt_revoked
          else if rj_review_requested s then Receipt_review_requested
          else Receipt_draft)"

section \<open>Steps\<close>

fun payload_review_receipt_id :: "ReviewEventPayload \<Rightarrow> ReviewReceiptId" where
  "payload_review_receipt_id (ReviewReceiptDrafted d) = rd_receipt_id d"
| "payload_review_receipt_id (ReviewRequested r a) = r"
| "payload_review_receipt_id (ReviewFindingOpened r f) = r"
| "payload_review_receipt_id (ReviewFindingResolved r i a t) = r"
| "payload_review_receipt_id (ReviewVerdictRecorded r v a p) = r"
| "payload_review_receipt_id (ReviewVerdictRevoked r i a t) = r"
| "payload_review_receipt_id (ReviewOverrideRecorded v) = ro_receipt_id v"
| "payload_review_receipt_id (ReviewOverrideRevoked r i a t) = r"

definition review_receipt_id :: "RunEventPayload \<Rightarrow> ReviewReceiptId option" where
  "review_receipt_id p = (case p of ReviewEvent v \<Rightarrow> Some (payload_review_receipt_id v) | _ \<Rightarrow> None)"

definition on_receipt_drafted ::
  "ReviewReceiptLimits \<Rightarrow> ReviewReceiptProjection \<Rightarrow> ReviewReceiptDraft \<Rightarrow> ReviewReceiptErrorCode + ReviewReceiptProjection" where
  "on_receipt_drafted l s d =
     fail_if (rj_draft s \<noteq> None) Review_invalid_transition
     (bind_result (validate_review_receipt_draft d l) (\<lambda>_.
      Inr (s\<lparr>rj_receipt_id := Some (rd_receipt_id d), rj_draft := Some d\<rparr>)))"

definition on_review_requested ::
  "ReviewReceiptLimits \<Rightarrow> ReviewReceiptProjection \<Rightarrow> ReviewActor \<Rightarrow> ReviewReceiptErrorCode + ReviewReceiptProjection" where
  "on_review_requested l s requested_by =
     fail_if (rj_review_requested s \<or> isl (validate_review_actor requested_by l)) Review_invalid_transition
     (Inr (s\<lparr>rj_review_requested := True\<rparr>))"

definition on_finding_opened ::
  "ReviewReceiptLimits \<Rightarrow> ReviewReceiptProjection \<Rightarrow> ReviewFinding \<Rightarrow> ReviewReceiptErrorCode + ReviewReceiptProjection" where
  "on_finding_opened l s f =
     fail_if (\<not> rj_review_requested s \<or> isl (validate_review_finding f l) \<or>
              length (rj_findings s) \<ge> rl_maximum_findings l \<or>
              list_ex (\<lambda>v. rf_finding_id (prf_finding v) = rf_finding_id f) (rj_findings s)) Review_invalid_finding
     (Inr (s\<lparr>rj_findings := rj_findings s @ [\<lparr>prf_finding = f, prf_open = True\<rparr>]\<rparr>))"

definition on_finding_resolved ::
  "ReviewReceiptLimits \<Rightarrow> ReviewReceiptProjection \<Rightarrow> ReviewFindingId \<Rightarrow> ReviewActor \<Rightarrow> string option \<Rightarrow>
   ReviewReceiptErrorCode + ReviewReceiptProjection" where
  "on_finding_resolved l s i resolved_by reason =
     fail_if (\<not> valid_actor resolved_by l \<or>
              \<not> optional (\<lambda>r. review_bounded_text r (rl_maximum_text_bytes l)) reason) Review_invalid_actor
     (case find (\<lambda>v. rf_finding_id (prf_finding v) = i) (rj_findings s) of
        None \<Rightarrow> Inl Review_unknown_finding
      | Some found \<Rightarrow>
          fail_if (\<not> prf_open found) Review_unknown_finding
          (Inr (s\<lparr>rj_findings :=
             modify_first (\<lambda>v. rf_finding_id (prf_finding v) = i) (\<lambda>v. v\<lparr>prf_open := False\<rparr>) (rj_findings s)\<rparr>)))"

definition on_verdict_recorded ::
  "ReviewReceiptLimits \<Rightarrow> ReviewReceiptProjection \<Rightarrow> EventId \<Rightarrow> ReviewVerdict \<Rightarrow> ReviewActor \<Rightarrow>
   ReviewParticipantProvenance option \<Rightarrow> ReviewReceiptErrorCode + ReviewReceiptProjection" where
  "on_verdict_recorded l s eid v reviewer provenance =
     fail_if (\<not> rj_review_requested s \<or> \<not> valid_actor reviewer l \<or>
              \<not> optional (\<lambda>p. rpp_actor p = reviewer \<and> valid_participant p l) provenance) Review_invalid_transition
     (Inr (s\<lparr>rj_verdicts := rj_verdicts s @
        [\<lparr>prv_event_id = eid, prv_verdict = v, prv_reviewer = reviewer, prv_reviewer_provenance = provenance,
          prv_active = True\<rparr>]\<rparr>))"

definition on_verdict_revoked ::
  "ReviewReceiptLimits \<Rightarrow> ReviewReceiptProjection \<Rightarrow> EventId \<Rightarrow> ReviewActor \<Rightarrow> string \<Rightarrow>
   ReviewReceiptErrorCode + ReviewReceiptProjection" where
  "on_verdict_revoked l s i revoked_by reason =
     fail_if (\<not> valid_actor revoked_by l \<or> \<not> review_bounded_text reason (rl_maximum_text_bytes l)) Review_invalid_actor
     (case find (\<lambda>v. prv_event_id v = i) (rj_verdicts s) of
        None \<Rightarrow> Inl Review_unknown_verdict
      | Some found \<Rightarrow>
          fail_if (\<not> prv_active found) Review_unknown_verdict
          (Inr (s\<lparr>rj_approval_revoked := (prv_verdict found = Verdict_approved \<or> rj_approval_revoked s),
                  rj_verdicts := modify_first (\<lambda>v. prv_event_id v = i) (\<lambda>v. v\<lparr>prv_active := False\<rparr>) (rj_verdicts s)\<rparr>)))"

definition on_override_recorded ::
  "ReviewReceiptLimits \<Rightarrow> ReviewReceiptProjection \<Rightarrow> ReviewReceiptDraft \<Rightarrow> ReviewOverride \<Rightarrow>
   ReviewReceiptErrorCode + ReviewReceiptProjection" where
  "on_override_recorded l s draft v =
     fail_if (isl (validate_review_override v l) \<or> ro_candidate v \<noteq> rd_candidate draft \<or>
              list_ex (\<lambda>x. ro_override_id (pro_value x) = ro_override_id v) (rj_overrides s)) Review_invalid_transition
     (Inr (s\<lparr>rj_overrides := rj_overrides s @ [\<lparr>pro_value = v, pro_active = True\<rparr>]\<rparr>))"

definition on_override_revoked ::
  "ReviewReceiptLimits \<Rightarrow> ReviewReceiptProjection \<Rightarrow> ReviewOverrideId \<Rightarrow> ReviewActor \<Rightarrow> string \<Rightarrow>
   ReviewReceiptErrorCode + ReviewReceiptProjection" where
  "on_override_revoked l s i revoked_by reason =
     fail_if (\<not> valid_actor revoked_by l \<or> \<not> review_bounded_text reason (rl_maximum_text_bytes l)) Review_invalid_actor
     (case find (\<lambda>x. ro_override_id (pro_value x) = i) (rj_overrides s) of
        None \<Rightarrow> Inl Review_unknown_override
      | Some found \<Rightarrow>
          fail_if (\<not> pro_active found) Review_unknown_override
          (Inr (s\<lparr>rj_overrides :=
             modify_first (\<lambda>x. ro_override_id (pro_value x) = i) (\<lambda>x. x\<lparr>pro_active := False\<rparr>) (rj_overrides s)\<rparr>)))"

text \<open>The branches for facts about a drafted receipt.\<close>

fun on_review_fact ::
  "ReviewReceiptLimits \<Rightarrow> ReviewReceiptProjection \<Rightarrow> ReviewReceiptDraft \<Rightarrow> EventId \<Rightarrow> ReviewEventPayload \<Rightarrow>
   ReviewReceiptErrorCode + ReviewReceiptProjection" where
  "on_review_fact l s draft eid (ReviewReceiptDrafted d) = Inl Review_invalid_transition"
| "on_review_fact l s draft eid (ReviewRequested r a) = on_review_requested l s a"
| "on_review_fact l s draft eid (ReviewFindingOpened r f) = on_finding_opened l s f"
| "on_review_fact l s draft eid (ReviewFindingResolved r i a t) = on_finding_resolved l s i a t"
| "on_review_fact l s draft eid (ReviewVerdictRecorded r v a p) = on_verdict_recorded l s eid v a p"
| "on_review_fact l s draft eid (ReviewVerdictRevoked r i a t) = on_verdict_revoked l s i a t"
| "on_review_fact l s draft eid (ReviewOverrideRecorded v) = on_override_recorded l s draft v"
| "on_review_fact l s draft eid (ReviewOverrideRevoked r i a t) = on_override_revoked l s i a t"

definition review_visit ::
  "ReviewReceiptLimits \<Rightarrow> ReviewReceiptProjection \<Rightarrow> EventId \<Rightarrow> ReviewEventPayload \<Rightarrow>
   ReviewReceiptErrorCode + ReviewReceiptProjection" where
  "review_visit l s eid p =
     (case p of
        ReviewReceiptDrafted d \<Rightarrow> on_receipt_drafted l s d
      | _ \<Rightarrow> (case rj_draft s of
                None \<Rightarrow> Inl Review_invalid_transition
              | Some draft \<Rightarrow> on_review_fact l s draft eid p))"

definition ReviewReceiptProjection_apply_in_place ::
  "ReviewReceiptLimits \<Rightarrow> ReviewReceiptProjection \<Rightarrow> RunEvent \<Rightarrow> ReviewReceiptErrorCode + ReviewReceiptProjection" where
  "ReviewReceiptProjection_apply_in_place l s event =
     fail_if (\<not> review_valid_limits l) Review_invalid_limits
     (fail_if (event_sequence event = 0 \<or> schema_version (metadata event) = 0) Review_invalid_envelope
     (fail_if (event_sequence event \<le> rj_last_sequence s) Review_non_monotonic_sequence
     (fail_if (event_ident event \<in> rj_event_ids s) Review_duplicate_event
     (fail_if (case (review_receipt_id (payload event), rj_receipt_id s) of
                 (Some p, Some r) \<Rightarrow> p \<noteq> r | _ \<Rightarrow> False) Review_wrong_receipt
     (bind_result (case payload event of ReviewEvent p \<Rightarrow> review_visit l s (event_ident event) p | _ \<Rightarrow> Inr s) (\<lambda>s.
      Inr (s\<lparr>rj_event_ids := insert (event_ident event) (rj_event_ids s),
             rj_last_sequence := event_sequence event\<rparr>)))))))"

text \<open>A refused event leaves the projection as it was.\<close>

definition ReviewReceiptProjection_apply ::
  "ReviewReceiptLimits \<Rightarrow> ReviewReceiptProjection \<Rightarrow> RunEvent \<Rightarrow> ReviewReceiptErrorCode + ReviewReceiptProjection" where
  "ReviewReceiptProjection_apply l s event =
     (let candidate = s in
      bind_result (ReviewReceiptProjection_apply_in_place l candidate event) (\<lambda>applied. Inr applied))"

definition ReviewReceiptProjection_rebuild ::
  "RunEvent list \<Rightarrow> ReviewReceiptLimits \<Rightarrow> ReviewReceiptErrorCode + ReviewReceiptProjection" where
  "ReviewReceiptProjection_rebuild events l =
     replay (ReviewReceiptProjection_apply l) ReviewReceiptProjection_initial events"

lemma receipt_apply_eq: "ReviewReceiptProjection_apply = ReviewReceiptProjection_apply_in_place"
  by (simp add: fun_eq_iff ReviewReceiptProjection_apply_def)


lemma receipt_apply_Inr:
  "ReviewReceiptProjection_apply l s e = Inr s' \<longleftrightarrow>
    review_valid_limits l \<and> event_sequence e \<noteq> 0 \<and> schema_version (metadata e) \<noteq> 0 \<and>
    rj_last_sequence s < event_sequence e \<and> event_ident e \<notin> rj_event_ids s \<and>
    (\<forall>p r. review_receipt_id (payload e) = Some p \<longrightarrow> rj_receipt_id s = Some r \<longrightarrow> p = r) \<and>
    (\<exists>t. (case payload e of ReviewEvent p \<Rightarrow> review_visit l s (event_ident e) p | _ \<Rightarrow> Inr s) = Inr t \<and>
      s' = t\<lparr>rj_event_ids := insert (event_ident e) (rj_event_ids t), rj_last_sequence := event_sequence e\<rparr>)"
  by (auto simp: receipt_apply_eq ReviewReceiptProjection_apply_in_place_def not_le split: option.splits)

section \<open>Registers\<close>

text \<open>
  Findings, verdicts and overrides are kept the same way: an entry is added once under its key and is
  later closed at most once.  The register lists what was added, each entry open unless its key was closed.
\<close>

locale review_register =
  fixes entry :: "'a \<Rightarrow> bool \<Rightarrow> 'p" and key :: "'a \<Rightarrow> 'k" and entry_key :: "'p \<Rightarrow> 'k"
    and is_open :: "'p \<Rightarrow> bool" and close :: "'p \<Rightarrow> 'p"
  assumes entry_key [simp]: "entry_key (entry x b) = key x"
    and is_open [simp]: "is_open (entry x b) = b"
    and close [simp]: "close (entry x b) = entry x False"
begin

definition listing :: "'a list \<Rightarrow> 'k set \<Rightarrow> 'p list" where
  "listing added shut = map (\<lambda>x. entry x (key x \<notin> shut)) added"

definition well_kept :: "'a list \<Rightarrow> 'k set \<Rightarrow> bool" where
  "well_kept added shut \<longleftrightarrow> distinct (map key added) \<and> shut \<subseteq> key ` set added"

lemma well_kept_empty [simp]: "well_kept [] {}" "listing [] {} = []"
  by (simp_all add: well_kept_def listing_def)

lemma key_listing [simp]: "entry_key ` set (listing added shut) = key ` set added"
  by (auto simp: listing_def image_iff)

lemma add:
  assumes "well_kept added shut" "key x \<notin> key ` set added"
  shows "well_kept (added @ [x]) shut" "listing (added @ [x]) shut = listing added shut @ [entry x True]"
proof -
  have "key x \<notin> shut" using assms by (auto simp: well_kept_def)
  with assms show "well_kept (added @ [x]) shut" "listing (added @ [x]) shut = listing added shut @ [entry x True]"
    by (auto simp: well_kept_def listing_def)
qed

lemma close_one:
  assumes kept: "well_kept added shut" and found: "find (\<lambda>p. entry_key p = i) (listing added shut) = Some p"
  shows "well_kept added (insert i shut)"
    and "modify_first (\<lambda>p. entry_key p = i) close (listing added shut) = listing added (insert i shut)"
    and "\<exists>x \<in> set added. key x = i \<and> p = entry x (i \<notin> shut)"
proof -
  have "i \<in> entry_key ` set (listing added shut)" using find_SomeD [OF found] by blast
  then have i: "i \<in> key ` set added" by simp
  with kept show "well_kept added (insert i shut)" by (simp add: well_kept_def)
  have "distinct (map key xs) \<Longrightarrow>
    modify_first (\<lambda>p. entry_key p = i) close (map (\<lambda>x. entry x (key x \<notin> shut)) xs) =
    map (\<lambda>x. entry x (key x \<notin> insert i shut)) xs" for xs
    by (induction xs) (auto simp: image_iff)
  then show "modify_first (\<lambda>p. entry_key p = i) close (listing added shut) = listing added (insert i shut)"
    using kept by (simp add: listing_def well_kept_def)
  show "\<exists>x \<in> set added. key x = i \<and> p = entry x (i \<notin> shut)"
    using find_SomeD [OF found] by (auto simp: listing_def)
qed

end

definition finding_entry :: "ReviewFinding \<Rightarrow> bool \<Rightarrow> ProjectedReviewFinding" where
  "finding_entry f b = \<lparr>prf_finding = f, prf_open = b\<rparr>"

definition verdict_entry :: "ProjectedReviewVerdict \<Rightarrow> bool \<Rightarrow> ProjectedReviewVerdict" where
  "verdict_entry v b = v\<lparr>prv_active := b\<rparr>"

definition override_entry :: "ReviewOverride \<Rightarrow> bool \<Rightarrow> ProjectedReviewOverride" where
  "override_entry v b = \<lparr>pro_value = v, pro_active = b\<rparr>"

interpretation finding_register: review_register finding_entry rf_finding_id "\<lambda>v. rf_finding_id (prf_finding v)" prf_open
  "\<lambda>v. v\<lparr>prf_open := False\<rparr>"
  by unfold_locales (simp_all add: finding_entry_def)

interpretation verdict_register: review_register verdict_entry prv_event_id prv_event_id prv_active "\<lambda>v. v\<lparr>prv_active := False\<rparr>"
  by unfold_locales (simp_all add: verdict_entry_def)

interpretation override_register: review_register override_entry ro_override_id "\<lambda>x. ro_override_id (pro_value x)" pro_active
  "\<lambda>x. x\<lparr>pro_active := False\<rparr>"
  by unfold_locales (simp_all add: override_entry_def)

section \<open>Reading the state off a history\<close>

fun review_payload :: "RunEventPayload \<Rightarrow> ReviewEventPayload list" where
  "review_payload (ReviewEvent p) = [p]"
| "review_payload _ = []"

definition review_facts :: "RunEvent list \<Rightarrow> (EventId \<times> ReviewEventPayload) list" where
  "review_facts es = concat (map (\<lambda>e. map (Pair (event_ident e)) (review_payload (payload e))) es)"

fun requests_review :: "EventId \<times> ReviewEventPayload \<Rightarrow> bool" where
  "requests_review (i, ReviewRequested r a) = True"
| "requests_review _ = False"

definition drafts_of :: "(EventId \<times> ReviewEventPayload) list \<Rightarrow> ReviewReceiptDraft list" where
  "drafts_of fs = concat (map (\<lambda>(i, p). case p of ReviewReceiptDrafted d \<Rightarrow> [d] | _ \<Rightarrow> []) fs)"

definition findings_of :: "(EventId \<times> ReviewEventPayload) list \<Rightarrow> ReviewFinding list" where
  "findings_of fs = concat (map (\<lambda>(i, p). case p of ReviewFindingOpened r f \<Rightarrow> [f] | _ \<Rightarrow> []) fs)"

definition resolved_in :: "(EventId \<times> ReviewEventPayload) list \<Rightarrow> ReviewFindingId set" where
  "resolved_in fs = \<Union> ((\<lambda>(i, p). case p of ReviewFindingResolved r f a t \<Rightarrow> {f} | _ \<Rightarrow> {}) ` set fs)"

definition verdicts_of :: "(EventId \<times> ReviewEventPayload) list \<Rightarrow> ProjectedReviewVerdict list" where
  "verdicts_of fs = concat (map (\<lambda>(i, p). case p of
     ReviewVerdictRecorded r v a q \<Rightarrow>
       [\<lparr>prv_event_id = i, prv_verdict = v, prv_reviewer = a, prv_reviewer_provenance = q, prv_active = True\<rparr>]
   | _ \<Rightarrow> []) fs)"

definition verdicts_revoked_in :: "(EventId \<times> ReviewEventPayload) list \<Rightarrow> EventId set" where
  "verdicts_revoked_in fs = \<Union> ((\<lambda>(i, p). case p of ReviewVerdictRevoked r v a t \<Rightarrow> {v} | _ \<Rightarrow> {}) ` set fs)"

definition overrides_of :: "(EventId \<times> ReviewEventPayload) list \<Rightarrow> ReviewOverride list" where
  "overrides_of fs = concat (map (\<lambda>(i, p). case p of ReviewOverrideRecorded v \<Rightarrow> [v] | _ \<Rightarrow> []) fs)"

definition overrides_revoked_in :: "(EventId \<times> ReviewEventPayload) list \<Rightarrow> ReviewOverrideId set" where
  "overrides_revoked_in fs = \<Union> ((\<lambda>(i, p). case p of ReviewOverrideRevoked r v a t \<Rightarrow> {v} | _ \<Rightarrow> {}) ` set fs)"

lemmas review_readings = drafts_of_def findings_of_def resolved_in_def verdicts_of_def verdicts_revoked_in_def
  overrides_of_def overrides_revoked_in_def

text \<open>The receipt a history describes, each component read off the facts on its own.\<close>

definition receipt_of_history :: "RunEvent list \<Rightarrow> ReviewReceiptProjection" where
  "receipt_of_history es =
     (let fs = review_facts es in
      \<lparr>rj_receipt_id = map_option rd_receipt_id (if drafts_of fs = [] then None else Some (hd (drafts_of fs))),
       rj_draft = (if drafts_of fs = [] then None else Some (hd (drafts_of fs))),
       rj_review_requested = list_ex requests_review fs,
       rj_approval_revoked =
         (\<exists>v \<in> set (verdicts_of fs). prv_verdict v = Verdict_approved \<and> prv_event_id v \<in> verdicts_revoked_in fs),
       rj_findings = map (\<lambda>f. \<lparr>prf_finding = f, prf_open = rf_finding_id f \<notin> resolved_in fs\<rparr>) (findings_of fs),
       rj_verdicts = map (\<lambda>v. v\<lparr>prv_active := prv_event_id v \<notin> verdicts_revoked_in fs\<rparr>) (verdicts_of fs),
       rj_overrides =
         map (\<lambda>v. \<lparr>pro_value = v, pro_active = ro_override_id v \<notin> overrides_revoked_in fs\<rparr>) (overrides_of fs),
       rj_event_ids = event_ident ` set es,
       rj_last_sequence = (if es = [] then 0 else event_sequence (last es))\<rparr>)"


text \<open>The registers of the history are the registers of the state.\<close>

definition kept_history :: "(EventId \<times> ReviewEventPayload) list \<Rightarrow> bool" where
  "kept_history fs \<longleftrightarrow> finding_register.well_kept (findings_of fs) (resolved_in fs) \<and>
     verdict_register.well_kept (verdicts_of fs) (verdicts_revoked_in fs) \<and>
     override_register.well_kept (overrides_of fs) (overrides_revoked_in fs) \<and>
     prv_event_id ` set (verdicts_of fs) \<subseteq> fst ` set fs"

definition describes :: "(EventId \<times> ReviewEventPayload) list \<Rightarrow> ReviewReceiptProjection \<Rightarrow> bool" where
  "describes fs s \<longleftrightarrow>
     rj_receipt_id s = map_option rd_receipt_id (rj_draft s) \<and>
     rj_draft s = (if drafts_of fs = [] then None else Some (hd (drafts_of fs))) \<and>
     rj_review_requested s = list_ex requests_review fs \<and>
     rj_approval_revoked s =
       (\<exists>v \<in> set (verdicts_of fs). prv_verdict v = Verdict_approved \<and> prv_event_id v \<in> verdicts_revoked_in fs) \<and>
     rj_findings s = finding_register.listing (findings_of fs) (resolved_in fs) \<and>
     rj_verdicts s = verdict_register.listing (verdicts_of fs) (verdicts_revoked_in fs) \<and>
     rj_overrides s = override_register.listing (overrides_of fs) (overrides_revoked_in fs)"

lemma review_facts_append [simp]: "review_facts (es @ fs) = review_facts es @ review_facts fs"
  by (simp add: review_facts_def)

lemma readings_snoc:
  "drafts_of (fs @ [(i, p)]) = drafts_of fs @ (case p of ReviewReceiptDrafted d \<Rightarrow> [d] | _ \<Rightarrow> [])"
  "findings_of (fs @ [(i, p)]) = findings_of fs @ (case p of ReviewFindingOpened r f \<Rightarrow> [f] | _ \<Rightarrow> [])"
  "resolved_in (fs @ [(i, p)]) = (case p of ReviewFindingResolved r f a t \<Rightarrow> {f} | _ \<Rightarrow> {}) \<union> resolved_in fs"
  "verdicts_of (fs @ [(i, p)]) = verdicts_of fs @ (case p of
     ReviewVerdictRecorded r v a q \<Rightarrow>
       [\<lparr>prv_event_id = i, prv_verdict = v, prv_reviewer = a, prv_reviewer_provenance = q, prv_active = True\<rparr>]
   | _ \<Rightarrow> [])"
  "verdicts_revoked_in (fs @ [(i, p)]) = (case p of ReviewVerdictRevoked r v a t \<Rightarrow> {v} | _ \<Rightarrow> {}) \<union> verdicts_revoked_in fs"
  "overrides_of (fs @ [(i, p)]) = overrides_of fs @ (case p of ReviewOverrideRecorded v \<Rightarrow> [v] | _ \<Rightarrow> [])"
  "overrides_revoked_in (fs @ [(i, p)]) = (case p of ReviewOverrideRevoked r v a t \<Rightarrow> {v} | _ \<Rightarrow> {}) \<union> overrides_revoked_in fs"
  by (simp_all add: review_readings)

lemma finding_entry_True: "\<lparr>prf_finding = f, prf_open = True\<rparr> = finding_entry f True"
  by (simp add: finding_entry_def)

lemma override_entry_True: "\<lparr>pro_value = v, pro_active = True\<rparr> = override_entry v True"
  by (simp add: override_entry_def)

lemma visit_finding:
  assumes kept: "kept_history fs" and s: "describes fs s" and visit: "review_visit l s i p = Inr t"
    and p: "p = ReviewFindingOpened r f \<or> p = ReviewFindingResolved r g a x"
  shows "kept_history (fs @ [(i, p)]) \<and> describes (fs @ [(i, p)]) t"
  using p
proof
  assume p: "p = ReviewFindingOpened r f"
  note listing = finding_register.key_listing [of "findings_of fs" "resolved_in fs"]
  from visit p s have t: "t = s\<lparr>rj_findings := rj_findings s @ [finding_entry f True]\<rparr>"
    and "rf_finding_id f \<notin> (\<lambda>v. rf_finding_id (prf_finding v)) ` set (rj_findings s)"
    by (auto simp: review_visit_def on_finding_opened_def list_ex_iff finding_entry_True split: option.split_asm)
  with s listing have "rf_finding_id f \<notin> rf_finding_id ` set (findings_of fs)" by (simp add: describes_def)
  with finding_register.add [of "findings_of fs" "resolved_in fs" f] kept s t p show ?thesis
    by (auto simp: kept_history_def describes_def readings_snoc)
next
  assume p: "p = ReviewFindingResolved r g a x"
  from visit p s obtain q where q: "find (\<lambda>v. rf_finding_id (prf_finding v) = g) (rj_findings s) = Some q"
    and t: "t = s\<lparr>rj_findings := modify_first (\<lambda>v. rf_finding_id (prf_finding v) = g) (\<lambda>v. v\<lparr>prf_open := False\<rparr>) (rj_findings s)\<rparr>"
    by (auto simp: review_visit_def on_finding_resolved_def split: option.split_asm)
  with finding_register.close_one [of "findings_of fs" "resolved_in fs" g q] kept s t p show ?thesis
    by (auto simp: kept_history_def describes_def readings_snoc)
qed

lemma visit_override:
  assumes kept: "kept_history fs" and s: "describes fs s" and visit: "review_visit l s i p = Inr t"
    and p: "p = ReviewOverrideRecorded v \<or> p = ReviewOverrideRevoked r g a x"
  shows "kept_history (fs @ [(i, p)]) \<and> describes (fs @ [(i, p)]) t"
  using p
proof
  assume p: "p = ReviewOverrideRecorded v"
  note listing = override_register.key_listing [of "overrides_of fs" "overrides_revoked_in fs"]
  from visit p s have t: "t = s\<lparr>rj_overrides := rj_overrides s @ [override_entry v True]\<rparr>"
    and "ro_override_id v \<notin> (\<lambda>x. ro_override_id (pro_value x)) ` set (rj_overrides s)"
    by (auto simp: review_visit_def on_override_recorded_def list_ex_iff override_entry_True split: option.split_asm)
  with s listing have "ro_override_id v \<notin> ro_override_id ` set (overrides_of fs)" by (simp add: describes_def)
  with override_register.add [of "overrides_of fs" "overrides_revoked_in fs" v] kept s t p show ?thesis
    by (auto simp: kept_history_def describes_def readings_snoc)
next
  assume p: "p = ReviewOverrideRevoked r g a x"
  from visit p s obtain q where q: "find (\<lambda>x. ro_override_id (pro_value x) = g) (rj_overrides s) = Some q"
    and t: "t = s\<lparr>rj_overrides := modify_first (\<lambda>x. ro_override_id (pro_value x) = g) (\<lambda>x. x\<lparr>pro_active := False\<rparr>) (rj_overrides s)\<rparr>"
    by (auto simp: review_visit_def on_override_revoked_def split: option.split_asm)
  with override_register.close_one [of "overrides_of fs" "overrides_revoked_in fs" g q] kept s t p show ?thesis
    by (auto simp: kept_history_def describes_def readings_snoc)
qed

lemma visit_verdict:
  assumes kept: "kept_history fs" and s: "describes fs s" and visit: "review_visit l s i p = Inr t"
    and fresh: "i \<notin> fst ` set fs"
    and p: "p = ReviewVerdictRecorded r v b q \<or> p = ReviewVerdictRevoked r g a x"
  shows "kept_history (fs @ [(i, p)]) \<and> describes (fs @ [(i, p)]) t"
  using p
proof
  assume p: "p = ReviewVerdictRecorded r v b q"
  let ?v = "\<lparr>prv_event_id = i, prv_verdict = v, prv_reviewer = b, prv_reviewer_provenance = q, prv_active = True\<rparr>"
  have entry: "?v = verdict_entry ?v True" by (simp add: verdict_entry_def)
  from visit p s have t: "t = s\<lparr>rj_verdicts := rj_verdicts s @ [?v]\<rparr>"
    by (auto simp: review_visit_def on_verdict_recorded_def split: option.split_asm)
  have new: "prv_event_id ?v \<notin> prv_event_id ` set (verdicts_of fs)" using kept fresh by (auto simp: kept_history_def)
  then have "i \<notin> verdicts_revoked_in fs" using kept by (auto simp: kept_history_def verdict_register.well_kept_def)
  with new verdict_register.add [of "verdicts_of fs" "verdicts_revoked_in fs" ?v] entry kept s t p show ?thesis
    by (auto simp: kept_history_def describes_def readings_snoc)
next
  assume p: "p = ReviewVerdictRevoked r g a x"
  from visit p s obtain q where q: "find (\<lambda>v. prv_event_id v = g) (rj_verdicts s) = Some q" "prv_active q"
    and t: "t = s\<lparr>rj_approval_revoked := (prv_verdict q = Verdict_approved \<or> rj_approval_revoked s),
        rj_verdicts := modify_first (\<lambda>v. prv_event_id v = g) (\<lambda>v. v\<lparr>prv_active := False\<rparr>) (rj_verdicts s)\<rparr>"
    by (auto simp: review_visit_def on_verdict_revoked_def split: option.split_asm)
  have kept': "verdict_register.well_kept (verdicts_of fs) (verdicts_revoked_in fs)" using kept by (simp add: kept_history_def)
  note close = verdict_register.close_one [OF kept', of g q]
  from q(1) s have find: "find (\<lambda>v. prv_event_id v = g) (verdict_register.listing (verdicts_of fs) (verdicts_revoked_in fs)) = Some q"
    by (simp add: describes_def)
  obtain v where v: "v \<in> set (verdicts_of fs)" "prv_event_id v = g" "prv_verdict q = prv_verdict v"
    using close(3) [OF find] by (auto simp: verdict_entry_def)
  have only: "w = v" if "w \<in> set (verdicts_of fs)" "prv_event_id w = g" for w
    using that v kept' by (auto simp: verdict_register.well_kept_def distinct_map dest: inj_onD)
  have "(\<exists>w \<in> set (verdicts_of fs). prv_verdict w = Verdict_approved \<and> prv_event_id w \<in> insert g (verdicts_revoked_in fs))
    \<longleftrightarrow> prv_verdict q = Verdict_approved \<or> rj_approval_revoked s"
  proof -
    have "rj_approval_revoked s \<longleftrightarrow>
      (\<exists>w \<in> set (verdicts_of fs). prv_verdict w = Verdict_approved \<and> prv_event_id w \<in> verdicts_revoked_in fs)"
      using s by (simp add: describes_def)
    moreover have "prv_verdict q = Verdict_approved \<longleftrightarrow>
      (\<exists>w \<in> set (verdicts_of fs). prv_verdict w = Verdict_approved \<and> prv_event_id w = g)"
      using v only by metis
    ultimately show ?thesis by blast
  qed
  with close(2) [OF find] s have "describes (fs @ [(i, p)]) t"
    unfolding describes_def t p readings_snoc by simp
  moreover have "kept_history (fs @ [(i, p)])"
    using close(1) [OF find] kept unfolding kept_history_def p readings_snoc by auto
  ultimately show ?thesis by blast
qed

lemma visit_describes:
  assumes kept: "kept_history fs" and s: "describes fs s" and fresh: "i \<notin> fst ` set fs"
    and visit: "review_visit l s i p = Inr t"
  shows "kept_history (fs @ [(i, p)]) \<and> describes (fs @ [(i, p)]) t"
proof (cases p)
  case (ReviewReceiptDrafted d)
  with visit have "rj_draft s = None" "t = s\<lparr>rj_receipt_id := Some (rd_receipt_id d), rj_draft := Some d\<rparr>"
    by (simp_all add: review_visit_def on_receipt_drafted_def)
  with kept s ReviewReceiptDrafted show ?thesis
    by (auto simp: kept_history_def describes_def readings_snoc split: if_splits)
next
  case (ReviewRequested r a)
  with visit have "t = s\<lparr>rj_review_requested := True\<rparr>"
    by (auto simp: review_visit_def on_review_requested_def split: option.split_asm)
  with kept s ReviewRequested show ?thesis by (auto simp: kept_history_def describes_def readings_snoc)
qed (use visit_finding [OF kept s visit] visit_verdict [OF kept s visit fresh] visit_override [OF kept s visit] in blast)+

lemma visit_keeps_envelope:
  "review_visit l s i p = Inr t \<Longrightarrow> rj_event_ids t = rj_event_ids s \<and> rj_last_sequence t = rj_last_sequence s"
  by (cases p) (auto simp: review_visit_def on_receipt_drafted_def on_review_requested_def on_finding_opened_def
      on_finding_resolved_def on_verdict_recorded_def on_verdict_revoked_def on_override_recorded_def
      on_override_revoked_def split: option.split_asm)

lemma receipt_apply_cases:
  assumes "ReviewReceiptProjection_apply l s e = Inr s'"
  obtains t where "(t = s \<and> review_payload (payload e) = []) \<or>
      (\<exists>p. payload e = ReviewEvent p \<and> review_visit l s (event_ident e) p = Inr t)"
    "s' = t\<lparr>rj_event_ids := insert (event_ident e) (rj_event_ids s), rj_last_sequence := event_sequence e\<rparr>"
    "event_ident e \<notin> rj_event_ids s" "rj_last_sequence s < event_sequence e"
  using assms visit_keeps_envelope by (cases "payload e") (auto simp: receipt_apply_Inr)

interpretation receipt: identified "ReviewReceiptProjection_apply l" event_sequence rj_last_sequence event_ident rj_event_ids for l
  by unfold_locales (erule receipt_apply_cases; simp)+

lemma describes_envelope [simp]:
  "describes fs (s\<lparr>rj_event_ids := ids, rj_last_sequence := n\<rparr>) = describes fs s"
  by (simp add: describes_def)

lemma rebuild_describes:
  assumes "ReviewReceiptProjection_rebuild es l = Inr s"
  shows "kept_history (review_facts es) \<and> describes (review_facts es) s"
  using assms
proof (induction es arbitrary: s rule: rev_induct)
  case Nil
  then show ?case
    by (auto simp: ReviewReceiptProjection_rebuild_def ReviewReceiptProjection_initial_def review_facts_def
        kept_history_def describes_def review_readings)
next
  case (snoc e es)
  then obtain r where r: "ReviewReceiptProjection_rebuild es l = Inr r" "ReviewReceiptProjection_apply l r e = Inr s"
    by (auto simp: ReviewReceiptProjection_rebuild_def replay_snoc)
  note IH = snoc.IH [OF r(1)]
  have ids: "rj_event_ids r = event_ident ` set es"
    using receipt.replay_distinct [OF r(1) [unfolded ReviewReceiptProjection_rebuild_def]]
    by (simp add: ReviewReceiptProjection_initial_def)
  from r(2) show ?case
  proof (rule receipt_apply_cases)
    fix t assume t: "(t = r \<and> review_payload (payload e) = []) \<or>
        (\<exists>p. payload e = ReviewEvent p \<and> review_visit l r (event_ident e) p = Inr t)"
      and s: "s = t\<lparr>rj_event_ids := insert (event_ident e) (rj_event_ids r), rj_last_sequence := event_sequence e\<rparr>"
      and "event_ident e \<notin> rj_event_ids r"
    then have "event_ident e \<notin> fst ` set (review_facts es)"
      using ids by (auto simp: review_facts_def image_iff)
    with t IH show ?thesis unfolding s
      by (auto simp: review_facts_def dest!: visit_describes [rotated -1])
  qed
qed

section \<open>What is checked on the way in\<close>

definition receipt_ok :: "ReviewReceiptLimits \<Rightarrow> ReviewReceiptProjection \<Rightarrow> bool" where
  "receipt_ok l s \<longleftrightarrow>
     (\<forall>d. rj_draft s = Some d \<longrightarrow> rj_receipt_id s = Some (rd_receipt_id d) \<and> validate_review_receipt_draft d l = Inr ()) \<and>
     (\<forall>v \<in> pro_value ` set (rj_overrides s). validate_review_override v l = Inr () \<and>
        (\<exists>d. rj_draft s = Some d \<and> ro_candidate v = rd_candidate d))"

lemma unit_result: "\<not> isl r \<longleftrightarrow> r = Inr ()"
  by (cases r) auto

lemma pro_values_modify: "pro_value ` set (modify_first P (\<lambda>x. x\<lparr>pro_active := b\<rparr>) xs) = pro_value ` set xs"
proof -
  have "map pro_value (modify_first P (\<lambda>x. x\<lparr>pro_active := b\<rparr>) xs) = map pro_value xs" by (simp add: map_modify_first)
  then show ?thesis by (metis set_map)
qed

lemma receipt_ok_overrides:
  "receipt_ok l s \<Longrightarrow> pro_value ` set os \<subseteq> pro_value ` set (rj_overrides s) \<Longrightarrow> receipt_ok l (s\<lparr>rj_overrides := os\<rparr>)"
  unfolding receipt_ok_def by (auto simp: subset_iff image_iff)

lemma visit_receipt_ok: "receipt_ok l s \<Longrightarrow> review_visit l s i p = Inr t \<Longrightarrow> receipt_ok l t"
proof (cases p)
  case (ReviewOverrideRecorded v)
  assume "receipt_ok l s" "review_visit l s i p = Inr t"
  with ReviewOverrideRecorded show ?thesis
    by (auto simp: review_visit_def on_override_recorded_def receipt_ok_def unit_result split: option.split_asm)
next
  case (ReviewOverrideRevoked r j a x)
  assume ok: "receipt_ok l s" and "review_visit l s i p = Inr t"
  with ReviewOverrideRevoked have "\<exists>P. t = s\<lparr>rj_overrides := modify_first P (\<lambda>x. x\<lparr>pro_active := False\<rparr>) (rj_overrides s)\<rparr>"
    by (auto simp: review_visit_def on_override_revoked_def split: option.split_asm)
  then obtain P where t: "t = s\<lparr>rj_overrides := modify_first P (\<lambda>x. x\<lparr>pro_active := False\<rparr>) (rj_overrides s)\<rparr>" by (rule exE)
  show ?thesis unfolding t by (rule receipt_ok_overrides [OF ok equalityD1 [OF pro_values_modify]])
qed (auto simp: receipt_ok_def review_visit_def on_receipt_drafted_def on_review_requested_def on_finding_opened_def
      on_finding_resolved_def on_verdict_recorded_def on_verdict_revoked_def
      split: option.split_asm)

interpretation receipt_checked: invariant "ReviewReceiptProjection_apply l" "receipt_ok l" for l
proof unfold_locales
  fix s e s' assume ok: "receipt_ok l s" and "ReviewReceiptProjection_apply l s e = Inr s'"
  from this(2) show "receipt_ok l s'"
  proof (rule receipt_apply_cases)
    fix t assume "(t = s \<and> review_payload (payload e) = []) \<or>
        (\<exists>p. payload e = ReviewEvent p \<and> review_visit l s (event_ident e) p = Inr t)"
      and s': "s' = t\<lparr>rj_event_ids := insert (event_ident e) (rj_event_ids s), rj_last_sequence := event_sequence e\<rparr>"
    with ok visit_receipt_ok have "receipt_ok l t" by blast
    then show ?thesis by (simp add: s' receipt_ok_def)
  qed
qed

lemma rebuild_receipt_ok:
  assumes "ReviewReceiptProjection_rebuild events l = Inr s"
  shows "receipt_ok l s"
proof -
  have "receipt_ok l ReviewReceiptProjection_initial" by (simp add: receipt_ok_def ReviewReceiptProjection_initial_def)
  then show ?thesis using assms unfolding ReviewReceiptProjection_rebuild_def by (rule receipt_checked.replay_inv)
qed

section \<open>A sample receipt\<close>

definition sample_review_digest :: ContentDigest where
  "sample_review_digest = \<lparr>dg_algorithm = ''a'', dg_value = ''0'', dg_byte_size = 1\<rparr>"

definition sample_candidate :: ReviewCandidate where
  "sample_candidate =
     \<lparr>rc_snapshot = \<lparr>rsi_repository_id = Id ''r'', rsi_fingerprint = sample_review_digest\<rparr>, rc_revision = ''v''\<rparr>"

definition sample_binding :: ReviewEvidenceBinding where
  "sample_binding =
     \<lparr>reb_requirement_id = Id ''q'', reb_kind = Review_verification, reb_producer_name = ''n'', reb_producer_version = ''v'',
      reb_verification_evidence_id = Some (Id ''e''), reb_scenario_id = None, reb_scenario_corpus_version = None,
      reb_scenario_application_revision = None, reb_scenario_fake_script_digest = None,
      reb_scenario_terminal_capabilities_digest = None, reb_result_digest = sample_review_digest, reb_artifacts = []\<rparr>"

definition sample_review_draft :: ReviewReceiptDraft where
  "sample_review_draft =
     \<lparr>rd_receipt_id = Id ''t'', rd_candidate = sample_candidate, rd_evidence = [sample_binding], rd_author = None\<rparr>"

definition sample_actor :: ReviewActor where
  "sample_actor = \<lparr>ra_actor_id = ''n'', ra_display_name = ''n''\<rparr>"

definition sample_finding :: "VerificationEvidenceId list \<Rightarrow> ArtifactId list \<Rightarrow> ReviewFinding" where
  "sample_finding evidence artifacts =
     \<lparr>rf_finding_id = Id ''f'', rf_summary = ''n'', rf_verification_evidence_id = None, rf_artifacts = artifacts,
      rf_severity = Severity_low, rf_source = None, rf_reproduction_evidence_ids = evidence\<rparr>"

lemma sample_review_text:
  assumes "c \<in> set ''anv0''" "0 < m"
  shows "review_bounded_text [c] m" "review_bounded_identity [c] m"
proof -
  have b: "32 \<le> byte c \<and> byte c < 127" using assms(1) by (auto simp: byte_def)
  then show "review_bounded_text [c] m" "review_bounded_identity [c] m"
    using assms(2) by (auto simp: review_bounded_identity_def review_bounded_text_def review_valid_utf8_text_def
        valid_utf8_from_ascii)
qed

lemma sample_review_valid:
  "review_valid_limits default_review_limits" "review_valid_digest sample_review_digest"
  "valid_actor sample_actor default_review_limits"
  "validate_review_candidate sample_candidate default_review_limits = Inr ()"
  "validate_review_evidence_binding sample_binding default_review_limits = Inr ()"
  "validate_review_receipt_draft sample_review_draft default_review_limits = Inr ()"
proof -
  show limits: "review_valid_limits default_review_limits"
    by (simp add: review_valid_limits_def Let_def default_review_limits_def)
  show digest: "review_valid_digest sample_review_digest"
    by (simp add: review_valid_digest_def sample_review_digest_def sample_review_text ascii_alpha_def is_xdigit_def
        ascii_digit_def byte_def)
  have bytes: "0 < rl_maximum_metadata_bytes default_review_limits" by (simp add: default_review_limits_def)
  then show "valid_actor sample_actor default_review_limits"
    by (simp add: valid_actor_def sample_actor_def sample_review_text)
  show candidate: "validate_review_candidate sample_candidate default_review_limits = Inr ()"
    using bytes by (simp add: validate_review_candidate_def valid_candidate_def sample_candidate_def limits digest sample_review_text)
  show binding: "validate_review_evidence_binding sample_binding default_review_limits = Inr ()"
    using bytes by (simp add: validate_review_evidence_binding_def sample_binding_def limits digest sample_review_text
        identity_matches_kind_def Let_def optional_def)
  show "validate_review_receipt_draft sample_review_draft default_review_limits = Inr ()"
    using candidate binding limits
    by (simp add: validate_review_receipt_draft_def sample_review_draft_def)
      (simp add: default_review_limits_def sample_binding_def)
qed

definition sample_review_events :: "RunEvent list" where
  "sample_review_events =
     [sample_event 1 (ReviewEvent (ReviewReceiptDrafted sample_review_draft)),
      sample_event 2 (ReviewEvent (ReviewRequested (Id ''t'') sample_actor)),
      sample_event 3 (ReviewEvent (ReviewFindingOpened (Id ''t'') (sample_finding [] [Id ''x'']))),
      sample_event 4 (ReviewEvent (ReviewVerdictRecorded (Id ''t'') Verdict_rejected sample_actor None)),
      sample_event 5 (ReviewEvent (ReviewFindingResolved (Id ''t'') (Id ''f'') sample_actor None)),
      sample_event 6 (ReviewEvent (ReviewVerdictRevoked (Id ''t'') (Id ''eeee'') sample_actor ''n'')),
      sample_event 7 (ReviewEvent (ReviewVerdictRecorded (Id ''t'') Verdict_approved sample_actor None))]"

lemma sample_review_steps:
  "isl (validate_review_actor sample_actor default_review_limits) = False"
  "isl (validate_review_finding (sample_finding [] [a]) default_review_limits) = False"
  "rd_receipt_id sample_review_draft = Id ''t''" "rd_candidate sample_review_draft = sample_candidate"
  "rf_finding_id (sample_finding es as) = Id ''f''"
  "0 < rl_maximum_findings default_review_limits" "0 < rl_maximum_text_bytes default_review_limits"
  by (simp_all add: validate_review_actor_def validate_review_finding_def sample_review_valid sample_finding_def
      sample_review_text optional_def sample_review_draft_def)
    (simp_all add: default_review_limits_def sample_review_text)

lemmas sample_review_simps =
  sample_event_def ReviewReceiptProjection_rebuild_def receipt_apply_eq ReviewReceiptProjection_apply_in_place_def
  ReviewReceiptProjection_initial_def review_receipt_id_def review_visit_def on_receipt_drafted_def
  on_review_requested_def on_finding_opened_def on_finding_resolved_def on_verdict_recorded_def
  on_verdict_revoked_def on_override_recorded_def optional_def sample_review_valid sample_review_steps
  sample_review_text replicate_numeral_Cons word_le_nat_alt

lemma sample_review_rebuilt:
  "\<exists>s. ReviewReceiptProjection_rebuild sample_review_events default_review_limits = Inr s \<and>
     ReviewReceiptProjection_state s = Receipt_approved \<and> rj_draft s = Some sample_review_draft \<and> rj_overrides s = []"
  unfolding sample_review_events_def by (simp add: sample_review_simps ReviewReceiptProjection_state_def)

section \<open>What the state says of the history\<close>

lemma rebuild_envelope:
  assumes "ReviewReceiptProjection_rebuild es l = Inr s"
  shows "rj_event_ids s = event_ident ` set es" "rj_last_sequence s = (if es = [] then 0 else event_sequence (last es))"
    "distinct (map event_ident es)"
  using receipt.replay_distinct [OF assms [unfolded ReviewReceiptProjection_rebuild_def]]
    receipt.replay_increasing [OF assms [unfolded ReviewReceiptProjection_rebuild_def]]
  by (simp_all add: ReviewReceiptProjection_initial_def)

lemma register_listings:
  "finding_register.listing fs r = map (\<lambda>f. \<lparr>prf_finding = f, prf_open = rf_finding_id f \<notin> r\<rparr>) fs"
  "verdict_register.listing vs q = map (\<lambda>v. v\<lparr>prv_active := prv_event_id v \<notin> q\<rparr>) vs"
  "override_register.listing os k = map (\<lambda>v. \<lparr>pro_value = v, pro_active = ro_override_id v \<notin> k\<rparr>) os"
  by (simp_all add: finding_register.listing_def verdict_register.listing_def override_register.listing_def
      finding_entry_def verdict_entry_def override_entry_def)

lemma rebuild_is_history:
  assumes "ReviewReceiptProjection_rebuild events l = Inr s"
  shows "s = receipt_of_history events"
proof -
  have "describes (review_facts events) s" using rebuild_describes [OF assms] by simp
  with rebuild_envelope [OF assms] show ?thesis
    by (intro ReviewReceiptProjection.equality)
      (simp_all add: receipt_of_history_def Let_def describes_def register_listings)
qed

text \<open>
  C13: the state of a receipt is a function of its history.  When a history is accepted, the projection
  built from it one event at a time is what the history says when each part is read off it on its
  own: the first draft; every finding opened, open unless some event resolves it; every verdict and
  every override, in force unless some event revokes it; an approval counts as revoked when some event
  revokes an approving verdict.
\<close>

theorem receipt_refines_history:
  assumes "ReviewReceiptProjection_rebuild events l = Inr s"
  shows "s = receipt_of_history events"
  by (rule rebuild_is_history [OF assms])

theorem receipt_refines_history_witness:
  "ReviewReceiptProjection_rebuild sample_review_events default_review_limits = Inr (receipt_of_history sample_review_events)"
proof -
  obtain s where "ReviewReceiptProjection_rebuild sample_review_events default_review_limits = Inr s"
    using sample_review_rebuilt by (elim exE conjE) (rule that)
  with receipt_refines_history [OF this] show ?thesis by simp
qed

lemma single_filter: "filter P xs = [x] \<Longrightarrow> find P xs = Some x"
  by (induction xs) (auto split: if_splits)

lemma state_approved_iff:
  "ReviewReceiptProjection_state s = Receipt_approved \<longleftrightarrow>
    rj_draft s \<noteq> None \<and> (\<forall>f \<in> set (rj_findings s). \<not> prf_open f) \<and>
    (\<exists>v. filter prv_active (rj_verdicts s) = [v] \<and> prv_verdict v = Verdict_approved)"
proof (cases "filter prv_active (rj_verdicts s)")
  case Nil
  then have "find prv_active (rj_verdicts s) = None" by (simp add: find_None_iff filter_empty_conv)
  with Nil show ?thesis by (simp add: ReviewReceiptProjection_state_def)
next
  case (Cons v vs)
  show ?thesis
  proof (cases vs)
    case Nil
    with Cons single_filter [of prv_active "rj_verdicts s" v] show ?thesis
      by (auto simp: ReviewReceiptProjection_state_def list_ex_iff split: ReviewVerdict.split)
  next
    case (Cons w ws)
    with \<open>filter prv_active (rj_verdicts s) = v # vs\<close> show ?thesis
      by (simp add: ReviewReceiptProjection_state_def)
  qed
qed

text \<open>
  A receipt is approved exactly when a draft was recorded, every finding of the history was
  resolved, and of all the verdicts of the history exactly one was not revoked and it approves.
\<close>

theorem receipt_approved_iff:
  assumes "ReviewReceiptProjection_rebuild events l = Inr s"
  shows "ReviewReceiptProjection_state s = Receipt_approved \<longleftrightarrow>
    drafts_of (review_facts events) \<noteq> [] \<and>
    rf_finding_id ` set (findings_of (review_facts events)) \<subseteq> resolved_in (review_facts events) \<and>
    (\<exists>v. filter (\<lambda>v. prv_event_id v \<notin> verdicts_revoked_in (review_facts events)) (verdicts_of (review_facts events)) = [v] \<and>
      prv_verdict v = Verdict_approved)"
proof -
  let ?F = "review_facts events"
  have "filter prv_active (rj_verdicts s) =
    map (\<lambda>v. v\<lparr>prv_active := prv_event_id v \<notin> verdicts_revoked_in ?F\<rparr>)
      (filter (\<lambda>v. prv_event_id v \<notin> verdicts_revoked_in ?F) (verdicts_of ?F))"
    unfolding rebuild_is_history [OF assms] by (simp add: receipt_of_history_def Let_def filter_map comp_def)
  moreover have "(\<forall>f \<in> set (rj_findings s). \<not> prf_open f) \<longleftrightarrow> rf_finding_id ` set (findings_of ?F) \<subseteq> resolved_in ?F"
    "rj_draft s \<noteq> None \<longleftrightarrow> drafts_of ?F \<noteq> []"
    unfolding rebuild_is_history [OF assms] by (auto simp: receipt_of_history_def Let_def)
  ultimately show ?thesis unfolding state_approved_iff by (auto simp: map_eq_Cons_conv)
qed

theorem receipt_approved_iff_witness:
  "\<exists>s. ReviewReceiptProjection_rebuild sample_review_events default_review_limits = Inr s \<and>
    ReviewReceiptProjection_state s = Receipt_approved \<and>
    rf_finding_id ` set (findings_of (review_facts sample_review_events)) \<subseteq> resolved_in (review_facts sample_review_events)"
proof -
  obtain s where s: "ReviewReceiptProjection_rebuild sample_review_events default_review_limits = Inr s"
    "ReviewReceiptProjection_state s = Receipt_approved"
    using sample_review_rebuilt by (elim exE conjE) (rule that)
  with receipt_approved_iff [OF s(1)] show ?thesis by (intro exI [of _ s]) simp
qed

end
