(* ===== verification/Session.thy ===== *)
theory Session
  imports InferenceSpend PlanProjection MemoryProjection ReviewProjection
begin

text \<open>
  One session, several projections: the usage ledger, the spend ceiling, the tool ledger, the plan, the
  memories and a review receipt all replay the events of the session log.  Each of these six is shown to
  report an envelope error only for a bad envelope, so that none does on a history the log has
  accepted.  The projection of a run is not among them: it also refuses the events of other runs.
\<close>

abbreviation positive_envelope :: "RunEvent \<Rightarrow> bool" where
  "positive_envelope e \<equiv> event_sequence e \<noteq> 0 \<and> schema_version (metadata e) \<noteq> 0"

definition ledger_envelope_error :: "UsageLedgerErrorCode \<Rightarrow> bool" where
  "ledger_envelope_error x \<longleftrightarrow>
     x \<in> {Ledger_invalid_envelope, Ledger_duplicate_event_id, Ledger_non_monotonic_sequence}"

definition tool_envelope_error :: "ToolSpendLedgerErrorCode \<Rightarrow> bool" where
  "tool_envelope_error x \<longleftrightarrow>
     x \<in> {Spend_invalid_envelope, Spend_duplicate_event_id, Spend_non_monotonic_sequence}"

definition plan_envelope_error :: "PlanGraphErrorCode \<Rightarrow> bool" where
  "plan_envelope_error x \<longleftrightarrow>
     x \<in> {Plan_invalid_envelope, Plan_duplicate_event, Plan_non_monotonic_sequence}"

lemma ledger_visit_error: "ledger_visit s e = Inl x \<Longrightarrow> \<not> ledger_envelope_error x"
  by (cases "payload e")
    (auto simp: ledger_defs fail_if_Inl ledger_envelope_error_def split: option.split_asm sum.split_asm)

interpretation ledger_enveloped:
  enveloped UsageLedger_apply event_sequence ul_last_sequence event_ident ul_event_ids
    positive_envelope ledger_envelope_error
  by unfold_locales
    (auto simp: UsageLedger_apply_def fail_if_Inl bind_result_Inl dest: ledger_visit_error)

lemma ceiling_visit_error: "ceiling_visit s e = Inl x \<Longrightarrow> \<not> ledger_envelope_error x"
  by (cases "payload e") (auto simp: ceiling_visit_def fail_if_Inl ledger_envelope_error_def)

interpretation ceiling_enveloped:
  enveloped SpendCeiling_apply event_sequence cl_last_sequence event_ident cl_event_ids
    positive_envelope ledger_envelope_error
  by unfold_locales
    (auto simp: SpendCeiling_apply_def fail_if_Inl bind_result_Inl dest: ceiling_visit_error)

lemmas spend_steps = spend_visit_def spend_tool_proposed_def spend_reserved_def spend_tool_started_def
  spend_released_def spend_finalized_def spend_reconciliation_required_def spend_tool_result_def
  spend_tool_errored_def with_spend_def Let_def

lemma spend_visit_error: "spend_visit s e = Inl x \<Longrightarrow> \<not> tool_envelope_error x"
  by (cases "payload e")
    (auto simp: spend_steps fail_if_Inl bind_result_Inl tool_envelope_error_def split: option.split_asm if_split_asm)

interpretation tool_enveloped:
  enveloped ToolSpendLedger_apply event_sequence tl_last_sequence event_ident tl_event_ids
    positive_envelope tool_envelope_error
  by unfold_locales
    (auto simp: ToolSpendLedger_apply_def fail_if_Inl bind_result_Inl dest: spend_visit_error)

section \<open>Validation of a plan reports no envelope error\<close>

named_theorems plan_errors

lemma validate_evidence_error [plan_errors]:
  "validate_evidence l seen used bs = Inl x \<Longrightarrow> \<not> plan_envelope_error x"
  by (induction l seen used bs rule: validate_evidence.induct)
    (auto simp: plan_envelope_error_def split: if_split_asm option.split_asm)

lemma validate_dependencies_error [plan_errors]:
  "validate_dependencies tasks self seen ds = Inl x \<Longrightarrow> \<not> plan_envelope_error x"
  by (induction ds arbitrary: seen) (auto simp: fail_if_Inl plan_envelope_error_def)

lemma validate_intents_error [plan_errors]:
  "validate_intents l effects seen used intents = Inl x \<Longrightarrow> \<not> plan_envelope_error x"
  by (induction intents arbitrary: seen used)
    (auto simp: fail_if_Inl plan_envelope_error_def split: option.split_asm)

lemma validate_criteria_error [plan_errors]:
  "validate_criteria l used cs = Inl x \<Longrightarrow> \<not> plan_envelope_error x"
  by (induction cs arbitrary: used) (auto simp: fail_if_Inl plan_envelope_error_def split: option.split_asm)

lemma validate_task_error [plan_errors]: "validate_task l tasks used t = Inl x \<Longrightarrow> \<not> plan_envelope_error x"
  unfolding validate_task_def fail_if_Inl
  by (auto simp: fail_if_Inl bind_result_Inl split: option.split_asm dest: plan_errors)
    (simp_all add: plan_envelope_error_def)

lemma validate_tasks_error [plan_errors]: "validate_tasks l tasks used ts = Inl x \<Longrightarrow> \<not> plan_envelope_error x"
  by (induction ts arbitrary: used) (auto simp: bind_result_Inl dest: validate_task_error)

lemma validate_plan_revision_error [plan_errors]:
  "validate_plan_revision r l = Inl x \<Longrightarrow> \<not> plan_envelope_error x"
  unfolding validate_plan_revision_def
  by (auto simp: fail_if_Inl bind_result_Inl split: option.split_asm bool.split_asm dest: plan_errors)
    (simp_all add: plan_envelope_error_def)

lemma plan_visit_error: "plan_visit s l e = Inl x \<Longrightarrow> \<not> plan_envelope_error x"
proof (cases "payload e")
  case (ChildRunCreated child d)
  then show "plan_visit s l e = Inl x \<Longrightarrow> \<not> plan_envelope_error x"
    by (cases d) (auto simp: plan_visit_def on_child_run_created_def fail_if_Inl plan_envelope_error_def
        split: option.split_asm)
next
  case (PlanRevisionProposed r)
  then show "plan_visit s l e = Inl x \<Longrightarrow> \<not> plan_envelope_error x"
    by (auto simp: plan_visit_def on_revision_proposed_def fail_if_Inl bind_result_Inl
        dest: validate_plan_revision_error) (simp_all add: plan_envelope_error_def)
qed (auto simp: plan_visit_def on_revision_decided_def on_revision_invalidated_def on_tasks_materialized_def
    on_task_result_def validate_plan_decision_def validate_plan_invalidation_def Let_def fail_if_Inl
    bind_result_Inl plan_envelope_error_def split: option.split_asm)

interpretation plan_enveloped:
  enveloped "PlanGraph_apply l" event_sequence pg_last_sequence event_ident pg_event_ids
    positive_envelope plan_envelope_error for l
  by unfold_locales
    (auto simp: PlanGraph_apply_def fail_if_Inl bind_result_Inl plan_envelope_error_def [of Plan_invalid_limits]
      plan_envelope_error_def [of Plan_wrong_plan] dest: plan_visit_error)

section \<open>Memories and receipts\<close>

definition memory_envelope_error :: "MemoryErrorCode \<Rightarrow> bool" where
  "memory_envelope_error x \<longleftrightarrow> x \<in> {Memory_duplicate_event, Memory_non_monotonic_sequence}"

lemma validate_memory_error:
  "validate_memory_proposal p l = Inl x \<Longrightarrow> \<not> memory_envelope_error x"
  "validate_memory_record r l = Inl x \<Longrightarrow> \<not> memory_envelope_error x"
  by (auto simp: validate_memory_proposal_def validate_memory_record_def fail_if_Inl memory_envelope_error_def Let_def)

lemma memory_visit_error: "memory_visit l s m p = Inl x \<Longrightarrow> \<not> memory_envelope_error x"
  by (cases p)
    (auto simp: on_memory_proposed_def on_policy_decided_def on_memory_accepted_def on_memory_edited_def
      on_memory_rejected_def on_memory_superseded_def on_memory_expired_def Let_def fail_if_Inl bind_result_Inl
      memory_envelope_error_def [of Memory_stale_state] memory_envelope_error_def [of Memory_resource_exhausted]
      memory_envelope_error_def [of Memory_duplicate_identity] memory_envelope_error_def [of Memory_duplicate_origin]
      memory_envelope_error_def [of Memory_invalid_transition]
      split: option.split_asm dest: validate_memory_error)

lemma memory_visit_envelope:
  "memory_visit l s m p = Inr t \<Longrightarrow> mj_event_ids t = mj_event_ids s \<and> mj_last_sequence t = mj_last_sequence s"
  by (cases p)
    (auto simp: on_memory_proposed_def on_policy_decided_def on_memory_accepted_def on_memory_edited_def
      on_memory_rejected_def on_memory_superseded_def on_memory_expired_def set_proposal_def set_record_def Let_def
      split: option.split_asm)

interpretation memory_enveloped:
  enveloped "MemoryProjection_apply l" event_sequence mj_last_sequence event_ident mj_event_ids
    positive_envelope memory_envelope_error for l
proof unfold_locales
  fix s e s'
  assume step: "MemoryProjection_apply l s e = Inr s'"
  then show "mj_last_sequence s < event_sequence e \<and> mj_last_sequence s' = event_sequence e"
    by (auto simp: MemoryProjection_apply_Inr)
  from step show "event_ident e \<notin> mj_event_ids s \<and> mj_event_ids s' = insert (event_ident e) (mj_event_ids s)"
    by (cases "payload e") (auto simp: MemoryProjection_apply_Inr dest: memory_visit_envelope)
next
  fix s e x
  assume "MemoryProjection_apply l s e = Inl x" "memory_envelope_error x"
  then show "\<not> positive_envelope e \<or> event_ident e \<in> mj_event_ids s \<or> \<not> mj_last_sequence s < event_sequence e"
    by (cases "payload e")
      (auto simp: MemoryProjection_apply_def fail_if_Inl bind_result_Inl dest: memory_visit_error)
qed

definition review_envelope_error :: "ReviewReceiptErrorCode \<Rightarrow> bool" where
  "review_envelope_error x \<longleftrightarrow>
     x \<in> {Review_invalid_envelope, Review_duplicate_event, Review_non_monotonic_sequence}"

lemma validate_draft_error: "validate_review_receipt_draft d l = Inl x \<Longrightarrow> \<not> review_envelope_error x"
proof -
  have evidence: "\<not> review_envelope_error x" if "check_draft_evidence d l bs = Inl x" for bs
    using that by (induction bs)
      (auto simp: fail_if_Inl bind_result_Inl validate_review_evidence_binding_def review_envelope_error_def)
  show "validate_review_receipt_draft d l = Inl x \<Longrightarrow> \<not> review_envelope_error x"
    by (auto simp: validate_review_receipt_draft_def validate_review_candidate_def
        validate_review_participant_provenance_def fail_if_Inl bind_result_Inl dest: evidence split: option.split_asm)
      (simp_all add: review_envelope_error_def)
qed

lemma review_visit_error: "review_visit l s i p = Inl x \<Longrightarrow> \<not> review_envelope_error x"
proof (cases p)
  case (ReviewReceiptDrafted d)
  then show "review_visit l s i p = Inl x \<Longrightarrow> \<not> review_envelope_error x"
    by (auto simp: review_visit_def on_receipt_drafted_def fail_if_Inl bind_result_Inl dest: validate_draft_error)
      (simp add: review_envelope_error_def)
qed (auto simp: review_visit_def on_review_requested_def on_finding_opened_def on_finding_resolved_def
    on_verdict_recorded_def on_verdict_revoked_def on_override_recorded_def on_override_revoked_def fail_if_Inl
    review_envelope_error_def split: option.split_asm)

interpretation receipt_enveloped:
  enveloped "ReviewReceiptProjection_apply l" event_sequence rj_last_sequence event_ident rj_event_ids
    positive_envelope review_envelope_error for l
proof unfold_locales
  fix s e x
  assume step: "ReviewReceiptProjection_apply l s e = Inl x" "review_envelope_error x"
  have "\<not> review_envelope_error Review_invalid_limits" "\<not> review_envelope_error Review_wrong_receipt"
    by (simp_all add: review_envelope_error_def)
  with step show "\<not> positive_envelope e \<or> event_ident e \<in> rj_event_ids s \<or> \<not> rj_last_sequence s < event_sequence e"
    by (cases "payload e")
      (auto simp: receipt_apply_eq ReviewReceiptProjection_apply_in_place_def fail_if_Inl bind_result_Inl
        review_receipt_id_def dest: review_visit_error split: option.split_asm)
qed

section \<open>Histories of a log\<close>

text \<open>What an accepted log guarantees to every projection that starts from nothing.\<close>

lemma logged_history:
  assumes "replay SessionEventLog_append (SessionEventLog_empty sid) es = Inr elog"
  shows "log_events elog = es" "list_all positive_envelope es" "distinct (map event_ident es)"
    "event_ident ` set es \<inter> {} = {}" "sorted_wrt (<) (map event_sequence es)" "\<forall>e \<in> set es. 0 < event_sequence e"
  using assms by (auto simp: append_events history_ok_def list_all_iff word_neq_0_conv)

end
