(* ===== verification/TaskScheduler.thy ===== *)
theory TaskScheduler
  imports PlanProjection
begin

text \<open>
  The scheduler of plan tasks: \<^verbatim>\<open>src/lib/task_scheduler.cpp\<close> and
  \<^verbatim>\<open>include/aiforge/domain/task_scheduler.hpp\<close>.  It checks the attempt history of a projected
  revision, propagates dependency states to a fixed point, selects the tasks that can be dispatched
  together and sums up what the child runs consumed.
\<close>

section \<open>Data\<close>

record TaskSchedulingPolicy =
  maximum_concurrency :: nat
  maximum_attempts :: u32

datatype TaskReadinessState =
    Task_ready | Task_waiting_for_dependencies | Task_blocked_by_dependency | Task_blocked_by_resource
  | Task_waiting_for_capacity | Task_running | Task_completed | Task_failed

record TaskReadiness =
  tr_task_id :: PlanTaskId
  tr_state :: TaskReadinessState
  tr_blockers :: "PlanTaskId list"
  tr_next_attempt :: u32

datatype TaskRollupState = Rollup_in_progress | Rollup_completed | Rollup_failed

record TaskScheduleRollup =
  ro_state :: TaskRollupState
  ro_completed_tasks :: nat
  ro_failed_tasks :: nat
  ro_blocked_tasks :: nat
  ro_consumption :: ChildRunConsumption
  ro_evidence_ids :: "EvidenceId list"
  ro_artifact_ids :: "ArtifactId list"

record TaskScheduleAnalysis =
  an_tasks :: "TaskReadiness list"
  an_dispatchable_task_ids :: "PlanTaskId list"
  an_rollup :: TaskScheduleRollup

datatype TaskSchedulingErrorCode =
  Schedule_invalid_policy | Schedule_invalid_projection | Schedule_resource_exhausted

section \<open>Conflicts between tasks\<close>

definition mutates :: "PlanTask \<Rightarrow> bool" where
  "mutates task \<longleftrightarrow> list_ex (\<lambda>e. e \<noteq> Effect_read) (intended_effects task)"

definition valid_component :: "string \<Rightarrow> bool" where
  "valid_component v \<longleftrightarrow> v \<noteq> [] \<and> length v \<le> 4096 \<and> list_all (\<lambda>c. byte c \<ge> 0x20 \<and> byte c \<noteq> 0x7f) v"

fun valid_path_parts :: "string \<Rightarrow> bool" where
  "valid_path_parts v =
     (if v = [] then True
      else let part = upto_sep CHR ''/'' v in
        if part = [] \<or> part = ''.'' \<or> part = ''..'' then False
        else case after_sep CHR ''/'' v of None \<Rightarrow> True | Some rest \<Rightarrow> valid_path_parts rest)"

declare valid_path_parts.simps [simp del]

definition valid_repository_path :: "string \<Rightarrow> bool" where
  "valid_repository_path v \<longleftrightarrow>
     \<not> (v = [] \<or> hd v = CHR ''/'' \<or> last v = CHR ''/'' \<or> CHR 0x5c \<in> set v) \<and> valid_path_parts v"

definition is_ancestor :: "string \<Rightarrow> string \<Rightarrow> bool" where
  "is_ancestor ancestor descendant \<longleftrightarrow>
     length descendant > length ancestor \<and> take (length ancestor) descendant = ancestor \<and>
     descendant ! length ancestor = CHR ''/''"

definition path_overlaps :: "string \<Rightarrow> string \<Rightarrow> bool" where
  "path_overlaps left right = (if left = right then True else is_ancestor left right \<or> is_ancestor right left)"

datatype IntentRelation = Intents_disjoint | Intents_overlap | Intents_ambiguous

definition intent_relation :: "PlanResourceIntent \<Rightarrow> PlanResourceIntent \<Rightarrow> IntentRelation" where
  "intent_relation left right =
     (if intent_kind left = ''repository_path'' \<and> intent_kind right = ''repository_path'' then
        (if \<not> valid_repository_path (intent_value left) \<or> \<not> valid_repository_path (intent_value right)
         then Intents_ambiguous
         else if path_overlaps (intent_value left) (intent_value right) then Intents_overlap
         else Intents_disjoint)
      else if intent_kind left = ''repository_component'' \<and> intent_kind right = ''repository_component'' then
        (if \<not> valid_component (intent_value left) \<or> \<not> valid_component (intent_value right)
         then Intents_ambiguous
         else if intent_value left = intent_value right then Intents_overlap
         else Intents_disjoint)
      else Intents_ambiguous)"

definition task_resource_conflict :: "PlanTask \<Rightarrow> PlanTask \<Rightarrow> bool" where
  "task_resource_conflict left right =
     (if \<not> mutates left \<and> \<not> mutates right then False
      else if (mutates left \<and> resource_intents left = []) \<or> (mutates right \<and> resource_intents right = [])
      then True
      else list_ex (\<lambda>l. list_ex (\<lambda>r.
          \<not> (intent_effect l = Effect_read \<and> intent_effect r = Effect_read) \<and>
          intent_relation l r \<noteq> Intents_disjoint) (resource_intents right)) (resource_intents left))"

section \<open>The history of attempts\<close>

definition checked_add :: "'a :: len word \<Rightarrow> 'a word \<Rightarrow> 'a word option" where
  "checked_add already amount = (if amount > - 1 - already then None else Some (already + amount))"

fun append_unique :: "'a list \<Rightarrow> 'a list \<Rightarrow> 'a list" where
  "append_unique destination [] = destination"
| "append_unique destination (v # vs) =
     append_unique (if v \<in> set destination then destination else destination @ [v]) vs"

definition retryable :: "TaskExecution \<Rightarrow> TaskSchedulingPolicy \<Rightarrow> bool" where
  "retryable x policy \<longleftrightarrow>
     \<not> (te_attempts x = [] \<or> att_result (last (te_attempts x)) = None \<or>
        length (te_attempts x) \<ge> unat (maximum_attempts policy)) \<and>
     attempt_retryable (last (te_attempts x))"

definition valid_attempt :: "PlanRevision \<Rightarrow> TaskExecution \<Rightarrow> nat \<Rightarrow> Attempt \<Rightarrow> bool" where
  "valid_attempt revision x index attempt \<longleftrightarrow>
     (let descriptor = att_dispatch attempt in
      \<not> (crd_plan_id descriptor \<noteq> pr_plan_id revision \<or>
         crd_revision_id descriptor \<noteq> pr_revision_id revision \<or>
         crd_task_id descriptor \<noteq> te_task_id x \<or> unat (crd_attempt descriptor) \<noteq> index + 1 \<or>
         isl (validate_child_run_descriptor descriptor) \<or>
         (index + 1 < length (te_attempts x) \<and> \<not> attempt_retryable attempt)))"

definition valid_attempt_result :: "Attempt \<Rightarrow> bool" where
  "valid_attempt_result attempt \<longleftrightarrow>
     (case att_result attempt of
        None \<Rightarrow> True
      | Some result \<Rightarrow>
          let descriptor = att_dispatch attempt in
          \<not> (str_plan_id result \<noteq> crd_plan_id descriptor \<or>
             str_revision_id result \<noteq> crd_revision_id descriptor \<or>
             str_task_id result \<noteq> crd_task_id descriptor \<or>
             str_child_run_id result \<noteq> att_child_run_id attempt \<or>
             isl (validate_session_task_result result (crd_budget descriptor))))"

fun check_attempts ::
  "PlanRevision \<Rightarrow> TaskExecution \<Rightarrow> nat \<Rightarrow> RunId set \<Rightarrow> Attempt list \<Rightarrow> TaskSchedulingErrorCode + RunId set" where
  "check_attempts revision x index children [] = Inr children"
| "check_attempts revision x index children (a # as) =
     fail_if (att_child_run_id a \<in> children \<or> \<not> valid_attempt revision x index a) Schedule_invalid_projection
    (fail_if (\<not> valid_attempt_result a) Schedule_invalid_projection
    (check_attempts revision x (index + 1) (insert (att_child_run_id a) children) as))"

fun check_executions ::
  "PlanRevision \<Rightarrow> PlanTaskId set \<Rightarrow> RunId set \<Rightarrow> TaskExecution list \<Rightarrow> TaskSchedulingErrorCode + unit" where
  "check_executions revision ids children [] = Inr ()"
| "check_executions revision ids children (x # xs) =
     fail_if (te_task_id x \<in> ids \<or> length (te_attempts x) > 8) Schedule_invalid_projection
     (bind_result (check_attempts revision x 0 children (te_attempts x)) (\<lambda>children'.
      check_executions revision (insert (te_task_id x) ids) children' xs))"

section \<open>Readiness\<close>

text \<open>The state of a task as far as its own attempts decide it.\<close>

definition execution_state :: "TaskSchedulingPolicy \<Rightarrow> TaskExecution \<Rightarrow> TaskReadinessState" where
  "execution_state policy x =
     (if te_attempts x = [] then Task_ready
      else case att_result (last (te_attempts x)) of
          None \<Rightarrow> Task_running
        | Some result \<Rightarrow>
            if str_outcome result = Outcome_completed then Task_completed
            else if \<not> retryable x policy then Task_failed
            else Task_ready)"

fun initial_readiness ::
  "TaskSchedulingPolicy \<Rightarrow> TaskExecution list \<Rightarrow> PlanTask list
    \<Rightarrow> TaskSchedulingErrorCode + TaskReadiness list" where
  "initial_readiness policy executions [] = Inr []"
| "initial_readiness policy executions (t # ts) =
     (case find_execution (task_id t) executions of
        None \<Rightarrow> Inl Schedule_invalid_projection
      | Some x \<Rightarrow>
          bind_result (initial_readiness policy executions ts) (\<lambda>rs.
          Inr (\<lparr>tr_task_id = task_id t, tr_state = execution_state policy x, tr_blockers = [],
                 tr_next_attempt = of_nat (length (te_attempts x) + 1)\<rparr> # rs)))"

definition tasks_in_state :: "TaskReadinessState \<Rightarrow> PlanTask list \<Rightarrow> TaskReadiness list \<Rightarrow> PlanTask list" where
  "tasks_in_state st tasks rs = map fst (filter (\<lambda>(t, r). tr_state r = st) (zip tasks rs))"

definition find_readiness :: "PlanTaskId \<Rightarrow> TaskReadiness list \<Rightarrow> TaskReadiness option" where
  "find_readiness tid rs = find (\<lambda>r. tr_task_id r = tid) rs"

text \<open>One task: its dependencies that are not completed, and whether one of them never will be.\<close>

fun scan_dependencies ::
  "TaskReadiness list \<Rightarrow> PlanTaskId list \<Rightarrow> PlanTaskId list \<Rightarrow> bool
    \<Rightarrow> TaskSchedulingErrorCode + PlanTaskId list \<times> bool" where
  "scan_dependencies rs [] blockers permanently = Inr (blockers, permanently)"
| "scan_dependencies rs (d # ds) blockers permanently =
     (case find_readiness d rs of
        None \<Rightarrow> Inl Schedule_invalid_projection
      | Some dependency \<Rightarrow>
          if tr_state dependency \<noteq> Task_completed
          then scan_dependencies rs ds (blockers @ [d])
             (permanently \<or> tr_state dependency = Task_failed \<or> tr_state dependency = Task_blocked_by_dependency)
          else scan_dependencies rs ds blockers permanently)"

definition decided :: "TaskReadinessState \<Rightarrow> bool" where
  "decided st \<longleftrightarrow> st = Task_running \<or> st = Task_completed \<or> st = Task_failed"

fun readiness_pass ::
  "PlanTask list \<Rightarrow> nat list \<Rightarrow> TaskReadiness list \<Rightarrow> bool
    \<Rightarrow> TaskSchedulingErrorCode + TaskReadiness list \<times> bool" where
  "readiness_pass tasks [] rs changed = Inr (rs, changed)"
| "readiness_pass tasks (i # is) rs changed =
     (if decided (tr_state (rs ! i)) then readiness_pass tasks is rs changed
      else bind_result (scan_dependencies rs (dependency_task_ids (tasks ! i)) [] False) (\<lambda>(blockers, permanently).
        let st = (if blockers = [] then Task_ready
                  else if permanently then Task_blocked_by_dependency else Task_waiting_for_dependencies) in
        readiness_pass tasks is (rs[i := (rs ! i)\<lparr>tr_state := st, tr_blockers := blockers\<rparr>])
          (changed \<or> st \<noteq> tr_state (rs ! i))))"

text \<open>The passes stop at the first that changes nothing, or after as many as there are tasks.\<close>

fun readiness_passes ::
  "nat \<Rightarrow> PlanTask list \<Rightarrow> TaskReadiness list \<Rightarrow> TaskSchedulingErrorCode + TaskReadiness list" where
  "readiness_passes 0 tasks rs = Inr rs"
| "readiness_passes (Suc n) tasks rs =
     bind_result (readiness_pass tasks [0..<length tasks] rs False) (\<lambda>(rs', changed).
     if changed then readiness_passes n tasks rs' else Inr rs')"

section \<open>Selection\<close>

definition conflicting :: "PlanTask \<Rightarrow> PlanTask list \<Rightarrow> PlanTaskId list" where
  "conflicting task others = map task_id (filter (task_resource_conflict task) others)"

definition set_readiness ::
  "PlanTaskId \<Rightarrow> (TaskReadiness \<Rightarrow> TaskReadiness) \<Rightarrow> TaskReadiness list \<Rightarrow> TaskReadiness list" where
  "set_readiness tid f rs = modify_first (\<lambda>r. tr_task_id r = tid) f rs"

text \<open>The task is always found; its blockers are empty before the selection.\<close>

definition readiness_blockers :: "PlanTaskId \<Rightarrow> TaskReadiness list \<Rightarrow> PlanTaskId list" where
  "readiness_blockers tid rs = (case find_readiness tid rs of None \<Rightarrow> [] | Some r \<Rightarrow> tr_blockers r)"

fun select_tasks ::
  "nat \<Rightarrow> PlanTask list \<Rightarrow> PlanTask list \<Rightarrow> PlanTask list \<Rightarrow> TaskReadiness list
    \<Rightarrow> PlanTask list \<times> TaskReadiness list" where
  "select_tasks available running selected [] rs = (selected, rs)"
| "select_tasks available running selected (t # ts) rs =
     (let blockers = readiness_blockers (task_id t) rs @ conflicting t running @ conflicting t selected in
      if blockers \<noteq> [] then
        select_tasks available running selected ts
          (set_readiness (task_id t) (\<lambda>r. r\<lparr>tr_blockers := blockers, tr_state := Task_blocked_by_resource\<rparr>) rs)
      else if length selected \<ge> available then
        select_tasks available running selected ts
          (set_readiness (task_id t) (\<lambda>r. r\<lparr>tr_state := Task_waiting_for_capacity\<rparr>) rs)
      else select_tasks available running (selected @ [t]) ts rs)"

section \<open>Roll-up\<close>

definition empty_rollup :: TaskScheduleRollup where
  "empty_rollup =
     \<lparr>ro_state = Rollup_in_progress, ro_completed_tasks = 0, ro_failed_tasks = 0, ro_blocked_tasks = 0,
      ro_consumption = \<lparr>inference_count = 0, tool_invocation_count = 0,
        consumed_usage = \<lparr>input_tokens = 0, output_tokens = 0, cached_input_tokens = 0, reasoning_tokens = 0\<rparr>\<rparr>,
      ro_evidence_ids = [], ro_artifact_ids = []\<rparr>"

definition add_consumption :: "ChildRunConsumption \<Rightarrow> ChildRunConsumption \<Rightarrow> ChildRunConsumption option" where
  "add_consumption c r =
     Option.bind (checked_add (inference_count c) (inference_count r)) (\<lambda>n.
     Option.bind (checked_add (tool_invocation_count c) (tool_invocation_count r)) (\<lambda>k.
     Option.bind (checked_add (input_tokens (consumed_usage c)) (input_tokens (consumed_usage r))) (\<lambda>i.
     Option.bind (checked_add (output_tokens (consumed_usage c)) (output_tokens (consumed_usage r))) (\<lambda>out.
     Option.bind (checked_add (cached_input_tokens (consumed_usage c)) (cached_input_tokens (consumed_usage r))) (\<lambda>ca.
     Option.bind (checked_add (reasoning_tokens (consumed_usage c)) (reasoning_tokens (consumed_usage r))) (\<lambda>re.
     Some \<lparr>inference_count = n, tool_invocation_count = k, consumed_usage =
       \<lparr>input_tokens = i, output_tokens = out, cached_input_tokens = ca, reasoning_tokens = re\<rparr>\<rparr>))))))"

fun rollup_attempts :: "TaskScheduleRollup \<Rightarrow> Attempt list \<Rightarrow> TaskSchedulingErrorCode + TaskScheduleRollup" where
  "rollup_attempts ro [] = Inr ro"
| "rollup_attempts ro (a # as) =
     (case att_result a of
        None \<Rightarrow> rollup_attempts ro as
      | Some result \<Rightarrow>
          (case add_consumption (ro_consumption ro) (str_consumption result) of
             None \<Rightarrow> Inl Schedule_resource_exhausted
           | Some c \<Rightarrow> rollup_attempts
               (ro\<lparr>ro_consumption := c,
                   ro_evidence_ids := append_unique (ro_evidence_ids ro) (str_evidence_ids result),
                   ro_artifact_ids := append_unique (ro_artifact_ids ro) (str_artifact_ids result)\<rparr>) as))"

fun rollup_executions ::
  "TaskSchedulingPolicy \<Rightarrow> TaskScheduleRollup \<Rightarrow> TaskExecution list
    \<Rightarrow> TaskSchedulingErrorCode + TaskScheduleRollup" where
  "rollup_executions policy ro [] = Inr ro"
| "rollup_executions policy ro (x # xs) =
     bind_result (rollup_attempts
        (if te_attempts x \<noteq> [] \<and>
            map_option str_outcome (att_result (last (te_attempts x))) = Some Outcome_completed
         then ro\<lparr>ro_completed_tasks := ro_completed_tasks ro + 1\<rparr>
         else if te_attempts x \<noteq> [] \<and> att_result (last (te_attempts x)) \<noteq> None \<and> \<not> retryable x policy
         then ro\<lparr>ro_failed_tasks := ro_failed_tasks ro + 1\<rparr>
         else ro) (te_attempts x))
       (\<lambda>ro'. rollup_executions policy ro' xs)"

definition unfinished :: "TaskReadinessState \<Rightarrow> bool" where
  "unfinished st \<longleftrightarrow> st = Task_ready \<or> st = Task_running \<or> st = Task_waiting_for_dependencies \<or>
     st = Task_waiting_for_capacity \<or> st = Task_blocked_by_resource"

definition rollup_state :: "nat \<Rightarrow> TaskReadiness list \<Rightarrow> TaskScheduleRollup \<Rightarrow> TaskRollupState" where
  "rollup_state n rs ro =
     (if ro_completed_tasks ro = n then Rollup_completed
      else if ro_failed_tasks ro \<noteq> 0 \<and> \<not> list_ex (\<lambda>r. unfinished (tr_state r)) rs then Rollup_failed
      else ro_state ro)"

section \<open>The analysis\<close>

definition analyze_task_schedule ::
  "ProjectedPlanRevision \<Rightarrow> TaskSchedulingPolicy \<Rightarrow> TaskSchedulingErrorCode + TaskScheduleAnalysis" where
  "analyze_task_schedule revision policy =
     (let tasks = pr_tasks (ppr_revision revision); executions = ppr_task_executions revision in
      fail_if (maximum_concurrency policy = 0 \<or> maximum_concurrency policy > 16 \<or>
               maximum_attempts policy = 0 \<or> maximum_attempts policy > 8) Schedule_invalid_policy
     (fail_if (length tasks \<noteq> length executions) Schedule_invalid_projection
     (bind_result (check_executions (ppr_revision revision) {} {} executions) (\<lambda>_.
      bind_result (initial_readiness policy executions tasks) (\<lambda>initial.
      bind_result (readiness_passes (length tasks) tasks initial) (\<lambda>rs.
      let running = tasks_in_state Task_running tasks initial;
          eligible = tasks_in_state Task_ready tasks rs;
          available = (if maximum_concurrency policy > length running
                       then maximum_concurrency policy - length running else 0);
          (selected, rs') = select_tasks available running [] eligible rs in
      bind_result (rollup_executions policy empty_rollup executions) (\<lambda>ro.
      let ro' = ro\<lparr>ro_blocked_tasks :=
                     length (filter (\<lambda>r. tr_state r = Task_blocked_by_dependency) rs')\<rparr> in
      Inr \<lparr>an_tasks = rs', an_dispatchable_task_ids = map task_id selected,
           an_rollup = ro'\<lparr>ro_state := rollup_state (length tasks) rs' ro'\<rparr>\<rparr>)))))))"

end
