(* ===== verification/Readiness.thy ===== *)
theory Readiness
  imports TaskScheduler
begin

text \<open>
  The readiness passes of the scheduler compute a fixed point.  The passes over the vector of
  readiness records are simulated by passes over a map of states, and those are shown to reach, within
  as many passes as there are tasks, the states that the inductive predicate \<open>doomed\<close> describes.
\<close>

section \<open>The passes as a fixed point\<close>

text \<open>The state of every task, by identity, and what one visit of a task does to it.\<close>

type_synonym task_states = "PlanTaskId \<rightharpoonup> TaskReadinessState"

definition states_of :: "TaskReadiness list \<Rightarrow> task_states" where
  "states_of rs d = map_option tr_state (find_readiness d rs)"

definition lost :: "TaskReadinessState option \<Rightarrow> bool" where
  "lost st \<longleftrightarrow> st = Some Task_failed \<or> st = Some Task_blocked_by_dependency"

definition recompute :: "task_states \<Rightarrow> PlanTaskId list \<Rightarrow> TaskReadinessState" where
  "recompute \<sigma> ds =
     (if \<forall>d \<in> set ds. \<sigma> d = Some Task_completed then Task_ready
      else if \<exists>d \<in> set ds. lost (\<sigma> d) then Task_blocked_by_dependency
      else Task_waiting_for_dependencies)"

definition pending :: "task_states \<Rightarrow> PlanTask \<Rightarrow> bool" where
  "pending \<sigma> t \<longleftrightarrow> \<not> (\<exists>st. \<sigma> (task_id t) = Some st \<and> decided st)"

definition pass_step :: "PlanTask \<Rightarrow> task_states \<Rightarrow> task_states" where
  "pass_step t \<sigma> = (if pending \<sigma> t then \<sigma>(task_id t \<mapsto> recompute \<sigma> (dependency_task_ids t)) else \<sigma>)"

fun pass_states :: "PlanTask list \<Rightarrow> task_states \<Rightarrow> bool \<Rightarrow> task_states \<times> bool" where
  "pass_states [] \<sigma> changed = (\<sigma>, changed)"
| "pass_states (t # ts) \<sigma> changed = pass_states ts (pass_step t \<sigma>) (changed \<or> pass_step t \<sigma> \<noteq> \<sigma>)"

fun passes_states :: "nat \<Rightarrow> PlanTask list \<Rightarrow> task_states \<Rightarrow> task_states" where
  "passes_states 0 tasks \<sigma> = \<sigma>"
| "passes_states (Suc n) tasks \<sigma> =
     (case pass_states tasks \<sigma> False of (\<sigma>', changed) \<Rightarrow>
       if changed then passes_states n tasks \<sigma>' else \<sigma>')"

lemma scan_dependencies_eq:
  "scan_dependencies rs ds bs p = Inr (bs', p') \<Longrightarrow>
    bs' = bs @ filter (\<lambda>d. states_of rs d \<noteq> Some Task_completed) ds \<and>
    p' = (p \<or> (\<exists>d \<in> set ds. lost (states_of rs d)))"
proof (induction ds arbitrary: bs p)
  case (Cons d ds)
  then obtain r where r: "find_readiness d rs = Some r" by (auto split: option.split_asm)
  then have st: "states_of rs d = Some (tr_state r)" by (simp add: states_of_def)
  show ?case
  proof (cases "tr_state r = Task_completed")
    case True
    with Cons.prems r have "scan_dependencies rs ds bs p = Inr (bs', p')" by simp
    from Cons.IH [OF this] True st show ?thesis by (simp add: lost_def)
  next
    case False
    with Cons.prems r have "scan_dependencies rs ds (bs @ [d])
        (p \<or> tr_state r = Task_failed \<or> tr_state r = Task_blocked_by_dependency) = Inr (bs', p')" by simp
    from Cons.IH [OF this] False st show ?thesis by (simp add: lost_def [of "Some (tr_state r)"])
  qed
qed simp

definition aligned :: "PlanTask list \<Rightarrow> TaskReadiness list \<Rightarrow> bool" where
  "aligned tasks rs \<longleftrightarrow> map tr_task_id rs = map task_id tasks \<and> distinct (map task_id tasks)"

lemma aligned_nth:
  assumes "aligned tasks rs" and "i < length tasks"
  shows "i < length rs" "tr_task_id (rs ! i) = task_id (tasks ! i)"
    "find_readiness (task_id (tasks ! i)) rs = Some (rs ! i)"
proof -
  from assms show len: "i < length rs" unfolding aligned_def by (metis length_map)
  from assms show id: "tr_task_id (rs ! i) = task_id (tasks ! i)"
    unfolding aligned_def by (metis len nth_map)
  from assms(1) have "distinct (map tr_task_id rs)" by (simp add: aligned_def)
  from find_distinct_key [OF this, of "rs ! i"] len id
  show "find_readiness (task_id (tasks ! i)) rs = Some (rs ! i)" by (simp add: find_readiness_def)
qed

lemma find_list_update_other:
  "i < length xs \<Longrightarrow> key (xs ! i) \<noteq> k \<Longrightarrow> key y \<noteq> k \<Longrightarrow>
    find (\<lambda>x. key x = k) (xs[i := y]) = find (\<lambda>x. key x = k) xs"
  by (induction xs arbitrary: i) (auto split: nat.split)

lemma aligned_update:
  assumes "aligned tasks rs" and "i < length tasks" and "tr_task_id r = task_id (tasks ! i)"
  shows "aligned tasks (rs[i := r])" "states_of (rs[i := r]) = (states_of rs)(task_id (tasks ! i) \<mapsto> tr_state r)"
proof -
  note i = aligned_nth [OF assms(1,2)]
  show al: "aligned tasks (rs[i := r])"
    using assms(1,3) i by (simp add: aligned_def map_update) (metis list_update_id nth_map)
  show "states_of (rs[i := r]) = (states_of rs)(task_id (tasks ! i) \<mapsto> tr_state r)"
  proof
    fix d
    show "states_of (rs[i := r]) d = ((states_of rs)(task_id (tasks ! i) \<mapsto> tr_state r)) d"
    proof (cases "d = task_id (tasks ! i)")
      case True
      with aligned_nth(3) [OF al assms(2)] i(1) show ?thesis by (simp add: states_of_def)
    next
      case False
      have "find_readiness d (rs[i := r]) = find_readiness d rs"
        unfolding find_readiness_def using False assms(3) i(1,2) by (intro find_list_update_other) auto
      with False show ?thesis by (simp add: states_of_def)
    qed
  qed
qed

lemma readiness_pass_states:
  assumes "aligned tasks rs" and "set is \<subseteq> {..<length tasks}"
    and "readiness_pass tasks is rs ch = Inr (rs', ch')"
  shows "aligned tasks rs' \<and> (states_of rs', ch') = pass_states (map ((!) tasks) is) (states_of rs) ch"
  using assms
proof (induction "is" arbitrary: rs ch)
  case (Cons i "is")
  let ?t = "tasks ! i" and ?r = "rs ! i"
  from Cons.prems have i: "i < length tasks" by simp
  have st: "states_of rs (task_id ?t) = Some (tr_state ?r)"
    using aligned_nth(3) [OF Cons.prems(1) i] by (simp add: states_of_def)
  show ?case
  proof (cases "decided (tr_state ?r)")
    case True
    with st have "pass_step ?t (states_of rs) = states_of rs" by (simp add: pass_step_def pending_def)
    with Cons True show ?thesis by simp
  next
    case False
    with Cons.prems(3) obtain bs p where sc: "scan_dependencies rs (dependency_task_ids ?t) [] False = Inr (bs, p)"
      by (auto simp: False)
    let ?st = "if bs = [] then Task_ready else if p then Task_blocked_by_dependency else Task_waiting_for_dependencies"
    have eq: "?st = recompute (states_of rs) (dependency_task_ids ?t)"
      using scan_dependencies_eq [OF sc] by (auto simp: recompute_def filter_empty_conv)
    let ?rs = "rs[i := ?r\<lparr>tr_state := ?st, tr_blockers := bs\<rparr>]"
    have al: "aligned tasks ?rs" "states_of ?rs = (states_of rs)(task_id ?t \<mapsto> ?st)"
      using aligned_update [OF Cons.prems(1) i, of "?r\<lparr>tr_state := ?st, tr_blockers := bs\<rparr>"]
        aligned_nth [OF Cons.prems(1) i] by simp_all
    have ps: "pass_step ?t (states_of rs) = states_of ?rs"
      using False st by (simp add: pass_step_def pending_def al(2) flip: eq)
    have ch: "pass_step ?t (states_of rs) \<noteq> states_of rs \<longleftrightarrow> ?st \<noteq> tr_state ?r"
      unfolding ps al(2) fun_upd_idem_iff st by auto
    have "readiness_pass tasks is ?rs (ch \<or> ?st \<noteq> tr_state ?r) = Inr (rs', ch')"
      using Cons.prems(3) False sc by (simp add: Let_def)
    from Cons.IH [OF al(1) _ this] Cons.prems(2) show ?thesis by (simp add: ps ch [unfolded ps])
  qed
qed simp

lemma readiness_passes_states:
  assumes "aligned tasks rs" and "readiness_passes n tasks rs = Inr rs'"
  shows "aligned tasks rs' \<and> states_of rs' = passes_states n tasks (states_of rs)"
  using assms
proof (induction n arbitrary: rs)
  case (Suc n)
  from Suc.prems(2) obtain rs1 ch where p: "readiness_pass tasks [0..<length tasks] rs False = Inr (rs1, ch)"
    and r: "(if ch then readiness_passes n tasks rs1 else Inr rs1) = Inr rs'"
    by auto
  have "map ((!) tasks) [0..<length tasks] = tasks" by (simp add: map_nth)
  with readiness_pass_states [OF Suc.prems(1) _ p]
  have al: "aligned tasks rs1" and st: "pass_states tasks (states_of rs) False = (states_of rs1, ch)"
    by (auto simp: subset_iff)
  from r al Suc.IH [OF al] show ?case by (auto simp: st split: if_split_asm)
qed simp

text \<open>A task is doomed when it waits, directly or through waiting tasks, for one that has failed.\<close>

inductive doomed :: "PlanTask list \<Rightarrow> task_states \<Rightarrow> PlanTaskId \<Rightarrow> bool" for tasks \<sigma> where
  by_failure: "t \<in> set tasks \<Longrightarrow> pending \<sigma> t \<Longrightarrow> d \<in> set (dependency_task_ids t) \<Longrightarrow>
    \<sigma> d = Some Task_failed \<Longrightarrow> doomed tasks \<sigma> (task_id t)"
| by_doomed: "t \<in> set tasks \<Longrightarrow> pending \<sigma> t \<Longrightarrow> d \<in> set (dependency_task_ids t) \<Longrightarrow>
    doomed tasks \<sigma> d \<Longrightarrow> doomed tasks \<sigma> (task_id t)"

definition closed_tasks :: "PlanTask list \<Rightarrow> bool" where
  "closed_tasks tasks \<longleftrightarrow> distinct (map task_id tasks) \<and>
     (\<forall>t \<in> set tasks. set (dependency_task_ids t) \<subseteq> task_id ` set tasks)"

text \<open>
  What the passes keep, relative to the states \<open>\<sigma>\<close> they start from: decided tasks stay as they are,
  and a blocked task is doomed and still has a lost dependency.
\<close>

definition state_inv :: "PlanTask list \<Rightarrow> task_states \<Rightarrow> task_states \<Rightarrow> PlanTask \<Rightarrow> bool" where
  "state_inv tasks \<sigma> \<tau> t \<longleftrightarrow>
     (pending \<sigma> t \<longrightarrow>
        \<tau> (task_id t) \<in> {Some Task_ready, Some Task_waiting_for_dependencies, Some Task_blocked_by_dependency}) \<and>
     (pending \<sigma> t \<and> \<tau> (task_id t) = Some Task_blocked_by_dependency \<longrightarrow>
        doomed tasks \<sigma> (task_id t) \<and> (\<exists>d \<in> set (dependency_task_ids t). lost (\<tau> d))) \<and>
     (\<not> pending \<sigma> t \<longrightarrow> \<tau> (task_id t) = \<sigma> (task_id t))"

definition passes_inv :: "PlanTask list \<Rightarrow> task_states \<Rightarrow> task_states \<Rightarrow> bool" where
  "passes_inv tasks \<sigma> \<tau> \<longleftrightarrow> (\<forall>t \<in> set tasks. state_inv tasks \<sigma> \<tau> t)"

lemma passes_invD:
  assumes "passes_inv tasks \<sigma> \<tau>" and "t \<in> set tasks"
  shows "pending \<sigma> t \<Longrightarrow>
      \<tau> (task_id t) \<in> {Some Task_ready, Some Task_waiting_for_dependencies, Some Task_blocked_by_dependency}"
    and "pending \<sigma> t \<Longrightarrow> \<tau> (task_id t) = Some Task_blocked_by_dependency \<Longrightarrow>
      doomed tasks \<sigma> (task_id t) \<and> (\<exists>d \<in> set (dependency_task_ids t). lost (\<tau> d))"
    and "\<not> pending \<sigma> t \<Longrightarrow> \<tau> (task_id t) = \<sigma> (task_id t)"
  using assms by (auto simp: passes_inv_def state_inv_def)

definition blocked_set :: "PlanTask list \<Rightarrow> task_states \<Rightarrow> PlanTask set" where
  "blocked_set tasks \<tau> = {t \<in> set tasks. \<tau> (task_id t) = Some Task_blocked_by_dependency}"

definition settled :: "task_states \<Rightarrow> task_states \<Rightarrow> PlanTask \<Rightarrow> bool" where
  "settled \<sigma> \<tau> t \<longleftrightarrow> (pending \<sigma> t \<longrightarrow>
     (\<tau> (task_id t) = Some Task_ready \<longleftrightarrow> (\<forall>d \<in> set (dependency_task_ids t). \<sigma> d = Some Task_completed)) \<and>
     ((\<exists>d \<in> set (dependency_task_ids t). \<sigma> d = Some Task_failed) \<longrightarrow>
        \<tau> (task_id t) = Some Task_blocked_by_dependency))"

lemma passes_inv_pending:
  assumes "passes_inv tasks \<sigma> \<tau>" and "t \<in> set tasks"
  shows "pending \<tau> t = pending \<sigma> t"
proof (cases "pending \<sigma> t")
  case True
  with passes_invD(1) [OF assms True] show ?thesis by (auto simp: pending_def decided_def)
next
  case False
  with passes_invD(3) [OF assms False] show ?thesis by (simp add: pending_def)
qed

lemma passes_inv_decided:
  assumes "passes_inv tasks \<sigma> \<tau>" and "t \<in> set tasks" and "decided st"
  shows "\<tau> (task_id t) = Some st \<longleftrightarrow> \<sigma> (task_id t) = Some st"
proof (cases "pending \<sigma> t")
  case True
  then have "\<sigma> (task_id t) \<noteq> Some st" using assms(3) by (auto simp: pending_def)
  moreover have "\<tau> (task_id t) \<noteq> Some st"
    using passes_invD(1) [OF assms(1,2) True] assms(3) by (auto simp: decided_def)
  ultimately show ?thesis by simp
qed (simp add: passes_invD(3) [OF assms(1,2)])

lemma passes_inv_lost:
  assumes inv: "passes_inv tasks \<sigma> \<tau>" and cl: "closed_tasks tasks" and t: "t \<in> set tasks" "pending \<sigma> t"
    and d: "d \<in> set (dependency_task_ids t)" "lost (\<tau> d)"
  shows "doomed tasks \<sigma> (task_id t)"
proof -
  from cl t d obtain u where u: "u \<in> set tasks" "d = task_id u" by (auto simp: closed_tasks_def)
  show ?thesis
  proof (cases "\<tau> d = Some Task_failed")
    case True
    with passes_inv_decided [OF inv u(1), of Task_failed] u have "\<sigma> d = Some Task_failed"
      by (simp add: decided_def)
    with t d show ?thesis by (intro by_failure)
  next
    case False
    with d have b: "\<tau> (task_id u) = Some Task_blocked_by_dependency" using u by (simp add: lost_def)
    then have "pending \<tau> u" by (simp add: pending_def decided_def)
    then have "pending \<sigma> u" using passes_inv_pending [OF inv u(1)] by simp
    from passes_invD(2) [OF inv u(1) this b] u have "doomed tasks \<sigma> d" by simp
    with t d show ?thesis by (intro by_doomed)
  qed
qed

lemma pass_step_other: "task_id t \<noteq> d \<Longrightarrow> pass_step t \<tau> d = \<tau> d"
  by (simp add: pass_step_def)

lemma recompute_lost: "d \<in> set ds \<Longrightarrow> lost (\<tau> d) \<Longrightarrow> recompute \<tau> ds = Task_blocked_by_dependency"
proof -
  assume d: "d \<in> set ds" "lost (\<tau> d)"
  from d(2) have "\<tau> d \<noteq> Some Task_completed" by (auto simp: lost_def)
  with d(1) have "\<not> (\<forall>d \<in> set ds. \<tau> d = Some Task_completed)" by blast
  with d show ?thesis by (auto simp: recompute_def)
qed

lemma recompute_cases: "recompute \<tau> ds \<in> {Task_ready, Task_waiting_for_dependencies, Task_blocked_by_dependency}"
  by (simp add: recompute_def)

lemma pass_step_lost:
  assumes inv: "passes_inv tasks \<sigma> \<tau>" and t: "t \<in> set tasks" and "lost (\<tau> d)"
  shows "lost (pass_step t \<tau> d)"
proof (cases "task_id t = d \<and> pending \<tau> t")
  case True
  with assms(3) have b: "\<tau> (task_id t) = Some Task_blocked_by_dependency"
    by (auto simp: lost_def pending_def decided_def)
  moreover have "pending \<sigma> t" using True passes_inv_pending [OF inv t] by simp
  ultimately obtain d' where "d' \<in> set (dependency_task_ids t)" "lost (\<tau> d')"
    using passes_invD(2) [OF inv t] by blast
  then have "recompute \<tau> (dependency_task_ids t) = Task_blocked_by_dependency" by (rule recompute_lost)
  with True show ?thesis by (auto simp: pass_step_def lost_def)
qed (use assms(3) in \<open>auto simp: pass_step_def\<close>)

lemma pass_step_inv:
  assumes inv: "passes_inv tasks \<sigma> \<tau>" and cl: "closed_tasks tasks" and t: "t \<in> set tasks"
  shows "passes_inv tasks \<sigma> (pass_step t \<tau>)"
  unfolding passes_inv_def
proof
  fix u assume u: "u \<in> set tasks"
  show "state_inv tasks \<sigma> (pass_step t \<tau>) u"
  proof (cases "u = t \<and> pending \<tau> t")
    case True
    then have p: "pending \<sigma> t" using passes_inv_pending [OF inv t] by simp
    have st: "pass_step t \<tau> (task_id t) = Some (recompute \<tau> (dependency_task_ids t))"
      using True by (simp add: pass_step_def)
    have "doomed tasks \<sigma> (task_id t) \<and> (\<exists>d \<in> set (dependency_task_ids t). lost (pass_step t \<tau> d))"
      if "recompute \<tau> (dependency_task_ids t) = Task_blocked_by_dependency"
    proof -
      from that obtain d where d: "d \<in> set (dependency_task_ids t)" "lost (\<tau> d)"
        by (auto simp: recompute_def split: if_split_asm)
      with passes_inv_lost [OF inv cl t p d] pass_step_lost [OF inv t d(2)] show ?thesis by blast
    qed
    with True p st recompute_cases [of \<tau> "dependency_task_ids t"] show ?thesis by (auto simp: state_inv_def)
  next
    case False
    have "task_id u = task_id t \<longleftrightarrow> u = t"
      using cl t u by (auto simp: closed_tasks_def distinct_map dest: inj_onD)
    with False have eq: "pass_step t \<tau> (task_id u) = \<tau> (task_id u)" by (auto simp: pass_step_def)
    from passes_invD [OF inv u] pass_step_lost [OF inv t] show ?thesis
      unfolding state_inv_def eq by blast
  qed
qed

lemma pass_step_mono:
  assumes inv: "passes_inv tasks \<sigma> \<tau>" and t: "t \<in> set tasks"
  shows "blocked_set tasks \<tau> \<subseteq> blocked_set tasks (pass_step t \<tau>)"
proof
  fix u assume u: "u \<in> blocked_set tasks \<tau>"
  then have "lost (\<tau> (task_id u))" by (simp add: blocked_set_def lost_def)
  from pass_step_lost [OF inv t this] have "lost (pass_step t \<tau> (task_id u))" .
  moreover have "pass_step t \<tau> (task_id u) \<noteq> Some Task_failed"
    using u recompute_cases [of \<tau> "dependency_task_ids t"] by (auto simp: blocked_set_def pass_step_def)
  ultimately show "u \<in> blocked_set tasks (pass_step t \<tau>)" using u by (simp add: blocked_set_def lost_def)
qed

lemma all_completed_eq:
  assumes inv: "passes_inv tasks \<sigma> \<tau>" and cl: "closed_tasks tasks" and t: "t \<in> set tasks" and st: "decided st"
    and d: "d \<in> set (dependency_task_ids t)"
  shows "\<tau> d = Some st \<longleftrightarrow> \<sigma> d = Some st"
proof -
  from cl t d obtain u where "u \<in> set tasks" "d = task_id u" by (auto simp: closed_tasks_def)
  with passes_inv_decided [OF inv _ st] show ?thesis by simp
qed

lemma recompute_ready:
  assumes "passes_inv tasks \<sigma> \<tau>" and "closed_tasks tasks" and "t \<in> set tasks"
  shows "recompute \<tau> (dependency_task_ids t) = Task_ready \<longleftrightarrow>
    (\<forall>d \<in> set (dependency_task_ids t). \<sigma> d = Some Task_completed)"
  using all_completed_eq [OF assms, of Task_completed] by (simp add: recompute_def decided_def)

lemma pass_step_settled:
  assumes inv: "passes_inv tasks \<sigma> \<tau>" and cl: "closed_tasks tasks" and t: "t \<in> set tasks"
  shows "settled \<sigma> (pass_step t \<tau>) t"
proof (cases "pending \<sigma> t")
  case True
  then have st: "pass_step t \<tau> (task_id t) = Some (recompute \<tau> (dependency_task_ids t))"
    using passes_inv_pending [OF inv t] by (simp add: pass_step_def)
  have "recompute \<tau> (dependency_task_ids t) = Task_blocked_by_dependency"
    if "d \<in> set (dependency_task_ids t)" "\<sigma> d = Some Task_failed" for d
    using that all_completed_eq [OF inv cl t, of Task_failed d]
    by (intro recompute_lost [of d]) (simp_all add: decided_def lost_def)
  with st recompute_ready [OF assms] show ?thesis by (auto simp: settled_def)
qed (simp add: settled_def)

lemma pass_step_settled_other:
  assumes inv: "passes_inv tasks \<sigma> \<tau>" and cl: "closed_tasks tasks" and "t \<in> set tasks" "u \<in> set tasks"
    and "settled \<sigma> \<tau> u"
  shows "settled \<sigma> (pass_step t \<tau>) u"
proof (cases "task_id u = task_id t")
  case True
  with cl assms(3,4) have "u = t" by (auto simp: closed_tasks_def distinct_map dest: inj_onD)
  with pass_step_settled [OF inv cl assms(3)] show ?thesis by simp
qed (use assms(5) in \<open>simp add: settled_def pass_step_other\<close>)

lemma pass_step_grows:
  assumes inv: "passes_inv tasks \<sigma> \<tau>" and cl: "closed_tasks tasks" and t: "t \<in> set tasks"
    and settled: "settled \<sigma> \<tau> t" and changed: "pass_step t \<tau> \<noteq> \<tau>"
  shows "blocked_set tasks \<tau> \<subset> blocked_set tasks (pass_step t \<tau>)"
proof -
  from changed have p: "pending \<tau> t" by (auto simp: pass_step_def)
  then have p': "pending \<sigma> t" using passes_inv_pending [OF inv t] by simp
  let ?st = "recompute \<tau> (dependency_task_ids t)"
  have ne: "\<tau> (task_id t) \<noteq> Some ?st"
    using changed p by (simp add: pass_step_def fun_upd_idem_iff)
  have "\<tau> (task_id t) \<noteq> Some Task_blocked_by_dependency"
  proof
    assume b: "\<tau> (task_id t) = Some Task_blocked_by_dependency"
    from passes_invD(2) [OF inv t p' b] have "?st = Task_blocked_by_dependency" by (auto dest: recompute_lost)
    with ne b show False by simp
  qed
  moreover have "?st = Task_ready \<longleftrightarrow> \<tau> (task_id t) = Some Task_ready"
    using settled p' recompute_ready [OF inv cl t] by (simp add: settled_def)
  ultimately have "?st = Task_blocked_by_dependency"
    using ne passes_invD(1) [OF inv t p'] recompute_cases [of \<tau> "dependency_task_ids t"] by auto
  then have "t \<in> blocked_set tasks (pass_step t \<tau>) - blocked_set tasks \<tau>"
    using t p \<open>\<tau> (task_id t) \<noteq> Some Task_blocked_by_dependency\<close>
    by (simp add: blocked_set_def pass_step_def)
  with pass_step_mono [OF inv t] show ?thesis by blast
qed

lemma pass_states_inv:
  assumes "passes_inv tasks \<sigma> \<tau>" and "closed_tasks tasks" and "set ts \<subseteq> set tasks"
    and "pass_states ts \<tau> ch = (\<tau>', ch')"
  shows "passes_inv tasks \<sigma> \<tau>' \<and> blocked_set tasks \<tau> \<subseteq> blocked_set tasks \<tau>' \<and>
    (\<forall>u \<in> set tasks. u \<in> set ts \<or> settled \<sigma> \<tau> u \<longrightarrow> settled \<sigma> \<tau>' u)"
  using assms
proof (induction ts arbitrary: \<tau> ch)
  case (Cons t ts)
  then have t: "t \<in> set tasks" by simp
  note inv = pass_step_inv [OF Cons.prems(1,2) t]
  from Cons.prems have p: "pass_states ts (pass_step t \<tau>) (ch \<or> pass_step t \<tau> \<noteq> \<tau>) = (\<tau>', ch')" by simp
  from Cons.IH [OF inv Cons.prems(2) _ p] Cons.prems(3) pass_step_mono [OF Cons.prems(1) t]
    pass_step_settled [OF Cons.prems(1,2) t] pass_step_settled_other [OF Cons.prems(1,2) t]
  show ?case by auto
qed simp

lemma pass_states_grows:
  assumes "passes_inv tasks \<sigma> \<tau>" and "closed_tasks tasks" and "set ts \<subseteq> set tasks"
    and "\<forall>u \<in> set tasks. settled \<sigma> \<tau> u" and "pass_states ts \<tau> ch = (\<tau>', True)" and "\<not> ch"
  shows "blocked_set tasks \<tau> \<subset> blocked_set tasks \<tau>'"
  using assms
proof (induction ts arbitrary: \<tau>)
  case (Cons t ts)
  then have t: "t \<in> set tasks" by simp
  note inv = pass_step_inv [OF Cons.prems(1,2) t]
  have set: "\<forall>u \<in> set tasks. settled \<sigma> (pass_step t \<tau>) u"
    using Cons.prems(4) pass_step_settled_other [OF Cons.prems(1,2) t] by blast
  show ?case
  proof (cases "pass_step t \<tau> = \<tau>")
    case True
    with Cons show ?thesis by simp
  next
    case False
    from Cons.prems(3) have "set ts \<subseteq> set tasks" by simp
    from pass_states_inv [OF inv Cons.prems(2) this] Cons.prems(5)
    have "blocked_set tasks (pass_step t \<tau>) \<subseteq> blocked_set tasks \<tau>'" by auto
    moreover have "blocked_set tasks \<tau> \<subset> blocked_set tasks (pass_step t \<tau>)"
      using Cons.prems(4) t by (intro pass_step_grows [OF Cons.prems(1,2) t _ False]) blast
    ultimately show ?thesis by blast
  qed
qed simp

lemma pass_states_unchanged:
  "pass_states ts \<tau> ch = (\<tau>', False) \<Longrightarrow> \<not> ch \<and> \<tau>' = \<tau> \<and> (\<forall>t \<in> set ts. pass_step t \<tau> = \<tau>)"
  by (induction ts arbitrary: \<tau> ch) fastforce+

lemma doomed_has_failure:
  assumes "doomed tasks \<sigma> d" and "closed_tasks tasks"
  shows "\<exists>t \<in> set tasks. \<sigma> (task_id t) = Some Task_failed"
  using assms by induction (auto simp: closed_tasks_def)

text \<open>
  The passes reach a fixed point: each pass after the first that changes anything blocks another task,
  and they cannot all be blocked, since what blocks them has failed.
\<close>

definition stable :: "PlanTask list \<Rightarrow> task_states \<Rightarrow> bool" where
  "stable tasks \<tau> \<longleftrightarrow> (\<forall>t \<in> set tasks. pass_step t \<tau> = \<tau>)"

lemma all_blocked_stable:
  assumes inv: "passes_inv tasks \<sigma> \<tau>" and cl: "closed_tasks tasks"
    and all: "length tasks \<le> card (blocked_set tasks \<tau>)"
  shows "tasks = []"
proof (rule ccontr)
  assume "tasks \<noteq> []"
  have "card (set tasks) = length tasks"
    using cl by (auto simp: closed_tasks_def distinct_map intro: distinct_card)
  with all have eq: "blocked_set tasks \<tau> = set tasks"
    by (intro card_seteq) (auto simp: blocked_set_def)
  have b: "pending \<sigma> t \<and> \<tau> (task_id t) = Some Task_blocked_by_dependency" if "t \<in> set tasks" for t
  proof -
    from that eq have "t \<in> blocked_set tasks \<tau>" by simp
    then have st: "\<tau> (task_id t) = Some Task_blocked_by_dependency" by (simp add: blocked_set_def)
    then have "pending \<tau> t" by (simp add: pending_def decided_def)
    with st passes_inv_pending [OF inv that] show ?thesis by simp
  qed
  from \<open>tasks \<noteq> []\<close> obtain t where "t \<in> set tasks" by (cases tasks) auto
  with b passes_invD(2) [OF inv this] have "doomed tasks \<sigma> (task_id t)" by blast
  from doomed_has_failure [OF this cl] obtain u where "u \<in> set tasks" "\<sigma> (task_id u) = Some Task_failed" by blast
  with b [of u] show False by (auto simp: pending_def decided_def)
qed

lemma passes_reach_stable:
  assumes "passes_inv tasks \<sigma> \<tau>" and "closed_tasks tasks" and "\<forall>u \<in> set tasks. settled \<sigma> \<tau> u"
    and "stable tasks \<tau> \<or> length tasks \<le> card (blocked_set tasks \<tau>) + n"
  shows "passes_inv tasks \<sigma> (passes_states n tasks \<tau>) \<and> stable tasks (passes_states n tasks \<tau>) \<and>
    (\<forall>u \<in> set tasks. settled \<sigma> (passes_states n tasks \<tau>) u)"
  using assms
proof (induction n arbitrary: \<tau>)
  case 0
  then show ?case using all_blocked_stable [OF 0(1,2)] by (auto simp: stable_def)
next
  case (Suc n)
  obtain \<tau>' ch where p: "pass_states tasks \<tau> False = (\<tau>', ch)" by fastforce
  note inv = pass_states_inv [OF Suc.prems(1,2) order.refl p]
  show ?case
  proof (cases ch)
    case False
    with p pass_states_unchanged [of tasks \<tau> False \<tau>'] Suc.prems show ?thesis
      by (simp add: stable_def)
  next
    case True
    have grow: "blocked_set tasks \<tau> \<subset> blocked_set tasks \<tau>'"
      using p True pass_states_grows [OF Suc.prems(1,2) order.refl Suc.prems(3), of False] by simp
    then have "card (blocked_set tasks \<tau>) < card (blocked_set tasks \<tau>')"
      by (intro psubset_card_mono) (auto simp: blocked_set_def)
    moreover have "\<not> stable tasks \<tau>"
    proof
      assume "stable tasks \<tau>"
      then have "set ts \<subseteq> set tasks \<Longrightarrow> pass_states ts \<tau> False = (\<tau>, False)" for ts
        by (induction ts) (auto simp: stable_def)
      with p True show False by auto
    qed
    ultimately have "length tasks \<le> card (blocked_set tasks \<tau>') + n" using Suc.prems(4) by linarith
    with Suc.IH [of \<tau>'] inv Suc.prems(2,3) show ?thesis by (simp add: p True)
  qed
qed

lemma unblocked_stable:
  assumes inv: "passes_inv tasks \<sigma> \<tau>" and cl: "closed_tasks tasks" and settled: "\<forall>u \<in> set tasks. settled \<sigma> \<tau> u"
    and none: "blocked_set tasks \<tau> = {}"
  shows "stable tasks \<tau>"
  unfolding stable_def
proof
  fix t assume t: "t \<in> set tasks"
  show "pass_step t \<tau> = \<tau>"
  proof (cases "pending \<tau> t")
    case True
    then have p: "pending \<sigma> t" using passes_inv_pending [OF inv t] by simp
    have "\<not> lost (\<tau> d)" if d: "d \<in> set (dependency_task_ids t)" for d
    proof
      assume "lost (\<tau> d)"
      moreover from cl t d have "d \<in> task_id ` set tasks" by (auto simp: closed_tasks_def)
      ultimately have "\<tau> d = Some Task_failed" using none by (auto simp: lost_def blocked_set_def)
      with all_completed_eq [OF inv cl t _ d, of Task_failed] have "\<sigma> d = Some Task_failed"
        by (simp add: decided_def)
      with settled t p d none show False by (auto simp: settled_def blocked_set_def)
    qed
    then have "recompute \<tau> (dependency_task_ids t) =
        (if \<tau> (task_id t) = Some Task_ready then Task_ready else Task_waiting_for_dependencies)"
      using settled t p recompute_ready [OF inv cl t] by (auto simp: settled_def recompute_def)
    moreover have "\<tau> (task_id t) \<in> {Some Task_ready, Some Task_waiting_for_dependencies}"
      using passes_invD(1) [OF inv t p] none t by (auto simp: blocked_set_def)
    ultimately have "\<tau> (task_id t) = Some (recompute \<tau> (dependency_task_ids t))" by auto
    with True show ?thesis by (simp add: pass_step_def fun_upd_idem_iff)
  qed (simp add: pass_step_def)
qed

text \<open>The states the passes may start from: those the attempts of the tasks decide.\<close>

definition start_states :: "PlanTask list \<Rightarrow> task_states \<Rightarrow> bool" where
  "start_states tasks \<sigma> \<longleftrightarrow> (\<forall>t \<in> set tasks. \<sigma> (task_id t) \<in>
     {Some Task_ready, Some Task_running, Some Task_completed, Some Task_failed})"

lemma start_states_inv: "start_states tasks \<sigma> \<Longrightarrow> passes_inv tasks \<sigma> \<sigma>"
  by (auto simp: start_states_def passes_inv_def state_inv_def pending_def decided_def)

lemma passes_states_stable:
  assumes start: "start_states tasks \<sigma>" and cl: "closed_tasks tasks"
  shows "passes_inv tasks \<sigma> (passes_states (length tasks) tasks \<sigma>) \<and>
    stable tasks (passes_states (length tasks) tasks \<sigma>) \<and>
    (\<forall>u \<in> set tasks. settled \<sigma> (passes_states (length tasks) tasks \<sigma>) u)"
proof (cases tasks)
  case (Cons t ts)
  obtain \<tau> ch where p: "pass_states tasks \<sigma> False = (\<tau>, ch)" by fastforce
  note inv = pass_states_inv [OF start_states_inv [OF start] cl order.refl p]
  then have settled: "\<forall>u \<in> set tasks. settled \<sigma> \<tau> u" by blast
  show ?thesis
  proof (cases ch)
    case False
    then have un: "\<tau> = \<sigma>" "stable tasks \<sigma>"
      using p pass_states_unchanged [of tasks \<sigma> False \<tau>] by (simp_all add: stable_def)
    have "length tasks = Suc (length ts)" using Cons by simp
    then have "passes_states (length tasks) tasks \<sigma> = \<sigma>" using p False un(1) by simp
    with un settled start_states_inv [OF start] show ?thesis by simp
  next
    case True
    have "stable tasks \<tau> \<or> 1 \<le> card (blocked_set tasks \<tau>)"
      using unblocked_stable [OF _ cl settled] inv by (auto simp: Suc_le_eq card_gt_0_iff blocked_set_def)
    then have "stable tasks \<tau> \<or> length tasks \<le> card (blocked_set tasks \<tau>) + length ts"
      using Cons by auto
    with passes_reach_stable [OF _ cl settled, of "length ts"] inv
    have "passes_inv tasks \<sigma> (passes_states (length ts) tasks \<tau>) \<and> stable tasks (passes_states (length ts) tasks \<tau>) \<and>
      (\<forall>u \<in> set tasks. settled \<sigma> (passes_states (length ts) tasks \<tau>) u)" by blast
    moreover have "length tasks = Suc (length ts)" using Cons by simp
    then have "passes_states (length tasks) tasks \<sigma> = passes_states (length ts) tasks \<tau>"
      using p True by simp
    ultimately show ?thesis by simp
  qed
qed (simp add: passes_inv_def stable_def)

lemma doomed_blocked:
  assumes stable: "stable tasks \<tau>" and settled: "\<forall>u \<in> set tasks. settled \<sigma> \<tau> u"
    and inv: "passes_inv tasks \<sigma> \<tau>" and doomed: "doomed tasks \<sigma> d"
  shows "\<tau> d = Some Task_blocked_by_dependency"
  using doomed
proof induction
  case (by_failure t d)
  with settled show ?case by (auto simp: settled_def)
next
  case (by_doomed t d)
  then have "recompute \<tau> (dependency_task_ids t) = Task_blocked_by_dependency"
    by (intro recompute_lost [of d]) (simp_all add: lost_def)
  moreover have "pass_step t \<tau> = \<tau>" "pending \<tau> t"
    using stable by_doomed passes_inv_pending [OF inv] by (auto simp: stable_def)
  ultimately show ?case by (simp add: pass_step_def fun_upd_idem_iff)
qed

lemma doomed_pending: "doomed tasks \<sigma> d \<Longrightarrow> \<exists>t \<in> set tasks. d = task_id t \<and> pending \<sigma> t"
  by (induction rule: doomed.induct) auto

lemma passes_states_exact:
  assumes start: "start_states tasks \<sigma>" and cl: "closed_tasks tasks" and t: "t \<in> set tasks"
  shows "passes_states (length tasks) tasks \<sigma> (task_id t) =
    (if \<not> pending \<sigma> t then \<sigma> (task_id t)
     else if \<forall>d \<in> set (dependency_task_ids t). \<sigma> d = Some Task_completed then Some Task_ready
     else if doomed tasks \<sigma> (task_id t) then Some Task_blocked_by_dependency
     else Some Task_waiting_for_dependencies)"
proof -
  let ?\<tau> = "passes_states (length tasks) tasks \<sigma>"
  from passes_states_stable [OF start cl] have inv: "passes_inv tasks \<sigma> ?\<tau>" and st: "stable tasks ?\<tau>"
    and settled: "\<forall>u \<in> set tasks. settled \<sigma> ?\<tau> u" by auto
  show ?thesis
  proof (cases "pending \<sigma> t")
    case False
    with passes_invD(3) [OF inv t] show ?thesis by simp
  next
    case True
    have ready: "?\<tau> (task_id t) = Some Task_ready \<longleftrightarrow>
        (\<forall>d \<in> set (dependency_task_ids t). \<sigma> d = Some Task_completed)"
      using settled t True by (simp add: settled_def)
    have blocked: "?\<tau> (task_id t) = Some Task_blocked_by_dependency \<longleftrightarrow> doomed tasks \<sigma> (task_id t)"
      using doomed_blocked [OF st settled inv] passes_invD(2) [OF inv t True] by blast
    show ?thesis
      using passes_invD(1) [OF inv t True] ready blocked True by auto
  qed
qed

end
