(* ===== verification/Schedule.thy ===== *)
theory Schedule
  imports Readiness
begin

text \<open>
  What the schedule analysis promises: dispatched tasks are safe to run together, the reported
  readiness is exact, a plan that is not stuck makes progress, and every plan the projection accepts
  can be analysed.
\<close>

section \<open>Conflicts\<close>

lemma intent_relation_sym: "intent_relation l r = intent_relation r l"
  by (auto simp: intent_relation_def path_overlaps_def)

lemma task_resource_conflict_sym: "task_resource_conflict t u = task_resource_conflict u t"
proof -
  have "list_ex (\<lambda>l. list_ex (\<lambda>r. \<not> (intent_effect l = Effect_read \<and> intent_effect r = Effect_read) \<and>
          intent_relation l r \<noteq> Intents_disjoint) rs) ls =
      list_ex (\<lambda>l. list_ex (\<lambda>r. \<not> (intent_effect l = Effect_read \<and> intent_effect r = Effect_read) \<and>
          intent_relation l r \<noteq> Intents_disjoint) ls) rs" for ls rs
    unfolding list_ex_iff by (metis intent_relation_sym)
  from this [where ls = "resource_intents t" and rs = "resource_intents u"] show ?thesis
    unfolding task_resource_conflict_def by argo
qed

text \<open>
  A task that declares a mutating effect but lists only read intents conflicts with no task whose
  intents are reads: the intents, not the effects, decide.
\<close>

lemma mutating_task_with_read_intents:
  assumes "list_all (\<lambda>i. intent_effect i = Effect_read) (resource_intents t)" "resource_intents t \<noteq> []"
    and "list_all (\<lambda>i. intent_effect i = Effect_read) (resource_intents u)" "resource_intents u \<noteq> []"
  shows "\<not> task_resource_conflict t u"
  using assms by (auto simp: task_resource_conflict_def list_all_iff list_ex_iff)

section \<open>Selection\<close>

lemma find_set_readiness_other:
  "tid \<noteq> d \<Longrightarrow> (\<And>r. tr_task_id (f r) = tr_task_id r) \<Longrightarrow> find_readiness d (set_readiness tid f rs) = find_readiness d rs"
  unfolding find_readiness_def set_readiness_def by (rule find_modify_first_other) auto

lemma find_set_readiness:
  "find_readiness tid rs = Some r \<Longrightarrow> tr_task_id (f r) = tid \<Longrightarrow> find_readiness tid (set_readiness tid f rs) = Some (f r)"
  unfolding find_readiness_def set_readiness_def by (rule find_modify_first_key)

definition postponed :: "TaskReadinessState \<Rightarrow> bool" where
  "postponed st \<longleftrightarrow> st = Task_blocked_by_resource \<or> st = Task_waiting_for_capacity"

text \<open>What the selection promises about the tasks it adds and the states it leaves.\<close>

definition selection_ok ::
  "nat \<Rightarrow> PlanTask list \<Rightarrow> PlanTask list \<Rightarrow> PlanTask list \<Rightarrow> TaskReadiness list
    \<Rightarrow> PlanTask list \<Rightarrow> TaskReadiness list \<Rightarrow> bool" where
  "selection_ok available running selected eligible rs extra rs' \<longleftrightarrow>
     set extra \<subseteq> set eligible \<and> distinct (map task_id extra) \<and>
     length selected + length extra \<le> max available (length selected) \<and>
     (\<forall>t \<in> set extra. \<forall>u \<in> set running \<union> set selected. \<not> task_resource_conflict t u) \<and>
     sorted_wrt (\<lambda>u t. \<not> task_resource_conflict t u) extra \<and>
     map tr_task_id rs' = map tr_task_id rs \<and>
     (\<forall>d. d \<notin> task_id ` (set eligible - set extra) \<longrightarrow> find_readiness d rs' = find_readiness d rs) \<and>
     (\<forall>t \<in> set eligible - set extra. \<exists>r. find_readiness (task_id t) rs' = Some r \<and> postponed (tr_state r))"

lemma conflicting_empty: "conflicting t us = [] \<longleftrightarrow> (\<forall>u \<in> set us. \<not> task_resource_conflict t u)"
  by (auto simp: conflicting_def filter_empty_conv)

lemma selection_skip:
  assumes ok: "selection_ok available running selected ts (set_readiness (task_id t) f rs) extra rs'"
    and t: "task_id t \<notin> task_id ` set ts" and r: "find_readiness (task_id t) rs = Some r"
    and f: "\<And>r. tr_task_id (f r) = tr_task_id r" "postponed (tr_state (f r))"
  shows "selection_ok available running selected (t # ts) rs extra rs'"
proof -
  let ?rs = "set_readiness (task_id t) f rs"
  have tx: "t \<notin> set extra" using ok t by (auto simp: selection_ok_def)
  have id: "map tr_task_id ?rs = map tr_task_id rs"
    unfolding set_readiness_def by (rule map_modify_first) (simp add: f(1))
  have "tr_task_id (f r) = task_id t"
    using r f(1) by (auto simp: find_readiness_def dest: find_SomeD)
  from find_set_readiness [where f = f, OF r this] have "find_readiness (task_id t) ?rs = Some (f r)" .
  moreover have "task_id t \<notin> task_id ` (set ts - set extra)" using t by blast
  ultimately have "find_readiness (task_id t) rs' = Some (f r)"
    using ok by (simp add: selection_ok_def)
  moreover have "find_readiness d rs' = find_readiness d rs"
    if d: "d \<notin> task_id ` (set (t # ts) - set extra)" for d
  proof -
    from d tx have "task_id t \<noteq> d" "d \<notin> task_id ` (set ts - set extra)" by auto
    with ok find_set_readiness_other [where f = f and rs = rs, OF _ f(1)] show ?thesis
      by (simp add: selection_ok_def)
  qed
  ultimately show ?thesis using ok tx id f(2) unfolding selection_ok_def by auto
qed

lemma selection_take:
  assumes ok: "selection_ok available running (selected @ [t]) ts rs extra rs'"
    and t: "task_id t \<notin> task_id ` set ts" and av: "length selected < available"
    and free: "\<forall>u \<in> set running \<union> set selected. \<not> task_resource_conflict t u"
  shows "selection_ok available running selected (t # ts) rs (t # extra) rs'"
  using assms unfolding selection_ok_def by (auto simp: image_iff)

lemma select_tasks_ok:
  assumes "select_tasks available running selected eligible rs = (selected', rs')"
    and "distinct (map task_id eligible)"
    and "\<forall>t \<in> set eligible. \<exists>r. find_readiness (task_id t) rs = Some r \<and> tr_blockers r = []"
  shows "\<exists>extra. selected' = selected @ extra \<and> selection_ok available running selected eligible rs extra rs'"
  using assms
proof (induction eligible arbitrary: selected rs)
  case Nil
  then show ?case by (simp add: selection_ok_def)
next
  case (Cons t ts)
  let ?bs = "conflicting t running @ conflicting t selected"
  from Cons.prems(2) have d: "distinct (map task_id ts)" "task_id t \<notin> task_id ` set ts" by auto
  from Cons.prems(3) obtain r where r: "find_readiness (task_id t) rs = Some r" "tr_blockers r = []" by auto
  then have bs: "readiness_blockers (task_id t) rs = []" by (simp add: readiness_blockers_def)
  have keep: "\<forall>u \<in> set ts. \<exists>r. find_readiness (task_id u) (set_readiness (task_id t) f rs) = Some r \<and> tr_blockers r = []"
    if f: "\<And>r. tr_task_id (f r) = tr_task_id r" for f
  proof
    fix u assume u: "u \<in> set ts"
    with d have "task_id t \<noteq> task_id u" by auto
    from find_set_readiness_other [where f = f, OF this f] Cons.prems(3) u
    show "\<exists>r. find_readiness (task_id u) (set_readiness (task_id t) f rs) = Some r \<and> tr_blockers r = []" by simp
  qed
  show ?case
  proof (cases "?bs = []")
    case False
    let ?f = "\<lambda>r. r\<lparr>tr_blockers := ?bs, tr_state := Task_blocked_by_resource\<rparr>"
    have "select_tasks available running selected ts (set_readiness (task_id t) ?f rs) = (selected', rs')"
      using Cons.prems(1) bs False by (simp add: Let_def)
    from Cons.IH [OF this d(1) keep] obtain extra where "selected' = selected @ extra"
      "selection_ok available running selected ts (set_readiness (task_id t) ?f rs) extra rs'" by auto
    with selection_skip [OF this(2) d(2) r(1)] show ?thesis by (auto simp: postponed_def)
  next
    case True
    show ?thesis
    proof (cases "length selected \<ge> available")
      case le: True
      let ?f = "\<lambda>r. r\<lparr>tr_state := Task_waiting_for_capacity\<rparr>"
      have "select_tasks available running selected ts (set_readiness (task_id t) ?f rs) = (selected', rs')"
        using Cons.prems(1) bs True le by (simp add: Let_def)
      from Cons.IH [OF this d(1) keep] obtain extra where "selected' = selected @ extra"
        "selection_ok available running selected ts (set_readiness (task_id t) ?f rs) extra rs'" by auto
      with selection_skip [OF this(2) d(2) r(1)] show ?thesis by (auto simp: postponed_def)
    next
      case lt: False
      have "select_tasks available running (selected @ [t]) ts rs = (selected', rs')"
        using Cons.prems(1) bs True lt by (simp add: Let_def)
      from Cons.IH [OF this d(1)] Cons.prems(3) obtain extra where e: "selected' = (selected @ [t]) @ extra"
        "selection_ok available running (selected @ [t]) ts rs extra rs'" by auto
      have "selection_ok available running selected (t # ts) rs (t # extra) rs'"
        using True lt by (intro selection_take [OF e(2) d(2)]) (auto simp: conflicting_empty)
      with e(1) show ?thesis by (intro exI [of _ "t # extra"]) simp
    qed
  qed
qed

lemma select_tasks_first:
  assumes "select_tasks available [] [] (t # ts) rs = (selected, rs')" and "0 < available"
    and "readiness_blockers (task_id t) rs = []"
  shows "selected \<noteq> []"
proof -
  have grow: "\<exists>extra. fst (select_tasks n us ss ts rs) = ss @ extra" for n us ss rs
  proof (induction ts arbitrary: ss rs)
    case (Cons u ts)
    then show ?case by (simp add: Let_def) (metis append_assoc)
  qed simp
  from assms have "selected = fst (select_tasks available [] [t] ts rs)"
    by (simp add: Let_def conflicting_def)
  with grow [of available "[]" "[t]" rs] show ?thesis by auto
qed

section \<open>The analysis\<close>

text \<open>The states of the tasks of a revision as far as their attempts decide them.\<close>

definition attempt_states :: "TaskSchedulingPolicy \<Rightarrow> ProjectedPlanRevision \<Rightarrow> task_states" where
  "attempt_states policy p =
     (\<lambda>d. map_option (execution_state policy) (find_execution d (ppr_task_executions p)))
       |` (task_id ` set (pr_tasks (ppr_revision p)))"

lemma initial_readiness_states:
  "initial_readiness policy xs ts = Inr rs \<Longrightarrow>
    map tr_task_id rs = map task_id ts \<and> (\<forall>r \<in> set rs. tr_blockers r = []) \<and>
    states_of rs = (\<lambda>d. map_option (execution_state policy) (find_execution d xs)) |` (task_id ` set ts)"
proof (induction ts arbitrary: rs)
  case Nil
  then show ?case by (auto simp: states_of_def find_readiness_def restrict_map_def)
next
  case (Cons t ts)
  then obtain x rs' where x: "find_execution (task_id t) xs = Some x"
    and rs': "initial_readiness policy xs ts = Inr rs'"
    and rs: "rs = \<lparr>tr_task_id = task_id t, tr_state = execution_state policy x, tr_blockers = [],
                 tr_next_attempt = of_nat (length (te_attempts x) + 1)\<rparr> # rs'"
    by (auto split: option.split_asm)
  have "states_of rs = (states_of rs')(task_id t \<mapsto> execution_state policy x)"
    by (auto simp: rs states_of_def find_readiness_def)
  with Cons.IH [OF rs'] x rs show ?case by (auto simp: restrict_map_def)
qed

lemma readiness_pass_blockers:
  "readiness_pass tasks is rs ch = Inr (rs', ch') \<Longrightarrow> \<forall>r \<in> set rs. tr_state r = Task_ready \<longrightarrow> tr_blockers r = [] \<Longrightarrow>
    \<forall>r \<in> set rs'. tr_state r = Task_ready \<longrightarrow> tr_blockers r = []"
proof (induction "is" arbitrary: rs ch)
  case (Cons i "is")
  show ?case
  proof (cases "decided (tr_state (rs ! i))")
    case True
    with Cons show ?thesis by simp
  next
    case False
    with Cons.prems(1) obtain bs p where
      "readiness_pass tasks is (rs[i := (rs ! i)\<lparr>tr_state := if bs = [] then Task_ready
        else if p then Task_blocked_by_dependency else Task_waiting_for_dependencies, tr_blockers := bs\<rparr>])
        (ch \<or> (if bs = [] then Task_ready
        else if p then Task_blocked_by_dependency else Task_waiting_for_dependencies) \<noteq> tr_state (rs ! i)) = Inr (rs', ch')"
      by (auto simp: Let_def)
    from Cons.IH [OF this] Cons.prems(2) show ?thesis
      by (force dest!: set_update_subset_insert [THEN subsetD] split: if_split_asm)
  qed
qed simp

lemma readiness_passes_blockers:
  "readiness_passes n tasks rs = Inr rs' \<Longrightarrow> \<forall>r \<in> set rs. tr_state r = Task_ready \<longrightarrow> tr_blockers r = [] \<Longrightarrow>
    \<forall>r \<in> set rs'. tr_state r = Task_ready \<longrightarrow> tr_blockers r = []"
proof (induction n arbitrary: rs)
  case (Suc n)
  from Suc.prems(1) obtain rs1 ch where p: "readiness_pass tasks [0..<length tasks] rs False = Inr (rs1, ch)"
    and r: "(if ch then readiness_passes n tasks rs1 else Inr rs1) = Inr rs'" by auto
  from readiness_pass_blockers [OF p Suc.prems(2)] r Suc.IH [of rs1] show ?case by (auto split: if_split_asm)
qed simp

lemma tasks_in_state_filter:
  assumes "aligned tasks rs"
  shows "tasks_in_state st tasks rs = filter (\<lambda>t. states_of rs (task_id t) = Some st) tasks"
proof -
  have "map tr_task_id rs = map task_id tasks \<Longrightarrow> distinct (map task_id tasks) \<Longrightarrow>
      (\<forall>(t, r) \<in> set (zip tasks rs). states_of all (task_id t) = Some (tr_state r)) \<Longrightarrow>
      tasks_in_state st tasks rs = filter (\<lambda>t. states_of all (task_id t) = Some st) tasks" for all
  proof (induction tasks arbitrary: rs)
    case (Cons t ts)
    then obtain r rs' where "rs = r # rs'" by (cases rs) auto
    with Cons show ?case by (auto simp: tasks_in_state_def)
  qed (simp add: tasks_in_state_def)
  moreover have "\<forall>(t, r) \<in> set (zip tasks rs). states_of rs (task_id t) = Some (tr_state r)"
    using aligned_nth(3) [OF assms] by (auto simp: in_set_zip states_of_def)
  ultimately show ?thesis using assms by (simp add: aligned_def)
qed

lemma validated_closed: "validate_plan_revision r l = Inr () \<Longrightarrow> closed_tasks (pr_tasks r)"
  using validate_plan_revision_ok(1,2) [of r l] by (auto simp: closed_tasks_def task_refs_ok_def)

lemma execution_state_cases:
  "execution_state policy x \<in> {Task_ready, Task_running, Task_completed, Task_failed}"
  by (simp add: execution_state_def split: option.split)

lemma attempt_states_start:
  assumes "dom \<sigma> = task_id ` set tasks" and "\<And>d st. \<sigma> d = Some st \<Longrightarrow> \<exists>x. st = execution_state policy x"
  shows "start_states tasks \<sigma>"
  unfolding start_states_def
proof
  fix t assume "t \<in> set tasks"
  with assms(1) obtain st where "\<sigma> (task_id t) = Some st" by (auto simp: dom_def set_eq_iff)
  with assms(2) [OF this] execution_state_cases [of policy]
  show "\<sigma> (task_id t) \<in> {Some Task_ready, Some Task_running, Some Task_completed, Some Task_failed}" by auto
qed

lemma analysis_selection:
  assumes an: "analyze_task_schedule p policy = Inr a" and valid: "validate_plan_revision (ppr_revision p) l = Inr ()"
  defines "tasks \<equiv> pr_tasks (ppr_revision p)" and "\<sigma> \<equiv> attempt_states policy p"
  defines "running \<equiv> filter (\<lambda>t. \<sigma> (task_id t) = Some Task_running) tasks"
  obtains rs extra where "start_states tasks \<sigma>" and "aligned tasks rs"
    and "states_of rs = passes_states (length tasks) tasks \<sigma>"
    and "selection_ok (maximum_concurrency policy - length running) running []
      (filter (\<lambda>t. states_of rs (task_id t) = Some Task_ready) tasks) rs extra (an_tasks a)"
    and "an_dispatchable_task_ids a = map task_id extra"
    and "running = [] \<longrightarrow> (\<exists>t \<in> set tasks. states_of rs (task_id t) = Some Task_ready) \<longrightarrow> extra \<noteq> []"
proof -
  let ?xs = "ppr_task_executions p"
  from an obtain initial rs ro selected rs' where
    pol: "0 < maximum_concurrency policy"
    and ini: "initial_readiness policy ?xs tasks = Inr initial"
    and rs: "readiness_passes (length tasks) tasks initial = Inr rs"
    and sel: "select_tasks (maximum_concurrency policy - length (tasks_in_state Task_running tasks initial))
        (tasks_in_state Task_running tasks initial) [] (tasks_in_state Task_ready tasks rs) rs = (selected, rs')"
    and a: "an_tasks a = rs'" "an_dispatchable_task_ids a = map task_id selected"
    unfolding analyze_task_schedule_def tasks_def
    by (auto simp: Let_def case_prod_beta prod_eq_iff split: if_split_asm)
  note ini' = initial_readiness_states [OF ini]
  have dist: "distinct (map task_id tasks)" using validated_closed [OF valid] by (simp add: tasks_def closed_tasks_def)
  have al: "aligned tasks initial" and st: "states_of initial = \<sigma>"
    using ini' dist by (simp_all add: aligned_def \<sigma>_def tasks_def attempt_states_def)
  note rs' = readiness_passes_states [OF al rs, unfolded st]
  have run: "tasks_in_state Task_running tasks initial = running"
    by (simp add: tasks_in_state_filter [OF al] st running_def)
  let ?el = "filter (\<lambda>t. states_of rs (task_id t) = Some Task_ready) tasks"
  have el: "tasks_in_state Task_ready tasks rs = ?el" using tasks_in_state_filter rs' by blast
  have blk: "\<exists>r. find_readiness (task_id t) rs = Some r \<and> tr_blockers r = []" if "t \<in> set ?el" for t
  proof -
    from that obtain r where r: "find_readiness (task_id t) rs = Some r" "tr_state r = Task_ready"
      by (auto simp: states_of_def)
    then have "r \<in> set rs" by (auto simp: find_readiness_def dest: find_SomeD)
    with readiness_passes_blockers [OF rs] ini' r show ?thesis by blast
  qed
  have "distinct (map task_id ?el)" using dist by (simp add: distinct_map_filter)
  from select_tasks_ok [OF sel [unfolded run el] this] blk
  have ok: "selection_ok (maximum_concurrency policy - length running) running [] ?el rs selected rs'" by auto
  have first: "selected \<noteq> []" if "running = []" "\<exists>t \<in> set tasks. states_of rs (task_id t) = Some Task_ready"
  proof -
    from that(2) obtain t ts where te: "?el = t # ts" by (cases ?el) (auto simp: filter_empty_conv)
    with blk [of t] have "readiness_blockers (task_id t) rs = []" by (auto simp: readiness_blockers_def)
    with select_tasks_first [of "maximum_concurrency policy" t ts rs selected rs'] sel pol that(1)
    show ?thesis by (simp add: run el te)
  qed
  have "start_states tasks \<sigma>"
  proof (rule attempt_states_start)
    have "dom (states_of initial) = tr_task_id ` set initial"
      by (auto simp: states_of_def find_readiness_def dom_def image_iff find_None_iff_key
          split: option.split dest!: find_SomeD)
    also have "\<dots> = task_id ` set tasks" using ini' by (metis list.set_map)
    finally show "dom \<sigma> = task_id ` set tasks" by (simp add: st)
    show "\<exists>x. s = execution_state policy x" if "\<sigma> d = Some s" for d s
      using that by (auto simp: \<sigma>_def attempt_states_def restrict_map_def split: if_split_asm)
  qed
  with rs' ok first a show ?thesis by (intro that [of rs selected]) auto
qed

lemma sorted_wrt_sym:
  assumes "sorted_wrt R xs" and "\<And>x y. R x y \<Longrightarrow> R y x" and "x \<in> set xs" "y \<in> set xs" "x \<noteq> y"
  shows "R x y"
proof -
  from assms(3,4) obtain i j where "i < length xs" "j < length xs" "xs ! i = x" "xs ! j = y"
    by (auto simp: in_set_conv_nth)
  with assms show ?thesis by (cases i j rule: linorder_cases) (auto simp: sorted_wrt_iff_nth_less)
qed

lemma task_id_inject:
  "closed_tasks tasks \<Longrightarrow> t \<in> set tasks \<Longrightarrow> u \<in> set tasks \<Longrightarrow> task_id t = task_id u \<longleftrightarrow> t = u"
  by (auto simp: closed_tasks_def distinct_map dest: inj_onD)

text \<open>
  C18: whatever the scheduler dispatches together is safe to run: the tasks are distinct tasks of the
  revision that are not running, completed or failed, all their dependencies are completed, no
  dispatched task conflicts in its resources with another dispatched task or with a running one, and
  running and dispatched tasks together stay within the allowed concurrency.
\<close>

theorem dispatch_is_safe:
  assumes "analyze_task_schedule p policy = Inr a" and "validate_plan_revision (ppr_revision p) l = Inr ()"
    and "t \<in> set (pr_tasks (ppr_revision p))" and "task_id t \<in> set (an_dispatchable_task_ids a)"
  shows "distinct (an_dispatchable_task_ids a) \<and>
    set (an_dispatchable_task_ids a) \<subseteq> task_id ` set (pr_tasks (ppr_revision p)) \<and>
    attempt_states policy p (task_id t) = Some Task_ready \<and>
    (\<forall>d \<in> set (dependency_task_ids t). attempt_states policy p d = Some Task_completed) \<and>
    (\<forall>u \<in> set (pr_tasks (ppr_revision p)). u \<noteq> t \<and>
       (attempt_states policy p (task_id u) = Some Task_running \<or> task_id u \<in> set (an_dispatchable_task_ids a)) \<longrightarrow>
       \<not> task_resource_conflict t u) \<and>
    length (filter (\<lambda>u. attempt_states policy p (task_id u) = Some Task_running) (pr_tasks (ppr_revision p))) +
      length (an_dispatchable_task_ids a) \<le> maximum_concurrency policy"
proof -
  let ?tasks = "pr_tasks (ppr_revision p)" and ?\<sigma> = "attempt_states policy p"
  let ?running = "filter (\<lambda>t. ?\<sigma> (task_id t) = Some Task_running) ?tasks"
  note cl = validated_closed [OF assms(2)]
  obtain rs extra where start: "start_states ?tasks ?\<sigma>"
    and rs: "states_of rs = passes_states (length ?tasks) ?tasks ?\<sigma>"
    and ok: "selection_ok (maximum_concurrency policy - length ?running) ?running []
      (filter (\<lambda>t. states_of rs (task_id t) = Some Task_ready) ?tasks) rs extra (an_tasks a)"
    and ids: "an_dispatchable_task_ids a = map task_id extra"
    by (rule analysis_selection [OF assms(1,2)]) blast
  have sub: "set extra \<subseteq> set ?tasks" using ok by (auto simp: selection_ok_def)
  have mem: "u \<in> set extra" if "u \<in> set ?tasks" "task_id u \<in> set (an_dispatchable_task_ids a)" for u
    using that sub task_id_inject [OF cl] unfolding ids by (auto simp: subset_iff)
  note t = mem [OF assms(3,4)]
  have ready: "states_of rs (task_id t) = Some Task_ready" using ok t by (auto simp: selection_ok_def)
  have st: "?\<sigma> (task_id t) = Some Task_ready" "\<forall>d \<in> set (dependency_task_ids t). ?\<sigma> d = Some Task_completed"
  proof -
    note eq = passes_states_exact [OF start cl assms(3), folded rs, unfolded ready]
    then have p: "pending ?\<sigma> t" by (auto simp: pending_def decided_def split: if_split_asm)
    with start assms(3) show "?\<sigma> (task_id t) = Some Task_ready"
      by (auto simp: start_states_def pending_def decided_def)
    from eq p show "\<forall>d \<in> set (dependency_task_ids t). ?\<sigma> d = Some Task_completed"
      by (simp split: if_split_asm)
  qed
  have conf: "\<not> task_resource_conflict t u"
    if "u \<in> set ?tasks" "u \<noteq> t" "?\<sigma> (task_id u) = Some Task_running \<or> task_id u \<in> set (an_dispatchable_task_ids a)" for u
    using that(3)
  proof
    assume "?\<sigma> (task_id u) = Some Task_running"
    with that(1) ok t show ?thesis by (auto simp: selection_ok_def)
  next
    assume "task_id u \<in> set (an_dispatchable_task_ids a)"
    with mem that(1) have "u \<in> set extra" by blast
    moreover have "sorted_wrt (\<lambda>u t. \<not> task_resource_conflict t u) extra" using ok by (simp add: selection_ok_def)
    ultimately show ?thesis
      using sorted_wrt_sym [where R = "\<lambda>u t. \<not> task_resource_conflict t u" and xs = extra and x = u and y = t]
        that(2) t task_resource_conflict_sym by blast
  qed
  have "length extra \<le> maximum_concurrency policy - length ?running" "extra \<noteq> []"
    using ok t by (auto simp: selection_ok_def)
  then have "length ?running + length extra \<le> maximum_concurrency policy"
    by (cases "length ?running \<le> maximum_concurrency policy") auto
  moreover have "distinct (map task_id extra)" using ok by (simp add: selection_ok_def)
  ultimately show ?thesis using st conf sub by (auto simp: ids)
qed

text \<open>
  C19: the readiness the scheduler reports is exact.  The passes over the tasks, at most as many as
  there are tasks, reach the fixed point: a task is blocked by a dependency exactly when it waits,
  directly or through waiting tasks, for one that has failed for good; it waits for dependencies
  exactly when it is not so blocked and some dependency is not completed; it is reported ready exactly
  when it is dispatched; and a running, completed or failed task is reported as such.
\<close>

theorem readiness_is_exact:
  assumes "analyze_task_schedule p policy = Inr a" and "validate_plan_revision (ppr_revision p) l = Inr ()"
    and "t \<in> set (pr_tasks (ppr_revision p))"
  shows "\<exists>r. find_readiness (task_id t) (an_tasks a) = Some r \<and>
    (tr_state r = Task_blocked_by_dependency \<longleftrightarrow>
       doomed (pr_tasks (ppr_revision p)) (attempt_states policy p) (task_id t)) \<and>
    (tr_state r = Task_waiting_for_dependencies \<longleftrightarrow>
       pending (attempt_states policy p) t \<and>
       \<not> doomed (pr_tasks (ppr_revision p)) (attempt_states policy p) (task_id t) \<and>
       (\<exists>d \<in> set (dependency_task_ids t). attempt_states policy p d \<noteq> Some Task_completed)) \<and>
    (tr_state r = Task_ready \<longleftrightarrow> task_id t \<in> set (an_dispatchable_task_ids a)) \<and>
    (\<not> pending (attempt_states policy p) t \<longrightarrow> attempt_states policy p (task_id t) = Some (tr_state r))"
proof -
  let ?tasks = "pr_tasks (ppr_revision p)" and ?\<sigma> = "attempt_states policy p"
  let ?running = "filter (\<lambda>t. ?\<sigma> (task_id t) = Some Task_running) ?tasks"
  note cl = validated_closed [OF assms(2)] and t = assms(3)
  obtain rs extra where start: "start_states ?tasks ?\<sigma>" and al: "aligned ?tasks rs"
    and rs: "states_of rs = passes_states (length ?tasks) ?tasks ?\<sigma>"
    and ok: "selection_ok (maximum_concurrency policy - length ?running) ?running []
      (filter (\<lambda>t. states_of rs (task_id t) = Some Task_ready) ?tasks) rs extra (an_tasks a)"
    and ids: "an_dispatchable_task_ids a = map task_id extra"
    by (rule analysis_selection [OF assms(1,2)]) blast
  have sub: "set extra \<subseteq> {t \<in> set ?tasks. states_of rs (task_id t) = Some Task_ready}"
    using ok by (auto simp: selection_ok_def)
  then have mem: "task_id t \<in> set (an_dispatchable_task_ids a) \<longleftrightarrow> t \<in> set extra"
    using t task_id_inject [OF cl] by (auto simp: ids)
  note eq = passes_states_exact [OF start cl t, folded rs]
  have np: "\<not> pending ?\<sigma> t \<Longrightarrow> ?\<sigma> (task_id t) \<in> {Some Task_running, Some Task_completed, Some Task_failed}"
    by (auto simp: pending_def decided_def)
  have dp: "doomed ?tasks ?\<sigma> (task_id t) \<Longrightarrow> pending ?\<sigma> t"
    using doomed_pending [of ?tasks ?\<sigma> "task_id t"] t task_id_inject [OF cl] by auto
  have dr: "doomed ?tasks ?\<sigma> (task_id t) \<Longrightarrow>
      \<exists>d \<in> set (dependency_task_ids t). ?\<sigma> d \<noteq> Some Task_completed"
    using passes_states_stable [OF start cl] t eq rs doomed_blocked [of ?tasks "states_of rs" ?\<sigma> "task_id t"] dp
    by (force split: if_split_asm)
  show ?thesis
  proof (cases "t \<in> set extra \<or> states_of rs (task_id t) \<noteq> Some Task_ready")
    case True
    then have "task_id t \<notin> task_id `
        (set (filter (\<lambda>t. states_of rs (task_id t) = Some Task_ready) ?tasks) - set extra)"
      using t task_id_inject [OF cl] by auto
    then have same: "find_readiness (task_id t) (an_tasks a) = find_readiness (task_id t) rs"
      using ok by (auto simp: selection_ok_def)
    from t obtain i where "i < length ?tasks" "t = ?tasks ! i" by (auto simp: in_set_conv_nth)
    with aligned_nth(3) [OF al] obtain r where r: "find_readiness (task_id t) rs = Some r" by auto
    then have st: "states_of rs (task_id t) = Some (tr_state r)" by (simp add: states_of_def)
    have "tr_state r = Task_ready \<longleftrightarrow> t \<in> set extra" using True sub st by auto
    with same r mem st eq np dp dr show ?thesis by (auto split: if_split_asm)
  next
    case False
    with t have "t \<in> set (filter (\<lambda>t. states_of rs (task_id t) = Some Task_ready) ?tasks) - set extra" by simp
    with ok obtain r where r: "find_readiness (task_id t) (an_tasks a) = Some r" "postponed (tr_state r)"
      unfolding selection_ok_def by blast
    with False mem eq np dp dr show ?thesis by (auto simp: postponed_def split: if_split_asm)
  qed
qed

text \<open>
  C20: the scheduler makes progress.  When no task of a valid plan is running, it dispatches one, or
  every task is completed, has failed for good, or waits for a failed one: a plan never hangs on its
  dependencies, its resources or the concurrency limit.
\<close>

theorem schedule_makes_progress:
  assumes "analyze_task_schedule p policy = Inr a" and "validate_plan_revision (ppr_revision p) l = Inr ()"
    and "\<forall>t \<in> set (pr_tasks (ppr_revision p)). attempt_states policy p (task_id t) \<noteq> Some Task_running"
  shows "an_dispatchable_task_ids a \<noteq> [] \<or>
    (\<forall>t \<in> set (pr_tasks (ppr_revision p)).
       attempt_states policy p (task_id t) \<in> {Some Task_completed, Some Task_failed} \<or>
       doomed (pr_tasks (ppr_revision p)) (attempt_states policy p) (task_id t))"
proof (rule disjCI)
  let ?tasks = "pr_tasks (ppr_revision p)" and ?\<sigma> = "attempt_states policy p"
  let ?rel = "(task_rel dependency_task_ids ?tasks)\<inverse>"
  note cl = validated_closed [OF assms(2)]
  let ?running = "filter (\<lambda>t. ?\<sigma> (task_id t) = Some Task_running) ?tasks"
  obtain rs extra where start: "start_states ?tasks ?\<sigma>" and "aligned ?tasks rs"
    and rs: "states_of rs = passes_states (length ?tasks) ?tasks ?\<sigma>"
    and "selection_ok (maximum_concurrency policy - length ?running) ?running []
      (filter (\<lambda>t. states_of rs (task_id t) = Some Task_ready) ?tasks) rs extra (an_tasks a)"
    and ids: "an_dispatchable_task_ids a = map task_id extra"
    and go: "?running = [] \<longrightarrow> (\<exists>t \<in> set ?tasks. states_of rs (task_id t) = Some Task_ready) \<longrightarrow> extra \<noteq> []"
    by (rule analysis_selection [OF assms(1,2)])
  assume "\<not> (\<forall>t \<in> set ?tasks. ?\<sigma> (task_id t) \<in> {Some Task_completed, Some Task_failed} \<or>
    doomed ?tasks ?\<sigma> (task_id t))"
  then obtain t0 where t0: "t0 \<in> set ?tasks" "?\<sigma> (task_id t0) \<notin> {Some Task_completed, Some Task_failed}"
      "\<not> doomed ?tasks ?\<sigma> (task_id t0)" by blast
  with assms(3) have "pending ?\<sigma> t0" by (auto simp: pending_def decided_def)
  with t0 have "task_id t0 \<in> {task_id t | t. t \<in> set ?tasks \<and> pending ?\<sigma> t \<and> \<not> doomed ?tasks ?\<sigma> (task_id t)}"
    by blast
  moreover have "wf ?rel"
    using validate_plan_revision_ok(4) [OF assms(2)] by (intro finite_acyclic_wf_converse finite_task_rel)
  ultimately obtain z where z: "z \<in> {task_id t | t. t \<in> set ?tasks \<and> pending ?\<sigma> t \<and> \<not> doomed ?tasks ?\<sigma> (task_id t)}"
    and min: "\<And>y. (y, z) \<in> ?rel \<Longrightarrow> y \<notin> {task_id t | t. t \<in> set ?tasks \<and> pending ?\<sigma> t \<and> \<not> doomed ?tasks ?\<sigma> (task_id t)}"
    by (metis (no_types, lifting) wfE_min)
  from z obtain t where t: "z = task_id t" "t \<in> set ?tasks" "pending ?\<sigma> t" "\<not> doomed ?tasks ?\<sigma> (task_id t)" by blast
  have "?\<sigma> d = Some Task_completed" if d: "d \<in> set (dependency_task_ids t)" for d
  proof -
    from d t cl obtain u where u: "u \<in> set ?tasks" "d = task_id u" by (auto simp: closed_tasks_def)
    from d t have "(d, z) \<in> ?rel" by (auto simp: task_rel_def)
    from min [OF this] u have "\<not> pending ?\<sigma> u \<or> doomed ?tasks ?\<sigma> d" by blast
    moreover have "\<not> doomed ?tasks ?\<sigma> d" "?\<sigma> d \<noteq> Some Task_failed"
      using t d doomed.intros by blast+
    ultimately show ?thesis using u assms(3) by (auto simp: pending_def decided_def)
  qed
  with passes_states_exact [OF start cl t(2)] t rs have "states_of rs (task_id t) = Some Task_ready" by simp
  with go t assms(3) have "extra \<noteq> []" by (auto simp: filter_empty_conv)
  then show "an_dispatchable_task_ids a \<noteq> []" by (simp add: ids)
qed

section \<open>Projected plans can be scheduled\<close>

lemma execution_ok_number:
  assumes "execution_ok pr x" and "i < length (te_attempts x)"
  shows "unat (crd_attempt (att_dispatch (te_attempts x ! i))) = i + 1"
proof -
  have "map (\<lambda>a. unat (crd_attempt (att_dispatch a))) (te_attempts x) ! i = [1..<length (te_attempts x) + 1] ! i"
    using assms(1) by (simp only: execution_ok_def)
  with assms(2) show ?thesis by (simp del: upt_Suc)
qed

lemma check_attempts_ok:
  assumes "list_all (attempt_ok pr (te_task_id x)) as" and "te_attempts x = bs @ as"
    and "execution_ok pr x" and "distinct (map att_child_run_id as)"
    and "set (map att_child_run_id as) \<inter> children = {}"
  shows "check_attempts pr x (length bs) children as = Inr (children \<union> set (map att_child_run_id as))"
  using assms
proof (induction as arbitrary: bs children)
  case (Cons a as)
  have num: "unat (crd_attempt (att_dispatch a)) = length bs + 1"
    using execution_ok_number [OF Cons.prems(3), of "length bs"] Cons.prems(2) by simp
  have "attempt_retryable a" if "length bs + 1 < length (te_attempts x)"
    using that Cons.prems(2,3) by (auto simp: execution_ok_def butlast_append)
  then have "valid_attempt pr x (length bs) a" "valid_attempt_result a"
    using Cons.prems(1) num
    by (auto simp: valid_attempt_def valid_attempt_result_def Let_def attempt_ok_def split: option.split)
  with Cons.IH [of "bs @ [a]" "insert (att_child_run_id a) children"] Cons.prems show ?case
    by (simp add: insert_commute Un_commute)
qed simp

lemma check_executions_ok:
  assumes "list_all (execution_ok pr) xs" and "distinct (map te_task_id xs)"
    and "set (map te_task_id xs) \<inter> ids = {}"
    and "distinct (concat (map (\<lambda>x. map att_child_run_id (te_attempts x)) xs))"
    and "set (concat (map (\<lambda>x. map att_child_run_id (te_attempts x)) xs)) \<inter> children = {}"
  shows "check_executions pr ids children xs = Inr ()"
  using assms
proof (induction xs arbitrary: ids children)
  case (Cons x xs)
  then have x: "execution_ok pr x" by simp
  have len: "length (te_attempts x) \<le> 8"
  proof (cases "te_attempts x" rule: rev_cases)
    case (snoc as a)
    with execution_ok_number [OF x, of "length as"]
    have "unat (crd_attempt (att_dispatch a)) = length as + 1" by simp
    moreover have "crd_attempt (att_dispatch a) \<le> 8"
      using x snoc by (auto simp: execution_ok_def attempt_ok_def validate_child_run_descriptor_def valid_budget_def Let_def)
    then have "unat (crd_attempt (att_dispatch a)) \<le> 8" by (simp add: word_le_nat_alt)
    ultimately show ?thesis using snoc by simp
  qed simp
  have "check_attempts pr x (length ([] :: Attempt list)) children (te_attempts x) =
      Inr (children \<union> set (map att_child_run_id (te_attempts x)))"
    using x Cons.prems by (intro check_attempts_ok) (auto simp: execution_ok_def)
  moreover have "check_executions pr (insert (te_task_id x) ids)
      (children \<union> set (map att_child_run_id (te_attempts x))) xs = Inr ()"
  proof (rule Cons.IH)
    show "set (concat (map (\<lambda>x. map att_child_run_id (te_attempts x)) xs)) \<inter>
        (children \<union> set (map att_child_run_id (te_attempts x))) = {}"
      using Cons.prems(4,5) by (simp add: Int_Un_distrib Int_Un_distrib2 Int_commute)
  qed (use Cons.prems in auto)
  ultimately show ?case using len Cons.prems(3) by simp
qed simp

lemma initial_readiness_total:
  "set (map task_id ts) \<subseteq> set (map te_task_id xs) \<Longrightarrow> \<exists>rs. initial_readiness policy xs ts = Inr rs"
proof (induction ts)
  case (Cons t ts)
  then obtain x where "find_execution (task_id t) xs = Some x"
    by (cases "find_execution (task_id t) xs") (auto simp: find_execution_def find_None_iff)
  with Cons show ?case by auto
qed simp

lemma scan_dependencies_total:
  "\<forall>d \<in> set ds. find_readiness d rs \<noteq> None \<Longrightarrow> \<exists>y. scan_dependencies rs ds bs p = Inr y"
  by (induction ds arbitrary: bs p) (auto split: option.split)

lemma readiness_pass_total:
  assumes "aligned tasks rs" and "closed_tasks tasks" and "set is \<subseteq> {..<length tasks}"
  shows "\<exists>y. readiness_pass tasks is rs ch = Inr y"
  using assms
proof (induction "is" arbitrary: rs ch)
  case (Cons i "is")
  then have i: "i < length tasks" by simp
  have "find_readiness d rs \<noteq> None" if "d \<in> set (dependency_task_ids (tasks ! i))" for d
  proof -
    from that i Cons.prems(2) have "d \<in> task_id ` set tasks" by (auto simp: closed_tasks_def)
    then obtain j where "j < length tasks" "d = task_id (tasks ! j)" by (auto simp: in_set_conv_nth)
    with aligned_nth(3) [OF Cons.prems(1)] show ?thesis by simp
  qed
  with scan_dependencies_total obtain bs p where
    "scan_dependencies rs (dependency_task_ids (tasks ! i)) [] False = Inr (bs, p)" by fastforce
  moreover have "aligned tasks (rs[i := (rs ! i)\<lparr>tr_state := st, tr_blockers := bs\<rparr>])" for st
    using aligned_nth [OF Cons.prems(1) i] by (intro aligned_update(1) [OF Cons.prems(1) i]) simp
  ultimately show ?case using Cons by (simp add: Let_def)
qed simp

lemma readiness_passes_total:
  assumes "aligned tasks rs" and "closed_tasks tasks"
  shows "\<exists>y. readiness_passes n tasks rs = Inr y"
  using assms
proof (induction n arbitrary: rs)
  case (Suc n)
  have sub: "set [0..<length tasks] \<subseteq> {..<length tasks}" by auto
  from readiness_pass_total [OF Suc.prems this] obtain rs' ch where
    p: "readiness_pass tasks [0..<length tasks] rs False = Inr (rs', ch)" by fastforce
  from readiness_pass_states [OF Suc.prems(1) sub p] have "aligned tasks rs'" by simp
  with Suc p show ?case by simp
qed simp

lemma rollup_attempts_error: "rollup_attempts ro as = Inl e \<Longrightarrow> e = Schedule_resource_exhausted"
  by (induction as arbitrary: ro) (auto split: option.split_asm)

lemma rollup_executions_error: "rollup_executions policy ro xs = Inl e \<Longrightarrow> e = Schedule_resource_exhausted"
  by (induction xs arbitrary: ro) (auto simp: bind_result_Inl dest: rollup_attempts_error)

text \<open>
  The results of the child runs report what they consumed.  The rollup adds it up in counters of 32
  and 64 bits and fails exactly when one of the sums does not fit.
\<close>

definition attempts_reported :: "Attempt list \<Rightarrow> ChildRunConsumption list" where
  "attempts_reported as = concat (map (\<lambda>a. case att_result a of None \<Rightarrow> [] | Some r \<Rightarrow> [str_consumption r]) as)"

definition reported :: "TaskExecution list \<Rightarrow> ChildRunConsumption list" where
  "reported xs = concat (map (\<lambda>x. attempts_reported (te_attempts x)) xs)"

definition counters_hold :: "ChildRunConsumption list \<Rightarrow> bool" where
  "counters_hold cs \<longleftrightarrow>
     (\<Sum>c \<leftarrow> cs. unat (inference_count c)) < 2 ^ 32 \<and> (\<Sum>c \<leftarrow> cs. unat (tool_invocation_count c)) < 2 ^ 32 \<and>
     (\<Sum>c \<leftarrow> cs. unat (input_tokens (consumed_usage c))) < 2 ^ 64 \<and>
     (\<Sum>c \<leftarrow> cs. unat (output_tokens (consumed_usage c))) < 2 ^ 64 \<and>
     (\<Sum>c \<leftarrow> cs. unat (cached_input_tokens (consumed_usage c))) < 2 ^ 64 \<and>
     (\<Sum>c \<leftarrow> cs. unat (reasoning_tokens (consumed_usage c))) < 2 ^ 64"

lemma unat_below: "unat (a :: 'a :: len word) < 2 ^ LENGTH('a)"
  by (rule unsigned_less)

lemma checked_add_None: "checked_add a b = None \<longleftrightarrow> 2 ^ LENGTH('a) \<le> unat a + unat (b :: 'a :: len word)"
proof -
  have top: "unat (- 1 - a) = 2 ^ LENGTH('a) - 1 - unat a" by (simp add: unat_sub unsigned_minus_1_eq_mask mask_eq_exp_minus_1)
  have "b > - 1 - a \<longleftrightarrow> 2 ^ LENGTH('a) \<le> unat a + unat b"
    unfolding word_less_nat_alt top using unat_below [of a] by linarith
  then show ?thesis by (simp add: checked_add_def)
qed

lemma checked_add_Some: "checked_add a b = Some c \<Longrightarrow> unat c = unat a + unat (b :: 'a :: len word)"
  using checked_add_None [of a b] iffD1 [OF unat_add_lem, of a b] by (auto simp: checked_add_def split: if_split_asm)

lemma add_consumption_counters:
  "counters_hold (c # r # cs) \<longleftrightarrow> (\<exists>d. add_consumption c r = Some d \<and> counters_hold (d # cs))"
proof (cases "add_consumption c r")
  case None
  then have "\<not> counters_hold (c # r # cs)"
    by (auto simp: add_consumption_def counters_hold_def checked_add_None bind_eq_None_conv)
  with None show ?thesis by simp
next
  case (Some d)
  then have "counters_hold (d # cs) \<longleftrightarrow> counters_hold (c # r # cs)"
    by (auto simp: add_consumption_def counters_hold_def bind_eq_Some_conv dest!: checked_add_Some)
  with Some show ?thesis by simp
qed

lemma rollup_attempts_counters:
  "counters_hold (ro_consumption ro # attempts_reported as @ cs) \<longleftrightarrow>
    (\<exists>ro'. rollup_attempts ro as = Inr ro' \<and> counters_hold (ro_consumption ro' # cs))"
proof (induction as arbitrary: ro)
  case (Cons a as)
  show ?case
  proof (cases "att_result a")
    case None
    with Cons.IH [of ro] show ?thesis by (simp add: attempts_reported_def)
  next
    case (Some r)
    let ?next = "\<lambda>d. ro\<lparr>ro_consumption := d, ro_evidence_ids := append_unique (ro_evidence_ids ro) (str_evidence_ids r),
      ro_artifact_ids := append_unique (ro_artifact_ids ro) (str_artifact_ids r)\<rparr>"
    have "counters_hold (ro_consumption ro # attempts_reported (a # as) @ cs) \<longleftrightarrow>
      (\<exists>d. add_consumption (ro_consumption ro) (str_consumption r) = Some d \<and>
        counters_hold (ro_consumption (?next d) # attempts_reported as @ cs))"
      using Some by (simp add: attempts_reported_def add_consumption_counters)
    with Some show ?thesis unfolding Cons.IH by (auto split: option.split)
  qed
qed (simp add: attempts_reported_def)

lemma rollup_executions_counters:
  "counters_hold (ro_consumption ro # reported xs) \<longleftrightarrow>
    (\<exists>ro'. rollup_executions policy ro xs = Inr ro' \<and> counters_hold [ro_consumption ro'])"
proof (induction xs arbitrary: ro)
  case (Cons x xs)
  let ?ro = "if te_attempts x \<noteq> [] \<and> map_option str_outcome (att_result (last (te_attempts x))) = Some Outcome_completed
    then ro\<lparr>ro_completed_tasks := ro_completed_tasks ro + 1\<rparr>
    else if te_attempts x \<noteq> [] \<and> att_result (last (te_attempts x)) \<noteq> None \<and> \<not> retryable x policy
    then ro\<lparr>ro_failed_tasks := ro_failed_tasks ro + 1\<rparr> else ro"
  have same: "ro_consumption ?ro = ro_consumption ro" by simp
  have "counters_hold (ro_consumption ro # reported (x # xs)) \<longleftrightarrow>
    (\<exists>ro'. rollup_attempts ?ro (te_attempts x) = Inr ro' \<and> counters_hold (ro_consumption ro' # reported xs))"
    using rollup_attempts_counters [of ?ro "te_attempts x" "reported xs"] unfolding same by (simp add: reported_def)
  also have "\<dots> \<longleftrightarrow> (\<exists>ro'. rollup_executions policy ro (x # xs) = Inr ro' \<and> counters_hold [ro_consumption ro'])"
    by (auto simp: Cons.IH)
  finally show ?case .
qed (simp add: reported_def)

lemma rollup_counters: "counters_hold (reported xs) \<longleftrightarrow> (\<exists>ro. rollup_executions policy empty_rollup xs = Inr ro)"
proof -
  have "counters_hold [c]" for c
    using unat_below [of "inference_count c"] unat_below [of "tool_invocation_count c"]
      unat_below [of "input_tokens (consumed_usage c)"] unat_below [of "output_tokens (consumed_usage c)"]
      unat_below [of "cached_input_tokens (consumed_usage c)"] unat_below [of "reasoning_tokens (consumed_usage c)"]
    by (simp add: counters_hold_def)
  moreover have "counters_hold (reported xs) \<longleftrightarrow> counters_hold (ro_consumption empty_rollup # reported xs)"
    by (simp add: counters_hold_def empty_rollup_def)
  ultimately show ?thesis using rollup_executions_counters [of empty_rollup xs policy] by simp
qed

text \<open>
  C22: the plan projection meets the scheduler.  For a materialized revision of an accepted plan whose
  attempts have distinct child runs, under a policy within its bounds, the scheduler never finds the
  projection or the policy invalid: it returns an analysis exactly when the consumption reported by the
  child runs fits its counters, and otherwise reports exhaustion.
\<close>

theorem projected_plan_is_schedulable:
  assumes "PlanGraph_rebuild l es = Inr s" and "current_revision s = Some p"
    and "ppr_materialization_event_id p \<noteq> None"
    and "distinct (concat (map (\<lambda>x. map att_child_run_id (te_attempts x)) (ppr_task_executions p)))"
    and "0 < maximum_concurrency policy" "maximum_concurrency policy \<le> 16"
    and "0 < maximum_attempts policy" "maximum_attempts policy \<le> 8"
  shows "if counters_hold (reported (ppr_task_executions p)) then \<exists>a. analyze_task_schedule p policy = Inr a
    else analyze_task_schedule p policy = Inl Schedule_resource_exhausted"
proof -
  let ?tasks = "pr_tasks (ppr_revision p)" and ?xs = "ppr_task_executions p"
  from revision_ok_current [OF rebuild_ok [OF assms(1)] assms(2)] have ok: "revision_ok l p" by simp
  then have v: "validate_plan_revision (ppr_revision p) l = Inr ()" by (simp add: revision_ok_def)
  note cl = validated_closed [OF v]
  from ok assms(3) have ids: "map te_task_id ?xs = map task_id ?tasks" by (simp add: revision_ok_def)
  then have len: "length ?tasks = length ?xs" by (metis length_map)
  have chk: "check_executions (ppr_revision p) {} {} ?xs = Inr ()"
    using ok ids cl assms(4) by (intro check_executions_ok) (auto simp: revision_ok_def closed_tasks_def)
  obtain ini where ini: "initial_readiness policy ?xs ?tasks = Inr ini"
    using initial_readiness_total [of ?tasks ?xs] ids by auto
  have "aligned ?tasks ini"
    using initial_readiness_states [OF ini] cl by (simp add: aligned_def closed_tasks_def)
  from readiness_passes_total [OF this cl] obtain rs where
    rs: "readiness_passes (length ?tasks) ?tasks ini = Inr rs" by blast
  have pol: "\<not> (maximum_concurrency policy = 0 \<or> maximum_concurrency policy > 16 \<or>
      maximum_attempts policy = 0 \<or> maximum_attempts policy > 8)"
    using assms(5-8) by auto
  show ?thesis
  proof (cases "rollup_executions policy empty_rollup ?xs")
    case (Inl e)
    then have "\<not> counters_hold (reported ?xs)" using rollup_counters [of ?xs policy] by simp
    with Inl rollup_executions_error [OF Inl] pol len chk ini rs show ?thesis
      by (simp add: analyze_task_schedule_def Let_def case_prod_beta fail_if_def)
  next
    case (Inr ro)
    then have "counters_hold (reported ?xs)" using rollup_counters [of ?xs policy] by blast
    with Inr pol len chk ini rs show ?thesis
      by (simp add: analyze_task_schedule_def Let_def case_prod_beta fail_if_def)
  qed
qed

definition sample_policy :: TaskSchedulingPolicy where
  "sample_policy = \<lparr>maximum_concurrency = 1, maximum_attempts = 1\<rparr>"

text \<open>The sample plan after \<open>b\<close> has completed: \<open>a\<close> is dispatched.\<close>

definition sample_scheduled :: ProjectedPlanRevision where
  "sample_scheduled = sample_plan_revision
     [\<lparr>te_task_id = Id ''a'', te_attempts = []\<rparr>,
      \<lparr>te_task_id = Id ''b'', te_attempts = [sample_attempt ''b'' (Id ''k1'')
        (Some (sample_result ''b'' (Id ''k1'') Outcome_completed None))]\<rparr>]"

lemma sample_analysis:
  "\<exists>a. analyze_task_schedule sample_scheduled sample_policy = Inr a \<and> an_dispatchable_task_ids a = [Id ''a'']"
proof -
  have "case analyze_task_schedule sample_scheduled sample_policy of
      Inl _ \<Rightarrow> False | Inr a \<Rightarrow> an_dispatchable_task_ids a = [Id ''a'']"
    by code_simp
  then show ?thesis by (auto split: sum.split_asm)
qed

lemma sample_scheduled_valid:
  "validate_plan_revision (ppr_revision (sample_plan_revision xs)) default_plan_limits = Inr ()"
  "pr_tasks (ppr_revision (sample_plan_revision xs)) = [sample_task ''a'' [''b''], sample_task ''b'' []]"
  by (simp_all add: sample_plan_revision_def sample_revision_valid) (simp add: sample_revision_def)

theorem dispatch_is_safe_witness:
  "\<exists>a. analyze_task_schedule sample_scheduled sample_policy = Inr a \<and>
    attempt_states sample_policy sample_scheduled (Id ''b'') = Some Task_completed"
proof -
  from sample_analysis obtain a where a: "analyze_task_schedule sample_scheduled sample_policy = Inr a"
    "an_dispatchable_task_ids a = [Id ''a'']" by blast
  from dispatch_is_safe [OF a(1), of default_plan_limits "sample_task ''a'' [''b'']"] a show ?thesis
    by (simp add: sample_scheduled_def sample_scheduled_valid) (simp add: sample_task_def)
qed

text \<open>The sample plan after \<open>b\<close> has failed: \<open>a\<close> is blocked.\<close>

definition sample_blocked :: ProjectedPlanRevision where
  "sample_blocked = sample_plan_revision
     [\<lparr>te_task_id = Id ''a'', te_attempts = []\<rparr>,
      \<lparr>te_task_id = Id ''b'', te_attempts = [sample_attempt ''b'' (Id ''k1'')
        (Some (sample_result ''b'' (Id ''k1'') Outcome_failed
          (Some \<lparr>err_code = Err_backend, err_message = ''m'', err_retryable = False\<rparr>)))]\<rparr>]"

lemma sample_blocked_analysis: "\<exists>a. analyze_task_schedule sample_blocked sample_policy = Inr a"
proof -
  have "\<not> isl (analyze_task_schedule sample_blocked sample_policy)" by code_simp
  then show ?thesis by (cases "analyze_task_schedule sample_blocked sample_policy") auto
qed

theorem readiness_is_exact_witness:
  "\<exists>a r. analyze_task_schedule sample_blocked sample_policy = Inr a \<and>
    find_readiness (Id ''a'') (an_tasks a) = Some r \<and> tr_state r = Task_blocked_by_dependency"
proof -
  let ?\<sigma> = "attempt_states sample_policy sample_blocked" and ?t = "sample_task ''a'' [''b'']"
  have tasks: "pr_tasks (ppr_revision sample_blocked) = [?t, sample_task ''b'' []]"
    by (simp add: sample_blocked_def sample_scheduled_valid)
  have st: "?\<sigma> (Id ''b'') = Some Task_failed" "?\<sigma> (Id ''a'') = Some Task_ready" by code_simp+
  then have "doomed (pr_tasks (ppr_revision sample_blocked)) ?\<sigma> (task_id ?t)"
    by (intro by_failure [of _ _ _ "Id ''b''"]) (simp_all add: tasks pending_def decided_def sample_task_def)
  moreover obtain a where a: "analyze_task_schedule sample_blocked sample_policy = Inr a"
    using sample_blocked_analysis by blast
  moreover have "?t \<in> set (pr_tasks (ppr_revision sample_blocked))" by (simp add: tasks)
  moreover have "validate_plan_revision (ppr_revision sample_blocked) default_plan_limits = Inr ()"
    by (simp add: sample_blocked_def sample_scheduled_valid)
  ultimately show ?thesis
    using readiness_is_exact [OF a, of default_plan_limits ?t] by (auto simp: sample_task_def)
qed

theorem schedule_makes_progress_witness:
  "\<exists>a. analyze_task_schedule sample_scheduled sample_policy = Inr a \<and> (an_dispatchable_task_ids a \<noteq> [] \<or>
    doomed (pr_tasks (ppr_revision sample_scheduled)) (attempt_states sample_policy sample_scheduled) (Id ''a''))"
proof -
  let ?\<sigma> = "attempt_states sample_policy sample_scheduled"
  from sample_analysis obtain a where a: "analyze_task_schedule sample_scheduled sample_policy = Inr a" by blast
  have st: "?\<sigma> (Id ''b'') = Some Task_completed" "?\<sigma> (Id ''a'') = Some Task_ready" by code_simp+
  have "validate_plan_revision (ppr_revision sample_scheduled) default_plan_limits = Inr ()"
    by (simp add: sample_scheduled_def sample_scheduled_valid)
  from schedule_makes_progress [OF a this] st a show ?thesis
    by (simp add: sample_scheduled_def sample_scheduled_valid) (auto simp: sample_task_def)
qed

theorem projected_plan_is_schedulable_witness:
  "\<exists>a. analyze_task_schedule (last (pg_revisions sample_plan)) sample_policy = Inr a"
proof -
  let ?p = "last (pg_revisions sample_plan)"
  have "if counters_hold (reported (ppr_task_executions ?p)) then \<exists>a. analyze_task_schedule ?p sample_policy = Inr a
    else analyze_task_schedule ?p sample_policy = Inl Schedule_resource_exhausted"
    by (rule projected_plan_is_schedulable [OF sample_plan_start_replay])
      (simp_all add: current_revision_def sample_plan_def sample_plan_revision_def sample_policy_def)
  moreover have "counters_hold (reported (ppr_task_executions ?p))"
    by (simp add: sample_plan_def sample_plan_revision_def reported_def attempts_reported_def counters_hold_def)
  ultimately show ?thesis by simp
qed

end
