(* ===== verification/ProjectBacklog.thy ===== *)
theory ProjectBacklog
  imports Projection
begin

text \<open>
  The backlog of a repository: \<^verbatim>\<open>src/lib/project_backlog.cpp\<close> with
  \<^verbatim>\<open>include/aiforge/domain/project_backlog.hpp\<close> and \<^verbatim>\<open>project_backlog_projection.hpp\<close>.  Tasks
  of session plans are promoted to the backlog, and their status changes under an optimistic check:
  a change names the event that set the status it replaces.
\<close>

section \<open>State\<close>

record ProjectedBacklogItem =
  bx_item :: ProjectBacklogItem
  bx_promotion_event_id :: EventId
  bx_status :: ProjectBacklogItemStatus
  bx_status_event_id :: EventId
  bx_status_reason :: "string option"

record ProjectBacklogLimits =
  maximum_items :: nat
  maximum_reason_bytes :: nat

datatype ProjectBacklogErrorCode =
    Backlog_invalid_limits | Backlog_invalid_item | Backlog_invalid_transition | Backlog_wrong_repository
  | Backlog_duplicate_identity | Backlog_duplicate_origin | Backlog_stale_status
  | Backlog_non_monotonic_sequence | Backlog_duplicate_event | Backlog_resource_exhausted
  | Backlog_internal_failure

record ProjectBacklogProjection =
  pb_repository_id :: RepositoryId
  pb_items :: "ProjectedBacklogItem list"
  pb_event_ids :: "(SessionId \<times> EventId) set"
  pb_last_sequences :: "SessionId \<rightharpoonup> u64"

definition default_backlog_limits :: ProjectBacklogLimits where
  "default_backlog_limits = \<lparr>maximum_items = 4096, maximum_reason_bytes = 16 * 1024\<rparr>"

definition ProjectBacklog_initial :: "RepositoryId \<Rightarrow> ProjectBacklogProjection" where
  "ProjectBacklog_initial repository =
     \<lparr>pb_repository_id = repository, pb_items = [], pb_event_ids = {}, pb_last_sequences = Map.empty\<rparr>"

section \<open>Validation\<close>

definition backlog_valid_limits :: "ProjectBacklogLimits \<Rightarrow> bool" where
  "backlog_valid_limits l \<longleftrightarrow> maximum_items l > 0 \<and> maximum_reason_bytes l > 0"

definition valid_reason :: "string option \<Rightarrow> ProjectBacklogLimits \<Rightarrow> bool" where
  "valid_reason reason l =
     (case reason of
        None \<Rightarrow> True
      | Some r \<Rightarrow>
          if r = [] \<or> length r > maximum_reason_bytes l then False
          else \<not> list_ex (\<lambda>c. byte c = 0 \<or> byte c = 0x7f \<or> (byte c < 0x20 \<and> byte c \<noteq> 10 \<and> byte c \<noteq> 9)) r)"

definition standalone_revision :: "ProjectBacklogItem \<Rightarrow> PlanRevision" where
  "standalone_revision item =
     \<lparr>pr_plan_id = pbo_plan_id (pbi_origin item), pr_revision_id = pbo_revision_id (pbi_origin item),
      supersedes_revision_id = None, pr_goal = ''promoted project backlog task'', source_snapshot = None,
      pr_tasks = [(pbi_task item)\<lparr>parent_task_id := None, dependency_task_ids := []\<rparr>], pr_evidence = []\<rparr>"

definition validate_project_backlog_item ::
  "ProjectBacklogItem \<Rightarrow> ProjectBacklogLimits \<Rightarrow> ProjectBacklogErrorCode + unit" where
  "validate_project_backlog_item item l =
     fail_if (\<not> backlog_valid_limits l) Backlog_invalid_limits
    (fail_if (parent_task_id (pbi_task item) = Some (task_id (pbi_task item)) \<or>
              task_id (pbi_task item) \<in> set (dependency_task_ids (pbi_task item)) \<or>
              \<not> distinct (dependency_task_ids (pbi_task item)) \<or>
              isl (validate_plan_revision (standalone_revision item) default_plan_limits)) Backlog_invalid_item
    (fail_if (pbo_task_id (pbi_origin item) \<noteq> task_id (pbi_task item)) Backlog_invalid_item
    (Inr ())))"

definition validate_project_backlog_status_change ::
  "ProjectBacklogStatusChange \<Rightarrow> ProjectBacklogLimits \<Rightarrow> ProjectBacklogErrorCode + unit" where
  "validate_project_backlog_status_change change l =
     fail_if (\<not> backlog_valid_limits l) Backlog_invalid_limits
    (fail_if (\<not> valid_reason (psc_reason change) l) Backlog_invalid_item
    (fail_if (psc_status change = Backlog_resolved \<and> psc_reason change = None) Backlog_invalid_item
    (Inr ())))"

section \<open>Steps\<close>

definition backlog_find :: "ProjectBacklogItemId \<Rightarrow> ProjectBacklogProjection \<Rightarrow> ProjectedBacklogItem option" where
  "backlog_find iid s = find (\<lambda>x. pbi_item_id (bx_item x) = iid) (pb_items s)"

definition on_item_promoted ::
  "ProjectBacklogLimits \<Rightarrow> SessionId \<Rightarrow> ProjectBacklogProjection \<Rightarrow> RunEvent \<Rightarrow> ProjectBacklogItem
    \<Rightarrow> ProjectBacklogErrorCode + ProjectBacklogProjection" where
  "on_item_promoted l session s event item =
     bind_result (validate_project_backlog_item item l) (\<lambda>_.
     if pbi_repository_id item \<noteq> pb_repository_id s then Inr s
     else
       fail_if (pbo_session_id (pbi_origin item) \<noteq> session) Backlog_invalid_item
      (fail_if (length (pb_items s) \<ge> maximum_items l) Backlog_resource_exhausted
      (fail_if (list_ex (\<lambda>x. pbi_item_id (bx_item x) = pbi_item_id item) (pb_items s)) Backlog_duplicate_identity
      (fail_if (list_ex (\<lambda>x. pbi_origin (bx_item x) = pbi_origin item) (pb_items s)) Backlog_duplicate_origin
      (Inr (s\<lparr>pb_items := pb_items s @
         [\<lparr>bx_item = item, bx_promotion_event_id = event_ident event, bx_status = Backlog_open,
           bx_status_event_id = event_ident event, bx_status_reason = None\<rparr>]\<rparr>))))))"

definition on_item_status_changed ::
  "ProjectBacklogLimits \<Rightarrow> SessionId \<Rightarrow> ProjectBacklogProjection \<Rightarrow> RunEvent \<Rightarrow> ProjectBacklogStatusChange
    \<Rightarrow> ProjectBacklogErrorCode + ProjectBacklogProjection" where
  "on_item_status_changed l session s event change =
     bind_result (validate_project_backlog_status_change change l) (\<lambda>_.
     if psc_repository_id change \<noteq> pb_repository_id s then Inr s
     else case backlog_find (psc_item_id change) s of
         None \<Rightarrow> Inl Backlog_invalid_transition
       | Some found \<Rightarrow>
           fail_if (pbo_session_id (pbi_origin (bx_item found)) \<noteq> session) Backlog_invalid_transition
          (fail_if (psc_expected_status_event_id change \<noteq> Some (bx_status_event_id found)) Backlog_stale_status
          (fail_if (bx_status found = psc_status change) Backlog_invalid_transition
          (Inr (s\<lparr>pb_items := modify_first (\<lambda>x. pbi_item_id (bx_item x) = psc_item_id change)
             (\<lambda>x. x\<lparr>bx_status := psc_status change, bx_status_event_id := event_ident event,
                     bx_status_reason := psc_reason change\<rparr>) (pb_items s)\<rparr>)))))"

definition backlog_visit ::
  "ProjectBacklogLimits \<Rightarrow> SessionId \<Rightarrow> ProjectBacklogProjection \<Rightarrow> RunEvent
    \<Rightarrow> ProjectBacklogErrorCode + ProjectBacklogProjection" where
  "backlog_visit l session s event =
     (case payload event of
        ProjectBacklogItemPromoted item \<Rightarrow> on_item_promoted l session s event item
      | ProjectBacklogItemStatusChanged change \<Rightarrow> on_item_status_changed l session s event change
      | _ \<Rightarrow> Inr s)"

definition previous_sequence :: "SessionId \<Rightarrow> ProjectBacklogProjection \<Rightarrow> u64" where
  "previous_sequence session s = (case pb_last_sequences s session of None \<Rightarrow> 0 | Some n \<Rightarrow> n)"

definition ProjectBacklog_apply ::
  "ProjectBacklogLimits \<Rightarrow> SessionId \<Rightarrow> ProjectBacklogProjection \<Rightarrow> RunEvent
    \<Rightarrow> ProjectBacklogErrorCode + ProjectBacklogProjection" where
  "ProjectBacklog_apply l session s event =
     fail_if (\<not> backlog_valid_limits l) Backlog_invalid_limits
    (fail_if (event_sequence event = 0 \<or> event_sequence event \<le> previous_sequence session s)
       Backlog_non_monotonic_sequence
    (fail_if ((session, event_ident event) \<in> pb_event_ids s) Backlog_duplicate_event
    (bind_result (backlog_visit l session s event) (\<lambda>s'.
     Inr (s'\<lparr>pb_event_ids := insert (session, event_ident event) (pb_event_ids s'),
             pb_last_sequences := (pb_last_sequences s')(session \<mapsto> event_sequence event)\<rparr>)))))"

record ProjectBacklogSessionEvents =
  bse_session_id :: SessionId
  bse_events :: "RunEvent list"

definition ProjectBacklog_rebuild ::
  "RepositoryId \<Rightarrow> ProjectBacklogSessionEvents list \<Rightarrow> ProjectBacklogLimits
    \<Rightarrow> ProjectBacklogErrorCode + ProjectBacklogProjection" where
  "ProjectBacklog_rebuild repository histories l =
     replay (\<lambda>s history. replay (ProjectBacklog_apply l (bse_session_id history)) s (bse_events history))
       (ProjectBacklog_initial repository) histories"

section \<open>Consistency\<close>

definition backlog_item_ok :: "ProjectBacklogProjection \<Rightarrow> ProjectedBacklogItem \<Rightarrow> bool" where
  "backlog_item_ok s x \<longleftrightarrow>
     pbi_repository_id (bx_item x) = pb_repository_id s \<and>
     pbo_task_id (pbi_origin (bx_item x)) = task_id (pbi_task (bx_item x)) \<and>
     (bx_status x = Backlog_resolved \<longrightarrow> bx_status_reason x \<noteq> None) \<and>
     (pbo_session_id (pbi_origin (bx_item x)), bx_promotion_event_id x) \<in> pb_event_ids s \<and>
     (pbo_session_id (pbi_origin (bx_item x)), bx_status_event_id x) \<in> pb_event_ids s"

definition backlog_ok :: "ProjectBacklogLimits \<Rightarrow> ProjectBacklogProjection \<Rightarrow> bool" where
  "backlog_ok l s \<longleftrightarrow>
     distinct (map (\<lambda>x. pbi_item_id (bx_item x)) (pb_items s)) \<and>
     distinct (map (\<lambda>x. pbi_origin (bx_item x)) (pb_items s)) \<and>
     length (pb_items s) \<le> maximum_items l \<and> list_all (backlog_item_ok s) (pb_items s)"

definition recorded :: "SessionId \<Rightarrow> RunEvent \<Rightarrow> ProjectBacklogProjection \<Rightarrow> ProjectBacklogProjection" where
  "recorded session e s =
     s\<lparr>pb_event_ids := insert (session, event_ident e) (pb_event_ids s),
       pb_last_sequences := (pb_last_sequences s)(session \<mapsto> event_sequence e)\<rparr>"

lemma recorded_simps [simp]:
  "pb_items (recorded session e s) = pb_items s" "pb_repository_id (recorded session e s) = pb_repository_id s"
  "pb_event_ids (recorded session e s) = insert (session, event_ident e) (pb_event_ids s)"
  by (simp_all add: recorded_def)

lemma ProjectBacklog_apply_Inr:
  "ProjectBacklog_apply l session s e = Inr s' \<longleftrightarrow> backlog_valid_limits l \<and>
    event_sequence e \<noteq> 0 \<and> event_sequence e > previous_sequence session s \<and>
    (session, event_ident e) \<notin> pb_event_ids s \<and>
    (\<exists>t. backlog_visit l session s e = Inr t \<and> s' = recorded session e t)"
  by (auto simp: ProjectBacklog_apply_def recorded_def)

lemma backlog_ok_recorded: "backlog_ok l s \<Longrightarrow> backlog_ok l (recorded session e s)"
  by (auto simp: backlog_ok_def backlog_item_ok_def list_all_iff)

lemma item_promotedE:
  assumes "on_item_promoted l session s e item = Inr t"
  obtains "t = s"
  | "t = s\<lparr>pb_items := pb_items s @
         [\<lparr>bx_item = item, bx_promotion_event_id = event_ident e, bx_status = Backlog_open,
           bx_status_event_id = event_ident e, bx_status_reason = None\<rparr>]\<rparr>"
    and "pbi_repository_id item = pb_repository_id s" and "pbo_session_id (pbi_origin item) = session"
    and "pbo_task_id (pbi_origin item) = task_id (pbi_task item)" and "length (pb_items s) < maximum_items l"
    and "\<forall>x \<in> set (pb_items s). pbi_item_id (bx_item x) \<noteq> pbi_item_id item"
    and "\<forall>x \<in> set (pb_items s). pbi_origin (bx_item x) \<noteq> pbi_origin item"
  using assms by (auto simp: on_item_promoted_def validate_project_backlog_item_def list_ex_iff split: if_split_asm)

lemma item_status_changedE:
  assumes "on_item_status_changed l session s e c = Inr t"
  obtains "t = s" and "psc_repository_id c \<noteq> pb_repository_id s"
  | x where "backlog_find (psc_item_id c) s = Some x" and "psc_repository_id c = pb_repository_id s"
    and "pbo_session_id (pbi_origin (bx_item x)) = session"
    and "psc_expected_status_event_id c = Some (bx_status_event_id x)" and "bx_status x \<noteq> psc_status c"
    and "psc_status c = Backlog_resolved \<longrightarrow> psc_reason c \<noteq> None"
    and "t = s\<lparr>pb_items := modify_first (\<lambda>x. pbi_item_id (bx_item x) = psc_item_id c)
             (\<lambda>x. x\<lparr>bx_status := psc_status c, bx_status_event_id := event_ident e,
                     bx_status_reason := psc_reason c\<rparr>) (pb_items s)\<rparr>"
  using assms by (auto simp: on_item_status_changed_def validate_project_backlog_status_change_def
      split: if_split_asm option.split_asm)

lemma backlog_visit_ok:
  assumes ok: "backlog_ok l s" and visit: "backlog_visit l session s e = Inr t"
  shows "backlog_ok l (recorded session e t)"
proof (cases "payload e")
  case (ProjectBacklogItemPromoted item)
  with visit have "on_item_promoted l session s e item = Inr t" by (simp add: backlog_visit_def)
  then show ?thesis
  proof (cases rule: item_promotedE)
    case 1
    with ok show ?thesis by (simp add: backlog_ok_recorded)
  next
    case 2
    with ok show ?thesis by (auto simp: backlog_ok_def backlog_item_ok_def list_all_iff)
  qed
next
  case (ProjectBacklogItemStatusChanged c)
  with visit have "on_item_status_changed l session s e c = Inr t" by (simp add: backlog_visit_def)
  then show ?thesis
  proof (cases rule: item_status_changedE)
    case 1
    with ok show ?thesis by (simp add: backlog_ok_recorded)
  next
    case (2 x)
    then obtain as bs where split: "pb_items s = as @ x # bs"
      and mod: "\<And>g. modify_first (\<lambda>x. pbi_item_id (bx_item x) = psc_item_id c) g (pb_items s) = as @ g x # bs"
      unfolding backlog_find_def by (metis modify_first_split)
    from 2 ok show ?thesis
      by (simp add: mod) (auto simp: split backlog_ok_def backlog_item_ok_def list_all_iff)
  qed
qed (use ok visit in \<open>simp_all add: backlog_visit_def backlog_ok_recorded\<close>)

interpretation backlog_session: invariant "ProjectBacklog_apply l session" "backlog_ok l" for l session
  by unfold_locales (auto simp: ProjectBacklog_apply_Inr intro: backlog_visit_ok)

interpretation backlog_sessions:
  invariant "\<lambda>s history. replay (ProjectBacklog_apply l (bse_session_id history)) s (bse_events history)" "backlog_ok l"
  for l
  by unfold_locales (rule backlog_session.replay_inv)

section \<open>What a history may do to the backlog\<close>

definition item_evolves :: "ProjectedBacklogItem \<Rightarrow> ProjectedBacklogItem \<Rightarrow> bool" where
  "item_evolves x y \<longleftrightarrow> bx_item y = bx_item x \<and> bx_promotion_event_id y = bx_promotion_event_id x"

definition backlog_evolves :: "ProjectBacklogProjection \<Rightarrow> ProjectBacklogProjection \<Rightarrow> bool" where
  "backlog_evolves s t \<longleftrightarrow> pb_repository_id t = pb_repository_id s \<and>
     prefix_rel item_evolves (pb_items s) (pb_items t)"

lemma item_evolves_refl: "item_evolves x x"
  by (simp add: item_evolves_def)

lemma item_evolves_trans: "item_evolves x y \<Longrightarrow> item_evolves y z \<Longrightarrow> item_evolves x z"
  by (simp add: item_evolves_def)

lemma backlog_visit_evolves:
  assumes "backlog_visit l session s e = Inr t" shows "backlog_evolves s (recorded session e t)"
proof (cases "payload e")
  case (ProjectBacklogItemPromoted item)
  with assms show ?thesis
    by (auto simp: backlog_visit_def backlog_evolves_def prefix_rel_refl item_evolves_refl
        prefix_rel_append [where R = item_evolves] elim!: item_promotedE)
next
  case (ProjectBacklogItemStatusChanged c)
  with assms show ?thesis
    by (auto simp: backlog_visit_def backlog_evolves_def prefix_rel_refl item_evolves_refl
        item_evolves_def elim!: item_status_changedE intro!: prefix_rel_modify_first [where R = item_evolves])
qed (use assms in \<open>simp_all add: backlog_visit_def backlog_evolves_def prefix_rel_refl item_evolves_refl\<close>)

lemma backlog_evolves_refl: "backlog_evolves s s"
  by (simp add: backlog_evolves_def prefix_rel_refl item_evolves_refl)

lemma backlog_evolves_trans: "backlog_evolves s t \<Longrightarrow> backlog_evolves t u \<Longrightarrow> backlog_evolves s u"
  by (auto simp: backlog_evolves_def intro: prefix_rel_trans [where R = item_evolves] item_evolves_trans)

interpretation backlog_evolving: evolving "ProjectBacklog_apply l session" backlog_evolves for l session
  by unfold_locales (auto simp: ProjectBacklog_apply_Inr backlog_evolves_refl
      intro: backlog_evolves_trans backlog_visit_evolves)

interpretation backlog_evolving_sessions:
  evolving "\<lambda>s history. replay (ProjectBacklog_apply l (bse_session_id history)) s (bse_events history)" backlog_evolves
  for l
  by unfold_locales (auto intro: backlog_evolves_refl backlog_evolves_trans backlog_evolving.replay_evolves)

text \<open>The status of an item has moved past the event \<open>old\<close>, and no event with that identity can come again.\<close>

definition superseded :: "ProjectBacklogItemId \<Rightarrow> SessionId \<Rightarrow> EventId \<Rightarrow> ProjectBacklogProjection \<Rightarrow> bool" where
  "superseded iid session old s \<longleftrightarrow> (session, old) \<in> pb_event_ids s \<and>
     (\<exists>x. backlog_find iid s = Some x \<and> pbo_session_id (pbi_origin (bx_item x)) = session \<and>
       bx_status_event_id x \<noteq> old)"

lemma backlog_find_change:
  assumes "backlog_find (psc_item_id c) s = Some x"
  shows "backlog_find (psc_item_id c) (s\<lparr>pb_items := modify_first (\<lambda>x. pbi_item_id (bx_item x) = psc_item_id c)
      (\<lambda>x. x\<lparr>bx_status := st, bx_status_event_id := i, bx_status_reason := r\<rparr>) (pb_items s)\<rparr>) =
    Some (x\<lparr>bx_status := st, bx_status_event_id := i, bx_status_reason := r\<rparr>)"
    and "iid \<noteq> psc_item_id c \<Longrightarrow>
      backlog_find iid (s\<lparr>pb_items := modify_first (\<lambda>x. pbi_item_id (bx_item x) = psc_item_id c)
        (\<lambda>x. x\<lparr>bx_status := st, bx_status_event_id := i, bx_status_reason := r\<rparr>) (pb_items s)\<rparr>) =
      backlog_find iid s"
proof -
  have "pbi_item_id (bx_item x) = psc_item_id c"
    using assms by (auto simp: backlog_find_def dest: find_SomeD)
  with find_modify_first_key [where key = "\<lambda>x. pbi_item_id (bx_item x)"
      and f = "\<lambda>x. x\<lparr>bx_status := st, bx_status_event_id := i, bx_status_reason := r\<rparr>"] assms
  show "backlog_find (psc_item_id c) (s\<lparr>pb_items := modify_first (\<lambda>x. pbi_item_id (bx_item x) = psc_item_id c)
      (\<lambda>x. x\<lparr>bx_status := st, bx_status_event_id := i, bx_status_reason := r\<rparr>) (pb_items s)\<rparr>) =
    Some (x\<lparr>bx_status := st, bx_status_event_id := i, bx_status_reason := r\<rparr>)"
    by (simp add: backlog_find_def)
qed (simp add: backlog_find_def find_modify_first_other [where key = "\<lambda>x. pbi_item_id (bx_item x)"])

lemma backlog_visit_superseded:
  assumes sup: "superseded iid session old s" and visit: "backlog_visit l session' s e = Inr t"
    and fresh: "(session', event_ident e) \<notin> pb_event_ids s"
  shows "superseded iid session old (recorded session' e t)"
proof -
  from sup obtain x where x: "backlog_find iid s = Some x" "pbo_session_id (pbi_origin (bx_item x)) = session"
    "bx_status_event_id x \<noteq> old" and old: "(session, old) \<in> pb_event_ids s"
    by (auto simp: superseded_def)
  have "\<exists>y. backlog_find iid t = Some y \<and> pbo_session_id (pbi_origin (bx_item y)) = session \<and>
      bx_status_event_id y \<noteq> old \<and> pb_event_ids t = pb_event_ids s"
  proof (cases "payload e")
    case (ProjectBacklogItemPromoted item)
    with visit x show ?thesis
      by (auto simp: backlog_visit_def backlog_find_def find_append elim!: item_promotedE)
  next
    case (ProjectBacklogItemStatusChanged c)
    with visit have "on_item_status_changed l session' s e c = Inr t" by (simp add: backlog_visit_def)
    then show ?thesis
    proof (cases rule: item_status_changedE)
      case 1
      with x show ?thesis by simp
    next
      case (2 y)
      show ?thesis
      proof (cases "iid = psc_item_id c")
        case True
        with 2 x fresh old show ?thesis by (auto simp: backlog_find_change(1))
      next
        case False
        with 2 x show ?thesis by (simp add: backlog_find_change(2))
      qed
    qed
  qed (use visit x in \<open>simp_all add: backlog_visit_def\<close>)
  with old show ?thesis by (auto simp: superseded_def backlog_find_def)
qed

interpretation backlog_superseded: invariant "ProjectBacklog_apply l session'" "superseded iid session old"
  for l session' iid session old
  by unfold_locales (auto simp: ProjectBacklog_apply_Inr intro: backlog_visit_superseded)

lemma superseded_refused:
  assumes sup: "superseded iid session old s" and e: "payload e = ProjectBacklogItemStatusChanged c"
    and c: "psc_item_id c = iid" "psc_repository_id c = pb_repository_id s" "psc_expected_status_event_id c = Some old"
  shows "ProjectBacklog_apply l session' s e \<noteq> Inr s'"
  using sup c e by (auto simp: ProjectBacklog_apply_Inr backlog_visit_def superseded_def elim!: item_status_changedE)

section \<open>Properties\<close>

lemma backlog_ok_initial: "backlog_ok l (ProjectBacklog_initial repository)"
  by (simp add: backlog_ok_def ProjectBacklog_initial_def)

lemma backlog_rebuild_ok:
  assumes "ProjectBacklog_rebuild repository histories l = Inr s"
  shows "backlog_ok l s \<and> pb_repository_id s = repository"
proof -
  note r = assms [unfolded ProjectBacklog_rebuild_def]
  from backlog_sessions.replay_inv [OF backlog_ok_initial r] backlog_evolving_sessions.replay_evolves [OF r]
  show ?thesis by (simp add: backlog_evolves_def ProjectBacklog_initial_def)
qed

text \<open>
  A backlog rebuilt from the histories of several sessions is consistent: it holds at most the
  allowed number of items, all of its repository, with distinct identities and distinct origins, so
  that no session task is promoted twice; every item records events of its own session, and a
  resolved item has a reason.
\<close>

theorem backlog_history_consistent:
  assumes "ProjectBacklog_rebuild repository histories l = Inr s"
  shows "length (pb_items s) \<le> maximum_items l \<and>
    distinct (map (\<lambda>x. pbi_item_id (bx_item x)) (pb_items s)) \<and>
    distinct (map (\<lambda>x. pbi_origin (bx_item x)) (pb_items s)) \<and>
    (\<forall>x \<in> set (pb_items s). pbi_repository_id (bx_item x) = repository \<and>
      pbo_task_id (pbi_origin (bx_item x)) = task_id (pbi_task (bx_item x)) \<and>
      (pbo_session_id (pbi_origin (bx_item x)), bx_status_event_id x) \<in> pb_event_ids s \<and>
      (bx_status x = Backlog_resolved \<longrightarrow> bx_status_reason x \<noteq> None))"
  using backlog_rebuild_ok [OF assms] by (auto simp: backlog_ok_def backlog_item_ok_def list_all_iff)

text \<open>
  C27: no update of a backlog item is lost.  Once a status change is accepted, a change that expects
  the status event it replaced is refused, immediately and after any further events: of two changes
  made from the same state only one takes effect.
\<close>

theorem backlog_no_lost_update:
  assumes "ProjectBacklog_rebuild repository histories l = Inr s"
    and "ProjectBacklog_apply l session s e = Inr s1" and "payload e = ProjectBacklogItemStatusChanged c"
    and "psc_repository_id c = repository" and "replay (ProjectBacklog_apply l session') s1 es = Inr s2"
    and "payload e' = ProjectBacklogItemStatusChanged c'" and "psc_item_id c' = psc_item_id c"
    and "psc_repository_id c' = repository" and "psc_expected_status_event_id c' = psc_expected_status_event_id c"
  shows "ProjectBacklog_apply l session'' s2 e' \<noteq> Inr s3"
proof -
  from backlog_rebuild_ok [OF assms(1)] have ok: "backlog_ok l s" and repo: "pb_repository_id s = repository" by auto
  from assms(2,3) obtain t where fresh: "(session, event_ident e) \<notin> pb_event_ids s"
    and step: "on_item_status_changed l session s e c = Inr t" and s1: "s1 = recorded session e t"
    by (auto simp: ProjectBacklog_apply_Inr backlog_visit_def)
  from step obtain x where x: "backlog_find (psc_item_id c) s = Some x"
      "pbo_session_id (pbi_origin (bx_item x)) = session"
      "psc_expected_status_event_id c = Some (bx_status_event_id x)"
    and t: "t = s\<lparr>pb_items := modify_first (\<lambda>x. pbi_item_id (bx_item x) = psc_item_id c)
             (\<lambda>x. x\<lparr>bx_status := psc_status c, bx_status_event_id := event_ident e,
                     bx_status_reason := psc_reason c\<rparr>) (pb_items s)\<rparr>"
    using repo assms(4) by (cases rule: item_status_changedE) auto
  have "x \<in> set (pb_items s)" using x(1) by (auto simp: backlog_find_def dest: find_SomeD)
  with ok x(2) have old: "(session, bx_status_event_id x) \<in> pb_event_ids s"
    by (auto simp: backlog_ok_def backlog_item_ok_def list_all_iff)
  have find: "backlog_find iid s1 = backlog_find iid t" for iid by (simp add: s1 backlog_find_def)
  have "superseded (psc_item_id c) session (bx_status_event_id x) s1"
    unfolding superseded_def find unfolding t backlog_find_change(1) [OF x(1)]
    using old fresh x(2) by (auto simp: s1 t)
  then have sup: "superseded (psc_item_id c) session (bx_status_event_id x) s2"
    by (rule backlog_superseded.replay_inv [OF _ assms(5)])
  have "pb_repository_id s2 = repository"
    using backlog_evolving.replay_evolves [OF assms(5)] repo by (simp add: backlog_evolves_def s1 t)
  with superseded_refused [OF sup assms(6)] assms(7-9) x(3) show ?thesis by simp
qed

definition sample_backlog_item :: ProjectBacklogItem where
  "sample_backlog_item =
     \<lparr>pbi_item_id = Id ''item'', pbi_repository_id = Id ''repo'',
      pbi_origin = \<lparr>pbo_session_id = Id ''s'', pbo_plan_id = Id ''p'', pbo_revision_id = Id ''r'', pbo_task_id = Id ''b''\<rparr>,
      pbi_task = sample_task ''b'' [], pbi_source = BacklogSource_user\<rparr>"

definition sample_change :: ProjectBacklogStatusChange where
  "sample_change =
     \<lparr>psc_item_id = Id ''item'', psc_repository_id = Id ''repo'', psc_status = Backlog_resolved,
      psc_source = BacklogSource_user, psc_reason = Some ''done'', psc_expected_status_event_id = Some (Id ''e'')\<rparr>"

definition sample_backlog_history :: "ProjectBacklogSessionEvents list" where
  "sample_backlog_history =
     [\<lparr>bse_session_id = Id ''s'', bse_events = [sample_event 1 (ProjectBacklogItemPromoted sample_backlog_item)]\<rparr>]"

definition sample_backlog :: ProjectBacklogProjection where
  "sample_backlog =
     \<lparr>pb_repository_id = Id ''repo'',
      pb_items = [\<lparr>bx_item = sample_backlog_item, bx_promotion_event_id = Id ''e'', bx_status = Backlog_open,
        bx_status_event_id = Id ''e'', bx_status_reason = None\<rparr>],
      pb_event_ids = {(Id ''s'', Id ''e'')}, pb_last_sequences = [Id ''s'' \<mapsto> 1]\<rparr>"

lemma sample_backlog_item_valid:
  "validate_project_backlog_item sample_backlog_item default_backlog_limits = Inr ()"
proof -
  have c: "has_cycle [sample_task ''b'' []] parent_edges = Some False"
    "has_cycle [sample_task ''b'' []] dependency_task_ids = Some False"
    by code_simp+
  have l: "plan_valid_limits default_plan_limits"
    by (simp add: plan_valid_limits_def default_plan_limits_def)
  have goal: "valid_utf8_text ''promoted project backlog task''"
    by (rule valid_utf8_text_ascii) (simp_all add: byte_def)
  have eq: "(sample_task ''b'' [])\<lparr>parent_task_id := None, dependency_task_ids := []\<rparr> = sample_task ''b'' []"
    by (simp add: sample_task_def)
  have "validate_plan_revision (standalone_revision sample_backlog_item) default_plan_limits = Inr ()"
    using c l
    by (simp add: validate_plan_revision_def standalone_revision_def sample_backlog_item_def eq)
      (simp add: sample_task_def validate_task_def default_plan_limits_def bounded_text_def sample_text goal
        add_text_bytes_def task_index_def)
  then show ?thesis
    by (simp add: validate_project_backlog_item_def backlog_valid_limits_def default_backlog_limits_def
        sample_backlog_item_def sample_task_def)
qed

lemma sample_backlog_rebuild:
  "ProjectBacklog_rebuild (Id ''repo'') sample_backlog_history default_backlog_limits = Inr sample_backlog"
proof -
  have "pbi_repository_id sample_backlog_item = Id ''repo''" "pbo_session_id (pbi_origin sample_backlog_item) = Id ''s''"
    by (simp_all add: sample_backlog_item_def)
  then show ?thesis
    by (simp add: ProjectBacklog_rebuild_def sample_backlog_history_def ProjectBacklog_apply_def backlog_visit_def
        on_item_promoted_def sample_event_def sample_backlog_item_valid ProjectBacklog_initial_def
        previous_sequence_def sample_backlog_def)
      (simp add: backlog_valid_limits_def default_backlog_limits_def)
qed

theorem backlog_history_consistent_witness:
  "distinct (map (\<lambda>x. pbi_origin (bx_item x)) (pb_items sample_backlog)) \<and> length (pb_items sample_backlog) = 1"
  using backlog_history_consistent [OF sample_backlog_rebuild] by (simp add: sample_backlog_def)

lemma sample_backlog_change:
  "\<exists>s. ProjectBacklog_apply default_backlog_limits (Id ''s'') sample_backlog
    (sample_event 2 (ProjectBacklogItemStatusChanged sample_change)) = Inr s"
proof -
  have "pbi_item_id sample_backlog_item = Id ''item''" "pbo_session_id (pbi_origin sample_backlog_item) = Id ''s''"
    by (simp_all add: sample_backlog_item_def)
  then show ?thesis
    by (simp add: ProjectBacklog_apply_def backlog_visit_def on_item_status_changed_def sample_event_def
        sample_backlog_def sample_change_def backlog_find_def previous_sequence_def backlog_valid_limits_def
        default_backlog_limits_def validate_project_backlog_status_change_def valid_reason_def byte_def
        replicate_numeral_Cons word_le_nat_alt)
qed

theorem backlog_no_lost_update_witness:
  "\<exists>s. ProjectBacklog_apply default_backlog_limits (Id ''s'') sample_backlog
      (sample_event 2 (ProjectBacklogItemStatusChanged sample_change)) = Inr s \<and>
    (\<forall>t. ProjectBacklog_apply default_backlog_limits (Id ''s'') s
      (sample_event 3 (ProjectBacklogItemStatusChanged sample_change)) \<noteq> Inr t)"
proof -
  from sample_backlog_change obtain s where s: "ProjectBacklog_apply default_backlog_limits (Id ''s'') sample_backlog
    (sample_event 2 (ProjectBacklogItemStatusChanged sample_change)) = Inr s" by blast
  have c: "payload (sample_event n (ProjectBacklogItemStatusChanged sample_change)) =
      ProjectBacklogItemStatusChanged sample_change" "psc_repository_id sample_change = Id ''repo''" for n
    by (simp_all add: sample_event_def sample_change_def)
  have "replay (ProjectBacklog_apply default_backlog_limits (Id ''s'')) s [] = Inr s" by simp
  with backlog_no_lost_update [OF sample_backlog_rebuild s c(1,2) _ c(1) refl c(2) refl] s show ?thesis by blast
qed

end
