(* ===== verification/Wav.thy ===== *)
theory Wav
  imports Prelude
begin

text \<open>
  PCM audio in RIFF/WAVE containers: \<^verbatim>\<open>src/lib/wav.cpp\<close>,
  \<^verbatim>\<open>include/aiforge/audio/wav.hpp\<close> and \<^verbatim>\<open>include/aiforge/audio/pcm.hpp\<close>.  A byte is a word of
  eight bits and a byte sequence a list of them; reads past the end do not occur, because every read
  of the parser is behind a bounds check.  Signed samples are kept as their sixteen bits, so
  \<^verbatim>\<open>std::bit_cast\<close> between \<^verbatim>\<open>int16_t\<close> and \<^verbatim>\<open>uint16_t\<close> is the identity.
\<close>

unbundle bit_operations_syntax

type_synonym bytes = "u8 list"

section \<open>Data\<close>

record Signed16Format =
  sf_sample_rate :: u32
  sf_channels :: u16

record Signed16Buffer =
  sb_format :: Signed16Format
  interleaved_samples :: "u16 list"

record PcmWavLimits =
  wl_maximum_bytes :: nat
  wl_maximum_chunks :: nat
  wl_maximum_channels :: u16
  wl_minimum_sample_rate :: u32
  wl_maximum_sample_rate :: u32

record PcmWavInfo =
  wi_channels :: u16
  wi_sample_rate :: u32
  wi_bits_per_sample :: u16
  wi_frames :: u64

datatype PcmWavErrorCode = Wav_invalid_limits | Wav_empty | Wav_too_large | Wav_malformed | Wav_unsupported

record ParsedPcmWav =
  pw_info :: PcmWavInfo
  pw_data_offset :: nat
  pw_data_size :: nat

section \<open>Reading and writing little-endian numbers\<close>

definition wav_u16 :: "bytes \<Rightarrow> nat \<Rightarrow> u16" where
  "wav_u16 bs offset = ucast (bs ! offset) OR push_bit 8 (ucast (bs ! (offset + 1)))"

definition wav_u32 :: "bytes \<Rightarrow> nat \<Rightarrow> u32" where
  "wav_u32 bs offset =
     ucast (bs ! offset) OR push_bit 8 (ucast (bs ! (offset + 1))) OR
     push_bit 16 (ucast (bs ! (offset + 2))) OR push_bit 24 (ucast (bs ! (offset + 3)))"

definition append_u16 :: "bytes \<Rightarrow> u16 \<Rightarrow> bytes" where
  "append_u16 bs v = bs @ [ucast (v AND 0xff), ucast (drop_bit 8 v AND 0xff)]"

definition append_u32 :: "bytes \<Rightarrow> u32 \<Rightarrow> bytes" where
  "append_u32 bs v =
     bs @ [ucast (v AND 0xff), ucast (drop_bit 8 v AND 0xff), ucast (drop_bit 16 v AND 0xff),
           ucast (drop_bit 24 v AND 0xff)]"

definition append_tag :: "bytes \<Rightarrow> string \<Rightarrow> bytes" where
  "append_tag bs v = bs @ map (\<lambda>c. word_of_nat (byte c)) v"

definition matches :: "bytes \<Rightarrow> nat \<Rightarrow> string \<Rightarrow> bool" where
  "matches bs offset expected =
     (if length expected > length bs - offset then False
      else list_all (\<lambda>i. unat (bs ! (offset + i)) = byte (expected ! i)) [0..<length expected])"

section \<open>Parsing\<close>

text \<open>The local variables of the chunk loop.\<close>

record WavScan =
  ws_format :: "PcmWavInfo option"
  ws_block_align :: "u32 option"
  ws_data_bytes :: "u64 option"
  ws_data_offset :: "nat option"
  ws_offset :: nat
  ws_chunks :: nat

definition invalid_wav_limits :: "nat \<Rightarrow> PcmWavLimits \<Rightarrow> bool" where
  "invalid_wav_limits least limits \<longleftrightarrow>
     wl_maximum_bytes limits < least \<or> wl_maximum_chunks limits = 0 \<or> wl_maximum_channels limits = 0 \<or>
     wl_minimum_sample_rate limits = 0 \<or> wl_minimum_sample_rate limits > wl_maximum_sample_rate limits"

definition format_chunk :: "PcmWavLimits \<Rightarrow> bytes \<Rightarrow> nat \<Rightarrow> nat \<Rightarrow> WavScan \<Rightarrow> PcmWavErrorCode + WavScan" where
  "format_chunk limits encoded payload chunk_size s =
     fail_if (ws_format s \<noteq> None \<or> chunk_size < 16) Wav_malformed
     (let encoding = wav_u16 encoded payload;
          channels = wav_u16 encoded (payload + 2);
          sample_rate = wav_u32 encoded (payload + 4);
          byte_rate = wav_u32 encoded (payload + 8);
          alignment = wav_u16 encoded (payload + 12);
          bits = wav_u16 encoded (payload + 14) in
      fail_if (encoding \<noteq> 1) Wav_unsupported
      (fail_if (channels = 0 \<or> channels > wl_maximum_channels limits \<or>
           sample_rate < wl_minimum_sample_rate limits \<or> sample_rate > wl_maximum_sample_rate limits \<or>
           (bits \<noteq> 8 \<and> bits \<noteq> 16 \<and> bits \<noteq> 24 \<and> bits \<noteq> 32)) Wav_unsupported
       (let expected_alignment = (ucast channels * (ucast bits div 8) :: u32);
            expected_rate = (ucast sample_rate * ucast expected_alignment :: u64) in
        fail_if (ucast alignment \<noteq> expected_alignment \<or> ucast byte_rate \<noteq> expected_rate) Wav_malformed
        (Inr (s\<lparr>ws_format := Some \<lparr>wi_channels = channels, wi_sample_rate = sample_rate,
                  wi_bits_per_sample = bits, wi_frames = 0\<rparr>,
                ws_block_align := Some (ucast alignment)\<rparr>)))))"

definition data_chunk :: "nat \<Rightarrow> nat \<Rightarrow> WavScan \<Rightarrow> PcmWavErrorCode + WavScan" where
  "data_chunk payload chunk_size s =
     fail_if (ws_data_bytes s \<noteq> None \<or> chunk_size = 0) Wav_malformed
     (Inr (s\<lparr>ws_data_bytes := Some (word_of_nat chunk_size), ws_data_offset := Some payload\<rparr>))"

definition wav_chunk :: "PcmWavLimits \<Rightarrow> bytes \<Rightarrow> WavScan \<Rightarrow> PcmWavErrorCode + WavScan" where
  "wav_chunk limits encoded s =
     (let offset = ws_offset s; chunks = ws_chunks s + 1 in
      fail_if (chunks > wl_maximum_chunks limits \<or> length encoded - offset < 8) Wav_malformed
      (let chunk_size = unat (wav_u32 encoded (offset + 4)); payload = offset + 8 in
       fail_if (chunk_size > length encoded - payload) Wav_malformed
       (bind_result
          (if matches encoded offset ''fmt '' then format_chunk limits encoded payload chunk_size s
           else if matches encoded offset ''data'' then data_chunk payload chunk_size s
           else Inr s)
          (\<lambda>s'. let padded = chunk_size + (chunk_size AND 1) in
             fail_if (padded > length encoded - payload) Wav_malformed
             (Inr (s'\<lparr>ws_offset := payload + padded, ws_chunks := chunks\<rparr>))))))"

lemma wav_chunk_offset:
  "wav_chunk limits encoded s = Inr s' \<Longrightarrow> ws_offset s + 8 \<le> ws_offset s'"
  by (auto simp: wav_chunk_def Let_def)

text \<open>The loop ends because every chunk moves the offset past its own header of eight bytes.\<close>

function wav_chunks :: "PcmWavLimits \<Rightarrow> bytes \<Rightarrow> WavScan \<Rightarrow> PcmWavErrorCode + WavScan" where
  "wav_chunks limits encoded s =
     (if ws_offset s < length encoded then
        (case wav_chunk limits encoded s of
           Inl e \<Rightarrow> Inl e
         | Inr s' \<Rightarrow> wav_chunks limits encoded s')
      else Inr s)"
  by pat_completeness auto

termination
  by (relation "measure (\<lambda>(_, encoded, s). length encoded - ws_offset s)")
     (auto dest!: wav_chunk_offset)

declare wav_chunks.simps [simp del]

definition initial_scan :: WavScan where
  "initial_scan = \<lparr>ws_format = None, ws_block_align = None, ws_data_bytes = None, ws_data_offset = None,
     ws_offset = 12, ws_chunks = 0\<rparr>"

definition finish_scan :: "WavScan \<Rightarrow> PcmWavErrorCode + ParsedPcmWav" where
  "finish_scan s =
     (case (ws_format s, ws_data_bytes s, ws_data_offset s, ws_block_align s) of
        (Some format, Some data_bytes, Some data_offset, Some block_align) \<Rightarrow>
          fail_if (data_bytes mod ucast block_align \<noteq> 0) Wav_malformed
          (Inr \<lparr>pw_info = format\<lparr>wi_frames := data_bytes div ucast block_align\<rparr>,
                pw_data_offset = data_offset, pw_data_size = unat data_bytes\<rparr>)
      | _ \<Rightarrow> Inl Wav_malformed)"

definition parse_pcm_wav :: "bytes \<Rightarrow> PcmWavLimits \<Rightarrow> PcmWavErrorCode + ParsedPcmWav" where
  "parse_pcm_wav encoded limits =
     fail_if (invalid_wav_limits 12 limits) Wav_invalid_limits
     (fail_if (encoded = []) Wav_empty
     (fail_if (length encoded > wl_maximum_bytes limits) Wav_too_large
     (fail_if (length encoded < 12 \<or> \<not> matches encoded 0 ''RIFF'' \<or> \<not> matches encoded 8 ''WAVE'') Wav_malformed
     (let riff_size = (ucast (wav_u32 encoded 4) + 8 :: u64) in
      fail_if (unat riff_size \<noteq> length encoded) Wav_malformed
      (bind_result (wav_chunks limits encoded initial_scan) finish_scan)))))"

definition validate_pcm_wav :: "bytes \<Rightarrow> PcmWavLimits \<Rightarrow> PcmWavErrorCode + PcmWavInfo" where
  "validate_pcm_wav encoded limits = bind_result (parse_pcm_wav encoded limits) (\<lambda>parsed. Inr (pw_info parsed))"

section \<open>Decoding and encoding sixteen-bit samples\<close>

function decode_samples :: "bytes \<Rightarrow> nat \<Rightarrow> nat \<Rightarrow> nat \<Rightarrow> u16 list" where
  "decode_samples encoded data_offset data_size i =
     (if i < data_size
      then wav_u16 encoded (data_offset + i) # decode_samples encoded data_offset data_size (i + 2)
      else [])"
  by pat_completeness auto

termination
  by (relation "measure (\<lambda>(_, _, data_size, i). data_size - i)") auto

declare decode_samples.simps [simp del]

definition decode_pcm16_wav :: "bytes \<Rightarrow> PcmWavLimits \<Rightarrow> PcmWavErrorCode + Signed16Buffer" where
  "decode_pcm16_wav encoded limits =
     bind_result (parse_pcm_wav encoded limits) (\<lambda>parsed.
       let info = pw_info parsed in
       fail_if (wi_bits_per_sample info \<noteq> 16 \<or> (wi_channels info \<noteq> 1 \<and> wi_channels info \<noteq> 2)) Wav_unsupported
       (Inr \<lparr>sb_format = \<lparr>sf_sample_rate = wi_sample_rate info, sf_channels = wi_channels info\<rparr>,
             interleaved_samples = decode_samples encoded (pw_data_offset parsed) (pw_data_size parsed) 0\<rparr>))"

definition write_pcm16_wav :: "Signed16Buffer \<Rightarrow> u32 \<Rightarrow> u32 \<Rightarrow> u16 \<Rightarrow> u32 \<Rightarrow> bytes" where
  "write_pcm16_wav buffer riff_size byte_rate block_align data_bytes =
     (let e1 = append_tag [] ''RIFF'';
          e2 = append_u32 e1 riff_size;
          e3 = append_tag e2 ''WAVEfmt '';
          e4 = append_u32 e3 16;
          e5 = append_u16 e4 1;
          e6 = append_u16 e5 (sf_channels (sb_format buffer));
          e7 = append_u32 e6 (sf_sample_rate (sb_format buffer));
          e8 = append_u32 e7 byte_rate;
          e9 = append_u16 e8 block_align;
          e10 = append_u16 e9 16;
          e11 = append_tag e10 ''data'';
          e12 = append_u32 e11 data_bytes in
      foldl append_u16 e12 (interleaved_samples buffer))"

definition encode_pcm16_wav :: "Signed16Buffer \<Rightarrow> PcmWavLimits \<Rightarrow> PcmWavErrorCode + bytes" where
  "encode_pcm16_wav buffer limits =
     fail_if (invalid_wav_limits 44 limits) Wav_invalid_limits
     (let channels = sf_channels (sb_format buffer); sample_rate = sf_sample_rate (sb_format buffer);
          samples = interleaved_samples buffer in
      fail_if ((channels \<noteq> 1 \<and> channels \<noteq> 2) \<or> channels > wl_maximum_channels limits \<or>
          sample_rate < wl_minimum_sample_rate limits \<or> sample_rate > wl_maximum_sample_rate limits) Wav_unsupported
      (fail_if (samples = [] \<or> length samples mod unat channels \<noteq> 0) Wav_malformed
      (fail_if (length samples > (wl_maximum_bytes limits - 44) div 2) Wav_too_large
       (let data_bytes = length samples * 2; total_bytes = 44 + data_bytes in
        fail_if (data_bytes > unat (- 1 :: u32) \<or> total_bytes - 8 > unat (- 1 :: u32)) Wav_too_large
        (let block_align = (channels * 2 :: u16);
             byte_rate = (ucast sample_rate * ucast block_align :: u64) in
         fail_if (byte_rate > ucast (- 1 :: u32)) Wav_too_large
         (Inr (write_pcm16_wav buffer (word_of_nat (total_bytes - 8)) (ucast byte_rate) block_align
                 (word_of_nat data_bytes))))))))"

section \<open>Little-endian round trips\<close>

lemma low_byte_u16: "(ucast (v AND 0xff) :: u8) = ucast (v :: u16)"
proof -
  have m: "(0xff :: u16) = mask 8" by (simp add: mask_eq_exp_minus_1)
  show ?thesis by (simp only: m) (rule bit_word_eqI, simp add: bit_simps)
qed

lemma low_byte_u32: "(ucast (v AND 0xff) :: u8) = ucast (v :: u32)"
proof -
  have m: "(0xff :: u32) = mask 8" by (simp add: mask_eq_exp_minus_1)
  show ?thesis by (simp only: m) (rule bit_word_eqI, simp add: bit_simps)
qed

lemma read_written_u16 [simp]:
  "ucast (ucast v :: u8) OR push_bit 8 (ucast (ucast (drop_bit 8 v) :: u8)) = (v :: u16)"
  by (rule bit_word_eqI) (auto simp: bit_simps)

lemma read_written_u32 [simp]:
  "ucast (ucast v :: u8) OR push_bit 8 (ucast (ucast (drop_bit 8 v) :: u8)) OR
   push_bit 16 (ucast (ucast (drop_bit 16 v) :: u8)) OR
   push_bit 24 (ucast (ucast (drop_bit 24 v) :: u8)) = (v :: u32)"
proof (rule bit_word_eqI)
  fix n
  assume n: "n < LENGTH(32)"
  consider "n < 8" | "8 \<le> n" "n < 16" | "16 \<le> n" "n < 24" | "24 \<le> n" by linarith
  then show "bit (ucast (ucast v :: u8) OR push_bit 8 (ucast (ucast (drop_bit 8 v) :: u8)) OR
    push_bit 16 (ucast (ucast (drop_bit 16 v) :: u8)) OR
    push_bit 24 (ucast (ucast (drop_bit 24 v) :: u8)) :: u32) n = bit v n"
    using n by cases (auto simp: bit_simps)
qed

text \<open>The two bytes of a sample, and the forty-four bytes before the first one.\<close>

definition sample_bytes :: "u16 \<Rightarrow> bytes" where
  "sample_bytes v = [ucast v, ucast (drop_bit 8 v)]"

definition number_bytes :: "u32 \<Rightarrow> bytes" where
  "number_bytes v = [ucast v, ucast (drop_bit 8 v), ucast (drop_bit 16 v), ucast (drop_bit 24 v)]"

definition wav_header :: "u32 \<Rightarrow> u16 \<Rightarrow> u32 \<Rightarrow> u32 \<Rightarrow> u16 \<Rightarrow> u32 \<Rightarrow> bytes" where
  "wav_header riff_size channels sample_rate byte_rate block_align data_bytes =
     [0x52, 0x49, 0x46, 0x46] @ number_bytes riff_size @
     [0x57, 0x41, 0x56, 0x45, 0x66, 0x6d, 0x74, 0x20] @ number_bytes 16 @
     sample_bytes 1 @ sample_bytes channels @ number_bytes sample_rate @ number_bytes byte_rate @
     sample_bytes block_align @ sample_bytes 16 @ [0x64, 0x61, 0x74, 0x61] @ number_bytes data_bytes"

lemma foldl_append_u16: "foldl append_u16 bs xs = bs @ concat (map sample_bytes xs)"
  by (induction xs arbitrary: bs) (simp_all add: append_u16_def sample_bytes_def low_byte_u16)

lemma write_pcm16_wav_eq:
  "write_pcm16_wav buffer riff_size byte_rate block_align data_bytes =
     wav_header riff_size (sf_channels (sb_format buffer)) (sf_sample_rate (sb_format buffer)) byte_rate
       block_align data_bytes @ concat (map sample_bytes (interleaved_samples buffer))"
  by (simp add: write_pcm16_wav_def foldl_append_u16 append_tag_def append_u16_def append_u32_def
      wav_header_def number_bytes_def sample_bytes_def low_byte_u16 low_byte_u32 byte_def)

lemma length_concat_samples [simp]: "length (concat (map sample_bytes xs)) = 2 * length xs"
  by (induction xs) (simp_all add: sample_bytes_def)

lemma length_wav_header [simp]: "length (wav_header r c s b a d) = 44"
  by (simp add: wav_header_def number_bytes_def sample_bytes_def)

lemma decode_samples_concat:
  assumes "length pre = offset + i"
  shows "decode_samples (pre @ concat (map sample_bytes xs)) offset (i + 2 * length xs) i = xs"
  using assms
proof (induction xs arbitrary: pre i)
  case Nil
  then show ?case by (simp add: decode_samples.simps)
next
  case (Cons x xs)
  have "wav_u16 (pre @ concat (map sample_bytes (x # xs))) (offset + i) = x"
    using Cons.prems by (simp add: wav_u16_def sample_bytes_def nth_append)
  moreover have "decode_samples ((pre @ sample_bytes x) @ concat (map sample_bytes xs)) offset
    ((i + 2) + 2 * length xs) (i + 2) = xs"
    by (rule Cons.IH) (simp add: Cons.prems sample_bytes_def)
  ultimately show ?case by (subst decode_samples.simps) (simp add: ac_simps)
qed

lemma wav_header_reads:
  defines "bs r c s b a d rest \<equiv> wav_header r c s b a d @ rest"
  shows "wav_u32 (bs r c s b a d rest) 4 = r" "wav_u32 (bs r c s b a d rest) 16 = 16"
    "wav_u16 (bs r c s b a d rest) 20 = 1" "wav_u16 (bs r c s b a d rest) 22 = c"
    "wav_u32 (bs r c s b a d rest) 24 = s" "wav_u32 (bs r c s b a d rest) 28 = b"
    "wav_u16 (bs r c s b a d rest) 32 = a" "wav_u16 (bs r c s b a d rest) 34 = 16"
    "wav_u32 (bs r c s b a d rest) 40 = d"
  by (simp_all add: bs_def wav_u32_def wav_u16_def wav_header_def number_bytes_def sample_bytes_def)

lemma wav_header_tags:
  defines "bs r c s b a d rest \<equiv> wav_header r c s b a d @ rest"
  shows "matches (bs r c s b a d rest) 0 ''RIFF''" "matches (bs r c s b a d rest) 8 ''WAVE''"
    "matches (bs r c s b a d rest) 12 ''fmt ''" "\<not> matches (bs r c s b a d rest) 36 ''fmt ''"
    "matches (bs r c s b a d rest) 36 ''data''"
  by (simp_all add: bs_def matches_def wav_header_def number_bytes_def sample_bytes_def upt_rec byte_def)

section \<open>What the parser accepts\<close>

definition format_ok :: "PcmWavLimits \<Rightarrow> PcmWavInfo \<Rightarrow> bool" where
  "format_ok limits info \<longleftrightarrow>
     wi_channels info \<noteq> 0 \<and> wi_channels info \<le> wl_maximum_channels limits \<and>
     wl_minimum_sample_rate limits \<le> wi_sample_rate info \<and> wi_sample_rate info \<le> wl_maximum_sample_rate limits \<and>
     wi_bits_per_sample info \<in> {8, 16, 24, 32}"

definition frame_bytes :: "PcmWavInfo \<Rightarrow> nat" where
  "frame_bytes info = unat (wi_channels info) * (unat (wi_bits_per_sample info) div 8)"

definition scan_ok :: "PcmWavLimits \<Rightarrow> bytes \<Rightarrow> WavScan \<Rightarrow> bool" where
  "scan_ok limits encoded s \<longleftrightarrow>
     ws_offset s \<le> length encoded \<and>
     (case ws_format s of
        None \<Rightarrow> ws_block_align s = None
      | Some info \<Rightarrow> format_ok limits info \<and>
          unat (wi_sample_rate info) * frame_bytes info < 2 ^ 32 \<and>
          (\<exists>a. ws_block_align s = Some a \<and> unat a = frame_bytes info)) \<and>
     (case ws_data_bytes s of
        None \<Rightarrow> ws_data_offset s = None
      | Some d \<Rightarrow> 0 < unat d \<and> unat d < 2 ^ 32 \<and>
          (\<exists>off. ws_data_offset s = Some off \<and> off + unat d \<le> length encoded)) \<and>
     12 + (if ws_format s = None then 0 else 24) +
       (case ws_data_bytes s of None \<Rightarrow> 0 | Some d \<Rightarrow> 8 + unat d) \<le> ws_offset s \<and>
     (if ws_format s = None then 0 else 1) + (if ws_data_bytes s = None then 0 else 1) \<le> ws_chunks s \<and>
     ws_chunks s \<le> wl_maximum_chunks limits"

lemma unat_widen:
  "LENGTH('a) \<le> LENGTH('b) \<Longrightarrow> unat (ucast (w :: 'a :: len word) :: 'b :: len word) = unat w"
  by (metis take_bit_length_eq unsigned_take_bit_eq unsigned_ucast_eq min.absorb2 take_bit_take_bit)

lemma unat_u32_max: "unat (- 1 :: u32) = 2 ^ 32 - 1"
  by (simp add: unsigned_minus_1_eq_mask mask_eq_exp_minus_1)

lemma frame_bytes_words:
  assumes "bits \<in> {8, 16, 24, 32}"
  shows "unat (ucast (channels :: u16) * (ucast (bits :: u16) div 8) :: u32) = unat channels * (unat bits div 8)"
proof -
  have "unat channels < 65536" using unsigned_less [of channels] by simp
  then show ?thesis using assms by (auto simp: unat_word_ariths unat_div unat_widen)
qed

lemma format_chunk_ok:
  assumes "format_chunk limits encoded payload n s = Inr s'" and "scan_ok limits encoded s"
    and "ws_offset s + 24 \<le> m" and "m \<le> length encoded" and "ws_chunks s < wl_maximum_chunks limits"
  shows "scan_ok limits encoded (s'\<lparr>ws_offset := m, ws_chunks := ws_chunks s + 1\<rparr>)"
proof -
  define bits channels where "bits = wav_u16 encoded (payload + 14)" and "channels = wav_u16 encoded (payload + 2)"
  define rate where "rate = wav_u32 encoded (payload + 4)"
  define align where "align = (ucast channels * (ucast bits div 8) :: u32)"
  have fresh: "ws_format s = None" and format: "channels \<noteq> 0" "channels \<le> wl_maximum_channels limits"
      "wl_minimum_sample_rate limits \<le> rate" "rate \<le> wl_maximum_sample_rate limits" "bits \<in> {8, 16, 24, 32}"
    and rates: "ucast (wav_u32 encoded (payload + 8)) = (ucast rate * ucast align :: u64)"
    and s': "s' = s\<lparr>ws_format := Some \<lparr>wi_channels = channels, wi_sample_rate = rate,
                  wi_bits_per_sample = bits, wi_frames = 0\<rparr>, ws_block_align := Some align\<rparr>"
    using assms(1)
    by (auto simp: format_chunk_def Let_def not_less bits_def channels_def rate_def align_def)
  have align: "unat align = unat channels * (unat bits div 8)"
    unfolding align_def by (rule frame_bytes_words) (fact format(5))
  have "unat (ucast (wav_u32 encoded (payload + 8)) :: u64) = unat (wav_u32 encoded (payload + 8))"
    by (simp add: unat_widen)
  moreover have "unat (ucast rate * ucast align :: u64) = unat rate * unat align"
    using mult_strict_mono [OF unsigned_less [of rate, where ?'a = nat] unsigned_less [of align, where ?'a = nat]]
    by (simp add: unat_word_ariths unat_widen)
  ultimately have "unat rate * unat align < 2 ^ 32"
    using rates unsigned_less [of "wav_u32 encoded (payload + 8)", where ?'a = nat] by simp
  then show ?thesis
    using assms(2-) fresh format align
    by (simp add: s' scan_ok_def format_ok_def frame_bytes_def split: option.splits)
qed

lemma data_chunk_ok:
  assumes "data_chunk payload n s = Inr s'" and "scan_ok limits encoded s"
    and "n < 2 ^ 32" and "payload + n \<le> length encoded"
    and "ws_offset s + 8 + n \<le> m" and "m \<le> length encoded" and "ws_chunks s < wl_maximum_chunks limits"
  shows "scan_ok limits encoded (s'\<lparr>ws_offset := m, ws_chunks := ws_chunks s + 1\<rparr>)"
proof -
  have "unat (word_of_nat n :: u64) = n" using assms(3) by (simp add: unat_of_nat)
  then show ?thesis
    using assms by (auto simp: data_chunk_def scan_ok_def split: option.splits)
qed

lemma if_either: "(if c then a else if d then b else e) = r \<Longrightarrow> a = r \<or> b = r \<or> e = r"
  by (simp split: if_splits)

lemma format_chunk_size: "format_chunk limits encoded payload n s = Inr s' \<Longrightarrow> 16 \<le> n"
  by (simp add: format_chunk_def)

lemma wav_chunk_ok:
  assumes "wav_chunk limits encoded s = Inr s'" and "scan_ok limits encoded s"
  shows "scan_ok limits encoded s'"
proof -
  define n where "n = unat (wav_u32 encoded (ws_offset s + 4))"
  define m where "m = ws_offset s + 8 + (n + (n AND 1))"
  define body where "body =
    (if matches encoded (ws_offset s) ''fmt '' then format_chunk limits encoded (ws_offset s + 8) n s
     else if matches encoded (ws_offset s) ''data'' then data_chunk (ws_offset s + 8) n s
     else Inr s)"
  obtain t where guard: "ws_chunks s < wl_maximum_chunks limits" "ws_offset s + 8 + n \<le> length encoded"
      "m \<le> length encoded"
    and t: "body = Inr t" and s': "s' = t\<lparr>ws_offset := m, ws_chunks := ws_chunks s + 1\<rparr>"
    using assms(1) unfolding wav_chunk_def Let_def n_def [symmetric] body_def [symmetric]
    by (auto simp: m_def not_less Suc_le_eq)
  have n: "n < 2 ^ 32" using unsigned_less [of "wav_u32 encoded (ws_offset s + 4)", where ?'a = nat]
    by (simp add: n_def)
  consider "format_chunk limits encoded (ws_offset s + 8) n s = Inr t"
    | "data_chunk (ws_offset s + 8) n s = Inr t" | "Inr s = (Inr t :: PcmWavErrorCode + WavScan)"
    using if_either [OF t [unfolded body_def]] by blast
  then show ?thesis
  proof cases
    case 1
    then show ?thesis unfolding s' using assms(2) guard format_chunk_size [OF 1] by (intro format_chunk_ok) (simp_all add: m_def)
  next
    case 2
    then show ?thesis unfolding s' using assms(2) guard n by (intro data_chunk_ok [of _ n]) (simp_all add: m_def del: mask_nat_positive_iff, linarith)
  next
    case 3
    then show ?thesis unfolding s' using assms(2) guard
      by (auto simp: scan_ok_def m_def split: option.splits)
  qed
qed

lemma wav_chunks_ok:
  "wav_chunks limits encoded s = Inr s' \<Longrightarrow> scan_ok limits encoded s \<Longrightarrow> scan_ok limits encoded s'"
proof (induction limits encoded s rule: wav_chunks.induct)
  case (1 limits encoded s)
  show ?case
  proof (cases "ws_offset s < length encoded")
    case True
    then obtain t where t: "wav_chunk limits encoded s = Inr t" "wav_chunks limits encoded t = Inr s'"
      using 1(2) by (auto simp: wav_chunks.simps [of limits encoded s] split: sum.splits)
    from 1(1) [OF True t wav_chunk_ok [OF t(1) 1(3)]] show ?thesis .
  next
    case False
    with 1(2,3) show ?thesis by (simp add: wav_chunks.simps [of limits encoded s])
  qed
qed

text \<open>The facts about an accepted file that the properties below rest on.\<close>

lemma parse_pcm_wavD:
  assumes "parse_pcm_wav encoded limits = Inr parsed"
  shows "\<not> invalid_wav_limits 12 limits" "2 \<le> wl_maximum_chunks limits"
    and "44 + pw_data_size parsed \<le> length encoded"
    and "length encoded \<le> wl_maximum_bytes limits" "length encoded < 2 ^ 32 + 8"
    and "pw_data_offset parsed + pw_data_size parsed \<le> length encoded"
    and "format_ok limits (pw_info parsed)" "0 < pw_data_size parsed"
    and "unat (wi_sample_rate (pw_info parsed)) * frame_bytes (pw_info parsed) < 2 ^ 32"
    and "pw_data_size parsed = unat (wi_frames (pw_info parsed)) * frame_bytes (pw_info parsed)"
proof -
  define n where "n = unat (wav_u32 encoded 4)"
  have n: "n < 2 ^ 32" using unsigned_less [of "wav_u32 encoded 4", where ?'a = nat] by (simp add: n_def)
  have riff: "unat (ucast (wav_u32 encoded 4) + 8 :: u64) = n + 8"
    using n by (simp add: unat_word_ariths unat_widen n_def)
  obtain s where limits: "\<not> invalid_wav_limits 12 limits"
    and len: "\<not> length encoded < 12" "\<not> wl_maximum_bytes limits < length encoded" "n + 8 = length encoded"
    and loop: "wav_chunks limits encoded initial_scan = Inr s" and fin: "finish_scan s = Inr parsed"
    using assms unfolding parse_pcm_wav_def Let_def fail_if_Inr bind_result_Inr riff
    by (elim conjE exE) (rule that, assumption, blast, blast, blast, assumption+)
  have "scan_ok limits encoded initial_scan"
    using len(1) by (simp add: scan_ok_def initial_scan_def)
  then have s: "scan_ok limits encoded s" by (rule wav_chunks_ok [OF loop])
  obtain info d off a where parts: "ws_format s = Some info" "ws_data_bytes s = Some d"
      "ws_data_offset s = Some off" "ws_block_align s = Some a"
    and multiple: "d mod ucast a = 0"
    and parsed: "parsed = \<lparr>pw_info = info\<lparr>wi_frames := d div ucast a\<rparr>, pw_data_offset = off,
      pw_data_size = unat d\<rparr>"
    using fin by (auto simp: finish_scan_def split: option.splits)
  have a: "unat (ucast a :: u64) = frame_bytes info"
    using s parts by (simp add: scan_ok_def unat_widen)
  have "unat (d mod ucast a) = 0" using multiple by (simp only: unsigned_0)
  then have "unat (ucast a :: u64) dvd unat d" by (simp only: unat_mod dvd_eq_mod_eq_0)
  then have "unat (d div ucast a) * unat (ucast a :: u64) = unat d"
    by (simp only: unat_div dvd_div_mult_self)
  then show "pw_data_size parsed = unat (wi_frames (pw_info parsed)) * frame_bytes (pw_info parsed)"
    using a by (simp add: parsed frame_bytes_def)
  show "\<not> invalid_wav_limits 12 limits" "2 \<le> wl_maximum_chunks limits"
      "44 + pw_data_size parsed \<le> length encoded"
      "length encoded \<le> wl_maximum_bytes limits" "length encoded < 2 ^ 32 + 8"
      "pw_data_offset parsed + pw_data_size parsed \<le> length encoded"
      "format_ok limits (pw_info parsed)" "0 < pw_data_size parsed"
      "unat (wi_sample_rate (pw_info parsed)) * frame_bytes (pw_info parsed) < 2 ^ 32"
    using s parts limits len(1,2) n len(3) [symmetric] by (simp_all add: scan_ok_def parsed format_ok_def frame_bytes_def)
qed

section \<open>What the encoder writes\<close>

text \<open>The conditions the encoder has checked when it writes a file.\<close>

definition encodable :: "PcmWavLimits \<Rightarrow> Signed16Buffer \<Rightarrow> bool" where
  "encodable limits buffer \<longleftrightarrow>
     (let channels = sf_channels (sb_format buffer); rate = sf_sample_rate (sb_format buffer);
          n = length (interleaved_samples buffer) in
      \<not> invalid_wav_limits 44 limits \<and> channels \<in> {1, 2} \<and> channels \<le> wl_maximum_channels limits \<and>
      wl_minimum_sample_rate limits \<le> rate \<and> rate \<le> wl_maximum_sample_rate limits \<and>
      n \<noteq> 0 \<and> unat channels dvd n \<and> 44 + 2 * n \<le> wl_maximum_bytes limits \<and> 36 + 2 * n < 2 ^ 32 \<and>
      unat rate * (unat channels * 2) < 2 ^ 32)"

definition wav_file :: "Signed16Buffer \<Rightarrow> bytes" where
  "wav_file buffer =
     (let channels = sf_channels (sb_format buffer); rate = sf_sample_rate (sb_format buffer);
          n = length (interleaved_samples buffer) in
      wav_header (word_of_nat (36 + 2 * n)) channels rate (rate * (ucast channels * 2)) (channels * 2)
        (word_of_nat (2 * n)) @ concat (map sample_bytes (interleaved_samples buffer)))"

lemma byte_rate_words:
  fixes rate :: u32 and channels :: u16
  assumes "channels \<in> {1, 2}"
  shows "(ucast rate * ucast (channels * 2) :: u64) > ucast (- 1 :: u32) \<longleftrightarrow> 2 ^ 32 \<le> unat rate * (unat channels * 2)"
    and "ucast (ucast rate * ucast (channels * 2) :: u64) = rate * (ucast channels * 2)"
proof -
  have r: "unat rate < 2 ^ 32" using unsigned_less [of rate, where ?'a = nat] by simp
  have "unat (ucast (- 1 :: u32) :: u64) = 2 ^ 32 - 1" by (simp add: unat_widen unat_u32_max)
  moreover have "unat (ucast rate * ucast (channels * 2) :: u64) = unat rate * (unat channels * 2)"
    using assms r by (auto simp: unat_word_ariths unat_widen)
  ultimately show "(ucast rate * ucast (channels * 2) :: u64) > ucast (- 1 :: u32) \<longleftrightarrow>
    2 ^ 32 \<le> unat rate * (unat channels * 2)"
    unfolding word_less_nat_alt Suc_le_eq [symmetric] by (simp only:) simp
  have "ucast (ucast rate * ucast k :: u64) = rate * ucast k" if "k \<in> {2, 4}" for k :: u16
    using that r by (auto simp: word_unat_eq_iff unat_word_ariths unat_widen unsigned_ucast_eq take_bit_eq_mod)
  from this [of "channels * 2"] show "ucast (ucast rate * ucast (channels * 2) :: u64) = rate * (ucast channels * 2)"
    using assms by auto
qed

lemma encode_guards:
  fixes n c m :: nat
  shows "\<not> (n = 0 \<or> n mod c \<noteq> 0) \<longleftrightarrow> n \<noteq> 0 \<and> c dvd n"
    and "\<not> m < 44 \<Longrightarrow> \<not> (m - 44) div 2 < n \<longleftrightarrow> 44 + 2 * n \<le> m"
    and "\<not> (unat (- 1 :: u32) < 2 * n \<or> unat (- 1 :: u32) < 36 + 2 * n) \<longleftrightarrow> 36 + 2 * n < 2 ^ 32"
  by (auto simp: dvd_eq_mod_eq_0 unat_u32_max)

lemma encode_pcm16_wav_iff:
  "encode_pcm16_wav buffer limits = Inr bs \<longleftrightarrow> encodable limits buffer \<and> bs = wav_file buffer"
proof (cases "sf_channels (sb_format buffer) \<in> {1, 2} \<and> \<not> invalid_wav_limits 44 limits")
  case True
  then have channels: "sf_channels (sb_format buffer) \<in> {1, 2}" and limits: "\<not> wl_maximum_bytes limits < 44"
    by (simp_all add: invalid_wav_limits_def)
  have size: "44 + length (interleaved_samples buffer) * 2 - 8 = 36 + 2 * length (interleaved_samples buffer)"
    "length (interleaved_samples buffer) * 2 = 2 * length (interleaved_samples buffer)" by simp_all
  show ?thesis
    using True
    unfolding encode_pcm16_wav_def Let_def fail_if_Inr length_0_conv [symmetric] encode_guards(1,3)
      encode_guards(2) [OF limits] byte_rate_words [OF channels] write_pcm16_wav_eq encodable_def wav_file_def size
    by (auto simp: not_less unat_u32_max)
next
  case False
  then show ?thesis by (auto simp: encode_pcm16_wav_def encodable_def Let_def)
qed

text \<open>
  The two chunks of a written file: the format chunk at offset 12 and the samples at offset 36.
\<close>

definition after_format :: "Signed16Buffer \<Rightarrow> WavScan" where
  "after_format buffer = initial_scan\<lparr>
     ws_format := Some \<lparr>wi_channels = sf_channels (sb_format buffer), wi_sample_rate = sf_sample_rate (sb_format buffer),
       wi_bits_per_sample = 16, wi_frames = 0\<rparr>,
     ws_block_align := Some (ucast (sf_channels (sb_format buffer) * 2)), ws_offset := 36, ws_chunks := 1\<rparr>"

definition after_data :: "Signed16Buffer \<Rightarrow> WavScan" where
  "after_data buffer = (after_format buffer)\<lparr>
     ws_data_bytes := Some (word_of_nat (2 * length (interleaved_samples buffer))), ws_data_offset := Some 44,
     ws_offset := 44 + 2 * length (interleaved_samples buffer), ws_chunks := 2\<rparr>"

lemma length_wav_file: "length (wav_file buffer) = 44 + 2 * length (interleaved_samples buffer)"
  by (simp add: wav_file_def Let_def)

lemmas wav_file_reads = wav_header_reads wav_header_tags

lemma written_rates:
  fixes rate :: u32 and channels :: u16
  assumes "channels \<in> {1, 2}" and "unat rate * (unat channels * 2) < 2 ^ 32"
  shows "(ucast (channels * 2) :: u32) = ucast channels * 2"
    and "(ucast (rate * (ucast channels * 2)) :: u64) = ucast rate * ucast (ucast channels * 2 :: u32)"
  using assms by (auto simp: word_unat_eq_iff unat_word_ariths unat_widen)

lemma wav_chunk_format:
  assumes "encodable limits buffer"
  shows "wav_chunk limits (wav_file buffer) initial_scan = Inr (after_format buffer)"
proof -
  have "sf_channels (sb_format buffer) \<in> {1, 2}"
    "unat (sf_sample_rate (sb_format buffer)) * (unat (sf_channels (sb_format buffer)) * 2) < 2 ^ 32"
    using assms by (simp_all add: encodable_def Let_def)
  note rates = written_rates [OF this]
  show ?thesis
    using assms
    by (simp add: wav_chunk_def initial_scan_def length_wav_file format_chunk_def after_format_def
        wav_file_def wav_file_reads encodable_def Let_def rates fail_if_def invalid_wav_limits_def)
      (auto simp: not_less)
qed

lemma wav_chunk_data:
  assumes "encodable limits buffer" and "2 \<le> wl_maximum_chunks limits"
  shows "wav_chunk limits (wav_file buffer) (after_format buffer) = Inr (after_data buffer)"
proof -
  have "length (interleaved_samples buffer) < 2147483630" "interleaved_samples buffer \<noteq> []"
    using assms by (simp_all add: encodable_def Let_def)
  moreover from this have "unat (word_of_nat (2 * length (interleaved_samples buffer)) :: u32) =
    2 * length (interleaved_samples buffer)" by (simp only: unat_of_nat) simp
  ultimately show ?thesis
    using assms(2)
    by (simp add: wav_chunk_def length_wav_file data_chunk_def after_format_def after_data_def initial_scan_def
        wav_file_def wav_file_reads Let_def)
qed

lemma parse_wav_file:
  assumes "encodable limits buffer" and "2 \<le> wl_maximum_chunks limits"
  obtains info where "parse_pcm_wav (wav_file buffer) limits =
      Inr \<lparr>pw_info = info, pw_data_offset = 44, pw_data_size = 2 * length (interleaved_samples buffer)\<rparr>"
    and "wi_bits_per_sample info = 16" and "wi_channels info = sf_channels (sb_format buffer)"
    and "wi_sample_rate info = sf_sample_rate (sb_format buffer)"
proof -
  define n where "n = length (interleaved_samples buffer)"
  define c where "c = sf_channels (sb_format buffer)"
  have n: "0 < n" "36 + 2 * n < 2 ^ 32" "44 + 2 * n \<le> wl_maximum_bytes limits"
    and limits: "\<not> invalid_wav_limits 12 limits"
    and c: "c \<in> {1, 2}" "unat c dvd n"
    using assms by (auto simp: encodable_def Let_def n_def c_def invalid_wav_limits_def)
  have loop: "wav_chunks limits (wav_file buffer) initial_scan = Inr (after_data buffer)"
    using wav_chunk_format [OF assms(1)] wav_chunk_data [OF assms] n(1)
    by (simp add: wav_chunks.simps [of _ _ initial_scan] wav_chunks.simps [of _ _ "after_format buffer"]
        wav_chunks.simps [of _ _ "after_data buffer"] length_wav_file)
      (simp add: initial_scan_def after_format_def after_data_def n_def)
  have riff: "unat (ucast (word_of_nat (36 + 2 * n) :: u32) + 8 :: u64) = 44 + 2 * n"
    using n(2) by (simp add: unat_word_ariths unat_widen unat_of_nat)
  have whole: "unat (word_of_nat (2 * n) :: u64) = 2 * n" using n(2) by (simp only: unat_of_nat) simp
  have "unat (ucast (ucast (c * 2) :: u32) :: u64) = unat c * 2"
    using c(1) by auto
  then have "word_of_nat (2 * n) mod ucast (ucast (c * 2) :: u32) = (0 :: u64)"
    using c(2) whole by (simp add: word_unat_eq_iff unat_mod)
  then have fin: "finish_scan (after_data buffer) =
      Inr \<lparr>pw_info = \<lparr>wi_channels = c, wi_sample_rate = sf_sample_rate (sb_format buffer), wi_bits_per_sample = 16,
             wi_frames = word_of_nat (2 * n) div ucast (ucast (c * 2) :: u32)\<rparr>,
           pw_data_offset = 44, pw_data_size = 2 * n\<rparr>"
    using whole by (simp add: finish_scan_def after_data_def after_format_def initial_scan_def n_def c_def)
  have header: "wav_u32 (wav_file buffer) 4 = word_of_nat (36 + 2 * n)"
    "matches (wav_file buffer) 0 ''RIFF''" "matches (wav_file buffer) 8 ''WAVE''"
    unfolding wav_file_def Let_def n_def by (rule wav_file_reads)+
  have len: "length (wav_file buffer) = 44 + 2 * n" by (simp only: length_wav_file n_def)
  have "parse_pcm_wav (wav_file buffer) limits = finish_scan (after_data buffer)"
    using n(3) by (simp only: parse_pcm_wav_def Let_def header riff len loop length_0_conv [symmetric]
      limits bind_result.simps fail_if_def) simp
  note this [unfolded fin]
  then show ?thesis by (rule that [folded n_def c_def]) simp_all
qed

lemma decode_wav_file:
  assumes "encodable limits buffer" and "2 \<le> wl_maximum_chunks limits"
  shows "decode_pcm16_wav (wav_file buffer) limits = Inr buffer"
proof -
  have "decode_samples (wav_file buffer) 44 (2 * length (interleaved_samples buffer)) 0 = interleaved_samples buffer"
    using decode_samples_concat [of _ 44 0 "interleaved_samples buffer"] by (simp add: wav_file_def Let_def)
  moreover have "sf_channels (sb_format buffer) \<in> {1, 2}" using assms by (simp add: encodable_def Let_def)
  moreover obtain info where "parse_pcm_wav (wav_file buffer) limits =
      Inr \<lparr>pw_info = info, pw_data_offset = 44, pw_data_size = 2 * length (interleaved_samples buffer)\<rparr>"
    "wi_bits_per_sample info = 16" "wi_channels info = sf_channels (sb_format buffer)"
    "wi_sample_rate info = sf_sample_rate (sb_format buffer)"
    using parse_wav_file [OF assms] .
  ultimately show ?thesis by (simp add: decode_pcm16_wav_def Let_def fail_if_def)
qed

lemma length_decode_samples: "length (decode_samples encoded off n i) = (n - i + 1) div 2"
  by (induction encoded off n i rule: decode_samples.induct) (subst decode_samples.simps, auto, presburger)

lemma decoded_encodable:
  assumes "decode_pcm16_wav encoded limits = Inr buffer"
  shows "encodable limits buffer" and "2 \<le> wl_maximum_chunks limits"
    and "length (wav_file buffer) \<le> length encoded"
proof -
  obtain p where p: "parse_pcm_wav encoded limits = Inr p" and bits: "wi_bits_per_sample (pw_info p) = 16"
    and c: "wi_channels (pw_info p) \<in> {1, 2}"
    and buffer: "buffer = \<lparr>sb_format = \<lparr>sf_sample_rate = wi_sample_rate (pw_info p), sf_channels = wi_channels (pw_info p)\<rparr>,
      interleaved_samples = decode_samples encoded (pw_data_offset p) (pw_data_size p) 0\<rparr>"
    using assms by (auto simp: decode_pcm16_wav_def Let_def)
  note facts = parse_pcm_wavD [OF p]
  have frame: "frame_bytes (pw_info p) = 2 * unat (wi_channels (pw_info p))"
    by (simp add: frame_bytes_def bits)
  have n: "length (interleaved_samples buffer) = unat (wi_frames (pw_info p)) * unat (wi_channels (pw_info p))"
    by (simp add: buffer length_decode_samples facts(10) frame)
  have size: "2 * length (interleaved_samples buffer) = pw_data_size p"
    unfolding n facts(10) frame by simp
  show "2 \<le> wl_maximum_chunks limits" by (fact facts(2))
  show "length (wav_file buffer) \<le> length encoded" using facts(3) size by (simp add: length_wav_file)
  have "unat (wi_channels (pw_info p)) dvd length (interleaved_samples buffer)" by (simp add: n)
  then show "encodable limits buffer"
    using facts size c frame
    by (simp add: encodable_def Let_def invalid_wav_limits_def format_ok_def)
      (simp add: buffer)
qed

section \<open>Properties\<close>

text \<open>
  C35: the sample data of an accepted file lies inside the input, the input is within the byte limit,
  the format is within the limits, and the data is a whole positive number of frames of the size
  that the channels and the sample width give.
\<close>

theorem accepted_wav_is_consistent:
  assumes "parse_pcm_wav encoded limits = Inr parsed"
  shows "pw_data_offset parsed + pw_data_size parsed \<le> length encoded \<and>
    length encoded \<le> wl_maximum_bytes limits \<and> format_ok limits (pw_info parsed) \<and>
    pw_data_size parsed = unat (wi_frames (pw_info parsed)) * frame_bytes (pw_info parsed) \<and>
    0 < wi_frames (pw_info parsed)"
  using parse_pcm_wavD [OF assms] by (simp_all add: word_less_nat_alt)

text \<open>
  C30: what the encoder writes the decoder reads back unchanged, exactly when the limits allow the two
  chunks that every written file has.
\<close>

theorem wav_round_trip:
  assumes "encode_pcm16_wav buffer limits = Inr encoded"
  shows "decode_pcm16_wav encoded limits = Inr buffer \<longleftrightarrow> 2 \<le> wl_maximum_chunks limits"
  using assms decode_wav_file decoded_encodable(2) by (auto simp: encode_pcm16_wav_iff)

text \<open>
  Every decoded file can be encoded again under the same limits; the result is no longer than the
  input, whatever other chunks the input had, and decodes to the same samples.
\<close>

theorem decoded_wav_reencodes:
  assumes "decode_pcm16_wav encoded limits = Inr buffer"
  shows "\<exists>again. encode_pcm16_wav buffer limits = Inr again \<and> length again \<le> length encoded \<and>
    decode_pcm16_wav again limits = Inr buffer"
  using decoded_encodable [OF assms] decode_wav_file by (auto simp: encode_pcm16_wav_iff)

section \<open>A stereo clip\<close>

definition sample_buffer :: Signed16Buffer where
  "sample_buffer = \<lparr>sb_format = \<lparr>sf_sample_rate = 8000, sf_channels = 2\<rparr>, interleaved_samples = [1, 0xffff, 300, 7]\<rparr>"

definition sample_wav_limits :: PcmWavLimits where
  "sample_wav_limits = \<lparr>wl_maximum_bytes = 1024, wl_maximum_chunks = 4, wl_maximum_channels = 8,
     wl_minimum_sample_rate = 8000, wl_maximum_sample_rate = 192000\<rparr>"

lemma sample_buffer_encodable: "encodable sample_wav_limits sample_buffer"
  by (simp add: encodable_def sample_buffer_def sample_wav_limits_def invalid_wav_limits_def Let_def)

lemma sample_wav_chunks: "2 \<le> wl_maximum_chunks sample_wav_limits"
  by (simp add: sample_wav_limits_def)

theorem accepted_wav_is_consistent_witness:
  "\<exists>parsed. parse_pcm_wav (wav_file sample_buffer) sample_wav_limits = Inr parsed \<and>
    pw_data_offset parsed + pw_data_size parsed \<le> length (wav_file sample_buffer)"
  using parse_wav_file [OF sample_buffer_encodable sample_wav_chunks] accepted_wav_is_consistent by metis

theorem wav_round_trip_witness:
  "\<exists>encoded. encode_pcm16_wav sample_buffer sample_wav_limits = Inr encoded \<and>
    decode_pcm16_wav encoded sample_wav_limits = Inr sample_buffer"
  using wav_round_trip sample_wav_chunks sample_buffer_encodable encode_pcm16_wav_iff by blast

theorem decoded_wav_reencodes_witness:
  "\<exists>again. encode_pcm16_wav sample_buffer sample_wav_limits = Inr again \<and> length again \<le> 52 \<and>
    decode_pcm16_wav again sample_wav_limits = Inr sample_buffer"
  using decoded_wav_reencodes [OF decode_wav_file [OF sample_buffer_encodable sample_wav_chunks]]
  by (simp add: length_wav_file sample_buffer_def)

end
