(* ===== verification/Mp4.thy ===== *)
theory Mp4
  imports Wav
begin

text \<open>
  Structural validation of MP4 files: \<^verbatim>\<open>src/lib/mp4.cpp\<close> and
  \<^verbatim>\<open>include/aiforge/video/mp4.hpp\<close>.  The fields of the parser object that change are a record
  that the operations return updated.  The stop token is an argument: \<open>stop k\<close> is its answer to the
  poll number \<open>k\<close>, of which there is one at the start and one per box.
\<close>

section \<open>Data\<close>

record Box =
  bx_type :: string
  payload_offset :: nat
  end_offset :: nat

record Mp4Limits =
  ml_maximum_bytes :: nat
  ml_maximum_boxes :: nat
  ml_maximum_nesting_depth :: nat
  ml_maximum_tracks :: nat
  ml_maximum_compatible_brands :: nat

record Mp4Info =
  mi_major_brand :: string
  mi_compatible_brand_count :: nat
  mi_box_count :: nat
  mi_track_count :: nat

datatype Mp4ErrorCode =
  Mp4_invalid_limits | Mp4_empty | Mp4_too_large | Mp4_malformed | Mp4_unsupported | Mp4_cancelled

record Parser =
  m_major_brand :: string
  m_compatible_brands :: nat
  m_boxes :: nat
  m_tracks :: nat
  m_found_file_type :: bool
  m_found_movie :: bool
  m_found_media_data :: bool
  m_found_video_handler :: bool

section \<open>Reading big-endian numbers and tags\<close>

definition mp4_u32 :: "bytes \<Rightarrow> nat \<Rightarrow> u32" where
  "mp4_u32 bs offset =
     push_bit 24 (ucast (bs ! offset)) OR push_bit 16 (ucast (bs ! (offset + 1))) OR
     push_bit 8 (ucast (bs ! (offset + 2))) OR ucast (bs ! (offset + 3))"

definition mp4_u64 :: "bytes \<Rightarrow> nat \<Rightarrow> u64" where
  "mp4_u64 bs offset = push_bit 32 (ucast (mp4_u32 bs offset)) OR ucast (mp4_u32 bs (offset + 4))"

definition box_type :: "bytes \<Rightarrow> nat \<Rightarrow> string" where
  "box_type bs offset = map (\<lambda>i. char_of (unat (bs ! (offset + i)))) [0..<4]"

definition type_is :: "string \<Rightarrow> string \<Rightarrow> bool" where
  "type_is type expected =
     (if length expected \<noteq> length type then False
      else list_all (\<lambda>i. type ! i = expected ! i) [0..<length type])"

definition allowed_major_brand :: "string \<Rightarrow> bool" where
  "allowed_major_brand brand \<longleftrightarrow>
     list_ex (type_is brand)
       [''isom'', ''iso2'', ''iso3'', ''iso4'', ''iso5'', ''iso6'', ''iso7'', ''iso8'', ''iso9'', ''isoa'',
        ''isob'', ''isoc'', ''mp41'', ''mp42'']"

section \<open>One box\<close>

definition box_extent :: "bytes \<Rightarrow> nat \<Rightarrow> nat \<Rightarrow> bool \<Rightarrow> string \<Rightarrow> Mp4ErrorCode + nat \<times> nat" where
  "box_extent encoded offset parent_end top_level type =
     (let size32 = mp4_u32 encoded offset in
      if size32 = 0 then
        fail_if (\<not> top_level \<or> \<not> type_is type ''mdat'' \<or> parent_end - offset \<le> 8) Mp4_malformed
        (Inr (8, parent_end - offset))
      else if size32 = 1 then
        fail_if (parent_end - offset < 16) Mp4_malformed
        (let box_size = unat (mp4_u64 encoded (offset + 8)) in
         fail_if (box_size < 16) Mp4_malformed (Inr (16, box_size)))
      else
        (let box_size = unat size32 in
         fail_if (box_size < 8) Mp4_malformed (Inr (8, box_size))))"

definition read_box ::
  "bytes \<Rightarrow> Mp4Limits \<Rightarrow> (nat \<Rightarrow> bool) \<Rightarrow> nat \<Rightarrow> nat \<Rightarrow> bool \<Rightarrow> nat \<Rightarrow> Parser \<Rightarrow> Mp4ErrorCode + Box \<times> Parser" where
  "read_box encoded limits stop offset parent_end top_level depth p =
     fail_if (stop (m_boxes p + 1)) Mp4_cancelled
     (fail_if (depth > ml_maximum_nesting_depth limits) Mp4_malformed
     (let p = p\<lparr>m_boxes := m_boxes p + 1\<rparr> in
      fail_if (m_boxes p > ml_maximum_boxes limits) Mp4_malformed
      (fail_if (offset > parent_end \<or> parent_end - offset < 8) Mp4_malformed
       (let type = box_type encoded (offset + 4) in
        bind_result (box_extent encoded offset parent_end top_level type) (\<lambda>(header_size, box_size).
          fail_if (box_size > parent_end - offset) Mp4_malformed
          (Inr (\<lparr>bx_type = type, payload_offset = offset + header_size, end_offset = offset + box_size\<rparr>,
                p)))))))"

lemma read_box_progress:
  assumes "read_box encoded limits stop offset parent_end top_level depth p = Inr (box, p')"
  shows "offset + 8 \<le> payload_offset box \<and> payload_offset box \<le> end_offset box \<and> end_offset box \<le> parent_end"
  using assms by (auto simp: read_box_def box_extent_def Let_def split: if_splits)

section \<open>The loops over the boxes of a range\<close>

text \<open>
  The four loops of the parser have one shape: read the box at the offset, handle it, and go on at its
  end.  The handler gets the number of boxes read before in this loop.  The loop ends because every
  box is at least as long as its header.
\<close>

type_synonym handler = "nat \<Rightarrow> Box \<Rightarrow> Parser \<Rightarrow> Mp4ErrorCode + Parser"

function box_loop ::
  "bytes \<Rightarrow> Mp4Limits \<Rightarrow> (nat \<Rightarrow> bool) \<Rightarrow> bool \<Rightarrow> nat \<Rightarrow> handler \<Rightarrow> nat \<Rightarrow> nat \<Rightarrow> nat \<Rightarrow> Parser \<Rightarrow>
   Mp4ErrorCode + Parser" where
  "box_loop encoded limits stop top_level depth handle range_end offset i p =
     (if offset < range_end then
        (case read_box encoded limits stop offset range_end top_level depth p of
           Inl e \<Rightarrow> Inl e
         | Inr (box, p1) \<Rightarrow>
             (case handle i box p1 of
                Inl e \<Rightarrow> Inl e
              | Inr p2 \<Rightarrow>
                  box_loop encoded limits stop top_level depth handle range_end (end_offset box) (i + 1) p2))
      else Inr p)"
  by pat_completeness auto

termination
  by (relation "measure (\<lambda>(_, _, _, _, _, _, range_end, offset, _, _). range_end - offset)")
     (auto dest!: read_box_progress)

declare box_loop.simps [simp del]

definition media_box :: "bytes \<Rightarrow> handler" where
  "media_box encoded i box p =
     (if type_is (bx_type box) ''hdlr'' then
        fail_if (end_offset box - payload_offset box < 24) Mp4_malformed
        (let handler_type = box_type encoded (payload_offset box + 8) in
         Inr (if type_is handler_type ''vide'' then p\<lparr>m_found_video_handler := True\<rparr> else p))
      else Inr p)"

definition parse_media :: "bytes \<Rightarrow> Mp4Limits \<Rightarrow> (nat \<Rightarrow> bool) \<Rightarrow> nat \<Rightarrow> nat \<Rightarrow> Parser \<Rightarrow> Mp4ErrorCode + Parser" where
  "parse_media encoded limits stop from range_end p =
     box_loop encoded limits stop False 3 (media_box encoded) range_end from 0 p"

definition track_box :: "bytes \<Rightarrow> Mp4Limits \<Rightarrow> (nat \<Rightarrow> bool) \<Rightarrow> handler" where
  "track_box encoded limits stop i box p =
     (if type_is (bx_type box) ''mdia''
      then parse_media encoded limits stop (payload_offset box) (end_offset box) p
      else Inr p)"

definition parse_track :: "bytes \<Rightarrow> Mp4Limits \<Rightarrow> (nat \<Rightarrow> bool) \<Rightarrow> nat \<Rightarrow> nat \<Rightarrow> Parser \<Rightarrow> Mp4ErrorCode + Parser" where
  "parse_track encoded limits stop from range_end p =
     box_loop encoded limits stop False 2 (track_box encoded limits stop) range_end from 0 p"

definition movie_box :: "bytes \<Rightarrow> Mp4Limits \<Rightarrow> (nat \<Rightarrow> bool) \<Rightarrow> handler" where
  "movie_box encoded limits stop i box p =
     (if type_is (bx_type box) ''trak'' then
        (let p = p\<lparr>m_tracks := m_tracks p + 1\<rparr> in
         fail_if (m_tracks p > ml_maximum_tracks limits) Mp4_malformed
         (parse_track encoded limits stop (payload_offset box) (end_offset box) p))
      else Inr p)"

definition parse_movie :: "bytes \<Rightarrow> Mp4Limits \<Rightarrow> (nat \<Rightarrow> bool) \<Rightarrow> nat \<Rightarrow> nat \<Rightarrow> Parser \<Rightarrow> Mp4ErrorCode + Parser" where
  "parse_movie encoded limits stop from range_end p =
     box_loop encoded limits stop False 1 (movie_box encoded limits stop) range_end from 0 p"

definition parse_file_type :: "bytes \<Rightarrow> Mp4Limits \<Rightarrow> Box \<Rightarrow> Parser \<Rightarrow> Mp4ErrorCode + Parser" where
  "parse_file_type encoded limits box p =
     (let payload_size = end_offset box - payload_offset box in
      fail_if (payload_size < 8 \<or> (payload_size - 8) mod 4 \<noteq> 0) Mp4_malformed
      (let brand = box_type encoded (payload_offset box) in
       fail_if (\<not> allowed_major_brand brand) Mp4_unsupported
       (let brands = (payload_size - 8) div 4 in
        fail_if (brands > ml_maximum_compatible_brands limits) Mp4_malformed
        (Inr (p\<lparr>m_major_brand := brand, m_compatible_brands := brands\<rparr>)))))"

definition parse_top_level_box :: "bytes \<Rightarrow> Mp4Limits \<Rightarrow> (nat \<Rightarrow> bool) \<Rightarrow> handler" where
  "parse_top_level_box encoded limits stop index box p =
     (if type_is (bx_type box) ''ftyp'' then
        fail_if (index \<noteq> 0 \<or> m_found_file_type p) Mp4_malformed
        (bind_result (parse_file_type encoded limits box p) (\<lambda>p. Inr (p\<lparr>m_found_file_type := True\<rparr>)))
      else if index = 0 then Inl Mp4_malformed
      else if type_is (bx_type box) ''moov'' then
        fail_if (m_found_movie p) Mp4_malformed
        (parse_movie encoded limits stop (payload_offset box) (end_offset box) (p\<lparr>m_found_movie := True\<rparr>))
      else if type_is (bx_type box) ''mdat'' \<and> end_offset box > payload_offset box
      then Inr (p\<lparr>m_found_media_data := True\<rparr>)
      else Inr p)"

definition Parser_initial :: Parser where
  "Parser_initial = \<lparr>m_major_brand = replicate 4 (CHR 0x00), m_compatible_brands = 0, m_boxes = 0, m_tracks = 0,
     m_found_file_type = False, m_found_movie = False, m_found_media_data = False, m_found_video_handler = False\<rparr>"

definition Parser_parse :: "bytes \<Rightarrow> Mp4Limits \<Rightarrow> (nat \<Rightarrow> bool) \<Rightarrow> Mp4ErrorCode + Mp4Info" where
  "Parser_parse encoded limits stop =
     bind_result (box_loop encoded limits stop True 0 (parse_top_level_box encoded limits stop)
                   (length encoded) 0 0 Parser_initial) (\<lambda>p.
       fail_if (\<not> m_found_file_type p \<or> \<not> m_found_movie p \<or> \<not> m_found_media_data p \<or> \<not> m_found_video_handler p)
         Mp4_malformed
       (Inr \<lparr>mi_major_brand = m_major_brand p, mi_compatible_brand_count = m_compatible_brands p,
             mi_box_count = m_boxes p, mi_track_count = m_tracks p\<rparr>))"

definition validate_mp4 :: "bytes \<Rightarrow> Mp4Limits \<Rightarrow> (nat \<Rightarrow> bool) \<Rightarrow> Mp4ErrorCode + Mp4Info" where
  "validate_mp4 encoded limits stop =
     fail_if (ml_maximum_bytes limits < 8 \<or> ml_maximum_boxes limits = 0 \<or> ml_maximum_nesting_depth limits = 0 \<or>
         ml_maximum_tracks limits = 0 \<or> ml_maximum_compatible_brands limits = 0) Mp4_invalid_limits
     (fail_if (stop 0) Mp4_cancelled
     (fail_if (encoded = []) Mp4_empty
     (fail_if (length encoded > ml_maximum_bytes limits) Mp4_too_large
      (Parser_parse encoded limits stop))))"

section \<open>A reference reading of the box structure\<close>

text \<open>
  Without limits, cancellation or parser state: the box at an offset of a range, the boxes that tile a
  range, and all boxes of a file in the order in which they begin, each with its depth.  Only a movie
  at the top, a track in a movie and the media of a track are looked into.
\<close>

definition box_at :: "bytes \<Rightarrow> bool \<Rightarrow> nat \<Rightarrow> nat \<Rightarrow> Box option" where
  "box_at bs outer lo hi =
     (if hi < lo \<or> hi - lo < 8 then None
      else (case box_extent bs lo hi outer (box_type bs (lo + 4)) of
              Inl e \<Rightarrow> None
            | Inr (header, n) \<Rightarrow>
                if n \<le> hi - lo
                then Some \<lparr>bx_type = box_type bs (lo + 4), payload_offset = lo + header, end_offset = lo + n\<rparr>
                else None))"

lemma box_at_progress:
  assumes "box_at bs outer lo hi = Some b"
  shows "lo + 8 \<le> payload_offset b \<and> payload_offset b \<le> end_offset b \<and> end_offset b \<le> hi"
  using assms by (auto simp: box_at_def box_extent_def Let_def split: if_splits sum.splits)

function split_boxes :: "bytes \<Rightarrow> bool \<Rightarrow> nat \<Rightarrow> nat \<Rightarrow> Box list option" where
  "split_boxes bs outer hi lo =
     (if lo < hi then
        (case box_at bs outer lo hi of
           None \<Rightarrow> None
         | Some b \<Rightarrow> (case split_boxes bs outer hi (end_offset b) of None \<Rightarrow> None | Some rest \<Rightarrow> Some (b # rest)))
      else Some [])"
  by pat_completeness auto

termination
  by (relation "measure (\<lambda>(_, _, hi, lo). hi - lo)") (auto dest!: box_at_progress)

declare split_boxes.simps [simp del]

definition container :: "nat \<Rightarrow> Box \<Rightarrow> bool" where
  "container d b \<longleftrightarrow> d < 3 \<and> bx_type b = [''moov'', ''trak'', ''mdia''] ! d"

fun walk :: "bytes \<Rightarrow> nat \<Rightarrow> bool \<Rightarrow> nat \<Rightarrow> nat \<Rightarrow> (nat \<times> Box) list option" where
  "walk bs k outer lo hi =
     (case split_boxes bs outer hi lo of
        None \<Rightarrow> None
      | Some boxes \<Rightarrow>
          map_option concat (those (map (\<lambda>b.
            map_option (Cons (3 - k, b))
              (case k of
                 0 \<Rightarrow> Some []
               | Suc j \<Rightarrow> if container (3 - k) b then walk bs j False (payload_offset b) (end_offset b) else Some []))
            boxes)))"

declare walk.simps [simp del]

section \<open>The loop is a run over the boxes of its range\<close>

lemma type_is_iff: "type_is t e \<longleftrightarrow> t = e"
  by (simp add: type_is_def list_all_iff list_eq_iff_nth_eq [of t e]) fastforce

definition admit :: "Mp4Limits \<Rightarrow> (nat \<Rightarrow> bool) \<Rightarrow> nat \<Rightarrow> Parser \<Rightarrow> bool" where
  "admit limits stop d p \<longleftrightarrow>
     \<not> stop (m_boxes p + 1) \<and> d \<le> ml_maximum_nesting_depth limits \<and> m_boxes p < ml_maximum_boxes limits"

lemma read_box_iff:
  "read_box bs limits stop lo hi outer d p = Inr (b, p') \<longleftrightarrow>
     admit limits stop d p \<and> box_at bs outer lo hi = Some b \<and> p' = p\<lparr>m_boxes := m_boxes p + 1\<rparr>"
  by (auto simp: read_box_def box_at_def admit_def Let_def split: sum.splits if_splits)

fun run_boxes :: "Mp4Limits \<Rightarrow> (nat \<Rightarrow> bool) \<Rightarrow> nat \<Rightarrow> handler \<Rightarrow> nat \<Rightarrow> Box list \<Rightarrow> Parser \<Rightarrow> Parser option" where
  "run_boxes limits stop d handle i [] p = Some p"
| "run_boxes limits stop d handle i (b # bs) p =
     (if admit limits stop d p then
        (case handle i b (p\<lparr>m_boxes := m_boxes p + 1\<rparr>) of
           Inl e \<Rightarrow> None
         | Inr p' \<Rightarrow> run_boxes limits stop d handle (i + 1) bs p')
      else None)"

lemma box_loop_iff:
  "box_loop encoded limits stop outer d handle hi lo i p = Inr p' \<longleftrightarrow>
     (\<exists>boxes. split_boxes encoded outer hi lo = Some boxes \<and> run_boxes limits stop d handle i boxes p = Some p')"
proof (induction encoded limits stop outer d handle hi lo i p rule: box_loop.induct)
  case (1 encoded limits stop outer d handle hi lo i p)
  show ?case
  proof (cases "lo < hi")
    case True
    let ?q = "p\<lparr>m_boxes := m_boxes p + 1\<rparr>"
    have read: "read_box encoded limits stop lo hi outer d p = Inr (b, ?q)"
      if "admit limits stop d p" "box_at encoded outer lo hi = Some b" for b
      using that by (simp add: read_box_iff)
    have refuse: "\<exists>e. read_box encoded limits stop lo hi outer d p = Inl e"
      if "\<not> (\<exists>b. admit limits stop d p \<and> box_at encoded outer lo hi = Some b)"
      using that read_box_iff by (metis old.sum.exhaust surj_pair)
    show ?thesis
    proof (cases "\<exists>b. admit limits stop d p \<and> box_at encoded outer lo hi = Some b")
      case False
      from refuse [OF this] False True show ?thesis
        by (auto simp: box_loop.simps [of _ _ _ _ _ _ _ lo] split_boxes.simps [of _ _ _ lo] split: option.splits)
    next
      case True
      then obtain b where b: "admit limits stop d p" "box_at encoded outer lo hi = Some b" by blast
      show ?thesis
      proof (cases "handle i b ?q")
        case (Inl e)
        with read [OF b] b \<open>lo < hi\<close> show ?thesis
          by (auto simp: box_loop.simps [of _ _ _ _ _ _ _ lo] split_boxes.simps [of _ _ _ lo] split: option.splits)
      next
        case (Inr r)
        with read [OF b] b \<open>lo < hi\<close> 1 [OF \<open>lo < hi\<close> read [OF b] refl Inr] show ?thesis
          by (auto simp: box_loop.simps [of _ _ _ _ _ _ _ lo] split_boxes.simps [of _ _ _ lo] split: option.splits)
      qed
    qed
  next
    case False
    then show ?thesis by (simp add: box_loop.simps [of _ _ _ _ _ _ _ lo] split_boxes.simps [of _ _ _ lo])
  qed
qed

section \<open>The state of the parser is a tally of the boxes read\<close>

definition is_movie :: "nat \<times> Box \<Rightarrow> bool" where
  "is_movie v \<longleftrightarrow> fst v = 0 \<and> bx_type (snd v) = ''moov''"

definition is_media_data :: "nat \<times> Box \<Rightarrow> bool" where
  "is_media_data v \<longleftrightarrow> fst v = 0 \<and> bx_type (snd v) = ''mdat'' \<and> payload_offset (snd v) < end_offset (snd v)"

definition is_track :: "nat \<times> Box \<Rightarrow> bool" where
  "is_track v \<longleftrightarrow> fst v = 1 \<and> bx_type (snd v) = ''trak''"

definition is_handler :: "nat \<times> Box \<Rightarrow> bool" where
  "is_handler v \<longleftrightarrow> fst v = 3 \<and> bx_type (snd v) = ''hdlr''"

definition is_video_handler :: "bytes \<Rightarrow> nat \<times> Box \<Rightarrow> bool" where
  "is_video_handler bs v \<longleftrightarrow> is_handler v \<and> box_type bs (payload_offset (snd v) + 8) = ''vide''"

definition is_file_type :: "nat \<times> Box \<Rightarrow> bool" where
  "is_file_type v \<longleftrightarrow> fst v = 0 \<and> bx_type (snd v) = ''ftyp''"

definition payload_size :: "nat \<times> Box \<Rightarrow> nat" where
  "payload_size v = end_offset (snd v) - payload_offset (snd v)"

definition file_type_ok :: "bytes \<Rightarrow> Mp4Limits \<Rightarrow> nat \<times> Box \<Rightarrow> bool" where
  "file_type_ok bs limits v \<longleftrightarrow>
     is_file_type v \<and> 8 \<le> payload_size v \<and> 4 dvd payload_size v - 8 \<and>
     allowed_major_brand (box_type bs (payload_offset (snd v))) \<and>
     (payload_size v - 8) div 4 \<le> ml_maximum_compatible_brands limits"

definition well_ordered :: "bytes \<Rightarrow> Mp4Limits \<Rightarrow> (nat \<times> Box) list \<Rightarrow> bool" where
  "well_ordered bs limits vs \<longleftrightarrow>
     (vs \<noteq> [] \<longrightarrow> file_type_ok bs limits (hd vs) \<and> (\<forall>v \<in> set (tl vs). \<not> is_file_type v)) \<and>
     length (filter is_movie vs) \<le> 1 \<and> (\<forall>v \<in> set vs. is_handler v \<longrightarrow> 24 \<le> payload_size v)"

definition within_limits :: "Mp4Limits \<Rightarrow> (nat \<times> Box) list \<Rightarrow> bool" where
  "within_limits limits vs \<longleftrightarrow>
     length vs \<le> ml_maximum_boxes limits \<and> (\<forall>v \<in> set vs. fst v \<le> ml_maximum_nesting_depth limits) \<and>
     length (filter is_track vs) \<le> ml_maximum_tracks limits"

definition fine :: "bytes \<Rightarrow> Mp4Limits \<Rightarrow> (nat \<Rightarrow> bool) \<Rightarrow> (nat \<times> Box) list \<Rightarrow> bool" where
  "fine bs limits stop vs \<longleftrightarrow>
     well_ordered bs limits vs \<and> within_limits limits vs \<and> (\<forall>k \<in> {1..length vs}. \<not> stop k)"

definition tally :: "bytes \<Rightarrow> (nat \<times> Box) list \<Rightarrow> Parser" where
  "tally bs vs =
     \<lparr>m_major_brand = (if vs = [] then replicate 4 (CHR 0x00) else box_type bs (payload_offset (snd (hd vs)))),
      m_compatible_brands = (if vs = [] then 0 else (payload_size (hd vs) - 8) div 4),
      m_boxes = length vs, m_tracks = length (filter is_track vs),
      m_found_file_type = (vs \<noteq> []), m_found_movie = list_ex is_movie vs,
      m_found_media_data = list_ex is_media_data vs, m_found_video_handler = list_ex (is_video_handler bs) vs\<rparr>"

lemma fine_prefix: "fine bs limits stop (us @ vs) \<Longrightarrow> fine bs limits stop us"
  by (cases us) (auto simp: fine_def well_ordered_def within_limits_def)

lemma tally_Nil: "tally bs [] = Parser_initial"
  by (simp add: tally_def Parser_initial_def)

lemma tally_boxes [simp]: "m_boxes (tally bs vs) = length vs"
  by (simp add: tally_def)

lemma no_movie_yet: "length (filter P vs) \<le> 1 \<Longrightarrow> P v \<Longrightarrow> length (filter P (vs @ [v])) \<le> 1 \<longleftrightarrow> \<not> list_ex P vs"
  by (auto simp: list_ex_iff filter_empty_conv)

text \<open>One more box below the top: it is admitted, adds to the tally, and breaks no order.\<close>

lemma fine_snoc:
  assumes "fine bs limits stop us" and "us \<noteq> []"
  shows "fine bs limits stop (us @ [v]) \<longleftrightarrow>
    admit limits stop (fst v) (tally bs us) \<and> \<not> is_file_type v \<and> (is_movie v \<longrightarrow> \<not> list_ex is_movie us) \<and>
    (is_track v \<longrightarrow> length (filter is_track us) < ml_maximum_tracks limits) \<and>
    (is_handler v \<longrightarrow> 24 \<le> payload_size v)"
proof -
  have stop: "(\<forall>k \<in> {1..length (us @ [v])}. \<not> stop k) \<longleftrightarrow> (\<forall>k \<in> {1..length us}. \<not> stop k) \<and> \<not> stop (length us + 1)"
    by (auto simp: Ball_def le_Suc_eq)
  have movie: "length (filter is_movie (us @ [v])) \<le> 1 \<longleftrightarrow> (is_movie v \<longrightarrow> \<not> list_ex is_movie us)"
    using assms(1) no_movie_yet [of is_movie us v]
    by (cases "is_movie v") (simp_all add: fine_def well_ordered_def)
  have first: "well_ordered bs limits (us @ [v]) \<longleftrightarrow>
      \<not> is_file_type v \<and> (is_movie v \<longrightarrow> \<not> list_ex is_movie us) \<and> (is_handler v \<longrightarrow> 24 \<le> payload_size v)"
    using assms unfolding well_ordered_def movie by (auto simp: fine_def well_ordered_def)
  have "within_limits limits (us @ [v]) \<longleftrightarrow>
      length us < ml_maximum_boxes limits \<and> fst v \<le> ml_maximum_nesting_depth limits \<and>
      (is_track v \<longrightarrow> length (filter is_track us) < ml_maximum_tracks limits)"
    using assms by (auto simp: fine_def within_limits_def)
  then show ?thesis
    using assms unfolding fine_def stop first by (auto simp: admit_def)
qed

lemma fine_single:
  "fine bs limits stop [v] \<longleftrightarrow>
     admit limits stop (fst v) (tally bs []) \<and> file_type_ok bs limits v"
  by (auto simp: fine_def well_ordered_def within_limits_def admit_def is_movie_def is_track_def is_handler_def
      is_file_type_def file_type_ok_def)

section \<open>Each level of the file is read exactly\<close>

text \<open>
  The contract of a level: the handler of a box accepts exactly when the box and what is read inside
  it (\<open>piece\<close>) keep the tally in order, and returns the tally with them.  Below the top something
  has been read before; at the top the first box is the one with index zero.
\<close>

definition placed :: "nat \<Rightarrow> nat \<Rightarrow> (nat \<times> Box) list \<Rightarrow> bool" where
  "placed d i us \<longleftrightarrow> (if d = 0 then (i = 0 \<longleftrightarrow> us = []) else us \<noteq> [])"

definition pieces :: "nat \<Rightarrow> (Box \<Rightarrow> (nat \<times> Box) list option) \<Rightarrow> Box list \<Rightarrow> (nat \<times> Box) list option" where
  "pieces d piece boxes = map_option concat (those (map (\<lambda>b. map_option (Cons (d, b)) (piece b)) boxes))"

lemma pieces_simps:
  "pieces d piece [] = Some []"
  "pieces d piece (b # boxes) =
     (case piece b of None \<Rightarrow> None | Some ws \<Rightarrow> map_option (\<lambda>vs. (d, b) # ws @ vs) (pieces d piece boxes))"
  by (simp_all add: pieces_def option.map_comp o_def split: option.splits)

locale box_level =
  fixes bs :: bytes and limits :: Mp4Limits and stop :: "nat \<Rightarrow> bool"
    and d :: nat and handle :: handler and piece :: "Box \<Rightarrow> (nat \<times> Box) list option"
  assumes step: "fine bs limits stop us \<Longrightarrow> placed d i us \<Longrightarrow>
    admit limits stop d (tally bs us) \<and> handle i b (tally bs us\<lparr>m_boxes := length us + 1\<rparr>) = Inr p \<longleftrightarrow>
    (\<exists>ws. piece b = Some ws \<and> fine bs limits stop (us @ (d, b) # ws) \<and> p = tally bs (us @ (d, b) # ws))"
begin

lemma run_boxes_iff:
  assumes "fine bs limits stop us" and "placed d i us"
  shows "run_boxes limits stop d handle i boxes (tally bs us) = Some p \<longleftrightarrow>
    (\<exists>vs. pieces d piece boxes = Some vs \<and> fine bs limits stop (us @ vs) \<and> p = tally bs (us @ vs))"
  using assms
proof (induction boxes arbitrary: us i)
  case Nil
  then show ?case by (auto simp: pieces_simps)
next
  case (Cons b boxes)
  have run: "run_boxes limits stop d handle i (b # boxes) (tally bs us) = Some p \<longleftrightarrow>
    (\<exists>q. (admit limits stop d (tally bs us) \<and> handle i b (tally bs us\<lparr>m_boxes := length us + 1\<rparr>) = Inr q) \<and>
       run_boxes limits stop d handle (i + 1) boxes q = Some p)"
    by (auto split: sum.splits)
  have IH: "fine bs limits stop (us @ (d, b) # ws) \<and>
      run_boxes limits stop d handle (i + 1) boxes (tally bs (us @ (d, b) # ws)) = Some p \<longleftrightarrow>
    (\<exists>vs. pieces d piece boxes = Some vs \<and> fine bs limits stop (us @ (d, b) # ws @ vs) \<and>
       p = tally bs (us @ (d, b) # ws @ vs))" for ws
  proof (cases "fine bs limits stop (us @ (d, b) # ws)")
    case True
    then show ?thesis using Cons.IH [OF True, of "i + 1"] by (simp add: placed_def)
  next
    case False
    then show ?thesis using fine_prefix [of bs limits stop "us @ (d, b) # ws"] by auto
  qed
  have "run_boxes limits stop d handle i (b # boxes) (tally bs us) = Some p \<longleftrightarrow>
    (\<exists>ws. piece b = Some ws \<and> fine bs limits stop (us @ (d, b) # ws) \<and>
       run_boxes limits stop d handle (i + 1) boxes (tally bs (us @ (d, b) # ws)) = Some p)"
    unfolding run step [OF Cons.prems] by blast
  also have "\<dots> \<longleftrightarrow> (\<exists>ws vs. piece b = Some ws \<and> pieces d piece boxes = Some vs \<and>
      fine bs limits stop (us @ (d, b) # ws @ vs) \<and> p = tally bs (us @ (d, b) # ws @ vs))"
    unfolding IH by blast
  finally show ?case by (auto simp: pieces_simps split: option.splits)
qed

lemma loop_iff:
  assumes "fine bs limits stop us" and "placed d i us"
  shows "box_loop bs limits stop outer d handle hi lo i (tally bs us) = Inr p \<longleftrightarrow>
    (\<exists>vs. (case split_boxes bs outer hi lo of None \<Rightarrow> None | Some boxes \<Rightarrow> pieces d piece boxes) = Some vs \<and>
       fine bs limits stop (us @ vs) \<and> p = tally bs (us @ vs))"
  unfolding box_loop_iff run_boxes_iff [OF assms] by (auto split: option.splits)

end

definition inside :: "bytes \<Rightarrow> nat \<Rightarrow> Box \<Rightarrow> (nat \<times> Box) list option" where
  "inside bs k b =
     (case k of
        0 \<Rightarrow> Some []
      | Suc j \<Rightarrow> if container (3 - k) b then walk bs j False (payload_offset b) (end_offset b) else Some [])"

lemma walk_eq:
  "walk bs k outer lo hi =
     (case split_boxes bs outer hi lo of None \<Rightarrow> None | Some boxes \<Rightarrow> pieces (3 - k) (inside bs k) boxes)"
  by (simp only: walk.simps [of bs k] pieces_def inside_def)

lemma walk_levels:
  "walk bs 0 outer lo hi = (case split_boxes bs outer hi lo of None \<Rightarrow> None | Some boxes \<Rightarrow> pieces 3 (inside bs 0) boxes)"
  "walk bs 1 outer lo hi = (case split_boxes bs outer hi lo of None \<Rightarrow> None | Some boxes \<Rightarrow> pieces 2 (inside bs 1) boxes)"
  "walk bs 2 outer lo hi = (case split_boxes bs outer hi lo of None \<Rightarrow> None | Some boxes \<Rightarrow> pieces 1 (inside bs 2) boxes)"
  "walk bs 3 outer lo hi = (case split_boxes bs outer hi lo of None \<Rightarrow> None | Some boxes \<Rightarrow> pieces 0 (inside bs 3) boxes)"
  by (simp_all add: walk_eq cong: option.case_cong)

interpretation media: box_level bs limits stop 3 "media_box bs" "inside bs 0" for bs limits stop
proof
  fix us i b p
  assume us: "fine bs limits stop us" "placed 3 i us"
  then have "us \<noteq> []" by (simp add: placed_def)
  note snoc = fine_snoc [OF us(1) this, of "(3, b)"]
  have "media_box bs i b (tally bs us\<lparr>m_boxes := length us + 1\<rparr>) = Inr p \<longleftrightarrow>
      (is_handler (3, b) \<longrightarrow> 24 \<le> payload_size (3, b)) \<and> p = tally bs (us @ [(3, b)])"
    using \<open>us \<noteq> []\<close>
    by (auto simp: media_box_def type_is_iff is_handler_def payload_size_def tally_def is_track_def is_movie_def
        is_media_data_def is_video_handler_def Let_def)
  then show "(admit limits stop 3 (tally bs us) \<and>
      media_box bs i b (tally bs us\<lparr>m_boxes := length us + 1\<rparr>) = Inr p) =
    (\<exists>ws. inside bs 0 b = Some ws \<and> fine bs limits stop (us @ (3, b) # ws) \<and> p = tally bs (us @ (3, b) # ws))"
    using snoc by (auto simp: inside_def is_file_type_def is_movie_def is_track_def)
qed

text \<open>A level with a level below it: the box itself, then what is inside when it is a container.\<close>

lemma inside_step:
  assumes level: "k = Suc j" "d = 3 - k"
    and accept: "A \<longleftrightarrow> fine bs limits stop (us @ [(d, b)]) \<and>
      (if container d b then sub = Inr p else p = tally bs (us @ [(d, b)]))"
    and below: "fine bs limits stop (us @ [(d, b)]) \<Longrightarrow> sub = Inr p \<longleftrightarrow>
      (\<exists>ws. walk bs j False (payload_offset b) (end_offset b) = Some ws \<and>
         fine bs limits stop ((us @ [(d, b)]) @ ws) \<and> p = tally bs ((us @ [(d, b)]) @ ws))"
  shows "A \<longleftrightarrow> (\<exists>ws. inside bs k b = Some ws \<and> fine bs limits stop (us @ (d, b) # ws) \<and>
      p = tally bs (us @ (d, b) # ws))"
proof (cases "fine bs limits stop (us @ [(d, b)])")
  case True
  then show ?thesis using accept below [OF True] level by (auto simp: inside_def)
next
  case False
  then show ?thesis using accept fine_prefix [of bs limits stop "us @ [(d, b)]"] by auto
qed

lemmas tally_defs = tally_def is_track_def is_movie_def is_media_data_def is_video_handler_def is_handler_def
  payload_size_def

interpretation track: box_level bs limits stop 2 "track_box bs limits stop" "inside bs 1" for bs limits stop
proof
  fix us i b p
  assume us: "fine bs limits stop us" "placed 2 i us"
  then have ne: "us \<noteq> []" by (simp add: placed_def)
  have q: "tally bs us\<lparr>m_boxes := length us + 1\<rparr> = tally bs (us @ [(2, b)])"
    using ne by (simp add: tally_defs)
  have "fine bs limits stop (us @ [(2, b)]) \<longleftrightarrow> admit limits stop 2 (tally bs us)"
    using fine_snoc [OF us(1) ne, of "(2, b)"] by (simp add: is_file_type_def tally_defs)
  then have "(admit limits stop 2 (tally bs us) \<and>
      track_box bs limits stop i b (tally bs us\<lparr>m_boxes := length us + 1\<rparr>) = Inr p) \<longleftrightarrow>
    fine bs limits stop (us @ [(2, b)]) \<and>
      (if container 2 b
       then parse_media bs limits stop (payload_offset b) (end_offset b) (tally bs (us @ [(2, b)])) = Inr p
       else p = tally bs (us @ [(2, b)]))"
    unfolding q by (auto simp: track_box_def type_is_iff container_def)
  then show "(admit limits stop 2 (tally bs us) \<and>
      track_box bs limits stop i b (tally bs us\<lparr>m_boxes := length us + 1\<rparr>) = Inr p) =
    (\<exists>ws. inside bs 1 b = Some ws \<and> fine bs limits stop (us @ (2, b) # ws) \<and> p = tally bs (us @ (2, b) # ws))"
    by (rule inside_step [where j = 0, rotated 2])
      (simp_all add: parse_media_def walk_levels media.loop_iff placed_def)
qed

interpretation movie: box_level bs limits stop 1 "movie_box bs limits stop" "inside bs 2" for bs limits stop
proof
  fix us i b p
  assume us: "fine bs limits stop us" "placed 1 i us"
  then have ne: "us \<noteq> []" by (simp add: placed_def)
  let ?q = "tally bs us\<lparr>m_boxes := length us + 1\<rparr>"
  have q: "tally bs (us @ [(1, b)]) =
      (if bx_type b = ''trak'' then ?q\<lparr>m_tracks := m_tracks ?q + 1\<rparr> else ?q)"
    using ne by (simp add: tally_defs)
  have "fine bs limits stop (us @ [(1, b)]) \<longleftrightarrow> admit limits stop 1 (tally bs us) \<and>
      (bx_type b = ''trak'' \<longrightarrow> m_tracks ?q < ml_maximum_tracks limits)"
    using fine_snoc [OF us(1) ne, of "(1, b)"] by (simp add: is_file_type_def tally_defs)
  then have "(admit limits stop 1 (tally bs us) \<and> movie_box bs limits stop i b ?q = Inr p) \<longleftrightarrow>
    fine bs limits stop (us @ [(1, b)]) \<and>
      (if container 1 b
       then parse_track bs limits stop (payload_offset b) (end_offset b) (tally bs (us @ [(1, b)])) = Inr p
       else p = tally bs (us @ [(1, b)]))"
    unfolding q by (auto simp: movie_box_def type_is_iff container_def Let_def)
  then show "(admit limits stop 1 (tally bs us) \<and> movie_box bs limits stop i b ?q = Inr p) =
    (\<exists>ws. inside bs 2 b = Some ws \<and> fine bs limits stop (us @ (1, b) # ws) \<and> p = tally bs (us @ (1, b) # ws))"
    by (rule inside_step [where j = 1, rotated 2])
      (simp_all add: parse_track_def walk_levels [unfolded One_nat_def] track.loop_iff [unfolded One_nat_def] placed_def)
qed

lemma parse_file_type_iff:
  assumes "is_file_type v"
  shows "parse_file_type bs limits (snd v) p = Inr p' \<longleftrightarrow> file_type_ok bs limits v \<and>
    p' = p\<lparr>m_major_brand := box_type bs (payload_offset (snd v)), m_compatible_brands := (payload_size v - 8) div 4\<rparr>"
  using assms by (auto simp: parse_file_type_def file_type_ok_def payload_size_def Let_def dvd_eq_mod_eq_0)

text \<open>The first box of the file, and any later one at the top.\<close>

lemma first_box_iff:
  "admit limits stop 0 (tally bs []) \<and>
     parse_top_level_box bs limits stop 0 b (tally bs []\<lparr>m_boxes := 1\<rparr>) = Inr p \<longleftrightarrow>
   fine bs limits stop [(0, b)] \<and> p = tally bs [(0, b)]"
proof (cases "is_file_type (0, b)")
  case True
  then show ?thesis
    using parse_file_type_iff [OF True, of bs limits]
    by (auto simp: parse_top_level_box_def type_is_iff fine_single is_file_type_def tally_defs)
next
  case False
  then show ?thesis
    by (simp add: parse_top_level_box_def type_is_iff fine_single is_file_type_def file_type_ok_def)
qed

lemma later_box_iff:
  assumes us: "fine bs limits stop us" "us \<noteq> []" and i: "i \<noteq> 0"
  shows "admit limits stop 0 (tally bs us) \<and>
      parse_top_level_box bs limits stop i b (tally bs us\<lparr>m_boxes := length us + 1\<rparr>) = Inr p \<longleftrightarrow>
    fine bs limits stop (us @ [(0, b)]) \<and>
      (if container 0 b
       then parse_movie bs limits stop (payload_offset b) (end_offset b) (tally bs (us @ [(0, b)])) = Inr p
       else p = tally bs (us @ [(0, b)]))"
proof -
  let ?q = "tally bs us\<lparr>m_boxes := length us + 1\<rparr>"
  have q: "tally bs (us @ [(0, b)]) =
      (if bx_type b = ''moov'' then ?q\<lparr>m_found_movie := True\<rparr>
       else if bx_type b = ''mdat'' \<and> payload_offset b < end_offset b then ?q\<lparr>m_found_media_data := True\<rparr> else ?q)"
    using us(2) by (auto simp: tally_defs)
  have "fine bs limits stop (us @ [(0, b)]) \<longleftrightarrow> admit limits stop 0 (tally bs us) \<and> bx_type b \<noteq> ''ftyp'' \<and>
      (bx_type b = ''moov'' \<longrightarrow> \<not> m_found_movie ?q)"
    using fine_snoc [OF us, of "(0, b)"] by (simp add: is_file_type_def tally_defs)
  then show ?thesis
    unfolding q using i by (auto simp: parse_top_level_box_def type_is_iff container_def)
qed

interpretation whole: box_level bs limits stop 0 "parse_top_level_box bs limits stop" "inside bs 3" for bs limits stop
proof
  fix us i b p
  assume us: "fine bs limits stop us" "placed 0 i us"
  have "(admit limits stop 0 (tally bs us) \<and>
      parse_top_level_box bs limits stop i b (tally bs us\<lparr>m_boxes := length us + 1\<rparr>) = Inr p) \<longleftrightarrow>
    fine bs limits stop (us @ [(0, b)]) \<and>
      (if container 0 b
       then parse_movie bs limits stop (payload_offset b) (end_offset b) (tally bs (us @ [(0, b)])) = Inr p
       else p = tally bs (us @ [(0, b)]))"
  proof (cases "us = []")
    case True
    then have "\<not> container 0 b" if "fine bs limits stop [(0, b)]"
      using that by (auto simp: fine_single file_type_ok_def is_file_type_def container_def)
    then show ?thesis using True us(2) first_box_iff [of limits stop bs b p] by (auto simp: placed_def)
  next
    case False
    then show ?thesis using us by (intro later_box_iff) (simp_all add: placed_def)
  qed
  then show "(admit limits stop 0 (tally bs us) \<and>
      parse_top_level_box bs limits stop i b (tally bs us\<lparr>m_boxes := length us + 1\<rparr>) = Inr p) =
    (\<exists>ws. inside bs 3 b = Some ws \<and> fine bs limits stop (us @ (0, b) # ws) \<and> p = tally bs (us @ (0, b) # ws))"
    by (rule inside_step [where j = 2, rotated 2])
      (simp_all add: parse_movie_def walk_levels [unfolded One_nat_def] movie.loop_iff [unfolded One_nat_def] placed_def)
qed

section \<open>Properties\<close>

definition mp4_limits_ok :: "Mp4Limits \<Rightarrow> bool" where
  "mp4_limits_ok limits \<longleftrightarrow>
     8 \<le> ml_maximum_bytes limits \<and> 0 < ml_maximum_boxes limits \<and> 0 < ml_maximum_nesting_depth limits \<and>
     0 < ml_maximum_tracks limits \<and> 0 < ml_maximum_compatible_brands limits"

definition mp4_info :: "bytes \<Rightarrow> (nat \<times> Box) list \<Rightarrow> Mp4Info" where
  "mp4_info bs vs =
     \<lparr>mi_major_brand = box_type bs (payload_offset (snd (hd vs))),
      mi_compatible_brand_count = (payload_size (hd vs) - 8) div 4,
      mi_box_count = length vs, mi_track_count = length (filter is_track vs)\<rparr>"

lemma ex_image: "(\<exists>p. (\<exists>v. A v \<and> B v \<and> p = t v) \<and> G p) \<longleftrightarrow> (\<exists>v. A v \<and> B v \<and> G (t v))"
  by blast

lemma finish_iff:
  "fail_if (\<not> m_found_file_type (tally bs vs) \<or> \<not> m_found_movie (tally bs vs) \<or>
       \<not> m_found_media_data (tally bs vs) \<or> \<not> m_found_video_handler (tally bs vs)) Mp4_malformed
     (Inr \<lparr>mi_major_brand = m_major_brand (tally bs vs), mi_compatible_brand_count = m_compatible_brands (tally bs vs),
           mi_box_count = m_boxes (tally bs vs), mi_track_count = m_tracks (tally bs vs)\<rparr>) = Inr info \<longleftrightarrow>
   list_ex is_movie vs \<and> list_ex is_media_data vs \<and> list_ex (is_video_handler bs) vs \<and> info = mp4_info bs vs"
  by (cases "vs = []") (auto simp: tally_def mp4_info_def)

text \<open>
  C9: the validator is exact.  A file is accepted if and only if it is within the byte limit and its
  bytes divide without gap or overlap into boxes, of which the first is the only file type, exactly
  one is a movie, one is media data that is not empty and one a video handler of a track of the
  movie; all boxes are within the limits and no poll has asked to stop.  The reported counts are those
  of the boxes.
\<close>

theorem mp4_validation_exact:
  "validate_mp4 bs limits stop = Inr info \<longleftrightarrow>
     mp4_limits_ok limits \<and> bs \<noteq> [] \<and> length bs \<le> ml_maximum_bytes limits \<and>
     (\<exists>vs. walk bs 3 True 0 (length bs) = Some vs \<and> well_ordered bs limits vs \<and> within_limits limits vs \<and>
       (\<forall>k \<le> length vs. \<not> stop k) \<and>
       list_ex is_movie vs \<and> list_ex is_media_data vs \<and> list_ex (is_video_handler bs) vs \<and>
       info = mp4_info bs vs)"
proof -
  have stop: "(\<forall>k \<le> n. \<not> stop k) \<longleftrightarrow> \<not> stop 0 \<and> (\<forall>k \<in> {1..n}. \<not> stop k)" for n
    by (auto simp: Suc_le_eq)
  have "fine bs limits stop []"
    by (simp add: fine_def well_ordered_def within_limits_def)
  then have loop: "box_loop bs limits stop True 0 (parse_top_level_box bs limits stop) (length bs) 0 0 Parser_initial = Inr p \<longleftrightarrow>
    (\<exists>vs. walk bs 3 True 0 (length bs) = Some vs \<and> fine bs limits stop vs \<and> p = tally bs vs)" for p
    using whole.loop_iff [of bs limits stop "[]" 0 True "length bs" 0 p]
    by (simp add: walk_levels placed_def tally_Nil)
  have parse: "Parser_parse bs limits stop = Inr info \<longleftrightarrow>
    (\<exists>vs. walk bs 3 True 0 (length bs) = Some vs \<and> fine bs limits stop vs \<and>
       list_ex is_movie vs \<and> list_ex is_media_data vs \<and> list_ex (is_video_handler bs) vs \<and> info = mp4_info bs vs)"
    unfolding Parser_parse_def bind_result_Inr loop ex_image finish_iff by (rule refl)
  have limits: "\<not> (ml_maximum_bytes limits < 8 \<or> ml_maximum_boxes limits = 0 \<or>
      ml_maximum_nesting_depth limits = 0 \<or> ml_maximum_tracks limits = 0 \<or>
      ml_maximum_compatible_brands limits = 0) \<longleftrightarrow> mp4_limits_ok limits"
    by (simp add: mp4_limits_ok_def not_less)
  show ?thesis
    unfolding validate_mp4_def fail_if_Inr parse limits stop fine_def not_less by blast
qed

section \<open>A smallest video file\<close>

definition sample_mp4 :: bytes where
  "sample_mp4 =
     [0, 0, 0, 16] @ append_tag [] ''ftypisom'' @ [0, 0, 0, 1] @
     [0, 0, 0, 56] @ append_tag [] ''moov'' @ [0, 0, 0, 48] @ append_tag [] ''trak'' @
     [0, 0, 0, 40] @ append_tag [] ''mdia'' @ [0, 0, 0, 32] @ append_tag [] ''hdlr'' @
     [0, 0, 0, 0, 0, 0, 0, 0] @ append_tag [] ''vide'' @ replicate 12 0 @
     [0, 0, 0, 0] @ append_tag [] ''mdat'' @ [7]"

definition sample_mp4_limits :: Mp4Limits where
  "sample_mp4_limits = \<lparr>ml_maximum_bytes = 1024, ml_maximum_boxes = 6, ml_maximum_nesting_depth = 3,
     ml_maximum_tracks = 1, ml_maximum_compatible_brands = 1\<rparr>"

lemma sample_mp4_accepted:
  "validate_mp4 sample_mp4 sample_mp4_limits (\<lambda>_. False) =
     Inr \<lparr>mi_major_brand = ''isom'', mi_compatible_brand_count = 0, mi_box_count = 6, mi_track_count = 1\<rparr>"
  by code_simp

theorem mp4_validation_exact_witness:
  "\<exists>vs. walk sample_mp4 3 True 0 (length sample_mp4) = Some vs \<and> length vs = 6 \<and> list_ex is_movie vs \<and>
    list_ex (is_video_handler sample_mp4) vs"
  using iffD1 [OF mp4_validation_exact sample_mp4_accepted] by (auto simp: mp4_info_def)

end
