(* ===== verification/Ordered.thy ===== *)
theory Ordered
  imports Prelude "HOL-Library.Multiset" "HOL-Library.Product_Lexorder"
begin

text \<open>
  The parts of the standard library that depend on an order: \<^verbatim>\<open>std::ranges::sort\<close> with a comparator
  and \<^verbatim>\<open>std::map\<close>.  The library promises a sorted result only for comparators that are strict weak
  orders; where no two elements are equivalent the result is then unique, and an insertion sort
  computes it.  Where the source sorts with a comparator that is not always such an order, the sort is
  a parameter with the contract stated here.  A map is the list of its entries in the order of the keys.
\<close>

section \<open>Sorting with a comparator\<close>

fun insert_by :: "('a \<Rightarrow> 'a \<Rightarrow> bool) \<Rightarrow> 'a \<Rightarrow> 'a list \<Rightarrow> 'a list" where
  "insert_by before x [] = [x]"
| "insert_by before x (y # ys) = (if before y x then y # insert_by before x ys else x # y # ys)"

definition sort_by :: "('a \<Rightarrow> 'a \<Rightarrow> bool) \<Rightarrow> 'a list \<Rightarrow> 'a list" where
  "sort_by before xs = foldr (insert_by before) xs []"

lemma mset_insert_by [simp]: "mset (insert_by before x ys) = add_mset x (mset ys)"
  by (induction ys) auto

lemma set_insert_by [simp]: "set (insert_by before x ys) = insert x (set ys)"
  using mset_eq_setD [of "insert_by before x ys" "x # ys"] by simp

lemma sort_by_simps: "sort_by before [] = []" "sort_by before (x # xs) = insert_by before x (sort_by before xs)"
  by (simp_all add: sort_by_def)

lemma mset_sort_by [simp]: "mset (sort_by before xs) = mset xs"
  by (induction xs) (simp_all add: sort_by_simps)

lemma set_sort_by [simp]: "set (sort_by before xs) = set xs"
  using mset_eq_setD [OF mset_sort_by] .

lemma length_sort_by [simp]: "length (sort_by before xs) = length xs"
  using mset_eq_length [OF mset_sort_by] .

lemma mset_map_sort_by [simp]: "mset (map f (sort_by before xs)) = mset (map f xs)"
  by simp

lemma distinct_map_sort_by [simp]: "distinct (map f (sort_by before xs)) \<longleftrightarrow> distinct (map f xs)"
  using mset_eq_imp_distinct_iff [OF mset_map_sort_by] .

lemma sum_list_sort_by [simp]: "sum_list (map f (sort_by before xs)) = (sum_list (map f xs) :: 'b :: comm_monoid_add)"
  by (metis mset_map_sort_by sum_mset_sum_list)

lemma filter_sort_by_empty: "filter P (sort_by before xs) = [] \<longleftrightarrow> filter P xs = []"
  by (simp add: filter_empty_conv)

text \<open>
  A comparator that compares keys is a strict order; where the keys of the elements differ, the sort
  has one result.
\<close>

locale keyed_order =
  fixes before :: "'a \<Rightarrow> 'a \<Rightarrow> bool" and key :: "'a \<Rightarrow> 'k :: linorder"
  assumes before_iff: "before x y \<longleftrightarrow> key x < key y"
begin

lemma irreflexive: "\<not> before x x"
  by (simp add: before_iff)

lemma transitive: "before x y \<Longrightarrow> before y z \<Longrightarrow> before x z"
  by (simp add: before_iff)

lemma total: "key x \<noteq> key y \<Longrightarrow> before x y \<or> before y x"
  by (auto simp: before_iff)

lemma sorted_insert_by:
  "sorted_wrt before ys \<Longrightarrow> key x \<notin> key ` set ys \<Longrightarrow> sorted_wrt before (insert_by before x ys)"
  by (induction ys) (auto simp: before_iff not_less_iff_gr_or_eq dest: order.strict_trans)

lemma sorted_sort_by:
  "distinct (map key xs) \<Longrightarrow> sorted_wrt before (sort_by before xs)"
  by (induction xs) (simp_all add: sort_by_simps sorted_insert_by)

lemma sort_by_unique:
  assumes "distinct (map key xs)" and "mset ys = mset xs" and "sorted_wrt before ys"
  shows "ys = sort_by before xs"
proof -
  have before: "before = (\<lambda>x y. key x < key y)" by (simp add: fun_eq_iff before_iff)
  have sorted: "sorted (map key ys)" "sorted (map key (sort_by before xs))"
    using assms(3) sorted_sort_by [OF assms(1)] unfolding before
    by (auto simp: sorted_wrt_map elim!: sorted_wrt_mono_rel [rotated])
  have same: "mset (map key ys) = mset (map key xs)" using assms(2) by simp
  have "sort (map key xs) = map key ys" by (rule properties_for_sort [OF same sorted(1)])
  moreover have "sort (map key xs) = map key (sort_by before xs)"
    by (rule properties_for_sort [OF mset_map_sort_by sorted(2)])
  ultimately have keys: "map key ys = map key (sort_by before xs)" by simp
  have "distinct (map key ys)" using assms(1) mset_eq_imp_distinct_iff [OF same] by simp
  then have "inj_on key (set ys)" by (simp add: distinct_map)
  moreover have "set (sort_by before xs) = set ys" using mset_eq_setD [OF assms(2)] by simp
  ultimately show ?thesis by (intro map_inj_on [OF keys]) simp
qed

end

subsection \<open>The contract of a sort\<close>

text \<open>
  Whatever the comparator, sorting moves elements and neither loses nor invents any.  It promises an
  order only when the comparator is a strict weak order on the elements.
\<close>

definition strict_weak_order_on :: "'a set \<Rightarrow> ('a \<Rightarrow> 'a \<Rightarrow> bool) \<Rightarrow> bool" where
  "strict_weak_order_on A before \<longleftrightarrow>
     (\<forall>x \<in> A. \<not> before x x) \<and>
     (\<forall>x \<in> A. \<forall>y \<in> A. \<forall>z \<in> A. before x y \<longrightarrow> before y z \<longrightarrow> before x z) \<and>
     (\<forall>x \<in> A. \<forall>y \<in> A. \<forall>z \<in> A. \<not> before x y \<longrightarrow> \<not> before y z \<longrightarrow> \<not> before x z)"

locale permuting_sort =
  fixes sorting :: "('a \<Rightarrow> 'a \<Rightarrow> bool) \<Rightarrow> 'a list \<Rightarrow> 'a list"
  assumes permutes: "mset (sorting before xs) = mset xs"
begin

lemma same_set: "set (sorting before xs) = set xs"
  using mset_eq_setD [OF permutes] .

lemma same_distinct: "distinct (sorting before xs) \<longleftrightarrow> distinct xs"
  using mset_eq_imp_distinct_iff [OF permutes] .

end

locale standard_sort = permuting_sort +
  assumes sorts: "strict_weak_order_on (set xs) before \<Longrightarrow> sorted_wrt (\<lambda>x y. \<not> before y x) (sorting before xs)"

context keyed_order begin

lemma strict_weak_order: "strict_weak_order_on A before"
  by (auto simp: strict_weak_order_on_def before_iff)

end

lemma strict_weak_order_subset: "strict_weak_order_on A before \<Longrightarrow> B \<subseteq> A \<Longrightarrow> strict_weak_order_on B before"
  unfolding strict_weak_order_on_def by (meson subsetD)

lemma weak_order_asym: "strict_weak_order_on A before \<Longrightarrow> x \<in> A \<Longrightarrow> y \<in> A \<Longrightarrow> before x y \<Longrightarrow> \<not> before y x"
  unfolding strict_weak_order_on_def by blast

lemma weak_order_trans:
  "strict_weak_order_on A before \<Longrightarrow> x \<in> A \<Longrightarrow> y \<in> A \<Longrightarrow> z \<in> A \<Longrightarrow> before x y \<Longrightarrow> before y z \<Longrightarrow> before x z"
  unfolding strict_weak_order_on_def by blast

lemma weak_order_step:
  "strict_weak_order_on A before \<Longrightarrow> x \<in> A \<Longrightarrow> y \<in> A \<Longrightarrow> z \<in> A \<Longrightarrow> \<not> before x y \<Longrightarrow> \<not> before y z \<Longrightarrow> \<not> before x z"
  unfolding strict_weak_order_on_def by blast

lemma insert_by_weakly_sorted:
  "strict_weak_order_on (insert x (set ys)) before \<Longrightarrow> sorted_wrt (\<lambda>x y. \<not> before y x) ys \<Longrightarrow>
    sorted_wrt (\<lambda>x y. \<not> before y x) (insert_by before x ys)"
proof (induction ys)
  case (Cons y ys)
  have "strict_weak_order_on (insert x (set ys)) before"
    using Cons.prems(1) by (rule strict_weak_order_subset) auto
  with Cons.IH Cons.prems(2) have IH: "sorted_wrt (\<lambda>x y. \<not> before y x) (insert_by before x ys)" by simp
  show ?case
  proof (cases "before y x")
    case True
    then have "\<not> before x y" using weak_order_asym [OF Cons.prems(1), of y x] by simp
    with True IH Cons.prems(2) show ?thesis by auto
  next
    case False
    have "\<not> before z x" if z: "z \<in> set ys" for z
      using weak_order_step [OF Cons.prems(1), of z y x] Cons.prems(2) False z by simp
    with False Cons.prems(2) show ?thesis by auto
  qed
qed simp

interpretation insertion_sort: standard_sort sort_by
proof unfold_locales
  fix xs :: "'a list" and before
  show "strict_weak_order_on (set xs) before \<Longrightarrow> sorted_wrt (\<lambda>x y. \<not> before y x) (sort_by before xs)"
  proof (induction xs)
    case (Cons x xs)
    then have "sorted_wrt (\<lambda>x y. \<not> before y x) (sort_by before xs)"
      by (meson set_subset_Cons strict_weak_order_subset)
    with Cons.prems show ?case by (simp add: sort_by_simps insert_by_weakly_sorted)
  qed (simp add: sort_by_simps)
qed simp

section \<open>Maps\<close>

fun assign :: "'k :: linorder \<Rightarrow> 'v \<Rightarrow> ('k \<times> 'v) list \<Rightarrow> ('k \<times> 'v) list" where
  "assign k v [] = [(k, v)]"
| "assign k v ((a, b) # m) =
     (if k < a then (k, v) # (a, b) # m else if k = a then (k, v) # m else (a, b) # assign k v m)"

definition emplace :: "'k :: linorder \<Rightarrow> 'v \<Rightarrow> ('k \<times> 'v) list \<Rightarrow> ('k \<times> 'v) list" where
  "emplace k v m = (case map_of m k of None \<Rightarrow> assign k v m | Some _ \<Rightarrow> m)"

definition erase :: "'k \<Rightarrow> ('k \<times> 'v) list \<Rightarrow> ('k \<times> 'v) list" where
  "erase k m = filter (\<lambda>e. fst e \<noteq> k) m"

lemma map_of_assign [simp]: "map_of (assign k v m) = (map_of m)(k \<mapsto> v)"
  by (induction k v m rule: assign.induct) (auto simp: fun_eq_iff)

lemma keys_assign [simp]: "fst ` set (assign k v m) = insert k (fst ` set m)"
  by (induction k v m rule: assign.induct) auto

lemma sorted_assign: "sorted_wrt (<) (map fst m) \<Longrightarrow> sorted_wrt (<) (map fst (assign k v m))"
proof (induction k v m rule: assign.induct)
  case (2 k v a b m)
  have "set (map fst (assign k v m)) = insert k (set (map fst m))"
    using keys_assign [of k v m] by simp
  with 2 show ?case by (auto dest: order.strict_trans)
qed simp

lemma map_of_erase [simp]: "map_of (erase k m) = (map_of m)(k := None)"
  by (induction m) (auto simp: erase_def fun_eq_iff)

lemma sorted_erase: "sorted_wrt (<) (map fst m) \<Longrightarrow> sorted_wrt (<) (map fst (erase k m))"
  by (simp add: erase_def sorted_wrt_map sorted_wrt_filter)

lemma distinct_keys: "sorted_wrt (<) (map fst m) \<Longrightarrow> distinct (map fst m)"
  for m :: "('k :: linorder \<times> 'v) list"
  by (simp add: strict_sorted_iff)

end
