(* ===== verification/ContextBuilder.thy ===== *)
theory ContextBuilder
  imports Ordered RunProjection
begin

text \<open>
  The construction of the context of an inference: \<^verbatim>\<open>src/lib/context_builder.cpp\<close> with
  \<^verbatim>\<open>include/aiforge/domain/context.hpp\<close> and \<^verbatim>\<open>include/aiforge/runtime/context_builder.hpp\<close>.
  Instructions of several layers of authority are added, replaced and disabled, content is put after
  them, and the token estimates have to fit the window.
\<close>

section \<open>Data\<close>

typedecl ContextEntryIdTag
typedecl ContextSourceIdTag

type_synonym ContextEntryId = "ContextEntryIdTag Id"
type_synonym ContextSourceId = "ContextSourceIdTag Id"

datatype InstructionLayer =
    Layer_application_runtime | Layer_user_global | Layer_workspace | Layer_project | Layer_persona
  | Layer_session | Layer_task | Layer_unknown

datatype InstructionOperation = Op_add | Op_replace | Op_disable | Op_unknown

datatype ContextContentKind = Content_conversation | Content_evidence | Content_tool_result | Content_unknown

record ContextProvenance =
  cpv_source_id :: ContextSourceId
  cpv_source_location :: "string option"
  cpv_digest :: "string option"

record InstructionInput =
  ii_entry_id :: ContextEntryId
  ii_layer :: InstructionLayer
  ii_operation :: InstructionOperation
  ii_target_entry_id :: "ContextEntryId option"
  ii_message :: "Message option"
  ii_provenance :: ContextProvenance
  ii_specificity :: u32
  ii_order :: u64
  ii_estimated_tokens :: u64

record ContextContentInput =
  cci_entry_id :: ContextEntryId
  cci_kind :: ContextContentKind
  cci_message :: Message
  cci_provenance :: ContextProvenance
  cci_order :: u64
  cci_estimated_tokens :: u64

record ContextCapacity =
  context_window_tokens :: u64
  reserved_output_tokens :: u64
  reserved_input_tokens :: u64

record ContextBuildInput =
  cbi_capacity :: ContextCapacity
  cbi_instructions :: "InstructionInput list"
  cbi_content :: "ContextContentInput list"

datatype ContextEntryKind = Entry_instruction | Entry_conversation | Entry_evidence | Entry_tool_result

record ContextEntry =
  ce_entry_id :: ContextEntryId
  ce_kind :: ContextEntryKind
  ce_instruction_layer :: "InstructionLayer option"
  ce_message :: Message
  ce_provenance :: ContextProvenance
  ce_specificity :: u32
  ce_order :: u64
  ce_estimated_tokens :: u64

datatype ContextDecision = Context_admitted | Context_superseded | Context_disabled

record ContextDecisionRecord =
  cdr_entry_id :: ContextEntryId
  cdr_decision :: ContextDecision
  cdr_decided_by :: "ContextEntryId option"

record ConstructedContext =
  cc_entries :: "ContextEntry list"
  cc_decisions :: "ContextDecisionRecord list"
  cc_capacity :: ContextCapacity
  cc_estimated_input_tokens :: u64

datatype ContextBuildErrorCode =
    Build_invalid_capacity | Build_missing_runtime_instruction | Build_duplicate_entry_id
  | Build_duplicate_message_id | Build_invalid_provenance | Build_invalid_instruction | Build_invalid_content
  | Build_unknown_target | Build_target_not_earlier | Build_cross_layer_replacement
  | Build_runtime_instruction_mutation | Build_unsupported_content | Build_token_overflow
  | Build_capacity_exceeded

record ContextBuildError =
  cbe_code :: ContextBuildErrorCode
  cbe_entry_id :: "ContextEntryId option"

definition build_error :: "ContextBuildErrorCode \<Rightarrow> ContextEntryId option \<Rightarrow> ContextBuildError" where
  "build_error code entry = \<lparr>cbe_code = code, cbe_entry_id = entry\<rparr>"

section \<open>Helpers\<close>

fun layer_rank :: "InstructionLayer \<Rightarrow> u32" where
  "layer_rank Layer_application_runtime = 0"
| "layer_rank Layer_user_global = 1"
| "layer_rank Layer_workspace = 2"
| "layer_rank Layer_project = 3"
| "layer_rank Layer_persona = 4"
| "layer_rank Layer_session = 5"
| "layer_rank Layer_task = 6"
| "layer_rank Layer_unknown = - 1"

definition valid_provenance :: "ContextProvenance \<Rightarrow> bool" where
  "valid_provenance p \<longleftrightarrow> cpv_source_location p \<noteq> Some [] \<and> cpv_digest p \<noteq> Some []"

definition contains_unknown :: "ContentBlock list \<Rightarrow> bool" where
  "contains_unknown content \<longleftrightarrow> list_ex (\<lambda>b. case b of CB_unknown _ \<Rightarrow> True | _ \<Rightarrow> False) content"

definition has_control_character :: "string \<Rightarrow> bool" where
  "has_control_character v \<longleftrightarrow> list_ex (\<lambda>c. byte c < 0x20 \<or> byte c = 0x7f) v"

text \<open>\<^verbatim>\<open>*left.instruction_layer\<close>: the entries compared are instructions and have a layer.\<close>

definition instruction_before :: "ContextEntry \<Rightarrow> ContextEntry \<Rightarrow> bool" where
  "instruction_before left right =
     (let left_rank = layer_rank (the (ce_instruction_layer left));
          right_rank = layer_rank (the (ce_instruction_layer right)) in
      if left_rank \<noteq> right_rank then left_rank < right_rank
      else if ce_specificity left \<noteq> ce_specificity right then ce_specificity left < ce_specificity right
      else if ce_order left \<noteq> ce_order right then ce_order left < ce_order right
      else ce_entry_id left < ce_entry_id right)"

definition content_before :: "ContextEntry \<Rightarrow> ContextEntry \<Rightarrow> bool" where
  "content_before left right =
     (if ce_order left \<noteq> ce_order right then ce_order left < ce_order right
      else ce_entry_id left < ce_entry_id right)"

definition operation_before :: "InstructionInput \<Rightarrow> InstructionInput \<Rightarrow> bool" where
  "operation_before left right =
     (if ii_order left \<noteq> ii_order right then ii_order left < ii_order right
      else ii_entry_id left < ii_entry_id right)"

section \<open>Checking the input\<close>

text \<open>The identities seen so far and whether an instruction of the runtime has been seen.\<close>

record SeenInput =
  seen_entry_ids :: "ContextEntryId set"
  seen_message_ids :: "MessageId set"
  seen_tool_call_ids :: "InvocationId set"
  has_runtime_instruction :: bool

definition check_instruction_message ::
  "InstructionInput \<Rightarrow> SeenInput \<Rightarrow> ContextBuildError + SeenInput" where
  "check_instruction_message i s =
     (let err = (\<lambda>code. build_error code (Some (ii_entry_id i))) in
      case ii_message i of
        None \<Rightarrow> Inr s
      | Some m \<Rightarrow>
          fail_if (message_role m \<noteq> Role_system \<or> message_invocation_id m \<noteq> None \<or> tool_calls m \<noteq> [] \<or>
              message_content m = []) (err Build_invalid_instruction)
          (fail_if (contains_unknown (message_content m)) (err Build_unsupported_content)
          (fail_if (message_id m \<in> seen_message_ids s) (err Build_duplicate_message_id)
          (Inr (s\<lparr>seen_message_ids := insert (message_id m) (seen_message_ids s)\<rparr>)))))"

definition check_instruction :: "SeenInput \<Rightarrow> InstructionInput \<Rightarrow> ContextBuildError + SeenInput" where
  "check_instruction s i =
     (let err = (\<lambda>code. build_error code (Some (ii_entry_id i))) in
      fail_if (ii_entry_id i \<in> seen_entry_ids s) (err Build_duplicate_entry_id)
      (fail_if (\<not> valid_provenance (ii_provenance i)) (err Build_invalid_provenance)
      (fail_if (ii_order i = 0) (err Build_invalid_instruction)
      (fail_if (ii_layer i = Layer_unknown \<or> ii_operation i = Op_unknown) (err Build_invalid_instruction)
      (fail_if (ii_layer i \<noteq> Layer_project \<and> ii_specificity i \<noteq> 0) (err Build_invalid_instruction)
      (fail_if (ii_layer i = Layer_application_runtime \<and> ii_operation i \<noteq> Op_add)
         (err Build_runtime_instruction_mutation)
       (let adds_message = ii_operation i \<noteq> Op_disable; targets_entry = ii_operation i \<noteq> Op_add in
        fail_if (adds_message \<noteq> (ii_message i \<noteq> None) \<or> targets_entry \<noteq> (ii_target_entry_id i \<noteq> None) \<or>
            (adds_message \<and> ii_estimated_tokens i = 0) \<or> (\<not> adds_message \<and> ii_estimated_tokens i \<noteq> 0))
          (err Build_invalid_instruction)
        (check_instruction_message i
          (s\<lparr>seen_entry_ids := insert (ii_entry_id i) (seen_entry_ids s),
             has_runtime_instruction :=
               has_runtime_instruction s \<or> ii_layer i = Layer_application_runtime\<rparr>)))))))))"

text \<open>
  \<^verbatim>\<open>std::ranges::any_of\<close> with a predicate that records the identity of each call; it stops at the
  first call that is malformed or known.
\<close>

fun check_tool_calls :: "InvocationId set \<Rightarrow> ToolCall list \<Rightarrow> InvocationId set option" where
  "check_tool_calls seen [] = Some seen"
| "check_tool_calls seen (call # calls) =
     (if call_invocation_id call \<in> seen \<or> call_tool_name call = [] \<or> length (call_tool_name call) > 128 \<or>
         has_control_character (call_tool_name call) \<or>
         media_type (call_arguments call) \<noteq> ''application/json'' \<or> sd_data (call_arguments call) = []
      then None
      else check_tool_calls (insert (call_invocation_id call) seen) calls)"

definition role_is_valid :: "ContextContentKind \<Rightarrow> Message \<Rightarrow> bool" where
  "role_is_valid kind m \<longleftrightarrow>
     (kind = Content_conversation \<and>
        ((message_role m = Role_user \<and> tool_calls m = []) \<or> message_role m = Role_assistant) \<and>
        message_invocation_id m = None) \<or>
     (kind = Content_evidence \<and> message_role m = Role_evidence \<and> message_invocation_id m = None \<and>
        tool_calls m = []) \<or>
     (kind = Content_tool_result \<and> message_role m = Role_tool \<and> message_invocation_id m \<noteq> None \<and>
        tool_calls m = [])"

definition check_content :: "SeenInput \<Rightarrow> ContextContentInput \<Rightarrow> ContextBuildError + SeenInput" where
  "check_content s c =
     (let err = (\<lambda>code. build_error code (Some (cci_entry_id c))); m = cci_message c in
      fail_if (cci_entry_id c \<in> seen_entry_ids s) (err Build_duplicate_entry_id)
      (fail_if (message_id m \<in> seen_message_ids s) (err Build_duplicate_message_id)
      (fail_if (\<not> valid_provenance (cci_provenance c)) (err Build_invalid_provenance)
      (fail_if (cci_order c = 0 \<or> cci_estimated_tokens c = 0 \<or> (message_content m = [] \<and> tool_calls m = []))
         (err Build_invalid_content)
      (fail_if (contains_unknown (message_content m)) (err Build_unsupported_content)
       (case check_tool_calls (seen_tool_call_ids s) (tool_calls m) of
          None \<Rightarrow> Inl (err Build_invalid_content)
        | Some calls \<Rightarrow>
            fail_if (\<not> role_is_valid (cci_kind c) m)
              (err (if cci_kind c = Content_unknown then Build_unsupported_content else Build_invalid_content))
            (Inr (s\<lparr>seen_entry_ids := insert (cci_entry_id c) (seen_entry_ids s),
                    seen_message_ids := insert (message_id m) (seen_message_ids s),
                    seen_tool_call_ids := calls\<rparr>))))))))"

definition check_capacity :: "ContextCapacity \<Rightarrow> bool" where
  "check_capacity c \<longleftrightarrow>
     \<not> (case add_checked (reserved_output_tokens c) (reserved_input_tokens c) of
          None \<Rightarrow> True
        | Some reserved \<Rightarrow> reserved > context_window_tokens c)"

section \<open>Applying the instructions\<close>

record ActiveInstructions =
  active_instructions :: "(ContextEntryId \<times> ContextEntry) list"
  ai_decisions :: "(ContextEntryId \<times> ContextDecisionRecord) list"

definition decide ::
  "ContextEntryId \<Rightarrow> ContextDecision \<Rightarrow> ContextEntryId option \<Rightarrow> ActiveInstructions \<Rightarrow> ActiveInstructions" where
  "decide entry decision by_entry s =
     s\<lparr>ai_decisions := assign entry
         \<lparr>cdr_entry_id = entry, cdr_decision = decision, cdr_decided_by = by_entry\<rparr> (ai_decisions s)\<rparr>"

definition instruction_entry :: "InstructionInput \<Rightarrow> ContextEntry" where
  "instruction_entry i =
     \<lparr>ce_entry_id = ii_entry_id i, ce_kind = Entry_instruction, ce_instruction_layer = Some (ii_layer i),
      ce_message = the (ii_message i), ce_provenance = ii_provenance i, ce_specificity = ii_specificity i,
      ce_order = ii_order i, ce_estimated_tokens = ii_estimated_tokens i\<rparr>"

definition retire_target ::
  "InstructionInput list \<Rightarrow> InstructionInput \<Rightarrow> ActiveInstructions \<Rightarrow> ContextBuildError + ActiveInstructions" where
  "retire_target instructions i s =
     (let err = (\<lambda>code. build_error code (Some (ii_entry_id i))); target = the (ii_target_entry_id i) in
      case find (\<lambda>d. ii_entry_id d = target) instructions of
        None \<Rightarrow> Inl (err Build_unknown_target)
      | Some named \<Rightarrow>
          fail_if (ii_order named \<ge> ii_order i) (err Build_target_not_earlier)
          (fail_if (ii_layer named \<noteq> ii_layer i) (err Build_cross_layer_replacement)
          (fail_if (map_of (active_instructions s) target = None) (err Build_unknown_target)
           (let s = decide target (if ii_operation i = Op_replace then Context_superseded else Context_disabled)
                      (Some (ii_entry_id i)) s in
            Inr (s\<lparr>active_instructions := erase target (active_instructions s)\<rparr>)))))"

definition apply_instruction ::
  "InstructionInput list \<Rightarrow> ActiveInstructions \<Rightarrow> InstructionInput \<Rightarrow> ContextBuildError + ActiveInstructions" where
  "apply_instruction instructions s i =
     bind_result (if ii_operation i \<noteq> Op_add then retire_target instructions i s else Inr s) (\<lambda>s.
       if ii_operation i = Op_disable
       then Inr (decide (ii_entry_id i) Context_disabled (ii_target_entry_id i) s)
       else Inr (decide (ii_entry_id i) Context_admitted None
              (s\<lparr>active_instructions := emplace (ii_entry_id i) (instruction_entry i) (active_instructions s)\<rparr>)))"

section \<open>Content, estimates and the result\<close>

fun content_kind :: "ContextContentKind \<Rightarrow> ContextEntryKind option" where
  "content_kind Content_conversation = Some Entry_conversation"
| "content_kind Content_evidence = Some Entry_evidence"
| "content_kind Content_tool_result = Some Entry_tool_result"
| "content_kind Content_unknown = None"

definition content_entry :: "ContextContentInput \<Rightarrow> ContextEntryKind \<Rightarrow> ContextEntry" where
  "content_entry c kind =
     \<lparr>ce_entry_id = cci_entry_id c, ce_kind = kind, ce_instruction_layer = None, ce_message = cci_message c,
      ce_provenance = cci_provenance c, ce_specificity = 0, ce_order = cci_order c,
      ce_estimated_tokens = cci_estimated_tokens c\<rparr>"

definition admit_content ::
  "ContextEntry list \<times> (ContextEntryId \<times> ContextDecisionRecord) list \<Rightarrow> ContextContentInput \<Rightarrow>
   ContextBuildError + ContextEntry list \<times> (ContextEntryId \<times> ContextDecisionRecord) list" where
  "admit_content s c =
     (case content_kind (cci_kind c) of
        None \<Rightarrow> Inl (build_error Build_unsupported_content (Some (cci_entry_id c)))
      | Some kind \<Rightarrow>
          Inr (fst s @ [content_entry c kind],
               assign (cci_entry_id c)
                 \<lparr>cdr_entry_id = cci_entry_id c, cdr_decision = Context_admitted, cdr_decided_by = None\<rparr> (snd s)))"

definition add_estimate :: "u64 \<Rightarrow> ContextEntry \<Rightarrow> ContextBuildError + u64" where
  "add_estimate estimated e =
     (case add_checked estimated (ce_estimated_tokens e) of
        None \<Rightarrow> Inl (build_error Build_token_overflow (Some (ce_entry_id e)))
      | Some t \<Rightarrow> Inr t)"

definition build_context :: "ContextBuildInput \<Rightarrow> ContextBuildError + ConstructedContext" where
  "build_context input =
     (let capacity = cbi_capacity input in
      fail_if (context_window_tokens capacity = 0) (build_error Build_invalid_capacity None)
      (fail_if (\<not> check_capacity capacity) (build_error Build_invalid_capacity None)
      (bind_result (replay check_instruction
          \<lparr>seen_entry_ids = {}, seen_message_ids = {}, seen_tool_call_ids = {}, has_runtime_instruction = False\<rparr>
          (cbi_instructions input)) (\<lambda>seen.
       bind_result (replay check_content seen (cbi_content input)) (\<lambda>_.
       fail_if (\<not> has_runtime_instruction seen) (build_error Build_missing_runtime_instruction None)
       (bind_result (replay (apply_instruction (cbi_instructions input))
            \<lparr>active_instructions = [], ai_decisions = []\<rparr>
            (sort_by operation_before (cbi_instructions input))) (\<lambda>active.
        let instruction_entries = sort_by instruction_before (map snd (active_instructions active)) in
        bind_result (replay admit_content ([], ai_decisions active) (cbi_content input)) (\<lambda>(contents, decisions).
        let content_entries = sort_by content_before contents in
        bind_result (replay add_estimate (reserved_input_tokens capacity) instruction_entries) (\<lambda>estimated.
        bind_result (replay add_estimate estimated content_entries) (\<lambda>estimated_input.
        fail_if (estimated_input > context_window_tokens capacity - reserved_output_tokens capacity)
          (build_error Build_capacity_exceeded None)
        (Inr \<lparr>cc_entries = instruction_entries @ content_entries, cc_decisions = map snd decisions,
              cc_capacity = capacity, cc_estimated_input_tokens = estimated_input\<rparr>)))))))))))"

section \<open>The comparators are orders\<close>

interpretation operations: keyed_order operation_before "\<lambda>i. (ii_order i, ii_entry_id i)"
  by unfold_locales (auto simp: operation_before_def less_prod_def)

interpretation contents: keyed_order content_before "\<lambda>e. (ce_order e, ce_entry_id e)"
  by unfold_locales (auto simp: content_before_def less_prod_def)

interpretation layers: keyed_order instruction_before
  "\<lambda>e. (layer_rank (the (ce_instruction_layer e)), ce_specificity e, ce_order e, ce_entry_id e)"
  by unfold_locales (auto simp: instruction_before_def less_prod_def Let_def)

section \<open>What the checks ensure\<close>

lemma replay_history:
  assumes "replay step s es = Inr s'" and "I ps s" and "xs = ps @ es"
    and step: "\<And>qs e rs t t'. xs = qs @ e # rs \<Longrightarrow> I qs t \<Longrightarrow> step t e = Inr t' \<Longrightarrow> I (qs @ [e]) t'"
  shows "I xs s'"
  using assms(1-3)
proof (induction es arbitrary: ps s)
  case (Cons e es)
  then obtain t where t: "step s e = Inr t" "replay step t es = Inr s'" by auto
  have "I (ps @ [e]) t" using step [of ps e es] Cons.prems t(1) by simp
  with Cons.IH [OF t(2), of "ps @ [e]"] Cons.prems show ?case by simp
qed simp

definition instruction_ok :: "InstructionInput \<Rightarrow> bool" where
  "instruction_ok i \<longleftrightarrow>
     (ii_layer i = Layer_application_runtime \<longrightarrow> ii_operation i = Op_add) \<and>
     ii_layer i \<noteq> Layer_unknown \<and> ii_operation i \<noteq> Op_unknown \<and>
     (ii_operation i \<noteq> Op_disable \<longleftrightarrow> ii_message i \<noteq> None) \<and>
     (ii_operation i \<noteq> Op_add \<longleftrightarrow> ii_target_entry_id i \<noteq> None)"

lemma check_instruction_Inr:
  assumes "check_instruction s i = Inr s'"
  shows "ii_entry_id i \<notin> seen_entry_ids s" and "instruction_ok i"
    and "seen_entry_ids s' = insert (ii_entry_id i) (seen_entry_ids s)"
    and "has_runtime_instruction s' \<longleftrightarrow> has_runtime_instruction s \<or> ii_layer i = Layer_application_runtime"
proof -
  have pass: "check_instruction_message i t = Inr t' \<Longrightarrow>
      seen_entry_ids t' = seen_entry_ids t \<and> has_runtime_instruction t' = has_runtime_instruction t" for t t'
    by (auto simp: check_instruction_message_def Let_def split: option.splits)
  have "check_instruction_message i (s\<lparr>seen_entry_ids := insert (ii_entry_id i) (seen_entry_ids s),
      has_runtime_instruction := has_runtime_instruction s \<or> ii_layer i = Layer_application_runtime\<rparr>) = Inr s'"
    using assms by (simp add: check_instruction_def Let_def)
  from pass [OF this]
  show "seen_entry_ids s' = insert (ii_entry_id i) (seen_entry_ids s)"
    "has_runtime_instruction s' \<longleftrightarrow> has_runtime_instruction s \<or> ii_layer i = Layer_application_runtime"
    by simp_all
  show "ii_entry_id i \<notin> seen_entry_ids s" "instruction_ok i"
    using assms by (auto simp: check_instruction_def instruction_ok_def Let_def)
qed

lemma checked_instructions:
  assumes "replay check_instruction s is = Inr s'"
  shows "distinct (map ii_entry_id is) \<and> ii_entry_id ` set is \<inter> seen_entry_ids s = {} \<and> list_all instruction_ok is \<and>
    seen_entry_ids s' = seen_entry_ids s \<union> ii_entry_id ` set is \<and>
    (has_runtime_instruction s' \<longleftrightarrow>
       has_runtime_instruction s \<or> (\<exists>i \<in> set is. ii_layer i = Layer_application_runtime))"
  using assms
proof (induction "is" arbitrary: s)
  case (Cons i "is")
  then obtain t where t: "check_instruction s i = Inr t" "replay check_instruction t is = Inr s'" by auto
  show ?case using check_instruction_Inr [OF t(1)] Cons.IH [OF t(2)] by auto
qed simp

lemma check_content_Inr:
  assumes "check_content s c = Inr s'"
  shows "cci_entry_id c \<notin> seen_entry_ids s" and "seen_entry_ids s' = insert (cci_entry_id c) (seen_entry_ids s)"
  using assms by (auto simp: check_content_def Let_def split: option.splits)

lemma checked_contents:
  assumes "replay check_content s cs = Inr s'"
  shows "distinct (map cci_entry_id cs) \<and> cci_entry_id ` set cs \<inter> seen_entry_ids s = {}"
  using assms
proof (induction cs arbitrary: s)
  case (Cons c cs)
  then obtain t where t: "check_content s c = Inr t" "replay check_content t cs = Inr s'" by auto
  show ?case using check_content_Inr [OF t(1)] Cons.IH [OF t(2)] by auto
qed simp

lemma add_estimate_Inr: "add_estimate t e = Inr u \<longleftrightarrow> unat u = unat t + unat (ce_estimated_tokens e)"
  by (auto simp: add_estimate_def simp flip: add_checked_iff split: option.splits)

lemma estimates_exact:
  "replay add_estimate t es = Inr t' \<Longrightarrow> unat t' = unat t + (\<Sum>e \<leftarrow> es. unat (ce_estimated_tokens e))"
  by (induction es arbitrary: t) (fastforce simp: add_estimate_Inr)+

section \<open>The instructions that stay active\<close>

text \<open>
  An instruction is retired when a replacing or disabling instruction names it.  After a list of
  operations exactly the instructions that carry a message and are not retired are active, and there
  is one decision for each instruction.
\<close>

definition targets :: "InstructionInput \<Rightarrow> ContextEntryId \<Rightarrow> bool" where
  "targets j k \<longleftrightarrow> ii_operation j \<noteq> Op_add \<and> the (ii_target_entry_id j) = k"

definition stays :: "InstructionInput list \<Rightarrow> InstructionInput \<Rightarrow> bool" where
  "stays ps i \<longleftrightarrow> ii_operation i \<noteq> Op_disable \<and> (\<forall>j \<in> set ps. \<not> targets j (ii_entry_id i))"

definition applied :: "InstructionInput list \<Rightarrow> InstructionInput list \<Rightarrow> ActiveInstructions \<Rightarrow> bool" where
  "applied instructions ps s \<longleftrightarrow>
     sorted_wrt (<) (map fst (active_instructions s)) \<and> sorted_wrt (<) (map fst (ai_decisions s)) \<and>
     (\<forall>k e. map_of (active_instructions s) k = Some e \<longleftrightarrow>
        (\<exists>i \<in> set ps. ii_entry_id i = k \<and> stays ps i \<and> e = instruction_entry i)) \<and>
     fst ` set (ai_decisions s) = ii_entry_id ` set ps \<and>
     (\<forall>k r. map_of (ai_decisions s) k = Some r \<longrightarrow> cdr_entry_id r = k \<and>
        (cdr_decision r = Context_admitted \<longleftrightarrow> map_of (active_instructions s) k \<noteq> None)) \<and>
     (\<forall>j \<in> set ps. ii_operation j \<noteq> Op_add \<longrightarrow>
        (\<exists>d \<in> set instructions. targets j (ii_entry_id d) \<and> ii_layer d = ii_layer j \<and> ii_order d < ii_order j) \<and>
        the (ii_target_entry_id j) \<in> ii_entry_id ` set ps)"

lemma applied_targets:
  assumes "applied instructions ps s" and "j \<in> set ps" and "targets j k"
  shows "\<exists>d \<in> set instructions. targets j (ii_entry_id d) \<and> ii_layer d = ii_layer j \<and> ii_order d < ii_order j"
  using assms unfolding applied_def targets_def by blast

lemma retire_target_Inr:
  assumes "retire_target instructions i s = Inr s'" and "ii_operation i \<noteq> Op_add"
  defines "k \<equiv> the (ii_target_entry_id i)"
  shows "\<exists>d \<in> set instructions. ii_entry_id d = k \<and> ii_layer d = ii_layer i \<and> ii_order d < ii_order i"
    and "map_of (active_instructions s) k \<noteq> None"
    and "active_instructions s' = erase k (active_instructions s)"
    and "\<exists>r. ai_decisions s' = assign k r (ai_decisions s) \<and> cdr_entry_id r = k \<and> cdr_decision r \<noteq> Context_admitted"
  using assms
  by (auto simp: retire_target_def decide_def Let_def not_le dest: find_SomeD split: option.splits if_splits)

text \<open>The effect of one operation on the two maps.\<close>

lemma apply_instruction_Inr:
  assumes "apply_instruction instructions s i = Inr s'" and "map_of (active_instructions s) (ii_entry_id i) = None"
  defines "k \<equiv> the (ii_target_entry_id i)"
  defines "retired \<equiv> if ii_operation i \<noteq> Op_add then erase k (active_instructions s) else active_instructions s"
  shows "active_instructions s' =
      (if ii_operation i \<noteq> Op_disable then assign (ii_entry_id i) (instruction_entry i) retired else retired)"
    and "\<exists>r d. cdr_entry_id r = k \<and> cdr_decision r \<noteq> Context_admitted \<and> cdr_entry_id d = ii_entry_id i \<and>
      (cdr_decision d = Context_admitted \<longleftrightarrow> ii_operation i \<noteq> Op_disable) \<and>
      ai_decisions s' = assign (ii_entry_id i) d
        (if ii_operation i \<noteq> Op_add then assign k r (ai_decisions s) else ai_decisions s)"
    and "ii_operation i \<noteq> Op_add \<Longrightarrow> map_of (active_instructions s) k \<noteq> None \<and>
      (\<exists>d \<in> set instructions. ii_entry_id d = k \<and> ii_layer d = ii_layer i \<and> ii_order d < ii_order i)"
proof -
  obtain t where t: "if ii_operation i \<noteq> Op_add then retire_target instructions i s = Inr t else t = s"
    and s': "s' = (if ii_operation i = Op_disable
       then decide (ii_entry_id i) Context_disabled (ii_target_entry_id i) t
       else decide (ii_entry_id i) Context_admitted None
              (t\<lparr>active_instructions := emplace (ii_entry_id i) (instruction_entry i) (active_instructions t)\<rparr>))"
    using assms(1) by (auto simp: apply_instruction_def split: if_splits)
  have active: "active_instructions t = retired"
    using t retire_target_Inr(3) [of instructions i s t] by (auto simp: retired_def k_def split: if_splits)
  have "map_of retired (ii_entry_id i) = None" using assms(2) by (simp add: retired_def)
  then show "active_instructions s' =
      (if ii_operation i \<noteq> Op_disable then assign (ii_entry_id i) (instruction_entry i) retired else retired)"
    by (simp add: s' active decide_def emplace_def)
  obtain r where "cdr_entry_id r = k" "cdr_decision r \<noteq> Context_admitted"
    "ai_decisions t = (if ii_operation i \<noteq> Op_add then assign k r (ai_decisions s) else ai_decisions s)"
  proof (cases "ii_operation i = Op_add")
    case True
    with t show ?thesis
      by (intro that [of "\<lparr>cdr_entry_id = k, cdr_decision = Context_disabled, cdr_decided_by = None\<rparr>"]) simp_all
  next
    case False
    with t retire_target_Inr(4) [of instructions i s t] show ?thesis by (auto simp: k_def intro: that)
  qed
  then show "\<exists>r d. cdr_entry_id r = k \<and> cdr_decision r \<noteq> Context_admitted \<and> cdr_entry_id d = ii_entry_id i \<and>
      (cdr_decision d = Context_admitted \<longleftrightarrow> ii_operation i \<noteq> Op_disable) \<and>
      ai_decisions s' = assign (ii_entry_id i) d
        (if ii_operation i \<noteq> Op_add then assign k r (ai_decisions s) else ai_decisions s)"
    by (intro exI [of _ r] exI [of _ "\<lparr>cdr_entry_id = ii_entry_id i,
          cdr_decision = (if ii_operation i = Op_disable then Context_disabled else Context_admitted),
          cdr_decided_by = (if ii_operation i = Op_disable then ii_target_entry_id i else None)\<rparr>"])
      (simp add: s' decide_def)
  show "map_of (active_instructions s) k \<noteq> None \<and>
      (\<exists>d \<in> set instructions. ii_entry_id d = k \<and> ii_layer d = ii_layer i \<and> ii_order d < ii_order i)"
    if "ii_operation i \<noteq> Op_add"
    using that t retire_target_Inr(1,2) [of instructions i s t] by (simp add: k_def)
qed

lemma applied_step:
  assumes "applied instructions ps s" and "apply_instruction instructions s i = Inr s'"
    and fresh: "ii_entry_id i \<notin> ii_entry_id ` set ps"
  shows "applied instructions (ps @ [i]) s'"
proof -
  let ?A = "active_instructions s" and ?k = "the (ii_target_entry_id i)"
  have old: "map_of ?A k = Some e \<longleftrightarrow> (\<exists>p \<in> set ps. ii_entry_id p = k \<and> stays ps p \<and> e = instruction_entry p)" for k e
    using assms(1) by (simp add: applied_def)
  have none: "map_of ?A (ii_entry_id i) = None"
    by (metis fresh imageI not_Some_eq old)
  note step = apply_instruction_Inr [OF assms(2) none]
  have known: "?k \<in> ii_entry_id ` set ps" if "ii_operation i \<noteq> Op_add"
    using step(3) [OF that] by (metis imageI not_Some_eq old)
  have earlier: "the (ii_target_entry_id j) \<in> ii_entry_id ` set ps" if "j \<in> set ps" "ii_operation j \<noteq> Op_add" for j
    using assms(1) that by (simp add: applied_def)
  have self: "stays (ps @ [i]) i \<longleftrightarrow> ii_operation i \<noteq> Op_disable"
    using earlier fresh known unfolding stays_def targets_def by (metis Un_iff empty_iff empty_set insert_iff list.simps(15) set_append)
  have other: "stays (ps @ [i]) p \<longleftrightarrow> stays ps p \<and> \<not> targets i (ii_entry_id p)" for p
    by (auto simp: stays_def)
  have active: "map_of (active_instructions s') k = Some e \<longleftrightarrow>
      (\<exists>p \<in> set (ps @ [i]). ii_entry_id p = k \<and> stays (ps @ [i]) p \<and> e = instruction_entry p)" for k e
  proof (cases "k = ii_entry_id i")
    case True
    moreover have "ii_entry_id p \<noteq> ii_entry_id i" if "p \<in> set ps" for p using that fresh by (metis imageI)
    ultimately show ?thesis using none self by (auto simp: step(1))
  next
    case False
    then show ?thesis using old [of k e] by (auto simp: step(1) other targets_def)
  qed
  obtain r d where r: "cdr_entry_id r = ?k" "cdr_decision r \<noteq> Context_admitted"
    and d: "cdr_entry_id d = ii_entry_id i" "cdr_decision d = Context_admitted \<longleftrightarrow> ii_operation i \<noteq> Op_disable"
    and decisions: "ai_decisions s' = assign (ii_entry_id i) d
        (if ii_operation i \<noteq> Op_add then assign ?k r (ai_decisions s) else ai_decisions s)"
    using step(2) by blast
  have recorded: "cdr_entry_id x = k \<and> (cdr_decision x = Context_admitted \<longleftrightarrow> map_of (active_instructions s') k \<noteq> None)"
    if "map_of (ai_decisions s') k = Some x" for k x
  proof -
    have "cdr_entry_id x = k \<and> (cdr_decision x = Context_admitted \<longleftrightarrow> map_of ?A k \<noteq> None)"
      if "map_of (ai_decisions s) k = Some x"
      using assms(1) that unfolding applied_def by blast
    moreover have "?k \<noteq> ii_entry_id i" if "ii_operation i \<noteq> Op_add"
      using known [OF that] fresh by (metis)
    ultimately show ?thesis
      using that r d none by (auto simp: decisions step(1) split: if_splits)
  qed
  show ?thesis
    unfolding applied_def
  proof (intro conjI allI impI)
    show "sorted_wrt (<) (map fst (active_instructions s'))" "sorted_wrt (<) (map fst (ai_decisions s'))"
      using assms(1) by (simp_all add: step(1) decisions applied_def sorted_assign sorted_erase)
    show "fst ` set (ai_decisions s') = ii_entry_id ` set (ps @ [i])"
      using assms(1) known by (auto simp: decisions applied_def)
    show "\<forall>j \<in> set (ps @ [i]). ii_operation j \<noteq> Op_add \<longrightarrow>
        (\<exists>d \<in> set instructions. targets j (ii_entry_id d) \<and> ii_layer d = ii_layer j \<and> ii_order d < ii_order j) \<and>
        the (ii_target_entry_id j) \<in> ii_entry_id ` set (ps @ [i])"
    proof (intro ballI impI)
      fix j
      assume j: "j \<in> set (ps @ [i])" "ii_operation j \<noteq> Op_add"
      show "(\<exists>d \<in> set instructions. targets j (ii_entry_id d) \<and> ii_layer d = ii_layer j \<and> ii_order d < ii_order j) \<and>
        the (ii_target_entry_id j) \<in> ii_entry_id ` set (ps @ [i])"
      proof (cases "j \<in> set ps")
        case True
        with j assms(1) show ?thesis unfolding applied_def by auto
      next
        case False
        with j have "j = i" by simp
        with j step(3) known show ?thesis unfolding targets_def by (metis UnCI image_Un set_append)
      qed
    qed
  qed (use active recorded in auto)
qed

lemma applied_all:
  assumes "replay (apply_instruction instructions) \<lparr>active_instructions = [], ai_decisions = []\<rparr> ps = Inr s"
    and "distinct (map ii_entry_id ps)"
  shows "applied instructions ps s"
proof (rule replay_history [where I = "applied instructions", OF assms(1), of "[]"])
  show "applied instructions [] \<lparr>active_instructions = [], ai_decisions = []\<rparr>"
    by (simp add: applied_def)
  show "applied instructions (qs @ [i]) t'"
    if "ps = qs @ i # rs" "applied instructions qs t" "apply_instruction instructions t i = Inr t'" for qs i rs t t'
    using applied_step [OF that(2,3)] that(1) assms(2) by auto
qed simp

lemma admitted_contents:
  assumes "replay admit_content (es, ds) cs = Inr (es', ds')"
  shows "map ce_entry_id es' = map ce_entry_id es @ map cci_entry_id cs"
    and "\<forall>e \<in> set es'. e \<in> set es \<or> ce_kind e \<noteq> Entry_instruction"
    and "(\<Sum>e \<leftarrow> es'. unat (ce_estimated_tokens e)) =
      (\<Sum>e \<leftarrow> es. unat (ce_estimated_tokens e)) + (\<Sum>c \<leftarrow> cs. unat (cci_estimated_tokens c))"
    and "fst ` set ds' = fst ` set ds \<union> cci_entry_id ` set cs"
    and "sorted_wrt (<) (map fst ds) \<Longrightarrow> sorted_wrt (<) (map fst ds')"
    and "map_of ds' k = (if k \<in> cci_entry_id ` set cs
      then Some \<lparr>cdr_entry_id = k, cdr_decision = Context_admitted, cdr_decided_by = None\<rparr> else map_of ds k)"
proof -
  have "map ce_entry_id es' = map ce_entry_id es @ map cci_entry_id cs \<and>
    (\<forall>e \<in> set es'. e \<in> set es \<or> ce_kind e \<noteq> Entry_instruction) \<and>
    (\<Sum>e \<leftarrow> es'. unat (ce_estimated_tokens e)) =
      (\<Sum>e \<leftarrow> es. unat (ce_estimated_tokens e)) + (\<Sum>c \<leftarrow> cs. unat (cci_estimated_tokens c)) \<and>
    fst ` set ds' = fst ` set ds \<union> cci_entry_id ` set cs \<and>
    (sorted_wrt (<) (map fst ds) \<longrightarrow> sorted_wrt (<) (map fst ds')) \<and>
    map_of ds' k = (if k \<in> cci_entry_id ` set cs
      then Some \<lparr>cdr_entry_id = k, cdr_decision = Context_admitted, cdr_decided_by = None\<rparr> else map_of ds k)"
    using assms
  proof (induction cs arbitrary: es ds)
    case (Cons c cs)
    then obtain kind where kind: "content_kind (cci_kind c) = Some kind"
      by (cases "content_kind (cci_kind c)") (auto simp: admit_content_def [of "(es, ds)" c])
    then have "kind \<noteq> Entry_instruction" by (cases "cci_kind c") auto
    moreover from kind Cons.prems have "replay admit_content (es @ [content_entry c kind],
        assign (cci_entry_id c)
          \<lparr>cdr_entry_id = cci_entry_id c, cdr_decision = Context_admitted, cdr_decided_by = None\<rparr> ds) cs = Inr (es', ds')"
      by (simp add: admit_content_def [of "(es, ds)" c])
    note Cons.IH [OF this]
    ultimately show ?case by (auto simp: content_entry_def sorted_assign)
  qed simp
  then show "map ce_entry_id es' = map ce_entry_id es @ map cci_entry_id cs"
    "\<forall>e \<in> set es'. e \<in> set es \<or> ce_kind e \<noteq> Entry_instruction"
    "(\<Sum>e \<leftarrow> es'. unat (ce_estimated_tokens e)) =
      (\<Sum>e \<leftarrow> es. unat (ce_estimated_tokens e)) + (\<Sum>c \<leftarrow> cs. unat (cci_estimated_tokens c))"
    "fst ` set ds' = fst ` set ds \<union> cci_entry_id ` set cs"
    "sorted_wrt (<) (map fst ds) \<Longrightarrow> sorted_wrt (<) (map fst ds')"
    "map_of ds' k = (if k \<in> cci_entry_id ` set cs
      then Some \<lparr>cdr_entry_id = k, cdr_decision = Context_admitted, cdr_decided_by = None\<rparr> else map_of ds k)"
    by blast+
qed

section \<open>Properties\<close>

text \<open>What a successful construction consists of.\<close>

lemma build_contextE:
  assumes "build_context input = Inr ctx"
  obtains active contents decisions where
    "check_capacity (cbi_capacity input)"
    "distinct (map ii_entry_id (cbi_instructions input))" "list_all instruction_ok (cbi_instructions input)"
    "\<exists>i \<in> set (cbi_instructions input). ii_layer i = Layer_application_runtime"
    "distinct (map cci_entry_id (cbi_content input))"
    "cci_entry_id ` set (cbi_content input) \<inter> ii_entry_id ` set (cbi_instructions input) = {}"
    "applied (cbi_instructions input) (sort_by operation_before (cbi_instructions input)) active"
    "replay admit_content ([], ai_decisions active) (cbi_content input) = Inr (contents, decisions)"
    "unat (cc_estimated_input_tokens ctx) = unat (reserved_input_tokens (cbi_capacity input)) +
       (\<Sum>e \<leftarrow> map snd (active_instructions active) @ contents. unat (ce_estimated_tokens e))"
    "cc_estimated_input_tokens ctx \<le>
       context_window_tokens (cbi_capacity input) - reserved_output_tokens (cbi_capacity input)"
    "cc_entries ctx = sort_by instruction_before (map snd (active_instructions active)) @ sort_by content_before contents"
    "cc_decisions ctx = map snd decisions"
proof -
  let ?is = "cbi_instructions input" and ?c = "cbi_capacity input"
  obtain seen seen' active contents decisions t u where
    capacity: "check_capacity ?c"
    and ins: "replay check_instruction \<lparr>seen_entry_ids = {}, seen_message_ids = {}, seen_tool_call_ids = {},
        has_runtime_instruction = False\<rparr> ?is = Inr seen"
    and cons: "replay check_content seen (cbi_content input) = Inr seen'"
    and runtime: "has_runtime_instruction seen"
    and active: "replay (apply_instruction ?is) \<lparr>active_instructions = [], ai_decisions = []\<rparr>
        (sort_by operation_before ?is) = Inr active"
    and admit: "replay admit_content ([], ai_decisions active) (cbi_content input) = Inr (contents, decisions)"
    and t: "replay add_estimate (reserved_input_tokens ?c)
        (sort_by instruction_before (map snd (active_instructions active))) = Inr t"
    and u: "replay add_estimate t (sort_by content_before contents) = Inr u"
    and fits: "u \<le> context_window_tokens ?c - reserved_output_tokens ?c"
    and ctx: "ctx = \<lparr>cc_entries = sort_by instruction_before (map snd (active_instructions active)) @
        sort_by content_before contents, cc_decisions = map snd decisions, cc_capacity = ?c,
        cc_estimated_input_tokens = u\<rparr>"
    using assms unfolding build_context_def Let_def by (auto simp: not_less)
  have checked: "distinct (map ii_entry_id ?is)" "list_all instruction_ok ?is"
      "\<exists>i \<in> set ?is. ii_layer i = Layer_application_runtime" "seen_entry_ids seen = ii_entry_id ` set ?is"
    using checked_instructions [OF ins] runtime by auto
  moreover have "applied ?is (sort_by operation_before ?is) active"
    by (rule applied_all [OF active]) (simp add: checked)
  moreover have "unat u = unat (reserved_input_tokens ?c) +
      (\<Sum>e \<leftarrow> map snd (active_instructions active) @ contents. unat (ce_estimated_tokens e))"
    using estimates_exact [OF t] estimates_exact [OF u] by simp
  ultimately show ?thesis
    using that capacity admit fits ctx checked_contents [OF cons] by simp
qed

text \<open>Which instructions are active, as a set of entries.\<close>

lemma active_entries:
  assumes "applied instructions ps s" and "set ps = set instructions"
  shows "set (map snd (active_instructions s)) = {instruction_entry i | i. i \<in> set instructions \<and> stays instructions i}"
    and "fst ` set (active_instructions s) = ii_entry_id ` {i \<in> set instructions. stays instructions i}"
    and "map ce_entry_id (map snd (active_instructions s)) = map fst (active_instructions s)"
proof -
  have stays: "stays ps = stays instructions" using assms(2) by (simp add: stays_def fun_eq_iff)
  have dist: "distinct (map fst (active_instructions s))"
    using assms(1) by (simp add: applied_def distinct_keys)
  have entry: "(k, e) \<in> set (active_instructions s) \<longleftrightarrow>
      (\<exists>i \<in> set instructions. ii_entry_id i = k \<and> stays instructions i \<and> e = instruction_entry i)" for k e
    using assms map_of_eq_Some_iff [OF dist, of k e] by (simp add: applied_def stays)
  show "set (map snd (active_instructions s)) = {instruction_entry i | i. i \<in> set instructions \<and> stays instructions i}"
    using entry by (auto simp: image_iff) (metis entry snd_conv)
  show "fst ` set (active_instructions s) = ii_entry_id ` {i \<in> set instructions. stays instructions i}"
    using entry by (force simp: image_iff)
  show "map ce_entry_id (map snd (active_instructions s)) = map fst (active_instructions s)"
    using entry by (auto simp: instruction_entry_def)
qed

text \<open>
  A constructed context fits.  Its estimate is exactly the reserved input and the estimates of its
  entries, with no wrap-around; together with the reserved output it is within the window; and no two
  entries have the same identity.
\<close>

theorem context_within_capacity:
  assumes "build_context input = Inr ctx"
  shows "unat (cc_estimated_input_tokens ctx) = unat (reserved_input_tokens (cbi_capacity input)) +
      (\<Sum>e \<leftarrow> cc_entries ctx. unat (ce_estimated_tokens e)) \<and>
    unat (cc_estimated_input_tokens ctx) + unat (reserved_output_tokens (cbi_capacity input))
      \<le> unat (context_window_tokens (cbi_capacity input)) \<and>
    distinct (map ce_entry_id (cc_entries ctx))"
proof -
  let ?is = "cbi_instructions input" and ?c = "cbi_capacity input"
  obtain active contents decisions where
    capacity: "check_capacity ?c" and ids: "distinct (map cci_entry_id (cbi_content input))"
      "cci_entry_id ` set (cbi_content input) \<inter> ii_entry_id ` set ?is = {}"
    and active: "applied ?is (sort_by operation_before ?is) active"
    and admit: "replay admit_content ([], ai_decisions active) (cbi_content input) = Inr (contents, decisions)"
    and exact: "unat (cc_estimated_input_tokens ctx) = unat (reserved_input_tokens ?c) +
      (\<Sum>e \<leftarrow> map snd (active_instructions active) @ contents. unat (ce_estimated_tokens e))"
    and fits: "cc_estimated_input_tokens ctx \<le> context_window_tokens ?c - reserved_output_tokens ?c"
    and entries: "cc_entries ctx =
      sort_by instruction_before (map snd (active_instructions active)) @ sort_by content_before contents"
    using build_contextE [OF assms] by metis
  note act = active_entries [OF active set_sort_by] and con = admitted_contents [OF admit]
  have "unat (reserved_output_tokens ?c) \<le> unat (context_window_tokens ?c)"
    using capacity by (auto simp: check_capacity_def add_checked_iff not_less word_le_nat_alt split: option.splits)
  then have "unat (cc_estimated_input_tokens ctx) + unat (reserved_output_tokens ?c) \<le> unat (context_window_tokens ?c)"
    using fits by (simp add: word_le_nat_alt unat_sub)
  moreover have "distinct (map ce_entry_id (cc_entries ctx))"
  proof -
    let ?E = "map snd (active_instructions active)"
    have "distinct (map ce_entry_id ?E)"
      unfolding act(3) using active by (simp add: applied_def distinct_keys)
    moreover have "distinct (map ce_entry_id contents)" using con(1) ids(1) by simp
    moreover have "ce_entry_id ` set ?E = fst ` set (active_instructions active)"
      using arg_cong [OF act(3), of set] by (simp only: set_map)
    moreover have "ce_entry_id ` set contents = cci_entry_id ` set (cbi_content input)"
      using arg_cong [OF con(1), of set] by (simp only: set_map list.map append_Nil)
    ultimately show ?thesis
      unfolding entries map_append distinct_append distinct_map_sort_by set_map set_sort_by
      using act(2) ids(2) by blast
  qed
  ultimately show ?thesis using exact by (simp add: entries)
qed

text \<open>The two halves of the entries are sorted, instructions first.\<close>

lemma instructions_ordered:
  assumes "applied instructions ps s" and "set ps = set instructions"
  defines "ins \<equiv> sort_by instruction_before (map snd (active_instructions s))"
  shows "sorted_wrt instruction_before ins \<and> list_all (\<lambda>e. ce_kind e = Entry_instruction) ins"
proof
  note act = active_entries [OF assms(1,2)]
  have "distinct (map ce_entry_id (map snd (active_instructions s)))"
    unfolding act(3) using assms(1) by (simp add: applied_def distinct_keys)
  then have "distinct (map (\<lambda>e. (layer_rank (the (ce_instruction_layer e)), ce_specificity e, ce_order e,
      ce_entry_id e)) (map snd (active_instructions s)))"
    unfolding distinct_map by (auto simp: inj_on_def)
  then show "sorted_wrt instruction_before ins" unfolding ins_def by (rule layers.sorted_sort_by)
  have "set ins = {instruction_entry i | i. i \<in> set instructions \<and> stays instructions i}"
    unfolding ins_def set_sort_by by (rule act(1))
  moreover have "ce_kind (instruction_entry i) = Entry_instruction" for i by (simp add: instruction_entry_def)
  ultimately show "list_all (\<lambda>e. ce_kind e = Entry_instruction) ins"
    unfolding list_all_iff by auto
qed

lemma contents_ordered:
  assumes "replay admit_content ([], ds) cs = Inr (es, ds')" and "distinct (map cci_entry_id cs)"
  shows "sorted_wrt content_before (sort_by content_before es) \<and>
    list_all (\<lambda>e. ce_kind e \<noteq> Entry_instruction) (sort_by content_before es)"
proof
  note con = admitted_contents [OF assms(1)]
  have "distinct (map ce_entry_id es)" using con(1) assms(2) by simp
  then have "distinct (map (\<lambda>e. (ce_order e, ce_entry_id e)) es)"
    unfolding distinct_map inj_on_def by blast
  then show "sorted_wrt content_before (sort_by content_before es)" by (rule contents.sorted_sort_by)
  show "list_all (\<lambda>e. ce_kind e \<noteq> Entry_instruction) (sort_by content_before es)"
    unfolding list_all_iff set_sort_by using con(2) by (metis empty_iff empty_set)
qed

text \<open>
  C7: instructions keep their authority.  Every instruction of the application runtime is in the
  constructed context, and there is one; an instruction with a message is in the context unless an
  instruction of the same layer that came later replaced or disabled it; and the entries begin with
  the instructions, in the order of their layers, before any content.
\<close>

theorem context_keeps_authority:
  assumes "build_context input = Inr ctx"
  shows "(\<exists>i \<in> set (cbi_instructions input). ii_layer i = Layer_application_runtime) \<and>
    (\<forall>i \<in> set (cbi_instructions input). ii_layer i = Layer_application_runtime \<longrightarrow> instruction_entry i \<in> set (cc_entries ctx)) \<and>
    (\<forall>i \<in> set (cbi_instructions input). ii_operation i \<noteq> Op_disable \<and> instruction_entry i \<notin> set (cc_entries ctx) \<longrightarrow>
       (\<exists>j \<in> set (cbi_instructions input). targets j (ii_entry_id i) \<and> ii_layer j = ii_layer i \<and> ii_order i < ii_order j)) \<and>
    (\<exists>ins cons. cc_entries ctx = ins @ cons \<and> sorted_wrt instruction_before ins \<and>
       sorted_wrt content_before cons \<and>
       list_all (\<lambda>e. ce_kind e = Entry_instruction) ins \<and> list_all (\<lambda>e. ce_kind e \<noteq> Entry_instruction) cons)"
proof -
  define "is" where "is = cbi_instructions input"
  obtain active contents decisions where
    ids: "distinct (map ii_entry_id is)" "list_all instruction_ok is" "distinct (map cci_entry_id (cbi_content input))"
    and runtime: "\<exists>i \<in> set is. ii_layer i = Layer_application_runtime"
    and active: "applied is (sort_by operation_before is) active"
    and admit: "replay admit_content ([], ai_decisions active) (cbi_content input) = Inr (contents, decisions)"
    and entries: "cc_entries ctx =
      sort_by instruction_before (map snd (active_instructions active)) @ sort_by content_before contents"
    using build_contextE [OF assms, folded is_def] by metis
  note act = active_entries [OF active set_sort_by] and con = admitted_contents [OF admit]
  have layer: "ii_layer i = ii_layer j \<and> ii_order i < ii_order j"
    if i: "i \<in> set is" and j: "j \<in> set is" and target: "targets j (ii_entry_id i)" for i j
  proof -
    obtain d where d: "d \<in> set is" "targets j (ii_entry_id d)" "ii_layer d = ii_layer j" "ii_order d < ii_order j"
      using applied_targets [OF active _ target] j by auto
    then have "ii_entry_id d = ii_entry_id i" using target by (simp add: targets_def)
    then have "d = i" using d(1) i ids(1) by (metis distinct_map inj_onD)
    with d show ?thesis by simp
  qed
  have present: "instruction_entry i \<in> set (cc_entries ctx)" if "i \<in> set is" "stays is i" for i
    using act(1) that by (auto simp: entries)
  have "stays is i" if "i \<in> set is" "ii_layer i = Layer_application_runtime" for i
    using that ids(2) layer [OF that(1)] by (auto simp: stays_def instruction_ok_def list_all_iff targets_def)
  then have runtimes: "\<forall>i \<in> set is. ii_layer i = Layer_application_runtime \<longrightarrow> instruction_entry i \<in> set (cc_entries ctx)"
    using present by blast
  have missing: "\<forall>i \<in> set is. ii_operation i \<noteq> Op_disable \<and> instruction_entry i \<notin> set (cc_entries ctx) \<longrightarrow>
       (\<exists>j \<in> set is. targets j (ii_entry_id i) \<and> ii_layer j = ii_layer i \<and> ii_order i < ii_order j)"
    using present layer unfolding stays_def by metis
  have ordered: "\<exists>ins cons. cc_entries ctx = ins @ cons \<and> sorted_wrt instruction_before ins \<and>
      sorted_wrt content_before cons \<and>
      list_all (\<lambda>e. ce_kind e = Entry_instruction) ins \<and> list_all (\<lambda>e. ce_kind e \<noteq> Entry_instruction) cons"
    using instructions_ordered [OF active set_sort_by] contents_ordered [OF admit ids(3)] entries by blast
  show ?thesis using runtime runtimes missing ordered unfolding is_def by (intro conjI) assumption+
qed

text \<open>
  Every entry of the input gets exactly one decision.  The decision records are in the order of
  their identities, their identities are those of the instructions and the content, and a record says
  admitted exactly when the entry is in the context.
\<close>

theorem context_decides_every_entry:
  assumes "build_context input = Inr ctx"
  shows "sorted_wrt (<) (map cdr_entry_id (cc_decisions ctx)) \<and>
    set (map cdr_entry_id (cc_decisions ctx)) =
      ii_entry_id ` set (cbi_instructions input) \<union> cci_entry_id ` set (cbi_content input) \<and>
    (\<forall>d \<in> set (cc_decisions ctx).
       cdr_decision d = Context_admitted \<longleftrightarrow> cdr_entry_id d \<in> ce_entry_id ` set (cc_entries ctx))"
proof -
  let ?is = "cbi_instructions input" and ?cs = "cbi_content input"
  obtain active contents decisions where
    ids: "cci_entry_id ` set ?cs \<inter> ii_entry_id ` set ?is = {}"
    and active: "applied ?is (sort_by operation_before ?is) active"
    and admit: "replay admit_content ([], ai_decisions active) ?cs = Inr (contents, decisions)"
    and entries: "cc_entries ctx =
      sort_by instruction_before (map snd (active_instructions active)) @ sort_by content_before contents"
    and decided: "cc_decisions ctx = map snd decisions"
    using build_contextE [OF assms] by metis
  note act = active_entries [OF active set_sort_by] and con = admitted_contents [OF admit]
  have sorted: "sorted_wrt (<) (map fst decisions)"
    using active con(5) by (simp add: applied_def)
  have keys: "fst ` set decisions = ii_entry_id ` set ?is \<union> cci_entry_id ` set ?cs"
    using active con(4) by (simp add: applied_def)
  have "ce_entry_id ` set (map snd (active_instructions active)) = fst ` set (active_instructions active)"
    using arg_cong [OF act(3), of set] by (simp only: set_map)
  moreover have "ce_entry_id ` set contents = cci_entry_id ` set ?cs"
    using arg_cong [OF con(1), of set] by (simp only: set_map list.map append_Nil)
  ultimately have present: "ce_entry_id ` set (cc_entries ctx) =
      fst ` set (active_instructions active) \<union> cci_entry_id ` set ?cs"
    by (simp only: entries set_append set_sort_by image_Un)
  have rec: "cdr_entry_id r = k \<and>
      (cdr_decision r = Context_admitted \<longleftrightarrow> k \<in> ce_entry_id ` set (cc_entries ctx))"
    if "(k, r) \<in> set decisions" for k r
  proof -
    have r: "map_of decisions k = Some r"
      using that sorted by (simp add: distinct_keys)
    show ?thesis
    proof (cases "k \<in> cci_entry_id ` set ?cs")
      case True
      with r con(6) [of k] present show ?thesis by auto
    next
      case False
      with r con(6) [of k] have "map_of (ai_decisions active) k = Some r" by simp
      then have "cdr_entry_id r = k \<and>
          (cdr_decision r = Context_admitted \<longleftrightarrow> map_of (active_instructions active) k \<noteq> None)"
        using active unfolding applied_def by blast
      then show ?thesis using False present by (simp add: map_of_eq_None_iff)
    qed
  qed
  have ids_eq: "map cdr_entry_id (map snd decisions) = map fst decisions"
    using rec by auto
  show ?thesis
    unfolding decided ids_eq using sorted keys rec by (auto simp: image_iff)
qed

section \<open>A replaced task instruction\<close>

definition sample_message :: "string \<Rightarrow> Role \<Rightarrow> Message" where
  "sample_message mid role = \<lparr>message_id = Id mid, message_role = role,
     message_content = [CB_text \<lparr>tb_text = ''text''\<rparr>], message_invocation_id = None, tool_calls = []\<rparr>"

definition sample_context_provenance :: ContextProvenance where
  "sample_context_provenance = \<lparr>cpv_source_id = Id ''source'', cpv_source_location = None, cpv_digest = None\<rparr>"

definition sample_instruction ::
  "string \<Rightarrow> InstructionLayer \<Rightarrow> InstructionOperation \<Rightarrow> ContextEntryId option \<Rightarrow> u64 \<Rightarrow> InstructionInput" where
  "sample_instruction entry layer operation target order =
     \<lparr>ii_entry_id = Id entry, ii_layer = layer, ii_operation = operation, ii_target_entry_id = target,
      ii_message = Some (sample_message entry Role_system), ii_provenance = sample_context_provenance,
      ii_specificity = 0, ii_order = order, ii_estimated_tokens = 10\<rparr>"

definition sample_context_input :: ContextBuildInput where
  "sample_context_input =
     \<lparr>cbi_capacity = \<lparr>context_window_tokens = 100, reserved_output_tokens = 20, reserved_input_tokens = 5\<rparr>,
      cbi_instructions =
        [sample_instruction ''c'' Layer_task Op_replace (Some (Id ''b'')) 3,
         sample_instruction ''b'' Layer_task Op_add None 2,
         sample_instruction ''a'' Layer_application_runtime Op_add None 1],
      cbi_content =
        [\<lparr>cci_entry_id = Id ''u'', cci_kind = Content_conversation, cci_message = sample_message ''u'' Role_user,
          cci_provenance = sample_context_provenance, cci_order = 1, cci_estimated_tokens = 7\<rparr>]\<rparr>"

lemma sample_context_built:
  "\<exists>ctx. build_context sample_context_input = Inr ctx \<and>
     map ce_entry_id (cc_entries ctx) = [Id ''a'', Id ''c'', Id ''u''] \<and>
     map cdr_decision (cc_decisions ctx) = [Context_admitted, Context_superseded, Context_admitted, Context_admitted]"
proof -
  have "case build_context sample_context_input of
      Inl _ \<Rightarrow> False
    | Inr ctx \<Rightarrow> map ce_entry_id (cc_entries ctx) = [Id ''a'', Id ''c'', Id ''u''] \<and>
        map cdr_decision (cc_decisions ctx) = [Context_admitted, Context_superseded, Context_admitted, Context_admitted]"
    by code_simp
  then show ?thesis by (cases "build_context sample_context_input") simp_all
qed

theorem context_within_capacity_witness:
  "\<exists>ctx. build_context sample_context_input = Inr ctx \<and>
    unat (cc_estimated_input_tokens ctx) = 5 + (\<Sum>e \<leftarrow> cc_entries ctx. unat (ce_estimated_tokens e))"
  using sample_context_built context_within_capacity [of sample_context_input]
  by (auto simp: sample_context_input_def)

theorem context_keeps_authority_witness:
  "\<exists>ctx. build_context sample_context_input = Inr ctx \<and>
    instruction_entry (sample_instruction ''a'' Layer_application_runtime Op_add None 1) \<in> set (cc_entries ctx)"
  using sample_context_built context_keeps_authority [of sample_context_input]
  by (auto simp: sample_context_input_def sample_instruction_def)

theorem context_decides_every_entry_witness:
  "\<exists>ctx. build_context sample_context_input = Inr ctx \<and> sorted_wrt (<) (map cdr_entry_id (cc_decisions ctx))"
  using sample_context_built context_decides_every_entry [of sample_context_input] by blast

end
