(* ===== verification/ContextParcel.thy ===== *)
theory ContextParcel
  imports ContextBuilder Plan ChildRun OpsTarget
begin

text \<open>
  Repository evidence and its validation: \<^verbatim>\<open>include/aiforge/domain/repository_evidence.hpp\<close>,
  the identities of \<^verbatim>\<open>include/aiforge/domain/repository.hpp\<close>, and
  \<^verbatim>\<open>src/lib/context_parcel.cpp\<close> with its header.  \<^verbatim>\<open>std::filesystem::path\<close> is written out for
  POSIX: the components between runs of slashes, an empty last one after a final slash, and
  \<^verbatim>\<open>generic_string\<close> as the components joined again.
\<close>

section \<open>Data\<close>

datatype TaskPhase =
  Phase_orientation | Phase_diagnosis | Phase_editing | Phase_verification | Phase_review | Phase_unknown

datatype EvidenceFreshness = Fresh_current | Fresh_possibly_stale | Fresh_stale | Fresh_unavailable

datatype EvidenceDerivation = Derivation_observed | Derivation_derived | Derivation_inferred | Derivation_unknown

text \<open>The variant of references; each constructor carries the members of its struct in order.\<close>

datatype RepositoryEvidenceReference =
    ExactSourceEvidence RepositorySourceIdentity
  | DiagnosticEvidence ArtifactId "RepositorySourceIdentity option"
  | DiffEvidence RepositorySnapshotIdentity RepositorySnapshotIdentity ArtifactId
  | ToolResultEvidence InvocationId "ArtifactId option"
  | DerivedRecordEvidence string string "ArtifactId option"
  | VerificationEvidenceReference VerificationEvidenceId "ArtifactId list"
  | UnknownRepositoryEvidence string "ArtifactId option"

record EvidenceProvenance =
  evp_derivation :: EvidenceDerivation
  evp_producer :: string
  evp_producer_version :: string
  evp_created_at :: int
  evp_source_snapshot :: "RepositorySnapshotIdentity option"
  evp_source_event_ids :: "EventId list"
  evp_derivation_inputs :: "EvidenceId list"
  evp_producing_invocation_id :: "InvocationId option"

record ContextParcelItem =
  cpi_evidence_id :: EvidenceId
  cpi_reference :: RepositoryEvidenceReference
  cpi_freshness :: EvidenceFreshness
  cpi_provenance :: EvidenceProvenance
  cpi_content :: "ContentBlock list"
  cpi_estimated_bytes :: u64
  cpi_estimated_tokens :: u64

record ContextParcel =
  cpl_parcel_id :: ContextParcelId
  cpl_purpose :: string
  cpl_phase :: TaskPhase
  cpl_target_snapshot :: RepositorySnapshotIdentity
  cpl_items :: "ContextParcelItem list"

record ContextParcelLimits =
  pl_maximum_items :: nat
  pl_maximum_purpose_bytes :: nat
  pl_maximum_path_bytes :: nat
  pl_maximum_metadata_bytes :: nat
  pl_maximum_provenance_references :: nat
  pl_maximum_content_blocks_per_item :: nat
  pl_maximum_item_bytes :: u64
  pl_maximum_total_bytes :: u64
  pl_maximum_total_tokens :: u64

datatype ContextParcelErrorCode =
    Parcel_invalid_limits | Parcel_invalid_parcel | Parcel_invalid_item | Parcel_invalid_source
  | Parcel_invalid_range | Parcel_invalid_reference | Parcel_invalid_provenance
  | Parcel_conflicting_provenance | Parcel_invalid_freshness | Parcel_duplicate_item
  | Parcel_resource_exhausted | Parcel_overflow | Parcel_internal_failure

record ContextParcelError =
  pe_code :: ContextParcelErrorCode
  pe_evidence_id :: "EvidenceId option"

record ContextParcelEstimate =
  item_count :: nat
  inline_bytes :: u64
  represented_bytes :: u64
  parcel_estimated_tokens :: u64

definition parcel_error :: "ContextParcelErrorCode \<Rightarrow> EvidenceId option \<Rightarrow> ContextParcelError" where
  "parcel_error code evidence = \<lparr>pe_code = code, pe_evidence_id = evidence\<rparr>"

section \<open>Text, digests and paths\<close>

definition parcel_valid_utf8_text :: "string \<Rightarrow> bool \<Rightarrow> bool" where
  "parcel_valid_utf8_text v allow_empty = (if \<not> allow_empty \<and> v = [] then False else valid_utf8_from v 0)"

definition parcel_bounded_text :: "string \<Rightarrow> nat \<Rightarrow> bool \<Rightarrow> bool" where
  "parcel_bounded_text v maximum allow_empty \<longleftrightarrow> length v \<le> maximum \<and> parcel_valid_utf8_text v allow_empty"

definition parcel_valid_digest :: "ContentDigest \<Rightarrow> u64 \<Rightarrow> bool" where
  "parcel_valid_digest d limit =
     (if \<not> parcel_bounded_text (dg_algorithm d) 128 False \<or> \<not> parcel_bounded_text (dg_value d) 512 False \<or>
         dg_byte_size d > limit
      then False
      else list_all (\<lambda>c. ascii_alpha c \<or> ascii_digit c \<or> c = CHR ''-'' \<or> c = CHR ''_'' \<or> c = CHR ''.'')
             (dg_algorithm d) \<and>
           list_all is_xdigit (dg_value d))"

definition valid_snapshot :: "RepositorySnapshotIdentity \<Rightarrow> u64 \<Rightarrow> bool" where
  "valid_snapshot s limit = parcel_valid_digest (rsi_fingerprint s) limit"

lemma length_dropWhile_less [termination_simp]: "length xs < n \<Longrightarrow> length (dropWhile P xs) < n"
  using length_dropWhile_le [of P xs] by linarith

fun path_parts :: "string \<Rightarrow> string list" where
  "path_parts v =
     (case after_sep CHR ''/'' v of
        None \<Rightarrow> [v]
      | Some rest \<Rightarrow> upto_sep CHR ''/'' v # path_parts (dropWhile (\<lambda>c. c = CHR ''/'') rest))"

declare path_parts.simps [simp del]

fun join_parts :: "string list \<Rightarrow> string" where
  "join_parts [] = []"
| "join_parts [v] = v"
| "join_parts (v # vs) = v @ CHR ''/'' # join_parts vs"

definition valid_relative_path :: "string \<Rightarrow> nat \<Rightarrow> bool" where
  "valid_relative_path v maximum =
     (if \<not> parcel_bounded_text v maximum False then False
      else if hd v = CHR ''/'' then False
      else if list_ex (\<lambda>part. part = ''.'' \<or> part = ''..'' \<or> part = []) (path_parts v) then False
      else join_parts (path_parts v) = v)"

section \<open>One item\<close>

definition validate_source ::
  "RepositorySourceIdentity \<Rightarrow> RepositorySnapshotIdentity \<Rightarrow> ContextParcelLimits \<Rightarrow> EvidenceId \<Rightarrow>
   ContextParcelError + unit" where
  "validate_source source target limits evidence =
     fail_if (\<not> valid_snapshot (rso_snapshot source) (pl_maximum_total_bytes limits) \<or>
         rsi_repository_id (rso_snapshot source) \<noteq> rsi_repository_id target \<or>
         \<not> valid_relative_path (rso_relative_path source) (pl_maximum_path_bytes limits) \<or>
         \<not> parcel_valid_digest (rso_content_digest source) (pl_maximum_item_bytes limits))
       (parcel_error Parcel_invalid_source (Some evidence))
     (fail_if (case rso_range source of
           None \<Rightarrow> False
         | Some r \<Rightarrow> range_begin r \<ge> range_end r \<or> range_end r > dg_byte_size (rso_content_digest source))
        (parcel_error Parcel_invalid_range (Some evidence))
      (Inr ()))"

record ReferenceFacts =
  rf_source_snapshot :: "RepositorySnapshotIdentity option"
  rf_artifact_ids :: "ArtifactId list"

definition is_text_block :: "ContentBlock \<Rightarrow> bool" where
  "is_text_block b \<longleftrightarrow> (case b of CB_text _ \<Rightarrow> True | _ \<Rightarrow> False)"

definition reference_facts :: "RepositorySnapshotIdentity option \<Rightarrow> ArtifactId list \<Rightarrow> ReferenceFacts" where
  "reference_facts snapshot artifacts = \<lparr>rf_source_snapshot = snapshot, rf_artifact_ids = artifacts\<rparr>"

definition validate_reference ::
  "ContextParcelItem \<Rightarrow> RepositorySnapshotIdentity \<Rightarrow> ContextParcelLimits \<Rightarrow> ContextParcelError + ReferenceFacts" where
  "validate_reference item target limits =
     (let evidence = cpi_evidence_id item; provenance = cpi_provenance item;
          metadata = pl_maximum_metadata_bytes limits;
          bad = parcel_error Parcel_invalid_reference (Some evidence) in
      case cpi_reference item of
        ExactSourceEvidence source \<Rightarrow>
          bind_result (validate_source source target limits evidence) (\<lambda>_.
          fail_if (evp_derivation provenance \<noteq> Derivation_observed) bad
          (fail_if (cpi_freshness item \<noteq> Fresh_unavailable \<and> \<not> list_all is_text_block (cpi_content item)) bad
          (Inr (reference_facts (Some (rso_snapshot source)) []))))
      | DiagnosticEvidence artifact source \<Rightarrow>
          bind_result (case source of None \<Rightarrow> Inr () | Some s \<Rightarrow> validate_source s target limits evidence) (\<lambda>_.
          fail_if (evp_derivation provenance \<noteq> Derivation_observed) bad
          (Inr (reference_facts
                  (case source of None \<Rightarrow> evp_source_snapshot provenance | Some s \<Rightarrow> Some (rso_snapshot s))
                  [artifact])))
      | DiffEvidence base_snapshot target_snapshot artifact \<Rightarrow>
          fail_if (\<not> valid_snapshot base_snapshot (pl_maximum_total_bytes limits) \<or>
              \<not> valid_snapshot target_snapshot (pl_maximum_total_bytes limits) \<or>
              rsi_repository_id base_snapshot \<noteq> rsi_repository_id target \<or>
              rsi_repository_id target_snapshot \<noteq> rsi_repository_id target \<or>
              same_source_state base_snapshot target_snapshot \<or>
              evp_derivation provenance \<noteq> Derivation_observed) bad
          (Inr (reference_facts (Some target_snapshot) [artifact]))
      | ToolResultEvidence invocation artifact \<Rightarrow>
          fail_if (evp_producing_invocation_id provenance \<noteq> Some invocation \<or>
              evp_derivation provenance \<noteq> Derivation_observed) bad
          (Inr (reference_facts (evp_source_snapshot provenance)
                  (case artifact of None \<Rightarrow> [] | Some a \<Rightarrow> [a])))
      | DerivedRecordEvidence record_type record_id artifact \<Rightarrow>
          fail_if (\<not> parcel_bounded_text record_type metadata False \<or> \<not> parcel_bounded_text record_id metadata False \<or>
              (evp_derivation provenance \<noteq> Derivation_derived \<and> evp_derivation provenance \<noteq> Derivation_inferred)) bad
          (Inr (reference_facts (evp_source_snapshot provenance)
                  (case artifact of None \<Rightarrow> [] | Some a \<Rightarrow> [a])))
      | VerificationEvidenceReference _ artifacts \<Rightarrow>
          fail_if (evp_producing_invocation_id provenance = None \<or>
              evp_derivation provenance \<noteq> Derivation_observed \<or> card (set artifacts) \<noteq> length artifacts) bad
          (Inr (reference_facts (evp_source_snapshot provenance) artifacts))
      | UnknownRepositoryEvidence type_name artifact \<Rightarrow>
          fail_if (\<not> parcel_bounded_text type_name metadata False) bad
          (Inr (reference_facts (evp_source_snapshot provenance)
                  (case artifact of None \<Rightarrow> [] | Some a \<Rightarrow> [a]))))"

definition option_size :: "string option \<Rightarrow> nat" where
  "option_size v = (case v of None \<Rightarrow> 0 | Some s \<Rightarrow> length s)"

fun block_bytes :: "ContentBlock \<Rightarrow> u64" where
  "block_bytes (CB_text b) = word_of_nat (length (tb_text b))"
| "block_bytes (CB_structured b) = word_of_nat (length (media_type b) + length (sd_data b))"
| "block_bytes (CB_citation b) = word_of_nat (length (uri b) + option_size (citation_title b))"
| "block_bytes (CB_artifact b) = word_of_nat (length (id_value (arb_artifact_id b)) + option_size (arb_label b))"
| "block_bytes (CB_unknown b) = word_of_nat (length (ucb_type_name b))"

definition optional_text :: "string option \<Rightarrow> nat \<Rightarrow> bool" where
  "optional_text v maximum \<longleftrightarrow> (case v of None \<Rightarrow> True | Some s \<Rightarrow> parcel_bounded_text s maximum False)"

fun valid_block :: "ContextParcelLimits \<Rightarrow> ContentBlock \<Rightarrow> bool" where
  "valid_block limits (CB_text b) = parcel_bounded_text (tb_text b) (unat (pl_maximum_item_bytes limits)) False"
| "valid_block limits (CB_structured b) \<longleftrightarrow>
     parcel_bounded_text (media_type b) (pl_maximum_metadata_bytes limits) False \<and>
     parcel_bounded_text (sd_data b) (unat (pl_maximum_item_bytes limits)) True"
| "valid_block limits (CB_citation b) \<longleftrightarrow>
     parcel_bounded_text (uri b) (pl_maximum_metadata_bytes limits) False \<and>
     optional_text (citation_title b) (pl_maximum_metadata_bytes limits)"
| "valid_block limits (CB_artifact b) = optional_text (arb_label b) (pl_maximum_metadata_bytes limits)"
| "valid_block limits (CB_unknown b) = parcel_bounded_text (ucb_type_name b) (pl_maximum_metadata_bytes limits) False"

fun block_artifacts :: "ContentBlock \<Rightarrow> ArtifactId list" where
  "block_artifacts (CB_artifact b) = [arb_artifact_id b]"
| "block_artifacts _ = []"

definition add_block ::
  "ContextParcelLimits \<Rightarrow> EvidenceId \<Rightarrow> u64 \<times> ArtifactId list \<Rightarrow> ContentBlock \<Rightarrow>
   ContextParcelError + u64 \<times> ArtifactId list" where
  "add_block limits evidence s block =
     fail_if (\<not> valid_block limits block) (parcel_error Parcel_invalid_item (Some evidence))
     (case add_checked (fst s) (block_bytes block) of
        None \<Rightarrow> Inl (parcel_error Parcel_overflow (Some evidence))
      | Some bytes_so_far \<Rightarrow> Inr (bytes_so_far, snd s @ block_artifacts block))"

definition content_bytes ::
  "ContextParcelItem \<Rightarrow> ContextParcelLimits \<Rightarrow> ArtifactId list \<Rightarrow> ContextParcelError + u64" where
  "content_bytes item limits expected_artifacts =
     bind_result (replay (add_block limits (cpi_evidence_id item)) (0, []) (cpi_content item)) (\<lambda>(n, actual_artifacts).
       fail_if (actual_artifacts \<noteq> expected_artifacts)
         (parcel_error Parcel_invalid_reference (Some (cpi_evidence_id item)))
       (Inr n))"

definition validate_provenance ::
  "ContextParcelItem \<Rightarrow> ContextParcelLimits \<Rightarrow> ContextParcelError + unit" where
  "validate_provenance item limits =
     (let provenance = cpi_provenance item;
          bad = parcel_error Parcel_invalid_provenance (Some (cpi_evidence_id item)) in
      fail_if (\<not> parcel_bounded_text (evp_producer provenance) (pl_maximum_metadata_bytes limits) False \<or>
          \<not> parcel_bounded_text (evp_producer_version provenance) (pl_maximum_metadata_bytes limits) False \<or>
          length (evp_source_event_ids provenance) > pl_maximum_provenance_references limits \<or>
          length (evp_derivation_inputs provenance) > pl_maximum_provenance_references limits) bad
      (fail_if (card (set (evp_source_event_ids provenance)) \<noteq> length (evp_source_event_ids provenance) \<or>
          card (set (evp_derivation_inputs provenance)) \<noteq> length (evp_derivation_inputs provenance) \<or>
          cpi_evidence_id item \<in> set (evp_derivation_inputs provenance)) bad
       (let is_derived = evp_derivation provenance = Derivation_derived \<or>
              evp_derivation provenance = Derivation_inferred in
        fail_if (is_derived \<noteq> (evp_derivation_inputs provenance \<noteq> []) \<or>
            (evp_derivation provenance = Derivation_observed \<and> evp_derivation_inputs provenance \<noteq> [])) bad
        (Inr ()))))"

section \<open>The parcel\<close>

definition item_unknown :: "ContextParcelItem \<Rightarrow> bool" where
  "item_unknown item \<longleftrightarrow> (case cpi_reference item of UnknownRepositoryEvidence _ _ \<Rightarrow> True | _ \<Rightarrow> False)"

definition matches_target :: "RepositorySnapshotIdentity \<Rightarrow> ContextParcelItem \<Rightarrow> bool" where
  "matches_target target item \<longleftrightarrow>
     (case evp_source_snapshot (cpi_provenance item) of None \<Rightarrow> False | Some s \<Rightarrow> same_source_state s target)"

definition expected_bytes :: "RepositorySourceIdentity \<Rightarrow> u64" where
  "expected_bytes source =
     (case rso_range source of
        Some r \<Rightarrow> range_end r - range_begin r
      | None \<Rightarrow> dg_byte_size (rso_content_digest source))"

text \<open>The checks between the provenance of an item, its reference and the target of the parcel.\<close>

definition check_item_source ::
  "RepositorySnapshotIdentity \<Rightarrow> ContextParcelLimits \<Rightarrow> ContextParcelItem \<Rightarrow> ReferenceFacts \<Rightarrow>
   ContextParcelError + unit" where
  "check_item_source target limits item facts =
     (let err = (\<lambda>code. parcel_error code (Some (cpi_evidence_id item)));
          source = evp_source_snapshot (cpi_provenance item) in
      fail_if (\<not> item_unknown item \<and> source = None) (err Parcel_invalid_provenance)
      (fail_if (case rf_source_snapshot facts of
            None \<Rightarrow> False
          | Some f \<Rightarrow> (case source of None \<Rightarrow> True | Some s \<Rightarrow> \<not> same_source_state f s))
         (err Parcel_conflicting_provenance)
      (fail_if (case source of
            None \<Rightarrow> False
          | Some s \<Rightarrow> \<not> valid_snapshot s (pl_maximum_total_bytes limits) \<or>
              rsi_repository_id s \<noteq> rsi_repository_id target) (err Parcel_invalid_source)
      (fail_if ((cpi_freshness item = Fresh_current \<and> \<not> matches_target target item) \<or>
          (cpi_freshness item = Fresh_stale \<and> source = None)) (err Parcel_invalid_freshness)
      (Inr ())))))"

definition add_item_estimate ::
  "ContextParcelLimits \<Rightarrow> ContextParcelItem \<Rightarrow> u64 \<Rightarrow> ContextParcelEstimate \<Rightarrow>
   ContextParcelError + ContextParcelEstimate" where
  "add_item_estimate limits item inline_size estimate =
     (let err = (\<lambda>code. parcel_error code (Some (cpi_evidence_id item))) in
      case add_checked (inline_bytes estimate) inline_size of
        None \<Rightarrow> Inl (err Parcel_overflow)
      | Some inline \<Rightarrow>
      (case add_checked (represented_bytes estimate) (cpi_estimated_bytes item) of
        None \<Rightarrow> Inl (err Parcel_overflow)
      | Some represented \<Rightarrow>
      (case add_checked (parcel_estimated_tokens estimate) (cpi_estimated_tokens item) of
        None \<Rightarrow> Inl (err Parcel_overflow)
      | Some tokens \<Rightarrow>
          fail_if (represented > pl_maximum_total_bytes limits \<or> tokens > pl_maximum_total_tokens limits)
            (err Parcel_resource_exhausted)
          (Inr (estimate\<lparr>inline_bytes := inline, represented_bytes := represented,
                  parcel_estimated_tokens := tokens\<rparr>)))))"

definition check_item_content ::
  "ContextParcelLimits \<Rightarrow> ContextParcelItem \<Rightarrow> ReferenceFacts \<Rightarrow> ContextParcelEstimate \<Rightarrow>
   ContextParcelError + ContextParcelEstimate" where
  "check_item_content limits item facts estimate =
     (let err = (\<lambda>code. parcel_error code (Some (cpi_evidence_id item))) in
      if cpi_freshness item = Fresh_unavailable then
        fail_if (cpi_content item \<noteq> [] \<or> cpi_estimated_bytes item \<noteq> 0 \<or> cpi_estimated_tokens item \<noteq> 0)
          (err Parcel_invalid_freshness) (Inr estimate)
      else
        fail_if (length (cpi_content item) > pl_maximum_content_blocks_per_item limits)
          (err Parcel_resource_exhausted)
        (fail_if (cpi_content item = [] \<or> cpi_estimated_bytes item = 0 \<or> cpi_estimated_tokens item = 0)
          (err Parcel_invalid_item)
        (bind_result (content_bytes item limits (rf_artifact_ids facts)) (\<lambda>inline_size.
         fail_if (case cpi_reference item of
               ExactSourceEvidence source \<Rightarrow> inline_size \<noteq> expected_bytes source
             | _ \<Rightarrow> False) (err Parcel_invalid_reference)
         (fail_if (inline_size > cpi_estimated_bytes item) (err Parcel_invalid_item)
         (fail_if (cpi_estimated_bytes item > pl_maximum_item_bytes limits) (err Parcel_resource_exhausted)
         (add_item_estimate limits item inline_size estimate)))))))"

definition check_item ::
  "ContextParcel \<Rightarrow> ContextParcelLimits \<Rightarrow> EvidenceId set \<times> ContextParcelEstimate \<Rightarrow> ContextParcelItem \<Rightarrow>
   ContextParcelError + EvidenceId set \<times> ContextParcelEstimate" where
  "check_item parcel limits s item =
     fail_if (cpi_evidence_id item \<in> fst s) (parcel_error Parcel_duplicate_item (Some (cpi_evidence_id item)))
     (bind_result (validate_provenance item limits) (\<lambda>_.
      bind_result (validate_reference item (cpl_target_snapshot parcel) limits) (\<lambda>facts.
      bind_result (check_item_source (cpl_target_snapshot parcel) limits item facts) (\<lambda>_.
      bind_result (check_item_content limits item facts (snd s)) (\<lambda>estimate.
      Inr (insert (cpi_evidence_id item) (fst s), estimate))))))"

definition validate_context_parcel :: "ContextParcel \<Rightarrow> ContextParcelLimits \<Rightarrow> ContextParcelError + ContextParcelEstimate" where
  "validate_context_parcel parcel limits =
     fail_if (pl_maximum_items limits = 0 \<or> pl_maximum_purpose_bytes limits = 0 \<or> pl_maximum_path_bytes limits = 0 \<or>
         pl_maximum_metadata_bytes limits = 0 \<or> pl_maximum_provenance_references limits = 0 \<or>
         pl_maximum_content_blocks_per_item limits = 0 \<or> pl_maximum_item_bytes limits = 0 \<or>
         pl_maximum_total_bytes limits = 0 \<or> pl_maximum_total_tokens limits = 0 \<or>
         pl_maximum_item_bytes limits > pl_maximum_total_bytes limits) (parcel_error Parcel_invalid_limits None)
     (let bad_purpose = \<not> parcel_bounded_text (cpl_purpose parcel) (pl_maximum_purpose_bytes limits) False in
      fail_if (bad_purpose \<or> cpl_phase parcel = Phase_unknown \<or>
          \<not> valid_snapshot (cpl_target_snapshot parcel) (pl_maximum_total_bytes limits))
        (parcel_error (if cpl_phase parcel = Phase_unknown \<or> bad_purpose then Parcel_invalid_parcel
                       else Parcel_invalid_source) None)
      (fail_if (length (cpl_items parcel) > pl_maximum_items limits) (parcel_error Parcel_resource_exhausted None)
      (fail_if (cpl_items parcel = []) (parcel_error Parcel_invalid_parcel None)
      (bind_result (replay (check_item parcel limits)
          ({}, \<lparr>item_count = length (cpl_items parcel), inline_bytes = 0, represented_bytes = 0,
                parcel_estimated_tokens = 0\<rparr>) (cpl_items parcel)) (\<lambda>s. Inr (snd s))))))"

section \<open>What a validated parcel ensures\<close>

definition block_text :: "ContentBlock \<Rightarrow> string" where
  "block_text b = (case b of CB_text t \<Rightarrow> tb_text t | _ \<Rightarrow> [])"

lemma add_block_Inr:
  assumes "add_block limits evidence s b = Inr s'"
  shows "valid_block limits b" and "unat (fst s') = unat (fst s) + unat (block_bytes b)"
  using assms by (auto simp: add_block_def add_checked_iff split: option.splits)

lemma add_blocks_Inr:
  assumes "replay (add_block limits evidence) s bs = Inr s'"
  shows "list_all (valid_block limits) bs \<and> unat (fst s') = unat (fst s) + (\<Sum>b \<leftarrow> bs. unat (block_bytes b))"
  using assms
proof (induction bs arbitrary: s)
  case (Cons b bs)
  then obtain t where t: "add_block limits evidence s b = Inr t" "replay (add_block limits evidence) t bs = Inr s'"
    by auto
  show ?case using add_block_Inr [OF t(1)] Cons.IH [OF t(2)] by simp
qed simp

lemma text_bytes_exact:
  assumes "is_text_block b" and "valid_block limits b"
  shows "unat (block_bytes b) = length (block_text b)"
proof -
  obtain t where b: "b = CB_text t" using assms(1) by (auto simp: is_text_block_def split: ContentBlock.splits)
  have "length (tb_text t) \<le> unat (pl_maximum_item_bytes limits)"
    using assms(2) by (simp add: b parcel_bounded_text_def)
  then have "length (tb_text t) < 2 ^ 64" using unat_u64_less [of "pl_maximum_item_bytes limits"] by linarith
  then show ?thesis by (simp add: b block_text_def unat_of_nat)
qed

lemma content_bytes_text:
  assumes "content_bytes item limits artifacts = Inr n" and "list_all is_text_block (cpi_content item)"
  shows "unat n = (\<Sum>b \<leftarrow> cpi_content item. length (block_text b))"
proof -
  obtain actual where "replay (add_block limits (cpi_evidence_id item)) (0, []) (cpi_content item) = Inr (n, actual)"
    using assms(1) by (auto simp: content_bytes_def)
  from add_blocks_Inr [OF this]
  have "list_all (valid_block limits) (cpi_content item)" "unat n = (\<Sum>b \<leftarrow> cpi_content item. unat (block_bytes b))"
    by simp_all
  moreover from this(1) assms(2)
  have "map (\<lambda>b. unat (block_bytes b)) (cpi_content item) = map (\<lambda>b. length (block_text b)) (cpi_content item)"
    using text_bytes_exact by (auto simp: list_all_iff)
  ultimately show ?thesis by simp
qed

lemma add_item_estimate_Inr:
  "add_item_estimate limits item n estimate = Inr estimate' \<longleftrightarrow>
     item_count estimate' = item_count estimate \<and> unat (inline_bytes estimate') = unat (inline_bytes estimate) + unat n \<and>
     unat (represented_bytes estimate') = unat (represented_bytes estimate) + unat (cpi_estimated_bytes item) \<and>
     unat (parcel_estimated_tokens estimate') =
       unat (parcel_estimated_tokens estimate) + unat (cpi_estimated_tokens item) \<and>
     represented_bytes estimate' \<le> pl_maximum_total_bytes limits \<and>
     parcel_estimated_tokens estimate' \<le> pl_maximum_total_tokens limits"
  by (cases estimate; cases estimate')
    (auto simp: add_item_estimate_def Let_def not_less simp flip: add_checked_iff split: option.splits)

definition estimate_within :: "ContextParcelLimits \<Rightarrow> ContextParcelEstimate \<Rightarrow> bool" where
  "estimate_within limits e \<longleftrightarrow>
     inline_bytes e \<le> represented_bytes e \<and> represented_bytes e \<le> pl_maximum_total_bytes limits \<and>
     parcel_estimated_tokens e \<le> pl_maximum_total_tokens limits"

lemma check_item_content_Inr:
  assumes "check_item_content limits item facts estimate = Inr estimate'"
  shows "item_count estimate' = item_count estimate"
    and "unat (represented_bytes estimate') = unat (represented_bytes estimate) + unat (cpi_estimated_bytes item)"
    and "unat (parcel_estimated_tokens estimate') =
       unat (parcel_estimated_tokens estimate) + unat (cpi_estimated_tokens item)"
    and "estimate_within limits estimate \<Longrightarrow> estimate_within limits estimate'"
    and "cpi_freshness item \<noteq> Fresh_unavailable \<Longrightarrow> cpi_reference item = ExactSourceEvidence source \<Longrightarrow>
      content_bytes item limits (rf_artifact_ids facts) = Inr (expected_bytes source)"
  using assms
  by (auto simp: check_item_content_def Let_def add_item_estimate_Inr estimate_within_def word_le_nat_alt not_less
      split: if_splits)

text \<open>What the loop over the items has established when it has passed an item.\<close>

definition item_ok :: "ContextParcel \<Rightarrow> ContextParcelLimits \<Rightarrow> ContextParcelItem \<Rightarrow> bool" where
  "item_ok parcel limits item \<longleftrightarrow>
     (cpi_freshness item = Fresh_current \<longrightarrow> matches_target (cpl_target_snapshot parcel) item) \<and>
     (cpi_freshness item = Fresh_unavailable \<longrightarrow> cpi_content item = []) \<and>
     (\<forall>source. cpi_reference item = ExactSourceEvidence source \<longrightarrow>
        evp_derivation (cpi_provenance item) = Derivation_observed \<and>
        (\<exists>s. evp_source_snapshot (cpi_provenance item) = Some s \<and> same_source_state (rso_snapshot source) s) \<and>
        (cpi_freshness item \<noteq> Fresh_unavailable \<longrightarrow> list_all is_text_block (cpi_content item) \<and>
           (\<Sum>b \<leftarrow> cpi_content item. length (block_text b)) = unat (expected_bytes source)))"

lemma validate_reference_exact:
  assumes "validate_reference item target limits = Inr facts" and "cpi_reference item = ExactSourceEvidence source"
  shows "evp_derivation (cpi_provenance item) = Derivation_observed"
    and "cpi_freshness item \<noteq> Fresh_unavailable \<Longrightarrow> list_all is_text_block (cpi_content item)"
    and "rf_source_snapshot facts = Some (rso_snapshot source)"
  using assms by (auto simp: validate_reference_def reference_facts_def Let_def)

lemma check_item_source_Inr:
  assumes "check_item_source target limits item facts = Inr ()"
  shows "cpi_freshness item = Fresh_current \<Longrightarrow> matches_target target item"
    and "rf_source_snapshot facts = Some f \<Longrightarrow>
      \<exists>s. evp_source_snapshot (cpi_provenance item) = Some s \<and> same_source_state f s"
  using assms by (auto simp: check_item_source_def Let_def split: option.splits)

lemma check_item_Inr:
  assumes "check_item parcel limits s item = Inr s'"
  shows "cpi_evidence_id item \<notin> fst s" and "fst s' = insert (cpi_evidence_id item) (fst s)"
    and "item_ok parcel limits item" and "item_count (snd s') = item_count (snd s)"
    and "unat (represented_bytes (snd s')) = unat (represented_bytes (snd s)) + unat (cpi_estimated_bytes item)"
    and "unat (parcel_estimated_tokens (snd s')) =
      unat (parcel_estimated_tokens (snd s)) + unat (cpi_estimated_tokens item)"
    and "estimate_within limits (snd s) \<Longrightarrow> estimate_within limits (snd s')"
proof -
  obtain facts estimate where
    ref: "validate_reference item (cpl_target_snapshot parcel) limits = Inr facts"
    and source: "check_item_source (cpl_target_snapshot parcel) limits item facts = Inr ()"
    and content: "check_item_content limits item facts (snd s) = Inr estimate"
    and fresh: "cpi_evidence_id item \<notin> fst s" and s': "s' = (insert (cpi_evidence_id item) (fst s), estimate)"
    using assms by (auto simp: check_item_def)
  note cont = check_item_content_Inr [OF content]
  show "cpi_evidence_id item \<notin> fst s" by (fact fresh)
  show "fst s' = insert (cpi_evidence_id item) (fst s)" "item_count (snd s') = item_count (snd s)"
    "unat (represented_bytes (snd s')) = unat (represented_bytes (snd s)) + unat (cpi_estimated_bytes item)"
    "unat (parcel_estimated_tokens (snd s')) =
      unat (parcel_estimated_tokens (snd s)) + unat (cpi_estimated_tokens item)"
    "estimate_within limits (snd s) \<Longrightarrow> estimate_within limits (snd s')"
    using cont(1-4) by (simp_all add: s')
  have "(\<Sum>b \<leftarrow> cpi_content item. length (block_text b)) = unat (expected_bytes src)"
    if "cpi_reference item = ExactSourceEvidence src" "cpi_freshness item \<noteq> Fresh_unavailable" for src
    using content_bytes_text [OF cont(5) [OF that(2,1)]] validate_reference_exact(2) [OF ref that] by simp
  moreover have "cpi_content item = []" if "cpi_freshness item = Fresh_unavailable"
    using content that by (simp add: check_item_content_def)
  ultimately show "item_ok parcel limits item"
    unfolding item_ok_def
    using validate_reference_exact [OF ref] check_item_source_Inr [OF source] by blast
qed

lemma check_items_Inr:
  assumes "replay (check_item parcel limits) s items = Inr s'"
  shows "distinct (map cpi_evidence_id items) \<and> cpi_evidence_id ` set items \<inter> fst s = {} \<and>
    list_all (item_ok parcel limits) items \<and> item_count (snd s') = item_count (snd s) \<and>
    unat (represented_bytes (snd s')) =
      unat (represented_bytes (snd s)) + (\<Sum>i \<leftarrow> items. unat (cpi_estimated_bytes i)) \<and>
    unat (parcel_estimated_tokens (snd s')) =
      unat (parcel_estimated_tokens (snd s)) + (\<Sum>i \<leftarrow> items. unat (cpi_estimated_tokens i)) \<and>
    (estimate_within limits (snd s) \<longrightarrow> estimate_within limits (snd s'))"
  using assms
proof (induction items arbitrary: s)
  case (Cons item items)
  then obtain t where t: "check_item parcel limits s item = Inr t" "replay (check_item parcel limits) t items = Inr s'"
    by auto
  note head = check_item_Inr [OF t(1)] and tail = Cons.IH [OF t(2)]
  have "cpi_evidence_id item \<notin> cpi_evidence_id ` set items" using head(2) tail by auto
  then show ?case using head tail by auto
qed simp

lemma validated_parcel:
  assumes "validate_context_parcel parcel limits = Inr estimate"
  shows "distinct (map cpi_evidence_id (cpl_items parcel))" and "list_all (item_ok parcel limits) (cpl_items parcel)"
    and "item_count estimate = length (cpl_items parcel)" and "estimate_within limits estimate"
    and "unat (represented_bytes estimate) = (\<Sum>i \<leftarrow> cpl_items parcel. unat (cpi_estimated_bytes i))"
    and "unat (parcel_estimated_tokens estimate) = (\<Sum>i \<leftarrow> cpl_items parcel. unat (cpi_estimated_tokens i))"
    and "0 < length (cpl_items parcel)" and "length (cpl_items parcel) \<le> pl_maximum_items limits"
proof -
  obtain s where loop: "replay (check_item parcel limits) ({}, \<lparr>item_count = length (cpl_items parcel), inline_bytes = 0,
      represented_bytes = 0, parcel_estimated_tokens = 0\<rparr>) (cpl_items parcel) = Inr s"
    and estimate: "estimate = snd s"
    using assms by (auto simp: validate_context_parcel_def Let_def)
  have "estimate_within limits \<lparr>item_count = length (cpl_items parcel), inline_bytes = 0,
      represented_bytes = 0, parcel_estimated_tokens = 0\<rparr>"
    by (simp add: estimate_within_def)
  with check_items_Inr [OF loop]
  show "distinct (map cpi_evidence_id (cpl_items parcel))" "list_all (item_ok parcel limits) (cpl_items parcel)"
    "item_count estimate = length (cpl_items parcel)" "estimate_within limits estimate"
    "unat (represented_bytes estimate) = (\<Sum>i \<leftarrow> cpl_items parcel. unat (cpi_estimated_bytes i))"
    "unat (parcel_estimated_tokens estimate) = (\<Sum>i \<leftarrow> cpl_items parcel. unat (cpi_estimated_tokens i))"
    by (simp_all add: estimate)
  show "0 < length (cpl_items parcel)" "length (cpl_items parcel) \<le> pl_maximum_items limits"
    using assms by (simp_all add: validate_context_parcel_def Let_def not_less)
qed

section \<open>Properties\<close>

text \<open>
  C10: evidence that a validated parcel calls current comes from the source state the parcel is about;
  when it is exact source, its reference names that state too, it is text only, and its text is as
  long as the byte range it claims to be.
\<close>

theorem current_evidence_is_current:
  assumes "validate_context_parcel parcel limits = Inr estimate" and "item \<in> set (cpl_items parcel)"
    and "cpi_freshness item = Fresh_current"
  shows "matches_target (cpl_target_snapshot parcel) item \<and>
    (\<forall>source. cpi_reference item = ExactSourceEvidence source \<longrightarrow>
       same_source_state (rso_snapshot source) (cpl_target_snapshot parcel) \<and>
       list_all is_text_block (cpi_content item) \<and>
       (\<Sum>b \<leftarrow> cpi_content item. length (block_text b)) = unat (expected_bytes source))"
proof -
  have "item_ok parcel limits item"
    using validated_parcel(2) [OF assms(1)] assms(2) by (simp add: list_all_iff)
  then show ?thesis
    using assms(3) by (auto simp: item_ok_def matches_target_def same_source_state_def)
qed

text \<open>
  The estimate of a validated parcel is exact and within its limits: it counts every item, its
  bytes and tokens are the sums over the items with no wrap-around, and no evidence occurs twice.
\<close>

theorem parcel_estimate_exact:
  assumes "validate_context_parcel parcel limits = Inr estimate"
  shows "item_count estimate = length (cpl_items parcel) \<and> item_count estimate \<le> pl_maximum_items limits \<and>
    unat (represented_bytes estimate) = (\<Sum>i \<leftarrow> cpl_items parcel. unat (cpi_estimated_bytes i)) \<and>
    unat (parcel_estimated_tokens estimate) = (\<Sum>i \<leftarrow> cpl_items parcel. unat (cpi_estimated_tokens i)) \<and>
    estimate_within limits estimate \<and> distinct (map cpi_evidence_id (cpl_items parcel))"
  using validated_parcel [OF assms] by simp

section \<open>A parcel with one exact source\<close>

definition sample_snapshot :: RepositorySnapshotIdentity where
  "sample_snapshot = \<lparr>rsi_repository_id = Id ''repo'',
     rsi_fingerprint = \<lparr>dg_algorithm = ''sha256'', dg_value = ''ab'', dg_byte_size = 9\<rparr>\<rparr>"

definition sample_source :: RepositorySourceIdentity where
  "sample_source = \<lparr>rso_snapshot = sample_snapshot, rso_relative_path = ''src/a'',
     rso_content_digest = \<lparr>dg_algorithm = ''sha256'', dg_value = ''cd'', dg_byte_size = 9\<rparr>,
     rso_range = Some \<lparr>range_begin = 2, range_end = 6\<rparr>\<rparr>"

definition sample_item :: ContextParcelItem where
  "sample_item = \<lparr>cpi_evidence_id = Id ''e'', cpi_reference = ExactSourceEvidence sample_source,
     cpi_freshness = Fresh_current,
     cpi_provenance = \<lparr>evp_derivation = Derivation_observed, evp_producer = ''p'', evp_producer_version = ''1'',
       evp_created_at = 0, evp_source_snapshot = Some sample_snapshot, evp_source_event_ids = [],
       evp_derivation_inputs = [], evp_producing_invocation_id = None\<rparr>,
     cpi_content = [CB_text \<lparr>tb_text = ''text''\<rparr>], cpi_estimated_bytes = 4, cpi_estimated_tokens = 3\<rparr>"

definition sample_parcel :: ContextParcel where
  "sample_parcel = \<lparr>cpl_parcel_id = Id ''parcel'', cpl_purpose = ''read'', cpl_phase = Phase_editing,
     cpl_target_snapshot = sample_snapshot, cpl_items = [sample_item]\<rparr>"

definition sample_parcel_limits :: ContextParcelLimits where
  "sample_parcel_limits = \<lparr>pl_maximum_items = 4, pl_maximum_purpose_bytes = 64, pl_maximum_path_bytes = 64,
     pl_maximum_metadata_bytes = 64, pl_maximum_provenance_references = 4, pl_maximum_content_blocks_per_item = 4,
     pl_maximum_item_bytes = 64, pl_maximum_total_bytes = 256, pl_maximum_total_tokens = 100\<rparr>"

lemma parcel_bounded_ascii:
  "list_all (\<lambda>c. 32 \<le> byte c \<and> byte c < 127) v \<Longrightarrow>
     parcel_bounded_text v maximum allow_empty \<longleftrightarrow> length v \<le> maximum \<and> (allow_empty \<or> v \<noteq> [])"
  by (auto simp: parcel_bounded_text_def parcel_valid_utf8_text_def valid_utf8_from_ascii list_all_iff)

lemma sample_path: "valid_relative_path ''src/a'' 64"
  by (simp add: valid_relative_path_def parcel_bounded_ascii byte_def path_parts.simps after_sep_def upto_sep_def)

lemma sample_snapshot_valid: "valid_snapshot sample_snapshot 256"
  by (simp add: valid_snapshot_def parcel_valid_digest_def parcel_bounded_ascii byte_def sample_snapshot_def
      ascii_alpha_def ascii_digit_def is_xdigit_def)

lemma sample_digest_valid: "parcel_valid_digest (rso_content_digest sample_source) 64"
  by (simp add: parcel_valid_digest_def parcel_bounded_ascii byte_def sample_source_def
      ascii_alpha_def ascii_digit_def is_xdigit_def)

lemma sample_source_valid:
  "validate_source sample_source sample_snapshot sample_parcel_limits (Id ''e'') = Inr ()"
  using sample_path sample_snapshot_valid sample_digest_valid
  by (simp add: validate_source_def sample_source_def sample_parcel_limits_def)

lemma sample_item_bytes: "content_bytes sample_item sample_parcel_limits [] = Inr 4"
  by (simp add: content_bytes_def sample_item_def sample_parcel_limits_def add_block_def parcel_bounded_ascii byte_def
      add_checked_def)

lemma sample_parcel_validated:
  "validate_context_parcel sample_parcel sample_parcel_limits =
     Inr \<lparr>item_count = 1, inline_bytes = 4, represented_bytes = 4, parcel_estimated_tokens = 3\<rparr>"
proof -
  have "validate_provenance sample_item sample_parcel_limits = Inr ()"
    by (simp add: validate_provenance_def sample_item_def sample_parcel_limits_def parcel_bounded_ascii byte_def)
  moreover have "validate_reference sample_item sample_snapshot sample_parcel_limits =
      Inr (reference_facts (Some sample_snapshot) [])"
    using sample_source_valid
    by (simp add: validate_reference_def sample_item_def is_text_block_def sample_source_def)
  moreover have "check_item_source sample_snapshot sample_parcel_limits sample_item
      (reference_facts (Some sample_snapshot) []) = Inr ()"
    using sample_snapshot_valid
    by (simp add: check_item_source_def reference_facts_def item_unknown_def sample_item_def matches_target_def
        same_source_state_def sample_parcel_limits_def)
  moreover have "check_item_content sample_parcel_limits sample_item (reference_facts (Some sample_snapshot) [])
      \<lparr>item_count = 1, inline_bytes = 0, represented_bytes = 0, parcel_estimated_tokens = 0\<rparr> =
      Inr \<lparr>item_count = 1, inline_bytes = 4, represented_bytes = 4, parcel_estimated_tokens = 3\<rparr>"
    using sample_item_bytes
    by (simp add: check_item_content_def reference_facts_def)
      (simp add: sample_item_def sample_parcel_limits_def add_item_estimate_def add_checked_def expected_bytes_def
        sample_source_def)
  ultimately show ?thesis
    using sample_snapshot_valid
    by (simp add: validate_context_parcel_def sample_parcel_def check_item_def)
      (simp add: sample_parcel_limits_def parcel_bounded_ascii byte_def)
qed

theorem current_evidence_is_current_witness:
  "matches_target sample_snapshot sample_item \<and>
    (\<Sum>b \<leftarrow> cpi_content sample_item. length (block_text b)) = unat (expected_bytes sample_source)"
  using current_evidence_is_current [OF sample_parcel_validated, of sample_item]
  by (simp add: sample_parcel_def sample_item_def)

theorem parcel_estimate_exact_witness:
  "estimate_within sample_parcel_limits
     \<lparr>item_count = 1, inline_bytes = 4, represented_bytes = 4, parcel_estimated_tokens = 3\<rparr>"
  using parcel_estimate_exact [OF sample_parcel_validated] by blast

end
