(* ===== verification/ContextSelection.thy ===== *)
theory ContextSelection
  imports ContextParcel
begin

text \<open>
  The selection of the working set of an inference: \<^verbatim>\<open>src/lib/context_selection.cpp\<close> and
  \<^verbatim>\<open>include/aiforge/runtime/context_selection.hpp\<close>.  Candidates from the caller and from parcels of
  repository evidence are checked, ranked for the phase of the task, and admitted while they fit the
  budget of their class and the window of the model.  Where the source sorts indices into the vector
  of candidates, the model sorts the candidates.
\<close>

section \<open>Data\<close>

datatype ContextBudgetClass =
    Class_conversation | Class_summary | Class_tool_result | Class_repository_evidence | Class_memory
  | Class_attachment | Class_unknown

datatype ContextRepresentation =
    Rep_direct | Rep_exact | Rep_derived | Rep_excerpt | Rep_summary | Rep_artifact_reference | Rep_unknown

record ContextSelectionCandidate =
  csc_content :: ContextContentInput
  csc_budget_class :: ContextBudgetClass
  csc_representation :: ContextRepresentation
  csc_freshness :: EvidenceFreshness
  csc_required :: bool
  csc_relevance_rank :: u64
  csc_alternative_group :: "string option"

record RepositoryEvidenceSelection =
  rsel_evidence_id :: EvidenceId
  rsel_entry_id :: ContextEntryId
  rsel_message_id :: MessageId
  rsel_source_id :: ContextSourceId
  rsel_budget_class :: ContextBudgetClass
  rsel_representation :: ContextRepresentation
  rsel_required :: bool
  rsel_relevance_rank :: u64
  rsel_order :: u64
  rsel_alternative_group :: "string option"

record ContextParcelSelection =
  cps_parcel :: ContextParcel
  cps_items :: "RepositoryEvidenceSelection list"

record ContextClassBudgets =
  bud_conversation_tokens :: "u64 option"
  bud_summary_tokens :: "u64 option"
  bud_tool_result_tokens :: "u64 option"
  bud_repository_evidence_tokens :: "u64 option"
  bud_memory_tokens :: "u64 option"
  bud_attachment_tokens :: "u64 option"

record ContextSelectionLimits =
  sl_maximum_candidates :: nat
  sl_maximum_parcels :: nat
  sl_maximum_alternative_group_bytes :: nat

record ContextSelectionRequest =
  csr_phase :: TaskPhase
  csr_capacity :: ContextCapacity
  csr_instructions :: "InstructionInput list"
  csr_candidates :: "ContextSelectionCandidate list"
  csr_parcels :: "ContextParcelSelection list"
  csr_budgets :: ContextClassBudgets
  csr_parcel_limits :: ContextParcelLimits
  csr_selection_limits :: ContextSelectionLimits

datatype ContextSelectionDecision =
    Selection_admitted | Omitted_budget | Omitted_class_budget | Omitted_stale | Omitted_unavailable
  | Omitted_unsupported | Omitted_alternative

record ContextSelectionDecisionRecord =
  sdr_entry_id :: ContextEntryId
  sdr_evidence_id :: "EvidenceId option"
  sdr_decision :: ContextSelectionDecision
  sdr_estimated_tokens :: u64

record ContextClassUsage =
  us_conversation_tokens :: u64
  us_summary_tokens :: u64
  us_tool_result_tokens :: u64
  us_repository_evidence_tokens :: u64
  us_memory_tokens :: u64
  us_attachment_tokens :: u64

record ContextSelectionResult =
  csl_context :: ConstructedContext
  csl_decisions :: "ContextSelectionDecisionRecord list"
  csl_usage :: ContextClassUsage

datatype ContextSelectionErrorCode =
    Selection_invalid_phase | Selection_invalid_candidate | Selection_invalid_parcel
  | Selection_duplicate_candidate | Selection_conflicting_candidate
  | Selection_required_candidate_unavailable | Selection_resource_exhausted | Selection_token_overflow
  | Selection_mandatory_capacity_exceeded | Selection_context_build_failed | Selection_internal_failure

record ContextSelectionError =
  cse_code :: ContextSelectionErrorCode
  cse_entry_id :: "ContextEntryId option"
  cse_evidence_id :: "EvidenceId option"

definition selection_error ::
  "ContextSelectionErrorCode \<Rightarrow> ContextEntryId option \<Rightarrow> EvidenceId option \<Rightarrow> ContextSelectionError" where
  "selection_error code entry evidence = \<lparr>cse_code = code, cse_entry_id = entry, cse_evidence_id = evidence\<rparr>"

record CandidateState =
  cs_content :: ContextContentInput
  cs_budget_class :: ContextBudgetClass
  cs_representation :: ContextRepresentation
  cs_freshness :: EvidenceFreshness
  cs_required :: bool
  cs_relevance_rank :: u64
  cs_alternative_group :: "string option"
  cs_evidence_id :: "EvidenceId option"
  cs_reference :: "RepositoryEvidenceReference option"

section \<open>Helpers\<close>

definition valid_group :: "string option \<Rightarrow> nat \<Rightarrow> bool" where
  "valid_group alternatives maximum =
     (case alternatives of
        None \<Rightarrow> True
      | Some g \<Rightarrow>
          if g = [] \<or> length g > maximum then False
          else \<not> list_ex (\<lambda>c. byte c < 0x20 \<or> byte c = 0x7f) g)"

definition valid_phase :: "TaskPhase \<Rightarrow> bool" where
  "valid_phase phase \<longleftrightarrow> phase \<noteq> Phase_unknown"

fun budget_limit :: "ContextClassBudgets \<Rightarrow> ContextBudgetClass \<Rightarrow> u64 option" where
  "budget_limit b Class_conversation = bud_conversation_tokens b"
| "budget_limit b Class_summary = bud_summary_tokens b"
| "budget_limit b Class_tool_result = bud_tool_result_tokens b"
| "budget_limit b Class_repository_evidence = bud_repository_evidence_tokens b"
| "budget_limit b Class_memory = bud_memory_tokens b"
| "budget_limit b Class_attachment = bud_attachment_tokens b"
| "budget_limit b Class_unknown = None"

text \<open>\<^verbatim>\<open>usage_value\<close> returns a reference; reading and assigning through it are two functions.\<close>

fun usage_value :: "ContextClassUsage \<Rightarrow> ContextBudgetClass \<Rightarrow> u64" where
  "usage_value u Class_conversation = us_conversation_tokens u"
| "usage_value u Class_summary = us_summary_tokens u"
| "usage_value u Class_tool_result = us_tool_result_tokens u"
| "usage_value u Class_repository_evidence = us_repository_evidence_tokens u"
| "usage_value u Class_memory = us_memory_tokens u"
| "usage_value u Class_attachment = us_attachment_tokens u"
| "usage_value u Class_unknown = us_repository_evidence_tokens u"

fun set_usage_value :: "ContextClassUsage \<Rightarrow> ContextBudgetClass \<Rightarrow> u64 \<Rightarrow> ContextClassUsage" where
  "set_usage_value u Class_conversation v = u\<lparr>us_conversation_tokens := v\<rparr>"
| "set_usage_value u Class_summary v = u\<lparr>us_summary_tokens := v\<rparr>"
| "set_usage_value u Class_tool_result v = u\<lparr>us_tool_result_tokens := v\<rparr>"
| "set_usage_value u Class_repository_evidence v = u\<lparr>us_repository_evidence_tokens := v\<rparr>"
| "set_usage_value u Class_memory v = u\<lparr>us_memory_tokens := v\<rparr>"
| "set_usage_value u Class_attachment v = u\<lparr>us_attachment_tokens := v\<rparr>"
| "set_usage_value u Class_unknown v = u\<lparr>us_repository_evidence_tokens := v\<rparr>"

definition contains_artifact :: "ContentBlock list \<Rightarrow> bool" where
  "contains_artifact content \<longleftrightarrow> list_ex (\<lambda>b. case b of CB_artifact _ \<Rightarrow> True | _ \<Rightarrow> False) content"

fun reference_location :: "RepositoryEvidenceReference \<Rightarrow> string" where
  "reference_location (ExactSourceEvidence source) = rso_relative_path source"
| "reference_location (DiagnosticEvidence artifact source) =
     (case source of Some s \<Rightarrow> rso_relative_path s | None \<Rightarrow> ''artifact:'' @ id_value artifact)"
| "reference_location (DiffEvidence _ _ artifact) = ''artifact:'' @ id_value artifact"
| "reference_location (ToolResultEvidence invocation _) = ''invocation:'' @ id_value invocation"
| "reference_location (DerivedRecordEvidence record_type record_id _) = record_type @ '':'' @ record_id"
| "reference_location (VerificationEvidenceReference evidence _) = ''verification:'' @ id_value evidence"
| "reference_location (UnknownRepositoryEvidence type_name _) = ''unknown:'' @ type_name"

definition reference_digest :: "ContextParcelItem \<Rightarrow> RepositorySnapshotIdentity \<Rightarrow> string" where
  "reference_digest item target_snapshot =
     (case cpi_reference item of
        ExactSourceEvidence source \<Rightarrow>
          dg_algorithm (rso_content_digest source) @ '':'' @ dg_value (rso_content_digest source)
      | _ \<Rightarrow>
          let snapshot = (case evp_source_snapshot (cpi_provenance item) of Some s \<Rightarrow> s | None \<Rightarrow> target_snapshot) in
          dg_algorithm (rsi_fingerprint snapshot) @ '':'' @ dg_value (rsi_fingerprint snapshot))"

section \<open>Ranks\<close>

fun reference_index :: "RepositoryEvidenceReference \<Rightarrow> nat" where
  "reference_index (ExactSourceEvidence _) = 0"
| "reference_index (DiagnosticEvidence _ _) = 1"
| "reference_index (DiffEvidence _ _ _) = 2"
| "reference_index (ToolResultEvidence _ _) = 3"
| "reference_index (DerivedRecordEvidence _ _ _) = 4"
| "reference_index (VerificationEvidenceReference _ _) = 5"
| "reference_index (UnknownRepositoryEvidence _ _) = 6"

fun class_index :: "ContextBudgetClass \<Rightarrow> nat" where
  "class_index Class_conversation = 0"
| "class_index Class_summary = 1"
| "class_index Class_tool_result = 2"
| "class_index Class_repository_evidence = 3"
| "class_index Class_memory = 4"
| "class_index Class_attachment = 5"
| "class_index Class_unknown = 6"

fun representation_index :: "ContextRepresentation \<Rightarrow> nat" where
  "representation_index Rep_direct = 0"
| "representation_index Rep_exact = 1"
| "representation_index Rep_derived = 2"
| "representation_index Rep_excerpt = 3"
| "representation_index Rep_summary = 4"
| "representation_index Rep_artifact_reference = 5"
| "representation_index Rep_unknown = 6"

fun evidence_kind_ranks :: "TaskPhase \<Rightarrow> nat list" where
  "evidence_kind_ranks Phase_orientation = [1, 4, 3, 4, 0, 5, 6]"
| "evidence_kind_ranks Phase_diagnosis = [2, 0, 3, 1, 4, 2, 5]"
| "evidence_kind_ranks Phase_editing = [0, 2, 1, 3, 4, 5, 6]"
| "evidence_kind_ranks Phase_verification = [4, 2, 1, 3, 5, 0, 6]"
| "evidence_kind_ranks Phase_review = [3, 2, 1, 4, 5, 0, 6]"
| "evidence_kind_ranks Phase_unknown = [5, 5, 5, 5, 5, 5, 5]"

definition evidence_kind_rank :: "RepositoryEvidenceReference option \<Rightarrow> TaskPhase \<Rightarrow> nat" where
  "evidence_kind_rank reference phase =
     (case reference of None \<Rightarrow> 3 | Some r \<Rightarrow> evidence_kind_ranks phase ! reference_index r)"

fun class_ranks :: "TaskPhase \<Rightarrow> nat list" where
  "class_ranks Phase_orientation = [4, 0, 5, 1, 2, 3, 6]"
| "class_ranks Phase_diagnosis = [2, 4, 0, 1, 3, 5, 6]"
| "class_ranks Phase_editing = [1, 5, 2, 0, 4, 3, 6]"
| "class_ranks Phase_verification = [3, 5, 0, 1, 4, 2, 6]"
| "class_ranks Phase_review = [2, 4, 1, 0, 3, 2, 5]"
| "class_ranks Phase_unknown = [5, 5, 5, 5, 5, 5, 5]"

definition class_rank :: "ContextBudgetClass \<Rightarrow> TaskPhase \<Rightarrow> nat" where
  "class_rank budget_class phase = class_ranks phase ! class_index budget_class"

fun representation_ranks :: "TaskPhase \<Rightarrow> nat list" where
  "representation_ranks Phase_orientation = [2, 5, 1, 2, 0, 3, 6]"
| "representation_ranks Phase_diagnosis = [2, 1, 3, 0, 4, 5, 6]"
| "representation_ranks Phase_editing = [2, 0, 4, 1, 5, 6, 7]"
| "representation_ranks Phase_verification = [2, 1, 4, 0, 3, 5, 6]"
| "representation_ranks Phase_review = [2, 1, 4, 0, 3, 5, 6]"
| "representation_ranks Phase_unknown = [7, 7, 7, 7, 7, 7, 7]"

definition representation_rank :: "ContextRepresentation \<Rightarrow> TaskPhase \<Rightarrow> nat" where
  "representation_rank rep phase = representation_ranks phase ! representation_index rep"

definition eligible_freshness :: "EvidenceFreshness \<Rightarrow> TaskPhase \<Rightarrow> bool" where
  "eligible_freshness freshness phase =
     (if freshness = Fresh_current then True
      else if freshness \<noteq> Fresh_possibly_stale then False
      else phase = Phase_orientation \<or> phase = Phase_diagnosis \<or> phase = Phase_review)"

definition same_exact_location :: "CandidateState \<Rightarrow> CandidateState \<Rightarrow> bool" where
  "same_exact_location left right \<longleftrightarrow>
     (case (cs_reference left, cs_reference right) of
        (Some (ExactSourceEvidence l), Some (ExactSourceEvidence r)) \<Rightarrow>
          rso_snapshot l = rso_snapshot r \<and> rso_relative_path l = rso_relative_path r \<and> rso_range l = rso_range r
      | _ \<Rightarrow> False)"

definition valid_reference_representation :: "CandidateState \<Rightarrow> bool" where
  "valid_reference_representation c \<longleftrightarrow>
     (case cs_reference c of
        None \<Rightarrow> True
      | Some (ExactSourceEvidence _) \<Rightarrow> cs_representation c = Rep_exact \<or> cs_representation c = Rep_excerpt
      | Some (DerivedRecordEvidence _ _ _) \<Rightarrow>
          cs_representation c \<in> {Rep_derived, Rep_summary, Rep_excerpt, Rep_artifact_reference}
      | Some (UnknownRepositoryEvidence _ _) \<Rightarrow> True
      | Some _ \<Rightarrow> cs_representation c \<in> {Rep_direct, Rep_summary, Rep_excerpt, Rep_artifact_reference})"

definition unsupported_candidate :: "CandidateState \<Rightarrow> bool" where
  "unsupported_candidate c \<longleftrightarrow>
     cs_budget_class c = Class_unknown \<or> cs_representation c = Rep_unknown \<or>
     contains_unknown (message_content (cci_message (cs_content c))) \<or>
     (case cs_reference c of Some (UnknownRepositoryEvidence _ _) \<Rightarrow> True | _ \<Rightarrow> False) \<or>
     (cs_representation c = Rep_artifact_reference \<and>
        \<not> contains_artifact (message_content (cci_message (cs_content c))))"

definition decision_for_freshness :: "EvidenceFreshness \<Rightarrow> ContextSelectionDecision" where
  "decision_for_freshness freshness = (if freshness = Fresh_unavailable then Omitted_unavailable else Omitted_stale)"

definition make_record :: "CandidateState \<Rightarrow> ContextSelectionDecision \<Rightarrow> ContextSelectionDecisionRecord" where
  "make_record c decision =
     \<lparr>sdr_entry_id = cci_entry_id (cs_content c), sdr_evidence_id = cs_evidence_id c, sdr_decision = decision,
      sdr_estimated_tokens = cci_estimated_tokens (cs_content c)\<rparr>"

definition context_error_code :: "ContextBuildErrorCode \<Rightarrow> ContextSelectionErrorCode" where
  "context_error_code code =
     (if code = Build_capacity_exceeded \<or> code = Build_token_overflow then Selection_mandatory_capacity_exceeded
      else Selection_context_build_failed)"

text \<open>The comparator of the candidates.\<close>

definition candidate_before :: "TaskPhase \<Rightarrow> CandidateState \<Rightarrow> CandidateState \<Rightarrow> bool" where
  "candidate_before phase left right =
     (if cs_required left \<noteq> cs_required right then cs_required left
      else if class_rank (cs_budget_class left) phase \<noteq> class_rank (cs_budget_class right) phase
      then class_rank (cs_budget_class left) phase < class_rank (cs_budget_class right) phase
      else if evidence_kind_rank (cs_reference left) phase \<noteq> evidence_kind_rank (cs_reference right) phase
      then evidence_kind_rank (cs_reference left) phase < evidence_kind_rank (cs_reference right) phase
      else if cs_relevance_rank left \<noteq> cs_relevance_rank right
      then cs_relevance_rank left < cs_relevance_rank right
      else if representation_rank (cs_representation left) phase \<noteq> representation_rank (cs_representation right) phase
      then representation_rank (cs_representation left) phase < representation_rank (cs_representation right) phase
      else if cci_estimated_tokens (cs_content left) \<noteq> cci_estimated_tokens (cs_content right)
      then cci_estimated_tokens (cs_content left) < cci_estimated_tokens (cs_content right)
      else if cs_budget_class left = Class_conversation \<and> cs_budget_class right = Class_conversation \<and>
              cci_order (cs_content left) \<noteq> cci_order (cs_content right)
      then cci_order (cs_content left) > cci_order (cs_content right)
      else if cci_order (cs_content left) \<noteq> cci_order (cs_content right)
      then cci_order (cs_content left) < cci_order (cs_content right)
      else cci_entry_id (cs_content left) < cci_entry_id (cs_content right))"

section \<open>Gathering the candidates\<close>

definition candidate_of :: "ContextSelectionCandidate \<Rightarrow> CandidateState" where
  "candidate_of c =
     \<lparr>cs_content = csc_content c, cs_budget_class = csc_budget_class c, cs_representation = csc_representation c,
      cs_freshness = csc_freshness c, cs_required = csc_required c, cs_relevance_rank = csc_relevance_rank c,
      cs_alternative_group = csc_alternative_group c, cs_evidence_id = None, cs_reference = None\<rparr>"

definition evidence_candidate ::
  "RepositorySnapshotIdentity \<Rightarrow> RepositoryEvidenceSelection \<Rightarrow> ContextParcelItem \<Rightarrow> CandidateState" where
  "evidence_candidate target binding item =
     \<lparr>cs_content =
        \<lparr>cci_entry_id = rsel_entry_id binding, cci_kind = Content_evidence,
         cci_message =
           \<lparr>message_id = rsel_message_id binding, message_role = Role_evidence, message_content = cpi_content item,
            message_invocation_id = None, tool_calls = []\<rparr>,
         cci_provenance =
           \<lparr>cpv_source_id = rsel_source_id binding,
            cpv_source_location = Some (reference_location (cpi_reference item)),
            cpv_digest = Some (reference_digest item target)\<rparr>,
         cci_order = rsel_order binding, cci_estimated_tokens = cpi_estimated_tokens item\<rparr>,
      cs_budget_class = rsel_budget_class binding, cs_representation = rsel_representation binding,
      cs_freshness = cpi_freshness item, cs_required = rsel_required binding,
      cs_relevance_rank = rsel_relevance_rank binding, cs_alternative_group = rsel_alternative_group binding,
      cs_evidence_id = Some (cpi_evidence_id item), cs_reference = Some (cpi_reference item)\<rparr>"

text \<open>\<^verbatim>\<open>bindings\<close>: the evidence identities bound so far.\<close>

definition check_binding ::
  "EvidenceId set \<Rightarrow> RepositoryEvidenceSelection \<Rightarrow> ContextSelectionError + EvidenceId set" where
  "check_binding bound binding =
     fail_if (rsel_evidence_id binding \<in> bound)
       (selection_error Selection_duplicate_candidate (Some (rsel_entry_id binding)) (Some (rsel_evidence_id binding)))
     (Inr (insert (rsel_evidence_id binding) bound))"

definition gather_item ::
  "ContextSelectionLimits \<Rightarrow> ContextParcelSelection \<Rightarrow> CandidateState list \<Rightarrow> ContextParcelItem \<Rightarrow>
   ContextSelectionError + CandidateState list" where
  "gather_item limits selection candidates item =
     (case find (\<lambda>b. rsel_evidence_id b = cpi_evidence_id item) (cps_items selection) of
        None \<Rightarrow> Inl (selection_error Selection_invalid_parcel None (Some (cpi_evidence_id item)))
      | Some binding \<Rightarrow>
          fail_if (length candidates = sl_maximum_candidates limits)
            (selection_error Selection_resource_exhausted None None)
          (fail_if (rsel_order binding = 0)
            (selection_error Selection_invalid_candidate (Some (rsel_entry_id binding)) (Some (rsel_evidence_id binding)))
          (Inr (candidates @
             [evidence_candidate (cpl_target_snapshot (cps_parcel selection)) binding item]))))"

record GatherState =
  gs_candidates :: "CandidateState list"
  gs_parcel_ids :: "ContextParcelId set"
  gs_target_snapshot :: "RepositorySnapshotIdentity option"

definition gather_parcel ::
  "ContextSelectionRequest \<Rightarrow> GatherState \<Rightarrow> ContextParcelSelection \<Rightarrow> ContextSelectionError + GatherState" where
  "gather_parcel request s selection =
     (let parcel = cps_parcel selection in
      fail_if (cpl_parcel_id parcel \<in> gs_parcel_ids s) (selection_error Selection_duplicate_candidate None None)
      (bind_result
         (map_error (\<lambda>e. selection_error Selection_invalid_parcel None (pe_evidence_id e))
            (validate_context_parcel parcel (csr_parcel_limits request))) (\<lambda>_.
       fail_if (cpl_phase parcel \<noteq> csr_phase request) (selection_error Selection_invalid_parcel None None)
       (fail_if (case gs_target_snapshot s of
             None \<Rightarrow> False
           | Some target \<Rightarrow> \<not> same_source_state target (cpl_target_snapshot parcel))
          (selection_error Selection_conflicting_candidate None None)
       (bind_result (replay check_binding {} (cps_items selection)) (\<lambda>bound.
        fail_if (length (cps_items selection) \<noteq> length (cpl_items parcel))
          (selection_error Selection_invalid_parcel None None)
        (bind_result (replay (gather_item (csr_selection_limits request) selection) (gs_candidates s) (cpl_items parcel))
          (\<lambda>candidates.
          Inr \<lparr>gs_candidates = candidates, gs_parcel_ids = insert (cpl_parcel_id parcel) (gs_parcel_ids s),
               gs_target_snapshot = Some (cpl_target_snapshot parcel)\<rparr>))))))))"

definition gather_candidates :: "ContextSelectionRequest \<Rightarrow> ContextSelectionError + CandidateState list" where
  "gather_candidates request =
     bind_result (replay (gather_parcel request)
         \<lparr>gs_candidates = map candidate_of (csr_candidates request), gs_parcel_ids = {}, gs_target_snapshot = None\<rparr>
         (csr_parcels request)) (\<lambda>s. Inr (gs_candidates s))"

section \<open>Checking the candidates\<close>

record CandidateCheck =
  ck_previous :: "CandidateState list"
  ck_entry_ids :: "ContextEntryId set"
  ck_message_ids :: "MessageId set"
  ck_evidence_ids :: "EvidenceId set"
  ck_required_groups :: "string set"
  has_required_current_exact :: bool

definition required_current_exact :: "CandidateState \<Rightarrow> bool" where
  "required_current_exact c \<longleftrightarrow>
     cs_required c \<and> cs_freshness c = Fresh_current \<and>
     (case cs_reference c of Some (ExactSourceEvidence _) \<Rightarrow> True | _ \<Rightarrow> False) \<and> cs_representation c = Rep_exact"

definition check_candidate ::
  "ContextSelectionLimits \<Rightarrow> CandidateCheck \<Rightarrow> CandidateState \<Rightarrow> ContextSelectionError + CandidateCheck" where
  "check_candidate limits s c =
     (let content = cs_content c;
          err = (\<lambda>code. selection_error code (Some (cci_entry_id content)) (cs_evidence_id c)) in
      fail_if (\<not> valid_reference_representation c) (err Selection_invalid_candidate)
      (fail_if (cci_entry_id content \<in> ck_entry_ids s \<or> message_id (cci_message content) \<in> ck_message_ids s \<or>
          (case cs_evidence_id c of None \<Rightarrow> False | Some e \<Rightarrow> e \<in> ck_evidence_ids s))
        (err Selection_duplicate_candidate)
      (fail_if (cci_order content = 0 \<or>
          (cci_estimated_tokens content = 0 \<and> cs_freshness c \<noteq> Fresh_unavailable) \<or>
          \<not> valid_group (cs_alternative_group c) (sl_maximum_alternative_group_bytes limits))
        (err Selection_invalid_candidate)
      (fail_if (cs_required c \<and>
          (case cs_alternative_group c of None \<Rightarrow> False | Some g \<Rightarrow> g \<in> ck_required_groups s))
        (err Selection_conflicting_candidate)
      (case find (same_exact_location c) (ck_previous s) of
         Some previous \<Rightarrow>
           Inl (err (if cs_reference c = cs_reference previous \<and>
                        message_content (cci_message content) = message_content (cci_message (cs_content previous)) \<and>
                        cs_freshness c = cs_freshness previous
                     then Selection_duplicate_candidate else Selection_conflicting_candidate))
       | None \<Rightarrow>
           Inr \<lparr>ck_previous = ck_previous s @ [c], ck_entry_ids = insert (cci_entry_id content) (ck_entry_ids s),
                ck_message_ids = insert (message_id (cci_message content)) (ck_message_ids s),
                ck_evidence_ids = set_option (cs_evidence_id c) \<union> ck_evidence_ids s,
                ck_required_groups =
                  (if cs_required c then set_option (cs_alternative_group c) else {}) \<union> ck_required_groups s,
                has_required_current_exact = has_required_current_exact s \<or> required_current_exact c\<rparr>)))))"

section \<open>Admission\<close>

definition omission :: "TaskPhase \<Rightarrow> CandidateState \<Rightarrow> ContextSelectionDecision option" where
  "omission phase c =
     (if unsupported_candidate c then Some Omitted_unsupported
      else if \<not> eligible_freshness (cs_freshness c) phase then Some (decision_for_freshness (cs_freshness c))
      else None)"

definition sift_candidate ::
  "TaskPhase \<Rightarrow> ContextSelectionDecisionRecord list \<times> CandidateState list \<Rightarrow> CandidateState \<Rightarrow>
   ContextSelectionError + ContextSelectionDecisionRecord list \<times> CandidateState list" where
  "sift_candidate phase s c =
     (case omission phase c of
        Some omitted \<Rightarrow>
          fail_if (cs_required c)
            (selection_error Selection_required_candidate_unavailable (Some (cci_entry_id (cs_content c)))
               (cs_evidence_id c))
          (Inr (fst s @ [make_record c omitted], snd s))
      | None \<Rightarrow> Inr (fst s, snd s @ [c]))"

record SelectionState =
  se_usage :: ContextClassUsage
  se_total :: u64
  se_admitted_groups :: "string set"
  se_decisions :: "ContextSelectionDecisionRecord list"
  se_selected :: "ContextContentInput list"

definition record_decision :: "CandidateState \<Rightarrow> ContextSelectionDecision \<Rightarrow> SelectionState \<Rightarrow> SelectionState" where
  "record_decision c decision s = s\<lparr>se_decisions := se_decisions s @ [make_record c decision]\<rparr>"

definition admit_candidate ::
  "ContextClassBudgets \<Rightarrow> u64 \<Rightarrow> SelectionState \<Rightarrow> CandidateState \<Rightarrow> ContextSelectionError + SelectionState" where
  "admit_candidate budgets maximum_input s c =
     (let content = cs_content c;
          err = (\<lambda>code. selection_error code (Some (cci_entry_id content)) (cs_evidence_id c)) in
      if (case cs_alternative_group c of None \<Rightarrow> False | Some g \<Rightarrow> g \<in> se_admitted_groups s)
      then Inr (record_decision c Omitted_alternative s)
      else
        (case add_checked (usage_value (se_usage s) (cs_budget_class c)) (cci_estimated_tokens content) of
           None \<Rightarrow> Inl (err Selection_token_overflow)
         | Some proposed_class \<Rightarrow>
        (case add_checked (se_total s) (cci_estimated_tokens content) of
           None \<Rightarrow> Inl (err Selection_token_overflow)
         | Some proposed_total \<Rightarrow>
             (let class_fits = (case budget_limit budgets (cs_budget_class c) of
                    None \<Rightarrow> True | Some limit \<Rightarrow> proposed_class \<le> limit);
                  total_fits = proposed_total \<le> maximum_input in
              if \<not> class_fits \<or> \<not> total_fits then
                fail_if (cs_required c) (err Selection_mandatory_capacity_exceeded)
                (Inr (record_decision c (if class_fits then Omitted_budget else Omitted_class_budget) s))
              else
                Inr (record_decision c Selection_admitted
                  (s\<lparr>se_usage := set_usage_value (se_usage s) (cs_budget_class c) proposed_class,
                     se_total := proposed_total,
                     se_admitted_groups := set_option (cs_alternative_group c) \<union> se_admitted_groups s,
                     se_selected := se_selected s @ [content]\<rparr>))))))"

definition empty_class_usage :: ContextClassUsage where
  "empty_class_usage = \<lparr>us_conversation_tokens = 0, us_summary_tokens = 0, us_tool_result_tokens = 0,
     us_repository_evidence_tokens = 0, us_memory_tokens = 0, us_attachment_tokens = 0\<rparr>"

definition decision_before :: "ContextSelectionDecisionRecord \<Rightarrow> ContextSelectionDecisionRecord \<Rightarrow> bool" where
  "decision_before left right \<longleftrightarrow> sdr_entry_id left < sdr_entry_id right"

text \<open>
  In reviews the comparator of the candidates is no strict weak order, so the library leaves the result of
  the sort open there: the sort is a parameter.
\<close>

type_synonym candidate_sort = "(CandidateState \<Rightarrow> CandidateState \<Rightarrow> bool) \<Rightarrow> CandidateState list \<Rightarrow> CandidateState list"

definition select_candidates ::
  "candidate_sort \<Rightarrow> ContextSelectionRequest \<Rightarrow> u64 \<Rightarrow> CandidateState list \<Rightarrow> ContextSelectionError + SelectionState" where
  "select_candidates sorting request mandatory_tokens candidates =
     bind_result (replay (check_candidate (csr_selection_limits request))
         \<lparr>ck_previous = [], ck_entry_ids = {}, ck_message_ids = {}, ck_evidence_ids = {}, ck_required_groups = {},
          has_required_current_exact = False\<rparr> candidates) (\<lambda>checked.
     fail_if (csr_phase request = Phase_editing \<and> \<not> has_required_current_exact checked)
       (selection_error Selection_required_candidate_unavailable None None)
     (bind_result (replay (sift_candidate (csr_phase request)) ([], []) candidates) (\<lambda>(decisions, selectable).
      replay (admit_candidate (csr_budgets request)
          (context_window_tokens (csr_capacity request) - reserved_output_tokens (csr_capacity request)))
        \<lparr>se_usage = empty_class_usage, se_total = mandatory_tokens, se_admitted_groups = {},
         se_decisions = decisions, se_selected = []\<rparr>
        (sorting (candidate_before (csr_phase request)) selectable))))"

definition select_and_build :: "candidate_sort \<Rightarrow> ContextSelectionRequest \<Rightarrow> ContextSelectionError + ContextSelectionResult" where
  "select_and_build sorting request =
     (let limits = csr_selection_limits request;
          build_failure = (\<lambda>e. selection_error (context_error_code (cbe_code e)) (cbe_entry_id e) None) in
      fail_if (\<not> valid_phase (csr_phase request)) (selection_error Selection_invalid_phase None None)
      (fail_if (sl_maximum_candidates limits = 0 \<or> sl_maximum_parcels limits = 0 \<or>
          sl_maximum_alternative_group_bytes limits = 0) (selection_error Selection_invalid_candidate None None)
      (fail_if (length (csr_candidates request) > sl_maximum_candidates limits \<or>
          length (csr_parcels request) > sl_maximum_parcels limits)
        (selection_error Selection_resource_exhausted None None)
      (bind_result (map_error build_failure (build_context
          \<lparr>cbi_capacity = csr_capacity request, cbi_instructions = csr_instructions request, cbi_content = []\<rparr>))
        (\<lambda>mandatory.
      bind_result (gather_candidates request) (\<lambda>candidates.
      bind_result (select_candidates sorting request (cc_estimated_input_tokens mandatory) candidates) (\<lambda>s.
      bind_result (map_error build_failure (build_context
          \<lparr>cbi_capacity = csr_capacity request, cbi_instructions = csr_instructions request,
           cbi_content = se_selected s\<rparr>)) (\<lambda>built.
      Inr \<lparr>csl_context = built, csl_decisions = sort_by decision_before (se_decisions s),
           csl_usage = se_usage s\<rparr>))))))))"

end
