(* ===== verification/WorkingSet.thy ===== *)
theory WorkingSet
  imports ContextSelection
begin

text \<open>
  What the selection of a working set guarantees: the comparator of the candidates, the candidates
  that are admitted, the budgets they fit and the decisions that are reported.
\<close>

section \<open>The comparator\<close>

text \<open>
  Outside reviews the budget classes have different ranks.  Then only conversation is compared with
  conversation where the order decides, and the comparator compares keys.
\<close>

abbreviation entry_of :: "CandidateState \<Rightarrow> ContextEntryId" where
  "entry_of c \<equiv> cci_entry_id (cs_content c)"

abbreviation tokens_of :: "CandidateState \<Rightarrow> nat" where
  "tokens_of c \<equiv> unat (cci_estimated_tokens (cs_content c))"

lemma class_rank_inject:
  assumes "phase \<noteq> Phase_review" and "phase \<noteq> Phase_unknown"
  shows "class_rank a phase = class_rank b phase \<longleftrightarrow> a = b"
  using assms by (cases phase; cases a; cases b) (simp_all add: class_rank_def)

definition order_key :: "CandidateState \<Rightarrow> int" where
  "order_key c =
     (if cs_budget_class c = Class_conversation then - uint (cci_order (cs_content c))
      else uint (cci_order (cs_content c)))"

definition candidate_key ::
  "TaskPhase \<Rightarrow> CandidateState \<Rightarrow> bool \<times> nat \<times> nat \<times> u64 \<times> nat \<times> u64 \<times> int \<times> ContextEntryId" where
  "candidate_key phase c =
     (\<not> cs_required c, class_rank (cs_budget_class c) phase, evidence_kind_rank (cs_reference c) phase,
      cs_relevance_rank c, representation_rank (cs_representation c) phase, cci_estimated_tokens (cs_content c),
      order_key c, entry_of c)"

lemma order_key_compare:
  assumes "cs_budget_class a = cs_budget_class b"
  shows "order_key a = order_key b \<longleftrightarrow> cci_order (cs_content a) = cci_order (cs_content b)"
    and "order_key a < order_key b \<longleftrightarrow>
      (if cs_budget_class a = Class_conversation then cci_order (cs_content a) > cci_order (cs_content b)
       else cci_order (cs_content a) < cci_order (cs_content b))"
    and "order_key a \<le> order_key b \<longleftrightarrow>
      (if cs_budget_class a = Class_conversation then cci_order (cs_content a) \<ge> cci_order (cs_content b)
       else cci_order (cs_content a) \<le> cci_order (cs_content b))"
  using assms by (simp_all add: order_key_def word_less_def word_le_def word_uint_eq_iff)

lemma candidate_order:
  assumes "phase \<noteq> Phase_review" and "phase \<noteq> Phase_unknown"
  shows "keyed_order (candidate_before phase) (candidate_key phase)"
proof
  fix a b
  show "candidate_before phase a b \<longleftrightarrow> candidate_key phase a < candidate_key phase b"
  proof (cases "cs_budget_class a = cs_budget_class b")
    case True
    then show ?thesis
      by (auto simp: candidate_before_def candidate_key_def less_prod_def order_key_compare [OF True])
  next
    case False
    then have "class_rank (cs_budget_class a) phase \<noteq> class_rank (cs_budget_class b) phase"
      using class_rank_inject [OF assms] by simp
    then show ?thesis by (auto simp: candidate_before_def candidate_key_def less_prod_def)
  qed
qed

text \<open>A sort that is promised an order puts the required candidates first.\<close>

abbreviation not_later :: "CandidateState \<Rightarrow> CandidateState \<Rightarrow> bool" where
  "not_later a b \<equiv> cs_required b \<longrightarrow> cs_required a"

lemma before_by_required: "cs_required a \<noteq> cs_required b \<Longrightarrow> candidate_before phase a b \<longleftrightarrow> cs_required a"
  by (simp add: candidate_before_def)

lemma before_required:
  "candidate_before phase a b \<Longrightarrow> not_later a b"
  "\<not> candidate_before phase a b \<Longrightarrow> not_later b a"
  using before_by_required by blast+

lemma required_first:
  assumes "standard_sort sorting" and "phase \<noteq> Phase_review" and "phase \<noteq> Phase_unknown"
  shows "sorted_wrt not_later (sorting (candidate_before phase) cs)"
proof -
  have "strict_weak_order_on (set cs) (candidate_before phase)"
    by (rule keyed_order.strict_weak_order [OF candidate_order [OF assms(2,3)]])
  from standard_sort.sorts [OF assms(1) this] show ?thesis
    by (rule sorted_wrt_mono_rel [rotated]) (use before_required(2) in blast)
qed

section \<open>Checked and supported candidates\<close>

lemma check_candidate_Inr:
  assumes "check_candidate limits s c = Inr s'"
  shows "entry_of c \<notin> ck_entry_ids s" and "ck_entry_ids s' = insert (entry_of c) (ck_entry_ids s)"
    and "cs_required c \<Longrightarrow> set_option (cs_alternative_group c) \<inter> ck_required_groups s = {}"
    and "ck_required_groups s' =
      (if cs_required c then set_option (cs_alternative_group c) else {}) \<union> ck_required_groups s"
    and "has_required_current_exact s' \<longleftrightarrow> has_required_current_exact s \<or> required_current_exact c"
proof -
  have none: "find (same_exact_location c) (ck_previous s) = None"
    using assms by (cases "find (same_exact_location c) (ck_previous s)") (simp_all add: check_candidate_def Let_def)
  note step = assms [unfolded check_candidate_def Let_def none option.case fail_if_Inr sum.inject]
  show "entry_of c \<notin> ck_entry_ids s" using step by blast
  show "cs_required c \<Longrightarrow> set_option (cs_alternative_group c) \<inter> ck_required_groups s = {}"
    using step by (auto split: option.splits)
  have "Some s' = Some \<lparr>ck_previous = ck_previous s @ [c], ck_entry_ids = insert (entry_of c) (ck_entry_ids s),
      ck_message_ids = insert (message_id (cci_message (cs_content c))) (ck_message_ids s),
      ck_evidence_ids = set_option (cs_evidence_id c) \<union> ck_evidence_ids s,
      ck_required_groups =
        (if cs_required c then set_option (cs_alternative_group c) else {}) \<union> ck_required_groups s,
      has_required_current_exact = has_required_current_exact s \<or> required_current_exact c\<rparr>"
    using step by blast
  then show "ck_entry_ids s' = insert (entry_of c) (ck_entry_ids s)"
    "ck_required_groups s' =
      (if cs_required c then set_option (cs_alternative_group c) else {}) \<union> ck_required_groups s"
    "has_required_current_exact s' \<longleftrightarrow> has_required_current_exact s \<or> required_current_exact c"
    by simp_all
qed

fun option_list :: "'a option \<Rightarrow> 'a list" where
  "option_list None = []"
| "option_list (Some x) = [x]"

lemma option_list_props [simp]:
  "set (option_list v) = set_option v" "distinct (option_list v)"
  by (cases v; simp)+

definition required_groups :: "CandidateState list \<Rightarrow> string list" where
  "required_groups cs = concat (map (\<lambda>c. if cs_required c then option_list (cs_alternative_group c) else []) cs)"

lemma required_groups_simps:
  "required_groups [] = []"
  "required_groups (c # cs) =
     (if cs_required c then option_list (cs_alternative_group c) else []) @ required_groups cs"
  by (simp_all add: required_groups_def)

lemma required_groups_member:
  "c \<in> set cs \<Longrightarrow> cs_required c \<Longrightarrow> cs_alternative_group c = Some g \<Longrightarrow> g \<in> set (required_groups cs)"
  by (induction cs) (auto simp: required_groups_simps)

lemma checked_candidates:
  assumes "replay (check_candidate limits) s cs = Inr s'"
  shows "distinct (map entry_of cs) \<and> entry_of ` set cs \<inter> ck_entry_ids s = {} \<and>
    distinct (required_groups cs) \<and> set (required_groups cs) \<inter> ck_required_groups s = {} \<and>
    (has_required_current_exact s' \<longleftrightarrow> has_required_current_exact s \<or> (\<exists>c \<in> set cs. required_current_exact c))"
  using assms
proof (induction cs arbitrary: s)
  case (Cons c cs)
  then obtain t where t: "check_candidate limits s c = Inr t" "replay (check_candidate limits) t cs = Inr s'" by auto
  note head = check_candidate_Inr [OF t(1)] and tail = Cons.IH [OF t(2)]
  have "set (required_groups cs) \<inter> ck_required_groups s = {}" using tail head(4) by auto
  moreover have "distinct (required_groups (c # cs)) \<and> set (required_groups (c # cs)) \<inter> ck_required_groups s = {}"
    using tail head(3,4) by (auto simp: required_groups_simps split: option.splits)
  ultimately show ?case using head(1,2,5) tail by auto
qed (simp add: required_groups_simps)

lemma required_groups_unique:
  assumes "distinct (required_groups cs)" and "a \<in> set cs" "b \<in> set cs" and "cs_required a" "cs_required b"
    and "cs_alternative_group a = Some g" "cs_alternative_group b = Some g"
  shows "a = b"
  using assms
proof (induction cs)
  case (Cons c cs)
  then show ?case by (auto simp: required_groups_simps dest: required_groups_member split: option.splits if_splits)
qed simp

lemma sifted:
  assumes "replay (sift_candidate phase) s cs = Inr s'"
  shows "fst s' = fst s @ map (\<lambda>c. make_record c (the (omission phase c))) (filter (\<lambda>c. omission phase c \<noteq> None) cs) \<and>
    snd s' = snd s @ filter (\<lambda>c. omission phase c = None) cs \<and>
    (\<forall>c \<in> set cs. cs_required c \<longrightarrow> omission phase c = None)"
  using assms
proof (induction cs arbitrary: s)
  case (Cons c cs)
  then obtain t where t: "sift_candidate phase s c = Inr t" "replay (sift_candidate phase) t cs = Inr s'" by auto
  have "t = (if omission phase c = None then (fst s, snd s @ [c])
        else (fst s @ [make_record c (the (omission phase c))], snd s)) \<and>
      (cs_required c \<longrightarrow> omission phase c = None)"
    using t(1) by (auto simp: sift_candidate_def split: option.splits)
  then show ?case using Cons.IH [OF t(2)] by (auto split: if_splits)
qed simp

lemma omission_not_admitted: "omission phase c = Some d \<Longrightarrow> d \<noteq> Selection_admitted"
  by (auto simp: omission_def decision_for_freshness_def split: if_splits)

section \<open>Admission\<close>

lemma usage_value_set:
  "j \<noteq> Class_unknown \<Longrightarrow> k \<noteq> Class_unknown \<Longrightarrow> usage_value (set_usage_value u j v) k = (if j = k then v else usage_value u k)"
  by (cases j; cases k) simp_all

lemma admit_candidate_Inr:
  assumes "admit_candidate budgets maximum_input s c = Inr s'"
  obtains (alternative) g where "cs_alternative_group c = Some g" "g \<in> se_admitted_groups s"
      "s' = record_decision c Omitted_alternative s"
    | (omitted) d where "\<not> cs_required c" "d \<noteq> Selection_admitted" "s' = record_decision c d s"
    | (admitted) v t where "set_option (cs_alternative_group c) \<inter> se_admitted_groups s = {}"
      "unat v = unat (usage_value (se_usage s) (cs_budget_class c)) + tokens_of c"
      "\<forall>limit. budget_limit budgets (cs_budget_class c) = Some limit \<longrightarrow> v \<le> limit"
      "unat t = unat (se_total s) + tokens_of c" "t \<le> maximum_input"
      "s' = record_decision c Selection_admitted
        (s\<lparr>se_usage := set_usage_value (se_usage s) (cs_budget_class c) v, se_total := t,
           se_admitted_groups := set_option (cs_alternative_group c) \<union> se_admitted_groups s,
           se_selected := se_selected s @ [cs_content c]\<rparr>)"
proof (cases "\<exists>g. cs_alternative_group c = Some g \<and> g \<in> se_admitted_groups s")
  case True
  then show ?thesis using assms alternative by (auto simp: admit_candidate_def)
next
  case False
  then have "(case cs_alternative_group c of None \<Rightarrow> False | Some g \<Rightarrow> g \<in> se_admitted_groups s) = False"
    and groups: "set_option (cs_alternative_group c) \<inter> se_admitted_groups s = {}"
    by (auto split: option.splits)
  note step = assms [unfolded admit_candidate_def Let_def this(1) if_False]
  obtain v where v: "add_checked (usage_value (se_usage s) (cs_budget_class c)) (cci_estimated_tokens (cs_content c)) = Some v"
    using step by (auto split: option.splits)
  obtain t where t: "add_checked (se_total s) (cci_estimated_tokens (cs_content c)) = Some t"
    using step v by (auto split: option.splits)
  let ?fits = "case budget_limit budgets (cs_budget_class c) of None \<Rightarrow> True | Some limit \<Rightarrow> v \<le> limit"
  show ?thesis
  proof (cases "?fits \<and> t \<le> maximum_input")
    case True
    then show ?thesis
      using step v t groups admitted [of v t] by (auto simp: add_checked_iff split: option.splits)
  next
    case False
    have "s' = record_decision c (if ?fits then Omitted_budget else Omitted_class_budget) s" "\<not> cs_required c"
      using step v t False by (auto split: if_splits)
    then show ?thesis
      by (intro omitted [of "if ?fits then Omitted_budget else Omitted_class_budget"]) simp_all
  qed
qed

text \<open>
  After a list of candidates: \<open>adm\<close> are the admitted ones in the order of their admission.
\<close>

definition class_tokens :: "ContextBudgetClass \<Rightarrow> CandidateState list \<Rightarrow> nat" where
  "class_tokens k cs = (\<Sum>c \<leftarrow> filter (\<lambda>c. cs_budget_class c = k) cs. tokens_of c)"

definition admission ::
  "ContextClassBudgets \<Rightarrow> SelectionState \<Rightarrow> CandidateState list \<Rightarrow> CandidateState list \<Rightarrow> SelectionState \<Rightarrow> bool" where
  "admission budgets start cs adm s \<longleftrightarrow>
     set adm \<subseteq> set cs \<and> (distinct cs \<longrightarrow> distinct adm) \<and>
     se_selected s = se_selected start @ map cs_content adm \<and>
     (\<forall>k. k \<noteq> Class_unknown \<longrightarrow>
        unat (usage_value (se_usage s) k) = unat (usage_value (se_usage start) k) + class_tokens k adm \<and>
        (class_tokens k adm > 0 \<longrightarrow> (\<forall>l. budget_limit budgets k = Some l \<longrightarrow> usage_value (se_usage s) k \<le> l))) \<and>
     unat (se_total s) = unat (se_total start) + (\<Sum>c \<leftarrow> adm. tokens_of c) \<and>
     se_admitted_groups s = (\<Union>c \<in> set adm. set_option (cs_alternative_group c)) \<and>
     distinct (concat (map (\<lambda>c. option_list (cs_alternative_group c)) adm)) \<and>
     (sorted_wrt not_later cs \<longrightarrow> (\<forall>c \<in> set cs. cs_required c \<longrightarrow> c \<in> set adm)) \<and>
     (\<exists>f. se_decisions s = se_decisions start @ map (\<lambda>c. make_record c (f c)) cs \<and>
        (\<forall>c \<in> set cs. f c = Selection_admitted \<longleftrightarrow> c \<in> set adm))"

lemma admission_omit:
  assumes "admission budgets start qs adm s" and "sorted_wrt not_later (qs @ [c]) \<longrightarrow> \<not> cs_required c"
    and "d \<noteq> Selection_admitted" and "c \<notin> set qs"
  shows "admission budgets start (qs @ [c]) adm (record_decision c d s)"
proof -
  obtain f where f: "se_decisions s = se_decisions start @ map (\<lambda>c. make_record c (f c)) qs"
    "\<forall>c \<in> set qs. f c = Selection_admitted \<longleftrightarrow> c \<in> set adm" "set adm \<subseteq> set qs"
    using assms(1) unfolding admission_def by blast
  let ?g = "f(c := d)"
  have "se_decisions (record_decision c d s) = se_decisions start @ map (\<lambda>c. make_record c (?g c)) (qs @ [c])"
    using f(1) assms(4) by (auto simp: record_decision_def)
  moreover have "\<forall>x \<in> set (qs @ [c]). ?g x = Selection_admitted \<longleftrightarrow> x \<in> set adm"
    using f(2,3) assms(3,4) by auto
  ultimately have decided: "\<exists>f. se_decisions (record_decision c d s) =
      se_decisions start @ map (\<lambda>c. make_record c (f c)) (qs @ [c]) \<and>
      (\<forall>c \<in> set (qs @ [c]). f c = Selection_admitted \<longleftrightarrow> c \<in> set adm)" by blast
  show ?thesis
    unfolding admission_def
    using assms(1,2) decided unfolding admission_def by (auto simp: record_decision_def sorted_wrt_append)
qed

lemma class_tokens_snoc:
  "class_tokens k (adm @ [c]) = class_tokens k adm + (if cs_budget_class c = k then tokens_of c else 0)"
  by (simp add: class_tokens_def)

lemma admission_admit:
  assumes inv: "admission budgets start qs adm s" and fresh: "c \<notin> set qs" and known: "cs_budget_class c \<noteq> Class_unknown"
    and groups: "set_option (cs_alternative_group c) \<inter> se_admitted_groups s = {}"
    and v: "unat v = unat (usage_value (se_usage s) (cs_budget_class c)) + tokens_of c"
      "\<forall>limit. budget_limit budgets (cs_budget_class c) = Some limit \<longrightarrow> v \<le> limit"
    and t: "unat t = unat (se_total s) + tokens_of c"
  defines "s' \<equiv> record_decision c Selection_admitted
        (s\<lparr>se_usage := set_usage_value (se_usage s) (cs_budget_class c) v, se_total := t,
           se_admitted_groups := set_option (cs_alternative_group c) \<union> se_admitted_groups s,
           se_selected := se_selected s @ [cs_content c]\<rparr>)"
  shows "admission budgets start (qs @ [c]) (adm @ [c]) s'"
proof -
  obtain f where f: "se_decisions s = se_decisions start @ map (\<lambda>c. make_record c (f c)) qs"
    "\<forall>c \<in> set qs. f c = Selection_admitted \<longleftrightarrow> c \<in> set adm"
    using inv unfolding admission_def by blast
  have adm: "set adm \<subseteq> set qs" and old_groups: "se_admitted_groups s = (\<Union>c \<in> set adm. set_option (cs_alternative_group c))"
    and usage: "k \<noteq> Class_unknown \<Longrightarrow>
      unat (usage_value (se_usage s) k) = unat (usage_value (se_usage start) k) + class_tokens k adm \<and>
      (class_tokens k adm > 0 \<longrightarrow> (\<forall>l. budget_limit budgets k = Some l \<longrightarrow> usage_value (se_usage s) k \<le> l))" for k
    using inv unfolding admission_def by blast+
  let ?g = "f(c := Selection_admitted)"
  have "se_decisions s' = se_decisions start @ map (\<lambda>c. make_record c (?g c)) (qs @ [c])"
    using f(1) fresh by (auto simp: s'_def record_decision_def)
  moreover have "\<forall>x \<in> set (qs @ [c]). ?g x = Selection_admitted \<longleftrightarrow> x \<in> set (adm @ [c])"
    using f(2) adm fresh by auto
  ultimately have decided: "\<exists>f. se_decisions s' = se_decisions start @ map (\<lambda>c. make_record c (f c)) (qs @ [c]) \<and>
      (\<forall>x \<in> set (qs @ [c]). f x = Selection_admitted \<longleftrightarrow> x \<in> set (adm @ [c]))" by blast
  have budgets: "\<forall>k. k \<noteq> Class_unknown \<longrightarrow>
      unat (usage_value (se_usage s') k) = unat (usage_value (se_usage start) k) + class_tokens k (adm @ [c]) \<and>
      (class_tokens k (adm @ [c]) > 0 \<longrightarrow>
        (\<forall>l. budget_limit budgets k = Some l \<longrightarrow> usage_value (se_usage s') k \<le> l))"
    using usage v known
    by (simp add: s'_def record_decision_def usage_value_set class_tokens_snoc)
  have "distinct (concat (map (\<lambda>c. option_list (cs_alternative_group c)) (adm @ [c])))"
    using inv groups old_groups unfolding admission_def by auto
  then show ?thesis
    unfolding admission_def
    using inv adm fresh decided budgets t unfolding admission_def
    by (auto simp: s'_def record_decision_def sorted_wrt_append)
qed

lemma admission_step:
  assumes "admission budgets start qs adm s" and "admit_candidate budgets maximum_input s c = Inr s'"
    and "c \<notin> set qs" and "cs_budget_class c \<noteq> Class_unknown"
    and "\<And>a g. sorted_wrt not_later (qs @ [c]) \<Longrightarrow> cs_required c \<Longrightarrow> a \<in> set qs \<Longrightarrow> cs_alternative_group a = Some g \<Longrightarrow> cs_alternative_group c \<noteq> Some g"
  shows "\<exists>adm'. admission budgets start (qs @ [c]) adm' s'"
  using assms(2)
proof (cases rule: admit_candidate_Inr)
  case (alternative g)
  have "g \<in> (\<Union>c \<in> set adm. set_option (cs_alternative_group c))" "set adm \<subseteq> set qs"
    using assms(1) alternative(2) unfolding admission_def by blast+
  then obtain a where "a \<in> set qs" "cs_alternative_group a = Some g" by auto
  with assms(5) alternative(1) have "sorted_wrt not_later (qs @ [c]) \<longrightarrow> \<not> cs_required c" by blast
  then show ?thesis using admission_omit [OF assms(1) _ _ assms(3)] alternative(3) by blast
next
  case (omitted d)
  then show ?thesis using admission_omit [OF assms(1) _ _ assms(3)] by blast
next
  case (admitted v t)
  then show ?thesis using admission_admit [OF assms(1,3,4)] by blast
qed

lemma admission_all:
  assumes "replay (admit_candidate budgets maximum_input) start cs = Inr s"
    and "se_admitted_groups start = {}"
    and "distinct cs" and "\<forall>c \<in> set cs. cs_budget_class c \<noteq> Class_unknown"
    and groups: "\<And>a b g. a \<in> set cs \<Longrightarrow> b \<in> set cs \<Longrightarrow> cs_required a \<Longrightarrow> cs_required b \<Longrightarrow>
      cs_alternative_group a = Some g \<Longrightarrow> cs_alternative_group b = Some g \<Longrightarrow> a = b"
  shows "\<exists>adm. admission budgets start cs adm s"
proof (rule replay_history [where I = "\<lambda>qs s. \<exists>adm. admission budgets start qs adm s", OF assms(1), of "[]"])
  have "admission budgets start [] [] start"
    using assms(2) by (simp add: admission_def class_tokens_def)
  then show "\<exists>adm. admission budgets start [] adm start" ..
  fix qs c rs t t'
  assume cs: "cs = qs @ c # rs" and inv: "\<exists>adm. admission budgets start qs adm t"
    and step: "admit_candidate budgets maximum_input t c = Inr t'"
  from inv obtain adm where adm: "admission budgets start qs adm t" by blast
  have "cs_alternative_group c \<noteq> Some g"
    if sorted: "sorted_wrt not_later (qs @ [c])" and c: "cs_required c" and a: "a \<in> set qs" and g: "cs_alternative_group a = Some g" for a g
  proof
    assume "cs_alternative_group c = Some g"
    moreover have "cs_required a" using sorted c a by (auto simp: sorted_wrt_append)
    ultimately have "a = c" using groups [of a c g] c a g by (simp add: cs)
    then show False using a assms(3) by (simp add: cs)
  qed
  then show "\<exists>adm. admission budgets start (qs @ [c]) adm t'"
    using admission_step [OF adm step] assms(3,4) by (simp add: cs)
qed simp

section \<open>The result of a selection\<close>

text \<open>The candidates that the decisions of a result call admitted.\<close>

definition admitted_candidates :: "ContextSelectionResult \<Rightarrow> CandidateState list \<Rightarrow> CandidateState list" where
  "admitted_candidates result candidates =
     filter (\<lambda>c. make_record c Selection_admitted \<in> set (csl_decisions result)) candidates"

lemma make_record_inject: "make_record a d = make_record b e \<Longrightarrow> entry_of a = entry_of b \<and> d = e"
  by (simp add: make_record_def)

lemma record_in_map:
  assumes "distinct (map entry_of cs)" and "c \<in> set cs" and "set xs \<subseteq> set cs"
  shows "make_record c d \<in> (\<lambda>x. make_record x (f x)) ` set xs \<longleftrightarrow> c \<in> set xs \<and> f c = d"
proof -
  have "x = c" if "make_record c d = make_record x (f x)" "x \<in> set xs" for x
    using make_record_inject [OF that(1)] that(2) assms by (metis distinct_map inj_onD subsetD)
  then show ?thesis by (auto simp: make_record_def)
qed

interpretation decisions: keyed_order decision_before sdr_entry_id
  by unfold_locales (simp add: decision_before_def)

lemma mset_partition:
  "image_mset g (mset (filter (\<lambda>c. \<not> P c) cs)) + image_mset f (mset (filter P cs)) =
     image_mset (\<lambda>c. if P c then f c else g c) (mset cs)"
  by (induction cs) simp_all

lemma admission_usage:
  assumes "admission budgets \<lparr>se_usage = empty_class_usage, se_total = mandatory, se_admitted_groups = groups,
    se_decisions = decisions, se_selected = selected\<rparr> cs adm s"
  shows "\<forall>k. k \<noteq> Class_unknown \<longrightarrow> unat (usage_value (se_usage s) k) = class_tokens k adm \<and>
    (\<forall>l. budget_limit budgets k = Some l \<longrightarrow> usage_value (se_usage s) k \<le> l)"
proof (intro allI impI)
  fix k
  assume k: "k \<noteq> Class_unknown"
  then have zero: "unat (usage_value empty_class_usage k) = 0" by (cases k) (simp_all add: empty_class_usage_def)
  have "unat (usage_value (se_usage s) k) = unat (usage_value empty_class_usage k) + class_tokens k adm"
    "class_tokens k adm > 0 \<Longrightarrow> \<forall>l. budget_limit budgets k = Some l \<longrightarrow> usage_value (se_usage s) k \<le> l"
    using assms k unfolding admission_def by auto
  then show "unat (usage_value (se_usage s) k) = class_tokens k adm \<and>
     (\<forall>l. budget_limit budgets k = Some l \<longrightarrow> usage_value (se_usage s) k \<le> l)"
    using zero by (cases "class_tokens k adm = 0") (auto simp: word_le_nat_alt)
qed

lemma select_candidates_Inr:
  assumes "select_candidates sorting request tokens cands = Inr s" and sort: "permuting_sort sorting"
  obtains adm f where "distinct (map entry_of cands)"
    "csr_phase request = Phase_editing \<longrightarrow> (\<exists>c \<in> set cands. required_current_exact c)"
    "set adm \<subseteq> set cands" "distinct adm" "\<forall>c \<in> set adm. omission (csr_phase request) c = None"
    "se_selected s = map cs_content adm"
    "\<forall>k. k \<noteq> Class_unknown \<longrightarrow> unat (usage_value (se_usage s) k) = class_tokens k adm \<and>
       (\<forall>l. budget_limit (csr_budgets request) k = Some l \<longrightarrow> usage_value (se_usage s) k \<le> l)"
    "distinct (concat (map (\<lambda>c. option_list (cs_alternative_group c)) adm))"
    "sorted_wrt not_later (sorting (candidate_before (csr_phase request))
       (filter (\<lambda>c. omission (csr_phase request) c = None) cands)) \<longrightarrow> (\<forall>c \<in> set cands. cs_required c \<longrightarrow> c \<in> set adm)"
    "mset (se_decisions s) = image_mset (\<lambda>c. make_record c (f c)) (mset cands)"
    "\<forall>c \<in> set cands. f c = Selection_admitted \<longleftrightarrow> c \<in> set adm"
proof -
  let ?phase = "csr_phase request"
  let ?none = "\<lambda>c. omission ?phase c = None" and ?sort = "sorting (candidate_before ?phase)"
  note [simp] = permuting_sort.permutes [OF sort] permuting_sort.same_set [OF sort] permuting_sort.same_distinct [OF sort]
  obtain checked decisions selectable where
    check: "replay (check_candidate (csr_selection_limits request))
       \<lparr>ck_previous = [], ck_entry_ids = {}, ck_message_ids = {}, ck_evidence_ids = {}, ck_required_groups = {},
        has_required_current_exact = False\<rparr> cands = Inr checked"
    and exact: "?phase = Phase_editing \<Longrightarrow> has_required_current_exact checked"
    and sift: "replay (sift_candidate ?phase) ([], []) cands = Inr (decisions, selectable)"
    and admit: "replay (admit_candidate (csr_budgets request)
          (context_window_tokens (csr_capacity request) - reserved_output_tokens (csr_capacity request)))
        \<lparr>se_usage = empty_class_usage, se_total = tokens, se_admitted_groups = {},
         se_decisions = decisions, se_selected = []\<rparr> (?sort selectable) = Inr s" (is "replay _ ?start _ = _")
    using assms(1) by (auto simp: select_candidates_def)
  have ids: "distinct (map entry_of cands)" and groups: "distinct (required_groups cands)"
    and editing: "has_required_current_exact checked \<longleftrightarrow> (\<exists>c \<in> set cands. required_current_exact c)"
    using checked_candidates [OF check] by simp_all
  have sel: "selectable = filter ?none cands"
    and dec: "decisions = map (\<lambda>c. make_record c (the (omission ?phase c))) (filter (\<lambda>c. \<not> ?none c) cands)"
    and req: "\<forall>c \<in> set cands. cs_required c \<longrightarrow> ?none c"
    using sifted [OF sift] by simp_all
  have "distinct cands" using ids by (simp add: distinct_map)
  then have dist: "distinct (?sort selectable)" by (simp add: sel)
  have known: "\<forall>c \<in> set (?sort selectable). cs_budget_class c \<noteq> Class_unknown"
    by (auto simp: sel omission_def unsupported_candidate_def split: if_splits)
  obtain adm where adm: "admission (csr_budgets request) ?start (?sort selectable) adm s"
    using admission_all [OF admit _ dist known] required_groups_unique [OF groups]
    by (auto simp: sel)
  obtain f where f: "se_decisions s = decisions @ map (\<lambda>c. make_record c (f c)) (?sort selectable)"
    "\<forall>c \<in> set selectable. f c = Selection_admitted \<longleftrightarrow> c \<in> set adm" "set adm \<subseteq> set selectable"
    using adm unfolding admission_def by auto
  let ?f = "\<lambda>c. if ?none c then f c else the (omission ?phase c)"
  have decided: "mset (se_decisions s) = image_mset (\<lambda>c. make_record c (?f c)) (mset cands)"
    using mset_partition [of "\<lambda>c. make_record c (the (omission ?phase c))" ?none cands "\<lambda>c. make_record c (f c)"]
    by (simp add: f(1) dec sel if_distrib cong: if_cong)
  have flags: "\<forall>c \<in> set cands. ?f c = Selection_admitted \<longleftrightarrow> c \<in> set adm"
  proof
    fix c
    assume c: "c \<in> set cands"
    show "?f c = Selection_admitted \<longleftrightarrow> c \<in> set adm"
    proof (cases "omission ?phase c")
      case None
      with f(2) c show ?thesis by (simp add: sel)
    next
      case (Some d)
      with f(3) omission_not_admitted [OF Some] show ?thesis by (auto simp: sel)
    qed
  qed
  note usage = admission_usage [OF adm]
  have rest: "distinct adm" "se_selected s = map cs_content adm"
    "distinct (concat (map (\<lambda>c. option_list (cs_alternative_group c)) adm))"
    "sorted_wrt not_later (?sort selectable) \<longrightarrow> (\<forall>c \<in> set (?sort selectable). cs_required c \<longrightarrow> c \<in> set adm)"
    using adm dist unfolding admission_def by auto
  show ?thesis
    by (rule that [OF ids _ _ rest(1) _ rest(2) usage rest(3) _ decided flags])
      (use exact editing f(3) req rest(4) in \<open>auto simp: sel\<close>)
qed

lemma groups_unique:
  assumes "distinct (concat (map (\<lambda>c. option_list (cs_alternative_group c)) adm))" and "a \<in> set adm" "b \<in> set adm"
    and "cs_alternative_group a = Some g" "cs_alternative_group b = Some g"
  shows "a = b"
  using assms by (induction adm) fastforce+

lemma built_content:
  assumes "build_context input = Inr ctx"
  shows "ce_entry_id ` {e \<in> set (cc_entries ctx). ce_kind e \<noteq> Entry_instruction} =
    cci_entry_id ` set (cbi_content input)"
proof (rule build_contextE [OF assms])
  fix active contents decisions
  assume active: "applied (cbi_instructions input) (sort_by operation_before (cbi_instructions input)) active"
    and admit: "replay admit_content ([], ai_decisions active) (cbi_content input) = Inr (contents, decisions)"
    and entries: "cc_entries ctx =
      sort_by instruction_before (map snd (active_instructions active)) @ sort_by content_before contents"
    and ids: "distinct (map cci_entry_id (cbi_content input))"
  have "{e \<in> set (cc_entries ctx). ce_kind e \<noteq> Entry_instruction} = set contents"
    using instructions_ordered [OF active set_sort_by] contents_ordered [OF admit ids]
    by (auto simp: entries list_all_iff)
  moreover have "ce_entry_id ` set contents = cci_entry_id ` set (cbi_content input)"
    using arg_cong [OF admitted_contents(1) [OF admit], of set] by (simp only: set_map list.map append_Nil)
  ultimately show ?thesis by simp
qed

lemma select_and_build_Inr:
  assumes "select_and_build sorting request = Inr result"
  obtains cands tokens s where "gather_candidates request = Inr cands" "select_candidates sorting request tokens cands = Inr s"
    "csr_phase request \<noteq> Phase_unknown"
    "build_context \<lparr>cbi_capacity = csr_capacity request, cbi_instructions = csr_instructions request,
       cbi_content = se_selected s\<rparr> = Inr (csl_context result)"
    "csl_decisions result = sort_by decision_before (se_decisions s)" "csl_usage result = se_usage s"
  using assms by (auto simp: select_and_build_def Let_def valid_phase_def)

text \<open>The admitted candidates of a result are those that the loop admitted.\<close>

lemma selection_result:
  assumes "permuting_sort sorting" and "select_and_build sorting request = Inr result"
    and "gather_candidates request = Inr cands"
  obtains adm f where "distinct (map entry_of cands)"
    "csr_phase request = Phase_editing \<longrightarrow> (\<exists>c \<in> set cands. required_current_exact c)"
    "mset (admitted_candidates result cands) = mset adm" "\<forall>c \<in> set adm. omission (csr_phase request) c = None"
    "build_context \<lparr>cbi_capacity = csr_capacity request, cbi_instructions = csr_instructions request,
       cbi_content = map cs_content adm\<rparr> = Inr (csl_context result)"
    "\<forall>k. k \<noteq> Class_unknown \<longrightarrow> unat (usage_value (csl_usage result) k) = class_tokens k adm \<and>
       (\<forall>l. budget_limit (csr_budgets request) k = Some l \<longrightarrow> usage_value (csl_usage result) k \<le> l)"
    "distinct (concat (map (\<lambda>c. option_list (cs_alternative_group c)) adm))"
    "standard_sort sorting \<longrightarrow> csr_phase request \<noteq> Phase_review \<longrightarrow> (\<forall>c \<in> set cands. cs_required c \<longrightarrow> c \<in> set adm)"
    "sorted_wrt (<) (map sdr_entry_id (csl_decisions result))"
    "mset (csl_decisions result) = image_mset (\<lambda>c. make_record c (f c)) (mset cands)"
proof -
  obtain tokens s where select: "select_candidates sorting request tokens cands = Inr s"
    and phase: "csr_phase request \<noteq> Phase_unknown"
    and built: "build_context \<lparr>cbi_capacity = csr_capacity request, cbi_instructions = csr_instructions request,
       cbi_content = se_selected s\<rparr> = Inr (csl_context result)"
    and result: "csl_decisions result = sort_by decision_before (se_decisions s)" "csl_usage result = se_usage s"
    using select_and_build_Inr [OF assms(2)] assms(3) by (metis sum.inject(2))
  obtain adm f where ids: "distinct (map entry_of cands)"
    and editing: "csr_phase request = Phase_editing \<longrightarrow> (\<exists>c \<in> set cands. required_current_exact c)"
    and adm: "set adm \<subseteq> set cands" "distinct adm" "\<forall>c \<in> set adm. omission (csr_phase request) c = None"
    and selected: "se_selected s = map cs_content adm"
    and rest: "\<forall>k. k \<noteq> Class_unknown \<longrightarrow> unat (usage_value (se_usage s) k) = class_tokens k adm \<and>
       (\<forall>l. budget_limit (csr_budgets request) k = Some l \<longrightarrow> usage_value (se_usage s) k \<le> l)"
      "distinct (concat (map (\<lambda>c. option_list (cs_alternative_group c)) adm))"
      "sorted_wrt not_later (sorting (candidate_before (csr_phase request))
         (filter (\<lambda>c. omission (csr_phase request) c = None) cands)) \<longrightarrow> (\<forall>c \<in> set cands. cs_required c \<longrightarrow> c \<in> set adm)"
    and decided: "mset (se_decisions s) = image_mset (\<lambda>c. make_record c (f c)) (mset cands)"
    and flags: "\<forall>c \<in> set cands. f c = Selection_admitted \<longleftrightarrow> c \<in> set adm"
    by (rule select_candidates_Inr [OF select assms(1)])
  have decs: "mset (csl_decisions result) = image_mset (\<lambda>c. make_record c (f c)) (mset cands)"
    by (simp add: result decided)
  then have "set (csl_decisions result) = (\<lambda>c. make_record c (f c)) ` set cands"
    by (metis mset_map set_map mset_eq_setD)
  then have "make_record c Selection_admitted \<in> set (csl_decisions result) \<longleftrightarrow> c \<in> set adm" if "c \<in> set cands" for c
    using record_in_map [OF ids that subset_refl, of Selection_admitted f] flags that by simp
  then have "set (admitted_candidates result cands) = set adm"
    using adm(1) by (auto simp: admitted_candidates_def)
  moreover have "distinct (admitted_candidates result cands)"
    using ids by (simp add: admitted_candidates_def distinct_map)
  ultimately have same: "mset (admitted_candidates result cands) = mset adm"
    using adm(2) by (simp add: set_eq_iff_mset_eq_distinct [symmetric])
  have "mset (map sdr_entry_id (se_decisions s)) = mset (map entry_of cands)"
    by (simp add: decided multiset.map_comp o_def make_record_def)
  then have "distinct (map sdr_entry_id (se_decisions s))"
    using ids mset_eq_imp_distinct_iff by blast
  then have sorted: "sorted_wrt (<) (map sdr_entry_id (csl_decisions result))"
    using decisions.sorted_sort_by unfolding result sorted_wrt_map decision_before_def [symmetric] by blast
  have required: "standard_sort sorting \<longrightarrow> csr_phase request \<noteq> Phase_review \<longrightarrow>
      (\<forall>c \<in> set cands. cs_required c \<longrightarrow> c \<in> set adm)"
    using rest(3) required_first phase by blast
  show ?thesis
    by (rule that [OF ids editing same adm(3) built [unfolded selected] _ rest(2) required sorted decs])
      (use rest(1) result(2) in auto)
qed

section \<open>Properties\<close>

text \<open>
  C31: the budgets hold.  What a result reports as used by a class of context is exactly the estimates
  of the admitted candidates of that class, without wrap-around, and within the limit of the class if
  it has one.  Of the sort that ranks the candidates only that it permutes them is used.
\<close>

theorem selection_within_budgets:
  assumes "permuting_sort sorting" and "select_and_build sorting request = Inr result"
    and "gather_candidates request = Inr cands" and "k \<noteq> Class_unknown"
  shows "unat (usage_value (csl_usage result) k) = class_tokens k (admitted_candidates result cands) \<and>
    (\<forall>l. budget_limit (csr_budgets request) k = Some l \<longrightarrow> usage_value (csl_usage result) k \<le> l)"
proof (rule selection_result [OF assms(1-3)])
  fix adm
  assume "mset (admitted_candidates result cands) = mset adm"
    and usage: "\<forall>k. k \<noteq> Class_unknown \<longrightarrow> unat (usage_value (csl_usage result) k) = class_tokens k adm \<and>
       (\<forall>l. budget_limit (csr_budgets request) k = Some l \<longrightarrow> usage_value (csl_usage result) k \<le> l)"
  then have "mset (map tokens_of (filter (\<lambda>c. cs_budget_class c = k) (admitted_candidates result cands))) =
      mset (map tokens_of (filter (\<lambda>c. cs_budget_class c = k) adm))"
    by simp
  then have "class_tokens k (admitted_candidates result cands) = class_tokens k adm"
    unfolding class_tokens_def by (metis sum_mset_sum_list)
  with usage assms(4) show ?thesis by simp
qed

text \<open>
  C8: what a selection promises about the candidates it admits.  Outside reviews every required candidate
  is admitted.  In every phase no two admitted candidates are alternatives of one group; whatever is
  admitted is supported and fresh enough for the phase; and an editing context has required current exact
  source among them.  Of the sort it is used that it permutes its input, and that its result is sorted where
  the comparator is a strict weak order, which in reviews it is not.
\<close>

theorem selection_admits_required:
  assumes "standard_sort sorting" and "select_and_build sorting request = Inr result"
    and "gather_candidates request = Inr cands"
  shows "(csr_phase request \<noteq> Phase_review \<longrightarrow>
      (\<forall>c \<in> set cands. cs_required c \<longrightarrow> c \<in> set (admitted_candidates result cands))) \<and>
    (\<forall>a \<in> set (admitted_candidates result cands). \<forall>b \<in> set (admitted_candidates result cands).
       cs_alternative_group a \<noteq> None \<and> cs_alternative_group a = cs_alternative_group b \<longrightarrow> a = b) \<and>
    (\<forall>c \<in> set (admitted_candidates result cands).
       \<not> unsupported_candidate c \<and> eligible_freshness (cs_freshness c) (csr_phase request)) \<and>
    (csr_phase request = Phase_editing \<longrightarrow>
       (\<exists>c \<in> set (admitted_candidates result cands). required_current_exact c))"
proof (rule selection_result [OF standard_sort.axioms(1) [OF assms(1)] assms(2,3)])
  fix adm
  assume same: "mset (admitted_candidates result cands) = mset adm"
    and editing: "csr_phase request = Phase_editing \<longrightarrow> (\<exists>c \<in> set cands. required_current_exact c)"
    and fresh: "\<forall>c \<in> set adm. omission (csr_phase request) c = None"
    and groups: "distinct (concat (map (\<lambda>c. option_list (cs_alternative_group c)) adm))"
    and "standard_sort sorting \<longrightarrow> csr_phase request \<noteq> Phase_review \<longrightarrow> (\<forall>c \<in> set cands. cs_required c \<longrightarrow> c \<in> set adm)"
  then have required: "csr_phase request \<noteq> Phase_review \<longrightarrow> (\<forall>c \<in> set cands. cs_required c \<longrightarrow> c \<in> set adm)"
    using assms(1) by blast
  have "\<forall>a \<in> set adm. \<forall>b \<in> set adm.
      cs_alternative_group a \<noteq> None \<and> cs_alternative_group a = cs_alternative_group b \<longrightarrow> a = b"
    using groups_unique [OF groups] by (metis option.exhaust)
  moreover have "\<forall>c \<in> set adm. \<not> unsupported_candidate c \<and> eligible_freshness (cs_freshness c) (csr_phase request)"
    using fresh by (auto simp: omission_def split: if_splits)
  moreover have "csr_phase request = Phase_editing \<longrightarrow> (\<exists>c \<in> set adm. required_current_exact c)"
    using editing required by (auto simp: required_current_exact_def)
  ultimately show ?thesis
    unfolding mset_eq_setD [OF same] using required by (intro conjI) assumption+
qed

text \<open>
  The decisions are complete.  There is exactly one for every candidate, in the order of their
  identities, and the content of the constructed context is exactly what was admitted.
\<close>

theorem selection_decides_every_candidate:
  assumes "permuting_sort sorting" and "select_and_build sorting request = Inr result"
    and "gather_candidates request = Inr cands"
  shows "sorted_wrt (<) (map sdr_entry_id (csl_decisions result)) \<and>
    mset (map sdr_entry_id (csl_decisions result)) = mset (map entry_of cands) \<and>
    ce_entry_id ` {e \<in> set (cc_entries (csl_context result)). ce_kind e \<noteq> Entry_instruction} =
      entry_of ` set (admitted_candidates result cands)"
proof (rule selection_result [OF assms])
  fix adm f
  assume same: "mset (admitted_candidates result cands) = mset adm"
    and built: "build_context \<lparr>cbi_capacity = csr_capacity request, cbi_instructions = csr_instructions request,
       cbi_content = map cs_content adm\<rparr> = Inr (csl_context result)"
    and sorted: "sorted_wrt (<) (map sdr_entry_id (csl_decisions result))"
    and decided: "mset (csl_decisions result) = image_mset (\<lambda>c. make_record c (f c)) (mset cands)"
  have "mset (map sdr_entry_id (csl_decisions result)) = mset (map entry_of cands)"
    by (simp add: decided multiset.map_comp o_def make_record_def)
  moreover have "ce_entry_id ` {e \<in> set (cc_entries (csl_context result)). ce_kind e \<noteq> Entry_instruction} =
      cci_entry_id ` set (map cs_content adm)"
    using built_content [OF built] by simp
  moreover have "set (admitted_candidates result cands) = set adm" using mset_eq_setD [OF same] .
  ultimately show ?thesis using sorted by (simp add: image_image)
qed

text \<open>
  Outside reviews the ranking is unambiguous.  The comparator of the candidates is a strict order
  that distinguishes candidates with different identities, so a list of them has exactly one sorted
  arrangement, and the sort computes it.
\<close>

theorem candidate_ranking_unique:
  assumes "phase \<noteq> Phase_review" and "phase \<noteq> Phase_unknown" and "distinct (map entry_of cands)"
    and "mset xs = mset cands"
  shows "sorted_wrt (candidate_before phase) xs \<longleftrightarrow> xs = sort_by (candidate_before phase) cands"
proof -
  have keys: "distinct (map (candidate_key phase) cands)"
    using assms(3) unfolding distinct_map by (auto simp: inj_on_def candidate_key_def)
  show ?thesis
    using keyed_order.sort_by_unique [OF candidate_order [OF assms(1,2)] keys assms(4)]
      keyed_order.sorted_sort_by [OF candidate_order [OF assms(1,2)] keys] by auto
qed

section \<open>An ambiguous ranking in reviews\<close>

lemma cycle_no_weak_order:
  assumes "before a b" "before b c" "before c a" and "{a, b, c} \<subseteq> A"
  shows "\<not> strict_weak_order_on A before"
proof
  assume order: "strict_weak_order_on A before"
  have "before a c" using weak_order_trans [OF order, of a b c] assms by simp
  then show False using weak_order_asym [OF order, of a c] assms(3,4) by simp
qed

lemma cycle_unsorted:
  assumes "before a b" "before b c" "before c a" and "mset xs = {#a, b, c#}"
  shows "\<not> sorted_wrt (\<lambda>x y. \<not> before y x) xs"
proof
  assume sorted: "sorted_wrt (\<lambda>x y. \<not> before y x) xs"
  obtain u us where xs: "xs = u # us" using assms(4) by (cases xs) auto
  have first: "\<not> before y u" if "y \<in> set us" for y using sorted that by (simp add: xs)
  have rest: "mset us = {#a, b, c#} - {#u#}" and "u \<in># {#a, b, c#}"
    using arg_cong [OF assms(4), of "\<lambda>m. m - {#u#}"] assms(4) by (simp_all add: xs flip: assms(4))
  then consider "u = a" "c \<in># mset us" | "u = b" "a \<in># mset us" | "u = c" "b \<in># mset us"
    by (auto simp: rest)
  then show False using first assms(1-3) by cases auto
qed

definition sample_candidate :: "string \<Rightarrow> ContextBudgetClass \<Rightarrow> u64 \<Rightarrow> CandidateState" where
  "sample_candidate entry budget order =
     \<lparr>cs_content = \<lparr>cci_entry_id = Id entry, cci_kind = Content_conversation,
        cci_message = sample_message entry Role_user, cci_provenance = sample_context_provenance,
        cci_order = order, cci_estimated_tokens = 10\<rparr>,
      cs_budget_class = budget, cs_representation = Rep_direct, cs_freshness = Fresh_current, cs_required = False,
      cs_relevance_rank = 0, cs_alternative_group = None, cs_evidence_id = None, cs_reference = None\<rparr>"

text \<open>
  C36: in reviews the comparator is no order.  Conversation and attachments have one rank there, but two
  conversation entries are compared with the later one first and all other pairs with the earlier one
  first.  Whenever an attachment stands between two conversation entries that agree with it in all the
  earlier criteria, the three precede each other in a circle: no arrangement of them is sorted, and
  the comparator is no strict weak order on any candidates that include them.
\<close>

theorem review_ranking_is_cyclic:
  assumes "cs_budget_class a = Class_conversation" "cs_budget_class b = Class_conversation"
    "cs_budget_class c = Class_attachment"
    and "cs_required a = cs_required c" "cs_required b = cs_required c"
    and "evidence_kind_rank (cs_reference a) Phase_review = evidence_kind_rank (cs_reference c) Phase_review"
      "evidence_kind_rank (cs_reference b) Phase_review = evidence_kind_rank (cs_reference c) Phase_review"
    and "cs_relevance_rank a = cs_relevance_rank c" "cs_relevance_rank b = cs_relevance_rank c"
    and "representation_rank (cs_representation a) Phase_review = representation_rank (cs_representation c) Phase_review"
      "representation_rank (cs_representation b) Phase_review = representation_rank (cs_representation c) Phase_review"
    and "cci_estimated_tokens (cs_content a) = cci_estimated_tokens (cs_content c)"
      "cci_estimated_tokens (cs_content b) = cci_estimated_tokens (cs_content c)"
    and "cci_order (cs_content b) < cci_order (cs_content c)" "cci_order (cs_content c) < cci_order (cs_content a)"
  shows "candidate_before Phase_review a b \<and> candidate_before Phase_review b c \<and> candidate_before Phase_review c a \<and>
    (mset xs = {#a, b, c#} \<longrightarrow> \<not> sorted_wrt (\<lambda>x y. \<not> candidate_before Phase_review y x) xs) \<and>
    ({a, b, c} \<subseteq> A \<longrightarrow> \<not> strict_weak_order_on A (candidate_before Phase_review))"
proof -
  have rank: "class_rank Class_conversation Phase_review = class_rank Class_attachment Phase_review"
    by (simp add: class_rank_def)
  have cycle: "candidate_before Phase_review a b" "candidate_before Phase_review b c" "candidate_before Phase_review c a"
    using assms rank by (auto simp: candidate_before_def)
  moreover have "\<not> sorted_wrt (\<lambda>x y. \<not> candidate_before Phase_review y x) xs" if "mset xs = {#a, b, c#}"
    by (rule cycle_unsorted [OF cycle that])
  moreover have "\<not> strict_weak_order_on A (candidate_before Phase_review)" if "{a, b, c} \<subseteq> A"
    using cycle that by (rule cycle_no_weak_order)
  ultimately show ?thesis by blast
qed

theorem review_ranking_is_cyclic_witness:
  "\<not> strict_weak_order_on (set [sample_candidate ''a'' Class_conversation 3, sample_candidate ''b'' Class_conversation 1,
      sample_candidate ''c'' Class_attachment 2]) (candidate_before Phase_review)"
  using review_ranking_is_cyclic [of "sample_candidate ''a'' Class_conversation 3" "sample_candidate ''b'' Class_conversation 1"
      "sample_candidate ''c'' Class_attachment 2"] by (simp add: sample_candidate_def)

section \<open>An editing context\<close>

definition sample_choice :: "string \<Rightarrow> u64 \<Rightarrow> ContextSelectionCandidate" where
  "sample_choice entry rank =
     \<lparr>csc_content = cs_content (sample_candidate entry Class_conversation 2), csc_budget_class = Class_conversation,
      csc_representation = Rep_direct, csc_freshness = Fresh_current, csc_required = False,
      csc_relevance_rank = rank, csc_alternative_group = Some ''g''\<rparr>"

definition sample_binding :: RepositoryEvidenceSelection where
  "sample_binding = \<lparr>rsel_evidence_id = Id ''e'', rsel_entry_id = Id ''source'', rsel_message_id = Id ''m'',
     rsel_source_id = Id ''s'', rsel_budget_class = Class_repository_evidence, rsel_representation = Rep_exact,
     rsel_required = True, rsel_relevance_rank = 0, rsel_order = 1, rsel_alternative_group = None\<rparr>"

definition sample_request :: ContextSelectionRequest where
  "sample_request = \<lparr>csr_phase = Phase_editing,
     csr_capacity = \<lparr>context_window_tokens = 100, reserved_output_tokens = 20, reserved_input_tokens = 5\<rparr>,
     csr_instructions = [sample_instruction ''i'' Layer_application_runtime Op_add None 1],
     csr_candidates = [sample_choice ''x'' 2, sample_choice ''y'' 1],
     csr_parcels = [\<lparr>cps_parcel = sample_parcel, cps_items = [sample_binding]\<rparr>],
     csr_budgets = \<lparr>bud_conversation_tokens = Some 15, bud_summary_tokens = None, bud_tool_result_tokens = None,
       bud_repository_evidence_tokens = None, bud_memory_tokens = None, bud_attachment_tokens = None\<rparr>,
     csr_parcel_limits = sample_parcel_limits,
     csr_selection_limits = \<lparr>sl_maximum_candidates = 8, sl_maximum_parcels = 2, sl_maximum_alternative_group_bytes = 16\<rparr>\<rparr>"

definition sample_candidates :: "CandidateState list" where
  "sample_candidates = [candidate_of (sample_choice ''x'' 2), candidate_of (sample_choice ''y'' 1),
     evidence_candidate sample_snapshot sample_binding sample_item]"

lemma sample_gathered: "gather_candidates sample_request = Inr sample_candidates"
  using sample_parcel_validated
  by (simp add: gather_candidates_def gather_parcel_def gather_item_def check_binding_def sample_request_def
      sample_candidates_def Let_def sample_parcel_def sample_binding_def sample_item_def)

lemma sample_selected: "\<exists>result. select_and_build sort_by sample_request = Inr result"
proof -
  have "case build_context \<lparr>cbi_capacity = csr_capacity sample_request,
      cbi_instructions = csr_instructions sample_request, cbi_content = []\<rparr> of
    Inl _ \<Rightarrow> False | Inr mandatory \<Rightarrow> cc_estimated_input_tokens mandatory = 15"
    by code_simp
  then obtain mandatory where "build_context \<lparr>cbi_capacity = csr_capacity sample_request,
      cbi_instructions = csr_instructions sample_request, cbi_content = []\<rparr> = Inr mandatory"
    "cc_estimated_input_tokens mandatory = 15"
    by (auto split: sum.splits)
  moreover have "case select_candidates sort_by sample_request 15 sample_candidates of
      Inl _ \<Rightarrow> False
    | Inr s \<Rightarrow> ok (build_context \<lparr>cbi_capacity = csr_capacity sample_request,
        cbi_instructions = csr_instructions sample_request, cbi_content = se_selected s\<rparr>)"
    by code_simp
  then obtain s built where "select_candidates sort_by sample_request 15 sample_candidates = Inr s"
    "build_context \<lparr>cbi_capacity = csr_capacity sample_request,
        cbi_instructions = csr_instructions sample_request, cbi_content = se_selected s\<rparr> = Inr built"
    by (auto simp: ok_iff split: sum.splits)
  ultimately show ?thesis
    using sample_gathered by (simp add: select_and_build_def Let_def)
      (simp add: sample_request_def valid_phase_def)
qed

theorem selection_within_budgets_witness:
  "\<exists>result. select_and_build sort_by sample_request = Inr result \<and>
    unat (usage_value (csl_usage result) Class_conversation) =
      class_tokens Class_conversation (admitted_candidates result sample_candidates) \<and>
    usage_value (csl_usage result) Class_conversation \<le> 15"
proof -
  obtain result where result: "select_and_build sort_by sample_request = Inr result" using sample_selected by blast
  have "budget_limit (csr_budgets sample_request) Class_conversation = Some 15" by (simp add: sample_request_def)
  then show ?thesis
    using selection_within_budgets [OF insertion_sort.permuting_sort_axioms result sample_gathered, of Class_conversation] result by blast
qed

theorem selection_admits_required_witness:
  "\<exists>result. select_and_build sort_by sample_request = Inr result \<and>
    (\<exists>c \<in> set (admitted_candidates result sample_candidates). required_current_exact c)"
proof -
  obtain result where result: "select_and_build sort_by sample_request = Inr result" using sample_selected by blast
  have "csr_phase sample_request = Phase_editing" by (simp add: sample_request_def)
  then show ?thesis using selection_admits_required [OF insertion_sort.standard_sort_axioms result sample_gathered] result by blast
qed

theorem selection_decides_every_candidate_witness:
  "\<exists>result. select_and_build sort_by sample_request = Inr result \<and>
    sorted_wrt (<) (map sdr_entry_id (csl_decisions result)) \<and>
    mset (map sdr_entry_id (csl_decisions result)) = mset (map entry_of sample_candidates)"
  using sample_selected selection_decides_every_candidate [OF insertion_sort.permuting_sort_axioms _ sample_gathered] by blast

theorem candidate_ranking_unique_witness:
  "sorted_wrt (candidate_before Phase_editing) (sort_by (candidate_before Phase_editing) sample_candidates)"
proof -
  have "distinct (map entry_of sample_candidates)"
    by (simp add: sample_candidates_def candidate_of_def sample_choice_def sample_candidate_def
        evidence_candidate_def sample_binding_def)
  from candidate_ranking_unique [OF _ _ this mset_sort_by, of Phase_editing] show ?thesis by simp
qed

end
