(* ===== verification/Presentation.thy ===== *)
theory Presentation
  imports Text
begin

text \<open>
  Text on its way to the terminal: \<^verbatim>\<open>src/lib/presentation_text.cpp\<close> and
  \<^verbatim>\<open>include/aiforge/presentation/text.hpp\<close>.  Model output and other untrusted text is stripped of
  escape sequences and control characters before it is shown, and a small part of Markdown is turned
  into styled spans.  A position in a text is represented by the rest of the text from there on.
  The sanitizer is shown to produce exactly the texts a terminal can be trusted with, and the
  tokenizer to keep every span inside them.
\<close>

unbundle bit_operations_syntax

section \<open>The decoder\<close>

type_synonym Decoded = Utf8Codepoint

text \<open>The loop over the continuation bytes; the second byte is restricted for four lead bytes.\<close>

fun decode_tail :: "nat \<Rightarrow> nat \<Rightarrow> nat \<Rightarrow> string \<Rightarrow> nat option" where
  "decode_tail first offset codepoint [] = Some codepoint"
| "decode_tail first offset codepoint (c # cs) =
     (let next = byte c in
      if next AND 0xc0 \<noteq> 0x80 then None
      else if offset = 1 \<and>
              ((first = 0xe0 \<and> next < 0xa0) \<or> (first = 0xed \<and> next > 0x9f) \<or>
               (first = 0xf0 \<and> next < 0x90) \<or> (first = 0xf4 \<and> next > 0x8f)) then None
      else decode_tail first (offset + 1) (push_bit 6 codepoint OR (next AND 0x3f)) cs)"

definition decode :: "string \<Rightarrow> Decoded option" where
  "decode rest =
     (let first = byte (hd rest) in
      if first \<le> 0x7f then Some \<lparr>cp_value = first, cp_bytes = 1\<rparr>
      else case utf8_lead first of None \<Rightarrow> None
      | Some lead \<Rightarrow>
          if cp_bytes lead > length rest then None
          else map_option (\<lambda>codepoint. lead\<lparr>cp_value := codepoint\<rparr>)
                 (decode_tail first 1 (cp_value lead) (take (cp_bytes lead - 1) (tl rest))))"

section \<open>Escape sequences\<close>

fun consume_csi :: "string \<Rightarrow> string" where
  "consume_csi [] = []"
| "consume_csi (c # cs) = (if 0x40 \<le> byte c \<and> byte c \<le> 0x7e then cs else consume_csi cs)"

fun consume_osc :: "string \<Rightarrow> string" where
  "consume_osc [] = []"
| "consume_osc (c # cs) =
     (if c = CHR 0x07 then cs
      else if c = CHR 0x1B \<and> cs \<noteq> [] \<and> hd cs = CHR 0x5C then tl cs
      else consume_osc cs)"

text \<open>The text after the escape sequence that its first character opens.\<close>

definition consume_escape :: "string \<Rightarrow> string" where
  "consume_escape rest =
     (case tl rest of [] \<Rightarrow> []
      | c # cs \<Rightarrow>
          if c = CHR ''['' then consume_csi cs
          else if c = CHR '']'' then consume_osc cs
          else cs)"

lemma length_consume_csi: "length (consume_csi cs) \<le> length cs"
  by (induction cs) auto

lemma length_consume_osc: "length (consume_osc cs) \<le> length cs"
  by (induction cs) auto

lemma length_consume_escape: "length (consume_escape (c # cs)) \<le> length cs"
  using length_consume_csi [of "tl cs"] length_consume_osc [of "tl cs"]
  by (auto simp: consume_escape_def split: list.split)

lemma decode_bytes: "decode rest = Some d \<Longrightarrow> 1 \<le> cp_bytes d \<and> cp_bytes d \<le> 4"
  by (auto simp: decode_def utf8_lead_def Let_def split: if_splits option.splits)

section \<open>The sanitizer\<close>

definition replacement :: string where
  "replacement = [char_of (0xef :: nat), char_of (0xbf :: nat), char_of (0xbd :: nat)]"

definition printable_byte :: "nat \<Rightarrow> bool" where
  "printable_byte b \<longleftrightarrow> (b = 10 \<or> b = 9 \<or> b \<ge> 0x20) \<and> b \<noteq> 0x7f"

function sanitize_from :: "string \<Rightarrow> string" where
  "sanitize_from [] = []"
| "sanitize_from (c # cs) =
     (if byte c = 0x1b then sanitize_from (consume_escape (c # cs))
      else if byte c = 13 then
        CHR 0x0A # sanitize_from (if cs \<noteq> [] \<and> hd cs = CHR 0x0A then tl cs else cs)
      else if byte c \<le> 0x7f then (if printable_byte (byte c) then [c] else []) @ sanitize_from cs
      else case decode (c # cs) of
        None \<Rightarrow> replacement @ sanitize_from cs
      | Some decoded \<Rightarrow>
          (if cp_value decoded < 0x80 \<or> (cp_value decoded \<ge> 0x80 \<and> cp_value decoded \<le> 0x9f) then []
           else take (cp_bytes decoded) (c # cs)) @
          sanitize_from (drop (cp_bytes decoded) (c # cs)))"
  by pat_completeness auto
termination
proof (relation "measure length", goal_cases)
  case (2 c cs)
  then show ?case using length_consume_escape [of c cs] by simp
qed (auto dest: decode_bytes)

datatype TextErrorCode = Text_input_too_large | Text_internal_failure

definition sanitize_untrusted_text :: "string \<Rightarrow> TextErrorCode + string" where
  "sanitize_untrusted_text content = Inr (sanitize_from content)"

section \<open>Styled text\<close>

type_synonym TextSemantic = u8

definition Semantic_none :: TextSemantic where "Semantic_none = 0"
definition Semantic_strong :: TextSemantic where "Semantic_strong = push_bit 0 1"
definition Semantic_emphasis :: TextSemantic where "Semantic_emphasis = push_bit 1 1"
definition Semantic_code :: TextSemantic where "Semantic_code = push_bit 2 1"
definition Semantic_heading :: TextSemantic where "Semantic_heading = push_bit 3 1"
definition Semantic_list_marker :: TextSemantic where "Semantic_list_marker = push_bit 4 1"

definition has_semantic :: "TextSemantic \<Rightarrow> TextSemantic \<Rightarrow> bool" where
  "has_semantic v flag \<longleftrightarrow> v AND flag \<noteq> 0"

record StyledSpan =
  span_text :: string
  span_semantic :: TextSemantic

type_synonym StyledLine = "StyledSpan list"
type_synonym StyledDocument = "StyledLine list"

definition append_span :: "StyledLine \<Rightarrow> string \<Rightarrow> TextSemantic \<Rightarrow> StyledLine" where
  "append_span line content semantic =
     (if content = [] then line
      else if line \<noteq> [] \<and> span_semantic (last line) = semantic then
        butlast line @ [(last line)\<lparr>span_text := span_text (last line) @ content\<rparr>]
      else line @ [\<lparr>span_text = content, span_semantic = semantic\<rparr>])"

function marker_end :: "string \<Rightarrow> char \<Rightarrow> nat \<Rightarrow> nat option" where
  "marker_end rest marker n =
     (case text_find (replicate n marker) rest of None \<Rightarrow> None
      | Some found \<Rightarrow>
          if found + n \<le> length rest then Some found
          else map_option (\<lambda>k. found + 1 + k) (marker_end (drop (found + 1) rest) marker n))"
  by pat_completeness auto
termination
  by (relation "measure (\<lambda>(rest, marker, n). length rest)") (auto dest: text_findD)

declare marker_end.simps [simp del]

text \<open>
  The three kinds of marked text: what is between the markers and what follows them, when the
  markers close and there is something between them.
\<close>

definition marked_text :: "nat option \<Rightarrow> nat \<Rightarrow> string \<Rightarrow> (string \<times> string) option" where
  "marked_text close n rest =
     (case close of None \<Rightarrow> None
      | Some k \<Rightarrow> if k > 0 then Some (take k rest, drop (k + n) rest) else None)"

definition code_span :: "string \<Rightarrow> (string \<times> string) option" where
  "code_span rest =
     (if hd rest = CHR 0x60 then
        (let ticks = 1 + length (takeWhile (\<lambda>c. c = CHR 0x60) (tl rest)) in
         marked_text (marker_end (drop ticks rest) (CHR 0x60) ticks) ticks (drop ticks rest))
      else None)"

definition emphasis_marker :: "char \<Rightarrow> bool" where
  "emphasis_marker c \<longleftrightarrow> c = CHR ''*'' \<or> c = CHR ''_''"

definition strong_span :: "string \<Rightarrow> (string \<times> string) option" where
  "strong_span rest =
     (if emphasis_marker (hd rest) \<and> 1 < length rest \<and> rest ! 1 = hd rest then
        marked_text (marker_end (drop 2 rest) (hd rest) 2) 2 (drop 2 rest)
      else None)"

definition emphasis_span :: "string \<Rightarrow> (string \<times> string) option" where
  "emphasis_span rest =
     (if emphasis_marker (hd rest) then marked_text (text_find [hd rest] (tl rest)) 1 (tl rest) else None)"

text \<open>The first of the three that matches, with the semantic it adds.\<close>

definition inline_span :: "string \<Rightarrow> (string \<times> string \<times> TextSemantic) option" where
  "inline_span rest =
     (case code_span rest of Some (content, after) \<Rightarrow> Some (content, after, Semantic_code)
      | None \<Rightarrow>
        (case strong_span rest of Some (content, after) \<Rightarrow> Some (content, after, Semantic_strong)
         | None \<Rightarrow>
           (case emphasis_span rest of Some (content, after) \<Rightarrow> Some (content, after, Semantic_emphasis)
            | None \<Rightarrow> None)))"

lemma marked_textD:
  assumes "marked_text close n rest = Some (content, after)"
    and "\<And>k. close = Some k \<Longrightarrow> rest = take k rest @ needle @ drop (k + n) rest \<and> k + n \<le> length rest"
  shows "rest = content @ needle @ after \<and> content \<noteq> []"
  using assms by (auto simp: marked_text_def split: option.splits if_splits)

lemma marker_endD:
  assumes "marker_end rest marker n = Some k"
  shows "rest = take k rest @ replicate n marker @ drop (k + n) rest \<and> k + n \<le> length rest"
  using assms text_findD [of "replicate n marker" rest]
  by (subst (asm) marker_end.simps) (auto split: option.splits if_splits)


definition inline_marker :: "char \<Rightarrow> bool" where
  "inline_marker c \<longleftrightarrow> c = CHR 0x60 \<or> emphasis_marker c"

lemma code_spanD:
  assumes "code_span (c # cs) = Some (content, after)"
  shows "inline_marker c \<and> content \<noteq> [] \<and>
    (\<exists>n. c # cs = replicate (Suc n) c @ content @ replicate (Suc n) c @ after)"
proof -
  let ?n = "length (takeWhile (\<lambda>c. c = CHR 0x60) cs)"
  have c: "c = CHR 0x60"
    and m: "marked_text (marker_end (drop ?n cs) c (Suc ?n)) (Suc ?n) (drop ?n cs) = Some (content, after)"
    using assms by (auto simp: code_span_def Let_def split: if_splits)
  from marked_textD [OF m marker_endD]
  have rest: "drop ?n cs = content @ replicate (Suc ?n) c @ after \<and> content \<noteq> []" by simp
  have "takeWhile (\<lambda>c. c = CHR 0x60) cs = replicate ?n c"
    unfolding c by (induction cs) auto
  then have "take ?n cs = replicate ?n c" by (metis takeWhile_eq_take)
  then have "cs = replicate ?n c @ drop ?n cs" by (metis append_take_drop_id)
  with rest have "c # cs = replicate (Suc ?n) c @ content @ replicate (Suc ?n) c @ after" by simp
  with rest c show ?thesis unfolding inline_marker_def by blast
qed

lemma strong_spanD:
  assumes "strong_span (c # cs) = Some (content, after)"
  shows "inline_marker c \<and> content \<noteq> [] \<and>
    (\<exists>n. c # cs = replicate (Suc n) c @ content @ replicate (Suc n) c @ after)"
proof -
  obtain ds where cs: "cs = c # ds" and c: "emphasis_marker c"
    and m: "marked_text (marker_end ds c 2) 2 ds = Some (content, after)"
    using assms by (cases cs) (auto simp: strong_span_def split: if_splits)
  from marked_textD [OF m marker_endD] have "ds = content @ replicate 2 c @ after \<and> content \<noteq> []" by simp
  then have "c # cs = replicate (Suc 1) c @ content @ replicate (Suc 1) c @ after \<and> content \<noteq> []"
    using cs by (simp add: numeral_2_eq_2)
  with c show ?thesis unfolding inline_marker_def by blast
qed

lemma emphasis_spanD:
  assumes "emphasis_span (c # cs) = Some (content, after)"
  shows "inline_marker c \<and> content \<noteq> [] \<and>
    (\<exists>n. c # cs = replicate (Suc n) c @ content @ replicate (Suc n) c @ after)"
proof -
  have c: "emphasis_marker c" and m: "marked_text (text_find [c] cs) 1 cs = Some (content, after)"
    using assms by (auto simp: emphasis_span_def split: if_splits)
  have "\<And>k. text_find [c] cs = Some k \<Longrightarrow> cs = take k cs @ [c] @ drop (k + 1) cs \<and> k + 1 \<le> length cs"
    using text_findD [of "[c]" cs] by simp
  from marked_textD [OF m this] have "cs = content @ [c] @ after \<and> content \<noteq> []" by simp
  then have "c # cs = replicate (Suc 0) c @ content @ replicate (Suc 0) c @ after \<and> content \<noteq> []"
    by simp
  with c show ?thesis unfolding inline_marker_def by blast
qed

lemma inline_spanD:
  assumes "inline_span (c # cs) = Some (content, after, semantic)"
  shows "inline_marker c \<and> content \<noteq> [] \<and>
    (\<exists>n. c # cs = replicate (Suc n) c @ content @ replicate (Suc n) c @ after)"
  using assms code_spanD [of c cs content after] strong_spanD [of c cs content after]
    emphasis_spanD [of c cs content after]
  by (auto simp: inline_span_def split: option.splits)

lemma inline_span_shorter:
  assumes "inline_span (c # cs) = Some (content, after, semantic)"
  shows "length after < Suc (length cs)"
proof -
  obtain n where "c # cs = replicate (Suc n) c @ content @ replicate (Suc n) c @ after"
    using inline_spanD [OF assms] by blast
  then have "length (c # cs) = length (replicate (Suc n) c @ content @ replicate (Suc n) c @ after)"
    by (rule arg_cong)
  then show ?thesis by simp
qed

text \<open>The loop of \<^verbatim>\<open>parse_inline\<close>: \<open>plain\<close> is the text from \<^verbatim>\<open>plain_start\<close> to the position.\<close>

function parse_inline_from :: "TextSemantic \<Rightarrow> string \<Rightarrow> string \<Rightarrow> StyledLine \<Rightarrow> StyledLine" where
  "parse_inline_from base plain [] output = append_span output plain base"
| "parse_inline_from base plain (c # cs) output =
     (case inline_span (c # cs) of
        Some (content, after, semantic) \<Rightarrow>
          parse_inline_from base [] after
            (append_span (append_span output plain base) content (base OR semantic))
      | None \<Rightarrow> parse_inline_from base (plain @ [c]) cs output)"
  by pat_completeness auto
termination
  by (relation "measure (\<lambda>(base, plain, rest, output). length rest)") (auto dest: inline_span_shorter)

definition parse_inline :: "string \<Rightarrow> StyledLine \<Rightarrow> TextSemantic \<Rightarrow> StyledLine" where
  "parse_inline line output base = parse_inline_from base [] line output"

section \<open>Lines and blocks\<close>

definition fence :: "string \<Rightarrow> bool" where
  "fence line \<longleftrightarrow> take 3 line = replicate 3 (CHR 0x60)"

function split_lines :: "string \<Rightarrow> string list" where
  "split_lines clean =
     (case text_find [CHR 0x0A] clean of
        None \<Rightarrow> [clean]
      | Some k \<Rightarrow>
          take k clean #
          (if drop (k + 1) clean = [] then [[]] else split_lines (drop (k + 1) clean)))"
  by pat_completeness auto
termination
  by (relation "measure length") auto

declare split_lines.simps [simp del]

definition bullet :: string where
  "bullet = [char_of (0xe2 :: nat), char_of (0x80 :: nat), char_of (0xa2 :: nat), CHR '' '']"

definition render_line :: "string \<Rightarrow> StyledLine" where
  "render_line line =
     (let heading_count = length (takeWhile (\<lambda>c. c = CHR ''#'') (take 6 line));
          digits = length (takeWhile ascii_digit line) in
      if heading_count > 0 \<and> heading_count < length line \<and> line ! heading_count = CHR '' '' then
        parse_inline (drop (heading_count + 1) line) [] (Semantic_heading OR Semantic_strong)
      else if length line \<ge> 2 \<and> (line ! 0 = CHR ''-'' \<or> line ! 0 = CHR ''*'' \<or> line ! 0 = CHR ''+'') \<and>
              line ! 1 = CHR '' '' then
        parse_inline (drop 2 line) (append_span [] bullet Semantic_list_marker) Semantic_none
      else if digits > 0 \<and> digits + 1 < length line \<and> line ! digits = CHR ''.'' \<and>
              line ! (digits + 1) = CHR '' '' then
        parse_inline (drop (digits + 2) line)
          (append_span [] (take (digits + 2) line) Semantic_list_marker) Semantic_none
      else parse_inline line [] Semantic_none)"

text \<open>The lines of a closed fence become code; a fence that is never closed is an ordinary line.\<close>

definition render_code :: "string list \<Rightarrow> StyledDocument" where
  "render_code code =
     map (\<lambda>line. append_span [] line Semantic_code) code @ (if code = [] then [[]] else [])"

function render_lines :: "string list \<Rightarrow> StyledDocument" where
  "render_lines [] = []"
| "render_lines (line # lines) =
     (let code = takeWhile (\<lambda>l. \<not> fence l) lines in
      if fence line \<and> length code < length lines then
        render_code code @ render_lines (drop (length code + 1) lines)
      else render_line line # render_lines lines)"
  by pat_completeness auto
termination
  by (relation "measure length") auto

definition tokenize_markdown_lite :: "string \<Rightarrow> nat \<Rightarrow> TextErrorCode + StyledDocument" where
  "tokenize_markdown_lite content maximum =
     fail_if (length content > maximum) Text_input_too_large
     (bind_result (sanitize_untrusted_text content) (\<lambda>clean. Inr (render_lines (split_lines clean))))"

fun flatten_from :: "StyledDocument \<Rightarrow> string" where
  "flatten_from [] = []"
| "flatten_from (line # lines) = CHR 0x0A # concat (map span_text line) @ flatten_from lines"

definition flatten :: "StyledDocument \<Rightarrow> TextErrorCode + string" where
  "flatten document =
     Inr (case document of [] \<Rightarrow> [] | line # lines \<Rightarrow> concat (map span_text line) @ flatten_from lines)"


section \<open>Both decoders agree\<close>

lemma decode_tail_Cons:
  "decode_tail first offset v (c # cs) =
     (if byte c div 64 \<noteq> 2 then None
      else if offset = 1 \<and>
              ((first = 0xe0 \<and> byte c < 0xa0) \<or> (first = 0xed \<and> byte c > 0x9f) \<or>
               (first = 0xf0 \<and> byte c < 0x90) \<or> (first = 0xf4 \<and> byte c > 0x8f)) then None
      else decode_tail first (offset + 1) (v * 64 + byte c mod 64) cs)"
  by (auto simp: Let_def continuation_byte byte_less_256 and_low_masks shift_or)

lemma utf8_continue_Cons_eq:
  "utf8_continue v (c # cs) =
     (if byte c div 64 \<noteq> 2 then None else utf8_continue (v * 64 + byte c mod 64) cs)"
  by (simp add: utf8_continue.simps(2) continuation_byte byte_less_256 and_low_masks shift_or)

declare decode_tail.simps(2) [simp del]

lemma decode_tail_later: "offset > 1 \<Longrightarrow> decode_tail first offset v cs = utf8_continue v cs"
  by (induction cs arbitrary: offset v) (auto simp: decode_tail_Cons utf8_continue_Cons_eq)

lemma continue_value:
  "utf8_continue v cs = Some w \<Longrightarrow> v * 64 ^ length cs \<le> w \<and> w < (v + 1) * 64 ^ length cs"
proof (induction cs arbitrary: v)
  case (Cons c cs)
  then have "utf8_continue (v * 64 + byte c mod 64) cs = Some w"
    by (auto simp: utf8_continue_Cons_eq split: if_splits)
  from Cons.IH [OF this]
  have w: "(v * 64 + byte c mod 64) * 64 ^ length cs \<le> w"
    "w < (v * 64 + byte c mod 64 + 1) * 64 ^ length cs" by auto
  have "v * 64 * 64 ^ length cs \<le> (v * 64 + byte c mod 64) * 64 ^ length cs"
    by (intro mult_right_mono) auto
  from this w(1) have low: "v * 64 * 64 ^ length cs \<le> w" by (rule order_trans)
  have "byte c mod 64 + 1 \<le> 64" by (simp add: Suc_leI)
  then have "(v * 64 + byte c mod 64 + 1) * 64 ^ length cs \<le> (v + 1) * 64 * 64 ^ length cs"
    by (intro mult_right_mono) auto
  with w(2) have "w < (v + 1) * 64 * 64 ^ length cs" by (rule less_le_trans)
  with low show ?case by (simp add: algebra_simps)
qed simp

lemma decode_eq: "decode (c # cs) = decode_utf8_codepoint (c # cs) 0"
proof (cases "byte c \<le> 0x7f \<or> utf8_lead (byte c) = None")
  case True
  then show ?thesis by (auto simp: decode_def decode_utf8_codepoint_def Let_def)
next
  case False
  then obtain lead where lead: "utf8_lead (byte c) = Some lead" and c: "\<not> byte c \<le> 0x7f" by auto
  let ?n = "cp_bytes lead" and ?v = "cp_value lead"
  show ?thesis
  proof (cases "?n > Suc (length cs)")
    case True
    with lead c show ?thesis by (simp add: decode_def decode_utf8_codepoint_def)
  next
    case False
    from utf8_leadD [OF lead byte_less_256] have "2 \<le> ?n" by auto
    with False obtain d ds where cs: "cs = d # ds" by (cases cs) auto
    let ?w = "?v * 64 + byte d mod 64" and ?ds = "take (?n - 2) ds"
    have take: "take (?n - 1) cs = d # ?ds" using \<open>2 \<le> ?n\<close> cs
      by (simp add: take_Cons' diff_diff_left numeral_2_eq_2)
    have len: "length ?ds = ?n - 2" using False cs by simp
    have tail: "decode_tail (byte c) 1 ?v (d # ?ds) =
        (if byte d div 64 \<noteq> 2 \<or> (byte c = 0xe0 \<and> byte d < 0xa0) \<or> (byte c = 0xed \<and> byte d > 0x9f) \<or>
            (byte c = 0xf0 \<and> byte d < 0x90) \<or> (byte c = 0xf4 \<and> byte d > 0x8f) then None
         else utf8_continue ?w ?ds)"
      by (simp add: decode_tail_Cons decode_tail_later)
    have body: "utf8_continue ?v (d # ?ds) = (if byte d div 64 \<noteq> 2 then None else utf8_continue ?w ?ds)"
      by (rule utf8_continue_Cons_eq)
    have "((?n = 3 \<and> x < 0x800) \<or> (?n = 4 \<and> x < 0x10000) \<or> (x \<ge> 0xd800 \<and> x \<le> 0xdfff) \<or> x > 0x10ffff)
        \<longleftrightarrow> ((byte c = 0xe0 \<and> byte d < 0xa0) \<or> (byte c = 0xed \<and> byte d > 0x9f) \<or>
            (byte c = 0xf0 \<and> byte d < 0x90) \<or> (byte c = 0xf4 \<and> byte d > 0x8f))"
      if d: "byte d div 64 = 2" and x: "utf8_continue ?w ?ds = Some x" for x
    proof -
      obtain b where b: "b < 64" "byte d mod 64 = b" "d = char_of (0x80 + b)"
        using continuation_char [OF d] by metis
      have bd: "byte d = 0x80 + b" using b byte_char_of [of "0x80 + b"] by simp
      have bounds: "?w * 64 ^ (?n - 2) \<le> x" "x < (?w + 1) * 64 ^ (?n - 2)"
        using continue_value [OF x] len by auto
      from utf8_leadD [OF lead byte_less_256] show ?thesis
      proof (elim disjE conjE exE)
        fix a assume "?n = 2" "byte c = 0xc0 + a" "2 \<le> a" "a < 32" "?v = a"
        with bounds b show ?thesis by auto
      next
        fix a assume "?n = 3" "byte c = 0xe0 + a" "a < 16" "?v = a"
        with bounds b show ?thesis unfolding bd
          by (cases a "13 :: nat" rule: linorder_cases) auto
      next
        fix a assume "?n = 4" "byte c = 0xf0 + a" "a < 5" "?v = a"
        with bounds b show ?thesis unfolding bd by auto
      qed
    qed
    then show ?thesis
      using lead c False take tail body \<open>2 \<le> ?n\<close>
      by (cases "utf8_continue ?w ?ds") (auto simp: decode_def decode_utf8_codepoint_def Let_def)
  qed
qed


section \<open>Text a terminal can be trusted with\<close>

text \<open>
  The specification: a sequence of UTF-8 encodings of Unicode scalar values, none of which is a
  control character other than a line feed or a tab.
\<close>

definition terminal_codepoint :: "nat \<Rightarrow> bool" where
  "terminal_codepoint cp \<longleftrightarrow> unicode_scalar cp \<and>
     (cp = 9 \<or> cp = 10 \<or> (0x20 \<le> cp \<and> cp < 0x7f) \<or> 0xa0 \<le> cp)"

definition terminal_text :: "string \<Rightarrow> bool" where
  "terminal_text content \<longleftrightarrow>
     (\<exists>cps. (\<forall>cp \<in> set cps. terminal_codepoint cp) \<and> content = concat (map utf8_encode cps))"

lemma terminal_text_Nil [simp]: "terminal_text []"
  by (auto simp: terminal_text_def intro: exI [of _ "[]"])

lemma terminal_text_append: "terminal_text xs \<Longrightarrow> terminal_text ys \<Longrightarrow> terminal_text (xs @ ys)"
  unfolding terminal_text_def by (metis Un_iff concat_append map_append set_append)

lemma terminal_text_encode: "terminal_codepoint cp \<Longrightarrow> terminal_text (utf8_encode cp)"
  unfolding terminal_text_def by (rule exI [of _ "[cp]"]) simp

lemma utf8_encode_ascii: "byte c < 0x80 \<Longrightarrow> utf8_encode (byte c) = [c]"
  by (simp add: utf8_encode_def)

lemma terminal_text_byte: "byte c < 0x80 \<Longrightarrow> terminal_codepoint (byte c) \<Longrightarrow> terminal_text [c]"
  using terminal_text_encode [of "byte c"] by (simp add: utf8_encode_ascii)

lemma terminal_text_ascii: "list_all (\<lambda>c. 0x20 \<le> byte c \<and> byte c < 0x7f) content \<Longrightarrow> terminal_text content"
proof (induction content)
  case (Cons c cs)
  then have "terminal_text [c]"
    by (intro terminal_text_byte) (auto simp: terminal_codepoint_def unicode_scalar_def)
  with Cons show ?case using terminal_text_append [of "[c]" cs] by simp
qed simp

lemma utf8_encode_high:
  assumes "0x80 \<le> cp" "unicode_scalar cp" "c \<in> set (utf8_encode cp)"
  shows "0x80 \<le> byte c"
proof -
  have cp: "cp \<le> 0x10ffff" using assms(2) by (auto simp: unicode_scalar_def)
  have "byte (char_of (0x80 + k)) = 0x80 + k" if "k < 64" for k using that by (intro byte_char_of) simp
  moreover have "byte (char_of (0xc0 + cp div 64)) = 0xc0 + cp div 64" if "cp < 0x800"
    using that by (intro byte_char_of) simp
  moreover have "byte (char_of (0xe0 + cp div 4096)) = 0xe0 + cp div 4096" if "cp < 0x10000"
    using that by (intro byte_char_of) simp
  moreover have "byte (char_of (0xf0 + cp div 262144)) = 0xf0 + cp div 262144"
    using cp by (intro byte_char_of) simp
  ultimately show ?thesis using assms(1,3) by (auto simp: utf8_encode_def split: if_splits)
qed

text \<open>An ASCII byte of encoded text is a character of its own, so encoded text can be cut there.\<close>

lemma encoded_split:
  assumes "concat (map utf8_encode cps) = xs @ c # ys" "byte c < 0x80"
    and "\<forall>cp \<in> set cps. terminal_codepoint cp"
  shows "terminal_text xs \<and> terminal_codepoint (byte c) \<and> terminal_text ys"
  using assms
proof (induction cps arbitrary: xs)
  case (Cons cp cps)
  have cp: "terminal_codepoint cp" "unicode_scalar cp" using Cons.prems(3) by (auto simp: terminal_codepoint_def)
  have cps: "terminal_text (concat (map utf8_encode cps))"
    unfolding terminal_text_def using Cons.prems(3) by auto
  from Cons.prems(1) have eq: "utf8_encode cp @ concat (map utf8_encode cps) = xs @ c # ys" by simp
  then obtain us where "(utf8_encode cp @ us = xs \<and> concat (map utf8_encode cps) = us @ c # ys) \<or>
      (utf8_encode cp = xs @ us \<and> us @ concat (map utf8_encode cps) = c # ys)"
    by (auto simp: append_eq_append_conv2)
  then show ?case
  proof (elim disjE conjE)
    assume us: "utf8_encode cp @ us = xs" "concat (map utf8_encode cps) = us @ c # ys"
    from Cons.IH [OF us(2) Cons.prems(2)] Cons.prems(3)
    have "terminal_text us \<and> terminal_codepoint (byte c) \<and> terminal_text ys" by simp
    with us(1) cp(1) show ?thesis using terminal_text_append terminal_text_encode by blast
  next
    assume us: "utf8_encode cp = xs @ us" "us @ concat (map utf8_encode cps) = c # ys"
    show ?thesis
    proof (cases us)
      case Nil
      then have "concat (map utf8_encode cps) = [] @ c # ys" using us(2) by simp
      from Cons.IH [OF this Cons.prems(2)] Cons.prems(3)
      have "terminal_codepoint (byte c) \<and> terminal_text ys" by simp
      with Nil us(1) cp(1) show ?thesis using terminal_text_encode [of cp] by simp
    next
      case (Cons u vs)
      with us have c: "u = c" "vs @ concat (map utf8_encode cps) = ys" "c \<in> set (utf8_encode cp)" by auto
      with utf8_encode_high [OF _ cp(2), of c] \<open>byte c < 0x80\<close> have "cp < 0x80" by force
      then have enc: "utf8_encode cp = [char_of cp]" "byte (char_of cp) = cp"
        by (simp_all add: utf8_encode_def byte_char_of)
      with c(3) have "byte c = cp" by simp
      moreover have "xs = []" "vs = []" using enc us(1) Cons by (cases xs; simp)+
      ultimately show ?thesis using c cp(1) cps by simp
    qed
  qed
qed simp

lemma terminal_text_split:
  assumes "terminal_text (xs @ c # ys)" "byte c < 0x80"
  shows "terminal_text xs \<and> terminal_codepoint (byte c) \<and> terminal_text ys"
proof -
  obtain cps where "\<forall>cp \<in> set cps. terminal_codepoint cp" "xs @ c # ys = concat (map utf8_encode cps)"
    using assms(1) unfolding terminal_text_def by (elim exE conjE) (rule that)
  then show ?thesis using encoded_split [of cps xs c ys] assms(2) by simp
qed

lemma terminal_text_marker:
  "terminal_text (xs @ replicate (Suc n) c @ ys) \<Longrightarrow> byte c < 0x80 \<Longrightarrow> terminal_text xs \<and> terminal_text ys"
proof (induction n arbitrary: xs)
  case 0
  then show ?case using terminal_text_split [of xs c ys] by simp
next
  case (Suc n)
  have "terminal_text (xs @ c # (replicate (Suc n) c @ ys))" using Suc.prems by simp
  from terminal_text_split [OF this Suc.prems(2)]
  have "terminal_text xs" "terminal_text ([] @ replicate (Suc n) c @ ys)" by auto
  with Suc.IH [OF this(2) Suc.prems(2)] show ?case by blast
qed


section \<open>The sanitizer produces exactly such text\<close>

lemma decode_scalar:
  assumes "decode (c # cs) = Some d"
  shows "unicode_scalar (cp_value d) \<and> take (cp_bytes d) (c # cs) = utf8_encode (cp_value d)"
  using decode_utf8_sound [of c cs d] assms by (simp add: decode_eq)

lemma replacement_safe: "terminal_text replacement"
  using terminal_text_encode [of "0xfffd"]
  by (simp add: replacement_def utf8_encode_def terminal_codepoint_def unicode_scalar_def)

lemma sanitize_from_safe: "terminal_text (sanitize_from content)"
proof (induction content rule: sanitize_from.induct)
  case (2 c cs)
  consider "byte c = 0x1b" | "byte c = 13" | "byte c \<noteq> 0x1b" "byte c \<noteq> 13" "byte c \<le> 0x7f" | "\<not> byte c \<le> 0x7f"
    by linarith
  then show ?case
  proof cases
    case 1
    with 2(1) show ?thesis by simp
  next
    case 2
    have "terminal_text [CHR 0x0A]"
      by (rule terminal_text_byte) (simp_all add: byte_def terminal_codepoint_def unicode_scalar_def)
    with "2.IH"(2) [OF _ 2] 2 show ?thesis using terminal_text_append [of "[CHR 0x0A]"] by simp
  next
    case 3
    have "terminal_text (if printable_byte (byte c) then [c] else [])"
      using 3 terminal_text_byte [of c]
      by (auto simp: printable_byte_def terminal_codepoint_def unicode_scalar_def)
    with "2.IH"(3) [OF 3] 3 show ?thesis using terminal_text_append by simp
  next
    case 4
    then have n: "byte c \<noteq> 0x1b" "byte c \<noteq> 13" by auto
    show ?thesis
    proof (cases "decode (c # cs)")
      case None
      with "2.IH"(4) [OF n 4 None] 4 show ?thesis
        using terminal_text_append [OF replacement_safe] by simp
    next
      case (Some d)
      have "terminal_text (if cp_value d \<le> 0x9f then [] else take (cp_bytes d) (c # cs))"
        using decode_scalar [OF Some] terminal_text_encode [of "cp_value d"]
        by (auto simp: terminal_codepoint_def)
      with "2.IH"(5) [OF n 4 Some] 4 Some show ?thesis
        using terminal_text_append by (auto simp del: take_Cons drop_Cons)
    qed
  qed
qed simp

lemma utf8_encode_hd:
  assumes "unicode_scalar cp"
  obtains c cs where "utf8_encode cp = c # cs" "cp < 0x80 \<longrightarrow> byte c = cp \<and> cs = []"
    "0x80 \<le> cp \<longrightarrow> 0x80 \<le> byte c"
proof -
  obtain c cs where c: "utf8_encode cp = c # cs" by (metis list.exhaust utf8_encode_nonempty)
  have "byte c = cp \<and> cs = []" if "cp < 0x80" using c that by (auto simp: utf8_encode_def byte_char_of)
  moreover have "0x80 \<le> byte c" if "0x80 \<le> cp" using utf8_encode_high [OF that assms, of c] c by simp
  ultimately show ?thesis using that c by blast
qed

lemma sanitize_encoded:
  assumes "terminal_codepoint cp"
  shows "sanitize_from (utf8_encode cp @ rest) = utf8_encode cp @ sanitize_from rest"
proof -
  have scalar: "unicode_scalar cp" using assms by (simp add: terminal_codepoint_def)
  then obtain c cs where c: "utf8_encode cp = c # cs" "cp < 0x80 \<longrightarrow> byte c = cp \<and> cs = []"
    "0x80 \<le> cp \<longrightarrow> 0x80 \<le> byte c" by (rule utf8_encode_hd)
  show ?thesis
  proof (cases "cp < 0x80")
    case True
    with c assms show ?thesis by (auto simp: terminal_codepoint_def printable_byte_def)
  next
    case False
    have d: "decode (c # cs @ rest) = Some \<lparr>cp_value = cp, cp_bytes = length (c # cs)\<rparr>"
      using decode_utf8_complete [OF scalar, of rest] c(1) by (simp add: decode_eq)
    from False c(3) have "\<not> byte c \<le> 0x7f" "byte c \<noteq> 0x1b" "byte c \<noteq> 13" by auto
    moreover have "\<not> cp \<le> 0x9f" using False assms by (auto simp: terminal_codepoint_def)
    ultimately show ?thesis using d False unfolding c(1) by simp
  qed
qed

lemma sanitize_safe: "terminal_text content \<Longrightarrow> sanitize_from content = content"
proof -
  assume "terminal_text content"
  then obtain cps where "\<forall>cp \<in> set cps. terminal_codepoint cp" "content = concat (map utf8_encode cps)"
    unfolding terminal_text_def by blast
  then show ?thesis
    by (induction cps arbitrary: content) (auto simp: sanitize_encoded)
qed

text \<open>
  C11: untrusted text is shown safely.  Whatever bytes come in, the sanitizer returns text a terminal
  can be trusted with, that is UTF-8 without any control character but line feeds and tabs; and it
  changes its input exactly when that is not such text.  It therefore loses nothing of harmless text
  and is idempotent.
\<close>

theorem sanitized_text_is_safe:
  "\<exists>clean. sanitize_untrusted_text content = Inr clean \<and> terminal_text clean \<and>
     (clean = content \<longleftrightarrow> terminal_text content) \<and> sanitize_untrusted_text clean = Inr clean"
  using sanitize_from_safe [of content] sanitize_safe [of content] sanitize_safe [of "sanitize_from content"]
  by (auto simp: sanitize_untrusted_text_def)

section \<open>Styled spans\<close>

definition line_safe :: "string \<Rightarrow> bool" where
  "line_safe content \<longleftrightarrow> terminal_text content \<and> CHR 0x0A \<notin> set content"

definition styled_line_ok :: "StyledLine \<Rightarrow> bool" where
  "styled_line_ok line \<longleftrightarrow>
     (\<forall>span \<in> set line. span_text span \<noteq> [] \<and> line_safe (span_text span)) \<and>
     successively (\<lambda>left right. span_semantic left \<noteq> span_semantic right) line"


lemma styled_line_Nil [simp]: "styled_line_ok []"
  by (simp add: styled_line_ok_def)

lemma line_safe_append: "line_safe xs \<Longrightarrow> line_safe ys \<Longrightarrow> line_safe (xs @ ys)"
  by (simp add: line_safe_def terminal_text_append)

lemma line_safe_split:
  assumes "line_safe (xs @ c # ys)" "byte c < 0x80"
  shows "line_safe xs \<and> line_safe [c] \<and> line_safe ys"
  using assms terminal_text_split [of xs c ys] terminal_text_byte [of c] by (auto simp: line_safe_def)

lemma line_safe_nth:
  assumes "line_safe line" "i < length line" "byte (line ! i) < 0x80"
  shows "line_safe (take i line) \<and> line_safe (take (i + 1) line) \<and> line_safe (drop (i + 1) line)"
proof -
  have "line = take i line @ line ! i # drop (i + 1) line" using assms(2) by (simp add: id_take_nth_drop)
  with assms line_safe_split have "line_safe (take i line) \<and> line_safe [line ! i] \<and> line_safe (drop (i + 1) line)"
    by metis
  with assms(2) show ?thesis using line_safe_append by (simp add: take_Suc_conv_app_nth)
qed

lemma styled_line_append_span:
  assumes "styled_line_ok line" "line_safe content"
  shows "styled_line_ok (append_span line content semantic)"
proof (cases line rule: rev_cases)
  case Nil
  with assms show ?thesis by (simp add: append_span_def styled_line_ok_def)
next
  case (snoc spans span)
  with assms show ?thesis
    by (auto simp: append_span_def styled_line_ok_def successively_append_iff line_safe_append)
qed

lemma inline_span_safe:
  assumes "inline_span (c # cs) = Some (content, after, semantic)" "line_safe (plain @ c # cs)"
  shows "line_safe plain \<and> line_safe content \<and> line_safe after"
proof -
  from inline_spanD [OF assms(1)] obtain n where c: "inline_marker c"
    and cs: "c # cs = replicate (Suc n) c @ content @ replicate (Suc n) c @ after" by blast
  have ascii: "byte c < 0x80" using c by (auto simp: inline_marker_def emphasis_marker_def byte_def)
  have safe: "terminal_text (plain @ replicate (Suc n) c @ (content @ replicate (Suc n) c @ after))"
    and line: "CHR 0x0A \<notin> set (plain @ replicate (Suc n) c @ (content @ replicate (Suc n) c @ after))"
    using assms(2) unfolding cs line_safe_def by simp_all
  from terminal_text_marker [OF safe ascii]
  have "terminal_text plain" "terminal_text (content @ replicate (Suc n) c @ after)" by auto
  with terminal_text_marker [OF this(2) ascii] line show ?thesis by (auto simp: line_safe_def)
qed

lemma parse_inline_from_ok:
  "styled_line_ok output \<Longrightarrow> line_safe (plain @ rest) \<Longrightarrow> styled_line_ok (parse_inline_from base plain rest output)"
proof (induction base plain rest "output" rule: parse_inline_from.induct)
  case (1 base plain "output")
  then show ?case by (simp add: styled_line_append_span)
next
  case (2 base plain c cs "output")
  show ?case
  proof (cases "inline_span (c # cs)")
    case None
    with "2.IH"(1) [OF None] "2.prems" show ?thesis by simp
  next
    case (Some found)
    obtain content after semantic where f: "found = (content, after, semantic)" by (cases found)
    with Some have found: "inline_span (c # cs) = Some (content, after, semantic)" by simp
    from inline_span_safe [OF this "2.prems"(2)]
    have safe: "line_safe plain" "line_safe content" "line_safe ([] @ after)" by auto
    have "styled_line_ok (append_span (append_span output plain base) content (base OR semantic))"
      using "2.prems"(1) safe by (simp add: styled_line_append_span)
    from "2.IH"(2) [OF found refl refl this safe(3)] found show ?thesis by simp
  qed
qed

lemma parse_inline_ok:
  "styled_line_ok output \<Longrightarrow> line_safe line \<Longrightarrow> styled_line_ok (parse_inline line output base)"
  by (simp add: parse_inline_def parse_inline_from_ok)

lemma bullet_safe: "line_safe bullet"
proof -
  have "terminal_text (utf8_encode 0x2022 @ utf8_encode 0x20)"
    by (intro terminal_text_append terminal_text_encode) (simp_all add: terminal_codepoint_def unicode_scalar_def)
  moreover have "utf8_encode 0x2022 @ utf8_encode 0x20 = bullet"
    by (simp add: utf8_encode_def bullet_def) code_simp
  moreover have "CHR 0x0A \<notin> set bullet" by code_simp
  ultimately show ?thesis by (simp add: line_safe_def)
qed

lemma render_line_ok:
  assumes "line_safe line"
  shows "styled_line_ok (render_line line)"
proof -
  have space: "byte (line ! i) < 0x80" if "line ! i = CHR '' ''" for i using that by (simp add: byte_def)
  let ?h = "length (takeWhile (\<lambda>c. c = CHR ''#'') (take 6 line))"
  let ?d = "length (takeWhile ascii_digit line)"
  have "line_safe (drop (?h + 1) line)" if "?h < length line" "line ! ?h = CHR '' ''"
    using line_safe_nth [OF assms that(1) space [OF that(2)]] by simp
  moreover have "line_safe (drop 2 line)" if "2 \<le> length line" "line ! 1 = CHR '' ''"
    using line_safe_nth [OF assms _ space [OF that(2)]] that(1) by (simp add: numeral_2_eq_2)
  moreover have "line_safe (take (?d + 2) line)" "line_safe (drop (?d + 2) line)"
    if "?d + 1 < length line" "line ! (?d + 1) = CHR '' ''"
    using line_safe_nth [OF assms that(1) space [OF that(2)]] by simp_all
  ultimately show ?thesis
    using assms bullet_safe
    by (simp add: render_line_def Let_def parse_inline_ok styled_line_append_span)
qed

lemma text_find_char:
  "(text_find [c] s = None \<longrightarrow> c \<notin> set s) \<and> (\<forall>k. text_find [c] s = Some k \<longrightarrow> c \<notin> set (take k s))"
proof (induction s)
  case Nil
  show ?case by (simp add: text_find.simps)
next
  case (Cons d s)
  then show ?case by (subst (1 2) text_find.simps) auto
qed

lemma split_lines_safe: "terminal_text clean \<Longrightarrow> line \<in> set (split_lines clean) \<Longrightarrow> line_safe line"
proof (induction clean rule: split_lines.induct)
  case (1 clean)
  show ?case
  proof (cases "text_find [CHR 0x0A] clean")
    case None
    with 1 text_find_char [of "CHR 0x0A" clean] show ?thesis by (simp add: split_lines.simps line_safe_def)
  next
    case (Some k)
    have "clean = take k clean @ CHR 0x0A # drop (k + 1) clean" using text_findD [OF Some] by simp
    with "1.prems"(1) have "terminal_text (take k clean)" "terminal_text (drop (k + 1) clean)"
      using terminal_text_split [of "take k clean" "CHR 0x0A" "drop (k + 1) clean"] by (auto simp: byte_def)
    moreover have "CHR 0x0A \<notin> set (take k clean)" using text_find_char Some by blast
    moreover have "line = take k clean \<or> line = [] \<or>
        drop (k + 1) clean \<noteq> [] \<and> line \<in> set (split_lines (drop (k + 1) clean))"
      using "1.prems"(2) Some by (subst (asm) split_lines.simps) (auto split: if_splits)
    ultimately show ?thesis using "1.IH" [OF Some] by (auto simp: line_safe_def)
  qed
qed

lemma render_lines_ok:
  "\<forall>line \<in> set lines. line_safe line \<Longrightarrow> list_all styled_line_ok (render_lines lines)"
proof (induction lines rule: render_lines.induct)
  case (2 line lines)
  let ?code = "takeWhile (\<lambda>l. \<not> fence l) lines"
  have safe: "line_safe line" "\<forall>line \<in> set lines. line_safe line" using "2.prems" by auto
  have code: "list_all styled_line_ok (render_code ?code)"
    using safe(2) by (auto simp: render_code_def list_all_iff styled_line_append_span dest: set_takeWhileD)
  have rest: "\<forall>line \<in> set (drop (length ?code + 1) lines). line_safe line"
    using safe(2) by (meson in_set_dropD)
  show ?case
  proof (cases "fence line \<and> length ?code < length lines")
    case True
    with code "2.IH"(1) [OF refl True rest] show ?thesis by (simp add: Let_def)
  next
    case False
    then have "render_lines (line # lines) = render_line line # render_lines lines" by (auto simp: Let_def)
    with "2.IH"(2) [OF refl False safe(2)] render_line_ok [OF safe(1)] show ?thesis by simp
  qed
qed simp


text \<open>Text without any markup is shown as it is.\<close>

definition unmarked :: "string \<Rightarrow> bool" where
  "unmarked content \<longleftrightarrow> (\<forall>c \<in> set content. c \<notin> set ''*_#-+.'' \<and> c \<noteq> CHR 0x60)"

lemma parse_inline_unmarked:
  "unmarked rest \<Longrightarrow> parse_inline_from base plain rest output = append_span output (plain @ rest) base"
proof (induction rest arbitrary: plain)
  case (Cons c cs)
  then have "inline_span (c # cs) = None"
    by (auto simp: unmarked_def inline_span_def code_span_def strong_span_def emphasis_span_def emphasis_marker_def)
  with Cons show ?case by (simp add: unmarked_def)
qed simp

lemma render_line_unmarked:
  assumes "unmarked line"
  shows "render_line line = append_span [] line Semantic_none \<and> \<not> fence line"
proof -
  have "takeWhile (\<lambda>c. c = CHR ''#'') (take 6 line) = []"
    using assms by (cases line) (auto simp: unmarked_def)
  moreover have "\<not> (i < length line \<and> line ! i = CHR ''.'')" for i
    using assms nth_mem [of i line] by (force simp: unmarked_def)
  moreover have "\<not> (0 < length line \<and> (line ! 0 = CHR ''-'' \<or> line ! 0 = CHR ''*'' \<or> line ! 0 = CHR ''+''))"
    using assms nth_mem [of 0 line] by (force simp: unmarked_def)
  moreover have "\<not> fence line"
    using assms by (cases line) (auto simp: unmarked_def fence_def numeral_3_eq_3)
  ultimately show ?thesis
    using assms by (auto simp: render_line_def Let_def parse_inline_def parse_inline_unmarked)
qed

lemma flatten_span: "concat (map span_text (append_span [] line semantic)) = line"
  by (simp add: append_span_def)

lemma flatten_unmarked:
  "\<forall>line \<in> set lines. unmarked line \<Longrightarrow>
    flatten_from (render_lines lines) = concat (map (\<lambda>line. CHR 0x0A # line) lines)"
  by (induction lines) (auto simp: render_line_unmarked flatten_span Let_def)

lemma join_lines: "tl (concat (map (\<lambda>line. CHR 0x0A # line) (split_lines clean))) = clean \<and> split_lines clean \<noteq> []"
proof (induction clean rule: split_lines.induct)
  case (1 clean)
  show ?case
  proof (cases "text_find [CHR 0x0A] clean")
    case (Some k)
    have "clean = take k clean @ CHR 0x0A # drop (k + 1) clean" using text_findD [OF Some] by simp
    moreover have "split_lines clean = take k clean #
        (if drop (k + 1) clean = [] then [[]] else split_lines (drop (k + 1) clean))"
      using Some by (subst split_lines.simps) simp
    ultimately show ?thesis using "1.IH" [OF Some]
      by (cases "split_lines (drop (k + 1) clean)") auto
  qed (simp add: split_lines.simps)
qed

lemma flatten_from_tl: "flatten document = Inr (tl (flatten_from document))"
  by (cases document) (simp_all add: flatten_def)

lemma split_lines_unmarked: "unmarked clean \<Longrightarrow> line \<in> set (split_lines clean) \<Longrightarrow> unmarked line"
proof (induction clean rule: split_lines.induct)
  case (1 clean)
  show ?case
  proof (cases "text_find [CHR 0x0A] clean")
    case None
    then have "split_lines clean = [clean]" by (subst split_lines.simps) simp
    with "1.prems" show ?thesis by simp
  next
    case (Some k)
    have "line = take k clean \<or> line = [] \<or>
        drop (k + 1) clean \<noteq> [] \<and> line \<in> set (split_lines (drop (k + 1) clean))"
      using "1.prems"(2) Some by (subst (asm) split_lines.simps) (auto split: if_splits)
    moreover have "unmarked (take k clean)" "unmarked (drop (k + 1) clean)"
      using "1.prems"(1) by (auto simp: unmarked_def dest: in_set_takeD in_set_dropD)
    moreover have "unmarked []" by (simp add: unmarked_def)
    ultimately show ?thesis using "1.IH" [OF Some] by blast
  qed
qed

text \<open>
  C32: styled text stays safe.  The tokenizer refuses only input above its limit; otherwise every span
  of the document is nonempty text of one line that a terminal can be trusted with, although spans
  are cut out of the bytes of a line, and neighbouring spans differ in style.  Safe text without
  markup comes out unchanged when the document is flattened.
\<close>

theorem styled_spans_are_safe:
  assumes "length content \<le> maximum"
  shows "\<exists>document. tokenize_markdown_lite content maximum = Inr document \<and>
    (\<forall>line \<in> set document. styled_line_ok line) \<and>
    (terminal_text content \<and> unmarked content \<longrightarrow> flatten document = Inr content)"
proof -
  let ?clean = "sanitize_from content"
  have "list_all styled_line_ok (render_lines (split_lines ?clean))"
    using render_lines_ok split_lines_safe sanitize_from_safe by blast
  moreover have "flatten (render_lines (split_lines content)) = Inr content" if "unmarked content"
    using that join_lines [of content] split_lines_unmarked [of content]
    by (simp add: flatten_from_tl flatten_unmarked)
  ultimately show ?thesis
    using assms sanitize_safe [of content]
    by (simp add: tokenize_markdown_lite_def sanitize_untrusted_text_def list_all_iff)
qed

theorem styled_spans_are_safe_witness:
  "\<exists>document. tokenize_markdown_lite ''plain words'' 100 = Inr document \<and>
    (\<forall>line \<in> set document. styled_line_ok line) \<and> flatten document = Inr ''plain words''"
proof -
  have "terminal_text ''plain words''"
    by (rule terminal_text_ascii) (simp add: byte_def)
  moreover have "unmarked ''plain words''" by (simp add: unmarked_def)
  ultimately show ?thesis using styled_spans_are_safe [of "''plain words''" 100] by auto
qed

end
