(* ===== verification/Sha256.thy ===== *)
theory Sha256
  imports Pricing
begin

text \<open>
  The SHA-256 digest that binds saved memories and other records to their content:
  \<^verbatim>\<open>include/aiforge/detail/sha256.hpp\<close>.  The class buffers the bytes it is given, compresses every full
  block, and pads when the digest is asked for.  It is shown to compute, however the bytes are split
  over the calls, the digest that the Secure Hash Standard defines on the padded message.
\<close>

unbundle bit_operations_syntax

section \<open>The class\<close>

record Sha256 =
  m_state :: "u32 list"
  m_block :: "u8 list"
  m_block_size :: nat
  m_byte_count :: u64

definition constants :: "u32 list" where
  "constants =
     [0x428a2f98, 0x71374491, 0xb5c0fbcf, 0xe9b5dba5, 0x3956c25b] @
     [0x59f111f1, 0x923f82a4, 0xab1c5ed5, 0xd807aa98, 0x12835b01] @
     [0x243185be, 0x550c7dc3, 0x72be5d74, 0x80deb1fe, 0x9bdc06a7] @
     [0xc19bf174, 0xe49b69c1, 0xefbe4786, 0x0fc19dc6, 0x240ca1cc] @
     [0x2de92c6f, 0x4a7484aa, 0x5cb0a9dc, 0x76f988da, 0x983e5152] @
     [0xa831c66d, 0xb00327c8, 0xbf597fc7, 0xc6e00bf3, 0xd5a79147] @
     [0x06ca6351, 0x14292967, 0x27b70a85, 0x2e1b2138, 0x4d2c6dfc] @
     [0x53380d13, 0x650a7354, 0x766a0abb, 0x81c2c92e, 0x92722c85] @
     [0xa2bfe8a1, 0xa81a664b, 0xc24b8b70, 0xc76c51a3, 0xd192e819] @
     [0xd6990624, 0xf40e3585, 0x106aa070, 0x19a4c116, 0x1e376c08] @
     [0x2748774c, 0x34b0bcb5, 0x391c0cb3, 0x4ed8aa4a, 0x5b9cca4f] @
     [0x682e6ff3, 0x748f82ee, 0x78a5636f, 0x84c87814, 0x8cc70208] @
     [0x90befffa, 0xa4506ceb, 0xbef9a3f7, 0xc67178f2]"

definition Sha256_initial :: Sha256 where
  "Sha256_initial =
     \<lparr>m_state = [0x6a09e667, 0xbb67ae85, 0x3c6ef372, 0xa54ff53a, 0x510e527f, 0x9b05688c, 0x1f83d9ab, 0x5be0cd19],
      m_block = replicate 64 0, m_block_size = 0, m_byte_count = 0\<rparr>"

text \<open>\<^verbatim>\<open>std::rotr\<close> on 32 bits.\<close>

definition rotr :: "u32 \<Rightarrow> nat \<Rightarrow> u32" where
  "rotr x n = drop_bit n x OR push_bit (32 - n) x"

definition block_word :: "u8 list \<Rightarrow> nat \<Rightarrow> u32" where
  "block_word block index =
     (let offset = index * 4 in
      push_bit 24 (ucast (block ! offset)) OR push_bit 16 (ucast (block ! (offset + 1))) OR
      push_bit 8 (ucast (block ! (offset + 2))) OR ucast (block ! (offset + 3)))"

text \<open>One turn of the loop that extends the sixteen words of the block to sixty-four.\<close>

definition next_word :: "u32 list \<Rightarrow> u32" where
  "next_word words =
     (let index = length words;
          s0 = rotr (words ! (index - 15)) 7 XOR rotr (words ! (index - 15)) 18 XOR drop_bit 3 (words ! (index - 15));
          s1 = rotr (words ! (index - 2)) 17 XOR rotr (words ! (index - 2)) 19 XOR drop_bit 10 (words ! (index - 2)) in
      words ! (index - 16) + s0 + words ! (index - 7) + s1)"

fun extend_words :: "nat \<Rightarrow> u32 list \<Rightarrow> u32 list" where
  "extend_words 0 words = words"
| "extend_words (Suc n) words = extend_words n (words @ [next_word words])"

definition schedule :: "u8 list \<Rightarrow> u32 list" where
  "schedule block = extend_words 48 (map (block_word block) [0..<16])"

text \<open>The working variables \<open>a\<close> to \<open>h\<close> and one round.\<close>

type_synonym working = "u32 \<times> u32 \<times> u32 \<times> u32 \<times> u32 \<times> u32 \<times> u32 \<times> u32"

definition round_step :: "working \<Rightarrow> u32 \<Rightarrow> u32 \<Rightarrow> working" where
  "round_step v k w =
     (case v of (a, b, c, d, e, f, g, h) \<Rightarrow>
       (let sum1 = rotr e 6 XOR rotr e 11 XOR rotr e 25;
            choice = (e AND f) XOR (NOT e AND g);
            t1 = h + sum1 + choice + k + w;
            sum0 = rotr a 2 XOR rotr a 13 XOR rotr a 22;
            t2 = sum0 + ((a AND b) XOR (a AND c) XOR (b AND c)) in
        (t1 + t2, a, b, c, d + t1, e, f, g)))"

definition working_of :: "u32 list \<Rightarrow> working" where
  "working_of s = (s ! 0, s ! 1, s ! 2, s ! 3, s ! 4, s ! 5, s ! 6, s ! 7)"

definition list_of :: "working \<Rightarrow> u32 list" where
  "list_of v = (case v of (a, b, c, d, e, f, g, h) \<Rightarrow> [a, b, c, d, e, f, g, h])"

definition rounds_from :: "u32 list \<Rightarrow> u32 list \<Rightarrow> working" where
  "rounds_from state words =
     foldl (\<lambda>v index. round_step v (constants ! index) (words ! index)) (working_of state) [0..<64]"

definition transform :: "Sha256 \<Rightarrow> Sha256" where
  "transform s =
     s\<lparr>m_state := map2 (+) (m_state s) (list_of (rounds_from (m_state s) (schedule (m_block s)))),
       m_block_size := 0\<rparr>"

text \<open>\<^verbatim>\<open>m_block[m_block_size++] = v\<close>\<close>

definition append_byte :: "Sha256 \<Rightarrow> u8 \<Rightarrow> Sha256" where
  "append_byte s v = s\<lparr>m_block := (m_block s)[m_block_size s := v], m_block_size := m_block_size s + 1\<rparr>"

definition update_byte :: "Sha256 \<Rightarrow> u8 \<Rightarrow> Sha256" where
  "update_byte s v =
     (let s = append_byte s v; s = s\<lparr>m_byte_count := m_byte_count s + 1\<rparr> in
      if m_block_size s = length (m_block s) then transform s else s)"

definition Sha256_update :: "Sha256 \<Rightarrow> u8 list \<Rightarrow> Sha256" where
  "Sha256_update s bytes = foldl update_byte s bytes"

function fill_zeros :: "nat \<Rightarrow> Sha256 \<Rightarrow> Sha256" where
  "fill_zeros n s = (if m_block_size s < n then fill_zeros n (append_byte s 0) else s)"
  by pat_completeness auto
termination
  by (relation "measure (\<lambda>(n, s). n - m_block_size s)") (auto simp: append_byte_def)

declare fill_zeros.simps [simp del]

definition finish_block :: "Sha256 \<Rightarrow> Sha256" where
  "finish_block s =
     (let bit_count = m_byte_count s * 8;
          s = append_byte s 0x80;
          s = (if m_block_size s > 56 then transform (fill_zeros (length (m_block s)) s) else s);
          s = fill_zeros 56 s;
          s = foldl (\<lambda>s shift. append_byte s (ucast (drop_bit shift bit_count))) s [56, 48, 40, 32, 24, 16, 8, 0] in
      transform s)"

definition Sha256_finish :: "Sha256 \<Rightarrow> string" where
  "Sha256_finish s = concat (map (\<lambda>w. hex_digits 8 (unat w)) (m_state (finish_block s)))"

section \<open>The standard\<close>

text \<open>
  FIPS 180-4, on messages of whole bytes: the message is followed by a one bit, the fewest zero bits
  that make the length a multiple of a block, and the length in bits as a 64-bit number.
\<close>

definition padding :: "nat \<Rightarrow> u8 list" where
  "padding n = 0x80 # replicate ((119 - n mod 64) mod 64) 0 @
     map (\<lambda>k. ucast (drop_bit (8 * (7 - k)) (of_nat (8 * n) :: u64))) [0..<8]"

function (sequential) message_blocks :: "u8 list \<Rightarrow> u8 list list" where
  "message_blocks m = (if length m < 64 then [] else take 64 m # message_blocks (drop 64 m))"
  by pat_completeness auto
termination
  by (relation "measure length") auto

declare message_blocks.simps [simp del]

definition small_sigma0 :: "u32 \<Rightarrow> u32" where
  "small_sigma0 x = word_rotr 7 x XOR word_rotr 18 x XOR drop_bit 3 x"

definition small_sigma1 :: "u32 \<Rightarrow> u32" where
  "small_sigma1 x = word_rotr 17 x XOR word_rotr 19 x XOR drop_bit 10 x"

definition big_sigma0 :: "u32 \<Rightarrow> u32" where
  "big_sigma0 x = word_rotr 2 x XOR word_rotr 13 x XOR word_rotr 22 x"

definition big_sigma1 :: "u32 \<Rightarrow> u32" where
  "big_sigma1 x = word_rotr 6 x XOR word_rotr 11 x XOR word_rotr 25 x"

definition majority :: "u32 \<Rightarrow> u32 \<Rightarrow> u32 \<Rightarrow> u32" where
  "majority x y z = (x AND y) XOR (x AND z) XOR (y AND z)"

definition pick :: "u32 \<Rightarrow> u32 \<Rightarrow> u32 \<Rightarrow> u32" where
  "pick x y z = (x AND y) XOR (NOT x AND z)"

fun message_word :: "u8 list \<Rightarrow> nat \<Rightarrow> u32" where
  "message_word m t =
     (if t < 16 then of_nat (foldl (\<lambda>n b. n * 256 + unat b) 0 (take 4 (drop (4 * t) m)))
      else small_sigma1 (message_word m (t - 2)) + message_word m (t - 7) +
           small_sigma0 (message_word m (t - 15)) + message_word m (t - 16))"

declare message_word.simps [simp del]

text \<open>
  The round constants are the first thirty-two bits of the fractional parts of the cube roots of the
  first sixty-four primes, the initial hash value those of the square roots of the first eight.
\<close>

definition prime_number :: "nat \<Rightarrow> bool" where
  "prime_number p \<longleftrightarrow> 1 < p \<and> (\<forall>d. d dvd p \<longrightarrow> d = 1 \<or> d = p)"

definition root_bits :: "nat \<Rightarrow> nat \<Rightarrow> u32" where
  "root_bits k p = word_of_int \<lfloor>frac (root k (real p)) * 2 ^ 32\<rfloor>"

definition round_constants :: "u32 list" where
  "round_constants = map (root_bits 3) (filter prime_number [2..<312])"

definition initial_hash :: "u32 list" where
  "initial_hash = map (root_bits 2) (filter prime_number [2..<20])"

fun working_variables :: "u32 list \<Rightarrow> u8 list \<Rightarrow> nat \<Rightarrow> working" where
  "working_variables H m 0 = working_of H"
| "working_variables H m (Suc t) =
     (case working_variables H m t of (a, b, c, d, e, f, g, h) \<Rightarrow>
       (let t1 = h + big_sigma1 e + pick e f g + round_constants ! t + message_word m t;
            t2 = big_sigma0 a + majority a b c in
        (t1 + t2, a, b, c, d + t1, e, f, g)))"

definition hash_block :: "u32 list \<Rightarrow> u8 list \<Rightarrow> u32 list" where
  "hash_block H m = map2 (+) H (list_of (working_variables H m 64))"

definition standard_digest :: "u8 list \<Rightarrow> u32 list" where
  "standard_digest m =
     foldl hash_block initial_hash (message_blocks (m @ padding (length m)))"

section \<open>The constants of the standard\<close>

lemma root_bits_floor: "root_bits k p = word_of_int \<lfloor>root k (real p) * 2 ^ 32\<rfloor>"
proof -
  let ?x = "root k (real p)"
  have "frac ?x * 2 ^ 32 = ?x * 2 ^ 32 - of_int (\<lfloor>?x\<rfloor> * 2 ^ 32)" by (simp add: frac_def algebra_simps)
  then have "\<lfloor>frac ?x * 2 ^ 32\<rfloor> = \<lfloor>?x * 2 ^ 32\<rfloor> - \<lfloor>?x\<rfloor> * 2 ^ 32" by (metis floor_diff_of_int)
  moreover have "word_of_int (a - b * 2 ^ 32) = (word_of_int a :: u32)" for a b :: int
    by (rule word_of_int_eq_iff [THEN iffD2]) (simp add: take_bit_eq_mod mod_diff_right_eq [symmetric])
  ultimately show ?thesis by (simp only: root_bits_def)
qed

lemma root_bits_eq:
  assumes "0 < k" "(i * 2 ^ 32 + c) ^ k \<le> p * 2 ^ (32 * k)" "p * 2 ^ (32 * k) < (i * 2 ^ 32 + c + 1) ^ k"
  shows "root_bits k p = of_nat c"
proof -
  let ?r = "i * 2 ^ 32 + c"
  let ?y = "root k (real p) * 2 ^ 32"
  have y: "0 \<le> ?y" using assms(1) by simp
  have "?y ^ k = root k (real p) ^ k * 2 ^ (32 * k)" by (simp only: power_mult_distrib power_mult)
  then have power: "?y ^ k = real (p * 2 ^ (32 * k))" using assms(1) by simp
  have "real ?r ^ k \<le> ?y ^ k" unfolding power using assms(2) by (metis of_nat_le_iff of_nat_power)
  then have lo: "real ?r \<le> ?y" using y assms(1) by (simp only: power_mono_iff of_nat_0_le_iff)
  have "?y ^ k < real (?r + 1) ^ k" unfolding power using assms(3) by (metis of_nat_less_iff of_nat_power)
  then have hi: "?y < real (?r + 1)" by (rule power_less_imp_less_base) simp
  have "\<lfloor>?y\<rfloor> = int ?r" using lo hi by (intro floor_unique) simp_all
  moreover have "of_nat (i * 2 ^ 32) = (0 :: u32)" by (simp only: word_of_nat_eq_0_iff) simp
  then have "word_of_int (int ?r) = (of_nat c :: u32)" by (simp only: of_int_of_nat_eq of_nat_add) simp
  ultimately show ?thesis by (simp only: root_bits_floor)
qed

lemma prime_number_check:
  assumes "p < 324"
  shows "prime_number p \<longleftrightarrow> 1 < p \<and> list_all (\<lambda>d. d dvd p \<longrightarrow> p \<le> d) [2, 3, 5, 7, 11, 13, 17]"
proof (intro iffI conjI)
  assume p: "1 < p \<and> list_all (\<lambda>d. d dvd p \<longrightarrow> p \<le> d) [2, 3, 5, 7, 11, 13, 17]"
  have "d = 1 \<or> d = p" if d: "d dvd p" for d
  proof (rule ccontr)
    assume "\<not> (d = 1 \<or> d = p)"
    from d obtain e where e: "p = d * e" by (elim dvdE)
    have "p \<noteq> 0" using p by linarith
    then have "d \<noteq> 0" "e \<noteq> 0" using e by auto
    moreover have "d \<noteq> 1" "e \<noteq> 1" using \<open>\<not> (d = 1 \<or> d = p)\<close> e by auto
    ultimately have "1 < d" "1 < e" by linarith+
    note e = e this
    have small: "p \<le> f" if f: "f dvd p" "1 < f" "f < 18" for f
    proof -
      have "f \<in> {2, 3, 4, 5, 6, 7, 8, 9, 10} \<union> {11, 12, 13, 14, 15, 16, 17}" using f(2,3) by simp presburger
      then have "\<exists>q \<in> set [2, 3, 5, 7, 11, 13, 17]. q dvd f" by auto
      then obtain q where q: "q \<in> set [2, 3, 5, 7, 11, 13, 17]" "q dvd f" by (rule bexE)
      then have "p \<le> q" using p f(1) dvd_trans [of q f p] by (simp only: list_all_iff)
      moreover have "q \<le> f" using q(2) f(2) by (intro dvd_imp_le) simp_all
      ultimately show ?thesis by simp
    qed
    have "18 \<le> d" using small [of d] e by (cases "d < 18") auto
    moreover have "18 \<le> e" using small [of e] e by (cases "e < 18") auto
    ultimately have "18 * 18 \<le> p" unfolding e(1) by (rule mult_le_mono)
    with assms show False by simp
  qed
  with p show "prime_number p" by (simp add: prime_number_def)
qed (auto simp: prime_number_def)

lemma first_primes:
  "filter prime_number [2..<312] =
     [2, 3, 5, 7, 11, 13] @
     [17, 19, 23, 29, 31, 37] @
     [41, 43, 47, 53, 59, 61] @
     [67, 71, 73, 79, 83, 89] @
     [97, 101, 103, 107, 109, 113] @
     [127, 131, 137, 139, 149, 151] @
     [157, 163, 167, 173, 179, 181] @
     [191, 193, 197, 199, 211, 223] @
     [227, 229, 233, 239, 241, 251] @
     [257, 263, 269, 271, 277, 281] @
     [283, 293, 307, 311]"
  by (simp add: prime_number_check)

text \<open>The bounds \<open>i\<close> and \<open>j\<close> on the root select the instance that applies to a prime.\<close>

lemma root_bits_numeral:
  assumes "i ^ k \<le> p" "p < j ^ k" "0 < k" "(i * 2 ^ 32 + numeral c) ^ k \<le> p * 2 ^ (32 * k)"
    "p * 2 ^ (32 * k) < (i * 2 ^ 32 + numeral c + 1) ^ k"
  shows "root_bits k p = numeral c \<longleftrightarrow> True"
  using root_bits_eq [OF assms(3,4,5)] by simp

lemmas cube_roots =
  root_bits_numeral [where k = 3 and i = 1 and j = 2] root_bits_numeral [where k = 3 and i = 2 and j = 3]
  root_bits_numeral [where k = 3 and i = 3 and j = 4] root_bits_numeral [where k = 3 and i = 4 and j = 5]
  root_bits_numeral [where k = 3 and i = 5 and j = 6] root_bits_numeral [where k = 3 and i = 6 and j = 7]

lemmas square_roots =
  root_bits_numeral [where k = 2 and i = 1 and j = 2] root_bits_numeral [where k = 2 and i = 2 and j = 3]
  root_bits_numeral [where k = 2 and i = 3 and j = 4] root_bits_numeral [where k = 2 and i = 4 and j = 5]

lemma round_constants_eq: "round_constants = constants"
  unfolding round_constants_def first_primes constants_def by (simp add: cube_roots)

lemma initial_hash_eq: "initial_hash = m_state Sha256_initial"
  by (simp add: initial_hash_def prime_number_check square_roots Sha256_initial_def)

section \<open>One block\<close>

lemma rotr_eq:
  assumes "n < 32"
  shows "rotr x n = word_rotr n x"
proof (rule bit_word_eqI)
  fix i assume "i < LENGTH(32)"
  then have i: "i < 32" by simp
  have high: "\<not> bit x j" if "32 \<le> j" for j using that bit_imp_le_length [of x j] by auto
  show "bit (rotr x n) i \<longleftrightarrow> bit (word_rotr n x) i"
  proof (cases "i + n < 32")
    case True
    with i assms show ?thesis
      by (auto simp: rotr_def bit_word_rotr_iff bit_or_iff bit_drop_bit_eq bit_push_bit_iff ac_simps)
  next
    case False
    then have "(i + n) mod 32 = i + n - 32" using i assms by (simp add: mod_if)
    with False i assms high [of "i + n"] show ?thesis
      by (auto simp: rotr_def bit_word_rotr_iff bit_or_iff bit_drop_bit_eq bit_push_bit_iff ac_simps)
  qed
qed

lemma or_low_byte:
  fixes v :: nat
  assumes "v < 2 ^ 24"
  shows "push_bit 8 (of_nat v :: u32) OR ucast (b :: u8) = of_nat (v * 256 + unat b)"
proof -
  have "push_bit 8 (of_nat v :: u32) AND ucast b = 0"
    by (rule bit_word_eqI) (auto simp: bit_and_iff bit_push_bit_iff bit_ucast_iff dest: bit_imp_le_length)
  then have "push_bit 8 (of_nat v :: u32) OR ucast b = push_bit 8 (of_nat v) + ucast b"
    by (simp add: disjunctive_add_eq_or)
  also have "ucast b = (of_nat (unat b) :: u32)" by simp
  finally show ?thesis by (simp add: push_bit_eq_mult)
qed

lemma block_word_value:
  "push_bit 24 (ucast (b0 :: u8)) OR push_bit 16 (ucast (b1 :: u8)) OR push_bit 8 (ucast (b2 :: u8)) OR
      (ucast (b3 :: u8) :: u32) = of_nat (((unat b0 * 256 + unat b1) * 256 + unat b2) * 256 + unat b3)"
proof -
  have lt: "unat b < 256" for b :: u8 using unsigned_less [of b] by simp
  have one: "push_bit 8 (ucast b0 :: u32) OR ucast b1 = of_nat (unat b0 * 256 + unat b1)"
    using or_low_byte [of "unat b0" b1] lt [of b0] by simp
  have two: "push_bit 8 (of_nat (unat b0 * 256 + unat b1) :: u32) OR ucast b2 = of_nat ((unat b0 * 256 + unat b1) * 256 + unat b2)"
    using lt [of b0] lt [of b1] by (intro or_low_byte) simp
  have three: "push_bit 8 (of_nat ((unat b0 * 256 + unat b1) * 256 + unat b2) :: u32) OR ucast b3 =
      of_nat (((unat b0 * 256 + unat b1) * 256 + unat b2) * 256 + unat b3)"
    using lt [of b0] lt [of b1] lt [of b2] by (intro or_low_byte) simp
  have "push_bit 24 (ucast b0) OR push_bit 16 (ucast b1) OR push_bit 8 (ucast b2) OR (ucast b3 :: u32) =
      push_bit 8 (push_bit 8 (push_bit 8 (ucast b0) OR ucast b1) OR ucast b2) OR ucast b3"
    by (simp add: push_bit_or or.assoc)
  then show ?thesis unfolding one two three .
qed

lemma block_word_eq:
  assumes "length m = 64" "t < 16"
  shows "block_word m t = message_word m t"
proof -
  have "take 4 (drop (4 * t) m) = [m ! (4 * t), m ! (4 * t + 1), m ! (4 * t + 2), m ! (4 * t + 3)]"
    using assms by (intro nth_equalityI) (auto simp: less_Suc_eq numeral_eq_Suc nth_Cons' dest!: Suc_lessD)
  with assms(2) show ?thesis
    by (subst message_word.simps) (simp add: block_word_def Let_def block_word_value mult.commute)
qed

lemma next_word_eq:
  assumes "16 \<le> n"
  shows "next_word (map (message_word m) [0..<n]) = message_word m n"
  using assms
  by (subst message_word.simps)
    (simp add: next_word_def Let_def rotr_eq small_sigma0_def small_sigma1_def ac_simps)

lemma extend_words_eq:
  "16 \<le> n \<Longrightarrow> extend_words k (map (message_word m) [0..<n]) = map (message_word m) [0..<n + k]"
proof (induction k arbitrary: n)
  case (Suc k)
  have "map (message_word m) [0..<n] @ [message_word m n] = map (message_word m) [0..<Suc n]" by simp
  then have "extend_words (Suc k) (map (message_word m) [0..<n]) = extend_words k (map (message_word m) [0..<Suc n])"
    using Suc.prems by (simp only: extend_words.simps next_word_eq)
  also have "\<dots> = map (message_word m) [0..<Suc n + k]" by (rule Suc.IH) (use Suc.prems in simp)
  finally show ?case by (simp only: add_Suc_right add_Suc)
qed simp

lemma schedule_eq:
  assumes "length m = 64"
  shows "schedule m = map (message_word m) [0..<64]"
proof -
  have "map (block_word m) [0..<16] = map (message_word m) [0..<16]"
    using assms by (intro map_cong refl block_word_eq) auto
  then have "schedule m = extend_words 48 (map (message_word m) [0..<16])" by (simp only: schedule_def)
  then show ?thesis using extend_words_eq [of 16 48 m] by (simp only:) simp
qed

lemma round_step_eq:
  "n \<le> 64 \<Longrightarrow> foldl (\<lambda>v index. round_step v (constants ! index) (map (message_word m) [0..<64] ! index)) (working_of H) [0..<n]
    = working_variables H m n"
proof (induction n)
  case (Suc n)
  then show ?case
    by (simp add: round_step_def rotr_eq big_sigma0_def big_sigma1_def majority_def pick_def Let_def
        round_constants_eq split: prod.split)
qed simp

lemma transform_eq:
  "length (m_block s) = 64 \<Longrightarrow> transform s = s\<lparr>m_state := hash_block (m_state s) (m_block s), m_block_size := 0\<rparr>"
  by (simp add: transform_def rounds_from_def schedule_eq round_step_eq hash_block_def)


section \<open>The buffer\<close>

text \<open>The object has compressed everything but the bytes \<open>q\<close>, which are in its block.\<close>

definition holding :: "Sha256 \<Rightarrow> u32 list \<Rightarrow> u8 list \<Rightarrow> bool" where
  "holding s H q \<longleftrightarrow> m_state s = H \<and> length (m_block s) = 64 \<and> m_block_size s = length q \<and>
     length q \<le> 64 \<and> take (length q) (m_block s) = q"

lemma holding_append:
  assumes "holding s H q" "length q < 64"
  shows "holding (append_byte s v) H (q @ [v])"
  using assms by (auto simp: holding_def append_byte_def take_Suc_conv_app_nth)

lemma holding_transform:
  assumes "holding s H q" "length q = 64"
  shows "holding (transform s) (hash_block H q) []"
  using assms by (auto simp: holding_def transform_eq)

lemma holding_fill:
  "holding s H q \<Longrightarrow> length q \<le> n \<Longrightarrow> n \<le> 64 \<Longrightarrow> holding (fill_zeros n s) H (q @ replicate (n - length q) 0)"
proof (induction n s arbitrary: q rule: fill_zeros.induct)
  case (1 n s)
  show ?case
  proof (cases "length q < n")
    case True
    with "1.prems" have size: "m_block_size s < n" by (simp add: holding_def)
    have "holding (append_byte s 0) H (q @ [0])" using "1.prems" True by (intro holding_append) auto
    from "1.IH" [OF size this] True "1.prems"
    have "holding (fill_zeros n (append_byte s 0)) H ((q @ [0]) @ replicate (n - length (q @ [0])) 0)" by simp
    moreover have "replicate (n - length q) (0 :: u8) = 0 # replicate (n - length (q @ [0])) 0"
      using True by (cases "n - length q") simp_all
    moreover have "fill_zeros n s = fill_zeros n (append_byte s 0)" using size by (subst fill_zeros.simps) simp
    ultimately show ?thesis by simp
  next
    case False
    with "1.prems" show ?thesis by (simp add: holding_def fill_zeros.simps)
  qed
qed

lemma message_blocks_append:
  "length p mod 64 = 0 \<Longrightarrow> message_blocks (p @ q) = message_blocks p @ message_blocks q"
proof (induction p rule: message_blocks.induct)
  case (1 p)
  show ?case
  proof (cases "length p < 64")
    case True
    with "1.prems" have "p = []" by (cases "length p") auto
    then show ?thesis by (simp add: message_blocks.simps)
  next
    case False
    then have "length (drop 64 p) mod 64 = 0" using "1.prems" by (simp add: le_mod_geq)
    from "1.IH" [OF False this] False show ?thesis
      by (subst (1 2) message_blocks.simps) simp
  qed
qed

lemma message_blocks_one: "length q = 64 \<Longrightarrow> message_blocks q = [q]"
  by (simp add: message_blocks.simps)

definition absorbed :: "u8 list \<Rightarrow> Sha256 \<Rightarrow> bool" where
  "absorbed m s \<longleftrightarrow> m_byte_count s = of_nat (length m) \<and>
     (\<exists>p q. m = p @ q \<and> length p mod 64 = 0 \<and> length q < 64 \<and>
        holding s (foldl hash_block (m_state Sha256_initial) (message_blocks p)) q)"

lemma absorbed_initial: "absorbed [] Sha256_initial"
  by (simp add: absorbed_def holding_def message_blocks.simps Sha256_initial_def)

lemma absorbed_byte:
  assumes "absorbed m s"
  shows "absorbed (m @ [v]) (update_byte s v)"
proof -
  let ?hash = "\<lambda>p. foldl hash_block (m_state Sha256_initial) (message_blocks p)"
  obtain p q where m: "m = p @ q" "length p mod 64 = 0" "length q < 64" "holding s (?hash p) q"
    and n: "m_byte_count s = of_nat (length m)" using assms by (auto simp: absorbed_def)
  define s1 where "s1 = (append_byte s v)\<lparr>m_byte_count := m_byte_count s + 1\<rparr>"
  have s1: "holding s1 (?hash p) (q @ [v])"
    using holding_append [OF m(4,3), of v] by (simp add: holding_def s1_def)
  have c: "m_byte_count s1 = of_nat (length (m @ [v]))" by (simp add: s1_def n)
  have upd: "update_byte s v = (if m_block_size s1 = length (m_block s1) then transform s1 else s1)"
    by (simp add: update_byte_def Let_def s1_def append_byte_def)
  show ?thesis
  proof (cases "length q = 63")
    case True
    then have full: "length (q @ [v]) = 64" by simp
    have "?hash (p @ q @ [v]) = hash_block (?hash p) (q @ [v])"
      using message_blocks_append [OF m(2)] message_blocks_one [OF full] by simp
    with holding_transform [OF s1 full] have "holding (transform s1) (?hash (p @ q @ [v])) []" by simp
    moreover have "update_byte s v = transform s1" using s1 full by (simp add: upd holding_def)
    moreover have "length (p @ q @ [v]) mod 64 = 0" using full m(2) by simp
    moreover have "m_byte_count (transform s1) = m_byte_count s1" by (simp add: transform_def)
    ultimately show ?thesis using c m(1) unfolding absorbed_def
      by (intro conjI exI [of _ "p @ q @ [v]"] exI [of _ "[]"]) auto
  next
    case False
    with m(3) have "length (q @ [v]) < 64" by simp
    moreover from this s1 have "update_byte s v = s1" by (simp add: upd holding_def)
    ultimately show ?thesis using c m(1,2) s1 unfolding absorbed_def
      by (intro conjI exI [of _ p] exI [of _ "q @ [v]"]) auto
  qed
qed

lemma absorbed_update: "absorbed m s \<Longrightarrow> absorbed (m @ bytes) (Sha256_update s bytes)"
proof (induction bytes arbitrary: m s)
  case (Cons b bytes)
  from Cons.IH [OF absorbed_byte [OF Cons.prems, of b]] show ?case by (simp add: Sha256_update_def)
qed (simp add: Sha256_update_def)

lemma absorbed_chunks: "absorbed m s \<Longrightarrow> absorbed (m @ concat chunks) (foldl Sha256_update s chunks)"
proof (induction chunks arbitrary: m s)
  case (Cons c chunks)
  from Cons.IH [OF absorbed_update [OF Cons.prems, of c]] show ?case by simp
qed simp

section \<open>The padding\<close>

lemma holding_length:
  assumes "holding s H q" "length q = 56"
  shows "holding (foldl (\<lambda>s shift. append_byte s (ucast (drop_bit shift n))) s [56, 48, 40, 32, 24, 16, 8, 0]) H
    (q @ map (\<lambda>k. ucast (drop_bit (8 * (7 - k)) (n :: u64))) [0..<8])"
proof -
  have "holding (foldl (\<lambda>s shift. append_byte s (ucast (drop_bit shift n))) s shifts) H
      (q' @ map (\<lambda>shift. ucast (drop_bit shift n)) shifts)"
    if "holding s H q'" "length q' + length shifts \<le> 64" for shifts q' s
    using that
  proof (induction shifts arbitrary: s q')
    case (Cons k shifts)
    have "holding (append_byte s (ucast (drop_bit k n))) H (q' @ [ucast (drop_bit k n)])"
      using Cons.prems by (intro holding_append) auto
    from Cons.IH [OF this] Cons.prems show ?case by simp
  qed simp
  from this [of s q "[56, 48, 40, 32, 24, 16, 8, 0]"] assms
  show ?thesis by (simp add: upt_rec)
qed

lemma finish_block_eq:
  assumes "absorbed m s"
  shows "m_state (finish_block s) = standard_digest m"
proof -
  let ?hash = "\<lambda>p. foldl hash_block (m_state Sha256_initial) (message_blocks p)"
  let ?len = "map (\<lambda>k. ucast (drop_bit (8 * (7 - k)) (of_nat (8 * length m) :: u64))) [0..<8] :: u8 list"
  obtain p q where m: "m = p @ q" "length p mod 64 = 0" "length q < 64" "holding s (?hash p) q"
    and n: "m_byte_count s * 8 = of_nat (8 * length m)"
    using assms unfolding absorbed_def by (auto simp: mult.commute)
  have mod: "length m mod 64 = length q"
    using m(1,2,3) by (simp add: mod_add_left_eq [symmetric])
  define s1 where "s1 = append_byte s 0x80"
  have s1: "holding s1 (?hash p) (q @ [0x80])" unfolding s1_def using m(4,3) by (rule holding_append)
  define s2 where "s2 = (if m_block_size s1 > 56 then transform (fill_zeros (length (m_block s1)) s1) else s1)"
  define s3 where "s3 = fill_zeros 56 s2"
  have fin: "finish_block s = transform (foldl (\<lambda>s shift. append_byte s (ucast (drop_bit shift (of_nat (8 * length m) :: u64))))
      s3 [56, 48, 40, 32, 24, 16, 8, 0])"
    unfolding finish_block_def Let_def n s1_def s2_def s3_def ..
  have "\<exists>p' q'. m @ 0x80 # replicate ((119 - length m mod 64) mod 64) 0 = p' @ q' \<and>
      length p' mod 64 = 0 \<and> length q' = 56 \<and> holding s3 (?hash p') q'"
  proof (cases "length q < 56")
    case True
    then have "s2 = s1" using s1 by (simp add: s2_def holding_def)
    then have "holding s3 (?hash p) ((q @ [0x80]) @ replicate (56 - length (q @ [0x80])) 0)"
      unfolding s3_def using holding_fill [OF s1, of 56] True by simp
    moreover have "119 - length m mod 64 = 64 + (56 - length (q @ [0x80]))" using True mod by simp
    then have "(119 - length m mod 64) mod 64 = 56 - length (q @ [0x80])" by simp
    ultimately show ?thesis using m(1,2) True
      by (intro exI [of _ p] exI [of _ "(q @ [0x80]) @ replicate (56 - length (q @ [0x80])) 0"]) simp
  next
    case False
    let ?q = "(q @ [0x80]) @ replicate (64 - length (q @ [0x80])) 0"
    have full: "length ?q = 64" using m(3) by simp
    have "holding (fill_zeros 64 s1) (?hash p) ?q" using s1 m(3) by (intro holding_fill) auto
    from holding_transform [OF this full] have "holding s2 (hash_block (?hash p) ?q) []"
      using s1 False by (simp add: s2_def holding_def)
    moreover have "hash_block (?hash p) ?q = ?hash (p @ ?q)"
      using message_blocks_append [OF m(2), of ?q] message_blocks_one [OF full] by simp
    ultimately have "holding s2 (?hash (p @ ?q)) []" by simp
    from holding_fill [OF this, of 56] have h: "holding s3 (?hash (p @ ?q)) (replicate 56 0)" by (simp add: s3_def)
    have "(119 - length m mod 64) mod 64 = 64 - length (q @ [0x80]) + 56"
      using False m(3) by (simp add: mod)
    then have "m @ 0x80 # replicate ((119 - length m mod 64) mod 64) 0 = (p @ ?q) @ replicate 56 0"
      using m(1) by (simp add: replicate_add)
    moreover have "length (p @ ?q) mod 64 = 0" using m(2) full by simp
    ultimately show ?thesis using h by (intro exI [of _ "p @ ?q"] exI [of _ "replicate 56 0"]) simp
  qed
  then obtain p' q' where q': "m @ 0x80 # replicate ((119 - length m mod 64) mod 64) 0 = p' @ q'"
    "length p' mod 64 = 0" "length q' = 56" "holding s3 (?hash p') q'" by (elim exE conjE) (rule that; assumption)
  have full: "length (q' @ ?len) = 64" using q'(3) by simp
  from holding_transform [OF holding_length [OF q'(4,3)] full]
  have "m_state (finish_block s) = hash_block (?hash p') (q' @ ?len)" unfolding fin by (simp add: holding_def)
  also have "\<dots> = ?hash (p' @ q' @ ?len)"
    using message_blocks_append [OF q'(2)] message_blocks_one [OF full] by simp
  also have "p' @ q' @ ?len = m @ padding (length m)" using q'(1) by (simp add: padding_def)
  finally show ?thesis by (simp only: standard_digest_def initial_hash_eq)
qed

text \<open>
  C12: the digest is SHA-256.  However the bytes of a message are split over calls of \<open>update\<close>, the
  object returns the sixty-four hexadecimal digits of the digest that FIPS 180-4 defines for the whole
  message: the buffer loses and repeats nothing across blocks, the padding is right also where it
  needs a block of its own, and the table of constants holds the bits of the roots that the standard
  names.
\<close>

theorem digest_is_sha256:
  "Sha256_finish (foldl Sha256_update Sha256_initial chunks) =
     concat (map (\<lambda>w. hex_digits 8 (unat w)) (standard_digest (concat chunks)))"
  using finish_block_eq [OF absorbed_chunks [OF absorbed_initial, of chunks]] by (simp add: Sha256_finish_def)

end
