(* ===== verification/MemorySelection.thy ===== *)
theory MemorySelection
  imports MemoryProjection Sha256 ContextBuilder
begin

text \<open>
  Digests and selections of saved memories: the second half of \<^verbatim>\<open>src/lib/memory.cpp\<close>.  A record is
  bound to its content by the SHA-256 digest of its length-prefixed fields.  A selection lists the
  records a run may see, within a token budget, and is sealed by a digest of its own; a constructed
  context is compared with the selection before it is used.
\<close>

section \<open>Digests of fields\<close>

definition as_bytes :: "string \<Rightarrow> u8 list" where
  "as_bytes v = map (\<lambda>c. of_nat (byte c)) v"

text \<open>The lambda \<^verbatim>\<open>add\<close>: the length, a colon and the text go into the hash, and their sizes into the total.\<close>

definition add_field :: "Sha256 \<times> u64 \<Rightarrow> string \<Rightarrow> Sha256 \<times> u64" where
  "add_field a v =
     (let len = decimal (length v) @ '':'' in
      (Sha256_update (Sha256_update (fst a) (as_bytes len)) (as_bytes v),
       snd a + of_nat (length len + length v)))"

definition digest_fields :: "string list \<Rightarrow> ContentDigest" where
  "digest_fields texts =
     (let a = foldl add_field (Sha256_initial, 0) texts in
      \<lparr>dg_algorithm = ''sha256'', dg_value = Sha256_finish (fst a), dg_byte_size = snd a\<rparr>)"

fun owner_kind_number :: "MemoryOwnerKind \<Rightarrow> nat" where
  "owner_kind_number Owner_global = 0"
| "owner_kind_number Owner_repository = 1"
| "owner_kind_number Owner_persona = 2"
| "owner_kind_number Owner_unknown = 3"

fun memory_kind_number :: "MemoryKind \<Rightarrow> nat" where
  "memory_kind_number Memory_user_preference = 0"
| "memory_kind_number Memory_project_convention = 1"
| "memory_kind_number Memory_workflow = 2"
| "memory_kind_number Memory_reusable_fact = 3"
| "memory_kind_number Memory_unknown = 4"

definition optional_id :: "'t Id option \<Rightarrow> string" where
  "optional_id i = (case i of None \<Rightarrow> [] | Some v \<Rightarrow> id_value v)"

definition memory_record_fields :: "MemoryRecord \<Rightarrow> string list" where
  "memory_record_fields r =
     [''aiforge.memory-record.v1'', id_value (mr_record_id r), id_value (mr_proposal_id r),
      decimal (owner_kind_number (mo_kind (mr_owner r))), optional_id (mo_repository_id (mr_owner r)),
      optional_id (mo_persona_id (mr_owner r)), decimal (memory_kind_number (mr_kind r)), mr_content r, mr_rationale r,
      id_value (ms_session_id (mr_source r)), id_value (ms_run_id (mr_source r)),
      id_value (ms_invocation_id (mr_source r)), decimal (length (ms_event_ids (mr_source r)))] @
     map id_value (ms_event_ids (mr_source r)) @
     [id_value (mpd_model_id (mr_producer r)), mpd_runtime_name (mr_producer r), mpd_runtime_version (mr_producer r)]"

definition memory_record_digest :: "MemoryRecord \<Rightarrow> MemoryErrorCode + ContentDigest" where
  "memory_record_digest r =
     bind_result (validate_memory_record r default_memory_limits) (\<lambda>_. Inr (digest_fields (memory_record_fields r)))"

section \<open>Evidence\<close>

definition owner_word :: "MemoryOwnerKind \<Rightarrow> string" where
  "owner_word k = (if k = Owner_persona then ''persona'' else if k = Owner_repository then ''project'' else ''global'')"

fun kind_words :: "MemoryKind \<Rightarrow> string option" where
  "kind_words Memory_user_preference = Some ''user preference''"
| "kind_words Memory_project_convention = Some ''project convention''"
| "kind_words Memory_workflow = Some ''workflow''"
| "kind_words Memory_reusable_fact = Some ''reusable fact''"
| "kind_words Memory_unknown = None"

definition memory_evidence_input :: "MemoryRecord \<Rightarrow> u64 \<Rightarrow> MemoryErrorCode + ContextContentInput" where
  "memory_evidence_input r order =
     bind_result (validate_memory_record r default_memory_limits) (\<lambda>_.
     case kind_words (mr_kind r) of
       None \<Rightarrow> Inl Memory_invalid_record
     | Some kind \<Rightarrow>
         (let i = id_value (mr_record_id r);
              entry = Id_from (''memory-entry-'' @ i);
              message = Id_from (''memory-message-'' @ i);
              source = Id_from (''memory-source-'' @ i);
              content = ''Saved '' @ owner_word (mo_kind (mr_owner r)) @ '' '' @ kind @ '': '' @ mr_content r in
          fail_if (isl entry \<or> isl message \<or> isl source \<or> order = 0) Memory_invalid_record
          (Inr \<lparr>cci_entry_id = projr entry, cci_kind = Content_evidence,
                cci_message = \<lparr>message_id = projr message, message_role = Role_evidence,
                  message_content = [CB_text \<lparr>tb_text = content\<rparr>], message_invocation_id = None, tool_calls = []\<rparr>,
                cci_provenance = \<lparr>cpv_source_id = projr source,
                  cpv_source_location = Some (''memory:'' @ i @ '';session:'' @ id_value (ms_session_id (mr_source r))),
                  cpv_digest = None\<rparr>,
                cci_order = order, cci_estimated_tokens = of_nat (length content)\<rparr>)))"

section \<open>Selections\<close>

definition selection_valid_digest :: "ContentDigest \<Rightarrow> bool" where
  "selection_valid_digest d \<longleftrightarrow> dg_algorithm d = ''sha256'' \<and> length (dg_value d) = 64 \<and> dg_byte_size d \<noteq> 0 \<and>
     list_all (\<lambda>c. (byte CHR ''0'' \<le> byte c \<and> byte c \<le> byte CHR ''9'') \<or>
                    (byte CHR ''a'' \<le> byte c \<and> byte c \<le> byte CHR ''f'')) (dg_value d)"

text \<open>The variables of the loop over the entries.\<close>

record SelectionScan =
  sc_records :: "MemoryRecordId set"
  sc_order :: u64
  sc_tokens :: u64
  sc_sources :: nat

definition check_selection_entry :: "MemorySelection \<Rightarrow> SelectionScan \<Rightarrow> MemorySelectionEntry \<Rightarrow> MemoryErrorCode + SelectionScan" where
  "check_selection_entry sel s e =
     fail_if (\<not> validate_memory_owner (mse_owner e) \<or>
              (mo_kind (mse_owner e) = Owner_repository \<and> mo_repository_id (mse_owner e) \<noteq> msl_repository_id sel) \<or>
              (mo_kind (mse_owner e) = Owner_persona \<and> mo_persona_id (mse_owner e) \<noteq> msl_persona_id sel) \<or>
              mse_record_id e \<in> sc_records s \<or> mse_order e \<le> sc_order s \<or> mse_estimated_tokens e = 0 \<or>
              mse_estimated_tokens e \<noteq> dg_byte_size (mse_evidence_digest e) \<or>
              \<not> selection_valid_digest (mse_record_digest e) \<or> \<not> selection_valid_digest (mse_evidence_digest e) \<or>
              ms_event_ids (mse_source e) = [] \<or> length (ms_event_ids (mse_source e)) > 256 \<or>
              length (ms_event_ids (mse_source e)) > 4096 - sc_sources s \<or>
              mse_estimated_tokens e > min (msl_maximum_tokens sel) (msl_available_tokens sel) - sc_tokens s)
       Memory_invalid_record
     (fail_if (\<not> distinct (ms_event_ids (mse_source e))) Memory_invalid_record
     (Inr \<lparr>sc_records = insert (mse_record_id e) (sc_records s), sc_order = mse_order e,
           sc_tokens = sc_tokens s + mse_estimated_tokens e,
           sc_sources = sc_sources s + length (ms_event_ids (mse_source e))\<rparr>))"

definition initial_selection_scan :: SelectionScan where
  "initial_selection_scan = \<lparr>sc_records = {}, sc_order = 0, sc_tokens = 0, sc_sources = 0\<rparr>"

definition validate_memory_selection_shape :: "MemorySelection \<Rightarrow> MemoryErrorCode + unit" where
  "validate_memory_selection_shape sel =
     fail_if (msl_version sel \<noteq> 1 \<or> length (msl_entries sel) > 4096) Memory_invalid_record
     (bind_result (replay (check_selection_entry sel) initial_selection_scan (msl_entries sel)) (\<lambda>_. Inr ()))"

definition digest_texts :: "ContentDigest \<Rightarrow> string list" where
  "digest_texts d = [dg_algorithm d, dg_value d, decimal (unat (dg_byte_size d))]"

definition selection_entry_fields :: "MemorySelectionEntry \<Rightarrow> string list" where
  "selection_entry_fields e =
     [id_value (mse_journal_session_id e), id_value (mse_record_id e), id_value (mse_record_event_id e),
      decimal (owner_kind_number (mo_kind (mse_owner e))), optional_id (mo_repository_id (mse_owner e)),
      optional_id (mo_persona_id (mse_owner e)), id_value (ms_session_id (mse_source e)),
      id_value (ms_run_id (mse_source e)), id_value (ms_invocation_id (mse_source e)),
      decimal (length (ms_event_ids (mse_source e)))] @
     map id_value (ms_event_ids (mse_source e)) @
     digest_texts (mse_record_digest e) @ digest_texts (mse_evidence_digest e) @
     [decimal (unat (mse_order e)), decimal (unat (mse_estimated_tokens e))]"

definition memory_selection_digest :: "MemorySelection \<Rightarrow> ContentDigest" where
  "memory_selection_digest sel =
     digest_fields
       ([''aiforge.memory-selection.v1'', decimal (unat (msl_version sel)), optional_id (msl_repository_id sel),
         optional_id (msl_persona_id sel), decimal (unat (msl_maximum_tokens sel)),
         decimal (unat (msl_available_tokens sel)), decimal (length (msl_entries sel))] @
        concat (map selection_entry_fields (msl_entries sel)))"

definition seal_memory_selection :: "MemorySelection \<Rightarrow> MemoryErrorCode + MemorySelection" where
  "seal_memory_selection sel =
     bind_result (validate_memory_selection_shape sel) (\<lambda>_.
     Inr (sel\<lparr>msl_admission_digest := Some (memory_selection_digest sel)\<rparr>))"

definition validate_memory_selection :: "MemorySelection \<Rightarrow> MemoryErrorCode + unit" where
  "validate_memory_selection sel =
     bind_result (validate_memory_selection_shape sel) (\<lambda>_.
     fail_if (msl_admission_digest sel \<noteq> Some (memory_selection_digest sel)) Memory_invalid_record (Inr ()))"

section \<open>Comparison with a context\<close>

definition starts_with :: "string \<Rightarrow> string \<Rightarrow> bool" where
  "starts_with v prefix \<longleftrightarrow> take (length prefix) v = prefix"

definition memory_entry :: "ContextEntry \<Rightarrow> bool" where
  "memory_entry e \<longleftrightarrow> starts_with (id_value (ce_entry_id e)) ''memory-entry-'' \<or>
     (case cpv_source_location (ce_provenance e) of None \<Rightarrow> False | Some v \<Rightarrow> starts_with v ''memory:'')"

definition entry_matches :: "ContextEntry \<Rightarrow> MemorySelectionEntry \<Rightarrow> bool" where
  "entry_matches e selected =
     (let i = id_value (mse_record_id selected); m = ce_message e in
      if ce_kind e \<noteq> Entry_evidence \<or> message_role m \<noteq> Role_evidence \<or> message_invocation_id m \<noteq> None \<or>
         tool_calls m \<noteq> [] \<or> length (message_content m) \<noteq> 1 \<or> ce_order e \<noteq> mse_order selected \<or>
         ce_estimated_tokens e \<noteq> mse_estimated_tokens selected \<or>
         id_value (ce_entry_id e) \<noteq> ''memory-entry-'' @ i \<or> id_value (message_id m) \<noteq> ''memory-message-'' @ i \<or>
         id_value (cpv_source_id (ce_provenance e)) \<noteq> ''memory-source-'' @ i \<or>
         cpv_source_location (ce_provenance e) \<noteq>
           Some (''memory:'' @ i @ '';session:'' @ id_value (ms_session_id (mse_source selected))) \<or>
         cpv_digest (ce_provenance e) \<noteq> None then False
      else case hd (message_content m) of
        CB_text t \<Rightarrow>
          length (tb_text t) = unat (dg_byte_size (mse_evidence_digest selected)) \<and>
          Sha256_finish (Sha256_update Sha256_initial (as_bytes (tb_text t))) = dg_value (mse_evidence_digest selected)
      | _ \<Rightarrow> False)"

fun match_entries :: "MemorySelectionEntry list \<Rightarrow> ContextEntry list \<Rightarrow> bool" where
  "match_entries selected [] \<longleftrightarrow> selected = []"
| "match_entries selected (e # es) =
     (if \<not> memory_entry e then match_entries selected es
      else case selected of [] \<Rightarrow> False
        | s # rest \<Rightarrow> entry_matches e s \<and> match_entries rest es)"

definition memory_selection_matches_context :: "MemorySelection \<Rightarrow> ConstructedContext \<Rightarrow> bool" where
  "memory_selection_matches_context sel context =
     (if isl (validate_memory_selection sel) then False else match_entries (msl_entries sel) (cc_entries context))"


section \<open>The digest binds the fields\<close>

definition field_message :: "string list \<Rightarrow> u8 list" where
  "field_message texts = as_bytes (concat (map append_field texts))"

definition hex_text :: "u32 list \<Rightarrow> string" where
  "hex_text ws = concat (map (\<lambda>w. hex_digits 8 (unat w)) ws)"

lemma as_bytes_append: "as_bytes (v @ w) = as_bytes v @ as_bytes w"
  by (simp add: as_bytes_def)

lemma add_field_absorbed:
  "absorbed m (fst a) \<Longrightarrow> absorbed (m @ field_message texts) (fst (foldl add_field a texts))"
proof (induction texts arbitrary: m a)
  case Nil
  then show ?case by (simp add: field_message_def as_bytes_def)
next
  case (Cons v texts)
  have "absorbed ((m @ as_bytes (decimal (length v) @ '':'')) @ as_bytes v) (fst (add_field a v))"
    using absorbed_update [OF absorbed_update [OF Cons.prems]] by (simp add: add_field_def Let_def)
  from Cons.IH [OF this] show ?case
    by (simp add: field_message_def append_field_def as_bytes_def)
qed

lemma digest_fields_value: "dg_value (digest_fields texts) = hex_text (standard_digest (field_message texts))"
  using finish_block_eq [OF add_field_absorbed [of "[]" "(Sha256_initial, 0)" texts]] absorbed_initial
  by (simp add: digest_fields_def Let_def Sha256_finish_def hex_text_def)

lemma as_bytes_inject: "as_bytes v = as_bytes w \<longleftrightarrow> v = w"
proof -
  have "c = d" if "(of_nat (byte c) :: u8) = of_nat (byte d)" for c d
  proof -
    from that have "unat (of_nat (byte c) :: u8) = unat (of_nat (byte d) :: u8)" by simp
    then show ?thesis using byte_less_256 [of c] byte_less_256 [of d] by (simp add: unat_of_nat byte_inject)
  qed
  then have "inj (\<lambda>c. of_nat (byte c) :: u8)" by (auto simp: inj_def)
  then show ?thesis unfolding as_bytes_def by (rule inj_map_eq_map)
qed

lemma append_field_nonempty [simp]: "append_field v \<noteq> []"
  by (simp add: append_field_def)

lemma fields_inject: "concat (map append_field vs) = concat (map append_field ws) \<longleftrightarrow> vs = ws"
proof (induction vs arbitrary: ws)
  case Nil
  then show ?case by (cases ws) auto
next
  case (Cons v vs)
  show ?case
  proof (cases ws)
    case (Cons w ws')
    then show ?thesis
      using Cons.IH [of ws'] field_unique_split [of v "concat (map append_field vs)" w "concat (map append_field ws')"]
      by auto
  qed simp
qed

lemma field_message_inject: "field_message vs = field_message ws \<longleftrightarrow> vs = ws"
  by (simp add: field_message_def as_bytes_inject fields_inject)

lemma hex_char_inject: "a < 16 \<Longrightarrow> b < 16 \<Longrightarrow> hex_char a = hex_char b \<Longrightarrow> a = b"
  by (auto simp: hex_char_def split: if_splits dest!: arg_cong [where f = byte])

lemma length_hex_digits [simp]: "length (hex_digits k n) = k"
  by (induction k arbitrary: n) auto

lemma hex_digits_inject: "m < 16 ^ k \<Longrightarrow> n < 16 ^ k \<Longrightarrow> hex_digits k m = hex_digits k n \<Longrightarrow> m = n"
proof (induction k arbitrary: m n)
  case (Suc k)
  then have "hex_digits k (m div 16) = hex_digits k (n div 16)" "hex_char (m mod 16) = hex_char (n mod 16)" by auto
  moreover have "m div 16 < 16 ^ k" "n div 16 < 16 ^ k" using Suc.prems by (auto simp: less_mult_imp_div_less mult.commute)
  ultimately have "m div 16 = n div 16" "m mod 16 = n mod 16" using Suc.IH hex_char_inject by auto
  then show ?case by (metis div_mult_mod_eq)
qed simp

lemma hex_text_inject: "length vs = length ws \<Longrightarrow> hex_text vs = hex_text ws \<Longrightarrow> vs = ws"
proof (induction vs ws rule: list_induct2)
  case (Cons v vs w ws)
  then have "hex_digits 8 (unat v) = hex_digits 8 (unat w)" "hex_text vs = hex_text ws" by (auto simp: hex_text_def)
  moreover have "unat x < 16 ^ 8" for x :: u32 using unsigned_less [of x] by simp
  ultimately show ?case using Cons.IH hex_digits_inject [of "unat v" 8 "unat w"] by (simp add: word_unat_eq_iff)
qed (simp add: hex_text_def)

lemma length_standard_digest: "length (standard_digest m) = 8"
proof -
  have "length H = 8 \<Longrightarrow> length (foldl hash_block H bs) = 8" for H bs
    by (induction bs arbitrary: H) (auto simp: hash_block_def list_of_def split: prod.split)
  then show ?thesis by (simp add: standard_digest_def initial_hash_eq Sha256_initial_def)
qed

lemma decimal_inject: "decimal m = decimal n \<longleftrightarrow> m = n"
  by (metis digits_value_decimal)

lemma kind_numbers_inject:
  "owner_kind_number a = owner_kind_number b \<longleftrightarrow> a = b" "memory_kind_number k = memory_kind_number j \<longleftrightarrow> k = j"
  by (cases a; cases b; simp) (cases k; cases j; simp)

lemma optional_id_inject:
  "(i = None) = (j = None) \<Longrightarrow> optional_id i = optional_id j \<Longrightarrow> i = j"
  by (cases i; cases j) (auto simp: optional_id_def intro: Id.expand)

lemma owner_inject:
  assumes "validate_memory_owner a" "validate_memory_owner b" "mo_kind a = mo_kind b"
    "optional_id (mo_repository_id a) = optional_id (mo_repository_id b)"
    "optional_id (mo_persona_id a) = optional_id (mo_persona_id b)"
  shows "a = b"
proof -
  have "(mo_repository_id a = None) = (mo_repository_id b = None) \<and> (mo_persona_id a = None) = (mo_persona_id b = None)"
    using assms(1-3) by (cases "mo_kind a"; auto simp: validate_memory_owner_def)
  then have "mo_repository_id a = mo_repository_id b" "mo_persona_id a = mo_persona_id b"
    using optional_id_inject [of "mo_repository_id a" "mo_repository_id b"]
      optional_id_inject [of "mo_persona_id a" "mo_persona_id b"] assms(4,5) by simp_all
  with assms(3) show ?thesis by (intro MemoryOwner.equality) simp_all
qed

lemma record_fields_inject:
  assumes "memory_record_fields r = memory_record_fields q"
    and "validate_memory_owner (mr_owner r)" "validate_memory_owner (mr_owner q)"
  shows "r = q"
proof -
  let ?ids = "\<lambda>r. map id_value (ms_event_ids (mr_source r))"
  have len: "length (?ids r) = length (?ids q)"
    using arg_cong [OF assms(1), of length] by (simp add: memory_record_fields_def)
  with assms(1) have eq: "mr_content r = mr_content q" "mr_rationale r = mr_rationale q"
    "id_value (mr_record_id r) = id_value (mr_record_id q)" "id_value (mr_proposal_id r) = id_value (mr_proposal_id q)"
    "mo_kind (mr_owner r) = mo_kind (mr_owner q)" "mr_kind r = mr_kind q"
    "optional_id (mo_repository_id (mr_owner r)) = optional_id (mo_repository_id (mr_owner q))"
    "optional_id (mo_persona_id (mr_owner r)) = optional_id (mo_persona_id (mr_owner q))"
    "id_value (ms_session_id (mr_source r)) = id_value (ms_session_id (mr_source q))"
    "id_value (ms_run_id (mr_source r)) = id_value (ms_run_id (mr_source q))"
    "id_value (ms_invocation_id (mr_source r)) = id_value (ms_invocation_id (mr_source q))" "?ids r = ?ids q"
    "id_value (mpd_model_id (mr_producer r)) = id_value (mpd_model_id (mr_producer q))"
    "mpd_runtime_name (mr_producer r) = mpd_runtime_name (mr_producer q)"
    "mpd_runtime_version (mr_producer r) = mpd_runtime_version (mr_producer q)"
    by (simp_all add: memory_record_fields_def decimal_inject kind_numbers_inject)
  have "ms_event_ids (mr_source r) = ms_event_ids (mr_source q)"
    using eq(12) inj_map_eq_map [of "id_value :: _ \<Rightarrow> string"] by (simp add: inj_def Id.expand)
  then have "mr_source r = mr_source q" using eq by (intro MemorySource.equality) (simp_all add: Id.expand)
  moreover have "mr_producer r = mr_producer q" using eq by (intro MemoryProducer.equality) (simp_all add: Id.expand)
  moreover have "mr_owner r = mr_owner q" using eq assms(2,3) by (intro owner_inject)
  ultimately show ?thesis using eq by (intro MemoryRecord.equality) (simp_all add: Id.expand)
qed


text \<open>The bytes that are hashed for a record.\<close>

definition record_message :: "MemoryRecord \<Rightarrow> u8 list" where
  "record_message r = field_message (memory_record_fields r)"

lemma digest_owner: "memory_record_digest r = Inr d \<Longrightarrow> validate_memory_owner (mr_owner r) \<and>
    dg_value d = hex_text (standard_digest (record_message r))"
  by (auto simp: memory_record_digest_def validate_memory_record_def validate_memory_proposal_def proposal_of_record_def
      record_message_def digest_fields_value)

text \<open>
  C16: the digest of a memory binds all of it.  The value of the digest is SHA-256 of an encoding of the
  record, and different records have different encodings: two records that share a digest are a
  collision of SHA-256.
\<close>

theorem memory_digest_binds_record:
  assumes "memory_record_digest r = Inr d" "memory_record_digest q = Inr e"
  shows "(record_message r = record_message q \<longleftrightarrow> r = q) \<and>
    dg_value d = hex_text (standard_digest (record_message r)) \<and>
    (dg_value d = dg_value e \<longleftrightarrow> standard_digest (record_message r) = standard_digest (record_message q))"
proof -
  note owners = digest_owner [OF assms(1)] digest_owner [OF assms(2)]
  have "record_message r = record_message q \<longleftrightarrow> r = q"
    using record_fields_inject [of r q] owners by (auto simp: record_message_def field_message_inject)
  moreover have "standard_digest (record_message r) = standard_digest (record_message q)" if "dg_value d = dg_value e"
    using that owners by (intro hex_text_inject) (simp_all add: length_standard_digest)
  ultimately show ?thesis using owners by auto
qed

theorem memory_digest_binds_record_witness:
  "record_message sample_memory_record \<noteq> record_message (sample_memory_record\<lparr>mr_content := ''w''\<rparr>) \<and>
   (\<exists>d. memory_record_digest sample_memory_record = Inr d \<and>
     dg_value d = hex_text (standard_digest (record_message sample_memory_record)))"
proof -
  let ?r = "sample_memory_record\<lparr>mr_content := ''w''\<rparr>"
  have "?r \<noteq> sample_memory_record" by (simp add: sample_memory_record_def)
  moreover have "\<exists>d. memory_record_digest sample_memory_record = Inr d" "\<exists>e. memory_record_digest ?r = Inr e"
    by (simp_all add: memory_record_digest_def sample_record_valid sample_record_edited)
  ultimately show ?thesis
    using memory_digest_binds_record [of sample_memory_record _ ?r] by metis
qed

section \<open>Selections keep their budget\<close>

lemma check_selection_entry_Inr:
  "check_selection_entry sel s e = Inr s' \<Longrightarrow>
    mse_record_id e \<notin> sc_records s \<and> sc_records s' = insert (mse_record_id e) (sc_records s) \<and>
    sc_order s < mse_order e \<and> sc_order s' = mse_order e \<and> sc_tokens s' = sc_tokens s + mse_estimated_tokens e \<and>
    mse_estimated_tokens e \<le> min (msl_maximum_tokens sel) (msl_available_tokens sel) - sc_tokens s"
  by (auto simp: check_selection_entry_def not_le not_less)

definition scanned :: "MemorySelection \<Rightarrow> MemorySelectionEntry list \<Rightarrow> SelectionScan \<Rightarrow> bool" where
  "scanned sel es s \<longleftrightarrow> sc_records s = mse_record_id ` set es \<and> distinct (map mse_record_id es) \<and>
     sorted_wrt (<) (map mse_order es) \<and> (\<forall>e \<in> set es. mse_order e \<le> sc_order s) \<and>
     unat (sc_tokens s) = sum_list (map (\<lambda>e. unat (mse_estimated_tokens e)) es) \<and>
     sc_tokens s \<le> min (msl_maximum_tokens sel) (msl_available_tokens sel)"

lemma scanned_step:
  assumes "scanned sel es s" "check_selection_entry sel s e = Inr s'"
  shows "scanned sel (es @ [e]) s'"
proof -
  let ?m = "min (msl_maximum_tokens sel) (msl_available_tokens sel)"
  note e = check_selection_entry_Inr [OF assms(2)]
  have le: "sc_tokens s \<le> ?m" using assms(1) by (simp add: scanned_def)
  from unat_sub [OF le] have "unat (mse_estimated_tokens e) \<le> unat ?m - unat (sc_tokens s)"
    using e by (simp add: word_le_nat_alt)
  moreover have "unat (sc_tokens s) \<le> unat ?m" using le by (simp add: word_le_nat_alt)
  ultimately have fits: "unat (sc_tokens s) + unat (mse_estimated_tokens e) \<le> unat ?m" by linarith
  then have sum: "unat (sc_tokens s + mse_estimated_tokens e) = unat (sc_tokens s) + unat (mse_estimated_tokens e)"
    using unat_u64_less [of ?m] by (intro unat_add_no_overflow) linarith
  then have "sc_tokens s + mse_estimated_tokens e \<le> ?m" using fits by (simp add: word_le_nat_alt)
  with assms(1) e sum show ?thesis by (auto simp: scanned_def sorted_wrt_append)
qed

lemma scanned_all: "replay (check_selection_entry sel) initial_selection_scan es = Inr s \<Longrightarrow> scanned sel es s"
proof (induction es arbitrary: s rule: rev_induct)
  case Nil
  then show ?case by (auto simp: scanned_def initial_selection_scan_def)
next
  case (snoc e es)
  then show ?case by (auto simp: replay_snoc intro: scanned_step)
qed

lemma valid_selection:
  assumes "validate_memory_selection_shape sel = Inr ()"
  shows "distinct (map mse_record_id (msl_entries sel)) \<and> sorted_wrt (<) (map mse_order (msl_entries sel)) \<and>
    sum_list (map (\<lambda>e. unat (mse_estimated_tokens e)) (msl_entries sel)) \<le>
      unat (min (msl_maximum_tokens sel) (msl_available_tokens sel))"
proof -
  obtain s where "scanned sel (msl_entries sel) s"
    using assms scanned_all by (auto simp: validate_memory_selection_shape_def)
  then show ?thesis by (simp add: scanned_def word_le_nat_alt)
qed

lemma match_entries_iff: "match_entries selected es \<longleftrightarrow> list_all2 entry_matches (filter memory_entry es) selected"
  by (induction es arbitrary: selected) (auto split: list.split)

lemma entry_matches_props:
  assumes "entry_matches e x"
  shows "id_value (ce_entry_id e) = ''memory-entry-'' @ id_value (mse_record_id x)" "ce_order e = mse_order x"
    "ce_estimated_tokens e = mse_estimated_tokens x"
    "\<exists>t. message_content (ce_message e) = [CB_text t] \<and>
       Sha256_finish (Sha256_update Sha256_initial (as_bytes (tb_text t))) = dg_value (mse_evidence_digest x)"
  using assms
  by (auto simp: entry_matches_def Let_def length_Suc_conv split: if_split_asm ContentBlock.split_asm)

lemma selection_tokens:
  "list_all2 entry_matches es xs \<Longrightarrow>
    map (\<lambda>e. unat (ce_estimated_tokens e)) es = map (\<lambda>x. unat (mse_estimated_tokens x)) xs"
  by (induction rule: list_all2_induct) (auto dest: entry_matches_props)

text \<open>A sealed selection validates as it is.\<close>

lemma sealed_selection_validates:
  assumes "seal_memory_selection sel = Inr sealed"
  shows "validate_memory_selection sealed = Inr ()"
proof -
  let ?d = "Some (memory_selection_digest sel)"
  have shape: "validate_memory_selection_shape sel = Inr ()" and sealed: "sealed = sel\<lparr>msl_admission_digest := ?d\<rparr>"
    using assms by (auto simp: seal_memory_selection_def)
  have "check_selection_entry (sel\<lparr>msl_admission_digest := ?d\<rparr>) = check_selection_entry sel"
    by (simp add: fun_eq_iff check_selection_entry_def)
  then have "validate_memory_selection_shape sealed = Inr ()"
    using shape unfolding sealed validate_memory_selection_shape_def by simp
  then show ?thesis unfolding validate_memory_selection_def by (simp add: sealed memory_selection_digest_def)
qed

text \<open>
  C15: a context shows the selected memories and no others.  When a context matches a selection, its
  memory entries are, one by one and in order, those of the selection: each has the identity of the
  selected record, one text block whose SHA-256 digest is the recorded one, and the recorded estimate;
  no record appears twice, and together they stay within the tokens the selection may use.
\<close>

theorem context_shows_selected_memories:
  assumes "memory_selection_matches_context sel context"
  shows "list_all2 (\<lambda>e x. id_value (ce_entry_id e) = ''memory-entry-'' @ id_value (mse_record_id x) \<and>
        ce_order e = mse_order x \<and>
        (\<exists>t. message_content (ce_message e) = [CB_text t] \<and>
          Sha256_finish (Sha256_update Sha256_initial (as_bytes (tb_text t))) = dg_value (mse_evidence_digest x)))
      (filter memory_entry (cc_entries context)) (msl_entries sel) \<and>
    distinct (map mse_record_id (msl_entries sel)) \<and>
    sum_list (map (\<lambda>e. unat (ce_estimated_tokens e)) (filter memory_entry (cc_entries context))) \<le>
      unat (min (msl_maximum_tokens sel) (msl_available_tokens sel))"
proof -
  have valid: "validate_memory_selection sel = Inr ()"
    and match: "list_all2 entry_matches (filter memory_entry (cc_entries context)) (msl_entries sel)"
    using assms by (auto simp: memory_selection_matches_context_def match_entries_iff ok_iff split: if_split_asm)
  have shape: "validate_memory_selection_shape sel = Inr ()" using valid by (simp add: validate_memory_selection_def)
  show ?thesis
    using list_all2_mono [OF match] entry_matches_props selection_tokens [OF match] valid_selection [OF shape]
    by auto
qed


section \<open>A sample selection\<close>

lemma hex_digits_chars:
  "list_all (\<lambda>c. (48 \<le> byte c \<and> byte c \<le> 57) \<or> (97 \<le> byte c \<and> byte c \<le> 102)) (hex_digits k n)"
proof (induction k arbitrary: n)
  case (Suc k)
  have "(48 \<le> byte (hex_char d) \<and> byte (hex_char d) \<le> 57) \<or> (97 \<le> byte (hex_char d) \<and> byte (hex_char d) \<le> 102)"
    if "d < 16" for d using that by (simp add: hex_char_def byte_char_of)
  with Suc show ?case by simp
qed simp

lemma sha256_text_valid:
  "selection_valid_digest \<lparr>dg_algorithm = ''sha256'', dg_value = Sha256_finish (Sha256_update Sha256_initial m), dg_byte_size = 1\<rparr>"
proof -
  have "absorbed m (Sha256_update Sha256_initial m)" using absorbed_update [OF absorbed_initial, of m] by simp
  then have v: "Sha256_finish (Sha256_update Sha256_initial m) = hex_text (standard_digest m)"
    by (simp add: Sha256_finish_def hex_text_def finish_block_eq)
  have "length (hex_text ws) = 8 * length ws" for ws by (induction ws) (simp_all add: hex_text_def)
  moreover have "list_all (\<lambda>c. (48 \<le> byte c \<and> byte c \<le> 57) \<or> (97 \<le> byte c \<and> byte c \<le> 102)) (hex_text ws)" for ws
    by (induction ws) (simp_all add: hex_text_def hex_digits_chars)
  ultimately show ?thesis by (simp add: selection_valid_digest_def v length_standard_digest byte_def)
qed

definition sample_evidence_digest :: ContentDigest where
  "sample_evidence_digest =
     \<lparr>dg_algorithm = ''sha256'', dg_value = Sha256_finish (Sha256_update Sha256_initial (as_bytes ''x'')), dg_byte_size = 1\<rparr>"

definition sample_selection :: MemorySelection where
  "sample_selection =
     \<lparr>msl_version = 1, msl_repository_id = None, msl_persona_id = None, msl_maximum_tokens = 8, msl_available_tokens = 4,
      msl_entries =
        [\<lparr>mse_journal_session_id = Id ''s'', mse_record_id = Id ''k'', mse_record_event_id = Id ''ee'',
          mse_owner = MemoryOwner_global, mse_source = sample_memory_source, mse_record_digest = sample_evidence_digest,
          mse_evidence_digest = sample_evidence_digest, mse_order = 1, mse_estimated_tokens = 1\<rparr>],
      msl_admission_digest = None\<rparr>"

definition sample_memory_context :: ConstructedContext where
  "sample_memory_context =
     \<lparr>cc_entries =
        [\<lparr>ce_entry_id = Id ''memory-entry-k'', ce_kind = Entry_evidence, ce_instruction_layer = None,
          ce_message = \<lparr>message_id = Id ''memory-message-k'', message_role = Role_evidence,
            message_content = [CB_text \<lparr>tb_text = ''x''\<rparr>], message_invocation_id = None, tool_calls = []\<rparr>,
          ce_provenance = \<lparr>cpv_source_id = Id ''memory-source-k'', cpv_source_location = Some ''memory:k;session:s'',
            cpv_digest = None\<rparr>,
          ce_specificity = 0, ce_order = 1, ce_estimated_tokens = 1\<rparr>],
      cc_decisions = [],
      cc_capacity = \<lparr>context_window_tokens = 8, reserved_output_tokens = 1, reserved_input_tokens = 0\<rparr>,
      cc_estimated_input_tokens = 1\<rparr>"

lemma sample_selection_sealed:
  "seal_memory_selection sample_selection =
    Inr (sample_selection\<lparr>msl_admission_digest := Some (memory_selection_digest sample_selection)\<rparr>)"
proof -
  have "selection_valid_digest sample_evidence_digest" unfolding sample_evidence_digest_def by (rule sha256_text_valid)
  moreover have "dg_byte_size sample_evidence_digest = 1" by (simp add: sample_evidence_digest_def)
  ultimately have "validate_memory_selection_shape sample_selection = Inr ()"
    by (simp add: validate_memory_selection_shape_def check_selection_entry_def sample_selection_def
        initial_selection_scan_def validate_memory_owner_def MemoryOwner_global_def sample_memory_source_def
        word_le_nat_alt min_def)
  then show ?thesis by (simp add: seal_memory_selection_def)
qed

theorem context_shows_selected_memories_witness:
  "\<exists>sel. seal_memory_selection sample_selection = Inr sel \<and> memory_selection_matches_context sel sample_memory_context \<and>
    length (filter memory_entry (cc_entries sample_memory_context)) = 1 \<and>
    sum_list (map (\<lambda>e. unat (ce_estimated_tokens e)) (filter memory_entry (cc_entries sample_memory_context))) \<le>
      unat (min (msl_maximum_tokens sel) (msl_available_tokens sel))"
proof -
  let ?sel = "sample_selection\<lparr>msl_admission_digest := Some (memory_selection_digest sample_selection)\<rparr>"
  have "validate_memory_selection ?sel = Inr ()"
    using sealed_selection_validates [OF sample_selection_sealed] .
  then have match: "memory_selection_matches_context ?sel sample_memory_context"
    by (simp add: memory_selection_matches_context_def match_entries_iff sample_memory_context_def memory_entry_def
        starts_with_def entry_matches_def sample_selection_def sample_memory_source_def sample_evidence_digest_def)
  have one: "length (filter memory_entry (cc_entries sample_memory_context)) = 1"
    by (simp add: sample_memory_context_def memory_entry_def starts_with_def)
  from context_shows_selected_memories [OF match] match one sample_selection_sealed
  show ?thesis by (intro exI [of _ ?sel]) simp
qed

end
