(* ===== verification/ReviewGate.thy ===== *)
theory ReviewGate
  imports ReviewProjection Pricing
begin

text \<open>
  The merge gate: \<^verbatim>\<open>src/lib/review_gate.cpp\<close> and \<^verbatim>\<open>include/aiforge/runtime/review_gate.hpp\<close>.  The gate
  compares a review receipt with a policy and with the candidate and evidence of the moment, and
  authorizes a merge or says what invalidates the review.  The port of the hosted check is a parameter:
  a function from the published update to the confirmation or error it answers with.
\<close>

section \<open>Data\<close>

record ReviewPolicyRequirement =
  rpr_requirement_id :: ReviewRequirementId
  rpr_kind :: ReviewEvidenceKind
  rpr_producer_name :: string
  rpr_producer_version :: string
  rpr_scenario_id :: "string option"
  rpr_scenario_corpus_version :: "string option"

record ReviewAuthorizationPolicy =
  rap_required_evidence :: "ReviewPolicyRequirement list"
  rap_allow_human_override :: bool
  rap_trusted_override_actor_ids :: "string list"
  rap_require_hosted_check :: bool

record ReviewGateEnvironment =
  rge_current_candidate :: ReviewCandidate
  rge_current_evidence :: "ReviewEvidenceBinding list"

datatype ReviewInvalidationTrigger =
    Trigger_candidate_changed | Trigger_requirement_missing | Trigger_evidence_changed
  | Trigger_verifier_version_changed | Trigger_scenario_version_changed | Trigger_artifact_missing_or_changed
  | Trigger_findings_open | Trigger_verdict_missing | Trigger_verdict_conflicted | Trigger_verdict_not_approved
  | Trigger_approval_revoked | Trigger_override_untrusted

datatype ReviewAuthorizationSource = Source_receipt | Source_human_override

datatype ReviewGateState = Gate_denied | Gate_invalidated | Gate_authorized | Gate_overridden

datatype HostedReviewCheckState = Hosted_success | Hosted_failure

record HostedReviewCheckUpdate =
  hcu_receipt_id :: ReviewReceiptId
  hcu_candidate :: ReviewCandidate
  hcu_state :: HostedReviewCheckState
  hcu_decision_digest :: ContentDigest
  hcu_summary :: string

record HostedReviewCheckConfirmation =
  hcc_candidate :: ReviewCandidate
  hcc_state :: HostedReviewCheckState
  hcc_decision_digest :: ContentDigest

datatype HostedReviewCheckErrorCode =
  Hosted_unavailable | Hosted_rejected | Hosted_mismatched_confirmation | Hosted_internal_failure

record HostedReviewCheckError =
  hce_code :: HostedReviewCheckErrorCode
  hce_retryable :: bool

type_synonym HostedReviewCheckPort =
  "HostedReviewCheckUpdate \<Rightarrow> HostedReviewCheckError + HostedReviewCheckConfirmation"

record MergeAuthorization =
  mau_receipt_id :: ReviewReceiptId
  mau_candidate :: ReviewCandidate
  mau_source :: ReviewAuthorizationSource
  mau_decision_digest :: ContentDigest

record ReviewGateDecision =
  rgd_state :: ReviewGateState
  rgd_authorization :: "MergeAuthorization option"
  rgd_triggers :: "ReviewInvalidationTrigger list"
  rgd_hosted_check :: "HostedReviewCheckConfirmation option"
  rgd_explanation :: string

datatype ReviewGateErrorCode =
  Gate_invalid_policy | Gate_invalid_environment | Gate_invalid_projection | Gate_hosted_check_failure | Gate_internal_failure

record ReviewGateError =
  rgx_code :: ReviewGateErrorCode
  rgx_retryable :: bool

definition gate_error :: "ReviewGateErrorCode \<Rightarrow> bool \<Rightarrow> ReviewGateError" where
  "gate_error code retryable = \<lparr>rgx_code = code, rgx_retryable = retryable\<rparr>"

section \<open>Policies and triggers\<close>

definition gate_bounded_text :: "string \<Rightarrow> nat \<Rightarrow> bool" where
  "gate_bounded_text v maximum \<longleftrightarrow>
     v \<noteq> [] \<and> length v \<le> maximum \<and> \<not> list_ex (\<lambda>c. byte c < 0x20 \<or> byte c = 0x7f) v"

definition valid_requirement :: "ReviewPolicyRequirement \<Rightarrow> bool" where
  "valid_requirement r =
     (if \<not> gate_bounded_text (rpr_producer_name r) 4096 \<or> \<not> gate_bounded_text (rpr_producer_version r) 4096 then False
      else let scenario = rpr_kind r = Review_scenario in
        scenario = (rpr_scenario_id r \<noteq> None) \<and> scenario = (rpr_scenario_corpus_version r \<noteq> None) \<and>
        optional (\<lambda>v. gate_bounded_text v 4096) (rpr_scenario_id r) \<and>
        optional (\<lambda>v. gate_bounded_text v 4096) (rpr_scenario_corpus_version r))"

definition add_trigger ::
  "ReviewInvalidationTrigger \<Rightarrow> ReviewInvalidationTrigger list \<Rightarrow> ReviewInvalidationTrigger list" where
  "add_trigger t ts = (if t \<in> set ts then ts else ts @ [t])"

definition add_trigger_if ::
  "bool \<Rightarrow> ReviewInvalidationTrigger \<Rightarrow> ReviewInvalidationTrigger list \<Rightarrow> ReviewInvalidationTrigger list" where
  "add_trigger_if c t ts = (if c then add_trigger t ts else ts)"

fun evidence_trigger :: "ReviewInvalidationTrigger \<Rightarrow> bool" where
  "evidence_trigger Trigger_candidate_changed = True"
| "evidence_trigger Trigger_requirement_missing = True"
| "evidence_trigger Trigger_evidence_changed = True"
| "evidence_trigger Trigger_verifier_version_changed = True"
| "evidence_trigger Trigger_scenario_version_changed = True"
| "evidence_trigger Trigger_artifact_missing_or_changed = True"
| "evidence_trigger _ = False"

definition evidence_invalidated :: "ReviewInvalidationTrigger list \<Rightarrow> bool" where
  "evidence_invalidated ts = list_ex evidence_trigger ts"

definition same_artifacts :: "ReviewArtifactDigest list \<Rightarrow> ReviewArtifactDigest list \<Rightarrow> bool" where
  "same_artifacts left right =
     (if length left \<noteq> length right then False
      else list_all (\<lambda>expected.
        case find (\<lambda>a. rad_artifact_id a = rad_artifact_id expected) right of
          None \<Rightarrow> False
        | Some found \<Rightarrow> rad_digest found = rad_digest expected) left)"

section \<open>The digest of a decision\<close>

definition optional_field :: "string option \<Rightarrow> string" where
  "optional_field v = (case v of None \<Rightarrow> append_field ''absent'' | Some x \<Rightarrow> append_field ''present'' @ append_field x)"

definition append_content_digest :: "ContentDigest \<Rightarrow> string" where
  "append_content_digest d =
     append_field (dg_algorithm d) @ append_field (dg_value d) @ append_field (decimal (unat (dg_byte_size d)))"

definition append_participant :: "ReviewParticipantProvenance \<Rightarrow> string" where
  "append_participant p =
     append_field (ra_actor_id (rpp_actor p)) @ append_field (ra_display_name (rpp_actor p)) @
     append_field (case rpp_run_id p of None \<Rightarrow> '''' | Some i \<Rightarrow> id_value i) @
     optional_field (rpp_backend_id p) @ optional_field (rpp_backend_version p) @
     append_field (case rpp_model_id p of None \<Rightarrow> '''' | Some i \<Rightarrow> id_value i) @
     optional_field (rpp_model_version p)"

fun severity_number :: "ReviewFindingSeverity \<Rightarrow> nat" where
  "severity_number Severity_low = 0"
| "severity_number Severity_medium = 1"
| "severity_number Severity_high = 2"
| "severity_number Severity_critical = 3"

fun verdict_number :: "ReviewVerdict \<Rightarrow> nat" where
  "verdict_number Verdict_approved = 0"
| "verdict_number Verdict_changes_requested = 1"
| "verdict_number Verdict_rejected = 2"

definition canonical_requirement :: "ReviewPolicyRequirement \<Rightarrow> string" where
  "canonical_requirement r =
     append_field (id_value (rpr_requirement_id r)) @ append_field (rpr_producer_name r) @
     append_field (rpr_producer_version r) @ optional_field (rpr_scenario_id r) @
     optional_field (rpr_scenario_corpus_version r)"

definition canonical_binding :: "ReviewEvidenceBinding \<Rightarrow> string" where
  "canonical_binding b =
     append_field (id_value (reb_requirement_id b)) @ append_field (reb_producer_name b) @
     append_field (reb_producer_version b) @ optional_field (reb_scenario_id b) @
     optional_field (reb_scenario_corpus_version b) @ optional_field (reb_scenario_application_revision b) @
     append_content_digest (reb_result_digest b) @
     (case reb_scenario_fake_script_digest b of
        Some d \<Rightarrow> append_field ''fake-script-present'' @ append_content_digest d
      | None \<Rightarrow> append_field ''fake-script-absent'') @
     (case reb_scenario_terminal_capabilities_digest b of
        Some d \<Rightarrow> append_field ''terminal-capabilities-present'' @ append_content_digest d
      | None \<Rightarrow> append_field ''terminal-capabilities-absent'') @
     concat (map (\<lambda>a. append_field (id_value (rad_artifact_id a)) @ append_content_digest (rad_digest a)) (reb_artifacts b))"

definition canonical_finding :: "ProjectedReviewFinding \<Rightarrow> string" where
  "canonical_finding v =
     (let f = prf_finding v in
      append_field (id_value (rf_finding_id f)) @ append_field (rf_summary f) @
      append_field (decimal (severity_number (rf_severity f))) @
      append_field (if rf_source f \<noteq> None then ''source-present'' else ''source-absent'') @
      (case rf_source f of None \<Rightarrow> []
       | Some s \<Rightarrow> append_field (id_value (rsi_repository_id (rso_snapshot s))) @
           append_content_digest (rsi_fingerprint (rso_snapshot s)) @ append_field (rso_relative_path s) @
           append_content_digest (rso_content_digest s)) @
      concat (map (\<lambda>a. append_field (id_value a)) (rf_artifacts f)) @
      concat (map (\<lambda>e. append_field (id_value e)) (rf_reproduction_evidence_ids f)) @
      append_field (if prf_open v then ''open'' else ''resolved''))"

definition canonical_verdict :: "ProjectedReviewVerdict \<Rightarrow> string" where
  "canonical_verdict v =
     append_field (id_value (prv_event_id v)) @ append_field (ra_actor_id (prv_reviewer v)) @
     append_field (if prv_active v then ''active'' else ''revoked'') @
     append_field (decimal (verdict_number (prv_verdict v))) @
     append_field (if prv_reviewer_provenance v \<noteq> None then ''provenance-present'' else ''provenance-absent'') @
     (case prv_reviewer_provenance v of None \<Rightarrow> [] | Some p \<Rightarrow> append_participant p)"

definition canonical_decision ::
  "ReviewReceiptDraft \<Rightarrow> ReviewReceiptProjection \<Rightarrow> ReviewAuthorizationPolicy \<Rightarrow> ReviewAuthorizationSource \<Rightarrow>
   ProjectedReviewOverride option \<Rightarrow> string" where
  "canonical_decision draft projection policy source selected_override =
     append_field (id_value (rd_receipt_id draft)) @
     append_field (id_value (rsi_repository_id (rc_snapshot (rd_candidate draft)))) @
     append_content_digest (rsi_fingerprint (rc_snapshot (rd_candidate draft))) @
     append_field (rc_revision (rd_candidate draft)) @
     append_field (if rd_author draft \<noteq> None then ''author-present'' else ''author-absent'') @
     (case rd_author draft of None \<Rightarrow> [] | Some a \<Rightarrow> append_participant a) @
     append_field (if source = Source_receipt then ''receipt'' else ''override'') @
     concat (map canonical_requirement (rap_required_evidence policy)) @
     concat (map canonical_binding (rd_evidence draft)) @
     concat (map canonical_finding (rj_findings projection)) @
     concat (map canonical_verdict (rj_verdicts projection)) @
     (case selected_override of None \<Rightarrow> []
      | Some v \<Rightarrow> append_field (id_value (ro_override_id (pro_value v))) @
          append_field (ra_actor_id (ro_actor (pro_value v))) @ append_field (ro_reason (pro_value v)))"

definition decision_digest ::
  "ReviewReceiptDraft \<Rightarrow> ReviewReceiptProjection \<Rightarrow> ReviewAuthorizationPolicy \<Rightarrow> ReviewAuthorizationSource \<Rightarrow>
   ProjectedReviewOverride option \<Rightarrow> ContentDigest" where
  "decision_digest draft projection policy source selected_override =
     (let canonical = canonical_decision draft projection policy source selected_override in
      \<lparr>dg_algorithm = ''fnv1a64'',
       dg_value = hex_digits 16 (unat (fnv1a64 14695981039346656037 canonical)),
       dg_byte_size = of_nat (length canonical)\<rparr>)"

section \<open>The gate\<close>

definition check_gate_policy :: "ReviewAuthorizationPolicy \<Rightarrow> bool" where
  "check_gate_policy policy \<longleftrightarrow>
     \<not> (rap_required_evidence policy = [] \<or> list_ex (\<lambda>r. \<not> valid_requirement r) (rap_required_evidence policy)) \<and>
     \<not> (\<not> distinct (map rpr_requirement_id (rap_required_evidence policy)) \<or>
        \<not> distinct (rap_trusted_override_actor_ids policy) \<or>
        list_ex (\<lambda>a. \<not> gate_bounded_text a 4096) (rap_trusted_override_actor_ids policy) \<or>
        (\<not> rap_allow_human_override policy \<and> rap_trusted_override_actor_ids policy \<noteq> []))"

definition check_gate_environment :: "ReviewGateEnvironment \<Rightarrow> bool" where
  "check_gate_environment env \<longleftrightarrow>
     \<not> isl (validate_review_candidate (rge_current_candidate env) default_review_limits) \<and>
     list_all (\<lambda>b. \<not> isl (validate_review_evidence_binding b default_review_limits)) (rge_current_evidence env) \<and>
     distinct (map reb_requirement_id (rge_current_evidence env))"

text \<open>One round of the loop over the required evidence.\<close>

definition requirement_triggers ::
  "ReviewReceiptDraft \<Rightarrow> ReviewGateEnvironment \<Rightarrow> ReviewPolicyRequirement \<Rightarrow> ReviewInvalidationTrigger list \<Rightarrow>
   ReviewInvalidationTrigger list" where
  "requirement_triggers draft env required ts =
     (case find (\<lambda>b. reb_requirement_id b = rpr_requirement_id required) (rd_evidence draft) of
        None \<Rightarrow> add_trigger Trigger_requirement_missing ts
      | Some recorded \<Rightarrow>
          (let ts = add_trigger_if (reb_producer_name recorded \<noteq> rpr_producer_name required \<or>
                      reb_producer_version recorded \<noteq> rpr_producer_version required \<or>
                      reb_kind recorded \<noteq> rpr_kind required) Trigger_verifier_version_changed ts;
               ts = add_trigger_if (reb_scenario_id recorded \<noteq> rpr_scenario_id required \<or>
                      reb_scenario_corpus_version recorded \<noteq> rpr_scenario_corpus_version required)
                      Trigger_scenario_version_changed ts in
           case find (\<lambda>b. reb_requirement_id b = rpr_requirement_id required) (rge_current_evidence env) of
             None \<Rightarrow> add_trigger Trigger_requirement_missing ts
           | Some current \<Rightarrow>
               (let ts = add_trigger_if (reb_kind current \<noteq> rpr_kind required \<or>
                           reb_producer_name current \<noteq> rpr_producer_name required \<or>
                           reb_producer_version current \<noteq> rpr_producer_version required) Trigger_verifier_version_changed ts;
                    ts = add_trigger_if (reb_scenario_id current \<noteq> rpr_scenario_id required \<or>
                           reb_scenario_corpus_version current \<noteq> rpr_scenario_corpus_version required)
                           Trigger_scenario_version_changed ts;
                    ts = add_trigger_if (reb_result_digest current \<noteq> reb_result_digest recorded \<or>
                           reb_verification_evidence_id current \<noteq> reb_verification_evidence_id recorded \<or>
                           reb_scenario_application_revision current \<noteq> reb_scenario_application_revision recorded \<or>
                           reb_scenario_fake_script_digest current \<noteq> reb_scenario_fake_script_digest recorded \<or>
                           reb_scenario_terminal_capabilities_digest current \<noteq>
                             reb_scenario_terminal_capabilities_digest recorded) Trigger_evidence_changed ts in
                add_trigger_if (\<not> same_artifacts (reb_artifacts recorded) (reb_artifacts current))
                  Trigger_artifact_missing_or_changed ts)))"

fun state_triggers :: "ReviewReceiptState \<Rightarrow> ReviewInvalidationTrigger list \<Rightarrow> ReviewInvalidationTrigger list" where
  "state_triggers Receipt_approved ts = ts"
| "state_triggers Receipt_findings_open ts = add_trigger Trigger_findings_open ts"
| "state_triggers Receipt_conflicted ts = add_trigger Trigger_verdict_conflicted ts"
| "state_triggers Receipt_changes_requested ts = add_trigger Trigger_verdict_not_approved ts"
| "state_triggers Receipt_rejected ts = add_trigger Trigger_verdict_not_approved ts"
| "state_triggers Receipt_revoked ts = add_trigger Trigger_approval_revoked ts"
| "state_triggers Receipt_not_started ts = add_trigger Trigger_verdict_missing ts"
| "state_triggers Receipt_draft ts = add_trigger Trigger_verdict_missing ts"
| "state_triggers Receipt_review_requested ts = add_trigger Trigger_verdict_missing ts"

definition active_trusted_override ::
  "ReviewReceiptProjection \<Rightarrow> ReviewAuthorizationPolicy \<Rightarrow> ProjectedReviewOverride option" where
  "active_trusted_override receipt policy =
     find (\<lambda>v. pro_active v \<and> ra_actor_id (ro_actor (pro_value v)) \<in> set (rap_trusted_override_actor_ids policy))
       (rj_overrides receipt)"

definition trusted_override :: "ReviewReceiptProjection \<Rightarrow> ReviewAuthorizationPolicy \<Rightarrow> bool" where
  "trusted_override receipt policy \<longleftrightarrow>
     rap_allow_human_override policy \<and> active_trusted_override receipt policy \<noteq> None"

definition gate_triggers ::
  "ReviewReceiptProjection \<Rightarrow> ReviewReceiptDraft \<Rightarrow> ReviewAuthorizationPolicy \<Rightarrow> ReviewGateEnvironment \<Rightarrow>
   ReviewInvalidationTrigger list" where
  "gate_triggers receipt draft policy env =
     (let ts = add_trigger_if (rge_current_candidate env \<noteq> rd_candidate draft) Trigger_candidate_changed [];
          ts = fold (requirement_triggers draft env) (rap_required_evidence policy) ts;
          ts = state_triggers (ReviewReceiptProjection_state receipt) ts in
      add_trigger_if (\<not> trusted_override receipt policy \<and> list_ex pro_active (rj_overrides receipt))
        Trigger_override_untrusted ts)"

definition publish_hosted_check ::
  "ReviewAuthorizationPolicy \<Rightarrow> HostedReviewCheckPort option \<Rightarrow> ReviewReceiptDraft \<Rightarrow> ReviewAuthorizationSource \<Rightarrow>
   ContentDigest \<Rightarrow> ReviewGateError + HostedReviewCheckConfirmation option" where
  "publish_hosted_check policy hosted_check draft source digest =
     (if \<not> rap_require_hosted_check policy then Inr None
      else case hosted_check of
        None \<Rightarrow> Inl (gate_error Gate_hosted_check_failure True)
      | Some publish \<Rightarrow>
          (case publish \<lparr>hcu_receipt_id = rd_receipt_id draft, hcu_candidate = rd_candidate draft,
               hcu_state = Hosted_success, hcu_decision_digest = digest,
               hcu_summary = (if source = Source_human_override then ''APPROVED BY EXPLICIT HUMAN OVERRIDE''
                 else ''review receipt approved for the exact candidate'')\<rparr> of
             Inl e \<Rightarrow> Inl (gate_error Gate_hosted_check_failure (hce_retryable e))
           | Inr confirmation \<Rightarrow>
               if hcc_candidate confirmation \<noteq> rd_candidate draft \<or> hcc_state confirmation \<noteq> Hosted_success \<or>
                  hcc_decision_digest confirmation \<noteq> digest
               then Inl (gate_error Gate_hosted_check_failure False)
               else Inr (Some confirmation)))"

definition gate_denial :: "ReviewGateState \<Rightarrow> ReviewInvalidationTrigger list \<Rightarrow> string \<Rightarrow> ReviewGateDecision" where
  "gate_denial st ts explanation =
     \<lparr>rgd_state = st, rgd_authorization = None, rgd_triggers = ts, rgd_hosted_check = None, rgd_explanation = explanation\<rparr>"

definition gate_authorize ::
  "ReviewReceiptProjection \<Rightarrow> ReviewReceiptDraft \<Rightarrow> ReviewAuthorizationPolicy \<Rightarrow> HostedReviewCheckPort option \<Rightarrow>
   ReviewInvalidationTrigger list \<Rightarrow> ReviewAuthorizationSource \<Rightarrow> ReviewGateError + ReviewGateDecision" where
  "gate_authorize receipt draft policy hosted_check ts source =
     (let selected_override = (if source = Source_human_override then active_trusted_override receipt policy else None);
          digest = decision_digest draft receipt policy source selected_override in
      bind_result (publish_hosted_check policy hosted_check draft source digest) (\<lambda>confirmation.
      Inr \<lparr>rgd_state = (if source = Source_human_override then Gate_overridden else Gate_authorized),
           rgd_authorization = Some \<lparr>mau_receipt_id = rd_receipt_id draft, mau_candidate = rd_candidate draft,
             mau_source = source, mau_decision_digest = digest\<rparr>,
           rgd_triggers = ts, rgd_hosted_check = confirmation,
           rgd_explanation = (if source = Source_human_override then ''merge authorized by an explicit trusted human override''
             else ''merge authorized by the current review receipt'')\<rparr>))"

definition ReviewMergeGate_evaluate ::
  "ReviewReceiptProjection \<Rightarrow> ReviewAuthorizationPolicy \<Rightarrow> ReviewGateEnvironment \<Rightarrow> HostedReviewCheckPort option \<Rightarrow>
   ReviewGateError + ReviewGateDecision" where
  "ReviewMergeGate_evaluate receipt policy env hosted_check =
     (case rj_draft receipt of
        None \<Rightarrow> Inl (gate_error Gate_invalid_projection False)
      | Some draft \<Rightarrow>
          fail_if (rj_receipt_id receipt = None) (gate_error Gate_invalid_projection False)
          (fail_if (\<not> check_gate_policy policy) (gate_error Gate_invalid_policy False)
          (fail_if (\<not> check_gate_environment env) (gate_error Gate_invalid_environment False)
          (let ts = gate_triggers receipt draft policy env in
           if Trigger_candidate_changed \<in> set ts then
             Inr (gate_denial Gate_invalidated ts ''merge authorization denied because the candidate changed'')
           else if ts = [] then gate_authorize receipt draft policy hosted_check ts Source_receipt
           else if trusted_override receipt policy then
             gate_authorize receipt draft policy hosted_check ts Source_human_override
           else Inr (gate_denial (if evidence_invalidated ts then Gate_invalidated else Gate_denied) ts
             ''merge authorization denied because current review policy is not satisfied'')))))"


section \<open>What clears the triggers\<close>

text \<open>A required result is available and unchanged: what was recorded is still current, artifacts in any order.\<close>

definition evidence_unchanged :: "ReviewEvidenceBinding \<Rightarrow> ReviewEvidenceBinding \<Rightarrow> bool" where
  "evidence_unchanged recorded current \<longleftrightarrow>
     recorded\<lparr>reb_artifacts := []\<rparr> = current\<lparr>reb_artifacts := []\<rparr> \<and> set (reb_artifacts recorded) = set (reb_artifacts current)"

definition satisfies_requirement :: "ReviewPolicyRequirement \<Rightarrow> ReviewEvidenceBinding \<Rightarrow> bool" where
  "satisfies_requirement r b \<longleftrightarrow>
     reb_requirement_id b = rpr_requirement_id r \<and> reb_kind b = rpr_kind r \<and> reb_producer_name b = rpr_producer_name r \<and>
     reb_producer_version b = rpr_producer_version r \<and> reb_scenario_id b = rpr_scenario_id r \<and>
     reb_scenario_corpus_version b = rpr_scenario_corpus_version r"

definition requirement_met :: "ReviewReceiptDraft \<Rightarrow> ReviewGateEnvironment \<Rightarrow> ReviewPolicyRequirement \<Rightarrow> bool" where
  "requirement_met draft env r \<longleftrightarrow>
     (\<exists>recorded \<in> set (rd_evidence draft). \<exists>current \<in> set (rge_current_evidence env).
        satisfies_requirement r recorded \<and> evidence_unchanged recorded current)"

lemma add_trigger_simps [simp]:
  "add_trigger t ts \<noteq> []" "set (add_trigger t ts) = insert t (set ts)"
  "add_trigger_if c t ts = [] \<longleftrightarrow> \<not> c \<and> ts = []" "set (add_trigger_if c t ts) = (if c then insert t (set ts) else set ts)"
  by (auto simp: add_trigger_def add_trigger_if_def)

lemma same_artifacts_iff:
  assumes "distinct (map rad_artifact_id xs)" "distinct (map rad_artifact_id ys)"
  shows "same_artifacts xs ys \<longleftrightarrow> set xs = set ys"
proof
  assume same: "same_artifacts xs ys"
  have "x \<in> set ys" if "x \<in> set xs" for x
  proof -
    have "case find (\<lambda>a. rad_artifact_id a = rad_artifact_id x) ys of None \<Rightarrow> False | Some y \<Rightarrow> rad_digest y = rad_digest x"
      using same that by (simp add: same_artifacts_def list_all_iff split: if_split_asm)
    then obtain y where y: "find (\<lambda>a. rad_artifact_id a = rad_artifact_id x) ys = Some y" "rad_digest y = rad_digest x"
      by (auto split: option.split_asm)
    then have "y = x" using find_SomeD [OF y(1)] by (intro ReviewArtifactDigest.equality) simp_all
    with find_SomeD [OF y(1)] show ?thesis by simp
  qed
  moreover have "card (set xs) = card (set ys)"
    using same assms by (simp add: same_artifacts_def distinct_map distinct_card split: if_splits)
  ultimately show "set xs = set ys" by (intro card_subset_eq) auto
next
  assume eq: "set xs = set ys"
  have "length xs = length ys" using assms eq by (metis distinct_card distinct_map)
  moreover have "find (\<lambda>a. rad_artifact_id a = rad_artifact_id x) ys = Some x" if "x \<in> set xs" for x
    using that assms(2) eq by (simp add: find_distinct_key)
  ultimately show "same_artifacts xs ys" by (simp add: same_artifacts_def list_all_iff)
qed

lemma evidence_unchanged_iff:
  assumes "reb_requirement_id r = reb_requirement_id c"
    "distinct (map rad_artifact_id (reb_artifacts r))" "distinct (map rad_artifact_id (reb_artifacts c))"
    "satisfies_requirement q r"
  shows "evidence_unchanged r c \<longleftrightarrow> satisfies_requirement q c \<and> reb_result_digest c = reb_result_digest r \<and>
    reb_verification_evidence_id c = reb_verification_evidence_id r \<and>
    reb_scenario_application_revision c = reb_scenario_application_revision r \<and>
    reb_scenario_fake_script_digest c = reb_scenario_fake_script_digest r \<and>
    reb_scenario_terminal_capabilities_digest c = reb_scenario_terminal_capabilities_digest r \<and>
    same_artifacts (reb_artifacts r) (reb_artifacts c)"
  using assms unfolding same_artifacts_iff [OF assms(2,3)] by (cases r; cases c) (auto simp: evidence_unchanged_def satisfies_requirement_def)

lemma requirement_triggers_candidate [simp]:
  "Trigger_candidate_changed \<in> set (requirement_triggers draft env r ts) \<longleftrightarrow> Trigger_candidate_changed \<in> set ts"
  by (auto simp: requirement_triggers_def Let_def split: option.split)

definition evidence_wellformed :: "ReviewEvidenceBinding list \<Rightarrow> bool" where
  "evidence_wellformed bs \<longleftrightarrow> distinct (map reb_requirement_id bs) \<and>
     (\<forall>b \<in> set bs. distinct (map rad_artifact_id (reb_artifacts b)))"

lemma requirement_triggers_empty:
  assumes "evidence_wellformed (rd_evidence draft)" "evidence_wellformed (rge_current_evidence env)"
  shows "requirement_triggers draft env r ts = [] \<longleftrightarrow> ts = [] \<and> requirement_met draft env r"
proof -
  let ?at = "\<lambda>b. reb_requirement_id b = rpr_requirement_id r"
  have find: "find ?at bs = Some b \<longleftrightarrow> b \<in> set bs \<and> ?at b" if "evidence_wellformed bs" for bs b
    using that find_distinct_key [of reb_requirement_id bs b] by (auto simp: evidence_wellformed_def dest: find_SomeD)
  have "requirement_triggers draft env r ts = [] \<longleftrightarrow> ts = [] \<and>
    (\<exists>x y. find ?at (rd_evidence draft) = Some x \<and> find ?at (rge_current_evidence env) = Some y \<and>
      satisfies_requirement r x \<and> evidence_unchanged x y)"
  proof (cases "\<exists>x y. find ?at (rd_evidence draft) = Some x \<and> find ?at (rge_current_evidence env) = Some y")
    case True
    then obtain x y where xy: "find ?at (rd_evidence draft) = Some x" "find ?at (rge_current_evidence env) = Some y"
      by (elim exE conjE) (rule that)
    then have "?at x" "?at y" and dist: "distinct (map rad_artifact_id (reb_artifacts x))" "distinct (map rad_artifact_id (reb_artifacts y))"
      using assms by (auto simp: find evidence_wellformed_def)
    then have "satisfies_requirement r x \<Longrightarrow> evidence_unchanged x y \<longleftrightarrow> satisfies_requirement r y \<and>
      reb_result_digest y = reb_result_digest x \<and> reb_verification_evidence_id y = reb_verification_evidence_id x \<and>
      reb_scenario_application_revision y = reb_scenario_application_revision x \<and>
      reb_scenario_fake_script_digest y = reb_scenario_fake_script_digest x \<and>
      reb_scenario_terminal_capabilities_digest y = reb_scenario_terminal_capabilities_digest x \<and>
      same_artifacts (reb_artifacts x) (reb_artifacts y)"
      using evidence_unchanged_iff [OF _ dist] by simp
    with xy \<open>?at x\<close> \<open>?at y\<close> show ?thesis
      by (auto simp: requirement_triggers_def Let_def satisfies_requirement_def)
  qed (auto simp: requirement_triggers_def Let_def split: option.split)
  also have "\<dots> \<longleftrightarrow> ts = [] \<and> requirement_met draft env r"
  proof -
    have same_id: "reb_requirement_id y = reb_requirement_id x" if "evidence_unchanged x y" for x y
      using that by (cases x; cases y) (simp add: evidence_unchanged_def)
    show ?thesis
      unfolding requirement_met_def find [OF assms(1)] find [OF assms(2)]
      unfolding Bex_def using same_id satisfies_requirement_def by metis
  qed
  finally show ?thesis .
qed

lemma fold_requirement_triggers:
  assumes "evidence_wellformed (rd_evidence draft)" "evidence_wellformed (rge_current_evidence env)"
  shows "fold (requirement_triggers draft env) rs ts = [] \<longleftrightarrow> ts = [] \<and> (\<forall>r \<in> set rs. requirement_met draft env r)"
    and "Trigger_candidate_changed \<in> set (fold (requirement_triggers draft env) rs ts) \<longleftrightarrow> Trigger_candidate_changed \<in> set ts"
  by (induction rs arbitrary: ts) (auto simp: requirement_triggers_empty [OF assms])

lemma state_triggers_simps:
  "state_triggers st ts = [] \<longleftrightarrow> ts = [] \<and> st = Receipt_approved"
  "Trigger_candidate_changed \<in> set (state_triggers st ts) \<longleftrightarrow> Trigger_candidate_changed \<in> set ts"
  by (cases st; simp)+

lemma gate_triggers_cleared:
  assumes "evidence_wellformed (rd_evidence draft)" "evidence_wellformed (rge_current_evidence env)"
  shows "gate_triggers s draft policy env = [] \<longleftrightarrow> rge_current_candidate env = rd_candidate draft \<and>
      (\<forall>r \<in> set (rap_required_evidence policy). requirement_met draft env r) \<and>
      ReviewReceiptProjection_state s = Receipt_approved \<and>
      (trusted_override s policy \<or> \<not> list_ex pro_active (rj_overrides s))"
    and "Trigger_candidate_changed \<in> set (gate_triggers s draft policy env) \<longleftrightarrow> rge_current_candidate env \<noteq> rd_candidate draft"
  by (auto simp: gate_triggers_def Let_def fold_requirement_triggers [OF assms] state_triggers_simps split: if_splits)

lemma draft_evidence_wellformed:
  assumes "validate_review_receipt_draft d l = Inr ()"
  shows "evidence_wellformed (rd_evidence d)"
proof -
  have "check_draft_evidence d l bs = Inr () \<Longrightarrow> \<forall>b \<in> set bs. distinct (map rad_artifact_id (reb_artifacts b))" for bs
    by (induction bs) (auto simp: validate_review_evidence_binding_def)
  with assms show ?thesis by (auto simp: validate_review_receipt_draft_def evidence_wellformed_def)
qed

lemma environment_evidence_wellformed: "check_gate_environment env \<Longrightarrow> evidence_wellformed (rge_current_evidence env)"
  by (auto simp: check_gate_environment_def evidence_wellformed_def list_all_iff unit_result
      validate_review_evidence_binding_def)

lemma gate_authorizeD:
  assumes "gate_authorize s draft policy hosted ts source = Inr d" "rgd_authorization d = Some a"
  shows "mau_receipt_id a = rd_receipt_id draft" "mau_candidate a = rd_candidate draft" "mau_source a = source"
    "rgd_hosted_check d = None \<longrightarrow> \<not> rap_require_hosted_check policy"
    "rgd_hosted_check d = Some c \<longrightarrow> hosted \<noteq> None \<and> c = \<lparr>hcc_candidate = rd_candidate draft, hcc_state = Hosted_success,
        hcc_decision_digest = mau_decision_digest a\<rparr>"
  using assms by (auto simp: gate_authorize_def Let_def publish_hosted_check_def
      split: if_splits option.split_asm sum.split_asm)

lemma evaluateE:
  assumes "ReviewMergeGate_evaluate s policy env hosted = Inr d" "rgd_authorization d = Some a"
  obtains draft where "rj_draft s = Some draft" "check_gate_policy policy" "check_gate_environment env"
    "Trigger_candidate_changed \<notin> set (gate_triggers s draft policy env)"
    "gate_authorize s draft policy hosted (gate_triggers s draft policy env) (mau_source a) = Inr d"
    "mau_source a = Source_receipt \<and> gate_triggers s draft policy env = [] \<or>
     mau_source a = Source_human_override \<and> trusted_override s policy"
proof -
  obtain draft where draft: "rj_draft s = Some draft" using assms by (auto simp: ReviewMergeGate_evaluate_def split: option.split_asm)
  let ?ts = "gate_triggers s draft policy env"
  have ok: "check_gate_policy policy" "check_gate_environment env" "Trigger_candidate_changed \<notin> set ?ts"
    and "gate_authorize s draft policy hosted ?ts Source_receipt = Inr d \<and> ?ts = [] \<or>
      gate_authorize s draft policy hosted ?ts Source_human_override = Inr d \<and> trusted_override s policy"
    using assms draft by (auto simp: ReviewMergeGate_evaluate_def Let_def gate_denial_def split: if_split_asm)
  moreover have "mau_source a = source" if "gate_authorize s draft policy hosted ?ts source = Inr d" for source
    using gate_authorizeD(3) [OF that assms(2)] .
  ultimately have "gate_authorize s draft policy hosted ?ts (mau_source a) = Inr d"
    "mau_source a = Source_receipt \<and> ?ts = [] \<or> mau_source a = Source_human_override \<and> trusted_override s policy" by auto
  with draft ok show ?thesis by (rule that)
qed

section \<open>What an authorization means\<close>

definition review_upheld ::
  "ReviewReceiptProjection \<Rightarrow> ReviewReceiptDraft \<Rightarrow> ReviewAuthorizationPolicy \<Rightarrow> ReviewGateEnvironment \<Rightarrow> bool" where
  "review_upheld s draft policy env \<longleftrightarrow> ReviewReceiptProjection_state s = Receipt_approved \<and>
     (\<forall>r \<in> set (rap_required_evidence policy). requirement_met draft env r)"

definition override_upheld ::
  "ReviewReceiptLimits \<Rightarrow> ReviewReceiptProjection \<Rightarrow> ReviewAuthorizationPolicy \<Rightarrow> ReviewGateEnvironment \<Rightarrow> bool" where
  "override_upheld l s policy env \<longleftrightarrow> rap_allow_human_override policy \<and>
     (\<exists>v \<in> set (rj_overrides s). pro_active v \<and>
        ra_actor_id (ro_actor (pro_value v)) \<in> set (rap_trusted_override_actor_ids policy) \<and>
        ro_candidate (pro_value v) = rge_current_candidate env \<and>
        review_bounded_text (ro_reason (pro_value v)) (rl_maximum_text_bytes l))"

lemma trusted_override_upheld:
  assumes "receipt_ok l s" "rj_draft s = Some draft" "rge_current_candidate env = rd_candidate draft" "trusted_override s policy"
  shows "override_upheld l s policy env"
proof -
  obtain v where v: "v \<in> set (rj_overrides s)" "pro_active v" "rap_allow_human_override policy"
    "ra_actor_id (ro_actor (pro_value v)) \<in> set (rap_trusted_override_actor_ids policy)"
    using assms(4) by (auto simp: trusted_override_def active_trusted_override_def dest: find_SomeD)
  with assms(1-3) have "ro_candidate (pro_value v) = rge_current_candidate env"
    "validate_review_override (pro_value v) l = Inr ()" by (auto simp: receipt_ok_def)
  with v show ?thesis unfolding override_upheld_def by (auto simp: validate_review_override_def)
qed

definition confirming :: HostedReviewCheckPort where
  "confirming u = Inr \<lparr>hcc_candidate = hcu_candidate u, hcc_state = hcu_state u, hcc_decision_digest = hcu_decision_digest u\<rparr>"

lemma gate_authorizes:
  assumes "receipt_ok l s" "rj_draft s = Some draft" "check_gate_policy policy" "check_gate_environment env"
    and "rge_current_candidate env = rd_candidate draft" "review_upheld s draft policy env"
    and "\<forall>v \<in> set (rj_overrides s). \<not> pro_active v"
    and "rap_require_hosted_check policy \<longrightarrow> (\<exists>publish. hosted = Some publish \<and> (\<forall>u. publish u = confirming u))"
  shows "\<exists>d. ReviewMergeGate_evaluate s policy env hosted = Inr d \<and> rgd_state d = Gate_authorized \<and>
    rgd_triggers d = [] \<and> rgd_authorization d = Some \<lparr>mau_receipt_id = rd_receipt_id draft,
      mau_candidate = rd_candidate draft, mau_source = Source_receipt,
      mau_decision_digest = decision_digest draft s policy Source_receipt None\<rparr>"
proof -
  have draft: "validate_review_receipt_draft draft l = Inr ()" "rj_receipt_id s = Some (rd_receipt_id draft)"
    using assms(1,2) by (simp_all add: receipt_ok_def)
  have "gate_triggers s draft policy env = []"
    using gate_triggers_cleared(1) [OF draft_evidence_wellformed [OF draft(1)] environment_evidence_wellformed [OF assms(4)],
        of s policy] assms(5-7) by (auto simp: review_upheld_def list_ex_iff)
  moreover have "\<exists>c. publish_hosted_check policy hosted draft Source_receipt digest = Inr c" for digest
    using assms(8) by (auto simp: publish_hosted_check_def confirming_def)
  ultimately show ?thesis
    using assms(2-4) draft(2) unfolding ReviewMergeGate_evaluate_def gate_authorize_def by (fastforce simp: Let_def)
qed

definition sample_policy :: ReviewAuthorizationPolicy where
  "sample_policy =
     \<lparr>rap_required_evidence =
        [\<lparr>rpr_requirement_id = Id ''q'', rpr_kind = Review_verification, rpr_producer_name = ''n'', rpr_producer_version = ''v'',
          rpr_scenario_id = None, rpr_scenario_corpus_version = None\<rparr>],
      rap_allow_human_override = False, rap_trusted_override_actor_ids = [], rap_require_hosted_check = True\<rparr>"

definition sample_environment :: ReviewGateEnvironment where
  "sample_environment = \<lparr>rge_current_candidate = sample_candidate, rge_current_evidence = [sample_binding]\<rparr>"

lemma sample_gate:
  "check_gate_policy sample_policy" "check_gate_environment sample_environment"
  "list_all (requirement_met sample_review_draft sample_environment) (rap_required_evidence sample_policy)"
proof -
  show "check_gate_policy sample_policy"
    by (simp add: check_gate_policy_def sample_policy_def valid_requirement_def gate_bounded_text_def byte_def Let_def
        optional_def)
  show "check_gate_environment sample_environment"
    by (simp add: check_gate_environment_def sample_environment_def sample_review_valid)
  show "list_all (requirement_met sample_review_draft sample_environment) (rap_required_evidence sample_policy)"
    by (simp add: sample_policy_def sample_environment_def requirement_met_def sample_review_draft_def
        satisfies_requirement_def evidence_unchanged_def sample_binding_def)
qed

lemma sample_authorized:
  "\<exists>s d a. ReviewReceiptProjection_rebuild sample_review_events default_review_limits = Inr s \<and>
    ReviewMergeGate_evaluate s sample_policy sample_environment (Some confirming) = Inr d \<and> rgd_authorization d = Some a"
proof -
  obtain s where s: "ReviewReceiptProjection_rebuild sample_review_events default_review_limits = Inr s"
    "ReviewReceiptProjection_state s = Receipt_approved" "rj_draft s = Some sample_review_draft" "rj_overrides s = []"
    using sample_review_rebuilt by (elim exE conjE) (rule that)
  have "\<exists>d. ReviewMergeGate_evaluate s sample_policy sample_environment (Some confirming) = Inr d \<and> rgd_state d = Gate_authorized \<and>
    rgd_triggers d = [] \<and> rgd_authorization d = Some \<lparr>mau_receipt_id = rd_receipt_id sample_review_draft,
      mau_candidate = rd_candidate sample_review_draft, mau_source = Source_receipt,
      mau_decision_digest = decision_digest sample_review_draft s sample_policy Source_receipt None\<rparr>"
    using s sample_gate rebuild_receipt_ok [OF s(1)]
    by (intro gate_authorizes) (auto simp: review_upheld_def sample_environment_def sample_review_steps list_all_iff)
  with s(1) show ?thesis by blast
qed

text \<open>
  C3: the gate authorizes a merge only for the exact current candidate.  For a receipt built from any
  accepted history, an authorization names the receipt and its candidate, which is the candidate of
  the moment; it rests either on the review, that is an approved receipt in which every required
  result was recorded by the required producer and is still available and unchanged, or on an override
  in force, given with a reason for this very candidate by an actor the policy trusts; and when the
  policy requires the hosted check, the host has confirmed success for this candidate and this decision.
\<close>

theorem merge_authorization_sound:
  assumes "ReviewReceiptProjection_rebuild events l = Inr s"
    and "ReviewMergeGate_evaluate s policy env hosted = Inr d" "rgd_authorization d = Some a"
  shows "\<exists>draft. rj_draft s = Some draft \<and> mau_receipt_id a = rd_receipt_id draft \<and>
    mau_candidate a = rd_candidate draft \<and> mau_candidate a = rge_current_candidate env \<and>
    (case mau_source a of Source_receipt \<Rightarrow> review_upheld s draft policy env
      | Source_human_override \<Rightarrow> override_upheld l s policy env) \<and>
    (rap_require_hosted_check policy \<longrightarrow> hosted \<noteq> None \<and>
      rgd_hosted_check d = Some \<lparr>hcc_candidate = mau_candidate a, hcc_state = Hosted_success,
        hcc_decision_digest = mau_decision_digest a\<rparr>)"
  using assms(2,3)
proof (rule evaluateE)
  fix draft
  assume draft: "rj_draft s = Some draft" and env: "check_gate_environment env"
    and same: "Trigger_candidate_changed \<notin> set (gate_triggers s draft policy env)"
    and auth: "gate_authorize s draft policy hosted (gate_triggers s draft policy env) (mau_source a) = Inr d"
    and source: "mau_source a = Source_receipt \<and> gate_triggers s draft policy env = [] \<or>
      mau_source a = Source_human_override \<and> trusted_override s policy"
  note ok = rebuild_receipt_ok [OF assms(1)]
  have "validate_review_receipt_draft draft l = Inr ()" using ok draft by (simp add: receipt_ok_def)
  note cleared = gate_triggers_cleared [OF draft_evidence_wellformed [OF this] environment_evidence_wellformed [OF env]]
  have candidate: "rge_current_candidate env = rd_candidate draft" using same cleared(2) by blast
  have "case mau_source a of Source_receipt \<Rightarrow> review_upheld s draft policy env
      | Source_human_override \<Rightarrow> override_upheld l s policy env"
    using source cleared(1) trusted_override_upheld [OF ok draft candidate] by (auto simp: review_upheld_def)
  with draft candidate gate_authorizeD [OF auth assms(3)] show ?thesis
    by (cases "rgd_hosted_check d") auto
qed

theorem merge_authorization_sound_witness:
  "\<exists>s d a. ReviewMergeGate_evaluate s sample_policy sample_environment (Some confirming) = Inr d \<and>
    rgd_authorization d = Some a \<and> mau_candidate a = rge_current_candidate sample_environment \<and>
    rgd_hosted_check d = Some \<lparr>hcc_candidate = mau_candidate a, hcc_state = Hosted_success,
      hcc_decision_digest = mau_decision_digest a\<rparr>"
proof -
  obtain s d a where h: "ReviewReceiptProjection_rebuild sample_review_events default_review_limits = Inr s"
    "ReviewMergeGate_evaluate s sample_policy sample_environment (Some confirming) = Inr d" "rgd_authorization d = Some a"
    using sample_authorized by (elim exE conjE) (rule that)
  have "rap_require_hosted_check sample_policy" by (simp add: sample_policy_def)
  with merge_authorization_sound [OF h] h(2,3) show ?thesis by (intro exI [of _ s] exI [of _ d] exI [of _ a]) auto
qed

text \<open>
  C17: a review that holds is enough.  For a valid policy and environment, when the candidate is the
  one reviewed, the receipt is approved, every required result is unchanged, no override is in force
  and the host, if the policy asks for it, confirms what it is sent, the gate authorizes the merge on the
  strength of the receipt and reports no trigger.
\<close>

theorem upheld_review_is_authorized:
  assumes "ReviewReceiptProjection_rebuild events l = Inr s" "rj_draft s = Some draft"
    and "check_gate_policy policy" "check_gate_environment env"
    and "rge_current_candidate env = rd_candidate draft" "review_upheld s draft policy env"
    and "\<forall>v \<in> set (rj_overrides s). \<not> pro_active v"
    and "rap_require_hosted_check policy \<longrightarrow> (\<exists>publish. hosted = Some publish \<and> (\<forall>u. publish u = confirming u))"
  shows "\<exists>d. ReviewMergeGate_evaluate s policy env hosted = Inr d \<and> rgd_state d = Gate_authorized \<and>
    rgd_triggers d = [] \<and> rgd_authorization d = Some \<lparr>mau_receipt_id = rd_receipt_id draft,
      mau_candidate = rd_candidate draft, mau_source = Source_receipt,
      mau_decision_digest = decision_digest draft s policy Source_receipt None\<rparr>"
  by (rule gate_authorizes [OF rebuild_receipt_ok [OF assms(1)] assms(2-8)])

theorem upheld_review_is_authorized_witness:
  "\<exists>s d. ReviewMergeGate_evaluate s sample_policy sample_environment (Some confirming) = Inr d \<and>
    rgd_state d = Gate_authorized"
proof -
  obtain s where s: "ReviewReceiptProjection_rebuild sample_review_events default_review_limits = Inr s"
    "ReviewReceiptProjection_state s = Receipt_approved" "rj_draft s = Some sample_review_draft" "rj_overrides s = []"
    using sample_review_rebuilt by (elim exE conjE) (rule that)
  have "review_upheld s sample_review_draft sample_policy sample_environment"
    using s(2) sample_gate(3) by (simp add: review_upheld_def list_all_iff)
  moreover have "rge_current_candidate sample_environment = rd_candidate sample_review_draft"
    by (simp add: sample_environment_def sample_review_steps)
  ultimately show ?thesis
    using upheld_review_is_authorized [OF s(1,3) sample_gate(1,2), of "Some confirming"] s(4) by auto
qed

text \<open>
  C34: the decision digest does not separate the artifacts of a finding from its reproduction evidence.
  The canonical text lists both without saying how many there are of each, so moving the last artifact
  to the front of the evidence leaves the digest of the decision as it was: the host cannot tell the two
  reviews apart.
\<close>

theorem decision_digest_ambiguous:
  "decision_digest draft (s\<lparr>rj_findings := fs @ \<lparr>prf_finding =
       f\<lparr>rf_artifacts := artifacts @ [Id x], rf_reproduction_evidence_ids := evidence\<rparr>, prf_open = b\<rparr> # gs\<rparr>) policy source v =
   decision_digest draft (s\<lparr>rj_findings := fs @ \<lparr>prf_finding =
       f\<lparr>rf_artifacts := artifacts, rf_reproduction_evidence_ids := Id x # evidence\<rparr>, prf_open = b\<rparr> # gs\<rparr>) policy source v"
  by (simp add: decision_digest_def canonical_decision_def canonical_finding_def)

end
