(* ===== verification/Spec2Isabelle.thy ===== *)
theory Spec2Isabelle
  imports Session Schedule ProjectBacklog Mp4 WorkingSet Presentation MemorySelection ReviewGate
begin

text \<open>
  A verification library for the domain kernel of aiforge, a terminal client for language models.

  \<^bold>\<open>The program.\<close>  A session is an append-only log of events.  Everything the program knows of a
  session is computed from that log by projections: the state of each run, the usage and cost of its
  inferences, the spend on paid tools, the plan with its tasks and child runs, the backlog of a
  repository, the saved memories, the receipts of reviews.  Around the log stand the decisions
  taken before an event is recorded: whether a tool may run, whether another inference may be paid
  for, which tasks are dispatched, what an observation may touch, what goes into the context of an inference, whether a reviewed change may be merged.  At
  the edge, bytes become data: text, money,
  audio and video files.  The program is C++ under \<^verbatim>\<open>src/lib\<close> with its declarations under
  \<^verbatim>\<open>include/aiforge\<close>.

  \<^bold>\<open>Theories and sources.\<close>
  \<^item> \<open>Prelude\<close>: early returns of \<^verbatim>\<open>std::expected\<close>, lists looked up and updated by key, decimal digits.
  \<^item> \<open>Text\<close>: \<^verbatim>\<open>detail/utf8_text.hpp\<close>, \<^verbatim>\<open>domain/ids.hpp\<close>, \<^verbatim>\<open>domain/digest.hpp\<close>.
  \<^item> \<open>Money\<close>, \<open>Pricing\<close>: \<^verbatim>\<open>money.cpp\<close> and \<^verbatim>\<open>pricing.cpp\<close>, decimal amounts as coefficient and scale.
  \<^item> \<open>Persona\<close>, \<open>OpsTarget\<close>, \<open>ToolPolicy\<close>: \<^verbatim>\<open>persona.cpp\<close>, \<^verbatim>\<open>ops_target.cpp\<close>, \<^verbatim>\<open>tool_policy.cpp\<close>, the
    authorities that decide what may be selected, observed and executed.
  \<^item> \<open>Content\<close>, \<open>Events\<close>, \<open>EventLog\<close>, \<open>Projection\<close>: the vocabulary of \<^verbatim>\<open>domain/content.hpp\<close> and
    \<^verbatim>\<open>domain/events.hpp\<close>, the log of \<^verbatim>\<open>event_log.cpp\<close>, and the interfaces every projection satisfies.
  \<^item> \<open>RunProjection\<close>, \<open>UsageLedger\<close>, \<open>CostEstimate\<close>, \<open>ToolSpend\<close>, \<open>InferenceSpend\<close>:
    \<^verbatim>\<open>run_projection.cpp\<close>, \<^verbatim>\<open>usage_ledger.cpp\<close> (both halves), \<^verbatim>\<open>tool_spend.cpp\<close>, \<^verbatim>\<open>inference_spend.cpp\<close>.
  \<^item> \<open>Plan\<close>, \<open>ChildRun\<close>, \<open>PlanProjection\<close>: \<^verbatim>\<open>plan.cpp\<close> and \<^verbatim>\<open>child_run.cpp\<close>; \<open>TaskScheduler\<close>,
    \<open>Readiness\<close>, \<open>Schedule\<close>: \<^verbatim>\<open>task_scheduler.cpp\<close>, its fixed point and its guarantees;
    \<open>ProjectBacklog\<close>: \<^verbatim>\<open>project_backlog.cpp\<close>.
  \<^item> \<open>Ordered\<close>, \<open>ContextBuilder\<close>, \<open>ContextParcel\<close>, \<open>ContextSelection\<close>, \<open>WorkingSet\<close>: sorted containers,
    \<^verbatim>\<open>context_builder.cpp\<close>, \<^verbatim>\<open>context_parcel.cpp\<close>, \<^verbatim>\<open>context_selection.cpp\<close> and the guarantees of the selection.
  \<^item> \<open>Wav\<close>, \<open>Mp4\<close>, \<open>Presentation\<close>: \<^verbatim>\<open>wav.cpp\<close>, \<^verbatim>\<open>mp4.cpp\<close>, \<^verbatim>\<open>presentation_text.cpp\<close>.
  \<^item> \<open>Sha256\<close>: \<^verbatim>\<open>detail/sha256.hpp\<close>; \<open>Memory\<close>, \<open>MemoryProjection\<close>, \<open>MemorySelection\<close>: \<^verbatim>\<open>memory.cpp\<close> and
    \<^verbatim>\<open>memory_projection.cpp\<close>, the validation, history, digests and selection of saved memories.
  \<^item> \<open>Review\<close>, \<open>ReviewProjection\<close>, \<open>ReviewGate\<close>: \<^verbatim>\<open>review_receipt.cpp\<close> (validators and projection) and
    \<^verbatim>\<open>review_gate.cpp\<close>, the gate that authorizes merges.
  \<^item> \<open>Session\<close> and this theory: what holds of several projections of one log.  \<open>Session\<close> interprets the
    interface of the log for the usage ledger, the ceiling, the tool ledger, the plan, the memories and the
    receipt; the run projection also looks at the run of an event and is not among them.

  \<^bold>\<open>How the code is represented.\<close>  A struct is a record and an enum a datatype with the constructors
  of the source, prefixed where two enums share a name.  A member function that changes its object
  takes and returns the record.  \<^verbatim>\<open>std::expected\<close> is a sum; error codes are kept, with the identities an
  error carries where callers use them, and messages are dropped.  Where the code copies an object,
  changes the copy and assigns it back, a failing step returns \<open>Inl\<close> and the old record stays.
  Fixed-width integers are words of that width, \<^verbatim>\<open>std::size_t\<close> and lengths are natural numbers,
  timestamps are integers.  \<^verbatim>\<open>std::set\<close> is a set, \<^verbatim>\<open>std::map\<close> a map or, where its order is visible, a list
  sorted by key; \<^verbatim>\<open>std::vector\<close> is a list.  \<^verbatim>\<open>std::ranges::sort\<close> is an insertion sort where the
  comparator is a strict order on distinct keys, since then only one result is sorted.  The comparator of
  context candidates is no order in reviews: there the sort is an argument of the selection, and the
  theorems name what they use of it.  Character classes are those of
  the C locale.  Paths are iterated and normalized as libstdc++ does on POSIX.  Invariants that C++
  classes establish in their only constructors, such as canonical amounts, appear as hypotheses.

  \<^bold>\<open>Interfaces.\<close>  \<open>Projection\<close> states as locales what a projection promises of its step: that sequence
  numbers increase, that an invariant is kept, that a measure of the state grows by what the event
  adds, that the past evolves only in one direction.  Each projection interprets them on its own
  \<open>apply\<close>, and the properties of whole histories are facts of the interpretations.  \<open>Ordered\<close> has the
  interfaces of a comparator that compares keys, of a sort that permutes its input, and of one that
  also sorts it where the comparator is a strict weak order, \<open>Mp4\<close> the one of a box loop, which is interpreted at
  each of the four levels of the file, \<open>ReviewProjection\<close> the one of a register whose entries are added
  once and closed at most once, which findings, verdicts and overrides interpret.

  \<^bold>\<open>What the theorems show.\<close>  Projections: every accepted history leaves a consistent state, totals are
  exact sums, ended runs and superseded revisions are final, reservations are never exceeded, a
  ceiling never widens, of two concurrent backlog changes one is refused; the state of a review is a
  function of its history read without order; memories stem from accepted proposals.  Decisions: nothing is
  allowed beyond profile, grant or ceiling; dispatched tasks do not conflict, readiness is the least
  fixed point and the scheduler does not stall; contexts keep instructions of authority, fit their
  window and budgets, call evidence current only when it is, and show exactly the selected memories; a
  merge is authorized only for the reviewed candidate with its evidence unchanged, or on a trusted
  override, and a review that holds is authorized.  Data: amounts, products and
  estimates are exact; the cycle search decides cyclicity; WAV data round-trips; the MP4 validator
  accepts exactly the well-formed box structures; the digests are SHA-256, with the constants of the standard; text shown on a
  terminal holds no control sequences.  Several theorems state defects of the code; they are listed as findings beside this
  library.

  \<^bold>\<open>Loops and bounds.\<close>  Loops are structural recursions, or functions with a measure: the rest of the
  input for the scanners, the bytes left for the chunk and box loops.  The depth-first search carries
  fuel of one more than the number of tasks, and is shown to return for every graph with that fuel.
  The readiness passes are bounded by the number of tasks, as in the source, and shown to reach the
  fixed point within the bound.  A stop token is an argument that answers each poll.

  \<^bold>\<open>Not modelled.\<close>  The run kernel and the chat session orchestrate the modelled components over
  threads and ports.  Storage, configuration, the agent protocol and the command line go through
  JSON, SQLite and CLI11, which the repository does not contain; the adapters talk to providers,
  terminals and operating systems.  Conversation summaries, local sources, the sessions around ops
  observations, the commands on memories, tool registration, repository indexing, media services,
  catalogs, credentials and views are further clients of the modelled parts that this library does not reach.  Of the event
  vocabulary, the payloads of those parts are one constructor without content.  Allocation failure
  and the \<^verbatim>\<open>catch (...)\<close> branches that report it are outside the model.
\<close>

section \<open>Two projections of one history\<close>

text \<open>
  C29: the run projection and the usage ledger agree.  Whatever history both accept, the usage a run
  reports and the total the ledger accounts for are the same in every counter, although one keeps a
  single sum and the other a record per inference.
\<close>

theorem run_and_ledger_agree:
  assumes "replay RunProjection_apply RunProjection_initial es = Inr r"
    and "replay UsageLedger_apply UsageLedger_initial es = Inr u"
  shows "rp_usage r = ul_total_usage u"
proof -
  have "unat (f (rp_usage r)) = unat (f (ul_total_usage u))" if "f \<in> set usage_fields" for f
    using run_total_usage [OF assms(1) that] ledger_total_usage [OF assms(2) that] by simp
  from this [of input_tokens] this [of output_tokens] this [of cached_input_tokens] this [of reasoning_tokens]
  show ?thesis by (intro Usage.equality) (simp_all add: usage_fields_def word_unat_eq_iff)
qed

lemma sample_run_ledger: "\<exists>u. replay UsageLedger_apply UsageLedger_initial sample_run = Inr u"
  by (simp add: sample_run_simps UsageLedger_initial_def UsageLedger_apply_def ledger_defs empty_usage_def
      add_usage_def add_checked_def replicate_numeral_Cons word_le_nat_alt)

theorem run_and_ledger_agree_witness:
  "\<exists>r u. replay RunProjection_apply RunProjection_initial sample_run = Inr r \<and>
    replay UsageLedger_apply UsageLedger_initial sample_run = Inr u \<and> rp_usage r = ul_total_usage u"
  using sample_run_accepted sample_run_ledger run_and_ledger_agree by blast

text \<open>
  C37: the log and six projections.  When the usage ledger, the spend ceiling, the tool ledger, the plan,
  the memories or a review receipt refuses an event of a logged history, the reason is the content of
  the event, never a zero number, a duplicate identity or a sequence number that does not increase: what
  the log checks of an envelope is all that these projections require of it.
\<close>

theorem logged_history_has_good_envelopes:
  assumes "replay SessionEventLog_append (SessionEventLog_empty sid) es = Inr elog"
  shows "\<not> (\<exists>x. replay UsageLedger_apply UsageLedger_initial (log_events elog) = Inl x \<and> ledger_envelope_error x) \<and>
    \<not> (\<exists>x. replay SpendCeiling_apply SpendCeiling_initial (log_events elog) = Inl x \<and> ledger_envelope_error x) \<and>
    \<not> (\<exists>x. replay ToolSpendLedger_apply ToolSpendLedger_initial (log_events elog) = Inl x \<and> tool_envelope_error x) \<and>
    \<not> (\<exists>x. PlanGraph_rebuild l (log_events elog) = Inl x \<and> plan_envelope_error x) \<and>
    \<not> (\<exists>x. MemoryProjection_rebuild (log_events elog) m = Inl x \<and> memory_envelope_error x) \<and>
    \<not> (\<exists>x. ReviewReceiptProjection_rebuild (log_events elog) r = Inl x \<and> review_envelope_error x)"
proof -
  note h = logged_history [OF assms]
  have "\<not> ledger_envelope_error x" if "replay UsageLedger_apply UsageLedger_initial es = Inl x" for x
    using ledger_enveloped.replay_envelope [OF that] h by (simp add: UsageLedger_initial_def)
  moreover have "\<not> ledger_envelope_error x" if "replay SpendCeiling_apply SpendCeiling_initial es = Inl x" for x
    using ceiling_enveloped.replay_envelope [OF that] h by (simp add: SpendCeiling_initial_def)
  moreover have "\<not> tool_envelope_error x" if "replay ToolSpendLedger_apply ToolSpendLedger_initial es = Inl x" for x
    using tool_enveloped.replay_envelope [OF that] h by (simp add: ToolSpendLedger_initial_def)
  moreover have "\<not> plan_envelope_error x" if "PlanGraph_rebuild l es = Inl x" for x
    using plan_enveloped.replay_envelope [OF that [unfolded PlanGraph_rebuild_def]] h by (simp add: PlanGraph_initial_def)
  moreover have "\<not> memory_envelope_error x" if "MemoryProjection_rebuild es m = Inl x" for x
    using memory_enveloped.replay_envelope [OF that [unfolded MemoryProjection_rebuild_def]] h
    by (simp add: MemoryProjection_initial_def)
  moreover have "\<not> review_envelope_error x" if "ReviewReceiptProjection_rebuild es r = Inl x" for x
    using receipt_enveloped.replay_envelope [OF that [unfolded ReviewReceiptProjection_rebuild_def]] h
    by (simp add: ReviewReceiptProjection_initial_def)
  ultimately show ?thesis unfolding h(1) by blast
qed

text \<open>A log with a memory event that the memories refuse for its content, and a review.\<close>

definition sample_session_events :: "RunEvent list" where
  "sample_session_events = sample_review_events @ [sample_expiry\<lparr>metadata := (metadata sample_expiry)
     \<lparr>event_id := Id ''x'', em_sequence := 8\<rparr>\<rparr>]"

theorem logged_history_has_good_envelopes_witness:
  "\<exists>elog. replay SessionEventLog_append (SessionEventLog_empty (Id ''s'')) sample_session_events = Inr elog \<and>
    \<not> (\<exists>x. replay UsageLedger_apply UsageLedger_initial (log_events elog) = Inl x \<and> ledger_envelope_error x) \<and>
    \<not> (\<exists>x. replay SpendCeiling_apply SpendCeiling_initial (log_events elog) = Inl x \<and> ledger_envelope_error x) \<and>
    \<not> (\<exists>x. replay ToolSpendLedger_apply ToolSpendLedger_initial (log_events elog) = Inl x \<and> tool_envelope_error x) \<and>
    \<not> (\<exists>x. PlanGraph_rebuild default_plan_limits (log_events elog) = Inl x \<and> plan_envelope_error x) \<and>
    \<not> (\<exists>x. MemoryProjection_rebuild (log_events elog) default_memory_limits = Inl x \<and> memory_envelope_error x) \<and>
    \<not> (\<exists>x. ReviewReceiptProjection_rebuild (log_events elog) default_review_limits = Inl x \<and> review_envelope_error x)"
proof -
  have "history_ok sample_session_events"
    by (simp add: history_ok_def sample_session_events_def sample_review_events_def sample_expiry_def sample_event_def
        replicate_numeral_Cons word_less_nat_alt)
  then obtain elog where e: "replay SessionEventLog_append (SessionEventLog_empty (Id ''s'')) sample_session_events = Inr elog"
    using append_events by blast
  with logged_history_has_good_envelopes [OF e] show ?thesis by blast
qed

end
